(* ===== verification/Bridge_Prelude.thy ===== *)
theory Bridge_Prelude
  imports Main "HOL-Library.Word"
begin

unbundle bit_operations_syntax

text \<open>
  Shared vocabulary of the development: Rust's machine integers, the error type of the
  Solana entry points, the error monad in which every handler is written, checked and
  saturating arithmetic, byte slices and the little-endian codecs of the zero-copy account
  layouts. Fixed arrays of bytes that the code only stores, compares and hashes
  (\<open>[u8; 32]\<close> hashes and public keys) are words of the same width, read and written
  little-endian, so that the codecs are total bijections.
\<close>

section \<open>Types\<close>

type_synonym u8 = "8 word"
type_synonym u16 = "16 word"
type_synonym u32 = "32 word"
type_synonym u64 = "64 word"
type_synonym u128 = "128 word"
type_synonym i64 = "64 word"
type_synonym bytes = "u8 list"
type_synonym hash32 = "256 word"
type_synonym pubkey = "256 word"

text \<open>
  The errors of \<open>pinocchio::program_error::ProgramError\<close> the sources return, and
  \<open>Panic\<close> for an abort of the program (an index out of range, or an arithmetic overflow:
  the release profile sets \<open>overflow-checks = true\<close>). Either way the transaction is
  rolled back.
\<close>

datatype program_error =
    InvalidArgument
  | InvalidInstructionData
  | InvalidAccountData
  | InsufficientFunds
  | IncorrectProgramId
  | MissingRequiredSignature
  | AccountAlreadyInitialized
  | UninitializedAccount
  | NotEnoughAccountKeys
  | InvalidSeeds
  | IllegalOwner
  | ArithmeticOverflow
  | InvalidAccountOwner
  | AccountDataTooSmall
  | MaxSeedLengthExceeded
  | Custom nat
  | Panic

type_synonym 'a result = "program_error + 'a"

section \<open>Collections of rewrite rules\<close>

named_theorems res_simps \<open>inversion of successful runs in the error monad\<close>
named_theorems slice_simps \<open>slices of concatenated byte strings of known length\<close>
named_theorems codec_simps \<open>lengths and round trips of byte codecs\<close>

section \<open>The error monad\<close>

definition bindE :: "'a result \<Rightarrow> ('a \<Rightarrow> 'b result) \<Rightarrow> 'b result" where
  "bindE m f = (case m of Inl e \<Rightarrow> Inl e | Inr x \<Rightarrow> f x)"

text \<open>Rust's \<open>if !cond { return Err(e) }\<close> where it stands between two other steps.\<close>

definition ensure :: "bool \<Rightarrow> program_error \<Rightarrow> unit result" where
  "ensure c e = (if c then Inr () else Inl e)"

definition ok_or :: "'a option \<Rightarrow> program_error \<Rightarrow> 'a result" where
  "ok_or x e = (case x of None \<Rightarrow> Inl e | Some y \<Rightarrow> Inr y)"

lemma bindE_Inl [simp]: "bindE (Inl e) f = Inl e"
  by (simp add: bindE_def)

lemma bindE_Inr [simp]: "bindE (Inr x) f = f x"
  by (simp add: bindE_def)

lemma bindE_eq_Inr [res_simps]: "bindE m f = Inr y \<longleftrightarrow> (\<exists>x. m = Inr x \<and> f x = Inr y)"
  by (cases m) auto

lemma bindE_eq_Inl: "bindE m f = Inl e \<longleftrightarrow> m = Inl e \<or> (\<exists>x. m = Inr x \<and> f x = Inl e)"
  by (cases m) auto

lemma bindE_cong [fundef_cong]:
  "m = m' \<Longrightarrow> (\<And>x. m' = Inr x \<Longrightarrow> f x = g x) \<Longrightarrow> bindE m f = bindE m' g"
  by (cases m') auto

lemma bindE_assoc: "bindE (bindE m f) g = bindE m (\<lambda>x. bindE (f x) g)"
  by (cases m) auto

lemma if_Inl_eq_Inr [res_simps]: "(if c then Inl e else k) = Inr y \<longleftrightarrow> \<not> c \<and> k = Inr y"
  by simp

lemma ensure_eq_Inr [res_simps]: "ensure c e = Inr u \<longleftrightarrow> c"
  by (simp add: ensure_def)

lemma ensure_True [simp]: "c \<Longrightarrow> ensure c e = Inr ()"
  by (simp add: ensure_def)

lemma ensure_False [simp]: "\<not> c \<Longrightarrow> ensure c e = Inl e"
  by (simp add: ensure_def)

lemma ok_or_eq_Inr [res_simps]: "ok_or x e = Inr y \<longleftrightarrow> x = Some y"
  by (cases x) (auto simp: ok_or_def)

lemma ok_or_simps [simp]: "ok_or (Some x) e = Inr x" "ok_or None e = Inl e"
  by (simp_all add: ok_or_def)

lemma is_Inr_iff: "isl m \<longleftrightarrow> \<not> (\<exists>x. m = Inr x)"
  by (cases m) auto

section \<open>Checked and saturating arithmetic\<close>

definition checked_add :: "'a::len word \<Rightarrow> 'a word \<Rightarrow> 'a word option" where
  "checked_add a b = (if unat a + unat b < 2 ^ LENGTH('a) then Some (a + b) else None)"

definition checked_sub :: "'a::len word \<Rightarrow> 'a word \<Rightarrow> 'a word option" where
  "checked_sub a b = (if b \<le> a then Some (a - b) else None)"

definition checked_mul :: "'a::len word \<Rightarrow> 'a word \<Rightarrow> 'a word option" where
  "checked_mul a b = (if unat a * unat b < 2 ^ LENGTH('a) then Some (a * b) else None)"

definition saturating_sub :: "'a::len word \<Rightarrow> 'a word \<Rightarrow> 'a word" where
  "saturating_sub a b = (if b \<le> a then a - b else 0)"

definition saturating_add :: "'a::len word \<Rightarrow> 'a word \<Rightarrow> 'a word" where
  "saturating_add a b = (if unat a + unat b < 2 ^ LENGTH('a) then a + b else - 1)"

lemma checked_add_eq_Some:
  "checked_add (a::'a::len word) b = Some c \<longleftrightarrow>
     unat a + unat b < 2 ^ LENGTH('a) \<and> c = a + b"
  by (auto simp: checked_add_def)

lemma unat_checked_add: "checked_add a b = Some c \<Longrightarrow> unat c = unat a + unat b"
  by (auto simp: checked_add_def unat_word_ariths split: if_splits)

lemma checked_sub_eq_Some: "checked_sub a b = Some c \<longleftrightarrow> b \<le> a \<and> c = a - b"
  by (auto simp: checked_sub_def)

lemma unat_checked_sub: "checked_sub a b = Some c \<Longrightarrow> unat c = unat a - unat b \<and> unat b \<le> unat a"
  by (auto simp: checked_sub_def unat_sub word_le_nat_alt split: if_splits)

lemma unat_checked_mul: "checked_mul a b = Some c \<Longrightarrow> unat c = unat a * unat b"
  by (auto simp: checked_mul_def unat_word_ariths split: if_splits)

lemma unat_saturating_sub: "unat (saturating_sub a b) = unat a - unat b"
  by (auto simp: saturating_sub_def unat_sub word_le_nat_alt)

lemma unat_saturating_add:
  "unat (saturating_add (a::'a::len word) b) = min (unat a + unat b) (2 ^ LENGTH('a) - 1)"
  by (auto simp: saturating_add_def unat_word_ariths unsigned_minus_1_eq_mask mask_eq_exp_minus_1)

section \<open>Slices\<close>

definition bslice :: "nat \<Rightarrow> nat \<Rightarrow> 'a list \<Rightarrow> 'a list" where
  "bslice off n xs = take n (drop off xs)"

lemma length_bslice [simp]: "length (bslice off n xs) = min n (length xs - off)"
  by (simp add: bslice_def)

lemma slice_skip [slice_simps]: "length a \<le> off \<Longrightarrow> bslice off n (a @ b) = bslice (off - length a) n b"
  by (simp add: bslice_def)

lemma slice_here [slice_simps]: "length a = n \<Longrightarrow> bslice 0 n (a @ b) = a"
  by (simp add: bslice_def)

lemma slice_all [slice_simps]: "length a = n \<Longrightarrow> bslice 0 n a = a"
  by (simp add: bslice_def)

lemma slice_within: "off + n \<le> length a \<Longrightarrow> bslice off n (a @ b) = bslice off n a"
  by (simp add: bslice_def)

lemma slice_join: "bslice i m xs @ bslice j n xs = bslice i (m + n) xs" if "j = i + m"
  by (simp add: that bslice_def take_add add.commute)

section \<open>Little-endian bytes\<close>

text \<open>\<open>to_le_bytes\<close> and \<open>from_le_bytes\<close> of Rust's integers, at any width.\<close>

primrec le_bytes :: "nat \<Rightarrow> 'a::len word \<Rightarrow> bytes" where
  "le_bytes 0 w = []"
| "le_bytes (Suc n) w = ucast w # le_bytes n (drop_bit 8 w)"

primrec from_le :: "bytes \<Rightarrow> 'a::len word" where
  "from_le [] = 0"
| "from_le (b # bs) = ucast b + 256 * from_le bs"

text \<open>The number a byte string denotes, least significant byte first.\<close>

primrec le_nat :: "bytes \<Rightarrow> nat" where
  "le_nat [] = 0"
| "le_nat (b # bs) = unat b + 256 * le_nat bs"

abbreviation bytes4 :: "u32 \<Rightarrow> bytes" where "bytes4 \<equiv> le_bytes 4"
abbreviation bytes8 :: "u64 \<Rightarrow> bytes" where "bytes8 \<equiv> le_bytes 8"
abbreviation bytes32 :: "hash32 \<Rightarrow> bytes" where "bytes32 \<equiv> le_bytes 32"

lemma length_le_bytes [simp, codec_simps]: "length (le_bytes n w) = n"
  by (induction n arbitrary: w) simp_all

lemma unat_bound: "unat (w::'a::len word) < 2 ^ LENGTH('a)"
  by (rule unsigned_less)

lemma unat_drop_bit_div: "unat (drop_bit n w) = unat w div 2 ^ n"
  unfolding unat_drop_bit_eq by (rule drop_bit_eq_div)

lemma unat_push_bit_mult: "unat (push_bit n (w :: 'a::len word)) = (unat w * 2 ^ n) mod 2 ^ LENGTH('a)"
  unfolding unsigned_push_bit_eq by (simp only: take_bit_eq_mod push_bit_eq_mult)

lemma bit_word_odd: "bit w n \<longleftrightarrow> odd (unat (w :: 'a::len word) div 2 ^ n)"
proof -
  have "bit w n = bit (unat w) n" by (simp add: bit_unsigned_iff)
  then show ?thesis by (simp only: bit_iff_odd)
qed

lemma unat_take_bit_mod: "unat (take_bit n w) = unat w mod 2 ^ n"
  unfolding unsigned_take_bit_eq by (rule take_bit_eq_mod)

lemma unat_ucast_up: "unat (ucast (x :: 'a::len word) :: 'b::len word) = unat x"
  if "LENGTH('a) \<le> LENGTH('b)"
proof -
  have "unat x < 2 ^ LENGTH('b)"
    using unat_bound [of x] that by (meson less_le_trans one_le_numeral power_increasing)
  then show ?thesis by (simp add: unsigned_ucast_eq take_bit_eq_mod)
qed

lemma unat_ucast_mod: "unat (ucast x :: 'b::len word) = unat x mod 2 ^ LENGTH('b)"
  unfolding unsigned_ucast_eq by (rule take_bit_eq_mod)

lemma unat_u8_bound: "unat (b::u8) < 256"
  using unat_bound [of b] by simp

lemma le_nat_bound: "le_nat bs < 256 ^ length bs"
proof (induction bs)
  case (Cons b bs)
  have "unat b < 256" by (rule unat_u8_bound)
  with Cons.IH have "unat b + 256 * le_nat bs < 256 * 256 ^ length bs"
    by linarith
  then show ?case by simp
qed simp

lemma le_nat_append: "le_nat (xs @ ys) = le_nat xs + 256 ^ length xs * le_nat ys"
  by (induction xs) (simp_all add: algebra_simps)

lemma le_nat_replicate_0 [simp]: "le_nat (replicate n 0) = 0"
  by (induction n) simp_all

lemma le_nat_inj: "length xs = length ys \<Longrightarrow> le_nat xs = le_nat ys \<Longrightarrow> xs = ys"
proof (induction xs ys rule: list_induct2)
  case (Cons x xs y ys)
  have eq: "unat x + 256 * le_nat xs = unat y + 256 * le_nat ys" using Cons.prems by simp
  have "(unat x + 256 * le_nat xs) mod 256 = unat x" "(unat y + 256 * le_nat ys) mod 256 = unat y"
    using unat_u8_bound by simp_all
  with eq have "unat x = unat y" by simp
  with eq have "unat x = unat y \<and> le_nat xs = le_nat ys" by simp
  with Cons.IH show ?case by (simp add: word_unat_eq_iff)
qed simp

lemma unat_from_le:
  "256 ^ length bs \<le> (2::nat) ^ LENGTH('a) \<Longrightarrow> unat (from_le bs :: 'a::len word) = le_nat bs"
proof (induction bs)
  case (Cons b bs)
  have le: "256 ^ length bs \<le> (2::nat) ^ LENGTH('a)" using Cons.prems by simp
  have big: "le_nat (b # bs) < 2 ^ LENGTH('a)"
    using le_nat_bound [of "b # bs"] Cons.prems by (rule less_le_trans)
  have v: "(from_le bs :: 'a word) = of_nat (le_nat bs)"
    using Cons.IH [OF le] by (metis of_nat_unat ucast_id)
  have b: "(ucast b :: 'a word) = of_nat (unat b)"
    by (rule of_nat_unat [symmetric])
  have "(from_le (b # bs) :: 'a word) = of_nat (le_nat (b # bs))"
    unfolding from_le.simps v b by simp
  then have "unat (from_le (b # bs) :: 'a word) = le_nat (b # bs) mod 2 ^ LENGTH('a)"
    by (simp only: unat_of_nat)
  with big show ?case by (simp only: mod_less)
qed simp

lemma take_le_bytes: "take m (le_bytes n w) = le_bytes (min m n) w"
proof (induction n arbitrary: m w)
  case (Suc n)
  then show ?case by (cases m) simp_all
qed simp

lemma le_nat_le_bytes: "le_nat (le_bytes n w) = unat w mod 256 ^ n"
proof (induction n arbitrary: w)
  case (Suc n)
  have "unat (ucast w :: u8) = unat w mod 256"
    by (simp add: unsigned_ucast_eq take_bit_eq_mod)
  moreover have "unat (drop_bit 8 w) = unat w div 256"
    unfolding unat_drop_bit_eq by (simp add: drop_bit_eq_div)
  ultimately show ?case
    by (simp add: Suc.IH) (metis mod_mult2_eq add.commute mult.commute)
qed simp

lemma le_nat_le_bytes_full [simp]:
  assumes "(2::nat) ^ LENGTH('a) \<le> 256 ^ n"
  shows "le_nat (le_bytes n (w::'a::len word)) = unat w"
proof -
  have "unat w < 256 ^ n" using unat_bound [of w] assms by (rule less_le_trans)
  then show ?thesis by (simp add: le_nat_le_bytes)
qed

lemma from_le_le_bytes:
  assumes "(2::nat) ^ LENGTH('a) = 256 ^ n"
  shows "from_le (le_bytes n (w::'a::len word)) = w"
proof -
  have "unat (from_le (le_bytes n w) :: 'a word) = unat w"
    using assms by (simp add: unat_from_le)
  then show ?thesis by (simp add: word_unat_eq_iff)
qed

lemma from_le_le_bytes_ucast:
  assumes "(2::nat) ^ LENGTH('a) = 256 ^ n" and "LENGTH('a) \<le> LENGTH('b)"
  shows "(from_le (le_bytes n (w::'a::len word)) :: 'b::len word) = ucast w"
proof -
  have "(2::nat) ^ LENGTH('a) \<le> 2 ^ LENGTH('b)" using assms(2) by (intro power_increasing) simp_all
  then have "unat (from_le (le_bytes n w) :: 'b word) = unat w"
    using assms(1) by (simp add: unat_from_le)
  also have "\<dots> = unat (ucast w :: 'b word)" using assms(2) by (simp only: unat_ucast_up)
  finally show ?thesis by (simp add: word_unat_eq_iff)
qed

lemma le_bytes_from_le:
  assumes "length bs = n" and "256 ^ n \<le> (2::nat) ^ LENGTH('a)"
  shows "le_bytes n (from_le bs :: 'a::len word) = bs"
proof (rule le_nat_inj)
  show "le_nat (le_bytes n (from_le bs :: 'a word)) = le_nat bs"
    using assms le_nat_bound [of bs] by (simp add: le_nat_le_bytes unat_from_le)
qed (simp add: assms)

text \<open>A single byte of a layout.\<close>

definition byte1 :: "u8 \<Rightarrow> bytes" where
  "byte1 b = [b]"

definition byte_at :: "nat \<Rightarrow> bytes \<Rightarrow> u8" where
  "byte_at i d = d ! i"

lemma length_byte1 [simp, codec_simps]: "length (byte1 b) = 1"
  by (simp add: byte1_def)

lemma byte_at_here [slice_simps]: "byte_at 0 (byte1 b @ r) = b"
  by (simp add: byte_at_def byte1_def)

lemma byte_at_skip [slice_simps]: "length a \<le> i \<Longrightarrow> byte_at i (a @ b) = byte_at (i - length a) b"
  by (simp add: byte_at_def nth_append)

lemma byte1_byte_at: "Suc i \<le> length d \<Longrightarrow> byte1 (byte_at i d) = bslice i (Suc 0) d"
  by (simp add: byte1_def byte_at_def bslice_def Cons_nth_drop_Suc [symmetric])

lemma bslice_0_take: "bslice 0 n xs = take n xs"
  by (simp add: bslice_def)

lemma take_join: "take m xs @ bslice m n xs = take (m + n) xs"
  by (simp add: bslice_def take_add)

lemma first_byte_append: "(byte1 b @ r) ! 0 = b"
  by (simp add: byte1_def)

text \<open>The round trips at the widths of the layouts.\<close>

lemma from_le_bytes1 [simp, codec_simps]: "from_le (le_bytes 1 (w::u8)) = w"
  by (rule from_le_le_bytes) simp

lemma from_le_bytes2 [simp, codec_simps]: "from_le (le_bytes 2 (w::u16)) = w"
  by (rule from_le_le_bytes) simp

lemma from_le_bytes4 [simp, codec_simps]: "from_le (le_bytes 4 (w::u32)) = w"
  by (rule from_le_le_bytes) simp

lemma from_le_bytes8 [simp, codec_simps]: "from_le (le_bytes 8 (w::u64)) = w"
  by (rule from_le_le_bytes) simp

lemma from_le_bytes32 [simp, codec_simps]: "from_le (le_bytes 32 (w::hash32)) = w"
  by (rule from_le_le_bytes) simp

lemma bytes32_inj [simp]: "bytes32 a = bytes32 b \<longleftrightarrow> a = b"
  by (metis from_le_bytes32)

lemma bytes8_inj [simp]: "bytes8 a = bytes8 b \<longleftrightarrow> a = b"
  by (metis from_le_bytes8)

lemma bytes32_from_le [simp]: "length bs = 32 \<Longrightarrow> bytes32 (from_le bs) = bs"
  by (rule le_bytes_from_le) simp_all

section \<open>Writing a layout at the front of an account\<close>

text \<open>
  A zero-copy struct is written over the first bytes of the account data; bytes beyond its
  size stay. A buffer shorter than the struct makes the slice expression panic.
\<close>

definition put_front :: "bytes \<Rightarrow> bytes \<Rightarrow> bytes result" where
  "put_front new old = (if length old < length new then Inl Panic
                        else Inr (new @ drop (length new) old))"

lemma put_front_eq_Inr [res_simps]:
  "put_front new old = Inr d \<longleftrightarrow> length new \<le> length old \<and> d = new @ drop (length new) old"
  by (auto simp: put_front_def)

end
