(* ===== verification/Solana_Runtime.thy ===== *)
theory Solana_Runtime
  imports Bridge_Prelude
begin

text \<open>
  The on-chain environment the handlers run in. Accounts live in a store keyed by address,
  so that an account passed twice to an instruction is one piece of state; an address that
  was never funded reads as an empty account of the system program. What the sources only
  call is a field of the record \<open>env\<close>: the SHA-256, Keccak and Poseidon syscalls, PDA derivation,
  the rent and clock sysvars, the system program, and the constants the build features select
  (the light client's and the buffer program's identity, the expected Bitcoin network). \<open>system_program_spec\<close>
  names what the code relies on. The zero-copy account layouts share the interface
  \<open>account_layout\<close>; \<open>create_or_claim_pda\<close> is the PDA constructor of
  \<open>btc-light-client/src/utils/pda.rs\<close>.
\<close>

section \<open>Accounts and environment\<close>

record account =
  lamports :: u64
  owner :: pubkey
  adata :: bytes

type_synonym store = "pubkey \<Rightarrow> account"

text \<open>One entry of the instruction's account list.\<close>

record account_info =
  key :: pubkey
  is_signer :: bool
  is_writable :: bool

record env =
  program_id :: pubkey
  mainnet_build :: bool
  lc_program_id :: pubkey
  chadbuffer_program_id :: pubkey
  expected_network :: "u8 option"
  clock_unix_timestamp :: i64
  clock_slot :: u64
  rt_sha256 :: "bytes \<Rightarrow> hash32"
  rt_keccak256 :: "bytes \<Rightarrow> hash32"
  rt_poseidon2 :: "hash32 \<Rightarrow> hash32 \<Rightarrow> hash32 result"
  rt_poseidon3 :: "hash32 \<Rightarrow> hash32 \<Rightarrow> hash32 \<Rightarrow> hash32 result"
  rt_find_pda :: "bytes list \<Rightarrow> pubkey \<Rightarrow> pubkey \<times> u8"
  rt_minimum_balance :: "nat \<Rightarrow> u64"
  sys_create_account :: "pubkey \<Rightarrow> pubkey \<Rightarrow> u64 \<Rightarrow> u64 \<Rightarrow> pubkey \<Rightarrow> store \<Rightarrow> store result"
  sys_transfer :: "pubkey \<Rightarrow> pubkey \<Rightarrow> u64 \<Rightarrow> store \<Rightarrow> store result"
  sys_allocate :: "pubkey \<Rightarrow> u64 \<Rightarrow> store \<Rightarrow> store result"
  sys_assign :: "pubkey \<Rightarrow> pubkey \<Rightarrow> store \<Rightarrow> store result"
  devnet_build :: bool
  rt_executable :: "pubkey \<Rightarrow> bool"
  per_permission_rent :: u64

definition find_program_address :: "env \<Rightarrow> bytes list \<Rightarrow> pubkey \<times> u8" where
  "find_program_address E seeds = rt_find_pda E seeds (program_id E)"

definition set_data :: "pubkey \<Rightarrow> bytes \<Rightarrow> store \<Rightarrow> store" where
  "set_data k d s = s(k := (s k)\<lparr>adata := d\<rparr>)"

text \<open>Overlaying a struct on the data of an account, keeping the bytes behind it.\<close>

definition write_front :: "pubkey \<Rightarrow> bytes \<Rightarrow> store \<Rightarrow> store result" where
  "write_front k new s = bindE (put_front new (adata (s k))) (\<lambda>d. Inr (set_data k d s))"

lemma account_full_update [simp]:
  "(a :: account)\<lparr>adata := d, lamports := l, owner := p\<rparr> = \<lparr>lamports = l, owner = p, adata = d\<rparr>"
  by (rule account.equality) simp_all

lemma set_data_same [simp]: "adata (set_data k d s k) = d"
  and set_data_other [simp]: "k' \<noteq> k \<Longrightarrow> set_data k d s k' = s k'"
  and owner_set_data [simp]: "owner (set_data k d s k') = owner (s k')"
  and lamports_set_data [simp]: "lamports (set_data k d s k') = lamports (s k')"
  by (simp_all add: set_data_def)

lemma write_front_eq_Inr [res_simps]:
  "write_front k new s = Inr s' \<longleftrightarrow>
     length new \<le> length (adata (s k)) \<and> s' = set_data k (new @ drop (length new) (adata (s k))) s"
  by (auto simp: write_front_def res_simps)

section \<open>Zero-copy layouts\<close>

text \<open>The \<open>from_bytes\<close> of the account structs: size, discriminator, then the overlay.\<close>

definition layout_from_bytes :: "nat \<Rightarrow> u8 \<Rightarrow> (bytes \<Rightarrow> 's) \<Rightarrow> bytes \<Rightarrow> 's result" where
  "layout_from_bytes LEN DISC decode d =
     (if length d < LEN then Inl InvalidAccountData
      else if d ! 0 \<noteq> DISC then Inl InvalidAccountData
      else Inr (decode d))"

text \<open>The test \<open>data.len() >= LEN && data[0] == DISC\<close> of an initialised account.\<close>

definition layout_initialized :: "nat \<Rightarrow> u8 \<Rightarrow> bytes \<Rightarrow> bool" where
  "layout_initialized LEN DISC d \<longleftrightarrow> d \<noteq> [] \<and> LEN \<le> length d \<and> d ! 0 = DISC"

locale account_layout =
  fixes LEN :: nat and DISC :: u8
    and discr :: "'s \<Rightarrow> u8" and encode :: "'s \<Rightarrow> bytes" and decode :: "bytes \<Rightarrow> 's"
  assumes LEN_pos: "0 < LEN"
    and length_encode: "length (encode x) = LEN"
    and decode_encode: "decode (encode x @ rest) = x"
    and encode_decode: "LEN \<le> length d \<Longrightarrow> encode (decode d) = take LEN d"
    and first_byte: "encode x ! 0 = discr x"
begin

lemma from_bytes_overlay:
  "discr x = DISC \<Longrightarrow> layout_from_bytes LEN DISC decode (encode x @ rest) = Inr x"
  using LEN_pos by (simp add: layout_from_bytes_def length_encode decode_encode nth_append first_byte)

lemma from_bytes_encode: "discr x = DISC \<Longrightarrow> layout_from_bytes LEN DISC decode (encode x) = Inr x"
  using from_bytes_overlay [of x "[]"] by simp

lemma from_bytes_iff:
  "layout_from_bytes LEN DISC decode d = Inr x \<longleftrightarrow>
     LEN \<le> length d \<and> discr x = DISC \<and> d = encode x @ drop LEN d"
proof
  assume "layout_from_bytes LEN DISC decode d = Inr x"
  then have len: "LEN \<le> length d" and d0: "d ! 0 = DISC" and x: "x = decode d"
    by (auto simp: layout_from_bytes_def split: if_splits)
  have d: "d = encode x @ drop LEN d" using encode_decode [OF len] by (simp add: x)
  moreover from d have "discr x = d ! 0"
    using LEN_pos by (metis first_byte length_encode nth_append)
  ultimately show "LEN \<le> length d \<and> discr x = DISC \<and> d = encode x @ drop LEN d"
    using len d0 by simp
next
  assume "LEN \<le> length d \<and> discr x = DISC \<and> d = encode x @ drop LEN d"
  then show "layout_from_bytes LEN DISC decode d = Inr x" by (metis from_bytes_overlay)
qed

lemma initialized_iff:
  "layout_initialized LEN DISC d \<longleftrightarrow> (\<exists>x. layout_from_bytes LEN DISC decode d = Inr x)"
  using LEN_pos by (auto simp: layout_initialized_def layout_from_bytes_def)

lemma from_bytes_after_write:
  assumes "write_front k (encode x) s = Inr s'" and "discr x = DISC"
  shows "layout_from_bytes LEN DISC decode (adata (s' k)) = Inr x"
  using assms by (auto simp: res_simps from_bytes_overlay)

lemma encode_inj: "encode x = encode y \<longleftrightarrow> x = y"
  by (metis append_Nil2 decode_encode)

end

section \<open>The system program\<close>

text \<open>
  What the documentation of the system program promises of a successful call, as far as
  the handlers rely on it. An account is created only at an unfunded address without data;
  space is allocated only in an account without data.
\<close>

definition system_program_spec :: "env \<Rightarrow> bool" where
  "system_program_spec E \<longleftrightarrow>
     (\<forall>f t l n p s s'. sys_create_account E f t l n p s = Inr s' \<longrightarrow>
        f \<noteq> t \<and> adata (s t) = [] \<and>
        s' = s(f := (s f)\<lparr>lamports := lamports (s f) - l\<rparr>,
               t := \<lparr>lamports = l, owner = p, adata = replicate (unat n) 0\<rparr>)) \<and>
     (\<forall>f t l s s'. sys_transfer E f t l s = Inr s' \<longrightarrow>
        (\<forall>k. adata (s' k) = adata (s k) \<and> owner (s' k) = owner (s k))) \<and>
     (\<forall>t n s s'. sys_allocate E t n s = Inr s' \<longrightarrow>
        adata (s t) = [] \<and> s' = s(t := (s t)\<lparr>adata := replicate (unat n) 0\<rparr>)) \<and>
     (\<forall>t p s s'. sys_assign E t p s = Inr s' \<longrightarrow> s' = s(t := (s t)\<lparr>owner := p\<rparr>))"

lemma system_createD:
  assumes "system_program_spec E" and "sys_create_account E f t l n p s = Inr s'"
  shows "f \<noteq> t" and "adata (s t) = []"
    and "s' = s(f := (s f)\<lparr>lamports := lamports (s f) - l\<rparr>,
               t := \<lparr>lamports = l, owner = p, adata = replicate (unat n) 0\<rparr>)"
  using assms unfolding system_program_spec_def by auto

lemma system_transferD:
  assumes "system_program_spec E" and "sys_transfer E f t l s = Inr s'"
  shows "adata (s' k) = adata (s k)" and "owner (s' k) = owner (s k)"
  using assms unfolding system_program_spec_def by blast+

lemma system_allocateD:
  assumes "system_program_spec E" and "sys_allocate E t n s = Inr s'"
  shows "adata (s t) = []" and "s' = s(t := (s t)\<lparr>adata := replicate (unat n) 0\<rparr>)"
  using assms unfolding system_program_spec_def by blast+

lemma system_assignD:
  assumes "system_program_spec E" and "sys_assign E t p s = Inr s'"
  shows "s' = s(t := (s t)\<lparr>owner := p\<rparr>)"
  using assms unfolding system_program_spec_def by blast

definition create_or_claim_pda :: "env \<Rightarrow> pubkey \<Rightarrow> pubkey \<Rightarrow> u64 \<Rightarrow> u64 \<Rightarrow> store \<Rightarrow> store result" where
  "create_or_claim_pda E payer pda lam space s =
     (if lamports (s pda) = 0
      then sys_create_account E payer pda lam space (program_id E) s
      else let current = lamports (s pda) in
        bindE (if lam > current then sys_transfer E payer pda (lam - current) s else Inr s) (\<lambda>s1.
        bindE (if of_nat (length (adata (s1 pda))) < space then sys_allocate E pda space s1 else Inr s1) (\<lambda>s2.
        if owner (s2 pda) \<noteq> program_id E then sys_assign E pda (program_id E) s2 else Inr s2)))"

text \<open>Stores that agree in owners and data outside a set of addresses.\<close>

definition frame :: "pubkey set \<Rightarrow> store \<Rightarrow> store \<Rightarrow> bool" where
  "frame K s s' \<longleftrightarrow> (\<forall>k. k \<notin> K \<longrightarrow> adata (s' k) = adata (s k) \<and> owner (s' k) = owner (s k))"

lemma frame_refl [simp]: "frame K s s"
  by (simp add: frame_def)

lemma frame_trans: "frame K s s' \<Longrightarrow> frame L s' s'' \<Longrightarrow> frame (K \<union> L) s s''"
  by (auto simp: frame_def)

lemma frame_mono: "frame K s s' \<Longrightarrow> K \<subseteq> L \<Longrightarrow> frame L s s'"
  by (auto simp: frame_def)

lemma frame_set_data: "frame {k} s (set_data k d s)"
  by (simp add: frame_def)

lemma frameD: "frame K s s' \<Longrightarrow> k \<notin> K \<Longrightarrow> adata (s' k) = adata (s k) \<and> owner (s' k) = owner (s k)"
  by (simp add: frame_def)

lemma unat_of_nat_le: "unat (of_nat n :: 'a::len word) \<le> n"
  by (simp add: unat_of_nat)

lemma create_or_claim_pda_ok:
  assumes spec: "system_program_spec E"
    and run: "create_or_claim_pda E payer pda lam space s = Inr s'"
  shows "owner (s' pda) = program_id E" and "unat space \<le> length (adata (s' pda))"
    and "frame {pda} s s'"
    and "adata (s' pda) = adata (s pda) \<or> adata (s pda) = [] \<and> adata (s' pda) = replicate (unat space) 0"
proof -
  have "owner (s' pda) = program_id E \<and> unat space \<le> length (adata (s' pda)) \<and> frame {pda} s s' \<and>
    (adata (s' pda) = adata (s pda) \<or> adata (s pda) = [] \<and> adata (s' pda) = replicate (unat space) 0)"
  proof (cases "lamports (s pda) = 0")
    case True
    with run have "sys_create_account E payer pda lam space (program_id E) s = Inr s'"
      by (simp add: create_or_claim_pda_def)
    note system_createD [OF spec this]
    then show ?thesis by (auto simp: frame_def)
  next
    case False
    with run obtain s1 s2 where
      t: "(if lam > lamports (s pda) then sys_transfer E payer pda (lam - lamports (s pda)) s else Inr s) = Inr s1"
      and a: "(if of_nat (length (adata (s1 pda))) < space then sys_allocate E pda space s1 else Inr s1) = Inr s2"
      and o: "(if owner (s2 pda) \<noteq> program_id E then sys_assign E pda (program_id E) s2 else Inr s2) = Inr s'"
      by (auto simp: create_or_claim_pda_def Let_def res_simps)
    have s1: "adata (s1 k) = adata (s k) \<and> owner (s1 k) = owner (s k)" for k
      using t system_transferD [OF spec] by (auto split: if_splits)
    have s2: "s2 = s1 \<and> unat space \<le> length (adata (s1 pda)) \<or>
        adata (s1 pda) = [] \<and> s2 = s1(pda := (s1 pda)\<lparr>adata := replicate (unat space) 0\<rparr>)"
    proof (cases "of_nat (length (adata (s1 pda))) < space")
      case True
      with a have "sys_allocate E pda space s1 = Inr s2" by simp
      from system_allocateD [OF spec this] show ?thesis by blast
    next
      case False
      then have "unat space \<le> unat (of_nat (length (adata (s1 pda))) :: u64)"
        by (simp add: word_le_nat_alt not_less)
      then have "unat space \<le> length (adata (s1 pda))"
        using unat_of_nat_le order_trans by blast
      with False a show ?thesis by simp
    qed
    have s': "adata (s' k) = adata (s2 k) \<and> owner (s' k) = (if k = pda then program_id E else owner (s2 k))" for k
      using o by (auto split: if_splits dest!: system_assignD [OF spec])
    show ?thesis using s1 s2 by (auto simp: s' frame_def)
  qed
  then show "owner (s' pda) = program_id E" "unat space \<le> length (adata (s' pda))" "frame {pda} s s'"
    "adata (s' pda) = adata (s pda) \<or> adata (s pda) = [] \<and> adata (s' pda) = replicate (unat space) 0"
    by blast+
qed

lemma frame_write: "write_front k new s = Inr s' \<Longrightarrow> frame {k} s s'"
  by (auto simp: res_simps frame_set_data)

lemma claim_then_write:
  assumes "system_program_spec E" and "create_or_claim_pda E payer k lam space s = Inr s1"
    and "write_front k new s1 = Inr s'"
  shows "frame {k} s s'" and "owner (s' k) = program_id E"
    and "\<exists>rest. adata (s' k) = new @ rest"
proof -
  show "frame {k} s s'"
    using frame_trans [OF create_or_claim_pda_ok(3) [OF assms(1,2)] frame_write [OF assms(3)]] by simp
  show "owner (s' k) = program_id E" "\<exists>rest. adata (s' k) = new @ rest"
    using create_or_claim_pda_ok(1) [OF assms(1,2)] assms(3) by (auto simp: res_simps)
qed

section \<open>A concrete environment\<close>

text \<open>
  An instance of the parameters on which the handlers can be run: the hash reads the first
  four bytes of its input, addresses are tagged by the length of the first seed, and the
  system program moves lamports between distinct accounts.
\<close>

definition demo_create_account :: "pubkey \<Rightarrow> pubkey \<Rightarrow> u64 \<Rightarrow> u64 \<Rightarrow> pubkey \<Rightarrow> store \<Rightarrow> store result" where
  "demo_create_account f t l n p s =
     (if f = t \<or> adata (s t) \<noteq> [] \<or> lamports (s t) \<noteq> 0 then Inl AccountAlreadyInitialized
      else if lamports (s f) < l then Inl InsufficientFunds
      else Inr (s(f := (s f)\<lparr>lamports := lamports (s f) - l\<rparr>,
                  t := \<lparr>lamports = l, owner = p, adata = replicate (unat n) 0\<rparr>)))"

definition demo_transfer :: "pubkey \<Rightarrow> pubkey \<Rightarrow> u64 \<Rightarrow> store \<Rightarrow> store result" where
  "demo_transfer f t l s =
     (if lamports (s f) < l then Inl InsufficientFunds
      else let s1 = s(f := (s f)\<lparr>lamports := lamports (s f) - l\<rparr>)
           in Inr (s1(t := (s1 t)\<lparr>lamports := lamports (s1 t) + l\<rparr>)))"

definition demo_allocate :: "pubkey \<Rightarrow> u64 \<Rightarrow> store \<Rightarrow> store result" where
  "demo_allocate t n s =
     (if adata (s t) \<noteq> [] then Inl AccountAlreadyInitialized
      else Inr (s(t := (s t)\<lparr>adata := replicate (unat n) 0\<rparr>)))"

definition demo_assign :: "pubkey \<Rightarrow> pubkey \<Rightarrow> store \<Rightarrow> store result" where
  "demo_assign t p s = Inr (s(t := (s t)\<lparr>owner := p\<rparr>))"

definition demo_env :: env where
  "demo_env =
     \<lparr>program_id = 1, mainnet_build = True, lc_program_id = 2, chadbuffer_program_id = 3,
      expected_network = Some 0, clock_unix_timestamp = 1000000, clock_slot = 100,
      rt_sha256 = (\<lambda>d. from_le (take 4 d)), rt_keccak256 = (\<lambda>d. from_le (take 4 d)),
      rt_poseidon2 = (\<lambda>a b. Inr (a + 2 * b + 1)), rt_poseidon3 = (\<lambda>a b c. Inr (a + 2 * b + 4 * c)),
      rt_find_pda = (\<lambda>seeds p. (of_nat (length (hd seeds)) + 256 * from_le (concat (tl seeds)), 255)),
      rt_minimum_balance = (\<lambda>n. 1),
      sys_create_account = demo_create_account, sys_transfer = demo_transfer,
      sys_allocate = demo_allocate, sys_assign = demo_assign,
      devnet_build = False, rt_executable = (\<lambda>p. True), per_permission_rent = 1\<rparr>"

lemma demo_system_program: "system_program_spec demo_env"
  by (auto simp: system_program_spec_def demo_env_def demo_create_account_def demo_transfer_def
      demo_allocate_def demo_assign_def Let_def split: if_splits)

end
