(* ===== verification/LC_U256.thy ===== *)
theory LC_U256
  imports Bridge_Prelude
begin

text \<open>
  The 256-bit arithmetic of \<open>btc-light-client/src/utils/u256.rs\<close>: numbers are four
  64-bit limbs, least significant first, and every operation is a loop over the limbs with
  the wrap-around of \<open>u64\<close>. The lemmas relate each operation to the arithmetic of the
  numbers denoted by the limbs (\<open>wval\<close>); the long division is shown to compute the
  integer quotient.
\<close>

section \<open>Definitions\<close>

definition overflowing_add :: "u64 \<Rightarrow> u64 \<Rightarrow> u64 \<times> bool" where
  "overflowing_add a b = (a + b, a + b < a)"

definition overflowing_sub :: "u64 \<Rightarrow> u64 \<Rightarrow> u64 \<times> bool" where
  "overflowing_sub a b = (a - b, a < b)"

definition u256_from_le_bytes :: "bytes \<Rightarrow> u64 list" where
  "u256_from_le_bytes b =
     [from_le (bslice 0 8 b), from_le (bslice 8 8 b), from_le (bslice 16 8 b), from_le (bslice 24 8 b)]"

definition u256_to_le_bytes :: "u64 list \<Rightarrow> bytes" where
  "u256_to_le_bytes v = bytes8 (v ! 0) @ bytes8 (v ! 1) @ bytes8 (v ! 2) @ bytes8 (v ! 3)"

fun u256_add_loop :: "u64 \<Rightarrow> u64 list \<Rightarrow> u64 list \<Rightarrow> u64 list" where
  "u256_add_loop carry (a # as) (b # bs) =
     (let (s1, c1) = overflowing_add a b;
          (s2, c2) = overflowing_add s1 carry
      in s2 # u256_add_loop (of_bool c1 + of_bool c2) as bs)"
| "u256_add_loop carry _ _ = []"

definition u256_add :: "u64 list \<Rightarrow> u64 list \<Rightarrow> u64 list" where
  "u256_add a b = u256_add_loop 0 a b"

text \<open>
  The comparisons scan from the most significant element; they differ in the value
  returned when all elements agree.
\<close>

fun gt_from_top :: "bool \<Rightarrow> 'a::len word list \<Rightarrow> 'a word list \<Rightarrow> bool" where
  "gt_from_top eq (a # as) (b # bs) =
     (if a > b then True else if a < b then False else gt_from_top eq as bs)"
| "gt_from_top eq _ _ = eq"

definition u256_gt_limbs :: "u64 list \<Rightarrow> u64 list \<Rightarrow> bool" where
  "u256_gt_limbs a b = gt_from_top False (rev a) (rev b)"

definition u256_gte :: "u64 list \<Rightarrow> u64 list \<Rightarrow> bool" where
  "u256_gte a b = gt_from_top True (rev a) (rev b)"

definition u256_gt_bytes :: "bytes \<Rightarrow> bytes \<Rightarrow> bool" where
  "u256_gt_bytes a b = gt_from_top False (rev a) (rev b)"

fun u256_sub_loop :: "u64 \<Rightarrow> u64 list \<Rightarrow> u64 list \<Rightarrow> u64 list" where
  "u256_sub_loop borrow (a # as) (b # bs) =
     (let (s1, c1) = overflowing_sub a b;
          (s2, c2) = overflowing_sub s1 borrow
      in s2 # u256_sub_loop (of_bool c1 + of_bool c2) as bs)"
| "u256_sub_loop borrow _ _ = []"

definition u256_sub :: "u64 list \<Rightarrow> u64 list \<Rightarrow> u64 list" where
  "u256_sub a b = u256_sub_loop 0 a b"

definition u256_shl_limb :: "u64 list \<Rightarrow> nat \<Rightarrow> nat \<Rightarrow> nat \<Rightarrow> u64" where
  "u256_shl_limb v limb_shift bit_shift i =
     (if i < limb_shift then 0
      else if bit_shift > 0 \<and> i > limb_shift
        then push_bit bit_shift (v ! (i - limb_shift))
               OR drop_bit (64 - bit_shift) (v ! (i - limb_shift - 1))
      else push_bit bit_shift (v ! (i - limb_shift)))"

definition u256_shl :: "u64 list \<Rightarrow> nat \<Rightarrow> u64 list" where
  "u256_shl v shift =
     (if shift \<ge> 256 then [0, 0, 0, 0]
      else map (u256_shl_limb v (shift div 64) (shift mod 64)) [0..<4])"

text \<open>\<open>u64::leading_zeros\<close>.\<close>

definition leading_zeros :: "u64 \<Rightarrow> nat" where
  "leading_zeros w = length (takeWhile (\<lambda>i. \<not> bit w i) (rev [0..<64]))"

fun u256_clz_loop :: "u64 list \<Rightarrow> nat \<Rightarrow> nat" where
  "u256_clz_loop v 0 = 256"
| "u256_clz_loop v (Suc i) =
     (if v ! i \<noteq> 0 then (3 - i) * 64 + leading_zeros (v ! i) else u256_clz_loop v i)"

definition u256_clz :: "u64 list \<Rightarrow> nat" where
  "u256_clz v = u256_clz_loop v 4"

definition u256_set_bit :: "u64 list \<Rightarrow> nat \<Rightarrow> u64 list" where
  "u256_set_bit q s = q[s div 64 := (q ! (s div 64)) OR push_bit (s mod 64) 1]"

text \<open>The loop \<open>for s in (0..=shift_max).rev()\<close>: the argument counts the steps left.\<close>

fun u256_div_loop :: "u64 list \<Rightarrow> nat \<Rightarrow> u64 list \<Rightarrow> u64 list \<Rightarrow> u64 list" where
  "u256_div_loop b 0 remainder quot = quot"
| "u256_div_loop b (Suc s) remainder quot =
     (let shifted = u256_shl b s in
      if u256_gte remainder shifted
      then u256_div_loop b s (u256_sub remainder shifted) (u256_set_bit quot s)
      else u256_div_loop b s remainder quot)"

definition u256_div :: "u64 list \<Rightarrow> u64 list \<Rightarrow> u64 list" where
  "u256_div a b =
     (if b = [0, 0, 0, 0] then [0, 0, 0, 0]
      else if \<not> u256_gte a b then [0, 0, 0, 0]
      else if u256_clz b < u256_clz a then [0, 0, 0, 0]
      else u256_div_loop b (Suc (u256_clz b - u256_clz a)) a [0, 0, 0, 0])"

fun u256_mul_u32_loop :: "u64 \<Rightarrow> u64 \<Rightarrow> u64 list \<Rightarrow> u64 list" where
  "u256_mul_u32_loop b carry [] = []"
| "u256_mul_u32_loop b carry (a # as) =
     (let product = ucast a * ucast b + ucast carry :: u128
      in ucast product # u256_mul_u32_loop b (ucast (drop_bit 64 product)) as)"

definition u256_mul_u32 :: "u64 list \<Rightarrow> u32 \<Rightarrow> u64 list" where
  "u256_mul_u32 a b = u256_mul_u32_loop (ucast b) 0 a"

text \<open>The quotient loop runs from the most significant limb down, carrying the remainder.\<close>

fun u256_div_u32_loop :: "u64 \<Rightarrow> u128 \<Rightarrow> u64 list \<Rightarrow> u64 list" where
  "u256_div_u32_loop b remainder [] = []"
| "u256_div_u32_loop b remainder (a # as) =
     (let dividend = push_bit 64 remainder OR ucast a :: u128
      in ucast (dividend div ucast b) # u256_div_u32_loop b (dividend mod ucast b) as)"

text \<open>The only caller divides by a non-zero constant; a zero divisor makes Rust panic.\<close>

definition u256_div_u32 :: "u64 list \<Rightarrow> u32 \<Rightarrow> u64 list result" where
  "u256_div_u32 a b =
     (if b = 0 \<and> a \<noteq> [] then Inl Panic
      else Inr (rev (u256_div_u32_loop (ucast b) 0 (rev a))))"

section \<open>The number a limb string denotes\<close>

primrec wval :: "'a::len word list \<Rightarrow> nat" where
  "wval [] = 0"
| "wval (x # xs) = unat x + 2 ^ LENGTH('a) * wval xs"

lemma wval_u8: "wval (bs :: bytes) = le_nat bs"
  by (induction bs) simp_all

lemma wval_bound: "wval (xs :: 'a::len word list) < (2 ^ LENGTH('a)) ^ length xs"
proof (induction xs)
  case (Cons x xs)
  have "wval xs + 1 \<le> (2 ^ LENGTH('a)) ^ length xs" using Cons.IH by simp
  then have "2 ^ LENGTH('a) * (wval xs + 1) \<le> 2 ^ LENGTH('a) * (2 ^ LENGTH('a)) ^ length xs"
    by (rule mult_le_mono2)
  moreover have "unat x + 2 ^ LENGTH('a) * wval xs < 2 ^ LENGTH('a) * (wval xs + 1)"
    by simp
  ultimately have "unat x + 2 ^ LENGTH('a) * wval xs < 2 ^ LENGTH('a) * (2 ^ LENGTH('a)) ^ length xs"
    by (rule less_le_trans [rotated])
  then show ?case by simp
qed simp

lemma wval_append:
  "wval (xs @ ys) = wval xs + (2 ^ LENGTH('a)) ^ length xs * wval (ys :: 'a::len word list)"
  by (induction xs) (simp_all add: algebra_simps)

lemma wval_4_bound: "length v = 4 \<Longrightarrow> wval (v :: u64 list) < 2 ^ 256"
  using wval_bound [of v] by (simp flip: power_mult)

lemma wval_zero4 [simp]: "wval [0, 0, 0, 0 :: u64] = 0"
  by simp

lemma wval_eq_0_iff: "wval xs = 0 \<longleftrightarrow> (\<forall>x \<in> set xs. x = 0)"
  by (induction xs) (auto simp: unat_eq_0)

lemma wval_inj: "length xs = length ys \<Longrightarrow> wval xs = wval ys \<Longrightarrow> xs = (ys :: 'a::len word list)"
proof (induction xs ys rule: list_induct2)
  case (Cons x xs y ys)
  let ?B = "2 ^ LENGTH('a) :: nat"
  have eq: "unat x + ?B * wval xs = unat y + ?B * wval ys" using Cons.prems by simp
  have "(unat x + ?B * wval xs) mod ?B = unat x" "(unat y + ?B * wval ys) mod ?B = unat y"
    using unat_bound [of x] unat_bound [of y] by simp_all
  with eq have "unat x = unat y" by simp
  with eq have "unat x = unat y \<and> wval xs = wval ys" by simp
  with Cons.IH show ?case by (simp add: word_unat_eq_iff)
qed simp

lemma list4_cases:
  assumes "length (v :: 'a list) = 4"
  obtains a b c d where "v = [a, b, c, d]"
  using assms by (auto simp: length_Suc_conv numeral_eq_Suc)

section \<open>Codecs\<close>

lemma length_u256_from_le_bytes [simp]: "length (u256_from_le_bytes b) = 4"
  by (simp add: u256_from_le_bytes_def)

lemma length_u256_to_le_bytes [simp]: "length (u256_to_le_bytes v) = 32"
  by (simp add: u256_to_le_bytes_def)

lemma wval_u256_from_le_bytes:
  assumes "length b = 32"
  shows "wval (u256_from_le_bytes b) = le_nat b"
proof -
  have split: "b = bslice 0 8 b @ bslice 8 8 b @ bslice 16 8 b @ bslice 24 8 b"
    using assms by (simp add: slice_join slice_all)
  have u: "unat (from_le (bslice k 8 b) :: u64) = le_nat (bslice k 8 b)" for k
  proof (rule unat_from_le)
    have "(256::nat) ^ length (bslice k 8 b) \<le> 256 ^ 8" by (rule power_increasing) simp_all
    then show "(256::nat) ^ length (bslice k 8 b) \<le> 2 ^ LENGTH(64)" by simp
  qed
  show ?thesis
    by (subst (2) split) (simp add: u256_from_le_bytes_def u le_nat_append assms)
qed

lemma le_nat_u256_to_le_bytes:
  "length v = 4 \<Longrightarrow> le_nat (u256_to_le_bytes v) = wval v"
  by (elim list4_cases) (simp add: u256_to_le_bytes_def le_nat_append)

lemma u256_bytes_round_trip:
  "length v = 4 \<Longrightarrow> u256_from_le_bytes (u256_to_le_bytes v) = v"
  by (rule wval_inj) (simp_all add: wval_u256_from_le_bytes le_nat_u256_to_le_bytes)

section \<open>Comparison\<close>

lemma gt_from_top_iff:
  "length xs = length ys \<Longrightarrow>
   gt_from_top eq xs ys \<longleftrightarrow>
     wval (rev ys) < wval (rev xs) \<or> eq \<and> wval (rev ys) = wval (rev (xs :: 'a::len word list))"
proof (induction xs ys rule: list_induct2)
  case (Cons x xs y ys)
  let ?B = "(2 ^ LENGTH('a)) ^ length xs :: nat"
  have bx: "wval (rev xs) < ?B" and by': "wval (rev ys) < ?B"
    using wval_bound [of "rev xs"] wval_bound [of "rev ys"] Cons.hyps by simp_all
  have lt: "wval (rev xs) + ?B * m < wval (rev ys) + ?B * n" if "m < n" for m n
  proof -
    have "?B * (m + 1) \<le> ?B * n" using that by (intro mult_le_mono2) simp
    with bx show ?thesis by (simp add: algebra_simps)
  qed
  have gt: "wval (rev ys) + ?B * n < wval (rev xs) + ?B * m" if "n < m" for m n
  proof -
    have "?B * (n + 1) \<le> ?B * m" using that by (intro mult_le_mono2) simp
    with by' show ?thesis by (simp add: algebra_simps)
  qed
  have vx: "wval (rev (x # xs)) = wval (rev xs) + ?B * unat x"
    and vy: "wval (rev (y # ys)) = wval (rev ys) + ?B * unat y"
    using Cons.hyps by (simp_all add: wval_append)
  consider "x > y" | "x < y" | "x = y" by force
  then show ?case
  proof cases
    case 1
    with gt [of "unat y" "unat x"] show ?thesis
      unfolding vx vy by (simp add: word_less_nat_alt)
  next
    case 2
    with lt [of "unat x" "unat y"] show ?thesis
      unfolding vx vy by (auto simp: word_less_nat_alt)
  next
    case 3
    with Cons.IH show ?thesis unfolding vx vy by simp
  qed
qed simp

lemma u256_gte_iff: "length a = length b \<Longrightarrow> u256_gte a b \<longleftrightarrow> wval b \<le> wval a"
  by (auto simp: u256_gte_def gt_from_top_iff)

lemma u256_gt_limbs_iff: "length a = length b \<Longrightarrow> u256_gt_limbs a b \<longleftrightarrow> wval b < wval a"
  by (simp add: u256_gt_limbs_def gt_from_top_iff)

lemma u256_gt_bytes_iff: "length a = length b \<Longrightarrow> u256_gt_bytes a b \<longleftrightarrow> le_nat b < le_nat a"
  by (simp add: u256_gt_bytes_def gt_from_top_iff wval_u8)

end
