(* ===== verification/LC_U256_Arith.thy ===== *)
theory LC_U256_Arith
  imports LC_U256
begin

text \<open>
  Correctness of the limb arithmetic: addition, subtraction, shift, multiplication and
  short division compute modulo \<open>2 ^ 256\<close>, and the shift-and-subtract long division
  returns the integer quotient of the numbers its arguments denote.
\<close>

section \<open>Addition and subtraction\<close>

text \<open>Reducing a number by its lowest limb.\<close>

lemma mod_limb_nat: "0 < B \<Longrightarrow> (n + B * w) mod (B * N) = n mod B + B * ((w + n div B) mod N)"
  for n :: nat
  by (simp add: mod_mult2_eq)

lemma mod_limb_int:
  "0 < B \<Longrightarrow> 0 \<le> N \<Longrightarrow> (n + B * w) mod (B * N) = n mod B + B * ((w + n div B) mod N)"
  for n :: int
  by (simp add: zmod_zmult2_eq add.commute)

lemma div_mod_two_sided:
  fixes m B :: int
  assumes "- B \<le> m" and "m < B"
  shows "m div B = (if m < 0 then - 1 else 0)" and "m mod B = (if m < 0 then m + B else m)"
proof -
  show "m mod B = (if m < 0 then m + B else m)"
    using assms mod_pos_pos_trivial [of "m + B" B] by auto
  show "m div B = (if m < 0 then - 1 else 0)"
    using assms div_pos_neg_trivial [of m B] div_pos_pos_trivial [of "m + B" B]
      div_add_self2 [of B m] by (auto simp: div_pos_pos_trivial)
qed

lemma add_limb:
  fixes a b c :: u64
  assumes "unat c \<le> 1"
  shows "unat (a + b + c) = (unat a + unat b + unat c) mod 2 ^ 64"
    and "unat (of_bool (a + b < a) + of_bool (a + b + c < a + b) :: u64) =
           (unat a + unat b + unat c) div 2 ^ 64"
proof -
  have a: "unat a < 2 ^ 64" and b: "unat b < 2 ^ 64"
    using unat_bound [of a] unat_bound [of b] by simp_all
  have s1: "unat (a + b) = (if unat a + unat b < 2 ^ 64 then unat a + unat b
                            else unat a + unat b - 2 ^ 64)"
    by (simp add: unat_plus_if')
  have s2: "unat (a + b + c) = (if unat (a + b) + unat c < 2 ^ 64 then unat (a + b) + unat c
                            else unat (a + b) + unat c - 2 ^ 64)"
    by (subst unat_plus_if') simp
  show "unat (a + b + c) = (unat a + unat b + unat c) mod 2 ^ 64"
    by (simp add: unat_word_ariths mod_add_left_eq)
  show "unat (of_bool (a + b < a) + of_bool (a + b + c < a + b) :: u64) =
           (unat a + unat b + unat c) div 2 ^ 64"
    using a b s1 s2 assms by (auto simp: word_less_nat_alt of_bool_def split: if_splits)
qed

lemma u256_add_loop_val:
  assumes "length a = length b" and "unat c \<le> 1"
  shows "wval (u256_add_loop c a b) = (wval a + wval b + unat c) mod (2 ^ 64) ^ length a"
  using assms
proof (induction a b arbitrary: c rule: list_induct2)
  case (Cons x xs y ys)
  let ?B = "2 ^ 64 :: nat" and ?n = "unat x + unat y + unat c"
  let ?c = "of_bool (x + y < x) + of_bool (x + y + c < x + y) :: u64"
  have c': "unat ?c = ?n div ?B" and s: "unat (x + y + c) = ?n mod ?B"
    using add_limb [OF Cons.prems] by blast+
  have "?n < 2 * ?B"
    using unat_bound [of x] unat_bound [of y] Cons.prems by simp
  then have "unat ?c \<le> 1" unfolding c' by (simp add: less_mult_imp_div_less less_Suc_eq_le)
  then have IH: "wval (u256_add_loop ?c xs ys) = (wval xs + wval ys + unat ?c) mod ?B ^ length xs"
    by (rule Cons.IH)
  have "wval (u256_add_loop c (x # xs) (y # ys)) =
          ?n mod ?B + ?B * ((wval xs + wval ys + ?n div ?B) mod ?B ^ length xs)"
    using IH c' s by (simp add: overflowing_add_def)
  also have "\<dots> = (?n + ?B * (wval xs + wval ys)) mod (?B * ?B ^ length xs)"
    by (rule mod_limb_nat [symmetric]) simp
  also have "?n + ?B * (wval xs + wval ys) = wval (x # xs) + wval (y # ys) + unat c"
    by (simp add: distrib_left)
  finally show ?case by (simp only: length_Cons power_Suc)
qed simp

lemma length_u256_add_loop [simp]:
  "length a = length b \<Longrightarrow> length (u256_add_loop c a b) = length a"
  by (induction a b arbitrary: c rule: list_induct2) (simp_all add: overflowing_add_def)

lemma length_u256_add [simp]: "length a = length b \<Longrightarrow> length (u256_add a b) = length a"
  by (simp add: u256_add_def)

lemma wval_u256_add:
  "length a = 4 \<Longrightarrow> length b = 4 \<Longrightarrow> wval (u256_add a b) = (wval a + wval b) mod 2 ^ 256"
  using u256_add_loop_val [of a b 0] by (simp add: u256_add_def flip: power_mult)

lemma sub_limb_nat:
  fixes A B C S1 S2 W :: nat
  assumes "A < W" "B < W" "C \<le> 1" "1 < W"
    and s1: "S1 = (if B \<le> A then A - B else A + W - B)"
    and s2: "S2 = (if C \<le> S1 then S1 - C else S1 + W - C)"
  shows "int S2 = (int A - int B - int C) mod int W"
    and "int (of_bool (A < B) + of_bool (S1 < C)) = - ((int A - int B - int C) div int W)"
    and "of_bool (A < B) + of_bool (S1 < C) \<le> (1::nat)"
proof -
  have bounds: "- int W \<le> int A - int B - int C" "int A - int B - int C < int W"
    using assms(1-4) by linarith+
  show "int S2 = (int A - int B - int C) mod int W"
    unfolding div_mod_two_sided [OF bounds] s2 s1 using assms(1-4) by (auto simp: of_nat_diff)
  show "int (of_bool (A < B) + of_bool (S1 < C)) = - ((int A - int B - int C) div int W)"
    unfolding div_mod_two_sided [OF bounds] s1 using assms(1-4) by (auto simp: of_nat_diff)
  show "of_bool (A < B) + of_bool (S1 < C) \<le> (1::nat)"
    unfolding s1 using assms(1-4) by auto
qed

lemma sub_limb:
  fixes a b c :: u64
  assumes "unat c \<le> 1"
  shows "int (unat (a - b - c)) = (int (unat a) - int (unat b) - int (unat c)) mod 2 ^ 64"
    and "int (unat (of_bool (a < b) + of_bool (a - b < c) :: u64)) =
           - ((int (unat a) - int (unat b) - int (unat c)) div 2 ^ 64)"
    and "unat (of_bool (a < b) + of_bool (a - b < c) :: u64) \<le> 1"
proof -
  have s1: "unat (a - b) = (if unat b \<le> unat a then unat a - unat b
                            else unat a + 2 ^ 64 - unat b)"
    by (simp add: unat_sub_if')
  have s2: "unat (a - b - c) = (if unat c \<le> unat (a - b) then unat (a - b) - unat c
                            else unat (a - b) + 2 ^ 64 - unat c)"
    by (subst unat_sub_if') simp
  have borrow: "unat (of_bool (a < b) + of_bool (a - b < c) :: u64) =
      of_bool (unat a < unat b) + of_bool (unat (a - b) < unat c)"
    by (simp add: word_less_nat_alt of_bool_def)
  have "unat a < 2 ^ 64" "unat b < 2 ^ 64" "1 < (2 ^ 64 :: nat)"
    using unat_bound [of a] unat_bound [of b] by simp_all
  note limb = sub_limb_nat [OF this(1,2) assms this(3) s1 s2]
  show "int (unat (a - b - c)) = (int (unat a) - int (unat b) - int (unat c)) mod 2 ^ 64"
    using limb(1) by (simp only: of_nat_power of_nat_numeral)
  show "int (unat (of_bool (a < b) + of_bool (a - b < c) :: u64)) =
           - ((int (unat a) - int (unat b) - int (unat c)) div 2 ^ 64)"
    unfolding borrow using limb(2) by (simp only: of_nat_power of_nat_numeral)
  show "unat (of_bool (a < b) + of_bool (a - b < c) :: u64) \<le> 1"
    unfolding borrow by (rule limb(3))
qed

lemma u256_sub_loop_val:
  assumes "length a = length b" and "unat c \<le> 1"
  shows "int (wval (u256_sub_loop c a b)) =
           (int (wval a) - int (wval b) - int (unat c)) mod (2 ^ 64) ^ length a"
  using assms
proof (induction a b arbitrary: c rule: list_induct2)
  case (Cons x xs y ys)
  let ?B = "2 ^ 64 :: int" and ?n = "int (unat x) - int (unat y) - int (unat c)"
  let ?c = "of_bool (x < y) + of_bool (x - y < c) :: u64"
  note limb = sub_limb [OF Cons.prems, of x y]
  have IH: "int (wval (u256_sub_loop ?c xs ys)) =
              (int (wval xs) - int (wval ys) - int (unat ?c)) mod ?B ^ length xs"
    using limb(3) by (rule Cons.IH)
  have "int (wval (u256_sub_loop c (x # xs) (y # ys))) =
          ?n mod ?B + ?B * ((int (wval xs) - int (wval ys) + ?n div ?B) mod ?B ^ length xs)"
    using IH limb(1,2) by (simp add: overflowing_sub_def)
  also have "\<dots> = (?n + ?B * (int (wval xs) - int (wval ys))) mod (?B * ?B ^ length xs)"
    by (rule mod_limb_int [symmetric]) simp_all
  also have "?n + ?B * (int (wval xs) - int (wval ys)) =
      int (wval (x # xs)) - int (wval (y # ys)) - int (unat c)"
    by (simp add: right_diff_distrib)
  finally show ?case by (simp only: length_Cons power_Suc)
qed simp

lemma length_u256_sub_loop [simp]:
  "length a = length b \<Longrightarrow> length (u256_sub_loop c a b) = length a"
  by (induction a b arbitrary: c rule: list_induct2) (simp_all add: overflowing_sub_def)

lemma length_u256_sub [simp]: "length a = length b \<Longrightarrow> length (u256_sub a b) = length a"
  by (simp add: u256_sub_def)

lemma wval_u256_sub:
  assumes "length a = 4" and "length b = 4" and "wval b \<le> wval a"
  shows "wval (u256_sub a b) = wval a - wval b"
proof -
  have "int (wval (u256_sub a b)) = (int (wval a) - int (wval b)) mod 2 ^ 256"
    using u256_sub_loop_val [of a b 0] assms by (simp add: u256_sub_def flip: power_mult)
  moreover have "int (wval a) - int (wval b) < 2 ^ 256" "0 \<le> int (wval a) - int (wval b)"
    using wval_4_bound [OF assms(1)] assms(3) by (simp_all add: le_less_trans)
  ultimately show ?thesis by simp
qed

section \<open>Bits of a limb string\<close>

lemma bit_wval:
  "bit (wval xs) n \<longleftrightarrow> n div 64 < length xs \<and> bit (xs ! (n div 64)) (n mod 64)" for xs :: "u64 list"
proof (induction xs arbitrary: n)
  case (Cons x xs)
  have lo: "take_bit 64 (wval (x # xs)) = unat x"
    using unat_bound [of x] by (simp add: take_bit_eq_mod)
  have hi: "drop_bit 64 (wval (x # xs)) = wval xs"
    using unat_bound [of x] by (simp add: drop_bit_eq_div)
  show ?case
  proof (cases "n < 64")
    case True
    then have "bit (wval (x # xs)) n = bit (take_bit 64 (wval (x # xs))) n"
      by (simp add: bit_take_bit_iff)
    with True show ?thesis unfolding lo by (simp add: bit_unsigned_iff)
  next
    case False
    then have "bit (wval (x # xs)) n = bit (drop_bit 64 (wval (x # xs))) (n - 64)"
      by (simp add: bit_drop_bit_eq)
    moreover from False have "n div 64 = Suc ((n - 64) div 64)" "n mod 64 = (n - 64) mod 64"
      by (simp_all add: le_div_geq le_mod_geq)
    ultimately show ?thesis unfolding hi by (simp add: Cons.IH)
  qed
qed simp

lemma bit_shl_limb:
  assumes "i < 4" and "m < 64" and "s < 256" and "length v = 4"
  shows "bit (u256_shl_limb v (s div 64) (s mod 64) i) m \<longleftrightarrow>
           s \<le> 64 * i + m \<and> bit (wval v) (64 * i + m - s)"
proof -
  define l b where "l = s div 64" and "b = s mod 64"
  have s: "s = 64 * l + b" and b: "b < 64" by (simp_all add: l_def b_def)
  consider "i < l" | "l \<le> i" "b \<le> m" | "l = i" "m < b" | "l < i" "m < b" by linarith
  then show ?thesis
  proof cases
    case 1
    with s b assms(2) show ?thesis by (simp add: u256_shl_limb_def flip: l_def b_def)
  next
    case 2
    then have n: "64 * i + m - s = (m - b) + 64 * (i - l)" "s \<le> 64 * i + m"
      using s by (simp_all add: right_diff_distrib')
    have "(64 * i + m - s) div 64 = i - l" "(64 * i + m - s) mod 64 = m - b"
      unfolding n using assms(2) by simp_all
    then show ?thesis
      using 2 n(2) assms b by (auto simp: bit_wval u256_shl_limb_def bit_or_iff bit_push_bit_iff
          bit_drop_bit_eq simp flip: l_def b_def dest: bit_imp_le_length)
  next
    case 3
    with s assms(2) show ?thesis
      by (simp add: u256_shl_limb_def bit_push_bit_iff flip: l_def b_def)
  next
    case 4
    then have n: "64 * i + m - s = (64 + m - b) + 64 * (i - l - 1)" "s \<le> 64 * i + m"
      using s b by (simp_all add: right_diff_distrib')
    have "(64 * i + m - s) div 64 = i - l - 1" "(64 * i + m - s) mod 64 = 64 + m - b"
      unfolding n using 4 by simp_all
    then show ?thesis
      using 4 n(2) assms b by (auto simp: bit_wval u256_shl_limb_def bit_or_iff bit_push_bit_iff
          bit_drop_bit_eq simp flip: l_def b_def)
  qed
qed

lemma length_u256_shl [simp]: "length (u256_shl v s) = 4"
  by (simp add: u256_shl_def)

lemma wval_u256_shl:
  assumes "length v = 4"
  shows "wval (u256_shl v s) = (wval v * 2 ^ s) mod 2 ^ 256"
proof (cases "s < 256")
  case True
  have "wval (u256_shl v s) = take_bit 256 (push_bit s (wval v))"
  proof (rule bit_eqI)
    fix n
    show "bit (wval (u256_shl v s)) n = bit (take_bit 256 (push_bit s (wval v))) n"
    proof (cases "n < 256")
      case n: True
      then have "n div 64 < 4" by (simp add: less_mult_imp_div_less)
      with n True show ?thesis
        by (subst bit_wval) (simp add: u256_shl_def bit_shl_limb assms bit_take_bit_iff
            bit_push_bit_iff)
    next
      case False
      then have "\<not> n div 64 < 4" by (simp add: not_less le_div_geq div_le_mono [of 256 n 64])
      with False show ?thesis by (simp add: bit_wval bit_take_bit_iff)
    qed
  qed
  then show ?thesis by (simp only: take_bit_eq_mod push_bit_eq_mult)
next
  case False
  then have "(2::nat) ^ 256 dvd 2 ^ s" by (intro le_imp_power_dvd) simp
  then have "(2::nat) ^ 256 dvd wval v * 2 ^ s" by (rule dvd_mult)
  with False show ?thesis by (simp add: u256_shl_def dvd_imp_mod_0 del: zero_eq_power2)
qed

lemma length_u256_set_bit [simp]: "length (u256_set_bit q s) = length q"
  by (simp add: u256_set_bit_def)

lemma wval_u256_set_bit:
  assumes "length q = 4" and "s < 256" and "2 ^ Suc s dvd wval q"
  shows "wval (u256_set_bit q s) = wval q + 2 ^ s"
proof -
  have s: "s div 64 < 4" using assms(2) by (simp add: less_mult_imp_div_less)
  have clear: "\<not> bit (wval q) s"
    using assms(3) by (auto simp: bit_iff_odd elim!: dvdE)
  have "wval (u256_set_bit q s) = wval q OR 2 ^ s"
  proof (rule bit_eqI)
    fix n
    have "n = s \<longleftrightarrow> n div 64 = s div 64 \<and> n mod 64 = s mod 64"
      by (metis div_mult_mod_eq)
    then show "bit (wval (u256_set_bit q s)) n = bit (wval q OR 2 ^ s) n"
      using s assms(1) by (cases "n div 64 = s div 64")
        (auto simp: bit_wval u256_set_bit_def bit_or_iff bit_push_bit_iff bit_exp_iff bit_1_iff
          nth_list_update)
  qed
  also have "\<dots> = wval q + 2 ^ s"
    using clear by (intro disjunctive_add [symmetric]) (auto simp: bit_exp_iff)
  finally show ?thesis .
qed

section \<open>Leading zeros\<close>

lemma leading_zeros_bounds:
  assumes "w \<noteq> 0"
  shows "leading_zeros w < 64"
    and "2 ^ (63 - leading_zeros w) \<le> unat w"
    and "unat w < 2 ^ (64 - leading_zeros w)"
proof -
  let ?P = "\<lambda>i. \<not> bit w i" and ?xs = "rev [0..<64] :: nat list"
  let ?k = "leading_zeros w"
  have nth: "?xs ! i = 63 - i" if "i < 64" for i
    using that by (simp add: rev_nth)
  have k: "?k = length (takeWhile ?P ?xs)" by (simp add: leading_zeros_def)
  obtain j where j: "bit w j" using assms by (auto simp: bit_eq_iff)
  then have "j < 64" by (auto dest: bit_imp_le_length)
  then have "j \<in> set ?xs" by simp
  with j have "takeWhile ?P ?xs \<noteq> ?xs" by (metis takeWhile_eq_all_conv)
  then have lt: "length (takeWhile ?P ?xs) < length ?xs"
    by (metis length_takeWhile_le nth_take_lemma order_le_imp_less_or_eq takeWhile_eq_take take_all order_refl)
  then show less: "?k < 64" using k by simp
  have top: "bit w (63 - ?k)"
    using nth_length_takeWhile [OF lt] nth [OF less] k by simp
  have above: "\<not> bit w i" if "63 - ?k < i" for i
  proof (cases "i < 64")
    case True
    then have i: "63 - i < ?k" using that less by simp
    then have "takeWhile ?P ?xs ! (63 - i) = ?xs ! (63 - i)" by (simp add: k takeWhile_nth)
    also have "\<dots> = i" using nth [of "63 - i"] True by simp
    finally have "i \<in> set (takeWhile ?P ?xs)" using i k by (metis nth_mem)
    then show ?thesis by (auto dest: set_takeWhileD)
  qed (auto dest: bit_imp_le_length)
  show "2 ^ (63 - ?k) \<le> unat w"
  proof (rule ccontr)
    assume "\<not> 2 ^ (63 - ?k) \<le> unat w"
    then have "\<not> bit (unat w) (63 - ?k)" by (simp add: bit_iff_odd)
    with top show False by (simp add: bit_unsigned_iff)
  qed
  have within: "n < 64 - ?k" if "bit w n" for n
    using above [of n] that less by linarith
  have "take_bit (64 - ?k) (unat w) = unat w"
    by (rule bit_eqI) (use within in \<open>auto simp: bit_take_bit_iff bit_unsigned_iff\<close>)
  then show "unat w < 2 ^ (64 - ?k)"
    by (metis take_bit_nat_less_exp)
qed

lemma high_limb_bounds:
  fixes lo x :: nat
  assumes "lo < 2 ^ n" and "2 ^ k \<le> x" and "x < 2 ^ Suc k"
  shows "2 ^ (n + k) \<le> lo + 2 ^ n * x" and "lo + 2 ^ n * x < 2 ^ (n + Suc k)"
proof -
  have "2 ^ n * 2 ^ k \<le> 2 ^ n * x" using assms(2) by simp
  then show "2 ^ (n + k) \<le> lo + 2 ^ n * x" unfolding power_add by (rule trans_le_add2)
  have "2 ^ n * (x + 1) \<le> 2 ^ n * 2 ^ Suc k" using assms(3) by (intro mult_le_mono2) simp
  with assms(1) show "lo + 2 ^ n * x < 2 ^ (n + Suc k)" by (simp add: power_add)
qed

lemma wval_take_Suc:
  fixes v :: "u64 list"
  assumes "i < length v" and "\<forall>j < length v. i < j \<longrightarrow> v ! j = 0"
  shows "wval v = wval (take i v) + 2 ^ (64 * i) * unat (v ! i)"
proof -
  have v: "v = take i v @ v ! i # drop (Suc i) v" using assms(1) by (rule id_take_nth_drop)
  have "wval (drop (Suc i) v) = 0"
    using assms(2) by (auto simp: wval_eq_0_iff in_set_conv_nth)
  then show ?thesis using assms(1)
    by (subst v) (simp add: wval_append power_mult min_def)
qed

lemma u256_clz_loop_bounds:
  assumes "length v = 4" and "k \<le> 4" and "\<forall>j < 4. k \<le> j \<longrightarrow> v ! j = 0" and "wval v \<noteq> 0"
  shows "u256_clz_loop v k < 256 \<and> 2 ^ (255 - u256_clz_loop v k) \<le> wval v \<and>
         wval v < 2 ^ (256 - u256_clz_loop v k)"
  using assms(2,3)
proof (induction k)
  case 0
  then have "wval v = 0" using assms(1) by (auto simp: wval_eq_0_iff in_set_conv_nth)
  with assms(4) show ?case by simp
next
  case (Suc i)
  show ?case
  proof (cases "v ! i = 0")
    case True
    have "\<forall>j < 4. i \<le> j \<longrightarrow> v ! j = 0"
      using Suc.prems(2) True by (metis Suc_leI order_le_imp_less_or_eq)
    with Suc True show ?thesis by simp
  next
    case False
    let ?z = "leading_zeros (v ! i)"
    have i: "i < 4" using Suc.prems by simp
    have val: "wval v = wval (take i v) + 2 ^ (64 * i) * unat (v ! i)"
      using Suc.prems assms(1) i by (intro wval_take_Suc) auto
    have lo: "wval (take i v) < 2 ^ (64 * i)"
      using wval_bound [of "take i v"] assms(1) i by (simp add: power_mult)
    have z: "?z < 64" "2 ^ (63 - ?z) \<le> unat (v ! i)" "unat (v ! i) < 2 ^ Suc (63 - ?z)"
      using leading_zeros_bounds [OF False] by (simp_all only: Suc_diff_le [symmetric] less_Suc_eq_le) simp_all
    have e: "64 * i + (63 - ?z) = 255 - ((3 - i) * 64 + ?z)"
      "64 * i + Suc (63 - ?z) = 256 - ((3 - i) * 64 + ?z)"
      using i z(1) by (simp_all add: left_diff_distrib')
    show ?thesis
      using high_limb_bounds [OF lo z(2,3)] False i z(1) unfolding val e by simp
  qed
qed

lemma u256_clz_bounds:
  assumes "length v = 4" and "wval v \<noteq> 0"
  shows "u256_clz v < 256" and "2 ^ (255 - u256_clz v) \<le> wval v"
    and "wval v < 2 ^ (256 - u256_clz v)"
  using u256_clz_loop_bounds [OF assms(1), of 4] assms(2) by (simp_all add: u256_clz_def)

section \<open>Long division\<close>

text \<open>
  Loop invariant of the shift-and-subtract division with \<open>s\<close> steps left: the remainder
  is below \<open>b * 2 ^ s\<close> and the quotient found so far has no bit below \<open>s\<close>.
\<close>

lemma u256_div_loop_val:
  assumes "length b = 4" and "length r = 4" and "length q = 4"
    and "wval r < wval b * 2 ^ s" and "2 ^ s dvd wval q" and "s \<le> 256"
    and "\<And>t. t < s \<Longrightarrow> wval b * 2 ^ t < 2 ^ 256"
  shows "length (u256_div_loop b s r q) = 4 \<and>
         wval (u256_div_loop b s r q) = wval q + wval r div wval b"
  using assms(2-7)
proof (induction s arbitrary: r q)
  case 0
  then show ?case by simp
next
  case (Suc s)
  have shl: "wval (u256_shl b s) = wval b * 2 ^ s"
    using Suc.prems(6) [of s] by (simp add: wval_u256_shl assms(1))
  have pos: "0 < wval b" using Suc.prems(3) by (cases "wval b") auto
  show ?case
  proof (cases "wval b * 2 ^ s \<le> wval r")
    case True
    let ?r = "u256_sub r (u256_shl b s)" and ?q = "u256_set_bit q s"
    have r: "wval ?r = wval r - wval b * 2 ^ s"
      using True Suc.prems(1) by (simp add: wval_u256_sub shl)
    have q: "wval ?q = wval q + 2 ^ s"
      using Suc.prems by (intro wval_u256_set_bit) auto
    have "(2::nat) ^ s dvd 2 ^ Suc s" by (rule le_imp_power_dvd) simp
    then have "2 ^ s dvd wval q" using Suc.prems(4) by (rule dvd_trans)
    then have dvd: "2 ^ s dvd wval ?q" unfolding q by simp
    have "length (u256_div_loop b s ?r ?q) = 4 \<and>
          wval (u256_div_loop b s ?r ?q) = wval ?q + wval ?r div wval b"
      using Suc.prems dvd True by (intro Suc.IH) (auto simp: r)
    moreover have "wval r div wval b = 2 ^ s + (wval r - wval b * 2 ^ s) div wval b"
      using pos True div_mult_self4 [of "wval b" "2 ^ s" "wval r - wval b * 2 ^ s"]
      by (simp add: mult.commute)
    ultimately show ?thesis
      using True Suc.prems(1) by (simp add: Let_def u256_gte_iff shl r q)
  next
    case False
    have "(2::nat) ^ s dvd 2 ^ Suc s" by (rule le_imp_power_dvd) simp
    then have "2 ^ s dvd wval q" using Suc.prems(4) by (rule dvd_trans)
    then have "length (u256_div_loop b s r q) = 4 \<and>
          wval (u256_div_loop b s r q) = wval q + wval r div wval b"
      using Suc.prems False by (intro Suc.IH) auto
    then show ?thesis
      using False Suc.prems(1) by (simp add: Let_def u256_gte_iff shl)
  qed
qed

lemma wval4_eq_0: "length v = 4 \<Longrightarrow> wval (v :: u64 list) = 0 \<longleftrightarrow> v = [0, 0, 0, 0]"
  by (elim list4_cases) (simp add: unat_eq_0)

lemma u256_div_ge:
  assumes "length a = 4" and "length b = 4" and "wval b \<noteq> 0" and "wval b \<le> wval a"
  shows "length (u256_div a b) = 4 \<and> wval (u256_div a b) = wval a div wval b"
proof -
  let ?za = "u256_clz a" and ?zb = "u256_clz b"
  have "wval a \<noteq> 0" using assms(3,4) by simp
  note za = u256_clz_bounds [OF assms(1) this] and zb = u256_clz_bounds [OF assms(2,3)]
  have "(2::nat) ^ (255 - ?zb) < 2 ^ (256 - ?za)" using zb(2) za(3) assms(4) by linarith
  then have "255 - ?zb < 256 - ?za" by (rule power_less_imp_less_exp [rotated]) simp
  then have le: "?za \<le> ?zb" using za(1) zb(1) by linarith
  have "(2::nat) ^ (256 - ?za) = 2 ^ (255 - ?zb) * 2 ^ Suc (?zb - ?za)"
    using le zb(1) by (simp add: Suc_diff_le flip: power_add power_Suc)
  also have "\<dots> \<le> wval b * 2 ^ Suc (?zb - ?za)" using zb(2) by (rule mult_le_mono1)
  finally have start: "wval a < wval b * 2 ^ Suc (?zb - ?za)" using za(3) by linarith
  have small: "wval b * 2 ^ t < 2 ^ 256" if "t < Suc (?zb - ?za)" for t
  proof -
    have "wval b * 2 ^ t < 2 ^ (256 - ?zb) * 2 ^ t" using zb(3) by simp
    also have "\<dots> \<le> 2 ^ 256"
      unfolding power_add [symmetric] using that zb(1) by (intro power_increasing) auto
    finally show ?thesis .
  qed
  have "length (u256_div_loop b (Suc (?zb - ?za)) a [0, 0, 0, 0]) = 4 \<and>
        wval (u256_div_loop b (Suc (?zb - ?za)) a [0, 0, 0, 0]) = wval [0, 0, 0, 0 :: u64] + wval a div wval b"
    using assms start small zb(1) by (intro u256_div_loop_val) auto
  then show ?thesis
    using assms le wval4_eq_0 [OF assms(2)] by (simp add: u256_div_def u256_gte_iff not_less)
qed

lemma length_u256_div:
  assumes "length a = 4" and "length b = 4"
  shows "length (u256_div a b) = 4"
proof (cases "wval b \<noteq> 0 \<and> wval b \<le> wval a")
  case True
  then show ?thesis using u256_div_ge assms by blast
next
  case False
  then show ?thesis
    using assms wval4_eq_0 [OF assms(2)] by (auto simp: u256_div_def u256_gte_iff)
qed

lemma u256_div_val:
  assumes "length a = 4" and "length b = 4"
  shows "wval (u256_div a b) = wval a div wval b"
proof (cases "wval b \<noteq> 0 \<and> wval b \<le> wval a")
  case True
  then show ?thesis using u256_div_ge assms by blast
next
  case False
  then show ?thesis
    using assms wval4_eq_0 [OF assms(2)] by (auto simp: u256_div_def u256_gte_iff)
qed

section \<open>Multiplication and division by a 32-bit number\<close>

lemma mul_limb:
  fixes a b c :: u64
  assumes "unat b < 2 ^ 32"
  defines "p \<equiv> ucast a * ucast b + ucast c :: u128"
  shows "unat (ucast p :: u64) = (unat a * unat b + unat c) mod 2 ^ 64"
    and "unat (ucast (drop_bit 64 p) :: u64) = (unat a * unat b + unat c) div 2 ^ 64"
proof -
  have a: "unat a < 2 ^ 64" and c: "unat c < 2 ^ 64"
    using unat_bound [of a] unat_bound [of c] by simp_all
  have "unat a * unat b \<le> 2 ^ 64 * 2 ^ 32"
    using a assms(1) by (intro mult_le_mono) simp_all
  then have small: "unat a * unat b + unat c < 2 ^ 128" using c by simp
  have up: "unat (ucast x :: u128) = unat x" for x :: u64
  proof -
    have "unat x < 2 ^ 128" using unat_bound [of x] by simp
    then show ?thesis by (simp add: unsigned_ucast_eq take_bit_eq_mod)
  qed
  have p: "unat p = unat a * unat b + unat c"
    using small unfolding p_def by (simp add: unat_word_ariths up mod_add_left_eq)
  show "unat (ucast p :: u64) = (unat a * unat b + unat c) mod 2 ^ 64"
    by (simp add: unsigned_ucast_eq take_bit_eq_mod p)
  have "(unat a * unat b + unat c) div 2 ^ 64 < 2 ^ 64" using small by (simp add: less_mult_imp_div_less)
  moreover have "unat (drop_bit 64 p) = (unat a * unat b + unat c) div 2 ^ 64"
    unfolding unat_drop_bit_eq p by (rule drop_bit_eq_div)
  ultimately show "unat (ucast (drop_bit 64 p) :: u64) = (unat a * unat b + unat c) div 2 ^ 64"
    unfolding unsigned_ucast_eq take_bit_eq_mod by simp
qed

lemma u256_mul_u32_loop_val:
  assumes "unat b < 2 ^ 32"
  shows "wval (u256_mul_u32_loop b c a) = (wval a * unat b + unat c) mod (2 ^ 64) ^ length a"
proof (induction a arbitrary: c)
  case (Cons x xs)
  let ?B = "2 ^ 64 :: nat" and ?n = "unat x * unat b + unat c"
  let ?p = "ucast x * ucast b + ucast c :: u128"
  note limb = mul_limb [OF assms, of x c]
  have "wval (u256_mul_u32_loop b c (x # xs)) = unat (ucast ?p :: u64)
          + ?B * wval (u256_mul_u32_loop b (ucast (drop_bit 64 ?p)) xs)"
    by (simp add: Let_def)
  also have "\<dots> = ?n mod ?B + ?B * ((wval xs * unat b + ?n div ?B) mod ?B ^ length xs)"
    unfolding Cons.IH limb ..
  also have "\<dots> = (?n + ?B * (wval xs * unat b)) mod (?B * ?B ^ length xs)"
    by (rule mod_limb_nat [symmetric]) simp
  also have "?n + ?B * (wval xs * unat b) = wval (x # xs) * unat b + unat c"
    by (simp only: wval.simps distrib_right mult.assoc len_num1 len_bit0) simp
  finally show ?case by (simp only: length_Cons power_Suc)
qed simp

lemma length_u256_mul_u32_loop [simp]: "length (u256_mul_u32_loop b c a) = length a"
  by (induction a arbitrary: c) (simp_all add: Let_def)

lemma length_u256_mul_u32 [simp]: "length (u256_mul_u32 a b) = length a"
  by (simp add: u256_mul_u32_def)

lemma unat_ucast_u32_u64: "unat (ucast (b::u32) :: u64) = unat b"
proof -
  have "unat b < 2 ^ 64" using unat_bound [of b] by simp
  then show ?thesis by (simp add: unsigned_ucast_eq take_bit_eq_mod)
qed

lemma wval_u256_mul_u32:
  assumes "length a = 4"
  shows "wval (u256_mul_u32 a b) = (wval a * unat b) mod 2 ^ 256"
proof -
  have "unat (ucast b :: u64) < 2 ^ 32" using unat_bound [of b] by (simp add: unat_ucast_u32_u64)
  from u256_mul_u32_loop_val [OF this, of 0 a] show ?thesis
    using assms by (simp add: u256_mul_u32_def unat_ucast_u32_u64 flip: power_mult)
qed

lemma div_limb:
  fixes r :: u128 and a b :: u64
  assumes "unat r < unat b"
  defines "d \<equiv> push_bit 64 r OR ucast a :: u128"
  shows "unat (ucast (d div ucast b) :: u64) = (unat r * 2 ^ 64 + unat a) div unat b"
    and "unat (d mod ucast b) = (unat r * 2 ^ 64 + unat a) mod unat b"
proof -
  have a: "unat a < 2 ^ 64" and b: "unat b < 2 ^ 64"
    using unat_bound [of a] unat_bound [of b] by simp_all
  have up: "unat (ucast x :: u128) = unat x" for x :: u64
  proof -
    have "unat x < 2 ^ 128" using unat_bound [of x] by simp
    then show ?thesis by (simp add: unsigned_ucast_eq take_bit_eq_mod)
  qed
  have r: "unat r + 1 \<le> 2 ^ 64" using assms(1) b by simp
  have "(unat r + 1) * 2 ^ 64 \<le> 2 ^ 64 * 2 ^ 64" using r by (rule mult_le_mono1)
  then have small: "unat r * 2 ^ 64 + unat a < 2 ^ 128" using a by (simp add: distrib_right)
  have "unat d = take_bit 128 (push_bit 64 (unat r)) OR unat a"
    unfolding d_def unsigned_or_eq unsigned_push_bit_eq by (simp add: up)
  also have "\<dots> = push_bit 64 (unat r) OR unat a"
    using small by (simp add: take_bit_eq_mod push_bit_eq_mult)
  also have "\<dots> = push_bit 64 (unat r) + unat a"
    by (rule disjunctive_add [symmetric])
      (auto simp: bit_push_bit_iff bit_unsigned_iff dest: bit_imp_le_length)
  finally have d: "unat d = unat r * 2 ^ 64 + unat a" by (simp add: push_bit_eq_mult)
  show "unat (d mod ucast b) = (unat r * 2 ^ 64 + unat a) mod unat b"
    by (simp add: unat_mod_distrib up d)
  have "(unat r * 2 ^ 64 + unat a) div unat b < 2 ^ 64"
  proof (rule less_mult_imp_div_less)
    have "(unat r + 1) * 2 ^ 64 \<le> unat b * 2 ^ 64" using assms(1) by (intro mult_le_mono1) simp
    with a show "unat r * 2 ^ 64 + unat a < 2 ^ 64 * unat b" by (simp add: algebra_simps)
  qed
  moreover have "unat (d div ucast b) = (unat r * 2 ^ 64 + unat a) div unat b"
    by (simp add: unat_div_distrib up d)
  ultimately show "unat (ucast (d div ucast b) :: u64) = (unat r * 2 ^ 64 + unat a) div unat b"
    unfolding unsigned_ucast_eq take_bit_eq_mod by simp
qed

lemma length_u256_div_u32_loop [simp]: "length (u256_div_u32_loop b r a) = length a"
  by (induction a arbitrary: r) (simp_all add: Let_def)

lemma u256_div_u32_loop_val:
  assumes "unat r < unat b"
  shows "wval (rev (u256_div_u32_loop b r a)) =
           (unat r * (2 ^ 64) ^ length a + wval (rev a)) div unat b"
  using assms
proof (induction a arbitrary: r)
  case (Cons x xs)
  let ?N = "(2 ^ 64) ^ length xs :: nat"
  let ?d = "push_bit 64 r OR ucast x :: u128" and ?n = "unat r * 2 ^ 64 + unat x"
  note limb = div_limb [OF Cons.prems, of x]
  have "?n mod unat b < unat b" using Cons.prems by simp
  then have IH: "wval (rev (u256_div_u32_loop b (?d mod ucast b) xs)) =
      (?n mod unat b * ?N + wval (rev xs)) div unat b"
    using Cons.IH [of "?d mod ucast b"] limb(2) by simp
  have "wval (rev (u256_div_u32_loop b r (x # xs))) =
      wval (rev (u256_div_u32_loop b (?d mod ucast b) xs)) + ?N * unat (ucast (?d div ucast b) :: u64)"
    by (simp add: Let_def wval_append)
  also have "\<dots> = (?n mod unat b * ?N + wval (rev xs)) div unat b + ?N * (?n div unat b)"
    unfolding IH limb ..
  also have "\<dots> = (?n mod unat b * ?N + wval (rev xs) + (?N * (?n div unat b)) * unat b) div unat b"
    using Cons.prems by simp
  also have "?n mod unat b * ?N + wval (rev xs) + (?N * (?n div unat b)) * unat b =
      (?n div unat b * unat b + ?n mod unat b) * ?N + wval (rev xs)"
    by (simp only: distrib_right) (simp only: ac_simps)
  also have "\<dots> = ?n * ?N + wval (rev xs)" by (simp only: div_mult_mod_eq)
  also have "\<dots> = unat r * (2 ^ 64) ^ length (x # xs) + wval (rev (x # xs))"
    by (simp only: rev.simps wval_append length_rev wval.simps length_Cons power_Suc distrib_right)
      (simp add: distrib_left mult.left_commute mult.commute)
  finally show ?case .
qed simp

lemma wval_u256_div_u32:
  assumes "length a = 4" and "b \<noteq> 0"
  obtains q where "u256_div_u32 a b = Inr q" and "length q = 4" and "wval q = wval a div unat b"
proof
  have "unat (0 :: u128) < unat (ucast b :: u64)"
    using assms(2) by (simp add: unat_ucast_u32_u64 unat_gt_0 del: unsigned_ucast_eq)
  from u256_div_u32_loop_val [OF this, of "rev a"]
  show "wval (rev (u256_div_u32_loop (ucast b) 0 (rev a))) = wval a div unat b"
    by (simp add: unat_ucast_u32_u64)
qed (use assms in \<open>simp_all add: u256_div_u32_def\<close>)

end
