(* ===== verification/LC_Difficulty.thy ===== *)
theory LC_Difficulty
  imports LC_U256_Arith
begin

text \<open>
  Proof of work and difficulty of the light client: \<open>utils/pow.rs\<close> and
  \<open>utils/difficulty.rs\<close>. Compact targets are decoded and encoded, the work of a header
  is \<open>2 ^ 256 / (target + 1)\<close>, and the retarget multiplies the old target by the
  clamped timespan. The lemmas give the numeric meaning of each routine.
\<close>

section \<open>Definitions\<close>

definition TARGET_TIMESPAN :: u32 where "TARGET_TIMESPAN = 1209600"
definition BLOCKS_PER_EPOCH :: u64 where "BLOCKS_PER_EPOCH = 2016"
definition MAX_TARGET_BITS :: u32 where "MAX_TARGET_BITS = 0x1d00ffff"

fun meets_from_top :: "bytes \<Rightarrow> bytes \<Rightarrow> bool" where
  "meets_from_top (h # hs) (t # ts) =
     (if h > t then False else if h < t then True else meets_from_top hs ts)"
| "meets_from_top _ _ = True"

definition hash_meets_target :: "bytes \<Rightarrow> bytes \<Rightarrow> bool" where
  "hash_meets_target hash target = meets_from_top (rev hash) (rev target)"

definition target_from_bits :: "u32 \<Rightarrow> bytes" where
  "target_from_bits bits =
     (let exponent = unat (drop_bit 24 bits AND 0xff);
          mantissa = bits AND 0x007fffff
      in if exponent \<le> 3
         then bytes4 (drop_bit (8 * (3 - exponent)) mantissa) @ replicate 28 0
         else let byte_offset = exponent - 3 in
           if byte_offset + 3 \<le> 32
           then replicate byte_offset 0 @ take 3 (bytes4 mantissa)
                  @ replicate (32 - (byte_offset + 3)) 0
           else replicate 32 0)"

text \<open>Byte-wise addition with a 16-bit accumulator, of a carry only and of two operands.\<close>

fun inc_bytes_loop :: "u16 \<Rightarrow> bytes \<Rightarrow> bytes" where
  "inc_bytes_loop carry [] = []"
| "inc_bytes_loop carry (t # ts) =
     (let sum = ucast t + carry in ucast sum # inc_bytes_loop (drop_bit 8 sum) ts)"

fun add_bytes_loop :: "u16 \<Rightarrow> bytes \<Rightarrow> bytes \<Rightarrow> bytes" where
  "add_bytes_loop carry (a # as) (b # bs) =
     (let sum = ucast a + ucast b + carry in ucast sum # add_bytes_loop (drop_bit 8 sum) as bs)"
| "add_bytes_loop carry _ _ = []"

definition add_chainwork :: "bytes \<Rightarrow> bytes \<Rightarrow> bytes" where
  "add_chainwork a b = add_bytes_loop 0 a b"

definition calculate_chainwork :: "u32 \<Rightarrow> bytes" where
  "calculate_chainwork bits =
     (let target = target_from_bits bits;
          target_plus_one = inc_bytes_loop 1 target
      in if target_plus_one = replicate 32 0 then replicate 32 0
         else let not_target = map (\<lambda>t. NOT t) target;
                  quot = u256_div (u256_from_le_bytes not_target) (u256_from_le_bytes target_plus_one)
              in u256_to_le_bytes (u256_add quot [1, 0, 0, 0]))"

text \<open>The \<open>while\<close> loop that finds the highest non-zero byte.\<close>

fun target_size_loop :: "bytes \<Rightarrow> nat \<Rightarrow> nat" where
  "target_size_loop target 0 = 0"
| "target_size_loop target (Suc k) = (if target ! k = 0 then target_size_loop target k else Suc k)"

definition raw_mantissa :: "bytes \<Rightarrow> nat \<Rightarrow> u32" where
  "raw_mantissa target sz =
     (if sz \<le> 3
      then push_bit (8 * (3 - sz)) (fold (\<lambda>b m. push_bit 8 m OR ucast b) (rev (take sz target)) 0)
      else push_bit 16 (ucast (target ! (sz - 1))) OR push_bit 8 (ucast (target ! (sz - 2)))
             OR ucast (target ! (sz - 3)))"

definition bits_from_target :: "bytes \<Rightarrow> u32" where
  "bits_from_target target =
     (let sz = target_size_loop target 32 in
      if sz = 0 then 0
      else let mantissa = raw_mantissa target sz;
               negative = (mantissa AND 0x00800000 \<noteq> 0);
               mantissa' = (if negative then drop_bit 8 mantissa else mantissa);
               sz' = (if negative then sz + 1 else sz)
           in push_bit 24 (of_nat sz') OR (mantissa' AND 0x007fffff))"

definition clamp_timespan :: "u32 \<Rightarrow> u32" where
  "clamp_timespan t =
     (if t < TARGET_TIMESPAN div 4 then TARGET_TIMESPAN div 4
      else if t > TARGET_TIMESPAN * 4 then TARGET_TIMESPAN * 4 else t)"

definition calculate_new_bits :: "u32 \<Rightarrow> u32 \<Rightarrow> u32 result" where
  "calculate_new_bits old_bits actual_timespan =
     (let clamped = clamp_timespan actual_timespan;
          old_limbs = u256_from_le_bytes (target_from_bits old_bits);
          multiplied = u256_mul_u32 old_limbs clamped
      in bindE (u256_div_u32 multiplied TARGET_TIMESPAN) (\<lambda>new_target_limbs.
         let new_target = u256_to_le_bytes new_target_limbs;
             max_target = target_from_bits MAX_TARGET_BITS;
             capped = (if u256_gt_bytes new_target max_target then max_target else new_target)
         in Inr (bits_from_target capped)))"

definition required_bits_for_next_block ::
    "bool \<Rightarrow> u64 \<Rightarrow> u32 \<Rightarrow> u32 \<Rightarrow> u32 \<Rightarrow> u32 \<Rightarrow> u32 result" where
  "required_bits_for_next_block testnet4 block_height timestamp parent_timestamp epoch_bits
       epoch_start_time =
     (if epoch_bits = 0 then Inr 0
      else if block_height mod BLOCKS_PER_EPOCH = 0
        then calculate_new_bits epoch_bits (saturating_sub parent_timestamp epoch_start_time)
      else if testnet4 \<and> timestamp > parent_timestamp \<and> timestamp - parent_timestamp > 20 * 60
        then Inr MAX_TARGET_BITS
      else Inr epoch_bits)"

section \<open>The hash comparison\<close>

lemma meets_from_top_iff:
  "length hs = length ts \<Longrightarrow> meets_from_top hs ts \<longleftrightarrow> gt_from_top True ts hs"
  by (induction hs ts rule: list_induct2) auto

lemma hash_meets_target_le:
  "length hash = length target \<Longrightarrow> hash_meets_target hash target \<longleftrightarrow> le_nat hash \<le> le_nat target"
  by (auto simp: hash_meets_target_def meets_from_top_iff gt_from_top_iff wval_u8)

section \<open>Targets\<close>

definition bits_exponent :: "u32 \<Rightarrow> nat" where
  "bits_exponent bits = unat bits div 2 ^ 24"

definition bits_mantissa :: "u32 \<Rightarrow> nat" where
  "bits_mantissa bits = unat bits mod 2 ^ 23"

text \<open>The value of a compact target, in arithmetic.\<close>

definition compact_value :: "nat \<Rightarrow> nat \<Rightarrow> nat" where
  "compact_value e m = (if e \<le> 3 then m div 256 ^ (3 - e) else if e \<le> 32 then m * 256 ^ (e - 3) else 0)"

lemma exponent_word: "unat (drop_bit 24 bits AND 0xff) = bits_exponent (bits :: u32)"
proof -
  have "(0xff :: u32) = mask 8" by (simp add: mask_eq_exp_minus_1)
  then have "unat (drop_bit 24 bits AND 0xff) = unat (take_bit 8 (drop_bit 24 bits))"
    by (simp only: take_bit_eq_mask)
  also have "\<dots> = take_bit 8 (drop_bit 24 (unat bits))"
    by (simp only: unsigned_take_bit_eq unat_drop_bit_eq)
  also have "\<dots> = unat bits div 2 ^ 24"
  proof -
    have "unat bits div 2 ^ 24 < 2 ^ 8"
      using unat_bound [of bits] by (simp add: less_mult_imp_div_less)
    then show ?thesis by (simp add: take_bit_eq_mod drop_bit_eq_div)
  qed
  finally show ?thesis by (simp only: bits_exponent_def)
qed

lemma mantissa_word: "unat (bits AND 0x007fffff) = bits_mantissa (bits :: u32)"
proof -
  have "(0x007fffff :: u32) = mask 23" by (simp add: mask_eq_exp_minus_1)
  then have "unat (bits AND 0x007fffff) = unat (take_bit 23 bits)"
    by (simp only: take_bit_eq_mask)
  then show ?thesis by (simp only: unat_take_bit_mod bits_mantissa_def)
qed

lemma length_target_from_bits [simp]: "length (target_from_bits bits) = 32"
  by (auto simp: target_from_bits_def Let_def)

lemma bits_mantissa_bound: "bits_mantissa bits < 2 ^ 23"
  by (simp add: bits_mantissa_def)

lemma le_nat_target_from_bits:
  "le_nat (target_from_bits bits) = compact_value (bits_exponent bits) (bits_mantissa bits)"
proof -
  let ?e = "bits_exponent bits" and ?m = "bits AND 0x007fffff"
  have small: "le_nat (bytes4 (drop_bit n ?m)) = bits_mantissa bits div 2 ^ n" for n
  proof -
    have "bits_mantissa bits div 2 ^ n < 256 ^ 4"
      using bits_mantissa_bound [of bits] by (simp add: le_less_trans [OF div_le_dividend])
    then show ?thesis by (simp only: le_nat_le_bytes unat_drop_bit_div mantissa_word mod_less)
  qed
  have three: "le_nat (take 3 (bytes4 ?m)) = bits_mantissa bits"
  proof -
    have "take 3 (bytes4 ?m) = le_bytes 3 ?m" by (simp add: numeral_eq_Suc)
    then show ?thesis
      using bits_mantissa_bound [of bits] by (simp add: le_nat_le_bytes mantissa_word)
  qed
  have p: "(256::nat) ^ k = 2 ^ (8 * k)" for k by (simp add: power_mult)
  show ?thesis
    unfolding target_from_bits_def Let_def exponent_word compact_value_def
    by (simp add: le_nat_append small three p mult.commute del: drop_bit_and le_nat_le_bytes_full)
qed

lemma target_bound: "le_nat (target_from_bits bits) < 2 ^ 255"
proof -
  let ?e = "bits_exponent bits" and ?m = "bits_mantissa bits"
  have m: "?m < 2 ^ 23" by (rule bits_mantissa_bound)
  have "compact_value ?e ?m < 2 ^ 255"
  proof (cases "?e \<le> 3")
    case True
    have "?m div 256 ^ (3 - ?e) \<le> ?m" by (rule div_le_dividend)
    also have "\<dots> < 2 ^ 255" using m by simp
    finally show ?thesis using True by (simp add: compact_value_def)
  next
    case False
    have "?m * 256 ^ (?e - 3) < 2 ^ 255" if "?e \<le> 32"
    proof -
      have "?m * 256 ^ (?e - 3) \<le> ?m * 256 ^ 29"
        using that by (intro mult_le_mono2 power_increasing) auto
      also have "\<dots> < 2 ^ 255" using m by simp
      finally show ?thesis .
    qed
    then show ?thesis using False by (simp add: compact_value_def)
  qed
  then show ?thesis by (simp only: le_nat_target_from_bits)
qed

section \<open>Work\<close>

lemma inc_limb:
  fixes t :: u8 and c :: u16
  assumes "unat c \<le> 1"
  shows "unat (ucast (ucast t + c) :: u8) = (unat t + unat c) mod 256"
    and "unat (drop_bit 8 (ucast t + c)) = (unat t + unat c) div 256"
proof -
  have t: "unat t < 256" by (rule unat_u8_bound)
  have s: "unat (ucast t + c) = unat t + unat c"
    using t assms by (simp add: unat_word_ariths unat_ucast_up)
  show "unat (ucast (ucast t + c) :: u8) = (unat t + unat c) mod 256"
    by (simp add: unat_ucast_mod s)
  show "unat (drop_bit 8 (ucast t + c)) = (unat t + unat c) div 256"
    unfolding unat_drop_bit_div s by simp
qed

lemma le_nat_inc_bytes:
  "unat c \<le> 1 \<Longrightarrow> le_nat (inc_bytes_loop c ts) = (le_nat ts + unat c) mod 256 ^ length ts"
proof (induction ts arbitrary: c)
  case (Cons t ts)
  let ?n = "unat t + unat c" and ?c = "drop_bit 8 (ucast t + c) :: u16"
  note limb = inc_limb [OF Cons.prems, of t]
  have "unat ?c \<le> 1" unfolding limb using unat_u8_bound [of t] Cons.prems by simp
  then have IH: "le_nat (inc_bytes_loop ?c ts) = (le_nat ts + unat ?c) mod 256 ^ length ts"
    by (rule Cons.IH)
  have "le_nat (inc_bytes_loop c (t # ts)) =
      unat (ucast (ucast t + c :: u16) :: u8) + 256 * le_nat (inc_bytes_loop ?c ts)"
    by (simp only: inc_bytes_loop.simps Let_def le_nat.simps)
  also have "\<dots> = ?n mod 256 + 256 * ((le_nat ts + ?n div 256) mod 256 ^ length ts)"
    unfolding IH limb ..
  also have "\<dots> = (?n + 256 * le_nat ts) mod (256 * 256 ^ length ts)"
    by (rule mod_limb_nat [symmetric]) simp
  finally show ?case by (simp add: ac_simps)
qed simp

lemma add_byte_limb:
  fixes a b :: u8 and c :: u16
  assumes "unat c \<le> 1"
  shows "unat (ucast (ucast a + ucast b + c) :: u8) = (unat a + unat b + unat c) mod 256"
    and "unat (drop_bit 8 (ucast a + ucast b + c)) = (unat a + unat b + unat c) div 256"
proof -
  have t: "unat a < 256" "unat b < 256" by (rule unat_u8_bound)+
  have s: "unat (ucast a + ucast b + c) = unat a + unat b + unat c"
    using t assms by (simp add: unat_word_ariths unat_ucast_up)
  show "unat (ucast (ucast a + ucast b + c) :: u8) = (unat a + unat b + unat c) mod 256"
    by (simp add: unat_ucast_mod s)
  show "unat (drop_bit 8 (ucast a + ucast b + c)) = (unat a + unat b + unat c) div 256"
    unfolding unat_drop_bit_div s by simp
qed

lemma le_nat_add_bytes:
  "length as = length bs \<Longrightarrow> unat c \<le> 1 \<Longrightarrow>
   le_nat (add_bytes_loop c as bs) = (le_nat as + le_nat bs + unat c) mod 256 ^ length as"
proof (induction as bs arbitrary: c rule: list_induct2)
  case (Cons a as b bs)
  let ?n = "unat a + unat b + unat c" and ?c = "drop_bit 8 (ucast a + ucast b + c) :: u16"
  note limb = add_byte_limb [OF Cons.prems, of a b]
  have "unat ?c \<le> 1" unfolding limb using unat_u8_bound [of a] unat_u8_bound [of b] Cons.prems by simp
  then have IH: "le_nat (add_bytes_loop ?c as bs) =
      (le_nat as + le_nat bs + unat ?c) mod 256 ^ length as"
    by (rule Cons.IH)
  have "le_nat (add_bytes_loop c (a # as) (b # bs)) =
      unat (ucast (ucast a + ucast b + c :: u16) :: u8) + 256 * le_nat (add_bytes_loop ?c as bs)"
    by (simp only: add_bytes_loop.simps Let_def le_nat.simps)
  also have "\<dots> = ?n mod 256 + 256 * ((le_nat as + le_nat bs + ?n div 256) mod 256 ^ length as)"
    unfolding IH limb ..
  also have "\<dots> = (?n + 256 * (le_nat as + le_nat bs)) mod (256 * 256 ^ length as)"
    by (rule mod_limb_nat [symmetric]) simp
  also have "?n + 256 * (le_nat as + le_nat bs) = le_nat (a # as) + le_nat (b # bs) + unat c"
    by simp
  finally show ?case by (simp only: length_Cons power_Suc)
qed simp

lemma length_inc_bytes [simp]: "length (inc_bytes_loop c ts) = length ts"
  by (induction ts arbitrary: c) (simp_all add: Let_def)

lemma length_add_chainwork [simp]: "length a = length b \<Longrightarrow> length (add_chainwork a b) = length a"
proof -
  have "length (add_bytes_loop c a b) = length a" if "length a = length b" for c
    using that by (induction a b arbitrary: c rule: list_induct2) (simp_all add: Let_def)
  then show "length a = length b \<Longrightarrow> length (add_chainwork a b) = length a"
    by (simp add: add_chainwork_def)
qed

lemma le_nat_add_chainwork:
  "length a = 32 \<Longrightarrow> length b = 32 \<Longrightarrow>
   le_nat (add_chainwork a b) = (le_nat a + le_nat b) mod 2 ^ 256"
  using le_nat_add_bytes [of a b 0] by (simp add: add_chainwork_def)

lemma unat_not_u8: "unat (NOT b) = 255 - unat (b :: u8)"
proof -
  have "NOT b = - 1 - b" by (simp add: not_eq_complement)
  moreover have "unat (- 1 :: u8) = 255"
    by (simp only: unsigned_minus_1_eq_mask mask_eq_exp_minus_1) simp
  ultimately show ?thesis by (metis unat_sub word_n1_ge)
qed

lemma le_nat_not: "le_nat (map (\<lambda>t. NOT t) ts) = 256 ^ length ts - 1 - le_nat ts"
proof (induction ts)
  case (Cons t ts)
  have "unat t < 256" "le_nat ts < 256 ^ length ts" by (rule unat_u8_bound) (rule le_nat_bound)
  then show ?case by (simp add: Cons.IH unat_not_u8)
qed simp

lemma length_calculate_chainwork [simp]: "length (calculate_chainwork bits) = 32"
  by (simp add: calculate_chainwork_def Let_def)

text \<open>The work of a header is \<open>2 ^ 256 div (target + 1)\<close>, taken modulo \<open>2 ^ 256\<close>.\<close>

lemma le_nat_calculate_chainwork:
  "le_nat (calculate_chainwork bits) = (2 ^ 256 div (le_nat (target_from_bits bits) + 1)) mod 2 ^ 256"
proof -
  let ?t = "target_from_bits bits" and ?T = "le_nat (target_from_bits bits)"
  have T: "?T < 2 ^ 255" by (rule target_bound)
  have inc: "le_nat (inc_bytes_loop 1 ?t) = ?T + 1"
    using T le_nat_inc_bytes [of 1 ?t] by simp
  have nz: "inc_bytes_loop 1 ?t \<noteq> replicate 32 0" using inc by (metis le_nat_replicate_0 add_is_0 zero_neq_one)
  have nt: "le_nat (map (\<lambda>t. NOT t) ?t) = 2 ^ 256 - 1 - ?T" by (simp add: le_nat_not)
  let ?q = "u256_div (u256_from_le_bytes (map (\<lambda>t. NOT t) ?t)) (u256_from_le_bytes (inc_bytes_loop 1 ?t))"
  have len: "length ?q = 4" by (simp add: length_u256_div)
  have q: "wval ?q = (2 ^ 256 - 1 - ?T) div (?T + 1)"
    by (simp only: u256_div_val length_u256_from_le_bytes wval_u256_from_le_bytes length_map
        length_inc_bytes length_target_from_bits nt inc)
  have sum: "2 ^ 256 = (2 ^ 256 - 1 - ?T) + (?T + 1)" using T by simp
  have step: "2 ^ 256 div (?T + 1) = (2 ^ 256 - 1 - ?T) div (?T + 1) + 1"
    by (subst sum) (rule div_add_self2, simp)
  have "le_nat (calculate_chainwork bits) = wval (u256_add ?q [1, 0, 0, 0])"
    using nz len by (simp add: calculate_chainwork_def Let_def le_nat_u256_to_le_bytes)
  also have "\<dots> = (wval ?q + wval [1, 0, 0, 0 :: u64]) mod 2 ^ 256"
    using len by (intro wval_u256_add) simp_all
  also have "wval [1, 0, 0, 0 :: u64] = 1" by simp
  finally show ?thesis unfolding q step .
qed

section \<open>Compact encoding of a target\<close>

lemma le_nat_drop: "le_nat (drop n bs) = le_nat bs div 256 ^ n"
proof (induction n arbitrary: bs)
  case (Suc n)
  show ?case
  proof (cases bs)
    case (Cons b bs')
    have "(unat b + 256 * le_nat bs') div 256 = le_nat bs'" using unat_u8_bound [of b] by simp
    then show ?thesis using Cons Suc.IH [of bs'] by (simp add: div_mult2_eq)
  qed simp
qed simp

lemma target_size_loop_bounds:
  assumes "length t = 32" and "k \<le> 32" and "le_nat t < 256 ^ k"
  defines "n \<equiv> target_size_loop t k"
  shows "n \<le> k" and "le_nat t < 256 ^ n" and "n \<noteq> 0 \<Longrightarrow> 256 ^ (n - 1) \<le> le_nat t"
proof -
  have "target_size_loop t k \<le> k \<and> le_nat t < 256 ^ target_size_loop t k \<and>
      (target_size_loop t k \<noteq> 0 \<longrightarrow> 256 ^ (target_size_loop t k - 1) \<le> le_nat t)"
    using assms(2,3)
  proof (induction k)
    case (Suc k)
    have d: "drop k t = t ! k # drop (Suc k) t"
      using Suc.prems(1) assms(1) by (intro Cons_nth_drop_Suc [symmetric]) simp
    have "le_nat (drop (Suc k) t) = 0"
      using Suc.prems(2) by (simp only: le_nat_drop div_less)
    then have top: "le_nat t div 256 ^ k = unat (t ! k)" using le_nat_drop [of k t] d by simp
    show ?case
    proof (cases "t ! k = 0")
      case True
      then have "le_nat t < 256 ^ k" using top by (simp add: div_eq_0_iff)
      with True Suc show ?thesis by simp
    next
      case False
      then have "0 < le_nat t div 256 ^ k" unfolding top by (simp add: unat_gt_0)
      then have "256 ^ k \<le> le_nat t" by (simp add: div_greater_zero_iff)
      with False Suc.prems show ?thesis by simp
    qed
  qed simp
  then show "n \<le> k" "le_nat t < 256 ^ n" "n \<noteq> 0 \<Longrightarrow> 256 ^ (n - 1) \<le> le_nat t"
    by (simp_all add: n_def)
qed

lemma unat_shift_in_byte:
  fixes x :: u32 and b :: u8
  assumes "unat x < 2 ^ 24"
  shows "unat (push_bit 8 x OR ucast b) = 256 * unat x + unat b"
proof -
  have "push_bit 8 x OR ucast b = push_bit 8 x + (ucast b :: u32)"
    by (rule disjunctive_add [symmetric])
      (auto simp: bit_push_bit_iff bit_unsigned_iff bit_ucast_iff dest: bit_imp_le_length)
  moreover have "unat (push_bit 8 x) = 256 * unat x"
    unfolding unat_push_bit_mult using assms by simp
  moreover have "unat (ucast b :: u32) = unat b" by (rule unat_ucast_up) simp
  ultimately show ?thesis
    using assms unat_u8_bound [of b] by (simp add: unat_word_ariths)
qed

lemma fold_shift_in:
  "length bs \<le> 3 \<Longrightarrow> unat (fold (\<lambda>b m. push_bit 8 m OR ucast b) (rev bs) (0 :: u32)) = le_nat bs"
proof (induction bs)
  case (Cons b bs)
  have "le_nat bs < 256 ^ 2"
    using le_nat_bound [of bs] power_increasing [of "length bs" 2 "256::nat"] Cons.prems by simp
  with Cons show ?case by (simp add: unat_shift_in_byte)
qed simp

lemma unat_raw_mantissa:
  assumes "length t = 32" and "n \<le> 32" and "le_nat t < 256 ^ n"
  shows "unat (raw_mantissa t n) = (if n \<le> 3 then le_nat t * 256 ^ (3 - n) else le_nat t div 256 ^ (n - 3))"
proof (cases "n \<le> 3")
  case True
  have "le_nat t = le_nat (take n t) + 256 ^ n * le_nat (drop n t)"
    using assms(1,2) le_nat_append [of "take n t" "drop n t"] by simp
  then have tk: "le_nat (take n t) = le_nat t" using assms(3) by (cases "le_nat (drop n t)") auto
  have f: "unat (fold (\<lambda>b m. push_bit 8 m OR ucast b) (rev (take n t)) (0 :: u32)) = le_nat t"
    using True fold_shift_in [of "take n t"] tk by simp
  have "le_nat t * 256 ^ (3 - n) < 256 ^ n * 256 ^ (3 - n)" using assms(3) by simp
  also have "\<dots> = 2 ^ 24" using True by (simp flip: power_add)
  finally have "le_nat t * 2 ^ (8 * (3 - n)) < 2 ^ 24" by (simp add: power_mult)
  then have "unat (raw_mantissa t n) = le_nat t * 2 ^ (8 * (3 - n))"
    using True by (simp only: raw_mantissa_def if_True unat_push_bit_mult f) simp
  then show ?thesis using True by (simp add: power_mult)
next
  case False
  let ?a = "t ! (n - 1)" and ?b = "t ! (n - 2)" and ?c = "t ! (n - 3)"
  have s: "Suc (n - 3) = n - 2" "Suc (n - 2) = n - 1" "Suc (n - 1) = n" using False by simp_all
  have "drop (n - 3) t = ?c # ?b # ?a # drop n t"
    using False assms(1,2) Cons_nth_drop_Suc [of "n - 3" t] Cons_nth_drop_Suc [of "n - 2" t]
      Cons_nth_drop_Suc [of "n - 1" t] unfolding s by simp
  moreover have "le_nat (drop n t) = 0" using assms(3) by (simp only: le_nat_drop div_less)
  ultimately have d: "le_nat t div 256 ^ (n - 3) = unat ?c + 256 * (unat ?b + 256 * unat ?a)"
    using le_nat_drop [of "n - 3" t] by simp
  have up: "unat (ucast x :: u32) = unat x" for x :: u8 by (rule unat_ucast_up) simp
  have b: "unat x < 256" for x :: u8 by (rule unat_u8_bound)
  have "raw_mantissa t n = push_bit 8 (push_bit 8 (ucast ?a) OR ucast ?b) OR ucast ?c"
    using False by (simp add: raw_mantissa_def push_bit_or or.assoc)
  also have "unat \<dots> = 256 * (256 * unat ?a + unat ?b) + unat ?c"
    using b [of ?a] b [of ?b] by (subst unat_shift_in_byte; simp add: unat_shift_in_byte up)
  finally show ?thesis using False d by simp
qed

lemma sign_bit_iff:
  assumes "unat (m :: u32) < 2 ^ 24"
  shows "m AND 0x00800000 \<noteq> 0 \<longleftrightarrow> 2 ^ 23 \<le> unat m"
proof -
  have "(0x00800000 :: u32) = push_bit 23 1" by simp
  then have "m AND 0x00800000 \<noteq> 0 \<longleftrightarrow> bit m 23"
    by (simp only: and_exp_eq_0_iff_not_bit push_bit_of_1 not_not)
  also have "\<dots> \<longleftrightarrow> odd (unat m div 2 ^ 23)" by (rule bit_word_odd)
  also have "\<dots> \<longleftrightarrow> 2 ^ 23 \<le> unat m"
  proof (cases "2 ^ 23 \<le> unat m")
    case True
    then have "unat m div 2 ^ 23 = 1" using assms by (simp add: div_nat_eqI)
    with True show ?thesis by simp
  qed simp
  finally show ?thesis .
qed

text \<open>Assembling exponent and mantissa into a word, and reading them back.\<close>

lemma compact_fields:
  assumes "e < 256" and "unat (m :: u32) < 2 ^ 23"
  defines "w \<equiv> push_bit 24 (of_nat e) OR (m AND 0x007fffff) :: u32"
  shows "bits_exponent w = e" and "bits_mantissa w = unat m" and "unat w = unat m + 2 ^ 24 * e"
proof -
  have e: "unat (of_nat e :: u32) = e" using assms(1) by (simp add: unat_of_nat)
  have m: "unat (m AND 0x007fffff) = unat m"
    using assms(2) by (simp add: mantissa_word bits_mantissa_def)
  have "push_bit 24 (of_nat e) OR (m AND 0x007fffff) = push_bit 24 (of_nat e) + (m AND 0x007fffff)"
  proof (rule disjunctive_add [symmetric])
    fix n
    have "\<not> bit m n" if "24 \<le> n"
    proof -
      have "(2::nat) ^ 23 \<le> 2 ^ n" using that by (intro power_increasing) simp_all
      then have "unat m div 2 ^ n = 0" using assms(2) by simp
      then show ?thesis by (simp add: bit_word_odd)
    qed
    then show "\<not> bit (push_bit 24 (of_nat e :: u32)) n \<or> \<not> bit (m AND 0x007fffff) n"
      by (auto simp: bit_push_bit_iff bit_and_iff)
  qed
  moreover have "unat (push_bit 24 (of_nat e :: u32)) = e * 2 ^ 24"
    unfolding unat_push_bit_mult e using assms(1) by simp
  ultimately have w: "unat w = unat m + 2 ^ 24 * e"
    unfolding w_def using assms(1,2) m by (simp add: unat_word_ariths)
  then show "unat w = unat m + 2 ^ 24 * e" .
  show "bits_exponent w = e" unfolding bits_exponent_def w using assms(2) by simp
  show "bits_mantissa w = unat m"
    unfolding bits_mantissa_def w using assms(2) mod_mult_self1 [of "unat m" "2 * e" "2 ^ 23"] by simp
qed

lemma bits_from_target_plain:
  assumes "target_size_loop t 32 \<noteq> 0" and "bits_exponent w < 256"
    and "unat w = bits_mantissa w + 2 ^ 24 * bits_exponent w"
    and "bits_exponent w = bits_exponent (bits_from_target t)"
    and "bits_mantissa w = bits_mantissa (bits_from_target t)"
  shows "bits_from_target t = w"
proof -
  let ?n = "target_size_loop t 32" and ?b = "bits_from_target t"
  obtain k m where b: "?b = push_bit 24 (of_nat k) OR (m AND 0x007fffff)"
    using assms(1) by (auto simp: bits_from_target_def Let_def)
  have "\<not> bit ?b 23"
  proof -
    have "\<not> bit (0x007fffff :: u32) 23" by (simp add: bit_word_odd)
    then show ?thesis unfolding b by (auto simp: bit_or_iff bit_and_iff bit_push_bit_iff)
  qed
  then have "even (unat ?b div 2 ^ 23)" by (simp only: bit_word_odd not_not)
  then have "unat ?b = bits_mantissa ?b + 2 ^ 24 * bits_exponent ?b"
    unfolding bits_mantissa_def bits_exponent_def
    using mod_mult2_eq [of "unat ?b" "2 ^ 23" 2] div_mult_mod_eq [of "unat ?b" "2 ^ 24"] by simp
  then show ?thesis using assms(3-5) by (simp add: word_unat_eq_iff)
qed

lemma bits_from_target_cases:
  assumes "length t = 32" and "le_nat t \<noteq> 0"
  obtains n m where "n \<noteq> 0" "n \<le> 32" "le_nat t < 256 ^ n" "256 ^ (n - 1) \<le> le_nat t"
    and "m = (if n \<le> 3 then le_nat t * 256 ^ (3 - n) else le_nat t div 256 ^ (n - 3))"
    and "m < 2 ^ 24"
    and "bits_exponent (bits_from_target t) = (if 2 ^ 23 \<le> m then n + 1 else n)"
    and "bits_mantissa (bits_from_target t) = (if 2 ^ 23 \<le> m then m div 256 else m)"
proof
  let ?n = "target_size_loop t 32"
  let ?m = "if ?n \<le> 3 then le_nat t * 256 ^ (3 - ?n) else le_nat t div 256 ^ (?n - 3)"
  have "le_nat t < 256 ^ 32" using le_nat_bound [of t] assms(1) by simp
  note n = target_size_loop_bounds [OF assms(1) order_refl this]
  show nz: "?n \<noteq> 0" using n(2) assms(2) by (intro notI) simp
  show n32: "?n \<le> 32" and lt: "le_nat t < 256 ^ ?n" and ge: "256 ^ (?n - 1) \<le> le_nat t"
    using n nz by blast+
  show "?m = ?m" ..
  have raw: "unat (raw_mantissa t ?n) = ?m" using assms(1) n32 lt by (rule unat_raw_mantissa)
  show m24: "?m < 2 ^ 24"
  proof (cases "?n \<le> 3")
    case True
    have "le_nat t * 256 ^ (3 - ?n) < 256 ^ ?n * 256 ^ (3 - ?n)" using lt by simp
    also have "\<dots> = 2 ^ 24" using True by (simp flip: power_add)
    finally show ?thesis using True by simp
  next
    case False
    then have "(256::nat) ^ ?n = 2 ^ 24 * 256 ^ (?n - 3)"
      using power_add [of "256::nat" 3 "?n - 3"] by simp
    then show ?thesis using lt False by (simp add: less_mult_imp_div_less)
  qed
  have sign: "raw_mantissa t ?n AND 0x00800000 \<noteq> 0 \<longleftrightarrow> 2 ^ 23 \<le> ?m"
    using sign_bit_iff [of "raw_mantissa t ?n"] m24 raw by simp
  show "bits_exponent (bits_from_target t) = (if 2 ^ 23 \<le> ?m then ?n + 1 else ?n)"
  proof (cases "2 ^ 23 \<le> ?m")
    case True
    have "unat (drop_bit 8 (raw_mantissa t ?n)) < 2 ^ 23"
      unfolding unat_drop_bit_div raw using m24 by simp
    moreover have "?n + 1 < 256" using n32 by simp
    ultimately show ?thesis
      using True sign nz compact_fields(1) by (simp add: bits_from_target_def Let_def del: of_nat_Suc of_nat_add)
  next
    case False
    then have "unat (raw_mantissa t ?n) < 2 ^ 23" by (simp only: raw)
    moreover have "?n < 256" using n32 by simp
    ultimately show ?thesis
      using False sign nz compact_fields(1) by (simp add: bits_from_target_def Let_def)
  qed
  show "bits_mantissa (bits_from_target t) = (if 2 ^ 23 \<le> ?m then ?m div 256 else ?m)"
  proof (cases "2 ^ 23 \<le> ?m")
    case True
    have m: "unat (drop_bit 8 (raw_mantissa t ?n)) = ?m div 256"
      unfolding unat_drop_bit_div raw by simp
    then have "unat (drop_bit 8 (raw_mantissa t ?n)) < 2 ^ 23" using m24 by simp
    moreover have "?n + 1 < 256" using n32 by simp
    ultimately show ?thesis
      using True sign nz m compact_fields(2) by (simp add: bits_from_target_def Let_def del: of_nat_Suc of_nat_add)
  next
    case False
    then have "unat (raw_mantissa t ?n) < 2 ^ 23" by (simp only: raw)
    moreover have "?n < 256" using n32 by simp
    ultimately show ?thesis
      using False sign nz raw compact_fields(2) by (simp add: bits_from_target_def Let_def)
  qed
qed

text \<open>
  Encoding a target rounds it down to the three most significant bytes the encoding keeps;
  the exponent of the result says how many bytes are cut off.
\<close>

lemma le_nat_bits_from_target:
  assumes "length t = 32" and "le_nat t < 2 ^ 255"
  defines "k \<equiv> bits_exponent (bits_from_target t) - 3"
  shows "le_nat (target_from_bits (bits_from_target t)) = le_nat t div 256 ^ k * 256 ^ k"
proof (cases "le_nat t = 0")
  case True
  then have "t = replicate 32 0" using assms(1) by (intro le_nat_inj) simp_all
  moreover have "target_size_loop (replicate 32 0) j = 0" if "j \<le> 32" for j
    using that by (induction j) auto
  ultimately have "bits_from_target t = 0" by (simp add: bits_from_target_def)
  with True show ?thesis
    by (simp add: le_nat_target_from_bits bits_exponent_def bits_mantissa_def compact_value_def)
next
  case False
  from assms(1) False obtain n m where n: "n \<noteq> 0" "n \<le> 32" "le_nat t < 256 ^ n"
    and ge: "256 ^ (n - 1) \<le> le_nat t"
    and m: "m = (if n \<le> 3 then le_nat t * 256 ^ (3 - n) else le_nat t div 256 ^ (n - 3))"
    and e: "bits_exponent (bits_from_target t) = (if 2 ^ 23 \<le> m then n + 1 else n)"
    and mm: "bits_mantissa (bits_from_target t) = (if 2 ^ 23 \<le> m then m div 256 else m)"
    by (rule bits_from_target_cases)
  have top: "m < 2 ^ 23" if "n = 32"
  proof -
    have "le_nat t < 2 ^ 23 * 256 ^ 29" using assms(2) by simp
    then show ?thesis using that by (simp add: m less_mult_imp_div_less)
  qed
  show ?thesis
  proof (cases "2 ^ 23 \<le> m")
    case False
    then show ?thesis
      using n by (simp add: le_nat_target_from_bits compact_value_def e mm k_def m)
  next
    case True
    then have "n < 32" using top n(2) by (cases "n = 32") auto
    consider "n < 3" | "n = 3" | "3 < n" by linarith
    then show ?thesis
    proof cases
      case 1
      then have s: "(256::nat) ^ (3 - n) = 256 ^ (2 - n) * 256"
        by (metis Suc_diff_le less_Suc_eq_le numeral_2_eq_2 numeral_3_eq_3 power_Suc2)
      then have "m = (le_nat t * 256 ^ (2 - n)) * 256" using 1 m by simp
      then have "m div 256 = le_nat t * 256 ^ (2 - n)" by simp
      then show ?thesis using 1 True
        by (simp add: le_nat_target_from_bits compact_value_def e mm k_def)
    next
      case 2
      then show ?thesis using True m
        by (simp add: le_nat_target_from_bits compact_value_def e mm k_def)
    next
      case 3
      then have s: "(256::nat) ^ (n - 2) = 256 ^ (n - 3) * 256"
        by (metis Suc_diff_Suc numeral_2_eq_2 numeral_3_eq_3 power_Suc2 Suc_lessD)
      have "m div 256 = le_nat t div 256 ^ (n - 2)" using 3 m by (simp add: s div_mult2_eq)
      then show ?thesis using 3 True \<open>n < 32\<close>
        by (simp add: le_nat_target_from_bits compact_value_def e mm k_def)
    qed
  qed
qed

lemma target_of_bits_from_target_le:
  "length t = 32 \<Longrightarrow> le_nat t < 2 ^ 255 \<Longrightarrow>
   le_nat (target_from_bits (bits_from_target t)) \<le> le_nat t"
  by (simp add: le_nat_bits_from_target)

end
