(* ===== verification/LC_State.thy ===== *)
theory LC_State
  imports Solana_Runtime LC_Retarget
begin

text \<open>
  The four account types of the light client (\<open>btc-light-client/src/state\<close>) and its
  constants. A record has one field per field of the \<open>repr(C)\<close> struct, and the codecs
  place them at the struct's offsets; the parts of \<open>_reserved\<close> that the accessors read
  are fields of their own. Each layout is an interpretation of \<open>account_layout\<close>.
\<close>

section \<open>Constants\<close>

definition BTC_LIGHT_CLIENT_DISCRIMINATOR :: u8 where "BTC_LIGHT_CLIENT_DISCRIMINATOR = 0x06"
definition BLOCK_HEADER_DISCRIMINATOR :: u8 where "BLOCK_HEADER_DISCRIMINATOR = 0x07"
definition VERIFIED_TX_DISCRIMINATOR :: u8 where "VERIFIED_TX_DISCRIMINATOR = 0x08"
definition HEIGHT_INDEX_DISCRIMINATOR :: u8 where "HEIGHT_INDEX_DISCRIMINATOR = 0x09"

definition ascii :: "string \<Rightarrow> bytes" where
  "ascii cs = map (\<lambda>c. of_nat (of_char c)) cs"

definition LIGHT_CLIENT_SEED :: bytes where "LIGHT_CLIENT_SEED = ascii ''btc_light_client''"
definition BLOCK_HEADER_SEED :: bytes where "BLOCK_HEADER_SEED = ascii ''block''"
definition HEIGHT_INDEX_SEED :: bytes where "HEIGHT_INDEX_SEED = ascii ''height_index''"
definition VERIFIED_TX_SEED :: bytes where "VERIFIED_TX_SEED = ascii ''verified_tx''"

definition MAX_BATCH_SIZE :: u8 where "MAX_BATCH_SIZE = 10"
definition REQUIRED_CONFIRMATIONS :: u64 where "REQUIRED_CONFIRMATIONS = 6"

definition NETWORK_MAINNET :: u8 where "NETWORK_MAINNET = 0"
definition NETWORK_TESTNET3 :: u8 where "NETWORK_TESTNET3 = 1"
definition NETWORK_TESTNET4 :: u8 where "NETWORK_TESTNET4 = 2"
definition NETWORK_REGTEST :: u8 where "NETWORK_REGTEST = 3"

definition network_allowed_in_build :: "env \<Rightarrow> u8 \<Rightarrow> bool" where
  "network_allowed_in_build E network =
     (if network = NETWORK_MAINNET \<or> network = NETWORK_TESTNET4 then True
      else if network = NETWORK_REGTEST then \<not> mainnet_build E
      else False)"

section \<open>BitcoinLightClient\<close>

record light_client =
  lc_discriminator :: u8
  lc_bump :: u8
  lc_paused :: u8
  lc_network :: u8
  lc_padding :: u32
  lc_authority :: pubkey
  lc_genesis_hash :: hash32
  lc_tip_hash :: hash32
  lc_total_chainwork :: hash32
  lc_tip_height :: u64
  lc_finalized_height :: u64
  lc_header_count :: u64
  lc_last_update :: i64
  lc_expected_bits :: u32
  lc_epoch_start_time :: u32
  lc_reinit_epoch :: u32
  lc_reserved :: "416 word"

definition LC_LEN :: nat where "LC_LEN = 232"

definition encode_light_client :: "light_client \<Rightarrow> bytes" where
  "encode_light_client x =
     byte1 (lc_discriminator x) @ byte1 (lc_bump x) @ byte1 (lc_paused x) @
     byte1 (lc_network x) @ le_bytes 4 (lc_padding x) @ le_bytes 32 (lc_authority x) @
     le_bytes 32 (lc_genesis_hash x) @ le_bytes 32 (lc_tip_hash x) @ le_bytes 32 (lc_total_chainwork x) @
     le_bytes 8 (lc_tip_height x) @ le_bytes 8 (lc_finalized_height x) @ le_bytes 8 (lc_header_count x) @
     le_bytes 8 (lc_last_update x) @ le_bytes 4 (lc_expected_bits x) @ le_bytes 4 (lc_epoch_start_time x) @
     le_bytes 4 (lc_reinit_epoch x) @ le_bytes 52 (lc_reserved x)"

definition decode_light_client :: "bytes \<Rightarrow> light_client" where
  "decode_light_client d =
     \<lparr>lc_discriminator = byte_at 0 d, lc_bump = byte_at 1 d,
      lc_paused = byte_at 2 d, lc_network = byte_at 3 d,
      lc_padding = from_le (bslice 4 4 d), lc_authority = from_le (bslice 8 32 d),
      lc_genesis_hash = from_le (bslice 40 32 d), lc_tip_hash = from_le (bslice 72 32 d),
      lc_total_chainwork = from_le (bslice 104 32 d), lc_tip_height = from_le (bslice 136 8 d),
      lc_finalized_height = from_le (bslice 144 8 d), lc_header_count = from_le (bslice 152 8 d),
      lc_last_update = from_le (bslice 160 8 d), lc_expected_bits = from_le (bslice 168 4 d),
      lc_epoch_start_time = from_le (bslice 172 4 d), lc_reinit_epoch = from_le (bslice 176 4 d),
      lc_reserved = from_le (bslice 180 52 d)\<rparr>"

definition light_client_from_bytes :: "bytes \<Rightarrow> light_client result" where
  "light_client_from_bytes = layout_from_bytes LC_LEN BTC_LIGHT_CLIENT_DISCRIMINATOR decode_light_client"

section \<open>BlockHeader\<close>

record block_header =
  bh_discriminator :: u8
  bh_padding :: "24 word"
  bh_version :: u32
  bh_prev_block_hash :: hash32
  bh_merkle_root :: hash32
  bh_timestamp :: u32
  bh_bits :: u32
  bh_nonce :: u32
  bh_block_hash :: hash32
  bh_chainwork :: hash32
  bh_height :: u64
  bh_submitted_at :: i64
  bh_epoch_bits :: u32
  bh_epoch_start_time :: u32
  bh_reinit_epoch :: u32
  bh_reserved :: "160 word"

definition BH_LEN :: nat where "BH_LEN = 196"

definition encode_block_header :: "block_header \<Rightarrow> bytes" where
  "encode_block_header x =
     byte1 (bh_discriminator x) @ le_bytes 3 (bh_padding x) @ le_bytes 4 (bh_version x) @
     le_bytes 32 (bh_prev_block_hash x) @ le_bytes 32 (bh_merkle_root x) @ le_bytes 4 (bh_timestamp x) @
     le_bytes 4 (bh_bits x) @ le_bytes 4 (bh_nonce x) @ le_bytes 32 (bh_block_hash x) @
     le_bytes 32 (bh_chainwork x) @ le_bytes 8 (bh_height x) @ le_bytes 8 (bh_submitted_at x) @
     le_bytes 4 (bh_epoch_bits x) @ le_bytes 4 (bh_epoch_start_time x) @ le_bytes 4 (bh_reinit_epoch x) @
     le_bytes 20 (bh_reserved x)"

definition decode_block_header :: "bytes \<Rightarrow> block_header" where
  "decode_block_header d =
     \<lparr>bh_discriminator = byte_at 0 d, bh_padding = from_le (bslice 1 3 d),
      bh_version = from_le (bslice 4 4 d), bh_prev_block_hash = from_le (bslice 8 32 d),
      bh_merkle_root = from_le (bslice 40 32 d), bh_timestamp = from_le (bslice 72 4 d),
      bh_bits = from_le (bslice 76 4 d), bh_nonce = from_le (bslice 80 4 d),
      bh_block_hash = from_le (bslice 84 32 d), bh_chainwork = from_le (bslice 116 32 d),
      bh_height = from_le (bslice 148 8 d), bh_submitted_at = from_le (bslice 156 8 d),
      bh_epoch_bits = from_le (bslice 164 4 d), bh_epoch_start_time = from_le (bslice 168 4 d),
      bh_reinit_epoch = from_le (bslice 172 4 d), bh_reserved = from_le (bslice 176 20 d)\<rparr>"

definition block_header_from_bytes :: "bytes \<Rightarrow> block_header result" where
  "block_header_from_bytes = layout_from_bytes BH_LEN BLOCK_HEADER_DISCRIMINATOR decode_block_header"

section \<open>HeightIndex\<close>

record height_index =
  hi_discriminator :: u8
  hi_bump :: u8
  hi_padding :: "48 word"
  hi_block_hash :: hash32
  hi_height :: u64

definition HI_LEN :: nat where "HI_LEN = 48"

definition encode_height_index :: "height_index \<Rightarrow> bytes" where
  "encode_height_index x =
     byte1 (hi_discriminator x) @ byte1 (hi_bump x) @ le_bytes 6 (hi_padding x) @
     le_bytes 32 (hi_block_hash x) @ le_bytes 8 (hi_height x)"

definition decode_height_index :: "bytes \<Rightarrow> height_index" where
  "decode_height_index d =
     \<lparr>hi_discriminator = byte_at 0 d, hi_bump = byte_at 1 d,
      hi_padding = from_le (bslice 2 6 d), hi_block_hash = from_le (bslice 8 32 d),
      hi_height = from_le (bslice 40 8 d)\<rparr>"

definition height_index_from_bytes :: "bytes \<Rightarrow> height_index result" where
  "height_index_from_bytes = layout_from_bytes HI_LEN HEIGHT_INDEX_DISCRIMINATOR decode_height_index"

section \<open>VerifiedTransaction\<close>

record verified_transaction =
  vt_discriminator :: u8
  vt_bump :: u8
  vt_padding :: u16
  vt_block_height :: u32
  vt_block_hash :: hash32
  vt_txid :: hash32
  vt_verified_at :: i64
  vt_tx_index :: u32
  vt_reinit_epoch :: u32
  vt_reserved2 :: hash32

definition VT_LEN :: nat where "VT_LEN = 120"

definition encode_verified_tx :: "verified_transaction \<Rightarrow> bytes" where
  "encode_verified_tx x =
     byte1 (vt_discriminator x) @ byte1 (vt_bump x) @ le_bytes 2 (vt_padding x) @
     le_bytes 4 (vt_block_height x) @ le_bytes 32 (vt_block_hash x) @ le_bytes 32 (vt_txid x) @
     le_bytes 8 (vt_verified_at x) @ le_bytes 4 (vt_tx_index x) @ le_bytes 4 (vt_reinit_epoch x) @
     le_bytes 32 (vt_reserved2 x)"

definition decode_verified_tx :: "bytes \<Rightarrow> verified_transaction" where
  "decode_verified_tx d =
     \<lparr>vt_discriminator = byte_at 0 d, vt_bump = byte_at 1 d,
      vt_padding = from_le (bslice 2 2 d), vt_block_height = from_le (bslice 4 4 d),
      vt_block_hash = from_le (bslice 8 32 d), vt_txid = from_le (bslice 40 32 d),
      vt_verified_at = from_le (bslice 72 8 d), vt_tx_index = from_le (bslice 80 4 d),
      vt_reinit_epoch = from_le (bslice 84 4 d), vt_reserved2 = from_le (bslice 88 32 d)\<rparr>"

definition verified_tx_from_bytes :: "bytes \<Rightarrow> verified_transaction result" where
  "verified_tx_from_bytes = layout_from_bytes VT_LEN VERIFIED_TX_DISCRIMINATOR decode_verified_tx"

section \<open>The layouts satisfy the interface\<close>

lemmas layout_defs =
  encode_light_client_def decode_light_client_def encode_block_header_def decode_block_header_def
  encode_height_index_def decode_height_index_def encode_verified_tx_def decode_verified_tx_def
  LC_LEN_def BH_LEN_def HI_LEN_def VT_LEN_def

lemmas layout_simps =
  layout_defs slice_simps from_le_le_bytes le_bytes_from_le slice_join byte1_byte_at bslice_0_take take_join
  first_byte_append

interpretation lcl: account_layout LC_LEN BTC_LIGHT_CLIENT_DISCRIMINATOR lc_discriminator
    encode_light_client decode_light_client
  by unfold_locales
    (simp_all add: layout_simps)

interpretation bhl: account_layout BH_LEN BLOCK_HEADER_DISCRIMINATOR bh_discriminator
    encode_block_header decode_block_header
  by unfold_locales
    (simp_all add: layout_simps)

interpretation hil: account_layout HI_LEN HEIGHT_INDEX_DISCRIMINATOR hi_discriminator
    encode_height_index decode_height_index
  by unfold_locales
    (simp_all add: layout_simps)

interpretation vtl: account_layout VT_LEN VERIFIED_TX_DISCRIMINATOR vt_discriminator
    encode_verified_tx decode_verified_tx
  by unfold_locales
    (simp_all add: layout_simps)

lemmas from_bytes_defs = light_client_from_bytes_def block_header_from_bytes_def
  height_index_from_bytes_def verified_tx_from_bytes_def

lemma light_client_from_encode [simp]:
  "lc_discriminator x = BTC_LIGHT_CLIENT_DISCRIMINATOR \<Longrightarrow> light_client_from_bytes (encode_light_client x) = Inr x"
  by (simp add: from_bytes_defs lcl.from_bytes_encode)

lemma block_header_from_encode [simp]:
  "bh_discriminator x = BLOCK_HEADER_DISCRIMINATOR \<Longrightarrow> block_header_from_bytes (encode_block_header x) = Inr x"
  by (simp add: from_bytes_defs bhl.from_bytes_encode)

lemma height_index_from_encode [simp]:
  "hi_discriminator x = HEIGHT_INDEX_DISCRIMINATOR \<Longrightarrow> height_index_from_bytes (encode_height_index x) = Inr x"
  by (simp add: from_bytes_defs hil.from_bytes_encode)

lemma verified_tx_from_encode [simp]:
  "vt_discriminator x = VERIFIED_TX_DISCRIMINATOR \<Longrightarrow> verified_tx_from_bytes (encode_verified_tx x) = Inr x"
  by (simp add: from_bytes_defs vtl.from_bytes_encode)

section \<open>A concrete chain\<close>

text \<open>
  A store of the concrete environment: a regtest client at height 7 with height 2 finalised,
  the header of a block at height 1, and the HeightIndex account of that height.
\<close>

definition demo_lc :: light_client where
  "demo_lc = \<lparr>lc_discriminator = BTC_LIGHT_CLIENT_DISCRIMINATOR, lc_bump = 255, lc_paused = 0,
     lc_network = NETWORK_REGTEST, lc_padding = 0, lc_authority = 51, lc_genesis_hash = 2,
     lc_tip_hash = 8, lc_total_chainwork = 0, lc_tip_height = 7, lc_finalized_height = 2,
     lc_header_count = 7, lc_last_update = 0, lc_expected_bits = 0, lc_epoch_start_time = 0,
     lc_reinit_epoch = 0, lc_reserved = 0\<rparr>"

definition demo_header :: "hash32 \<Rightarrow> u64 \<Rightarrow> hash32 \<Rightarrow> block_header" where
  "demo_header h height root = \<lparr>bh_discriminator = BLOCK_HEADER_DISCRIMINATOR, bh_padding = 0,
     bh_version = 3, bh_prev_block_hash = 2, bh_merkle_root = root, bh_timestamp = 500, bh_bits = 0x207fffff,
     bh_nonce = 0, bh_block_hash = h, bh_chainwork = 0, bh_height = height, bh_submitted_at = 0,
     bh_epoch_bits = 0, bh_epoch_start_time = 0, bh_reinit_epoch = 0, bh_reserved = 0\<rparr>"

definition demo_hi :: "hash32 \<Rightarrow> u64 \<Rightarrow> height_index" where
  "demo_hi h height = \<lparr>hi_discriminator = HEIGHT_INDEX_DISCRIMINATOR, hi_bump = 255,
     hi_padding = 0, hi_block_hash = h, hi_height = height\<rparr>"

definition prog_account :: "bytes \<Rightarrow> account" where
  "prog_account d = \<lparr>lamports = 1, owner = 1, adata = d\<rparr>"

definition empty_account :: account where
  "empty_account = \<lparr>lamports = 0, owner = 0, adata = []\<rparr>"

definition demo_block_key :: "hash32 \<Rightarrow> pubkey" where
  "demo_block_key h = fst (find_program_address demo_env [BLOCK_HEADER_SEED, bytes32 h])"

definition demo_height_key :: "u64 \<Rightarrow> pubkey" where
  "demo_height_key h = fst (find_program_address demo_env [HEIGHT_INDEX_SEED, bytes8 h])"

definition demo_verified_key :: "hash32 \<Rightarrow> hash32 \<Rightarrow> pubkey" where
  "demo_verified_key h t = fst (find_program_address demo_env [VERIFIED_TX_SEED, bytes32 h, bytes32 t])"

definition demo_store :: "hash32 \<Rightarrow> bytes \<Rightarrow> store" where
  "demo_store canonical raw = (\<lambda>_. empty_account)
     (16 := prog_account (encode_light_client demo_lc),
      demo_block_key 3 := prog_account (encode_block_header (demo_header 3 1 9)),
      demo_height_key 1 := prog_account (encode_height_index (demo_hi canonical 1)),
      50 := \<lparr>lamports = 1, owner = 0, adata = replicate 32 0 @ raw\<rparr>,
      51 := \<lparr>lamports = 1000, owner = 0, adata = []\<rparr>)"

definition demo_meta :: "pubkey \<Rightarrow> account_info" where
  "demo_meta k = \<lparr>key = k, is_signer = True, is_writable = True\<rparr>"

lemma length_seeds:
  "length LIGHT_CLIENT_SEED = 16" "length BLOCK_HEADER_SEED = 5" "length HEIGHT_INDEX_SEED = 12"
  "length VERIFIED_TX_SEED = 11"
  by (simp_all add: LIGHT_CLIENT_SEED_def BLOCK_HEADER_SEED_def HEIGHT_INDEX_SEED_def VERIFIED_TX_SEED_def ascii_def)

lemma from_le_append32: "from_le (bytes32 h @ r) = (h :: hash32)"
proof -
  have "(from_le (xs @ r) :: hash32) = from_le xs + 2 ^ (8 * length xs) * from_le r" for xs
    by (induction xs) (simp_all add: power_add algebra_simps)
  from this [of "bytes32 h"] have "from_le (bytes32 h @ r) = h + 2 ^ (8 * 32) * from_le r"
    by (simp only: from_le_bytes32 length_le_bytes)
  moreover have "(2 :: hash32) ^ (8 * 32) = 0" by simp
  ultimately show ?thesis by (simp only: mult_zero_left add_0_right)
qed

lemma demo_keys:
  "find_program_address demo_env [BLOCK_HEADER_SEED, bytes32 h] = (5 + 256 * h, 255)"
  "find_program_address demo_env [HEIGHT_INDEX_SEED, bytes8 n] = (12 + 256 * ucast n, 255)"
  "find_program_address demo_env [VERIFIED_TX_SEED, bytes32 h, bytes32 t] = (11 + 256 * h, 255)"
  "find_program_address demo_env [LIGHT_CLIENT_SEED] = (16, 255)"
  by (simp_all add: find_program_address_def demo_env_def length_seeds from_le_append32
      from_le_le_bytes_ucast)

lemma demo_key_values:
  "demo_block_key h = 5 + 256 * h" "demo_height_key n = 12 + 256 * ucast n"
  "demo_verified_key h t = 11 + 256 * h"
  by (simp_all add: demo_block_key_def demo_height_key_def demo_verified_key_def demo_keys)

lemma demo_store_lookup:
  "demo_store c raw 16 = prog_account (encode_light_client demo_lc)"
  "demo_store c raw 773 = prog_account (encode_block_header (demo_header 3 1 9))"
  "demo_store c raw 268 = prog_account (encode_height_index (demo_hi c 1))"
  "demo_store c raw 50 = \<lparr>lamports = 1, owner = 0, adata = replicate 32 0 @ raw\<rparr>"
  "demo_store c raw 51 = \<lparr>lamports = 1000, owner = 0, adata = []\<rparr>"
  "demo_store c raw 779 = empty_account"
  by (simp_all add: demo_store_def demo_key_values)

lemma demo_env_simps [simp]:
  "program_id demo_env = 1" "rt_minimum_balance demo_env n = 1" "mainnet_build demo_env"
  "clock_unix_timestamp demo_env = 1000000" "clock_slot demo_env = 100"
  "sys_create_account demo_env = demo_create_account" "sys_transfer demo_env = demo_transfer"
  "sys_allocate demo_env = demo_allocate" "sys_assign demo_env = demo_assign"
  by (simp_all add: demo_env_def)

lemma prog_account_simps [simp]:
  "adata (prog_account d) = d" "owner (prog_account d) = 1" "lamports (prog_account d) = 1"
  by (simp_all add: prog_account_def)

lemma demo_meta_simps [simp]: "key (demo_meta k) = k" "is_signer (demo_meta k)" "is_writable (demo_meta k)"
  by (simp_all add: demo_meta_def)

end
