(* ===== verification/LC_Verify.thy ===== *)
theory LC_Verify
  imports LC_State
begin

text \<open>
  SPV verification: \<open>instructions/verify_transaction.rs\<close> and
  \<open>instructions/prune_obsolete_blocks.rs\<close> of the light client, with the hashing helpers
  of \<open>utils/sha256.rs\<close>. The Merkle climb of the handler is related to Merkle trees over
  the same pair hash; the handler's theorems say what a stored proof of inclusion attests,
  and that only orphaned, finalised headers are pruned.
\<close>

section \<open>Hashing\<close>

definition double_sha256 :: "env \<Rightarrow> bytes \<Rightarrow> hash32" where
  "double_sha256 E d = rt_sha256 E (bytes32 (rt_sha256 E d))"

definition double_sha256_pair :: "env \<Rightarrow> hash32 \<Rightarrow> hash32 \<Rightarrow> hash32" where
  "double_sha256_pair E l r = double_sha256 E (bytes32 l @ bytes32 r)"

text \<open>The hash of the concrete environment.\<close>

lemma demo_double_sha256: "double_sha256 demo_env d = from_le (take 4 d)"
proof -
  let ?x = "from_le (take 4 d) :: hash32"
  have pow: "(256::nat) ^ length (take 4 d) \<le> 256 ^ 4" by (rule power_increasing) simp_all
  then have "unat ?x = le_nat (take 4 d)" by (intro unat_from_le) simp
  then have small: "unat ?x < 256 ^ 4" using le_nat_bound [of "take 4 d"] pow by simp
  have "unat (from_le (le_bytes 4 ?x) :: hash32) = unat ?x mod 256 ^ 4"
    by (subst unat_from_le) (simp_all add: le_nat_le_bytes)
  with small have "from_le (le_bytes 4 ?x) = ?x" by (simp add: word_unat_eq_iff)
  then show ?thesis by (simp add: double_sha256_def demo_env_def take_le_bytes)
qed

section \<open>verify\_transaction\<close>

record merkle_proof =
  proof_txid :: hash32
  path_bits :: u32
  path_len :: nat
  tx_index :: u32
  siblings :: "hash32 list"

definition parse_merkle_proof :: "bytes \<Rightarrow> merkle_proof result" where
  "parse_merkle_proof pd =
     (if length pd < 41 then Inl InvalidInstructionData
      else let n = unat (pd ! 36) in
        if n > 20 then Inl InvalidInstructionData
        else if length pd < 41 + n * 32 then Inl InvalidInstructionData
        else Inr \<lparr>proof_txid = from_le (bslice 0 32 pd), path_bits = from_le (bslice 32 4 pd),
                  path_len = n, tx_index = from_le (bslice 37 4 pd),
                  siblings = map (\<lambda>i. from_le (bslice (41 + i * 32) 32 pd)) [0..<n]\<rparr>)"

text \<open>The climb from the leaf: bit \<open>i\<close> of \<open>path_bits\<close> says whether the node is a right child.\<close>

fun merkle_climb :: "env \<Rightarrow> u32 \<Rightarrow> nat \<Rightarrow> hash32 list \<Rightarrow> hash32 \<Rightarrow> hash32" where
  "merkle_climb E bits i [] current = current"
| "merkle_climb E bits i (sibling # rest) current =
     (let is_right = (drop_bit i bits AND 1 = 1) in
      merkle_climb E bits (Suc i) rest
        (if is_right then double_sha256_pair E sibling current
         else double_sha256_pair E current sibling))"

text \<open>The block is stored, canonical at its height, and finalised; returns its Merkle root,
  its height and the chain instance.\<close>

definition verify_block :: "env \<Rightarrow> store \<Rightarrow> account_info list \<Rightarrow> hash32 \<Rightarrow> (hash32 \<times> u64 \<times> u32) result" where
  "verify_block E s accounts block_hash =
     bindE (block_header_from_bytes (adata (s (key (accounts ! 2))))) (\<lambda>header.
     if bh_block_hash header \<noteq> block_hash then Inl InvalidArgument
     else let block_height = bh_height header in
     if key (accounts ! 3) \<noteq> fst (find_program_address E [HEIGHT_INDEX_SEED, bytes8 block_height])
       then Inl InvalidSeeds
     else bindE (height_index_from_bytes (adata (s (key (accounts ! 3))))) (\<lambda>hi.
     if hi_height hi \<noteq> block_height \<or> hi_block_hash hi \<noteq> block_hash then Inl InvalidArgument
     else bindE (light_client_from_bytes (adata (s (key (accounts ! 1))))) (\<lambda>lc.
     if block_height > lc_finalized_height lc then Inl InvalidArgument
     else Inr (bh_merkle_root header, block_height, lc_reinit_epoch lc))))"

text \<open>The raw transaction in the buffer hashes to the txid, and the proof leads to the root.\<close>

definition verify_inclusion ::
    "env \<Rightarrow> bytes \<Rightarrow> hash32 \<Rightarrow> u32 \<Rightarrow> merkle_proof \<Rightarrow> hash32 \<Rightarrow> unit result" where
  "verify_inclusion E buffer txid tx_size p block_merkle_root =
     (if length buffer < 32 + unat tx_size then Inl InvalidAccountData
      else if tx_size = 64 then Inl InvalidArgument
      else if double_sha256 E (bslice 32 (unat tx_size) buffer) \<noteq> txid then Inl InvalidArgument
      else if proof_txid p \<noteq> txid then Inl InvalidArgument
      else if merkle_climb E (path_bits p) 0 (siblings p) txid \<noteq> block_merkle_root
        then Inl InvalidArgument
      else Inr ())"

text \<open>The VerifiedTransaction account is created unless it already exists.\<close>

definition verify_record ::
    "env \<Rightarrow> account_info list \<Rightarrow> hash32 \<Rightarrow> hash32 \<Rightarrow> u32 \<Rightarrow> u64 \<Rightarrow> u32 \<Rightarrow> store \<Rightarrow> store result" where
  "verify_record E accounts block_hash txid txi block_height reinit s =
     (let k = key (accounts ! 0);
          pda = find_program_address E [VERIFIED_TX_SEED, bytes32 block_hash, bytes32 txid]
      in if k \<noteq> fst pda then Inl InvalidSeeds
      else if adata (s k) \<noteq> [] \<and> owner (s k) \<noteq> program_id E then Inl IllegalOwner
      else if adata (s k) \<noteq> [] \<and> adata (s k) ! 0 = VERIFIED_TX_DISCRIMINATOR then Inr s
      else bindE (create_or_claim_pda E (key (accounts ! 5)) k (rt_minimum_balance E VT_LEN)
                    (of_nat VT_LEN) s) (\<lambda>s1.
        write_front k (encode_verified_tx
          \<lparr>vt_discriminator = VERIFIED_TX_DISCRIMINATOR, vt_bump = snd pda, vt_padding = 0,
           vt_block_height = ucast block_height, vt_block_hash = block_hash, vt_txid = txid,
           vt_verified_at = clock_unix_timestamp E, vt_tx_index = txi,
           vt_reinit_epoch = reinit, vt_reserved2 = 0\<rparr>) s1))"

definition process_verify_transaction :: "env \<Rightarrow> account_info list \<Rightarrow> bytes \<Rightarrow> store \<Rightarrow> store result" where
  "process_verify_transaction E accounts d s =
     (if length d < 68 then Inl InvalidInstructionData
      else if length accounts < 7 then Inl NotEnoughAccountKeys
      else if \<not> is_signer (accounts ! 5) then Inl MissingRequiredSignature
      else if owner (s (key (accounts ! 1))) \<noteq> program_id E then Inl IllegalOwner
      else if owner (s (key (accounts ! 2))) \<noteq> program_id E then Inl IllegalOwner
      else if owner (s (key (accounts ! 3))) \<noteq> program_id E then Inl IllegalOwner
      else let txid = from_le (bslice 0 32 d); block_hash = from_le (bslice 32 32 d);
               tx_size = from_le (bslice 64 4 d) in
      if key (accounts ! 2) \<noteq> fst (find_program_address E [BLOCK_HEADER_SEED, bytes32 block_hash])
        then Inl InvalidSeeds
      else bindE (parse_merkle_proof (drop 68 d)) (\<lambda>p.
           bindE (verify_block E s accounts block_hash) (\<lambda>(root, block_height, reinit).
           bindE (verify_inclusion E (adata (s (key (accounts ! 4)))) txid tx_size p root) (\<lambda>_.
           verify_record E accounts block_hash txid (tx_index p) block_height reinit s))))"

section \<open>prune\_obsolete\_blocks\<close>

text \<open>The checks: the header is stored, another block is canonical at its height, and the
  height is finalised. Returns the height.\<close>

definition prune_checks :: "env \<Rightarrow> account_info list \<Rightarrow> bytes \<Rightarrow> store \<Rightarrow> u64 result" where
  "prune_checks E accounts d s =
     (let lc_k = key (accounts ! 0); bh_k = key (accounts ! 1); hi_k = key (accounts ! 2);
          block_hash = from_le (bslice 0 32 d)
      in if owner (s lc_k) \<noteq> program_id E then Inl IllegalOwner
      else if owner (s bh_k) \<noteq> program_id E then Inl IllegalOwner
      else if owner (s hi_k) \<noteq> program_id E then Inl IllegalOwner
      else if bh_k \<noteq> fst (find_program_address E [BLOCK_HEADER_SEED, bytes32 block_hash])
        then Inl InvalidSeeds
      else bindE (block_header_from_bytes (adata (s bh_k))) (\<lambda>header.
      if bh_block_hash header \<noteq> block_hash then Inl InvalidArgument
      else if hi_k \<noteq> fst (find_program_address E [HEIGHT_INDEX_SEED, bytes8 (bh_height header)])
        then Inl InvalidSeeds
      else bindE (height_index_from_bytes (adata (s hi_k))) (\<lambda>hi.
      if hi_block_hash hi = block_hash then Inl InvalidArgument
      else bindE (light_client_from_bytes (adata (s lc_k))) (\<lambda>lc.
      if bh_height header > lc_finalized_height lc then Inl InvalidArgument
      else Inr (bh_height header)))))"

text \<open>Closing: data zeroed, lamports moved, the account returned to the system program.\<close>

definition close_header :: "pubkey \<Rightarrow> pubkey \<Rightarrow> store \<Rightarrow> store result" where
  "close_header bh_k receiver s =
     (let s1 = set_data bh_k (replicate (length (adata (s bh_k))) 0) s;
          amount = lamports (s1 bh_k);
          s2 = s1(bh_k := (s1 bh_k)\<lparr>lamports := 0\<rparr>)
      in bindE (ok_or (checked_add (lamports (s2 receiver)) amount) ArithmeticOverflow) (\<lambda>total.
         let s3 = s2(receiver := (s2 receiver)\<lparr>lamports := total\<rparr>)
         in Inr (s3(bh_k := (s3 bh_k)\<lparr>owner := 0\<rparr>))))"

definition process_prune_obsolete_blocks :: "env \<Rightarrow> account_info list \<Rightarrow> bytes \<Rightarrow> store \<Rightarrow> store result" where
  "process_prune_obsolete_blocks E accounts d s =
     (if length d < 32 then Inl InvalidInstructionData
      else if length accounts < 4 then Inl NotEnoughAccountKeys
      else bindE (prune_checks E accounts d s) (\<lambda>_.
        if key (accounts ! 3) = key (accounts ! 1) then Inl InvalidArgument
        else close_header (key (accounts ! 1)) (key (accounts ! 3)) s))"

section \<open>Merkle trees\<close>

definition pair_hash :: "env \<Rightarrow> hash32 \<times> hash32 \<Rightarrow> hash32" where
  "pair_hash E x = double_sha256_pair E (fst x) (snd x)"

datatype mtree = MLeaf hash32 | MNode mtree mtree

primrec mroot :: "env \<Rightarrow> mtree \<Rightarrow> hash32" where
  "mroot E (MLeaf h) = h"
| "mroot E (MNode l r) = double_sha256_pair E (mroot E l) (mroot E r)"

text \<open>
  A path from the root lists the turns (\<open>True\<close> for the right child). \<open>mpath\<close> gives
  the leaf it ends in with the sibling hashes, leaf to root.
\<close>

fun mpath :: "env \<Rightarrow> mtree \<Rightarrow> bool list \<Rightarrow> (hash32 \<times> hash32 list) option" where
  "mpath E (MLeaf h) [] = Some (h, [])"
| "mpath E (MNode l r) (b # bs) =
     (case mpath E (if b then r else l) bs of None \<Rightarrow> None
      | Some (h, sibs) \<Rightarrow> Some (h, sibs @ [mroot E (if b then l else r)]))"
| "mpath E _ _ = None"

text \<open>The pairs hashed inside a tree, and the pairs hashed by a climb.\<close>

primrec mpairs :: "env \<Rightarrow> mtree \<Rightarrow> (hash32 \<times> hash32) set" where
  "mpairs E (MLeaf h) = {}"
| "mpairs E (MNode l r) = insert (mroot E l, mroot E r) (mpairs E l \<union> mpairs E r)"

definition climb_pair :: "u32 \<Rightarrow> nat \<Rightarrow> hash32 \<Rightarrow> hash32 \<Rightarrow> hash32 \<times> hash32" where
  "climb_pair bits i sib cur = (if bit bits i then (sib, cur) else (cur, sib))"

fun climb_pairs :: "env \<Rightarrow> u32 \<Rightarrow> nat \<Rightarrow> hash32 list \<Rightarrow> hash32 \<Rightarrow> (hash32 \<times> hash32) set" where
  "climb_pairs E bits i [] cur = {}"
| "climb_pairs E bits i (sib # rest) cur =
     insert (climb_pair bits i sib cur)
       (climb_pairs E bits (Suc i) rest (pair_hash E (climb_pair bits i sib cur)))"

lemma and_1_bit: "(drop_bit i bits AND 1 = (1 :: u32)) \<longleftrightarrow> bit bits i"
  by (simp add: and_one_eq mod_2_eq_odd bit_iff_odd_drop_bit)

lemma merkle_climb_Cons:
  "merkle_climb E bits i (sib # rest) cur =
     merkle_climb E bits (Suc i) rest (pair_hash E (climb_pair bits i sib cur))"
  by (simp add: and_1_bit climb_pair_def pair_hash_def)

lemma merkle_climb_append:
  "merkle_climb E bits i (xs @ ys) cur =
     merkle_climb E bits (i + length xs) ys (merkle_climb E bits i xs cur)"
  by (induction xs arbitrary: i cur) (simp_all del: merkle_climb.simps(2) add: merkle_climb_Cons)

lemma climb_pairs_append:
  "climb_pairs E bits i (xs @ ys) cur =
     climb_pairs E bits i xs cur \<union> climb_pairs E bits (i + length xs) ys (merkle_climb E bits i xs cur)"
  by (induction xs arbitrary: i cur) (simp_all del: merkle_climb.simps(2) add: merkle_climb_Cons)

lemma length_mpath: "mpath E t p = Some (h, sibs) \<Longrightarrow> length sibs = length p"
  by (induction E t p arbitrary: h sibs rule: mpath.induct) (auto split: option.splits)

text \<open>
  Completeness of the inclusion check: for every Merkle tree over the pair hash and
  every leaf of it, the sibling hashes along the leaf's path and the path's turns as
  \<open>path_bits\<close> make the handler's climb end in the root.
\<close>

theorem merkle_climb_complete:
  assumes "mpath E t p = Some (h, sibs)" and "\<forall>i < length p. bit bits i = rev p ! i"
  shows "merkle_climb E bits 0 sibs h = mroot E t"
  using assms
proof (induction E t p arbitrary: h sibs rule: mpath.induct)
  case (2 E l r b bs)
  let ?c = "if b then r else l" and ?o = "if b then l else r"
  from "2.prems"(1) obtain sibs' where sub: "mpath E ?c bs = Some (h, sibs')"
    and sibs: "sibs = sibs' @ [mroot E ?o]"
    by (auto split: option.splits)
  have "\<forall>i < length bs. bit bits i = rev bs ! i"
    using "2.prems"(2) by (auto simp: nth_append dest: spec [of _ i for i])
  then have IH: "merkle_climb E bits 0 sibs' h = mroot E ?c" using sub by (intro "2.IH") simp_all
  have "bit bits (length sibs') = b"
    using "2.prems"(2) length_mpath [OF sub] by (auto simp: nth_append dest: spec [of _ "length bs"])
  then show ?case
    unfolding sibs merkle_climb_append merkle_climb_Cons by (auto simp: IH climb_pair_def pair_hash_def)
qed simp_all

theorem merkle_climb_complete_witness:
  "merkle_climb demo_env 1 0 [7] 9 = mroot demo_env (MNode (MLeaf 7) (MLeaf 9))"
  by (rule merkle_climb_complete [where p = "[True]"]) simp_all

text \<open>
  C8. Soundness of the inclusion check up to hash collisions: if the climb from some value
  along a path of the tree ends in the root, that value is the leaf at the path, or one of
  the pairs hashed by the climb collides with a different pair hashed inside the tree.
\<close>

theorem merkle_climb_sound:
  assumes "mpath E t p = Some (h, sibs)" and "\<forall>i < length p. bit bits i = rev p ! i"
    and "length xs = length p" and "merkle_climb E bits 0 xs leaf = mroot E t"
  shows "leaf = h \<or>
    (\<exists>x \<in> mpairs E t. \<exists>y \<in> climb_pairs E bits 0 xs leaf. x \<noteq> y \<and> pair_hash E x = pair_hash E y)"
  using assms
proof (induction E t p arbitrary: h sibs xs rule: mpath.induct)
  case (2 E l r b bs)
  let ?c = "if b then r else l"
  from "2.prems"(1) obtain sibs' where sub: "mpath E ?c bs = Some (h, sibs')"
    by (auto split: option.splits)
  from "2.prems"(3) obtain ys z where xs: "xs = ys @ [z]" and ys: "length ys = length bs"
    by (cases xs rule: rev_cases) auto
  have low: "\<forall>i < length bs. bit bits i = rev bs ! i"
    using "2.prems"(2) by (auto simp: nth_append dest: spec [of _ i for i])
  have b: "bit bits (length ys) = b"
    using "2.prems"(2) ys by (auto simp: nth_append dest: spec [of _ "length bs"])
  let ?y = "merkle_climb E bits 0 ys leaf"
  let ?last = "if b then (z, ?y) else (?y, z)"
  have last: "?last \<in> climb_pairs E bits 0 xs leaf"
    unfolding xs climb_pairs_append using b by (simp add: climb_pair_def)
  have top: "pair_hash E (mroot E l, mroot E r) = pair_hash E ?last"
    using "2.prems"(4) b unfolding xs merkle_climb_append merkle_climb_Cons
    by (simp add: climb_pair_def pair_hash_def split: if_splits)
  have sub_pairs: "mpairs E ?c \<subseteq> mpairs E (MNode l r)"
    "climb_pairs E bits 0 ys leaf \<subseteq> climb_pairs E bits 0 xs leaf"
    unfolding xs climb_pairs_append by auto
  show ?case
  proof (cases "?last = (mroot E l, mroot E r)")
    case True
    then have "?y = mroot E ?c" by (auto split: if_splits)
    with sub low ys have "leaf = h \<or> (\<exists>x \<in> mpairs E ?c. \<exists>y \<in> climb_pairs E bits 0 ys leaf.
        x \<noteq> y \<and> pair_hash E x = pair_hash E y)"
      by (intro "2.IH") simp_all
    with sub_pairs show ?thesis by blast
  next
    case False
    have "(mroot E l, mroot E r) \<in> mpairs E (MNode l r)" by simp
    with False [symmetric] last top show ?thesis by blast
  qed
qed simp_all

theorem merkle_climb_sound_witness:
  "\<exists>x \<in> mpairs demo_env (MNode (MLeaf 7) (MLeaf 9)). \<exists>y \<in> climb_pairs demo_env 1 0 [7] 8.
     x \<noteq> y \<and> pair_hash demo_env x = pair_hash demo_env y"
proof -
  have "double_sha256_pair demo_env 7 8 = double_sha256_pair demo_env 7 9"
    by (simp add: double_sha256_pair_def demo_double_sha256)
  then have "merkle_climb demo_env 1 0 [7] 8 = mroot demo_env (MNode (MLeaf 7) (MLeaf 9))" by simp
  from merkle_climb_sound [where p = "[True]" and h = 9 and sibs = "[7]", OF _ _ _ this]
  show ?thesis by simp
qed

lemma unat_64_u32: "unat (64 :: u32) = 64"
  by simp

section \<open>What a verified transaction attests\<close>

lemma length_encode_verified_tx [simp]: "length (encode_verified_tx x) = VT_LEN"
  by (rule vtl.length_encode)

lemma verify_record_ok:
  assumes "system_program_spec E" and "verify_record E accounts bh txid txi h reinit s = Inr s'"
  defines "k \<equiv> key (accounts ! 0)"
  shows "k = fst (find_program_address E [VERIFIED_TX_SEED, bytes32 bh, bytes32 txid])"
    and "frame {k} s s'"
    and "adata (s k) = [] \<or> adata (s k) ! 0 \<noteq> VERIFIED_TX_DISCRIMINATOR \<Longrightarrow>
      owner (s' k) = program_id E \<and> (\<exists>vt. verified_tx_from_bytes (adata (s' k)) = Inr vt \<and>
        vt_block_hash vt = bh \<and> vt_txid vt = txid \<and> vt_tx_index vt = txi \<and>
        vt_block_height vt = ucast h \<and> vt_reinit_epoch vt = reinit)"
proof -
  from assms(2) show "k = fst (find_program_address E [VERIFIED_TX_SEED, bytes32 bh, bytes32 txid])"
    by (simp add: verify_record_def Let_def k_def split: if_splits)
  let ?vt = "\<lparr>vt_discriminator = VERIFIED_TX_DISCRIMINATOR,
           vt_bump = snd (find_program_address E [VERIFIED_TX_SEED, bytes32 bh, bytes32 txid]),
           vt_padding = 0, vt_block_height = ucast h, vt_block_hash = bh, vt_txid = txid,
           vt_verified_at = clock_unix_timestamp E, vt_tx_index = txi,
           vt_reinit_epoch = reinit, vt_reserved2 = 0\<rparr>"
  have run: "s' = s \<and> adata (s k) \<noteq> [] \<and> adata (s k) ! 0 = VERIFIED_TX_DISCRIMINATOR \<or>
    (\<exists>s1. create_or_claim_pda E (key (accounts ! 5)) k (rt_minimum_balance E VT_LEN) (of_nat VT_LEN) s = Inr s1
      \<and> write_front k (encode_verified_tx ?vt) s1 = Inr s')"
    using assms(2) unfolding verify_record_def Let_def k_def
    by (simp add: bindE_eq_Inr split: if_splits)
  show "frame {k} s s'"
    using run claim_then_write(1) [OF assms(1)] by auto
  show "owner (s' k) = program_id E \<and> (\<exists>vt. verified_tx_from_bytes (adata (s' k)) = Inr vt \<and>
        vt_block_hash vt = bh \<and> vt_txid vt = txid \<and> vt_tx_index vt = txi \<and>
        vt_block_height vt = ucast h \<and> vt_reinit_epoch vt = reinit)"
    if fresh: "adata (s k) = [] \<or> adata (s k) ! 0 \<noteq> VERIFIED_TX_DISCRIMINATOR"
  proof -
    from run fresh obtain s1 where
      c: "create_or_claim_pda E (key (accounts ! 5)) k (rt_minimum_balance E VT_LEN) (of_nat VT_LEN) s = Inr s1"
      and w: "write_front k (encode_verified_tx ?vt) s1 = Inr s'" by blast
    have "verified_tx_from_bytes (adata (s' k)) = Inr ?vt"
      unfolding verified_tx_from_bytes_def by (rule vtl.from_bytes_after_write [OF w]) simp
    then show ?thesis using claim_then_write(2) [OF assms(1) c w] by simp
  qed
qed

text \<open>Inversion of a successful run: the accounts it read and the record it wrote.\<close>

lemma verify_run:
  assumes "process_verify_transaction E accounts d s = Inr s'"
  defines "txid \<equiv> from_le (bslice 0 32 d)" and "bh \<equiv> from_le (bslice 32 32 d)"
  shows "\<exists>p header hi lc.
      key (accounts ! 2) = fst (find_program_address E [BLOCK_HEADER_SEED, bytes32 bh]) \<and>
      owner (s (key (accounts ! 1))) = program_id E \<and>
      owner (s (key (accounts ! 2))) = program_id E \<and> owner (s (key (accounts ! 3))) = program_id E \<and>
      parse_merkle_proof (drop 68 d) = Inr p \<and>
      block_header_from_bytes (adata (s (key (accounts ! 2)))) = Inr header \<and>
      key (accounts ! 3) = fst (find_program_address E [HEIGHT_INDEX_SEED, bytes8 (bh_height header)]) \<and>
      height_index_from_bytes (adata (s (key (accounts ! 3)))) = Inr hi \<and>
      light_client_from_bytes (adata (s (key (accounts ! 1)))) = Inr lc \<and>
      bh_block_hash header = bh \<and> hi_height hi = bh_height header \<and> hi_block_hash hi = bh \<and>
      bh_height header \<le> lc_finalized_height lc \<and>
      verify_inclusion E (adata (s (key (accounts ! 4)))) txid (from_le (bslice 64 4 d)) p (bh_merkle_root header) = Inr () \<and>
      verify_record E accounts bh txid (tx_index p) (bh_height header) (lc_reinit_epoch lc) s = Inr s'"
proof -
  from assms(1) obtain p root height reinit where
      bk: "key (accounts ! 2) = fst (find_program_address E [BLOCK_HEADER_SEED, bytes32 bh])"
    and own: "owner (s (key (accounts ! 1))) = program_id E"
      "owner (s (key (accounts ! 2))) = program_id E" "owner (s (key (accounts ! 3))) = program_id E"
    and p: "parse_merkle_proof (drop 68 d) = Inr p"
    and blk: "verify_block E s accounts bh = Inr (root, height, reinit)"
    and inc: "verify_inclusion E (adata (s (key (accounts ! 4)))) txid (from_le (bslice 64 4 d)) p root = Inr ()"
    and rec: "verify_record E accounts bh txid (tx_index p) height reinit s = Inr s'"
    unfolding process_verify_transaction_def Let_def txid_def bh_def
    by (simp only: res_simps) (auto simp: res_simps)
  from blk show ?thesis
    unfolding verify_block_def Let_def using bk own p inc rec by (auto simp: res_simps)
qed


definition demo_verify_data :: bytes where
  "demo_verify_data = bytes32 9 @ bytes32 3 @ bytes4 4 @ bytes32 9 @ bytes4 0 @ byte1 0 @ bytes4 0"

definition demo_verify_accounts :: "account_info list" where
  "demo_verify_accounts = map demo_meta
     [demo_verified_key 3 9, 16, demo_block_key 3, demo_height_key 1, 50, 51, 0]"

lemma demo_verify_parse:
  "from_le (bslice 0 32 demo_verify_data) = (9 :: hash32)"
  "from_le (bslice 32 32 demo_verify_data) = (3 :: hash32)"
  "from_le (bslice 64 4 demo_verify_data) = (4 :: u32)"
  "length demo_verify_data = 109"
  "drop 68 demo_verify_data = bytes32 9 @ bytes4 0 @ byte1 0 @ bytes4 0"
  by (simp_all add: demo_verify_data_def slice_simps)

lemma demo_verify_runs:
  "\<exists>s'. process_verify_transaction demo_env demo_verify_accounts demo_verify_data (demo_store 3 [9, 0, 0, 0]) = Inr s'"
proof -
  have at36: "(bytes32 9 @ bytes4 0 @ byte1 0 @ bytes4 0) ! 36 = 0"
    by (simp add: nth_append byte1_def)
  have "parse_merkle_proof (drop 68 demo_verify_data) =
      Inr \<lparr>proof_txid = 9, path_bits = 0, path_len = 0, tx_index = 0, siblings = []\<rparr>"
    unfolding demo_verify_parse parse_merkle_proof_def at36 by (simp add: slice_simps Let_def)
  moreover have "verify_block demo_env (demo_store 3 [9, 0, 0, 0]) demo_verify_accounts 3 = Inr (9, 1, 0)"
    by (simp add: verify_block_def demo_verify_accounts_def demo_key_values demo_store_lookup
        demo_header_def demo_hi_def demo_lc_def demo_keys Let_def)
  moreover have "double_sha256 demo_env [9, 0, 0, 0] = 9"
    by (simp add: demo_double_sha256)
  moreover have "\<exists>s'. verify_record demo_env demo_verify_accounts 3 9 0 1 0 (demo_store 3 [9, 0, 0, 0]) = Inr s'"
    by (simp add: verify_record_def demo_verify_accounts_def demo_key_values demo_store_lookup
        demo_keys Let_def empty_account_def create_or_claim_pda_def demo_create_account_def
        write_front_def put_front_def VT_LEN_def)
  ultimately show ?thesis
    unfolding process_verify_transaction_def demo_verify_parse
    by (simp add: demo_verify_accounts_def demo_key_values demo_store_lookup demo_keys Let_def
        verify_inclusion_def slice_simps)
qed


section \<open>Pruning\<close>

text \<open>
  Only orphans are pruned, and rent is conserved. A successful prune closes a stored
  header whose height is finalised and at whose height another block is canonical; the
  account ends empty of lamports, zeroed and owned by the system program, the receiver is
  credited exactly its lamports, and no other account changes.
\<close>

theorem prune_only_orphans:
  assumes "process_prune_obsolete_blocks E accounts d s = Inr s'"
  defines "bh \<equiv> from_le (bslice 0 32 d)" and "bk \<equiv> key (accounts ! 1)" and "rk \<equiv> key (accounts ! 3)"
  shows "(\<exists>header hi lc. block_header_from_bytes (adata (s bk)) = Inr header \<and> bh_block_hash header = bh \<and>
      height_index_from_bytes (adata (s (fst (find_program_address E [HEIGHT_INDEX_SEED, bytes8 (bh_height header)])))) = Inr hi \<and>
      hi_block_hash hi \<noteq> bh \<and>
      light_client_from_bytes (adata (s (key (accounts ! 0)))) = Inr lc \<and> bh_height header \<le> lc_finalized_height lc)
    \<and> s' bk = \<lparr>lamports = 0, owner = 0, adata = replicate (length (adata (s bk))) 0\<rparr>
    \<and> unat (lamports (s' rk)) = unat (lamports (s rk)) + unat (lamports (s bk))
    \<and> adata (s' rk) = adata (s rk) \<and> owner (s' rk) = owner (s rk)
    \<and> (\<forall>k. k \<noteq> bk \<longrightarrow> k \<noteq> rk \<longrightarrow> s' k = s k)"
proof (intro conjI)
  from assms(1) obtain h where ch: "prune_checks E accounts d s = Inr h" and ne: "rk \<noteq> bk"
    and cl: "close_header bk rk s = Inr s'"
    by (auto simp: process_prune_obsolete_blocks_def res_simps bk_def rk_def)
  from ch show "\<exists>header hi lc. block_header_from_bytes (adata (s bk)) = Inr header \<and> bh_block_hash header = bh \<and>
      height_index_from_bytes (adata (s (fst (find_program_address E [HEIGHT_INDEX_SEED, bytes8 (bh_height header)])))) = Inr hi \<and>
      hi_block_hash hi \<noteq> bh \<and>
      light_client_from_bytes (adata (s (key (accounts ! 0)))) = Inr lc \<and> bh_height header \<le> lc_finalized_height lc"
    unfolding prune_checks_def Let_def bk_def bh_def by (auto simp: res_simps)
  from cl ne obtain total where t: "checked_add (lamports (s rk)) (lamports (s bk)) = Some total"
    and s': "s' = (s(bk := \<lparr>lamports = 0, owner = 0, adata = replicate (length (adata (s bk))) 0\<rparr>))
               (rk := (s rk)\<lparr>lamports := total\<rparr>)"
    by (auto simp: close_header_def Let_def res_simps set_data_def fun_upd_twist)
  show "s' bk = \<lparr>lamports = 0, owner = 0, adata = replicate (length (adata (s bk))) 0\<rparr>"
    "adata (s' rk) = adata (s rk)" "owner (s' rk) = owner (s rk)"
    "\<forall>k. k \<noteq> bk \<longrightarrow> k \<noteq> rk \<longrightarrow> s' k = s k"
    using ne by (simp_all add: s')
  show "unat (lamports (s' rk)) = unat (lamports (s rk)) + unat (lamports (s bk))"
    using unat_checked_add [OF t] by (simp add: s')
qed

theorem prune_only_orphans_witness:
  "\<exists>s'. process_prune_obsolete_blocks demo_env (map demo_meta [16, demo_block_key 3, demo_height_key 1, 51])
       (bytes32 3) (demo_store 4 []) = Inr s' \<and> unat (lamports (s' 51)) = 1001"
proof -
  have "bslice 0 32 (bytes32 3) = bytes32 3" by (simp add: slice_simps)
  then have "\<exists>s'. process_prune_obsolete_blocks demo_env (map demo_meta [16, demo_block_key 3, demo_height_key 1, 51])
       (bytes32 3) (demo_store 4 []) = Inr s'"
    by (simp add: process_prune_obsolete_blocks_def prune_checks_def Let_def demo_key_values
        demo_store_lookup demo_keys demo_header_def demo_hi_def demo_lc_def close_header_def
        checked_add_def set_data_def)
  then obtain s' where run: "process_prune_obsolete_blocks demo_env
      (map demo_meta [16, demo_block_key 3, demo_height_key 1, 51]) (bytes32 3) (demo_store 4 []) = Inr s'"
    by blast
  show ?thesis
    using prune_only_orphans [OF run] run by (auto simp: demo_key_values demo_store_lookup)
qed

end
