(* ===== verification/LC_Extend.thy ===== *)
theory LC_Extend
  imports LC_Verify
begin

text \<open>
  Header submission: \<open>instructions/extend_blockchain.rs\<close> of the light client. The
  handler is split where the code is: argument checks, the parent and its canonicality, the
  median-time-past window, one step per header, and the promotion of the batch to the
  canonical chain. The variables the loop carries are the record \<open>extend_run\<close>.
\<close>

section \<open>Median time past\<close>

definition swap :: "nat \<Rightarrow> nat \<Rightarrow> 'a list \<Rightarrow> 'a list" where
  "swap i j xs = xs[i := xs ! j, j := xs ! i]"

text \<open>The inner loop looks for the least element from \<open>j\<close> on.\<close>

function sel_min :: "u32 list \<Rightarrow> nat \<Rightarrow> nat \<Rightarrow> nat" where
  "sel_min s j m = (if j < length s then sel_min s (Suc j) (if s ! j < s ! m then j else m) else m)"
  by pat_completeness auto
termination
  by (relation "measure (\<lambda>(s, j, m). length s - j)") auto

function sel_sort :: "u32 list \<Rightarrow> nat \<Rightarrow> u32 list" where
  "sel_sort s i = (if i < length s then sel_sort (swap i (sel_min s (Suc i) i) s) (Suc i) else s)"
  by pat_completeness auto
termination
  by (relation "measure (\<lambda>(s, i). length s - i)") (auto simp: swap_def)

declare sel_min.simps [simp del] sel_sort.simps [simp del]

definition median_timestamp :: "u32 list \<Rightarrow> u32 result" where
  "median_timestamp window =
     (let n = length window in
      if n > 11 then Inl Panic
      else Inr ((sel_sort window 0 @ replicate (11 - n) 0) ! (n div 2)))"

section \<open>State of the handler\<close>

record extend_run =
  er_prev_hash :: hash32
  er_chainwork :: hash32
  er_height :: u64
  er_expected_bits :: u32
  er_epoch_start :: u32
  er_parent_timestamp :: u32
  er_window :: "u32 list"

definition retargets :: "u8 \<Rightarrow> bool" where
  "retargets network \<longleftrightarrow> network = NETWORK_MAINNET \<or> network = NETWORK_TESTNET4"

section \<open>Arguments, parent, ancestors\<close>

text \<open>Number of headers and of median-time-past ancestors.\<close>

definition extend_args :: "account_info list \<Rightarrow> bytes \<Rightarrow> (nat \<times> nat) result" where
  "extend_args accounts d =
     (if d = [] then Inl InvalidInstructionData
      else if d ! 0 = 0 \<or> d ! 0 > MAX_BATCH_SIZE then Inl InvalidInstructionData
      else let n = unat (d ! 0) in
      if length d < 1 + n * 80 then Inl InvalidInstructionData
      else let num_ancestors = (if length d > 1 + n * 80 then unat (d ! (1 + n * 80)) else 0) in
      if num_ancestors > 10 then Inl InvalidInstructionData
      else if length accounts < 4 + 2 * n + num_ancestors + 1 then Inl NotEnoughAccountKeys
      else Inr (n, num_ancestors))"

definition read_parent :: "env \<Rightarrow> store \<Rightarrow> account_info \<Rightarrow> block_header result" where
  "read_parent E s info =
     (if owner (s (key info)) \<noteq> program_id E then Inl IllegalOwner
      else block_header_from_bytes (adata (s (key info))))"

text \<open>The parent belongs to the current chain instance.\<close>

definition check_parent_epoch :: "light_client \<Rightarrow> block_header \<Rightarrow> unit result" where
  "check_parent_epoch lc parent =
     (let legacy_regtest_parent = (lc_network lc = NETWORK_REGTEST \<and> bh_reinit_epoch parent = 0)
      in if bh_reinit_epoch parent \<noteq> lc_reinit_epoch lc \<and> \<not> legacy_regtest_parent
         then Inl InvalidAccountData else Inr ())"

text \<open>The parent is the block the HeightIndex names at its height.\<close>

definition check_parent_canonical :: "env \<Rightarrow> store \<Rightarrow> account_info \<Rightarrow> block_header \<Rightarrow> unit result" where
  "check_parent_canonical E s info parent =
     (if owner (s (key info)) \<noteq> program_id E then Inl IllegalOwner
      else if key info \<noteq> fst (find_program_address E [HEIGHT_INDEX_SEED, bytes8 (bh_height parent)])
        then Inl InvalidSeeds
      else bindE (height_index_from_bytes (adata (s (key info)))) (\<lambda>hi.
        if hi_block_hash hi \<noteq> bh_block_hash parent then Inl InvalidAccountData else Inr ()))"

text \<open>The ancestors, most recent first: their timestamps and the last hash reached.\<close>

fun walk_ancestors :: "env \<Rightarrow> store \<Rightarrow> account_info list \<Rightarrow> hash32 \<Rightarrow> hash32 \<Rightarrow> (u32 list \<times> hash32) result" where
  "walk_ancestors E s [] expect_hash last_hash = Inr ([], last_hash)"
| "walk_ancestors E s (info # rest) expect_hash last_hash =
     (if owner (s (key info)) \<noteq> program_id E then Inl IllegalOwner
      else bindE (block_header_from_bytes (adata (s (key info)))) (\<lambda>hdr.
        if bh_block_hash hdr \<noteq> expect_hash then Inl InvalidArgument
        else if key info \<noteq> fst (find_program_address E [BLOCK_HEADER_SEED, bytes32 (bh_block_hash hdr)])
          then Inl InvalidSeeds
        else bindE (walk_ancestors E s rest (bh_prev_block_hash hdr) (bh_block_hash hdr)) (\<lambda>(ts, last).
          Inr (bh_timestamp hdr # ts, last))))"

definition mtp_window :: "env \<Rightarrow> store \<Rightarrow> light_client \<Rightarrow> block_header \<Rightarrow> account_info list \<Rightarrow> u32 list result" where
  "mtp_window E s lc parent ancestors =
     (if \<not> retargets (lc_network lc) then Inr []
      else bindE (walk_ancestors E s ancestors (bh_prev_block_hash parent) (bh_block_hash parent)) (\<lambda>(ts, last).
        if length ancestors < 10 \<and> last \<noteq> lc_genesis_hash lc then Inl InvalidArgument
        else Inr (rev ts @ [bh_timestamp parent])))"

section \<open>One header\<close>

text \<open>The future bound on the timestamp; the \<open>i64\<close> addition is overflow-checked.\<close>

definition check_future :: "env \<Rightarrow> u32 \<Rightarrow> unit result" where
  "check_future E timestamp =
     (if sint (clock_unix_timestamp E) + 2 * 60 * 60 \<ge> 2 ^ 63 then Inl Panic
      else if int (unat timestamp) > sint (clock_unix_timestamp E) + 2 * 60 * 60 then Inl InvalidArgument
      else Inr ())"

text \<open>The median rule; returns the window slid forward.\<close>

definition check_mtp :: "u8 \<Rightarrow> u32 list \<Rightarrow> u32 \<Rightarrow> u32 list result" where
  "check_mtp network window timestamp =
     (if \<not> retargets network then Inr window
      else bindE (median_timestamp window) (\<lambda>median.
        if timestamp \<le> median then Inl InvalidArgument
        else if length window < 11 then Inr (window @ [timestamp])
        else Inr (tl window @ [timestamp])))"

definition check_difficulty :: "u8 \<Rightarrow> u64 \<Rightarrow> u32 \<Rightarrow> u32 \<Rightarrow> extend_run \<Rightarrow> unit result" where
  "check_difficulty network block_height timestamp bits run =
     (if \<not> retargets network then Inr ()
      else if er_expected_bits run = 0 then Inl InvalidArgument
      else bindE (required_bits_for_next_block (network = NETWORK_TESTNET4) block_height timestamp
                    (er_parent_timestamp run) (er_expected_bits run) (er_epoch_start run)) (\<lambda>required.
        if bits \<noteq> required then Inl InvalidArgument else Inr ()))"

text \<open>The checks on one raw header, and the loop variables after it; no account is touched.\<close>

definition header_checks :: "env \<Rightarrow> u8 \<Rightarrow> bytes \<Rightarrow> extend_run \<Rightarrow> extend_run result" where
  "header_checks E network raw run =
     (let header_prev_hash = from_le (bslice 4 32 raw);
          timestamp = from_le (bslice 68 4 raw);
          bits = from_le (bslice 72 4 raw)
      in bindE (check_future E timestamp) (\<lambda>_.
         if header_prev_hash \<noteq> er_prev_hash run then Inl InvalidArgument
         else bindE (check_mtp network (er_window run) timestamp) (\<lambda>window.
         let block_hash = double_sha256 E raw in
         bindE (ok_or (checked_add (er_height run) 1) ArithmeticOverflow) (\<lambda>block_height.
         if \<not> hash_meets_target (bytes32 block_hash) (target_from_bits bits) then Inl InvalidArgument
         else bindE (check_difficulty network block_height timestamp bits run) (\<lambda>_.
         let new_chainwork = add_chainwork (bytes32 (er_chainwork run)) (calculate_chainwork bits);
             boundary = (retargets network \<and> block_height mod BLOCKS_PER_EPOCH = 0)
         in Inr \<lparr>er_prev_hash = block_hash, er_chainwork = from_le new_chainwork,
                  er_height = block_height,
                  er_expected_bits = (if boundary then bits else er_expected_bits run),
                  er_epoch_start = (if boundary then timestamp else er_epoch_start run),
                  er_parent_timestamp = timestamp, er_window = window\<rparr>)))))"

definition header_record :: "env \<Rightarrow> u32 \<Rightarrow> bytes \<Rightarrow> extend_run \<Rightarrow> block_header" where
  "header_record E reinit raw run =
     \<lparr>bh_discriminator = BLOCK_HEADER_DISCRIMINATOR, bh_padding = 0,
      bh_version = from_le (bslice 0 4 raw), bh_prev_block_hash = from_le (bslice 4 32 raw),
      bh_merkle_root = from_le (bslice 36 32 raw), bh_timestamp = from_le (bslice 68 4 raw),
      bh_bits = from_le (bslice 72 4 raw), bh_nonce = from_le (bslice 76 4 raw),
      bh_block_hash = er_prev_hash run, bh_chainwork = er_chainwork run, bh_height = er_height run,
      bh_submitted_at = clock_unix_timestamp E, bh_epoch_bits = er_expected_bits run,
      bh_epoch_start_time = er_epoch_start run, bh_reinit_epoch = reinit, bh_reserved = 0\<rparr>"

text \<open>The account of a header: checked, created when missing, and written.\<close>

definition store_header :: "env \<Rightarrow> pubkey \<Rightarrow> account_info \<Rightarrow> block_header \<Rightarrow> store \<Rightarrow> store result" where
  "store_header E submitter info hdr s =
     (let k = key info in
      if k \<noteq> fst (find_program_address E [BLOCK_HEADER_SEED, bytes32 (bh_block_hash hdr)])
        then Inl InvalidSeeds
      else if adata (s k) \<noteq> [] \<and> owner (s k) \<noteq> program_id E then Inl IllegalOwner
      else bindE (if layout_initialized BH_LEN BLOCK_HEADER_DISCRIMINATOR (adata (s k)) then Inr s
                  else create_or_claim_pda E submitter k (rt_minimum_balance E BH_LEN) (of_nat BH_LEN) s) (\<lambda>s1.
        write_front k (encode_block_header hdr) s1))"

fun extend_headers ::
    "env \<Rightarrow> u8 \<Rightarrow> u32 \<Rightarrow> pubkey \<Rightarrow> (account_info \<times> bytes) list \<Rightarrow> extend_run \<Rightarrow> store \<Rightarrow> (extend_run \<times> store) result" where
  "extend_headers E network reinit submitter [] run s = Inr (run, s)"
| "extend_headers E network reinit submitter ((info, raw) # rest) run s =
     bindE (header_checks E network raw run) (\<lambda>run'.
     bindE (store_header E submitter info (header_record E reinit raw run') s) (\<lambda>s'.
     extend_headers E network reinit submitter rest run' s'))"

section \<open>Promotion\<close>

definition index_height :: "env \<Rightarrow> pubkey \<Rightarrow> account_info \<Rightarrow> u64 \<Rightarrow> hash32 \<Rightarrow> store \<Rightarrow> store result" where
  "index_height E submitter info height block_hash s =
     (let k = key info; pda = find_program_address E [HEIGHT_INDEX_SEED, bytes8 height] in
      if k \<noteq> fst pda then Inl InvalidSeeds
      else if adata (s k) \<noteq> [] \<and> owner (s k) \<noteq> program_id E then Inl IllegalOwner
      else bindE (if layout_initialized HI_LEN HEIGHT_INDEX_DISCRIMINATOR (adata (s k)) then Inr s
                  else create_or_claim_pda E submitter k (rt_minimum_balance E HI_LEN) (of_nat HI_LEN) s) (\<lambda>s1.
        write_front k (encode_height_index
          \<lparr>hi_discriminator = HEIGHT_INDEX_DISCRIMINATOR, hi_bump = snd pda, hi_padding = 0,
           hi_block_hash = block_hash, hi_height = height\<rparr>) s1))"

text \<open>The loop \<open>for i in 0..n\<close>; the height is computed from the parent's at every turn.\<close>

fun reindex :: "env \<Rightarrow> pubkey \<Rightarrow> u64 \<Rightarrow> nat \<Rightarrow> (account_info \<times> bytes) list \<Rightarrow> store \<Rightarrow> store result" where
  "reindex E submitter parent_height i [] s = Inr s"
| "reindex E submitter parent_height i ((info, raw) # rest) s =
     bindE (ok_or (Option.bind (checked_add parent_height 1) (\<lambda>h. checked_add h (of_nat i))) ArithmeticOverflow) (\<lambda>height.
     bindE (index_height E submitter info height (double_sha256 E raw) s) (\<lambda>s'.
     reindex E submitter parent_height (Suc i) rest s'))"

definition promote_light_client :: "env \<Rightarrow> nat \<Rightarrow> extend_run \<Rightarrow> light_client \<Rightarrow> light_client result" where
  "promote_light_client E n run lc =
     bindE (ok_or (checked_add (lc_header_count lc) (of_nat n)) ArithmeticOverflow) (\<lambda>header_count.
     let candidate = saturating_sub (er_height run) (saturating_sub REQUIRED_CONFIRMATIONS 1);
         lc1 = lc\<lparr>lc_tip_hash := er_prev_hash run, lc_tip_height := er_height run,
                  lc_header_count := header_count, lc_total_chainwork := er_chainwork run,
                  lc_finalized_height := (if candidate > lc_finalized_height lc then candidate
                                          else lc_finalized_height lc)\<rparr>;
         lc2 = (if retargets (lc_network lc)
                then lc1\<lparr>lc_expected_bits := er_expected_bits run, lc_epoch_start_time := er_epoch_start run\<rparr>
                else lc1)
     in Inr (lc2\<lparr>lc_last_update := clock_unix_timestamp E\<rparr>))"

definition count_headers :: "env \<Rightarrow> nat \<Rightarrow> light_client \<Rightarrow> light_client result" where
  "count_headers E n lc =
     bindE (ok_or (checked_add (lc_header_count lc) (of_nat n)) ArithmeticOverflow) (\<lambda>header_count.
     Inr (lc\<lparr>lc_header_count := header_count, lc_last_update := clock_unix_timestamp E\<rparr>))"

text \<open>
  After the loop: the batch is promoted when it carries strictly more work than the tip and
  does not fork below the finalised height; otherwise its headers are only counted. The
  light client is read again from its account, as the code does.
\<close>

definition finish_extend ::
    "env \<Rightarrow> pubkey \<Rightarrow> pubkey \<Rightarrow> hash32 \<Rightarrow> u64 \<Rightarrow> (account_info \<times> bytes) list \<Rightarrow> extend_run \<Rightarrow> store \<Rightarrow> store result" where
  "finish_extend E lc_k submitter lc_chainwork parent_height indexed run s =
     (if u256_gt_limbs (u256_from_le_bytes (bytes32 (er_chainwork run)))
                       (u256_from_le_bytes (bytes32 lc_chainwork))
      then bindE (light_client_from_bytes (adata (s lc_k))) (\<lambda>lc.
        if parent_height < lc_finalized_height lc then Inl InvalidArgument
        else bindE (reindex E submitter parent_height 0 indexed s) (\<lambda>s1.
             bindE (light_client_from_bytes (adata (s1 lc_k))) (\<lambda>lc1.
             bindE (promote_light_client E (length indexed) run lc1) (\<lambda>lc2.
             write_front lc_k (encode_light_client lc2) s1))))
      else bindE (light_client_from_bytes (adata (s lc_k))) (\<lambda>lc.
           bindE (count_headers E (length indexed) lc) (\<lambda>lc1.
           write_front lc_k (encode_light_client lc1) s)))"

definition initial_run :: "light_client \<Rightarrow> block_header \<Rightarrow> u32 list \<Rightarrow> extend_run" where
  "initial_run lc parent window =
     \<lparr>er_prev_hash = bh_block_hash parent, er_chainwork = bh_chainwork parent,
      er_height = bh_height parent,
      er_expected_bits = (if bh_epoch_bits parent \<noteq> 0 then bh_epoch_bits parent else lc_expected_bits lc),
      er_epoch_start = (if bh_epoch_start_time parent \<noteq> 0 then bh_epoch_start_time parent
                        else lc_epoch_start_time lc),
      er_parent_timestamp = bh_timestamp parent, er_window = window\<rparr>"

definition raw_headers :: "bytes \<Rightarrow> nat \<Rightarrow> bytes list" where
  "raw_headers d n = map (\<lambda>i. bslice (1 + i * 80) 80 d) [0..<n]"

definition process_extend_blockchain :: "env \<Rightarrow> account_info list \<Rightarrow> bytes \<Rightarrow> store \<Rightarrow> store result" where
  "process_extend_blockchain E accounts d s =
     bindE (extend_args accounts d) (\<lambda>(n, num_ancestors).
     let lc_k = key (accounts ! 0); submitter = key (accounts ! 1);
         raws = raw_headers d n
     in if \<not> is_signer (accounts ! 1) then Inl MissingRequiredSignature
     else if owner (s lc_k) \<noteq> program_id E then Inl IllegalOwner
     else bindE (read_parent E s (accounts ! 3)) (\<lambda>parent.
          bindE (light_client_from_bytes (adata (s lc_k))) (\<lambda>lc.
          bindE (check_parent_epoch lc parent) (\<lambda>_.
          bindE (check_parent_canonical E s (accounts ! (4 + 2 * n + num_ancestors)) parent) (\<lambda>_.
          if key (accounts ! 3) \<noteq> fst (find_program_address E [BLOCK_HEADER_SEED, bytes32 (bh_block_hash parent)])
            then Inl InvalidSeeds
          else if from_le (bslice 5 32 d) \<noteq> bh_block_hash parent then Inl InvalidArgument
          else bindE (mtp_window E s lc parent (bslice (4 + 2 * n) num_ancestors accounts)) (\<lambda>window.
               bindE (extend_headers E (lc_network lc) (lc_reinit_epoch lc) submitter
                        (zip (bslice 4 n accounts) raws) (initial_run lc parent window) s) (\<lambda>(run, s1).
               finish_extend E lc_k submitter (lc_total_chainwork lc) (bh_height parent)
                 (zip (bslice (4 + n) n accounts) raws) run s1)))))))"

end
