(* ===== verification/LC_Chain.thy ===== *)
theory LC_Chain
  imports LC_Extend LC_Retarget "HOL-Library.Multiset"
begin

text \<open>
  What an accepted batch of headers satisfies. \<open>batch_run\<close> is the part of the header
  loop that touches no account; its state before each header has a closed form (hash of the
  predecessor, height, last eleven timestamps, epoch parameters, accumulated work), from
  which the consensus rules follow for every header of the batch.
\<close>

section \<open>The median\<close>

lemma sel_min_spec:
  "m < length s \<Longrightarrow> m < j \<Longrightarrow>
   sel_min s j m < length s \<and> (sel_min s j m = m \<or> j \<le> sel_min s j m) \<and>
   s ! sel_min s j m \<le> s ! m \<and> (\<forall>k. j \<le> k \<longrightarrow> k < length s \<longrightarrow> s ! sel_min s j m \<le> s ! k)"
proof (induction s j m rule: sel_min.induct)
  case (1 s j m)
  show ?case
  proof (cases "j < length s")
    case True
    let ?m = "if s ! j < s ! m then j else m"
    have IH: "sel_min s (Suc j) ?m < length s \<and>
      (sel_min s (Suc j) ?m = ?m \<or> Suc j \<le> sel_min s (Suc j) ?m) \<and>
      s ! sel_min s (Suc j) ?m \<le> s ! ?m \<and>
      (\<forall>k. Suc j \<le> k \<longrightarrow> k < length s \<longrightarrow> s ! sel_min s (Suc j) ?m \<le> s ! k)"
      using "1.IH" [OF True] "1.prems" True by simp
    have le: "s ! ?m \<le> s ! m" "s ! ?m \<le> s ! j" by auto
    have eq: "sel_min s j m = sel_min s (Suc j) ?m"
      using True by (subst sel_min.simps) simp
    have all: "s ! sel_min s (Suc j) ?m \<le> s ! k" if "j \<le> k" "k < length s" for k
    proof (cases "k = j")
      case True
      then show ?thesis using IH le(2) order_trans by blast
    next
      case False
      then show ?thesis using IH that by auto
    qed
    have low: "s ! sel_min s (Suc j) ?m \<le> s ! m" using IH le(1) order_trans by blast
    have "sel_min s (Suc j) ?m = m \<or> j \<le> sel_min s (Suc j) ?m" using IH by (auto split: if_splits)
    then show ?thesis unfolding eq using IH low all by blast
  next
    case False
    then show ?thesis using "1.prems" by (simp add: sel_min.simps)
  qed
qed

lemma length_swap [simp]: "length (swap i j xs) = length xs"
  by (simp add: swap_def)

lemma sel_sort_spec:
  "i \<le> length s \<Longrightarrow> (\<And>a b. a < i \<Longrightarrow> a \<le> b \<Longrightarrow> b < length s \<Longrightarrow> s ! a \<le> s ! b) \<Longrightarrow>
   sorted (sel_sort s i) \<and> mset (sel_sort s i) = mset s"
proof (induction s i rule: sel_sort.induct)
  case (1 s i)
  show ?case
  proof (cases "i < length s")
    case True
    define r where "r = sel_min s (Suc i) i"
    have spec: "r < length s \<and> (r = i \<or> Suc i \<le> r) \<and> s ! r \<le> s ! i \<and>
        (\<forall>k. Suc i \<le> k \<longrightarrow> k < length s \<longrightarrow> s ! r \<le> s ! k)"
      using sel_min_spec [of i s "Suc i"] True unfolding r_def by simp
    then have r: "r < length s" "i \<le> r" by auto
    have least: "s ! r \<le> s ! k" if "i \<le> k" "k < length s" for k
      using spec that by (cases "k = i") auto
    let ?t = "swap i r s"
    have nth: "?t ! k = (if k = r then s ! i else if k = i then s ! r else s ! k)" if "k < length s" for k
      using that True r(1) by (simp add: swap_def nth_list_update)
    have ord: "?t ! a \<le> ?t ! b" if "a < Suc i" "a \<le> b" "b < length ?t" for a b
    proof (cases "a = i")
      case True
      then show ?thesis using that r least by (auto simp: nth)
    next
      case False
      then have "a < i" using that by simp
      moreover have "i < length s" "b < length s" "a < length s" using that True by simp_all
      ultimately show ?thesis using that r False by (auto simp: nth intro: "1.prems"(2))
    qed
    have "mset ?t = mset s"
      unfolding swap_def using True r(1) mset_swap [of r s i] by simp
    moreover have "sorted (sel_sort ?t (Suc i)) \<and> mset (sel_sort ?t (Suc i)) = mset ?t"
      using "1.IH" [OF True] ord True unfolding r_def by simp
    ultimately show ?thesis using True by (subst (1 2) sel_sort.simps) (simp add: r_def)
  next
    case False
    then have "sorted s" using "1.prems" by (auto simp: sorted_iff_nth_mono)
    then show ?thesis using False by (simp add: sel_sort.simps)
  qed
qed

lemma sel_sort_is_sort: "sel_sort s 0 = sort s"
  using sel_sort_spec [of 0 s] by (metis less_nat_zero_code properties_for_sort zero_le)

text \<open>
  The median-time-past routine, a selection sort on a copy of the window, returns the
  middle element of the sorted window for every window of one to eleven timestamps, and
  aborts on longer ones.
\<close>

theorem median_timestamp_is_median:
  "median_timestamp w =
     (if length w > 11 then Inl Panic
      else Inr (if w = [] then 0 else sort w ! (length w div 2)))"
proof -
  have "(sort w @ replicate (11 - length w) 0) ! (length w div 2) = (if w = [] then 0 else sort w ! (length w div 2))"
    if "length w \<le> 11"
  proof (cases "w = []")
    case False
    then have "length w div 2 < length w" by simp
    with False show ?thesis by (simp add: nth_append)
  qed simp
  then show ?thesis by (simp add: median_timestamp_def sel_sort_is_sort Let_def)
qed

section \<open>The header loop without its stores\<close>

abbreviation raw_prev :: "bytes \<Rightarrow> hash32" where "raw_prev raw \<equiv> from_le (bslice 4 32 raw)"
abbreviation raw_time :: "bytes \<Rightarrow> u32" where "raw_time raw \<equiv> from_le (bslice 68 4 raw)"
abbreviation raw_bits :: "bytes \<Rightarrow> u32" where "raw_bits raw \<equiv> from_le (bslice 72 4 raw)"

fun batch_run :: "env \<Rightarrow> u8 \<Rightarrow> bytes list \<Rightarrow> extend_run \<Rightarrow> extend_run result" where
  "batch_run E network [] run = Inr run"
| "batch_run E network (raw # rest) run = bindE (header_checks E network raw run) (batch_run E network rest)"

lemma extend_headers_batch_run:
  "extend_headers E network reinit submitter items run s = Inr (run', s') \<Longrightarrow>
   batch_run E network (map snd items) run = Inr run'"
proof (induction items arbitrary: run s)
  case (Cons item items)
  then show ?case by (cases item) (auto simp: res_simps)
qed simp

lemma batch_run_append:
  "batch_run E network (xs @ ys) run = bindE (batch_run E network xs run) (batch_run E network ys)"
  by (induction xs arbitrary: run) (auto simp: bindE_assoc intro: bindE_cong)

text \<open>Every header of an accepted batch passed its checks from the state the prefix leaves.\<close>

lemma batch_run_nth:
  assumes "batch_run E network raws run = Inr run'" and "i < length raws"
  obtains ri ri' where "batch_run E network (take i raws) run = Inr ri"
    and "header_checks E network (raws ! i) ri = Inr ri'"
    and "batch_run E network (take (Suc i) raws) run = Inr ri'"
proof -
  have "batch_run E network (take i raws @ raws ! i # drop (Suc i) raws) run = Inr run'"
    using assms(1) by (simp flip: id_take_nth_drop [OF assms(2)])
  then obtain ri ri' where ri: "batch_run E network (take i raws) run = Inr ri"
    and ri': "header_checks E network (raws ! i) ri = Inr ri'"
    unfolding batch_run_append by (auto simp: bindE_eq_Inr)
  moreover have "batch_run E network (take (Suc i) raws) run = Inr ri'"
    using assms(2) ri ri' by (simp add: take_Suc_conv_app_nth batch_run_append)
  ultimately show thesis by (rule that)
qed

lemma header_checks_ok:
  assumes "header_checks E network raw run = Inr run'"
  shows "raw_prev raw = er_prev_hash run"
    and "er_prev_hash run' = double_sha256 E raw"
    and "unat (double_sha256 E raw) \<le> le_nat (target_from_bits (raw_bits raw))"
    and "int (unat (raw_time raw)) \<le> sint (clock_unix_timestamp E) + 7200"
    and "unat (er_height run') = unat (er_height run) + 1"
    and "unat (er_chainwork run') =
           (unat (er_chainwork run) + le_nat (calculate_chainwork (raw_bits raw))) mod 2 ^ 256"
    and "er_parent_timestamp run' = raw_time raw"
    and "check_mtp network (er_window run) (raw_time raw) = Inr (er_window run')"
    and "check_difficulty network (er_height run') (raw_time raw) (raw_bits raw) run = Inr ()"
    and "er_expected_bits run' =
           (if retargets network \<and> er_height run' mod BLOCKS_PER_EPOCH = 0 then raw_bits raw else er_expected_bits run)"
    and "er_epoch_start run' =
           (if retargets network \<and> er_height run' mod BLOCKS_PER_EPOCH = 0 then raw_time raw else er_epoch_start run)"
proof -
  let ?bits = "raw_bits raw" and ?t = "raw_time raw"
  from assms obtain window h where
      fut: "check_future E ?t = Inr ()" and prev: "raw_prev raw = er_prev_hash run"
    and win: "check_mtp network (er_window run) ?t = Inr window"
    and h: "checked_add (er_height run) 1 = Some h"
    and pow: "hash_meets_target (bytes32 (double_sha256 E raw)) (target_from_bits ?bits)"
    and dif: "check_difficulty network h ?t ?bits run = Inr ()"
    and run': "run' = \<lparr>er_prev_hash = double_sha256 E raw,
       er_chainwork = from_le (add_chainwork (bytes32 (er_chainwork run)) (calculate_chainwork ?bits)),
       er_height = h,
       er_expected_bits = (if retargets network \<and> h mod BLOCKS_PER_EPOCH = 0 then ?bits else er_expected_bits run),
       er_epoch_start = (if retargets network \<and> h mod BLOCKS_PER_EPOCH = 0 then ?t else er_epoch_start run),
       er_parent_timestamp = ?t, er_window = window\<rparr>"
    unfolding header_checks_def Let_def by (auto simp: res_simps)
  show "raw_prev raw = er_prev_hash run" by (fact prev)
  show "unat (double_sha256 E raw) \<le> le_nat (target_from_bits ?bits)"
    using pow by (simp add: hash_meets_target_le)
  show "int (unat ?t) \<le> sint (clock_unix_timestamp E) + 7200"
    using fut by (auto simp: check_future_def split: if_splits)
  show "unat (er_height run') = unat (er_height run) + 1"
    using unat_checked_add [OF h] by (simp add: run')
  show "unat (er_chainwork run') =
      (unat (er_chainwork run) + le_nat (calculate_chainwork ?bits)) mod 2 ^ 256"
    by (simp add: run' unat_from_le le_nat_add_chainwork)
  show "er_prev_hash run' = double_sha256 E raw" "er_parent_timestamp run' = ?t"
    "check_mtp network (er_window run) ?t = Inr (er_window run')"
    "check_difficulty network (er_height run') ?t ?bits run = Inr ()"
    "er_expected_bits run' =
       (if retargets network \<and> er_height run' mod BLOCKS_PER_EPOCH = 0 then ?bits else er_expected_bits run)"
    "er_epoch_start run' =
       (if retargets network \<and> er_height run' mod BLOCKS_PER_EPOCH = 0 then ?t else er_epoch_start run)"
    using dif win by (simp_all add: run')
qed

section \<open>The closed form of the loop state\<close>

text \<open>The last \<open>n\<close> elements of a list.\<close>

definition lastn :: "nat \<Rightarrow> 'a list \<Rightarrow> 'a list" where
  "lastn n xs = drop (length xs - n) xs"

lemma lastn_snoc:
  "lastn 11 (xs @ [x]) = (if length (lastn 11 xs) < 11 then lastn 11 xs @ [x] else tl (lastn 11 xs) @ [x])"
proof (cases "length xs < 11")
  case False
  then have "Suc (length xs) - 11 = Suc (length xs - 11)" by simp
  then show ?thesis using False by (simp add: lastn_def drop_Suc tl_drop)
qed (simp add: lastn_def)

lemma length_lastn: "length (lastn n xs) = min n (length xs)"
  by (simp add: lastn_def)

text \<open>The epoch parameters (difficulty and first timestamp) after a run of headers.\<close>

fun epoch_after :: "nat \<Rightarrow> u32 \<times> u32 \<Rightarrow> bytes list \<Rightarrow> u32 \<times> u32" where
  "epoch_after h ep [] = ep"
| "epoch_after h ep (raw # rest) =
     epoch_after (h + 1) (if (h + 1) mod 2016 = 0 then (raw_bits raw, raw_time raw) else ep) rest"

lemma epoch_boundary: "h mod BLOCKS_PER_EPOCH = 0 \<longleftrightarrow> unat h mod 2016 = 0"
proof -
  have "h mod BLOCKS_PER_EPOCH = 0 \<longleftrightarrow> unat (h mod BLOCKS_PER_EPOCH) = 0"
    by (simp add: unat_eq_zero)
  also have "unat (h mod BLOCKS_PER_EPOCH) = unat h mod 2016"
    by (simp add: unat_mod BLOCKS_PER_EPOCH_def)
  finally show ?thesis .
qed

definition batch_work :: "bytes list \<Rightarrow> nat" where
  "batch_work raws = sum_list (map (\<lambda>raw. le_nat (calculate_chainwork (raw_bits raw))) raws)"

lemma batch_run_state:
  "batch_run E network raws run = Inr run' \<Longrightarrow>
     er_prev_hash run' = last (er_prev_hash run # map (double_sha256 E) raws)
   \<and> unat (er_height run') = unat (er_height run) + length raws
   \<and> unat (er_chainwork run') = (unat (er_chainwork run) + batch_work raws) mod 2 ^ 256
   \<and> er_parent_timestamp run' = last (er_parent_timestamp run # map raw_time raws)"
proof (induction raws arbitrary: run)
  case Nil
  have "unat (er_chainwork run) < 2 ^ 256" using unat_bound [of "er_chainwork run"] by simp
  with Nil show ?case by (simp add: batch_work_def)
next
  case (Cons raw raws)
  then obtain r where r: "header_checks E network raw run = Inr r" and rest: "batch_run E network raws r = Inr run'"
    by (auto simp: res_simps)
  note st = header_checks_ok [OF r] Cons.IH [OF rest]
  have "unat (er_chainwork run') = (unat (er_chainwork run) + batch_work (raw # raws)) mod 2 ^ 256"
    using st by (simp add: batch_work_def mod_add_left_eq add.assoc)
  then show ?case using st by (cases raws) simp_all
qed

lemma check_mtp_retargets:
  assumes "retargets network" and "check_mtp network w t = Inr w'"
  shows "w' = (if length w < 11 then w @ [t] else tl w @ [t])"
    and "w \<noteq> [] \<Longrightarrow> length w \<le> 11 \<Longrightarrow> sort w ! (length w div 2) < t"
  using assms by (auto simp: check_mtp_def res_simps median_timestamp_is_median split: if_splits)

lemma batch_run_window:
  "batch_run E network raws run = Inr run' \<Longrightarrow> retargets network \<Longrightarrow> er_window run = lastn 11 w0 \<Longrightarrow>
   er_window run' = lastn 11 (w0 @ map raw_time raws)"
proof (induction raws arbitrary: run w0)
  case (Cons raw raws)
  then obtain r where r: "header_checks E network raw run = Inr r" and rest: "batch_run E network raws r = Inr run'"
    by (auto simp: res_simps)
  have "er_window r = lastn 11 (w0 @ [raw_time raw])"
    using check_mtp_retargets(1) [OF Cons.prems(2) header_checks_ok(8) [OF r]]
    unfolding Cons.prems(3) lastn_snoc .
  from Cons.IH [OF rest Cons.prems(2) this] show ?case by simp
qed simp

lemma batch_run_epoch:
  "batch_run E network raws run = Inr run' \<Longrightarrow> retargets network \<Longrightarrow>
   (er_expected_bits run', er_epoch_start run') =
     epoch_after (unat (er_height run)) (er_expected_bits run, er_epoch_start run) raws"
proof (induction raws arbitrary: run)
  case (Cons raw raws)
  then obtain r where r: "header_checks E network raw run = Inr r" and rest: "batch_run E network raws r = Inr run'"
    by (auto simp: res_simps)
  note st = header_checks_ok [OF r]
  have "(er_expected_bits r, er_epoch_start r) =
     (if (unat (er_height run) + 1) mod 2016 = 0 then (raw_bits raw, raw_time raw)
      else (er_expected_bits run, er_epoch_start run))"
    using st(5,10,11) Cons.prems(2) by (simp add: epoch_boundary)
  with Cons.IH [OF rest Cons.prems(2)] st(5) show ?case by simp
qed simp

section \<open>Writes of typed accounts\<close>

text \<open>One account was (re)written to start with the given bytes and is owned by the program.\<close>

definition wrote :: "env \<Rightarrow> pubkey \<Rightarrow> bytes \<Rightarrow> store \<Rightarrow> store \<Rightarrow> bool" where
  "wrote E k new s s' \<longleftrightarrow>
     frame {k} s s' \<and> owner (s' k) = program_id E \<and> (\<exists>rest. adata (s' k) = new @ rest)"

lemma wrote_front:
  "owner (s k) = program_id E \<Longrightarrow> write_front k new s = Inr s' \<Longrightarrow> wrote E k new s s'"
  using frame_write [of k new s s'] by (auto simp: wrote_def res_simps)

lemma wrote_claimed:
  "system_program_spec E \<Longrightarrow> create_or_claim_pda E payer k lam space s = Inr s1 \<Longrightarrow>
   write_front k new s1 = Inr s' \<Longrightarrow> wrote E k new s s'"
  using claim_then_write [of E payer k lam space s s1 new s'] by (simp add: wrote_def)

text \<open>The two-way branch of the loops: write in place, or create the account first.\<close>

lemma wrote_or_claimed:
  assumes "system_program_spec E"
    and "\<not> (adata (s k) \<noteq> [] \<and> owner (s k) \<noteq> program_id E)"
    and "(if layout_initialized n D (adata (s k)) then Inr s
          else create_or_claim_pda E payer k lam space s) = Inr s1"
    and "write_front k new s1 = Inr s'"
  shows "wrote E k new s s'"
proof (cases "layout_initialized n D (adata (s k))")
  case True
  then have "owner (s k) = program_id E" using assms(2) by (auto simp: layout_initialized_def)
  with True assms(3,4) show ?thesis by (auto intro: wrote_front)
qed (use assms in \<open>auto intro: wrote_claimed\<close>)

lemma store_header_wrote:
  assumes "system_program_spec E" and "store_header E submitter info hdr s = Inr s'"
  shows "key info = fst (find_program_address E [BLOCK_HEADER_SEED, bytes32 (bh_block_hash hdr)])"
    and "wrote E (key info) (encode_block_header hdr) s s'"
  using assms(2) unfolding store_header_def Let_def bindE_eq_Inr if_Inl_eq_Inr
  by (blast intro: wrote_or_claimed [OF assms(1)])+

definition index_address :: "env \<Rightarrow> u64 \<Rightarrow> pubkey" where
  "index_address E height = fst (find_program_address E [HEIGHT_INDEX_SEED, bytes8 height])"

definition canonical_entry :: "env \<Rightarrow> u64 \<Rightarrow> hash32 \<Rightarrow> height_index" where
  "canonical_entry E height block_hash =
     \<lparr>hi_discriminator = HEIGHT_INDEX_DISCRIMINATOR,
      hi_bump = snd (find_program_address E [HEIGHT_INDEX_SEED, bytes8 height]), hi_padding = 0,
      hi_block_hash = block_hash, hi_height = height\<rparr>"

lemma index_height_wrote:
  assumes "system_program_spec E" and "index_height E submitter info height block_hash s = Inr s'"
  shows "key info = index_address E height"
    and "wrote E (key info) (encode_height_index (canonical_entry E height block_hash)) s s'"
  using assms(2) unfolding index_height_def index_address_def Let_def canonical_entry_def bindE_eq_Inr if_Inl_eq_Inr
  by (blast intro: wrote_or_claimed [OF assms(1)])+

lemma wroteD:
  assumes "wrote E k new s s'"
  shows "frame {k} s s'" and "owner (s' k) = program_id E" and "\<exists>rest. adata (s' k) = new @ rest"
  using assms by (simp_all add: wrote_def)

text \<open>Discriminators tell the account types apart.\<close>

lemma layout_disc: "layout_from_bytes n D f d = Inr x \<Longrightarrow> d ! 0 = D"
  by (auto simp: layout_from_bytes_def split: if_splits)

lemma encode_header_disc [simp]: "(encode_block_header h @ r) ! 0 = bh_discriminator h"
  and encode_index_disc [simp]: "(encode_height_index i @ r) ! 0 = hi_discriminator i"
  and encode_verified_disc [simp]: "(encode_verified_tx v @ r) ! 0 = vt_discriminator v"
  and encode_client_disc [simp]: "(encode_light_client l @ r) ! 0 = lc_discriminator l"
  using bhl.first_byte bhl.length_encode hil.first_byte hil.length_encode
    vtl.first_byte vtl.length_encode lcl.first_byte lcl.length_encode
    bhl.LEN_pos hil.LEN_pos vtl.LEN_pos lcl.LEN_pos
  by (simp_all add: nth_append)

lemmas disc_defs = BTC_LIGHT_CLIENT_DISCRIMINATOR_def BLOCK_HEADER_DISCRIMINATOR_def
  VERIFIED_TX_DISCRIMINATOR_def HEIGHT_INDEX_DISCRIMINATOR_def

lemma from_bytes_disc:
  "light_client_from_bytes d = Inr l \<Longrightarrow> d ! 0 = BTC_LIGHT_CLIENT_DISCRIMINATOR"
  "block_header_from_bytes d = Inr h \<Longrightarrow> d ! 0 = BLOCK_HEADER_DISCRIMINATOR"
  "height_index_from_bytes d = Inr i \<Longrightarrow> d ! 0 = HEIGHT_INDEX_DISCRIMINATOR"
  "verified_tx_from_bytes d = Inr v \<Longrightarrow> d ! 0 = VERIFIED_TX_DISCRIMINATOR"
  unfolding from_bytes_defs by (rule layout_disc, assumption)+

lemma from_bytes_overlays [simp]:
  "lc_discriminator l = BTC_LIGHT_CLIENT_DISCRIMINATOR \<Longrightarrow> light_client_from_bytes (encode_light_client l @ r) = Inr l"
  "bh_discriminator h = BLOCK_HEADER_DISCRIMINATOR \<Longrightarrow> block_header_from_bytes (encode_block_header h @ r) = Inr h"
  "hi_discriminator i = HEIGHT_INDEX_DISCRIMINATOR \<Longrightarrow> height_index_from_bytes (encode_height_index i @ r) = Inr i"
  "vt_discriminator v = VERIFIED_TX_DISCRIMINATOR \<Longrightarrow> verified_tx_from_bytes (encode_verified_tx v @ r) = Inr v"
  unfolding from_bytes_defs
  by (simp_all add: lcl.from_bytes_overlay bhl.from_bytes_overlay hil.from_bytes_overlay vtl.from_bytes_overlay)

lemma header_record_disc [simp]: "bh_discriminator (header_record E r raw run) = BLOCK_HEADER_DISCRIMINATOR"
  and header_record_hash [simp]: "bh_block_hash (header_record E r raw run) = er_prev_hash run"
  by (simp_all add: header_record_def)

lemma canonical_entry_disc [simp]: "hi_discriminator (canonical_entry E h b) = HEIGHT_INDEX_DISCRIMINATOR"
  and canonical_entry_hash [simp]: "hi_block_hash (canonical_entry E h b) = b"
  and canonical_entry_height [simp]: "hi_height (canonical_entry E h b) = h"
  by (simp_all add: canonical_entry_def)

section \<open>The loops as sequences of writes\<close>

text \<open>
  A run of typed writes: every step changes one account only, and leaves there bytes of the
  given kind. The header loop and the reindexing loop are both of this shape.
\<close>

inductive writes :: "env \<Rightarrow> (pubkey \<times> bytes) list \<Rightarrow> store \<Rightarrow> store \<Rightarrow> bool" for E where
  writes_Nil: "writes E [] s s"
| writes_Cons: "wrote E k new s s1 \<Longrightarrow> writes E ws s1 s' \<Longrightarrow> writes E ((k, new) # ws) s s'"

inductive_simps writes_Nil_iff [simp]: "writes E [] s s'"
inductive_cases writes_ConsE: "writes E (w # ws) s s'"

lemma writes_frame: "writes E ws s s' \<Longrightarrow> frame (fst ` set ws) s s'"
proof (induction rule: writes.induct)
  case (writes_Cons k new s s1 ws s')
  then show ?case using frame_trans [OF wroteD(1)] by fastforce
qed simp

lemma writes_append: "writes E xs s s1 \<Longrightarrow> writes E ys s1 s' \<Longrightarrow> writes E (xs @ ys) s s'"
  by (induction rule: writes.induct) (auto intro: writes_Cons)

text \<open>The last write to an address decides what is there.\<close>

lemma writes_last:
  "writes E ws s s' \<Longrightarrow> map_of (rev ws) k = Some new \<Longrightarrow>
   owner (s' k) = program_id E \<and> (\<exists>rest. adata (s' k) = new @ rest)"
proof (induction rule: writes.induct)
  case (writes_Cons k0 new0 s s1 ws s')
  show ?case
  proof (cases "map_of (rev ws) k")
    case None
    then have "k \<notin> fst ` set ws" by (metis map_of_eq_None_iff set_rev)
    then have "adata (s' k) = adata (s1 k) \<and> owner (s' k) = owner (s1 k)"
      using frameD [OF writes_frame [OF writes_Cons.hyps(2)]] by blast
    moreover from None writes_Cons.prems have "k = k0 \<and> new = new0"
      by (simp add: map_add_def split: if_splits)
    ultimately show ?thesis using wroteD [OF writes_Cons.hyps(1)] by simp
  qed (use writes_Cons in \<open>simp add: map_add_def\<close>)
qed simp

lemma map_of_rev_last:
  assumes "i < length ws" and "\<And>j. i < j \<Longrightarrow> j < length ws \<Longrightarrow> fst (ws ! j) \<noteq> fst (ws ! i)"
  shows "map_of (rev ws) (fst (ws ! i)) = Some (snd (ws ! i))"
proof -
  have "fst (ws ! i) \<notin> fst ` set (drop (Suc i) ws)"
  proof
    assume "fst (ws ! i) \<in> fst ` set (drop (Suc i) ws)"
    then obtain j where "j < length ws - Suc i" "fst (ws ! (Suc i + j)) = fst (ws ! i)"
      by (auto simp: in_set_conv_nth)
    with assms(2) [of "Suc i + j"] show False by simp
  qed
  then have "map_of (rev (drop (Suc i) ws)) (fst (ws ! i)) = None"
    by (simp add: map_of_eq_None_iff)
  moreover have "rev ws = rev (drop (Suc i) ws) @ ws ! i # rev (take i ws)"
    using id_take_nth_drop [OF assms(1)] by (metis append.assoc append_Cons append_Nil rev.simps(2) rev_append)
  ultimately show ?thesis by (simp add: map_add_def)
qed

lemma writes_hit: "writes E ws s s' \<Longrightarrow> k \<in> fst ` set ws \<Longrightarrow>
   \<exists>new rest. (k, new) \<in> set ws \<and> adata (s' k) = new @ rest \<and> owner (s' k) = program_id E"
proof -
  assume w: "writes E ws s s'" and "k \<in> fst ` set ws"
  then obtain new where new: "map_of (rev ws) k = Some new"
    by (metis image_set map_of_eq_None_iff not_None_eq rev_map set_rev list.set_map)
  from writes_last [OF w new] map_of_SomeD [OF new] show ?thesis by auto
qed

lemma writes_owner:
  assumes "writes E ws s s'" and "owner (s k) = program_id E"
  shows "owner (s' k) = program_id E"
proof (cases "k \<in> fst ` set ws")
  case False
  with frameD [OF writes_frame [OF assms(1)]] assms(2) show ?thesis by simp
qed (use writes_hit [OF assms(1)] in blast)

definition header_address :: "env \<Rightarrow> bytes \<Rightarrow> pubkey" where
  "header_address E raw = fst (find_program_address E [BLOCK_HEADER_SEED, bytes32 (double_sha256 E raw)])"

fun header_writes :: "env \<Rightarrow> u8 \<Rightarrow> u32 \<Rightarrow> (account_info \<times> bytes) list \<Rightarrow> extend_run \<Rightarrow> (pubkey \<times> bytes) list" where
  "header_writes E network reinit [] run = []"
| "header_writes E network reinit ((info, raw) # rest) run =
     (case header_checks E network raw run of Inl e \<Rightarrow> []
      | Inr run' \<Rightarrow> (key info, encode_block_header (header_record E reinit raw run'))
          # header_writes E network reinit rest run')"

definition header_write :: "env \<Rightarrow> pubkey \<times> bytes \<Rightarrow> bool" where
  "header_write E w \<longleftrightarrow> (\<exists>hdr. bh_discriminator hdr = BLOCK_HEADER_DISCRIMINATOR \<and> snd w = encode_block_header hdr \<and>
     fst w = fst (find_program_address E [BLOCK_HEADER_SEED, bytes32 (bh_block_hash hdr)]))"

lemma extend_headers_writes:
  assumes "system_program_spec E"
  shows "extend_headers E network reinit submitter items run s = Inr (run', s') \<Longrightarrow>
     writes E (header_writes E network reinit items run) s s'
   \<and> map fst (header_writes E network reinit items run) = map (header_address E) (map snd items)
   \<and> (\<forall>w \<in> set (header_writes E network reinit items run). header_write E w)"
proof (induction items arbitrary: run s)
  case (Cons item items)
  obtain info raw where item: "item = (info, raw)" by fastforce
  with Cons.prems obtain r s1 where r: "header_checks E network raw run = Inr r"
    and st: "store_header E submitter info (header_record E reinit raw r) s = Inr s1"
    and rest: "extend_headers E network reinit submitter items r s1 = Inr (run', s')"
    by (auto simp: res_simps)
  note st' = store_header_wrote [OF assms st]
  have "header_write E (key info, encode_block_header (header_record E reinit raw r))"
    unfolding header_write_def using st'(1) by (intro exI [of _ "header_record E reinit raw r"]) simp
  moreover have "key info = header_address E raw"
    using st'(1) header_checks_ok(2) [OF r] by (simp add: header_address_def)
  ultimately show ?case using Cons.IH [OF rest] st'(2) r by (auto simp: item intro: writes_Cons)
qed simp

fun index_writes :: "env \<Rightarrow> u64 \<Rightarrow> nat \<Rightarrow> (account_info \<times> bytes) list \<Rightarrow> (pubkey \<times> bytes) list" where
  "index_writes E parent_height i [] = []"
| "index_writes E parent_height i ((info, raw) # rest) =
     (key info, encode_height_index (canonical_entry E (parent_height + 1 + of_nat i) (double_sha256 E raw)))
     # index_writes E parent_height (Suc i) rest"

definition index_write :: "env \<Rightarrow> u64 \<Rightarrow> pubkey \<times> bytes \<Rightarrow> bool" where
  "index_write E floor w \<longleftrightarrow> (\<exists>h b. floor < h \<and> snd w = encode_height_index (canonical_entry E h b) \<and>
     fst w = index_address E h)"

lemma reindex_writes:
  assumes "system_program_spec E"
  shows "reindex E submitter ph i items s = Inr s' \<Longrightarrow>
     writes E (index_writes E ph i items) s s'
   \<and> (\<forall>w \<in> set (index_writes E ph i items). index_write E ph w)
   \<and> (\<forall>j < length items. index_writes E ph i items ! j =
        (index_address E (ph + 1 + of_nat (i + j)),
         encode_height_index (canonical_entry E (ph + 1 + of_nat (i + j)) (double_sha256 E (snd (items ! j))))))"
proof (induction items arbitrary: i s)
  case (Cons item items)
  obtain info raw where item: "item = (info, raw)" by fastforce
  let ?h = "ph + 1 + of_nat i"
  from Cons.prems obtain s1 where
      h: "checked_add ph 1 = Some (ph + 1)" "checked_add (ph + 1) (of_nat i) = Some ?h"
    and ix: "index_height E submitter info ?h (double_sha256 E raw) s = Inr s1"
    and rest: "reindex E submitter ph (Suc i) items s1 = Inr s'"
    by (auto simp: item res_simps bind_eq_Some_conv checked_add_eq_Some)
  note ix' = index_height_wrote [OF assms ix]
  have "ph < ?h"
    using unat_checked_add [OF h(1)] unat_checked_add [OF h(2)] by (simp add: word_less_nat_alt)
  then have "index_write E ph (key info, encode_height_index (canonical_entry E ?h (double_sha256 E raw)))"
    unfolding index_write_def using ix'(1) by auto
  then show ?case
    using Cons.IH [OF rest] ix'
    by (auto simp: item nth_Cons add.assoc intro: writes_Cons split: nat.splits)
qed simp

lemma index_writes_length [simp]: "length (index_writes E ph i items) = length items"
  by (induction E ph i items rule: index_writes.induct) simp_all

text \<open>An account that still reads as a light client was not the target of such writes.\<close>

lemma writes_keep_client:
  assumes "writes E ws s s'" and "\<forall>w \<in> set ws. header_write E w \<or> index_write E h w"
    and "light_client_from_bytes (adata (s' k)) = Inr lc"
  shows "k \<notin> fst ` set ws" and "adata (s' k) = adata (s k)"
proof -
  show "k \<notin> fst ` set ws"
  proof
    assume "k \<in> fst ` set ws"
    from writes_hit [OF assms(1) this] assms(2) from_bytes_disc(1) [OF assms(3)] show False
      by (fastforce simp: header_write_def index_write_def disc_defs)
  qed
  then show "adata (s' k) = adata (s k)"
    using frameD [OF writes_frame [OF assms(1)]] by blast
qed

end
