(* ===== verification/LC_Init.thy ===== *)
theory LC_Init
  imports LC_Verify
begin

text \<open>
  The two initialisers of the light client: \<open>instructions/initialize.rs\<close> and
  \<open>instructions/reinitialize.rs\<close>. Both write the light client account and then the header
  and HeightIndex accounts of the start block.
\<close>

section \<open>Initialisation\<close>

text \<open>The optional parameters: initial bits, epoch start, start timestamp, start bits.\<close>

definition start_params :: "bytes \<Rightarrow> u32 \<times> u32 \<times> u32 \<times> u32" where
  "start_params d =
     (let initial_bits = (if length d \<ge> 49 then from_le (bslice 41 4 d) else 0);
          epoch_start = (if length d \<ge> 49 then from_le (bslice 45 4 d) else 0);
          start_timestamp = (if length d \<ge> 53 then from_le (bslice 49 4 d) else 0);
          start_bits = (if length d \<ge> 57 then from_le (bslice 53 4 d) else 0)
      in (initial_bits, epoch_start, start_timestamp, if start_bits = 0 then initial_bits else start_bits))"

definition genesis_finalized :: "u64 \<Rightarrow> u64" where
  "genesis_finalized start_height = saturating_sub start_height (saturating_sub REQUIRED_CONFIRMATIONS 1)"

definition genesis_header :: "env \<Rightarrow> hash32 \<Rightarrow> hash32 \<Rightarrow> u64 \<Rightarrow> u32 \<times> u32 \<times> u32 \<times> u32 \<Rightarrow> u32 \<Rightarrow> block_header" where
  "genesis_header E start_block_hash prev_block_hash start_height params reinit =
     (case params of (initial_bits, epoch_start, start_timestamp, start_bits) \<Rightarrow>
       \<lparr>bh_discriminator = BLOCK_HEADER_DISCRIMINATOR, bh_padding = 0, bh_version = 0,
        bh_prev_block_hash = prev_block_hash, bh_merkle_root = 0, bh_timestamp = start_timestamp,
        bh_bits = start_bits, bh_nonce = 0, bh_block_hash = start_block_hash, bh_chainwork = 0,
        bh_height = start_height, bh_submitted_at = clock_unix_timestamp E,
        bh_epoch_bits = initial_bits, bh_epoch_start_time = epoch_start,
        bh_reinit_epoch = reinit, bh_reserved = 0\<rparr>)"

text \<open>The common tail of both initialisers: the start block's header and HeightIndex accounts.\<close>

definition write_genesis :: "env \<Rightarrow> account_info list \<Rightarrow> block_header \<Rightarrow> store \<Rightarrow> store result" where
  "write_genesis E accounts hdr s =
     (let payer = key (accounts ! 1); hi_k = key (accounts ! 3); bh_k = key (accounts ! 4);
          hi_pda = find_program_address E [HEIGHT_INDEX_SEED, bytes8 (bh_height hdr)] in
      if bh_k \<noteq> fst (find_program_address E [BLOCK_HEADER_SEED, bytes32 (bh_block_hash hdr)])
        then Inl InvalidSeeds
      else bindE (create_or_claim_pda E payer bh_k (rt_minimum_balance E BH_LEN) (of_nat BH_LEN) s) (\<lambda>s1.
           bindE (write_front bh_k (encode_block_header hdr) s1) (\<lambda>s2.
      if hi_k \<noteq> fst hi_pda then Inl InvalidSeeds
      else bindE (create_or_claim_pda E payer hi_k (rt_minimum_balance E HI_LEN) (of_nat HI_LEN) s2) (\<lambda>s3.
           write_front hi_k (encode_height_index
             \<lparr>hi_discriminator = HEIGHT_INDEX_DISCRIMINATOR, hi_bump = snd hi_pda, hi_padding = 0,
              hi_block_hash = bh_block_hash hdr, hi_height = bh_height hdr\<rparr>) s3))))"

definition genesis_client :: "env \<Rightarrow> pubkey \<Rightarrow> u8 \<Rightarrow> u8 \<Rightarrow> hash32 \<Rightarrow> u64 \<Rightarrow> u32 \<Rightarrow> u32 \<Rightarrow> light_client" where
  "genesis_client E payer bump network start_block_hash start_height initial_bits epoch_start =
     \<lparr>lc_discriminator = BTC_LIGHT_CLIENT_DISCRIMINATOR, lc_bump = bump, lc_paused = 0,
      lc_network = network, lc_padding = 0, lc_authority = payer, lc_genesis_hash = start_block_hash,
      lc_tip_hash = start_block_hash, lc_total_chainwork = 0, lc_tip_height = start_height,
      lc_finalized_height = genesis_finalized start_height, lc_header_count = 0,
      lc_last_update = clock_unix_timestamp E, lc_expected_bits = initial_bits,
      lc_epoch_start_time = epoch_start, lc_reinit_epoch = 0, lc_reserved = 0\<rparr>"

text \<open>
  The light client account is created by the same sequence of system calls as in
  \<open>create_or_claim_pda\<close>, written out in the source; the parameters of the production
  networks are checked after the account is written.
\<close>

definition process_initialize :: "env \<Rightarrow> account_info list \<Rightarrow> bytes \<Rightarrow> store \<Rightarrow> store result" where
  "process_initialize E accounts d s =
     (if length d < 41 then Inl InvalidInstructionData
      else if length accounts < 5 then Inl NotEnoughAccountKeys
      else if \<not> is_signer (accounts ! 1) then Inl MissingRequiredSignature
      else let lc_k = key (accounts ! 0); payer = key (accounts ! 1);
               start_height = from_le (bslice 0 8 d); start_block_hash = from_le (bslice 8 32 d);
               network = d ! 40; pda = find_program_address E [LIGHT_CLIENT_SEED];
               params = start_params d; initial_bits = fst params; epoch_start = fst (snd params) in
      if \<not> network_allowed_in_build E network then Inl InvalidInstructionData
      else if lc_k \<noteq> fst pda then Inl InvalidSeeds
      else if adata (s lc_k) \<noteq> [] \<and> adata (s lc_k) ! 0 = BTC_LIGHT_CLIENT_DISCRIMINATOR
        then Inl AccountAlreadyInitialized
      else bindE (create_or_claim_pda E payer lc_k (rt_minimum_balance E LC_LEN) (of_nat LC_LEN) s) (\<lambda>s1.
           bindE (write_front lc_k (encode_light_client
             (genesis_client E payer (snd pda) network start_block_hash start_height initial_bits epoch_start)) s1) (\<lambda>s2.
      if (network = NETWORK_MAINNET \<or> network = NETWORK_TESTNET4) \<and> (initial_bits = 0 \<or> epoch_start = 0)
        then Inl InvalidInstructionData
      else write_genesis E accounts (genesis_header E start_block_hash 0 start_height params 0) s2)))"

definition reinit_client :: "env \<Rightarrow> u8 \<Rightarrow> hash32 \<Rightarrow> u64 \<Rightarrow> u32 \<Rightarrow> u32 \<Rightarrow> light_client \<Rightarrow> light_client" where
  "reinit_client E network start_block_hash start_height initial_bits epoch_start lc =
     lc\<lparr>lc_reinit_epoch := lc_reinit_epoch lc + 1, lc_network := network, lc_paused := 0,
        lc_genesis_hash := start_block_hash, lc_tip_hash := start_block_hash, lc_total_chainwork := 0,
        lc_tip_height := start_height, lc_finalized_height := genesis_finalized start_height,
        lc_header_count := 0, lc_expected_bits := initial_bits, lc_epoch_start_time := epoch_start,
        lc_last_update := clock_unix_timestamp E\<rparr>"

definition process_reinitialize :: "env \<Rightarrow> account_info list \<Rightarrow> bytes \<Rightarrow> store \<Rightarrow> store result" where
  "process_reinitialize E accounts d s =
     (if length d < 41 then Inl InvalidInstructionData
      else if length accounts < 5 then Inl NotEnoughAccountKeys
      else if \<not> is_signer (accounts ! 1) then Inl MissingRequiredSignature
      else let lc_k = key (accounts ! 0);
               start_height = from_le (bslice 0 8 d); start_block_hash = from_le (bslice 8 32 d);
               network = d ! 40; params = start_params d;
               initial_bits = fst params; epoch_start = fst (snd params);
               prev_block_hash = (if length d \<ge> 89 then from_le (bslice 57 32 d) else 0) in
      if owner (s lc_k) \<noteq> program_id E then Inl IllegalOwner
      else bindE (light_client_from_bytes (adata (s lc_k))) (\<lambda>lc.
      if lc_authority lc \<noteq> key (accounts ! 1) then Inl InvalidArgument
      else if \<not> network_allowed_in_build E network then Inl InvalidInstructionData
      else bindE (write_front lc_k (encode_light_client
             (reinit_client E network start_block_hash start_height initial_bits epoch_start lc)) s) (\<lambda>s1.
           write_genesis E accounts (genesis_header E start_block_hash prev_block_hash start_height params
             (lc_reinit_epoch lc + 1)) s1)))"

end
