(* ===== verification/LC_Finality.thy ===== *)
theory LC_Finality
  imports LC_Chain LC_Init
begin

text \<open>
  Properties of the whole instruction \<open>extend_blockchain\<close>: the consensus rules of every
  accepted header, the effect of a promotion on the light client and on the HeightIndex
  accounts, and what a batch may never touch.
\<close>

section \<open>Inversion of a successful submission\<close>

text \<open>The parsed inputs of an instruction: argument counts, parent header and light client.\<close>

definition extend_inputs :: "account_info list \<Rightarrow> bytes \<Rightarrow> store \<Rightarrow> nat \<Rightarrow> nat \<Rightarrow> block_header \<Rightarrow> light_client \<Rightarrow> bool" where
  "extend_inputs accounts d s n a parent lc \<longleftrightarrow>
     extend_args accounts d = Inr (n, a) \<and>
     block_header_from_bytes (adata (s (key (accounts ! 3)))) = Inr parent \<and>
     light_client_from_bytes (adata (s (key (accounts ! 0)))) = Inr lc"

lemma process_extend_inputs:
  assumes "process_extend_blockchain E accounts d s = Inr s'"
  shows "\<exists>n a parent lc. extend_inputs accounts d s n a parent lc"
proof -
  from assms obtain n a where args: "extend_args accounts d = Inr (n, a)"
    unfolding process_extend_blockchain_def by (auto simp: bindE_eq_Inr)
  with assms show ?thesis
    unfolding process_extend_blockchain_def extend_inputs_def
    by (auto simp: Let_def read_parent_def bindE_eq_Inr if_Inl_eq_Inr)
qed

lemma process_extend_inv:
  assumes "process_extend_blockchain E accounts d s = Inr s'"
    and "extend_inputs accounts d s n a parent lc"
  obtains window run s1 where
    "owner (s (key (accounts ! 0))) = program_id E"
    "owner (s (key (accounts ! 3))) = program_id E"
    "check_parent_epoch lc parent = Inr ()"
    "check_parent_canonical E s (accounts ! (4 + 2 * n + a)) parent = Inr ()"
    "key (accounts ! 3) = fst (find_program_address E [BLOCK_HEADER_SEED, bytes32 (bh_block_hash parent)])"
    "mtp_window E s lc parent (bslice (4 + 2 * n) a accounts) = Inr window"
    "extend_headers E (lc_network lc) (lc_reinit_epoch lc) (key (accounts ! 1))
       (zip (bslice 4 n accounts) (raw_headers d n)) (initial_run lc parent window) s = Inr (run, s1)"
    "finish_extend E (key (accounts ! 0)) (key (accounts ! 1)) (lc_total_chainwork lc) (bh_height parent)
       (zip (bslice (4 + n) n accounts) (raw_headers d n)) run s1 = Inr s'"
proof -
  note inp = assms(2) [unfolded extend_inputs_def]
  from assms(1) have
    "owner (s (key (accounts ! 0))) = program_id E"
    "owner (s (key (accounts ! 3))) = program_id E"
    "check_parent_epoch lc parent = Inr ()"
    "check_parent_canonical E s (accounts ! (4 + 2 * n + a)) parent = Inr ()"
    "key (accounts ! 3) = fst (find_program_address E [BLOCK_HEADER_SEED, bytes32 (bh_block_hash parent)])"
    "\<exists>window run s1. mtp_window E s lc parent (bslice (4 + 2 * n) a accounts) = Inr window \<and>
      extend_headers E (lc_network lc) (lc_reinit_epoch lc) (key (accounts ! 1))
       (zip (bslice 4 n accounts) (raw_headers d n)) (initial_run lc parent window) s = Inr (run, s1) \<and>
      finish_extend E (key (accounts ! 0)) (key (accounts ! 1)) (lc_total_chainwork lc) (bh_height parent)
       (zip (bslice (4 + n) n accounts) (raw_headers d n)) run s1 = Inr s'"
    using inp unfolding process_extend_blockchain_def read_parent_def Let_def
    by (auto simp: bindE_eq_Inr if_Inl_eq_Inr)
  then show thesis using that by blast
qed

lemma length_raw_headers [simp]: "length (raw_headers d n) = n"
  by (simp add: raw_headers_def)

lemma extend_args_bounds:
  assumes "extend_args accounts d = Inr (n, a)"
  shows "0 < n" "n \<le> 10" "a \<le> 10" "4 + 2 * n + a + 1 \<le> length accounts" "1 + n * 80 \<le> length d"
proof -
  have d0: "d \<noteq> []" "d ! 0 \<noteq> 0" "\<not> d ! 0 > MAX_BATCH_SIZE" and n: "n = unat (d ! 0)"
    and r: "a \<le> 10" "4 + 2 * n + a + 1 \<le> length accounts" "1 + n * 80 \<le> length d"
    using assms unfolding extend_args_def by (auto simp: Let_def split: if_splits)
  then show "a \<le> 10" "4 + 2 * n + a + 1 \<le> length accounts" "1 + n * 80 \<le> length d" by blast+
  show "0 < n" using d0(2) by (simp add: n unat_gt_0)
  have "d ! 0 \<le> 10" using d0(3) by (simp add: MAX_BATCH_SIZE_def)
  then show "n \<le> 10" by (simp add: n word_le_nat_alt)
qed

lemma zip_raws:
  assumes "extend_args accounts d = Inr (n, a)"
  shows "map snd (zip (bslice 4 n accounts) (raw_headers d n)) = raw_headers d n"
    and "map snd (zip (bslice (4 + n) n accounts) (raw_headers d n)) = raw_headers d n"
  using extend_args_bounds [OF assms] by simp_all

lemma initial_run_simps [simp]:
  "er_prev_hash (initial_run lc parent w) = bh_block_hash parent"
  "er_chainwork (initial_run lc parent w) = bh_chainwork parent"
  "er_height (initial_run lc parent w) = bh_height parent"
  "er_parent_timestamp (initial_run lc parent w) = bh_timestamp parent"
  "er_window (initial_run lc parent w) = w"
  by (simp_all add: initial_run_def)

lemma process_extend_batch_run:
  assumes "process_extend_blockchain E accounts d s = Inr s'"
    and "extend_inputs accounts d s n a parent lc"
  obtains w run where "mtp_window E s lc parent (bslice (4 + 2 * n) a accounts) = Inr w"
    and "batch_run E (lc_network lc) (raw_headers d n) (initial_run lc parent w) = Inr run"
proof -
  have args: "extend_args accounts d = Inr (n, a)" using assms(2) by (simp add: extend_inputs_def)
  obtain w run s1 where w: "mtp_window E s lc parent (bslice (4 + 2 * n) a accounts) = Inr w"
    and run: "extend_headers E (lc_network lc) (lc_reinit_epoch lc) (key (accounts ! 1))
       (zip (bslice 4 n accounts) (raw_headers d n)) (initial_run lc parent w) s = Inr (run, s1)"
    by (rule process_extend_inv [OF assms])
  from extend_headers_batch_run [OF run] show thesis
    unfolding zip_raws(1) [OF args] by (rule that [OF w])
qed

lemma mtp_window_bounds:
  assumes "mtp_window E s lc parent ancestors = Inr w" and "retargets (lc_network lc)"
    and "length ancestors \<le> 10"
  shows "w \<noteq> []" and "length w \<le> 11"
proof -
  have "length ts = length infos" if "walk_ancestors E s infos e l = Inr (ts, last)" for infos e l ts last
    using that by (induction infos arbitrary: e l ts) (auto simp: res_simps)
  then show "w \<noteq> []" "length w \<le> 11"
    using assms by (auto simp: mtp_window_def res_simps)
qed

lemma last_take_nth: "0 < i \<Longrightarrow> i \<le> length xs \<Longrightarrow> last (take i xs) = xs ! (i - 1)"
  by (subst last_conv_nth) auto

lemma last_state:
  assumes "i \<le> length xs"
  shows "last (z # map f (take i xs)) = (if i = 0 then z else f (xs ! (i - 1)))"
proof (cases "i = 0")
  case False
  then have "take i xs \<noteq> []" using assms by auto
  with False assms show ?thesis by (simp add: last_map last_take_nth)
qed simp

section \<open>The consensus rules\<close>

text \<open>
  C1. Every header of an accepted batch links to its predecessor, the first one to a parent
  that is stored at its own address and named canonical by the HeightIndex of its height;
  its double SHA-256 hash, as a 256-bit number, is at most the target its \<open>bits\<close> encode;
  and its timestamp is at most two hours ahead of the clock.
\<close>

theorem extend_batch_linked:
  assumes "process_extend_blockchain E accounts d s = Inr s'"
    and "extend_inputs accounts d s n a parent lc"
  shows "(\<forall>i < n. let raw = raw_headers d n ! i in
      raw_prev raw = (if i = 0 then bh_block_hash parent else double_sha256 E (raw_headers d n ! (i - 1))) \<and>
      unat (double_sha256 E raw) \<le> le_nat (target_from_bits (raw_bits raw)) \<and>
      int (unat (raw_time raw)) \<le> sint (clock_unix_timestamp E) + 7200)
    \<and> key (accounts ! 3) = fst (find_program_address E [BLOCK_HEADER_SEED, bytes32 (bh_block_hash parent)])
    \<and> (\<exists>hi. height_index_from_bytes (adata (s (fst (find_program_address E
          [HEIGHT_INDEX_SEED, bytes8 (bh_height parent)])))) = Inr hi \<and> hi_block_hash hi = bh_block_hash parent)"
proof (intro conjI allI impI)
  show "key (accounts ! 3) = fst (find_program_address E [BLOCK_HEADER_SEED, bytes32 (bh_block_hash parent)])"
    by (rule process_extend_inv [OF assms])
  have "check_parent_canonical E s (accounts ! (4 + 2 * n + a)) parent = Inr ()"
    by (rule process_extend_inv [OF assms])
  then show "\<exists>hi. height_index_from_bytes (adata (s (fst (find_program_address E
          [HEIGHT_INDEX_SEED, bytes8 (bh_height parent)])))) = Inr hi \<and> hi_block_hash hi = bh_block_hash parent"
    by (auto simp: check_parent_canonical_def res_simps)
  let ?raws = "raw_headers d n"
  obtain w run where run: "batch_run E (lc_network lc) ?raws (initial_run lc parent w) = Inr run"
    by (rule process_extend_batch_run [OF assms])
  fix i assume "i < n"
  then have "i < length ?raws" by simp
  from batch_run_nth [OF run this] obtain ri ri' where
      ri: "batch_run E (lc_network lc) (take i ?raws) (initial_run lc parent w) = Inr ri"
    and hc: "header_checks E (lc_network lc) (?raws ! i) ri = Inr ri'"
    by blast
  have "er_prev_hash ri = (if i = 0 then bh_block_hash parent else double_sha256 E (?raws ! (i - 1)))"
    using batch_run_state [OF ri] \<open>i < n\<close> by (simp only: last_state initial_run_simps length_raw_headers less_imp_le)
  then show "let raw = ?raws ! i in
      raw_prev raw = (if i = 0 then bh_block_hash parent else double_sha256 E (?raws ! (i - 1))) \<and>
      unat (double_sha256 E raw) \<le> le_nat (target_from_bits (raw_bits raw)) \<and>
      int (unat (raw_time raw)) \<le> sint (clock_unix_timestamp E) + 7200"
    using header_checks_ok [OF hc] by (simp add: Let_def)
qed


section \<open>Promotion and finality\<close>

text \<open>Total work and last hash of a batch on top of its parent.\<close>

definition candidate_work :: "block_header \<Rightarrow> bytes list \<Rightarrow> nat" where
  "candidate_work parent raws = (unat (bh_chainwork parent) + batch_work raws) mod 2 ^ 256"

lemma u256_gt_hash:
  "u256_gt_limbs (u256_from_le_bytes (bytes32 a)) (u256_from_le_bytes (bytes32 b)) \<longleftrightarrow> unat b < unat a"
  by (simp add: u256_gt_limbs_iff wval_u256_from_le_bytes)

text \<open>The light client after a promotion, and after a batch that is only counted.\<close>

lemma promote_fields:
  assumes "promote_light_client E n run lc = Inr lc'"
  shows "lc_discriminator lc' = lc_discriminator lc" "lc_tip_hash lc' = er_prev_hash run"
    "lc_tip_height lc' = er_height run" "lc_total_chainwork lc' = er_chainwork run"
    "lc_network lc' = lc_network lc" "lc_genesis_hash lc' = lc_genesis_hash lc"
    "lc_reinit_epoch lc' = lc_reinit_epoch lc"
    "unat (lc_finalized_height lc') = max (unat (lc_finalized_height lc)) (unat (er_height run) - 5)"
  using assms
  by (auto simp: promote_light_client_def Let_def res_simps REQUIRED_CONFIRMATIONS_def
      unat_saturating_sub word_less_nat_alt)

lemma count_fields:
  assumes "count_headers E n lc = Inr lc'"
  shows "lc_discriminator lc' = lc_discriminator lc" "lc_tip_hash lc' = lc_tip_hash lc"
    "lc_tip_height lc' = lc_tip_height lc" "lc_total_chainwork lc' = lc_total_chainwork lc"
    "lc_network lc' = lc_network lc" "lc_finalized_height lc' = lc_finalized_height lc"
  using assms by (auto simp: count_headers_def res_simps)

text \<open>The state of the loop at its end.\<close>

definition batch_end :: "env \<Rightarrow> block_header \<Rightarrow> bytes list \<Rightarrow> extend_run \<Rightarrow> bool" where
  "batch_end E parent raws run \<longleftrightarrow>
     er_prev_hash run = double_sha256 E (last raws) \<and>
     unat (er_height run) = unat (bh_height parent) + length raws \<and>
     unat (er_chainwork run) = candidate_work parent raws"

lemma batch_end_run:
  assumes "batch_run E network raws (initial_run lc parent w) = Inr run" and "raws \<noteq> []"
  shows "batch_end E parent raws run"
  using batch_run_state [OF assms(1)] assms(2) by (simp add: batch_end_def candidate_work_def last_map)

text \<open>
  The effect of the whole instruction on the store: typed writes of the headers, of the
  HeightIndex entries when the batch is promoted, and of the light client.
\<close>

lemma process_extend_effect:
  assumes spec: "system_program_spec E"
    and ok: "process_extend_blockchain E accounts d s = Inr s'"
    and inp: "extend_inputs accounts d s n a parent lc"
  defines "raws \<equiv> raw_headers d n" and "lck \<equiv> key (accounts ! 0)"
    and "items \<equiv> zip (bslice (4 + n) n accounts) (raw_headers d n)"
  obtains hws iws s1 s2 run lc' where
    "writes E hws s s1" "writes E iws s1 s2" "wrote E lck (encode_light_client lc') s2 s'"
    "\<forall>w \<in> set hws. header_write E w" "map fst hws = map (header_address E) raws"
    "\<forall>w \<in> set iws. index_write E (bh_height parent) w"
    "lck \<notin> fst ` set hws" "lck \<notin> fst ` set iws"
    "batch_end E parent raws run"
    "if unat (lc_total_chainwork lc) < candidate_work parent raws
     then iws = index_writes E (bh_height parent) 0 items \<and> lc_finalized_height lc \<le> bh_height parent \<and>
       reindex E (key (accounts ! 1)) (bh_height parent) 0 items s1 = Inr s2 \<and>
       promote_light_client E n run lc = Inr lc'
     else iws = [] \<and> count_headers E n lc = Inr lc'"
proof -
  have args: "extend_args accounts d = Inr (n, a)"
    and lc: "light_client_from_bytes (adata (s lck)) = Inr lc"
    using inp by (simp_all add: extend_inputs_def lck_def)
  note bounds = extend_args_bounds [OF args]
  obtain w run s1 where own: "owner (s lck) = program_id E"
    and eh: "extend_headers E (lc_network lc) (lc_reinit_epoch lc) (key (accounts ! 1))
       (zip (bslice 4 n accounts) raws) (initial_run lc parent w) s = Inr (run, s1)"
    and fin: "finish_extend E lck (key (accounts ! 1)) (lc_total_chainwork lc) (bh_height parent) items run s1 = Inr s'"
    unfolding raws_def lck_def items_def by (rule process_extend_inv [OF ok inp])
  have len: "length items = n" "raws \<noteq> []" "map snd (zip (bslice 4 n accounts) raws) = raws"
    using bounds zip_raws(1) [OF args] by (auto simp: items_def raws_def simp flip: length_greater_0_conv)
  have br: "batch_end E parent raws run"
    using batch_end_run [OF extend_headers_batch_run [OF eh, unfolded len(3)] len(2)] .
  define hws where "hws = header_writes E (lc_network lc) (lc_reinit_epoch lc) (zip (bslice 4 n accounts) raws) (initial_run lc parent w)"
  have hw: "writes E hws s s1" "\<forall>w \<in> set hws. header_write E w"
    and hk': "map fst hws = map (header_address E) raws"
    using extend_headers_writes [OF spec eh, unfolded len(3)] by (simp_all add: hws_def)
  have own1: "owner (s1 lck) = program_id E" by (rule writes_owner [OF hw(1) own])
  have gt: "u256_gt_limbs (u256_from_le_bytes (bytes32 (er_chainwork run)))
      (u256_from_le_bytes (bytes32 (lc_total_chainwork lc))) \<longleftrightarrow>
      unat (lc_total_chainwork lc) < candidate_work parent raws"
    using br by (simp add: u256_gt_hash batch_end_def)
  have keep: "lck \<notin> fst ` set hws \<and> l = lc" if "light_client_from_bytes (adata (s1 lck)) = Inr l" for l
  proof -
    have "\<forall>w \<in> set hws. header_write E w \<or> index_write E 0 w" using hw(2) by blast
    from writes_keep_client [OF hw(1) this that] lc that show ?thesis by simp
  qed
  show thesis
  proof (cases "unat (lc_total_chainwork lc) < candidate_work parent raws")
    case True
    with fin gt obtain l s2 l2 lc' where l: "light_client_from_bytes (adata (s1 lck)) = Inr l"
      and gate: "\<not> bh_height parent < lc_finalized_height l"
      and re: "reindex E (key (accounts ! 1)) (bh_height parent) 0 items s1 = Inr s2"
      and l2: "light_client_from_bytes (adata (s2 lck)) = Inr l2"
      and pr: "promote_light_client E n run l2 = Inr lc'"
      and wr: "write_front lck (encode_light_client lc') s2 = Inr s'"
      by (auto simp: finish_extend_def bindE_eq_Inr if_Inl_eq_Inr len)
    let ?iws = "index_writes E (bh_height parent) 0 items"
    have iw: "writes E ?iws s1 s2" "\<forall>w \<in> set ?iws. index_write E (bh_height parent) w"
      using reindex_writes [OF spec re] by simp_all
    have "\<forall>w \<in> set ?iws. header_write E w \<or> index_write E (bh_height parent) w" using iw(2) by blast
    note k2 = writes_keep_client [OF iw(1) this l2]
    have "l2 = lc" using k2(2) l2 keep l by simp
    have "wrote E lck (encode_light_client lc') s2 s'"
      by (rule wrote_front [OF writes_owner [OF iw(1) own1] wr])
    then show thesis
      using True gate pr re keep [OF l] k2(1) \<open>l2 = lc\<close>
      by (intro that [OF hw(1) iw(1) _ hw(2) hk' iw(2) _ _ br]) auto
  next
    case False
    with fin gt obtain l lc' where l: "light_client_from_bytes (adata (s1 lck)) = Inr l"
      and pr: "count_headers E n l = Inr lc'" and wr: "write_front lck (encode_light_client lc') s1 = Inr s'"
      by (auto simp: finish_extend_def bindE_eq_Inr len)
    then show thesis
      using False keep [OF l] wrote_front [OF own1 wr]
      by (intro that [OF hw(1) writes_Nil _ hw(2) hk' _ _ _ br]) auto
  qed
qed

lemma promotion_facts:
  assumes "system_program_spec E" and "process_extend_blockchain E accounts d s = Inr s'"
    and "extend_inputs accounts d s n a parent lc"
  defines "raws \<equiv> raw_headers d n"
  assumes "unat (lc_total_chainwork lc) < candidate_work parent raws"
  shows "lc_finalized_height lc \<le> bh_height parent \<and>
    (\<exists>lc'. light_client_from_bytes (adata (s' (key (accounts ! 0)))) = Inr lc'
      \<and> lc_tip_hash lc' = double_sha256 E (last raws)
      \<and> unat (lc_tip_height lc') = unat (bh_height parent) + n
      \<and> unat (lc_total_chainwork lc') = candidate_work parent raws
      \<and> unat (lc_finalized_height lc') = max (unat (lc_finalized_height lc)) (unat (lc_tip_height lc') - 5)
      \<and> lc_network lc' = lc_network lc \<and> lc_genesis_hash lc' = lc_genesis_hash lc
      \<and> lc_reinit_epoch lc' = lc_reinit_epoch lc) \<and>
    (\<forall>i < n. let h = bh_height parent + 1 + of_nat i; k = index_address E h in
       (\<forall>j. i < j \<longrightarrow> j < n \<longrightarrow> index_address E (bh_height parent + 1 + of_nat j) \<noteq> k) \<longrightarrow>
       height_index_from_bytes (adata (s' k)) = Inr (canonical_entry E h (double_sha256 E (raws ! i))))"
proof -
  let ?lck = "key (accounts ! 0)" and ?items = "zip (bslice (4 + n) n accounts) raws"
  have args: "extend_args accounts d = Inr (n, a)"
    and lc: "light_client_from_bytes (adata (s ?lck)) = Inr lc"
    using assms(3) by (simp_all add: extend_inputs_def)
  have len: "length ?items = n" "length raws = n"
    using extend_args_bounds [OF args] by (simp_all add: raws_def)
  have lcd: "lc_discriminator lc = BTC_LIGHT_CLIENT_DISCRIMINATOR"
    using lc lcl.from_bytes_iff by (simp add: light_client_from_bytes_def)
  obtain s1 s2 run lc' where
      w3: "wrote E ?lck (encode_light_client lc') s2 s'"
    and nl: "?lck \<notin> fst ` set (index_writes E (bh_height parent) 0 ?items)"
    and br: "batch_end E parent raws run"
    and gate: "lc_finalized_height lc \<le> bh_height parent" and pr: "promote_light_client E n run lc = Inr lc'"
    and re: "reindex E (key (accounts ! 1)) (bh_height parent) 0 ?items s1 = Inr s2"
    by (rule process_extend_effect [OF assms(1-3)]) (use assms(5) in \<open>auto simp: raws_def\<close>)
  note rw = reindex_writes [OF assms(1) re]
  note pf = promote_fields [OF pr]
  have rd: "light_client_from_bytes (adata (s' ?lck)) = Inr lc'"
    using wroteD(3) [OF w3] pf(1) lcd by auto
  have fields: "lc_tip_hash lc' = double_sha256 E (last raws)"
    "unat (lc_tip_height lc') = unat (bh_height parent) + n"
    "unat (lc_total_chainwork lc') = candidate_work parent raws"
    "unat (lc_finalized_height lc') = max (unat (lc_finalized_height lc)) (unat (lc_tip_height lc') - 5)"
    using br len pf by (simp_all add: batch_end_def)
  have idx: "height_index_from_bytes (adata (s' (index_address E (bh_height parent + 1 + of_nat i)))) =
      Inr (canonical_entry E (bh_height parent + 1 + of_nat i) (double_sha256 E (raws ! i)))"
    if "i < n" and later: "\<forall>j. i < j \<longrightarrow> j < n \<longrightarrow>
      index_address E (bh_height parent + 1 + of_nat j) \<noteq> index_address E (bh_height parent + 1 + of_nat i)" for i
  proof -
    let ?iws = "index_writes E (bh_height parent) 0 ?items" and ?h = "\<lambda>j. bh_height parent + 1 + of_nat j"
    let ?new = "encode_height_index (canonical_entry E (?h i) (double_sha256 E (raws ! i)))"
    have nth: "?iws ! j = (index_address E (?h j), encode_height_index (canonical_entry E (?h j) (double_sha256 E (raws ! j))))"
      if "j < n" for j
    proof -
      have "j < length ?items" "snd (?items ! j) = raws ! j" using that len by simp_all
      with rw show ?thesis by simp
    qed
    have "map_of (rev ?iws) (index_address E (?h i)) = Some ?new"
      using map_of_rev_last [of i ?iws] later that(1) len by (simp add: nth)
    from writes_last [OF conjunct1 [OF rw] this]
    obtain rest where rest: "adata (s2 (index_address E (?h i))) = ?new @ rest" by blast
    have "index_address E (?h i) \<in> fst ` set ?iws"
      using nth [OF that(1)] that(1) len by (metis fst_conv image_eqI index_writes_length nth_mem)
    then have "index_address E (?h i) \<noteq> ?lck" using nl by metis
    then have "adata (s' (index_address E (?h i))) = ?new @ rest"
      using frameD [OF wroteD(1) [OF w3]] rest by simp
    then show ?thesis by simp
  qed
  show ?thesis using gate rd fields pf(5-7) idx by (auto simp: Let_def)
qed

text \<open>
  C3. A batch is promoted exactly when it carries strictly more work than the tip; it then
  forks off at or above the finalised height, the light client points to its last header
  with that header's height and work, and the finalised height becomes five below the new
  tip if that is higher, so that it never decreases. Every height of the batch is indexed to
  its own header (an entry survives unless a later height of the batch has the same address).
\<close>

theorem extend_promotion:
  assumes "system_program_spec E" and "process_extend_blockchain E accounts d s = Inr s'"
    and "extend_inputs accounts d s n a parent lc"
  defines "raws \<equiv> raw_headers d n"
  assumes "unat (lc_total_chainwork lc) < candidate_work parent raws"
  shows "lc_finalized_height lc \<le> bh_height parent \<and>
    (\<exists>lc'. light_client_from_bytes (adata (s' (key (accounts ! 0)))) = Inr lc'
      \<and> lc_tip_hash lc' = double_sha256 E (last raws)
      \<and> unat (lc_tip_height lc') = unat (bh_height parent) + n
      \<and> unat (lc_total_chainwork lc') = candidate_work parent raws
      \<and> unat (lc_finalized_height lc') = max (unat (lc_finalized_height lc)) (unat (lc_tip_height lc') - 5)
      \<and> lc_network lc' = lc_network lc \<and> lc_genesis_hash lc' = lc_genesis_hash lc
      \<and> lc_reinit_epoch lc' = lc_reinit_epoch lc) \<and>
    (\<forall>i < n. let h = bh_height parent + 1 + of_nat i; k = index_address E h in
       (\<forall>j. i < j \<longrightarrow> j < n \<longrightarrow> index_address E (bh_height parent + 1 + of_nat j) \<noteq> k) \<longrightarrow>
       height_index_from_bytes (adata (s' k)) = Inr (canonical_entry E h (double_sha256 E (raws ! i))))"
  using assms(5) unfolding raws_def by (rule promotion_facts [OF assms(1-3)])

lemma keeps_finalized_facts:
  assumes "system_program_spec E" and "process_extend_blockchain E accounts d s = Inr s'"
    and "extend_inputs accounts d s n a parent lc"
  defines "raws \<equiv> raw_headers d n" and "lck \<equiv> key (accounts ! 0)"
  shows "frame ({lck} \<union> header_address E ` set raws \<union> index_address E ` {h. lc_finalized_height lc < h}) s s' \<and>
    (\<not> unat (lc_total_chainwork lc) < candidate_work parent raws \<longrightarrow>
      frame ({lck} \<union> header_address E ` set raws) s s' \<and>
      (\<exists>lc'. light_client_from_bytes (adata (s' lck)) = Inr lc' \<and>
        lc_tip_hash lc' = lc_tip_hash lc \<and> lc_tip_height lc' = lc_tip_height lc \<and>
        lc_total_chainwork lc' = lc_total_chainwork lc \<and> lc_finalized_height lc' = lc_finalized_height lc))"
proof -
  have lc: "light_client_from_bytes (adata (s lck)) = Inr lc"
    using assms(3) by (simp add: extend_inputs_def lck_def)
  have lcd: "lc_discriminator lc = BTC_LIGHT_CLIENT_DISCRIMINATOR"
    using lc lcl.from_bytes_iff by (simp add: light_client_from_bytes_def)
  obtain hws iws s1 s2 run lc' where w: "writes E hws s s1" "writes E iws s1 s2"
      "wrote E lck (encode_light_client lc') s2 s'"
    and hk: "map fst hws = map (header_address E) raws"
    and iw: "\<forall>w \<in> set iws. index_write E (bh_height parent) w"
    and fin: "if unat (lc_total_chainwork lc) < candidate_work parent raws
      then iws = index_writes E (bh_height parent) 0 (zip (bslice (4 + n) n accounts) raws) \<and>
       lc_finalized_height lc \<le> bh_height parent \<and>
       reindex E (key (accounts ! 1)) (bh_height parent) 0 (zip (bslice (4 + n) n accounts) raws) s1 = Inr s2 \<and>
       promote_light_client E n run lc = Inr lc'
      else iws = [] \<and> count_headers E n lc = Inr lc'"
    unfolding raws_def lck_def by (rule process_extend_effect [OF assms(1-3)])
  have fr: "frame (fst ` set hws \<union> fst ` set iws \<union> {lck}) s s'"
    by (rule frame_trans [OF frame_trans [OF writes_frame [OF w(1)] writes_frame [OF w(2)]] wroteD(1) [OF w(3)]])
  have h: "fst ` set hws = header_address E ` set raws"
    using arg_cong [OF hk, of set] by simp
  have i: "fst ` set iws \<subseteq> index_address E ` {h. lc_finalized_height lc < h}"
    using iw fin by (auto simp: index_write_def split: if_splits)
  have "frame ({lck} \<union> header_address E ` set raws \<union> index_address E ` {h. lc_finalized_height lc < h}) s s'"
    by (rule frame_mono [OF fr]) (use h i in auto)
  moreover have "frame ({lck} \<union> header_address E ` set raws) s s' \<and>
      (\<exists>lc'. light_client_from_bytes (adata (s' lck)) = Inr lc' \<and>
        lc_tip_hash lc' = lc_tip_hash lc \<and> lc_tip_height lc' = lc_tip_height lc \<and>
        lc_total_chainwork lc' = lc_total_chainwork lc \<and> lc_finalized_height lc' = lc_finalized_height lc)"
    if "\<not> unat (lc_total_chainwork lc) < candidate_work parent raws"
  proof -
    from fin that have "iws = []" and c: "count_headers E n lc = Inr lc'" by simp_all
    with fr h have "frame ({lck} \<union> header_address E ` set raws) s s'" by (simp add: Un_commute)
    moreover have "light_client_from_bytes (adata (s' lck)) = Inr lc'"
      using wroteD(3) [OF w(3)] lcd count_fields(1) [OF c] by auto
    ultimately show ?thesis using count_fields [OF c] by auto
  qed
  ultimately show ?thesis by blast
qed

text \<open>
  C4. What a submission can never touch: besides the light client, an accepted batch changes
  only the accounts of its own headers and, when it is promoted, HeightIndex entries of
  heights above the finalised height. A batch that is not promoted leaves every HeightIndex
  entry, the tip, its work and the finalised height as they were.
\<close>

theorem extend_keeps_finalized:
  assumes "system_program_spec E" and "process_extend_blockchain E accounts d s = Inr s'"
    and "extend_inputs accounts d s n a parent lc"
  defines "raws \<equiv> raw_headers d n" and "lck \<equiv> key (accounts ! 0)"
  shows "frame ({lck} \<union> header_address E ` set raws \<union> index_address E ` {h. lc_finalized_height lc < h}) s s' \<and>
    (\<not> unat (lc_total_chainwork lc) < candidate_work parent raws \<longrightarrow>
      frame ({lck} \<union> header_address E ` set raws) s s' \<and>
      (\<exists>lc'. light_client_from_bytes (adata (s' lck)) = Inr lc' \<and>
        lc_tip_hash lc' = lc_tip_hash lc \<and> lc_tip_height lc' = lc_tip_height lc \<and>
        lc_total_chainwork lc' = lc_total_chainwork lc \<and> lc_finalized_height lc' = lc_finalized_height lc))"
  unfolding raws_def lck_def by (rule keeps_finalized_facts [OF assms(1-3)])

section \<open>A concrete submission\<close>

text \<open>A Testnet4 client whose start block, at height 1, is also its tip, and one new header.\<close>

definition demo_tip :: light_client where
  "demo_tip = genesis_client demo_env 51 255 NETWORK_TESTNET4 3 1 MAX_TARGET_BITS 100"

definition demo_parent :: block_header where
  "demo_parent = genesis_header demo_env 3 0 1 (MAX_TARGET_BITS, 100, 500, MAX_TARGET_BITS) 0"

definition demo_chain :: store where
  "demo_chain = (\<lambda>_. empty_account)
     (51 := \<lparr>lamports = 997, owner = 0, adata = []\<rparr>,
      16 := prog_account (encode_light_client demo_tip),
      773 := prog_account (encode_block_header demo_parent),
      268 := prog_account (encode_height_index (demo_hi 3 1)))"

lemma demo_tip_simps:
  "lc_network demo_tip = NETWORK_TESTNET4" "lc_reinit_epoch demo_tip = 0" "lc_genesis_hash demo_tip = 3"
  "lc_total_chainwork demo_tip = 0" "lc_finalized_height demo_tip = 0" "lc_header_count demo_tip = 0"
  "lc_discriminator demo_tip = BTC_LIGHT_CLIENT_DISCRIMINATOR"
  by (simp_all add: demo_tip_def genesis_client_def genesis_finalized_def saturating_sub_def
      REQUIRED_CONFIRMATIONS_def word_le_nat_alt)

lemma demo_parent_simps:
  "bh_block_hash demo_parent = 3" "bh_timestamp demo_parent = 500" "bh_height demo_parent = 1"
  "bh_reinit_epoch demo_parent = 0" "bh_discriminator demo_parent = BLOCK_HEADER_DISCRIMINATOR"
  "bh_epoch_bits demo_parent = MAX_TARGET_BITS" "bh_epoch_start_time demo_parent = 100" "bh_chainwork demo_parent = 0"
  by (simp_all add: demo_parent_def genesis_header_def)

definition demo_raw :: bytes where
  "demo_raw = bytes4 4 @ bytes32 3 @ bytes32 9 @ bytes4 600 @ bytes4 MAX_TARGET_BITS @ bytes4 0"

definition demo_extend_data :: bytes where
  "demo_extend_data = byte1 1 @ demo_raw"

definition demo_extend_accounts :: "account_info list" where
  "demo_extend_accounts = map demo_meta [16, 51, 0, 773, 1029, 524, 268]"

lemma demo_raw_fields:
  "length demo_raw = 80" "raw_prev demo_raw = 3" "raw_time demo_raw = 600" "raw_bits demo_raw = MAX_TARGET_BITS"
  "double_sha256 demo_env demo_raw = 4"
  by (simp_all add: demo_raw_def slice_simps demo_double_sha256 from_le_le_bytes_ucast)

lemma demo_chain_lookup:
  "demo_chain 16 = prog_account (encode_light_client demo_tip)"
  "demo_chain 773 = prog_account (encode_block_header demo_parent)"
  "demo_chain 268 = prog_account (encode_height_index (demo_hi 3 1))"
  "demo_chain 51 = \<lparr>lamports = 997, owner = 0, adata = []\<rparr>"
  "demo_chain 1029 = empty_account" "demo_chain 524 = empty_account"
  by (simp_all add: demo_chain_def)

lemma demo_extend_inputs: "extend_inputs demo_extend_accounts demo_extend_data demo_chain 1 0 demo_parent demo_tip"
proof -
  have "demo_extend_data ! 0 = 1" by (simp add: demo_extend_data_def byte1_def)
  moreover have "length demo_extend_data = 81" by (simp add: demo_extend_data_def demo_raw_fields)
  ultimately have "extend_args demo_extend_accounts demo_extend_data = Inr (1, 0)"
    by (auto simp: extend_args_def demo_extend_accounts_def MAX_BATCH_SIZE_def Let_def)
  then show ?thesis
    by (simp add: extend_inputs_def demo_extend_accounts_def demo_chain_lookup demo_parent_simps demo_tip_simps)
qed

lemma demo_raw_headers: "raw_headers demo_extend_data 1 = [demo_raw]"
  by (simp add: raw_headers_def demo_extend_data_def slice_simps demo_raw_fields)

definition demo_run :: extend_run where
  "demo_run = \<lparr>er_prev_hash = 4,
     er_chainwork = from_le (add_chainwork (bytes32 0) (calculate_chainwork MAX_TARGET_BITS)),
     er_height = 2, er_expected_bits = MAX_TARGET_BITS, er_epoch_start = 100,
     er_parent_timestamp = 600, er_window = [500, 600]\<rparr>"

lemma demo_work: "unat (er_chainwork demo_run) = 2 ^ 256 div (0xffff * 256 ^ 26 + 1)"
  by (simp add: demo_run_def unat_from_le le_nat_add_chainwork le_nat_calculate_chainwork max_target_value)

lemma demo_header_checks:
  "header_checks demo_env NETWORK_TESTNET4 demo_raw (initial_run demo_tip demo_parent [500]) = Inr demo_run"
proof -
  have "hash_meets_target (bytes32 4) (target_from_bits MAX_TARGET_BITS)"
    by (simp add: hash_meets_target_le max_target_value)
  moreover have "check_future demo_env 600 = Inr ()" by (simp add: check_future_def)
  moreover have "check_mtp NETWORK_TESTNET4 [500] 600 = Inr [500, 600]"
    by (simp add: check_mtp_def median_timestamp_is_median retargets_def)
  moreover have "check_difficulty NETWORK_TESTNET4 2 600 MAX_TARGET_BITS (initial_run demo_tip demo_parent [500]) = Inr ()"
    by (simp add: check_difficulty_def initial_run_def demo_parent_simps
        required_bits_for_next_block_def MAX_TARGET_BITS_def BLOCKS_PER_EPOCH_def)
  ultimately show ?thesis
    by (simp add: header_checks_def demo_raw_fields checked_add_def demo_run_def initial_run_def
        demo_parent_simps Let_def BLOCKS_PER_EPOCH_def MAX_TARGET_BITS_def)
qed

text \<open>Creating an account at an empty address from the payer 51, then writing it.\<close>

lemma demo_create_write:
  assumes "s k = empty_account" and "k \<noteq> 51" and "lamports (s 51) \<noteq> 0" and "length new = n" and "n < 4294967296"
  shows "bindE (create_or_claim_pda demo_env 51 k 1 (of_nat n) s) (write_front k new) =
    Inr (s(51 := (s 51)\<lparr>lamports := lamports (s 51) - 1\<rparr>, k := \<lparr>lamports = 1, owner = 1, adata = new\<rparr>))"
proof -
  have "unat (of_nat n :: u64) = n"
    using assms(5) by (simp add: unat_of_nat)
  then show ?thesis
    using assms by (simp add: create_or_claim_pda_def demo_create_account_def empty_account_def write_front_def
        put_front_def set_data_def fun_eq_iff)
qed

lemma demo_extend_runs:
  "\<exists>s'. process_extend_blockchain demo_env demo_extend_accounts demo_extend_data demo_chain = Inr s'"
proof -
  let ?s = demo_chain and ?hdr = "header_record demo_env 0 demo_raw demo_run"
  let ?s1 = "?s(51 := (?s 51)\<lparr>lamports := lamports (?s 51) - 1\<rparr>,
               1029 := \<lparr>lamports = 1, owner = 1, adata = encode_block_header ?hdr\<rparr>)"
  have rt: "retargets NETWORK_TESTNET4" by (simp add: retargets_def)
  note net = demo_tip_simps and par = demo_parent_simps
  have emp: "adata empty_account = []" by (simp add: empty_account_def)
  have un: "\<not> layout_initialized n D []" for n D by (simp add: layout_initialized_def)
  have sh: "store_header demo_env 51 (demo_meta 1029) ?hdr ?s = Inr ?s1"
    using demo_create_write [of ?s 1029 "encode_block_header ?hdr" BH_LEN]
    by (simp add: store_header_def demo_chain_lookup emp un demo_keys bhl.length_encode BH_LEN_def demo_run_def)
  obtain s2 where ix: "index_height demo_env 51 (demo_meta 524) 2 4 ?s1 = Inr s2" "s2 16 = ?s 16"
    using demo_create_write [of ?s1 524 _ HI_LEN]
    by (simp add: index_height_def demo_chain_lookup emp un demo_keys hil.length_encode HI_LEN_def Let_def)
  have fin: "\<exists>s'. finish_extend demo_env 16 51 0 1 [(demo_meta 524, demo_raw)] demo_run ?s1 = Inr s'"
    using ix by (simp add: finish_extend_def u256_gt_hash demo_work demo_chain_lookup net
        demo_raw_fields checked_add_def promote_light_client_def Let_def write_front_def put_front_def
        lcl.length_encode)
  have d5: "from_le (take 32 (drop 5 demo_extend_data)) = (3 :: hash32)"
    by (simp add: demo_extend_data_def demo_raw_def)
  show ?thesis
    using demo_extend_inputs fin sh demo_header_checks
    by (simp add: d5 demo_raw_headers [simplified] extend_inputs_def process_extend_blockchain_def read_parent_def check_parent_epoch_def
        check_parent_canonical_def mtp_window_def demo_raw_headers net par rt demo_chain_lookup demo_keys
        demo_extend_accounts_def Let_def demo_hi_def bslice_def)
qed

text \<open>The concrete submission is accepted with 1 header, on a client with less work.\<close>

lemma demo_candidate:
  "candidate_work demo_parent (raw_headers demo_extend_data 1) = 2 ^ 256 div (0xffff * 256 ^ 26 + 1)"
  by (simp add: candidate_work_def batch_work_def demo_raw_headers [simplified] demo_raw_fields demo_parent_simps le_nat_calculate_chainwork max_target_value)

theorem extend_batch_linked_witness:
  "\<exists>s'. process_extend_blockchain demo_env demo_extend_accounts demo_extend_data demo_chain = Inr s' \<and>
     raw_prev demo_raw = 3 \<and> unat (double_sha256 demo_env demo_raw) \<le> 0xffff * 256 ^ 26"
proof -
  obtain s' where run: "process_extend_blockchain demo_env demo_extend_accounts demo_extend_data demo_chain = Inr s'"
    using demo_extend_runs by blast
  from extend_batch_linked [OF run demo_extend_inputs]
  have "raw_prev demo_raw = bh_block_hash demo_parent \<and>
      unat (double_sha256 demo_env demo_raw) \<le> le_nat (target_from_bits (raw_bits demo_raw))"
    unfolding demo_raw_headers by (simp add: Let_def)
  with run show ?thesis
    by (auto simp: demo_raw_fields max_target_value demo_parent_simps)
qed


theorem extend_promotion_witness:
  "\<exists>s' lc'. process_extend_blockchain demo_env demo_extend_accounts demo_extend_data demo_chain = Inr s' \<and>
     light_client_from_bytes (adata (s' 16)) = Inr lc' \<and> lc_tip_hash lc' = 4 \<and> unat (lc_tip_height lc') = 2"
proof -
  obtain s' where run: "process_extend_blockchain demo_env demo_extend_accounts demo_extend_data demo_chain = Inr s'"
    using demo_extend_runs by blast
  have more: "unat (lc_total_chainwork demo_tip) < candidate_work demo_parent (raw_headers demo_extend_data 1)"
    unfolding demo_candidate by (simp add: demo_tip_simps)
  from extend_promotion [OF demo_system_program run demo_extend_inputs more] run show ?thesis
    unfolding demo_raw_headers
    by (auto simp: demo_raw_fields demo_extend_accounts_def demo_parent_simps)
qed

theorem extend_keeps_finalized_witness:
  "\<exists>s'. process_extend_blockchain demo_env demo_extend_accounts demo_extend_data demo_chain = Inr s' \<and>
     adata (s' 773) = encode_block_header demo_parent"
proof -
  obtain s' where run: "process_extend_blockchain demo_env demo_extend_accounts demo_extend_data demo_chain = Inr s'"
    using demo_extend_runs by blast
  have "(773 :: pubkey) \<notin> {16} \<union> {1029} \<union> index_address demo_env ` {h. lc_finalized_height demo_tip < h}"
  proof -
    have "(773 :: pubkey) \<noteq> 12 + 256 * ucast (h :: u64)" for h
    proof
      assume "(773 :: pubkey) = 12 + 256 * ucast h"
      then have "(761 :: pubkey) = 256 * ucast h" by (simp add: algebra_simps)
      then have "(761 :: pubkey) AND 1 = (256 * ucast h) AND 1" by simp
      then show False by (simp add: and_one_eq mod_2_eq_odd)
    qed
    then show ?thesis by (auto simp: index_address_def demo_keys)
  qed
  moreover have "header_address demo_env ` set (raw_headers demo_extend_data 1) = {1029}"
    by (simp add: demo_raw_headers [simplified] header_address_def demo_raw_fields demo_keys)
  moreover have "key (demo_extend_accounts ! 0) = 16" by (simp add: demo_extend_accounts_def)
  ultimately have "adata (s' 773) = adata (demo_chain 773)"
    using frameD [OF conjunct1 [OF extend_keeps_finalized [OF demo_system_program run demo_extend_inputs]], of 773]
    by simp
  with run show ?thesis by (auto simp: demo_chain_lookup)
qed

end
