(* ===== verification/LC_Program.thy ===== *)
theory LC_Program
  imports LC_Finality
begin

text \<open>
  The dispatcher of \<open>lib.rs\<close>, and the light client as a state machine: the stores
  reachable from a fresh deployment by any sequence of instructions, at any times, mixed with
  whatever other programs may do. The invariant of the machine is stated in terms of typed
  accounts and needs no assumption on address derivation: an account that was overwritten
  with another type is told apart by its discriminator.
\<close>

section \<open>The dispatcher\<close>

definition process_instruction :: "env \<Rightarrow> account_info list \<Rightarrow> bytes \<Rightarrow> store \<Rightarrow> store result" where
  "process_instruction E accounts d s =
     (if d = [] then Inl InvalidInstructionData
      else if d ! 0 = 0 then process_initialize E accounts (tl d) s
      else if d ! 0 = 1 then process_extend_blockchain E accounts (tl d) s
      else if d ! 0 = 2 then process_verify_transaction E accounts (tl d) s
      else if d ! 0 = 3 then process_prune_obsolete_blocks E accounts (tl d) s
      else if d ! 0 = 4 \<and> \<not> mainnet_build E then process_reinitialize E accounts (tl d) s
      else Inl InvalidInstructionData)"

section \<open>The state machine\<close>

text \<open>What the runtime allows other programs: accounts of this program keep owner and data, and an
  account that comes under its ownership has zeroed data.\<close>

definition foreign_step :: "env \<Rightarrow> store \<Rightarrow> store \<Rightarrow> bool" where
  "foreign_step E s s' \<longleftrightarrow>
     (\<forall>k. (owner (s k) = program_id E \<longrightarrow> owner (s' k) = program_id E \<and> adata (s' k) = adata (s k)) \<and>
          (owner (s k) \<noteq> program_id E \<longrightarrow> owner (s' k) = program_id E \<longrightarrow> (\<forall>b \<in> set (adata (s' k)). b = 0)))"

inductive lc_reachable :: "env \<Rightarrow> store \<Rightarrow> bool" for E where
  fresh: "(\<And>k. owner (s k) \<noteq> program_id E) \<Longrightarrow> lc_reachable E s"
| instr: "lc_reachable E s \<Longrightarrow>
    process_instruction (E\<lparr>clock_unix_timestamp := t, clock_slot := slot\<rparr>) accounts d s = Inr s' \<Longrightarrow> lc_reachable E s'"
| foreign: "lc_reachable E s \<Longrightarrow> foreign_step E s s' \<Longrightarrow> lc_reachable E s'"

section \<open>Typed accounts\<close>

definition client_address :: "env \<Rightarrow> pubkey" where
  "client_address E = fst (find_program_address E [LIGHT_CLIENT_SEED])"

definition block_address :: "env \<Rightarrow> hash32 \<Rightarrow> pubkey" where
  "block_address E h = fst (find_program_address E [BLOCK_HEADER_SEED, bytes32 h])"

definition proof_address :: "env \<Rightarrow> hash32 \<Rightarrow> hash32 \<Rightarrow> pubkey" where
  "proof_address E b t = fst (find_program_address E [VERIFIED_TX_SEED, bytes32 b, bytes32 t])"

text \<open>What the bytes of a program-owned account may be, by the type they carry.\<close>

definition client_ok :: "env \<Rightarrow> light_client \<Rightarrow> bool" where
  "client_ok E lc \<longleftrightarrow> lc_finalized_height lc \<le> lc_tip_height lc \<and> network_allowed_in_build E (lc_network lc)"

definition typed_account :: "env \<Rightarrow> pubkey \<Rightarrow> bytes \<Rightarrow> bool" where
  "typed_account E k d \<longleftrightarrow>
     (\<forall>lc. light_client_from_bytes d = Inr lc \<longrightarrow> k = client_address E \<and> client_ok E lc) \<and>
     (\<forall>h. block_header_from_bytes d = Inr h \<longrightarrow> k = block_address E (bh_block_hash h)) \<and>
     (\<forall>i. height_index_from_bytes d = Inr i \<longrightarrow> k = index_address E (hi_height i)) \<and>
     (\<forall>v. verified_tx_from_bytes d = Inr v \<longrightarrow> k = proof_address E (vt_block_hash v) (vt_txid v))"

definition well_typed :: "env \<Rightarrow> store \<Rightarrow> bool" where
  "well_typed E s \<longleftrightarrow> (\<forall>k. owner (s k) = program_id E \<longrightarrow> typed_account E k (adata (s k)))"

text \<open>The index entry at the tip's height, if it is one, names the tip.\<close>

definition tip_indexed :: "env \<Rightarrow> store \<Rightarrow> bool" where
  "tip_indexed E s \<longleftrightarrow> (\<forall>lc hi.
     owner (s (client_address E)) = program_id E \<longrightarrow>
     light_client_from_bytes (adata (s (client_address E))) = Inr lc \<longrightarrow>
     owner (s (index_address E (lc_tip_height lc))) = program_id E \<longrightarrow>
     height_index_from_bytes (adata (s (index_address E (lc_tip_height lc)))) = Inr hi \<longrightarrow>
     hi_block_hash hi = lc_tip_hash lc)"

lemma layout_zero: "\<forall>b \<in> set d. b = 0 \<Longrightarrow> 0 < n \<Longrightarrow> D \<noteq> 0 \<Longrightarrow> layout_from_bytes n D f d \<noteq> Inr x"
  by (cases d) (auto simp: layout_from_bytes_def)

lemma zero_from_bytes:
  assumes "\<forall>b \<in> set d. b = 0"
  shows "light_client_from_bytes d \<noteq> Inr l" "block_header_from_bytes d \<noteq> Inr h"
    "height_index_from_bytes d \<noteq> Inr i" "verified_tx_from_bytes d \<noteq> Inr v"
  using assms by (simp_all add: from_bytes_defs disc_defs layout_zero lcl.LEN_pos bhl.LEN_pos hil.LEN_pos vtl.LEN_pos)

lemma typed_zero: "\<forall>b \<in> set d. b = 0 \<Longrightarrow> typed_account E k d"
  by (simp add: typed_account_def zero_from_bytes)

text \<open>Bytes of one type do not read as another.\<close>

lemma from_bytes_excl:
  "lc_discriminator l = BTC_LIGHT_CLIENT_DISCRIMINATOR \<Longrightarrow> \<not> (\<exists>x. block_header_from_bytes (encode_light_client l @ r) = Inr x)"
  "lc_discriminator l = BTC_LIGHT_CLIENT_DISCRIMINATOR \<Longrightarrow> \<not> (\<exists>x. height_index_from_bytes (encode_light_client l @ r) = Inr x)"
  "lc_discriminator l = BTC_LIGHT_CLIENT_DISCRIMINATOR \<Longrightarrow> \<not> (\<exists>x. verified_tx_from_bytes (encode_light_client l @ r) = Inr x)"
  "bh_discriminator h = BLOCK_HEADER_DISCRIMINATOR \<Longrightarrow> \<not> (\<exists>x. light_client_from_bytes (encode_block_header h @ r) = Inr x)"
  "bh_discriminator h = BLOCK_HEADER_DISCRIMINATOR \<Longrightarrow> \<not> (\<exists>x. height_index_from_bytes (encode_block_header h @ r) = Inr x)"
  "bh_discriminator h = BLOCK_HEADER_DISCRIMINATOR \<Longrightarrow> \<not> (\<exists>x. verified_tx_from_bytes (encode_block_header h @ r) = Inr x)"
  "hi_discriminator i = HEIGHT_INDEX_DISCRIMINATOR \<Longrightarrow> \<not> (\<exists>x. light_client_from_bytes (encode_height_index i @ r) = Inr x)"
  "hi_discriminator i = HEIGHT_INDEX_DISCRIMINATOR \<Longrightarrow> \<not> (\<exists>x. block_header_from_bytes (encode_height_index i @ r) = Inr x)"
  "hi_discriminator i = HEIGHT_INDEX_DISCRIMINATOR \<Longrightarrow> \<not> (\<exists>x. verified_tx_from_bytes (encode_height_index i @ r) = Inr x)"
  "vt_discriminator v = VERIFIED_TX_DISCRIMINATOR \<Longrightarrow> \<not> (\<exists>x. light_client_from_bytes (encode_verified_tx v @ r) = Inr x)"
  "vt_discriminator v = VERIFIED_TX_DISCRIMINATOR \<Longrightarrow> \<not> (\<exists>x. block_header_from_bytes (encode_verified_tx v @ r) = Inr x)"
  "vt_discriminator v = VERIFIED_TX_DISCRIMINATOR \<Longrightarrow> \<not> (\<exists>x. height_index_from_bytes (encode_verified_tx v @ r) = Inr x)"
  by (auto dest!: from_bytes_disc simp: disc_defs)

lemma typed_intros:
  "lc_discriminator l = BTC_LIGHT_CLIENT_DISCRIMINATOR \<Longrightarrow> client_ok E l \<Longrightarrow>
     typed_account E (client_address E) (encode_light_client l @ r)"
  "bh_discriminator h = BLOCK_HEADER_DISCRIMINATOR \<Longrightarrow>
     typed_account E (block_address E (bh_block_hash h)) (encode_block_header h @ r)"
  "hi_discriminator i = HEIGHT_INDEX_DISCRIMINATOR \<Longrightarrow>
     typed_account E (index_address E (hi_height i)) (encode_height_index i @ r)"
  "vt_discriminator v = VERIFIED_TX_DISCRIMINATOR \<Longrightarrow>
     typed_account E (proof_address E (vt_block_hash v) (vt_txid v)) (encode_verified_tx v @ r)"
  using from_bytes_excl [where r = r] by (simp_all add: typed_account_def)

definition typed_write :: "env \<Rightarrow> pubkey \<times> bytes \<Rightarrow> bool" where
  "typed_write E w \<longleftrightarrow> (\<forall>rest. typed_account E (fst w) (snd w @ rest))"

lemma header_write_typed: "header_write E w \<Longrightarrow> typed_write E w"
  using typed_intros(2) by (auto simp: header_write_def typed_write_def simp flip: block_address_def)

lemma index_write_typed: "index_write E h w \<Longrightarrow> typed_write E w"
  using typed_intros(3) [of "canonical_entry E _ _"] by (auto simp: index_write_def typed_write_def)

lemma writes_well_typed:
  assumes "writes E ws s s'" and "\<forall>w \<in> set ws. typed_write E w" and "well_typed E s"
  shows "well_typed E s'"
  unfolding well_typed_def
proof (intro allI impI)
  fix k assume own: "owner (s' k) = program_id E"
  show "typed_account E k (adata (s' k))"
  proof (cases "k \<in> fst ` set ws")
    case True
    from writes_hit [OF assms(1) this] assms(2) show ?thesis by (fastforce simp: typed_write_def)
  next
    case False
    from frameD [OF writes_frame [OF assms(1)] this] own assms(3) show ?thesis by (simp add: well_typed_def)
  qed
qed

lemma writes_single: "wrote E k new s s' \<Longrightarrow> writes E [(k, new)] s s'"
  by (auto intro: writes.intros)

text \<open>A step that invents no light client and no index entry keeps the tip indexed.\<close>

lemma tip_indexedI:
  assumes "tip_indexed E s"
    and same: "\<And>k x y. owner (s' k) = program_id E \<Longrightarrow>
      light_client_from_bytes (adata (s' k)) = Inr x \<or> height_index_from_bytes (adata (s' k)) = Inr y \<Longrightarrow>
      adata (s' k) = adata (s k) \<and> owner (s' k) = owner (s k)"
  shows "tip_indexed E s'"
  unfolding tip_indexed_def
proof (intro allI impI)
  fix lc :: light_client and hi
  let ?c = "client_address E" and ?i = "index_address E (lc_tip_height lc)"
  assume 1: "owner (s' ?c) = program_id E" "light_client_from_bytes (adata (s' ?c)) = Inr lc"
    "owner (s' ?i) = program_id E" "height_index_from_bytes (adata (s' ?i)) = Inr hi"
  then have "adata (s' ?c) = adata (s ?c) \<and> owner (s' ?c) = owner (s ?c)"
    "adata (s' ?i) = adata (s ?i) \<and> owner (s' ?i) = owner (s ?i)"
    using same by blast+
  with 1 assms(1) show "hi_block_hash hi = lc_tip_hash lc" unfolding tip_indexed_def by simp
qed

text \<open>
  Writes of other types keep the tip indexed: an address they hit stops reading as a light
  client or as an index entry.
\<close>

lemma writes_tip_indexed:
  assumes "writes E ws s s'" and "tip_indexed E s"
    and "\<And>w rest x. w \<in> set ws \<Longrightarrow> light_client_from_bytes (snd w @ rest) \<noteq> Inr x"
    and "\<And>w rest x. w \<in> set ws \<Longrightarrow> height_index_from_bytes (snd w @ rest) \<noteq> Inr x"
  shows "tip_indexed E s'"
proof -
  have miss: "k \<notin> fst ` set ws"
    if "light_client_from_bytes (adata (s' k)) = Inr x \<or> height_index_from_bytes (adata (s' k)) = Inr y" for k x y
    using that writes_hit [OF assms(1), of k] assms(3,4) by fastforce
  have "adata (s' k) = adata (s k) \<and> owner (s' k) = owner (s k)"
    if "light_client_from_bytes (adata (s' k)) = Inr x \<or> height_index_from_bytes (adata (s' k)) = Inr y" for k x y
    using frameD [OF writes_frame [OF assms(1)]] miss that by blast
  then show ?thesis by (intro tip_indexedI [OF assms(2)]) blast
qed

section \<open>Every instruction keeps the invariant\<close>

definition lc_inv :: "env \<Rightarrow> store \<Rightarrow> bool" where
  "lc_inv E s \<longleftrightarrow> well_typed E s \<and> tip_indexed E s"

lemma extend_inv:
  assumes spec: "system_program_spec E" and ok: "process_extend_blockchain E accounts d s = Inr s'"
    and inv: "lc_inv E s"
  shows "lc_inv E s'"
proof -
  let ?c = "key (accounts ! 0)"
  obtain n a parent lc where inp: "extend_inputs accounts d s n a parent lc"
    using process_extend_inputs [OF ok] by blast
  let ?raws = "raw_headers d n"
  have lc: "light_client_from_bytes (adata (s ?c)) = Inr lc" using inp by (simp add: extend_inputs_def)
  have own: "owner (s ?c) = program_id E" by (rule process_extend_inv [OF ok inp])
  have c: "?c = client_address E" and cok: "client_ok E lc"
    using inv own lc by (auto simp: lc_inv_def well_typed_def typed_account_def)
  have lcd: "lc_discriminator lc = BTC_LIGHT_CLIENT_DISCRIMINATOR"
    using lc lcl.from_bytes_iff by (simp add: light_client_from_bytes_def)
  obtain hws iws s1 s2 run lc' where w: "writes E hws s s1" "writes E iws s1 s2"
      "wrote E ?c (encode_light_client lc') s2 s'"
    and hw: "\<forall>w \<in> set hws. header_write E w"
    and iw: "\<forall>w \<in> set iws. index_write E (bh_height parent) w"
    and br: "batch_end E parent ?raws run"
    and fin: "if unat (lc_total_chainwork lc) < candidate_work parent ?raws
      then iws = index_writes E (bh_height parent) 0 (zip (bslice (4 + n) n accounts) ?raws) \<and>
       lc_finalized_height lc \<le> bh_height parent \<and>
       reindex E (key (accounts ! 1)) (bh_height parent) 0 (zip (bslice (4 + n) n accounts) ?raws) s1 = Inr s2 \<and>
       promote_light_client E n run lc = Inr lc'
      else iws = [] \<and> count_headers E n lc = Inr lc'"
    by (rule process_extend_effect [OF spec ok inp])
  have "lc_discriminator lc' = lc_discriminator lc \<and> client_ok E lc'"
  proof (cases "unat (lc_total_chainwork lc) < candidate_work parent ?raws")
    case True
    with fin have le: "lc_finalized_height lc \<le> bh_height parent" and pr: "promote_light_client E n run lc = Inr lc'"
      by simp_all
    have "unat (er_height run) = unat (bh_height parent) + n" using br by (simp add: batch_end_def)
    then have "unat (lc_finalized_height lc') \<le> unat (lc_tip_height lc')"
      using promote_fields(3,8) [OF pr] le by (simp add: word_le_nat_alt)
    with promote_fields(1,5) [OF pr] cok show ?thesis by (simp add: client_ok_def word_le_nat_alt)
  next
    case False
    with fin have "count_headers E n lc = Inr lc'" by simp
    note count_fields [OF this]
    with cok show ?thesis by (simp add: client_ok_def)
  qed
  then have lc'd: "lc_discriminator lc' = BTC_LIGHT_CLIENT_DISCRIMINATOR" and cok': "client_ok E lc'"
    using lcd by simp_all
  have lc': "light_client_from_bytes (adata (s' ?c)) = Inr lc'"
    using wroteD(3) [OF w(3)] lc'd by auto
  have "typed_write E (?c, encode_light_client lc')"
    using typed_intros(1) [OF lc'd cok'] c by (simp add: typed_write_def)
  then have "well_typed E s'"
    using hw iw inv header_write_typed index_write_typed
    by (intro writes_well_typed [OF writes_append [OF writes_append [OF w(1,2)] writes_single [OF w(3)]]])
      (auto simp: lc_inv_def)
  moreover have "tip_indexed E s'"
  proof (cases "unat (lc_total_chainwork lc) < candidate_work parent ?raws")
    case True
    have n: "0 < n" using inp extend_args_bounds(1) by (auto simp: extend_inputs_def)
    with fin True have pr: "promote_light_client E n run lc = Inr lc'" by simp
    let ?h = "bh_height parent + 1 + of_nat (n - 1)"
    have h: "lc_tip_height lc' = ?h"
    proof -
      have "unat (lc_tip_height lc') = unat (bh_height parent) + n"
        using promote_fields(3) [OF pr] br by (simp add: batch_end_def)
      then have "lc_tip_height lc' = of_nat (unat (bh_height parent) + n)" by (metis of_nat_unat ucast_id)
      moreover have "(of_nat n :: u64) = 1 + of_nat (n - 1)" using n by (cases n) simp_all
      ultimately show ?thesis by (simp add: add.assoc)
    qed
    have "height_index_from_bytes (adata (s' (index_address E ?h))) =
        Inr (canonical_entry E ?h (double_sha256 E (?raws ! (n - 1))))"
      by (rule promotion_facts [OF spec ok inp True, THEN conjunct2, THEN conjunct2, unfolded Let_def, rule_format])
        (use n in auto)
    moreover have "lc_tip_hash lc' = double_sha256 E (?raws ! (n - 1))"
      using promote_fields(2) [OF pr] br n
      by (simp add: batch_end_def last_conv_nth flip: length_greater_0_conv)
    ultimately show ?thesis using lc' c h by (auto simp: tip_indexed_def)
  next
    case False
    with fin have iws: "iws = []" and ct: "count_headers E n lc = Inr lc'" by simp_all
    note cf = count_fields [OF ct]
    let ?i = "index_address E (lc_tip_height lc)"
    have "hi_block_hash hi = lc_tip_hash lc"
      if own': "owner (s' ?i) = program_id E" and hi: "height_index_from_bytes (adata (s' ?i)) = Inr hi" for hi
    proof -
      have ic: "?i \<noteq> ?c" using hi lc' from_bytes_disc(1,3) by (fastforce simp: disc_defs)
      have i1: "adata (s' ?i) = adata (s1 ?i) \<and> owner (s' ?i) = owner (s1 ?i)"
        using frameD [OF wroteD(1) [OF w(3)]] ic w(2) iws by simp
      have "?i \<notin> fst ` set hws"
        using writes_hit [OF w(1), of ?i] hw hi i1 from_bytes_disc(3)
        by (fastforce simp: header_write_def disc_defs)
      with i1 own' hi frameD [OF writes_frame [OF w(1)]] inv own lc c show ?thesis
        by (simp add: lc_inv_def tip_indexed_def)
    qed
    then show ?thesis using lc' c cf by (auto simp: tip_indexed_def)
  qed
  ultimately show ?thesis by (simp add: lc_inv_def)
qed

lemma verify_record_writes:
  assumes "system_program_spec E" and "verify_record E accounts bh txid txi h reinit s = Inr s'"
  shows "s' = s \<or> (\<exists>vt. vt_discriminator vt = VERIFIED_TX_DISCRIMINATOR \<and>
      writes E [(proof_address E (vt_block_hash vt) (vt_txid vt), encode_verified_tx vt)] s s')"
proof (cases "s' = s")
  case False
  let ?k = "key (accounts ! 0)"
  let ?pda = "find_program_address E [VERIFIED_TX_SEED, bytes32 bh, bytes32 txid]"
  define vt where "vt = \<lparr>vt_discriminator = VERIFIED_TX_DISCRIMINATOR, vt_bump = snd ?pda,
           vt_padding = 0, vt_block_height = ucast h, vt_block_hash = bh, vt_txid = txid,
           vt_verified_at = clock_unix_timestamp E, vt_tx_index = txi,
           vt_reinit_epoch = reinit, vt_reserved2 = 0\<rparr>"
  obtain s1 where kk: "?k = fst ?pda"
    and c: "create_or_claim_pda E (key (accounts ! 5)) ?k (rt_minimum_balance E VT_LEN) (of_nat VT_LEN) s = Inr s1"
    and w: "write_front ?k (encode_verified_tx vt) s1 = Inr s'"
    using assms(2) False unfolding verify_record_def Let_def vt_def
    by (auto simp: bindE_eq_Inr split: if_splits)
  have vt: "vt_discriminator vt = VERIFIED_TX_DISCRIMINATOR"
    and k: "?k = proof_address E (vt_block_hash vt) (vt_txid vt)"
    using kk by (simp_all add: vt_def proof_address_def)
  show ?thesis
    using writes_single [OF wrote_claimed [OF assms(1) c w]] vt unfolding k by blast
qed simp

lemma verify_inv:
  assumes spec: "system_program_spec E" and ok: "process_verify_transaction E accounts d s = Inr s'"
    and inv: "lc_inv E s"
  shows "lc_inv E s'"
proof -
  from ok obtain bh txid txi h reinit where "verify_record E accounts bh txid txi h reinit s = Inr s'"
    unfolding process_verify_transaction_def Let_def by (auto simp: bindE_eq_Inr if_Inl_eq_Inr)
  from verify_record_writes [OF spec this] show ?thesis
  proof
    assume "\<exists>vt. vt_discriminator vt = VERIFIED_TX_DISCRIMINATOR \<and>
      writes E [(proof_address E (vt_block_hash vt) (vt_txid vt), encode_verified_tx vt)] s s'"
    then obtain vt where vt: "vt_discriminator vt = VERIFIED_TX_DISCRIMINATOR"
      and w: "writes E [(proof_address E (vt_block_hash vt) (vt_txid vt), encode_verified_tx vt)] s s'" by blast
    have "well_typed E s'"
      using writes_well_typed [OF w] inv typed_intros(4) [OF vt] by (simp add: typed_write_def lc_inv_def)
    moreover have "tip_indexed E s'"
      using writes_tip_indexed [OF w] inv from_bytes_excl(10,12) [OF vt] by (simp add: lc_inv_def)
    ultimately show ?thesis by (simp add: lc_inv_def)
  qed (use inv in simp)
qed

text \<open>Steps that only blank accounts or leave them alone.\<close>

lemma blanking_inv:
  assumes "\<And>k. owner (s' k) = program_id E \<Longrightarrow>
      (adata (s' k) = adata (s k) \<and> owner (s k) = program_id E) \<or> (\<forall>b \<in> set (adata (s' k)). b = 0)"
    and "lc_inv E s"
  shows "lc_inv E s'"
proof -
  have "well_typed E s'"
    unfolding well_typed_def
  proof (intro allI impI)
    fix k assume own: "owner (s' k) = program_id E"
    from assms(1) [OF this] show "typed_account E k (adata (s' k))"
    proof
      assume "adata (s' k) = adata (s k) \<and> owner (s k) = program_id E"
      then show ?thesis using assms(2) by (simp add: lc_inv_def well_typed_def)
    qed (rule typed_zero)
  qed
  moreover have "tip_indexed E s'"
  proof (rule tip_indexedI)
    show "tip_indexed E s" using assms(2) by (simp add: lc_inv_def)
    fix k x y
    assume own: "owner (s' k) = program_id E"
      and "light_client_from_bytes (adata (s' k)) = Inr x \<or> height_index_from_bytes (adata (s' k)) = Inr y"
    then have "\<not> (\<forall>b \<in> set (adata (s' k)). b = 0)" using zero_from_bytes(1,3) [of "adata (s' k)"] by auto
    with assms(1) [OF own] own show "adata (s' k) = adata (s k) \<and> owner (s' k) = owner (s k)" by simp
  qed
  ultimately show ?thesis by (simp add: lc_inv_def)
qed

lemma prune_inv:
  assumes ok: "process_prune_obsolete_blocks E accounts d s = Inr s'" and inv: "lc_inv E s"
  shows "lc_inv E s'"
proof (rule blanking_inv [OF _ inv])
  let ?bk = "key (accounts ! 1)" and ?rk = "key (accounts ! 3)"
  from ok obtain total where ne: "?rk \<noteq> ?bk"
    and s': "s' = (s(?bk := \<lparr>lamports = 0, owner = 0, adata = replicate (length (adata (s ?bk))) 0\<rparr>))
               (?rk := (s ?rk)\<lparr>lamports := total\<rparr>)"
    by (auto simp: process_prune_obsolete_blocks_def close_header_def Let_def res_simps set_data_def fun_upd_twist)
  show "(adata (s' k) = adata (s k) \<and> owner (s k) = program_id E) \<or> (\<forall>b \<in> set (adata (s' k)). b = 0)"
    if "owner (s' k) = program_id E" for k
    using that ne by (cases "k = ?bk"; cases "k = ?rk") (simp_all add: s')
qed

lemma foreign_inv: "foreign_step E s s' \<Longrightarrow> lc_inv E s \<Longrightarrow> lc_inv E s'"
  by (rule blanking_inv) (auto simp: foreign_step_def)

text \<open>The tail of the initialisers writes the start block's two accounts, the index entry last.\<close>

lemma write_genesis_writes:
  assumes "system_program_spec E" and "write_genesis E accounts hdr s = Inr s'"
  shows "writes E [(block_address E (bh_block_hash hdr), encode_block_header hdr),
      (index_address E (bh_height hdr), encode_height_index (canonical_entry E (bh_height hdr) (bh_block_hash hdr)))] s s'"
proof -
  let ?bk = "key (accounts ! 4)" and ?hk = "key (accounts ! 3)"
  let ?hi = "canonical_entry E (bh_height hdr) (bh_block_hash hdr)"
  from assms(2) obtain s1 s2 s3 where
      bk: "?bk = block_address E (bh_block_hash hdr)" and hk: "?hk = index_address E (bh_height hdr)"
    and c1: "create_or_claim_pda E (key (accounts ! 1)) ?bk (rt_minimum_balance E BH_LEN) (of_nat BH_LEN) s = Inr s1"
    and w1: "write_front ?bk (encode_block_header hdr) s1 = Inr s2"
    and c2: "create_or_claim_pda E (key (accounts ! 1)) ?hk (rt_minimum_balance E HI_LEN) (of_nat HI_LEN) s2 = Inr s3"
    and w2: "write_front ?hk (encode_height_index ?hi) s3 = Inr s'"
    unfolding write_genesis_def canonical_entry_def block_address_def index_address_def Let_def bindE_eq_Inr if_Inl_eq_Inr
    by blast
  show ?thesis
    using wrote_claimed [OF assms(1) c1 w1] wrote_claimed [OF assms(1) c2 w2] unfolding bk hk
    by (auto intro: writes.intros)
qed

text \<open>Both initialisers: the light client is written first, then the start block.\<close>

lemma genesis_inv:
  assumes spec: "system_program_spec E" and inv: "lc_inv E s"
    and w: "wrote E (client_address E) (encode_light_client lc) s s1"
    and g: "write_genesis E accounts hdr s1 = Inr s'"
    and lc: "lc_discriminator lc = BTC_LIGHT_CLIENT_DISCRIMINATOR" "client_ok E lc"
    and hdr: "bh_discriminator hdr = BLOCK_HEADER_DISCRIMINATOR"
    and tip: "lc_tip_hash lc = bh_block_hash hdr" "lc_tip_height lc = bh_height hdr"
  shows "lc_inv E s'"
proof -
  let ?hi = "canonical_entry E (bh_height hdr) (bh_block_hash hdr)"
  let ?c = "client_address E" and ?b = "block_address E (bh_block_hash hdr)" and ?i = "index_address E (bh_height hdr)"
  note gw = write_genesis_writes [OF spec g]
  note ws = writes_append [OF writes_single [OF w] gw]
  have "typed_account E ?i (encode_height_index ?hi @ r)" for r
    using typed_intros(3) [of ?hi] by simp
  then have "well_typed E s'"
    using inv lc hdr typed_intros(1,2)
    by (intro writes_well_typed [OF ws]) (auto simp: typed_write_def lc_inv_def)
  moreover have "tip_indexed E s'"
  proof -
    have i: "height_index_from_bytes (adata (s' ?i)) = Inr ?hi"
      using writes_last [OF gw, of ?i "encode_height_index ?hi"] by auto
    have "lc'' = lc" if r: "light_client_from_bytes (adata (s' ?c)) = Inr lc''" for lc''
    proof -
      have "?c \<noteq> ?i" using i r from_bytes_disc(1,3) by (fastforce simp: disc_defs)
      moreover have "?c \<noteq> ?b"
      proof
        assume cb: "?c = ?b"
        with \<open>?c \<noteq> ?i\<close> writes_last [OF gw, of ?c "encode_block_header hdr"]
        obtain rest where "adata (s' ?c) = encode_block_header hdr @ rest" by auto
        with r from_bytes_excl(4) [OF hdr] show False by metis
      qed
      ultimately have "adata (s' ?c) = adata (s1 ?c)" using frameD [OF writes_frame [OF gw], of ?c] by simp
      with wroteD(3) [OF w] r lc(1) show ?thesis by auto
    qed
    with i tip show ?thesis by (auto simp: tip_indexed_def)
  qed
  ultimately show ?thesis by (simp add: lc_inv_def)
qed

lemma genesis_finalized_le: "genesis_finalized h \<le> h"
  by (simp add: genesis_finalized_def word_le_nat_alt unat_saturating_sub)

lemma genesis_header_simps [simp]:
  "bh_discriminator (genesis_header E b p h params r) = BLOCK_HEADER_DISCRIMINATOR"
  "bh_block_hash (genesis_header E b p h params r) = b" "bh_height (genesis_header E b p h params r) = h"
  by (simp_all add: genesis_header_def split: prod.splits)

lemma initialize_inv:
  assumes spec: "system_program_spec E" and ok: "process_initialize E accounts d s = Inr s'" and inv: "lc_inv E s"
  shows "lc_inv E s'"
proof -
  let ?c = "key (accounts ! 0)" and ?h = "from_le (bslice 0 8 d)" and ?b = "from_le (bslice 8 32 d)"
  let ?lc = "genesis_client E (key (accounts ! 1)) (snd (find_program_address E [LIGHT_CLIENT_SEED])) (d ! 40)
      ?b ?h (fst (start_params d)) (fst (snd (start_params d)))"
  let ?hdr = "genesis_header E ?b 0 ?h (start_params d) 0"
  from ok obtain s1 s2 where net: "network_allowed_in_build E (d ! 40)" and c: "?c = client_address E"
    and cc: "create_or_claim_pda E (key (accounts ! 1)) ?c (rt_minimum_balance E LC_LEN) (of_nat LC_LEN) s = Inr s1"
    and w: "write_front ?c (encode_light_client ?lc) s1 = Inr s2"
    and g: "write_genesis E accounts ?hdr s2 = Inr s'"
    unfolding process_initialize_def client_address_def Let_def bindE_eq_Inr if_Inl_eq_Inr by blast
  show ?thesis
    by (rule genesis_inv [OF spec inv wrote_claimed [OF spec cc w, unfolded c] g])
      (simp_all add: genesis_client_def client_ok_def net genesis_finalized_le)
qed

lemma reinitialize_inv:
  assumes spec: "system_program_spec E" and ok: "process_reinitialize E accounts d s = Inr s'" and inv: "lc_inv E s"
  shows "lc_inv E s'"
proof -
  let ?c = "key (accounts ! 0)" and ?h = "from_le (bslice 0 8 d)" and ?b = "from_le (bslice 8 32 d)"
  let ?p = "if length d \<ge> 89 then from_le (bslice 57 32 d) else 0"
  from ok obtain lc s1 where net: "network_allowed_in_build E (d ! 40)" and own: "owner (s ?c) = program_id E"
    and lc: "light_client_from_bytes (adata (s ?c)) = Inr lc"
    and w: "write_front ?c (encode_light_client (reinit_client E (d ! 40) ?b ?h (fst (start_params d))
             (fst (snd (start_params d))) lc)) s = Inr s1"
    and g: "write_genesis E accounts (genesis_header E ?b ?p ?h (start_params d) (lc_reinit_epoch lc + 1)) s1 = Inr s'"
    unfolding process_reinitialize_def Let_def bindE_eq_Inr if_Inl_eq_Inr by blast
  have c: "?c = client_address E"
    using inv own lc by (auto simp: lc_inv_def well_typed_def typed_account_def)
  have "lc_discriminator lc = BTC_LIGHT_CLIENT_DISCRIMINATOR"
    using lc lcl.from_bytes_iff by (simp add: light_client_from_bytes_def)
  then show ?thesis
    by (intro genesis_inv [OF spec inv wrote_front [OF own w, unfolded c] g])
      (simp_all add: reinit_client_def client_ok_def net genesis_finalized_le)
qed

lemma process_instruction_inv:
  assumes "system_program_spec E" and "process_instruction E accounts d s = Inr s'" and "lc_inv E s"
  shows "lc_inv E s'"
  using assms initialize_inv extend_inv verify_inv prune_inv reinitialize_inv
  unfolding process_instruction_def by (auto split: if_splits)

section \<open>Reachable states\<close>

lemma clock_irrelevant [simp]:
  "find_program_address (E\<lparr>clock_unix_timestamp := t, clock_slot := u\<rparr>) = find_program_address E"
  "system_program_spec (E\<lparr>clock_unix_timestamp := t, clock_slot := u\<rparr>) = system_program_spec E"
  "network_allowed_in_build (E\<lparr>clock_unix_timestamp := t, clock_slot := u\<rparr>) = network_allowed_in_build E"
  by (simp_all add: fun_eq_iff find_program_address_def system_program_spec_def network_allowed_in_build_def)

lemma lc_inv_clock [simp]: "lc_inv (E\<lparr>clock_unix_timestamp := t, clock_slot := u\<rparr>) = lc_inv E"
  by (simp add: fun_eq_iff lc_inv_def well_typed_def tip_indexed_def typed_account_def client_ok_def
      client_address_def block_address_def index_address_def proof_address_def)

lemma reachable_inv:
  assumes "system_program_spec E"
  shows "lc_reachable E s \<Longrightarrow> lc_inv E s"
proof (induction rule: lc_reachable.induct)
  case (fresh s)
  then show ?case by (simp add: lc_inv_def well_typed_def tip_indexed_def)
next
  case (instr s slot t accounts d s')
  have "system_program_spec (E\<lparr>clock_unix_timestamp := t, clock_slot := slot\<rparr>)" using assms by simp
  from process_instruction_inv [OF this instr.hyps(2)] instr.IH show ?case by simp
qed (rule foreign_inv)


section \<open>Finality\<close>

text \<open>A step on the light client other than a re-initialisation.\<close>

lemma step_monotone:
  assumes spec: "system_program_spec E" and ok: "process_instruction E accounts d s = Inr s'"
    and inv: "lc_inv E s" and rel: "mainnet_build E"
    and own: "owner (s (client_address E)) = program_id E"
    and lc: "light_client_from_bytes (adata (s (client_address E))) = Inr lc"
    and lc': "light_client_from_bytes (adata (s' (client_address E))) = Inr lc'"
  shows "lc_finalized_height lc \<le> lc_finalized_height lc' \<and> unat (lc_total_chainwork lc) \<le> unat (lc_total_chainwork lc')"
proof -
  let ?c = "client_address E"
  have data: "lc' = lc" if "adata (s' ?c) = adata (s ?c)" using that lc lc' by simp
  consider (init) "process_initialize E accounts (tl d) s = Inr s'"
    | (extend) "process_extend_blockchain E accounts (tl d) s = Inr s'"
    | (verify) "process_verify_transaction E accounts (tl d) s = Inr s'"
    | (prune) "process_prune_obsolete_blocks E accounts (tl d) s = Inr s'"
    using ok rel unfolding process_instruction_def by (auto split: if_splits)
  then show ?thesis
  proof cases
    case init
    have "adata (s ?c) \<noteq> []" using lc lcl.LEN_pos by (auto simp: from_bytes_defs layout_from_bytes_def)
    then have False
      using init from_bytes_disc(1) [OF lc]
      unfolding process_initialize_def Let_def client_address_def if_Inl_eq_Inr by metis
    then show ?thesis ..
  next
    case extend
    obtain n a parent l where inp: "extend_inputs accounts (tl d) s n a parent l"
      using process_extend_inputs [OF extend] by blast
    let ?k = "key (accounts ! 0)"
    have l: "light_client_from_bytes (adata (s ?k)) = Inr l" using inp by (simp add: extend_inputs_def)
    have "owner (s ?k) = program_id E" by (rule process_extend_inv [OF extend inp])
    then have k: "?k = ?c" using inv l by (auto simp: lc_inv_def well_typed_def typed_account_def)
    with l lc have ll: "l = lc" by simp
    show ?thesis
    proof (cases "unat (lc_total_chainwork lc) < candidate_work parent (raw_headers (tl d) n)")
      case True
      with promotion_facts [OF spec extend inp] ll k lc' show ?thesis by (auto simp: word_le_nat_alt)
    next
      case False
      with keeps_finalized_facts [OF spec extend inp] ll k lc' show ?thesis by auto
    qed
  next
    case verify
    then obtain bh txid txi h reinit where "verify_record E accounts bh txid txi h reinit s = Inr s'"
      unfolding process_verify_transaction_def Let_def by (auto simp: bindE_eq_Inr if_Inl_eq_Inr)
    from verify_record_writes [OF spec this] have "adata (s' ?c) = adata (s ?c)"
    proof
      assume "\<exists>vt. vt_discriminator vt = VERIFIED_TX_DISCRIMINATOR \<and>
        writes E [(proof_address E (vt_block_hash vt) (vt_txid vt), encode_verified_tx vt)] s s'"
      then obtain vt where vt: "vt_discriminator vt = VERIFIED_TX_DISCRIMINATOR"
        and w: "writes E [(proof_address E (vt_block_hash vt) (vt_txid vt), encode_verified_tx vt)] s s'" by blast
      have "?c \<notin> fst ` set [(proof_address E (vt_block_hash vt) (vt_txid vt), encode_verified_tx vt)]"
        using writes_hit [OF w, of ?c] from_bytes_excl(10) [OF vt] lc' by auto
      then show ?thesis using frameD [OF writes_frame [OF w]] by blast
    qed simp
    from data [OF this] show ?thesis by simp
  next
    case prune
    let ?bk = "key (accounts ! 1)" and ?rk = "key (accounts ! 3)"
    obtain total where ne: "?rk \<noteq> ?bk"
      and s': "s' = (s(?bk := \<lparr>lamports = 0, owner = 0, adata = replicate (length (adata (s ?bk))) 0\<rparr>))
               (?rk := (s ?rk)\<lparr>lamports := total\<rparr>)"
      using prune by (auto simp: process_prune_obsolete_blocks_def close_header_def Let_def res_simps set_data_def fun_upd_twist)
    have "?c \<noteq> ?bk" using lc' ne zero_from_bytes(1) [of "replicate (length (adata (s ?bk))) 0"] by (auto simp: s')
    then have "adata (s' ?c) = adata (s ?c)" by (simp add: s')
    from data [OF this] show ?thesis by simp
  qed
qed

text \<open>
  C6. Finality is irrevocable in a mainnet build: whatever instruction is executed, the
  finalised height and the total work of the light client never decrease.
\<close>

theorem finality_monotone:
  assumes "system_program_spec E" and "lc_reachable E s" and "mainnet_build E"
    and "process_instruction E accounts d s = Inr s'"
    and "owner (s (fst (find_program_address E [LIGHT_CLIENT_SEED]))) = program_id E"
    and "light_client_from_bytes (adata (s (fst (find_program_address E [LIGHT_CLIENT_SEED])))) = Inr lc"
    and "light_client_from_bytes (adata (s' (fst (find_program_address E [LIGHT_CLIENT_SEED])))) = Inr lc'"
  shows "lc_finalized_height lc \<le> lc_finalized_height lc' \<and> unat (lc_total_chainwork lc) \<le> unat (lc_total_chainwork lc')"
  using assms(3-) by (intro step_monotone [OF assms(1) _ reachable_inv [OF assms(1,2)]])
    (simp_all add: client_address_def)

section \<open>A concrete deployment\<close>

text \<open>A fresh store, the initialisation of a Testnet4 client from it, and one header on top.\<close>

definition demo_fresh :: store where
  "demo_fresh = (\<lambda>_. empty_account)(51 := \<lparr>lamports = 1000, owner = 0, adata = []\<rparr>)"

definition demo_init_data :: bytes where
  "demo_init_data = byte1 0 @ bytes8 1 @ bytes32 3 @ byte1 NETWORK_TESTNET4 @ bytes4 MAX_TARGET_BITS @
     bytes4 100 @ bytes4 500 @ bytes4 0"

definition demo_init_accounts :: "account_info list" where
  "demo_init_accounts = map demo_meta [16, 51, 0, 268, 773]"

lemma demo_init_fields:
  defines "d \<equiv> tl demo_init_data"
  shows "length d = 57" "from_le (bslice 0 8 d) = (1 :: u64)" "from_le (bslice 8 32 d) = (3 :: hash32)"
    "d ! 40 = NETWORK_TESTNET4" "start_params d = (MAX_TARGET_BITS, 100, 500, MAX_TARGET_BITS)"
proof -
  have d: "d = bytes8 1 @ bytes32 3 @ byte1 NETWORK_TESTNET4 @ bytes4 MAX_TARGET_BITS @ bytes4 100 @ bytes4 500 @ bytes4 0"
    by (simp add: d_def demo_init_data_def byte1_def)
  show "length d = 57" "from_le (bslice 0 8 d) = (1 :: u64)" "from_le (bslice 8 32 d) = (3 :: hash32)"
    by (simp_all add: d slice_simps)
  show "d ! 40 = NETWORK_TESTNET4" by (simp add: d nth_append byte1_def)
  show "start_params d = (MAX_TARGET_BITS, 100, 500, MAX_TARGET_BITS)"
    by (simp add: d start_params_def slice_simps)
qed

lemma demo_init_runs: "process_instruction demo_env demo_init_accounts demo_init_data demo_fresh = Inr demo_chain"
proof -
  have d0: "demo_init_data ! 0 = 0" "demo_init_data \<noteq> []" "length demo_init_data = 58"
    by (simp_all add: demo_init_data_def byte1_def)
  have cw: "bindE (create_or_claim_pda demo_env 51 k 1 (of_nat n) s) (\<lambda>x. bindE (write_front k new x) f) =
      f (s(51 := (s 51)\<lparr>lamports := lamports (s 51) - 1\<rparr>, k := prog_account new))"
    if "s k = empty_account" "k \<noteq> 51" "lamports (s 51) \<noteq> 0" "length new = n" "n < 4294967296" for s k n new f
    using demo_create_write [OF that] by (simp add: prog_account_def flip: bindE_assoc)
  have lens: "length (encode_light_client l) = LC_LEN" "length (encode_block_header h) = BH_LEN"
      "length (encode_height_index i) = HI_LEN" "LC_LEN < 4294967296" "BH_LEN < 4294967296" "HI_LEN < 4294967296" for l h i
    by (simp_all add: lcl.length_encode bhl.length_encode hil.length_encode LC_LEN_def BH_LEN_def HI_LEN_def)
  have hi: "\<lparr>hi_discriminator = HEIGHT_INDEX_DISCRIMINATOR, hi_bump = 255, hi_padding = 0,
      hi_block_hash = 3, hi_height = 1\<rparr> = demo_hi 3 1" by (simp add: demo_hi_def)
  let ?s1 = "demo_fresh(51 := \<lparr>lamports = 999, owner = 0, adata = []\<rparr>, 16 := prog_account (encode_light_client demo_tip))"
  have "write_genesis demo_env demo_init_accounts demo_parent ?s1 = Inr demo_chain"
    by (simp add: write_genesis_def demo_init_accounts_def demo_keys demo_parent_simps cw lens demo_fresh_def
        hi demo_create_write prog_account_def demo_chain_def fun_eq_iff)
  then show ?thesis
    by (simp add: process_instruction_def d0 process_initialize_def demo_init_fields demo_keys cw lens
        demo_init_accounts_def network_allowed_in_build_def demo_fresh_def empty_account_def
        demo_tip_def demo_parent_def MAX_TARGET_BITS_def Let_def)
qed

lemma demo_clock: "demo_env\<lparr>clock_unix_timestamp := 1000000, clock_slot := 100\<rparr> = demo_env"
  by (simp add: demo_env_def)

lemma demo_reachable: "lc_reachable demo_env demo_chain"
proof (rule lc_reachable.instr [where t = 1000000 and slot = 100])
  show "lc_reachable demo_env demo_fresh"
    by (rule lc_reachable.fresh) (simp add: demo_fresh_def empty_account_def)
  show "process_instruction (demo_env\<lparr>clock_unix_timestamp := 1000000, clock_slot := 100\<rparr>)
      demo_init_accounts demo_init_data demo_fresh = Inr demo_chain"
    unfolding demo_clock by (rule demo_init_runs)
qed


theorem finality_monotone_witness:
  "\<exists>s' lc'. process_instruction demo_env demo_extend_accounts (byte1 1 @ demo_extend_data) demo_chain = Inr s' \<and>
     light_client_from_bytes (adata (s' 16)) = Inr lc' \<and> lc_finalized_height demo_tip \<le> lc_finalized_height lc'"
proof -
  obtain s' where run: "process_extend_blockchain demo_env demo_extend_accounts demo_extend_data demo_chain = Inr s'"
    using demo_extend_runs by blast
  then have step: "process_instruction demo_env demo_extend_accounts (byte1 1 @ demo_extend_data) demo_chain = Inr s'"
    by (simp add: process_instruction_def byte1_def)
  have more: "unat (lc_total_chainwork demo_tip) < candidate_work demo_parent (raw_headers demo_extend_data 1)"
    unfolding demo_candidate by (simp add: demo_tip_simps)
  obtain lc' where lc': "light_client_from_bytes (adata (s' 16)) = Inr lc'"
    using promotion_facts [OF demo_system_program run demo_extend_inputs more] by (auto simp: demo_extend_accounts_def)
  have "lc_finalized_height demo_tip \<le> lc_finalized_height lc'"
    using finality_monotone [OF demo_system_program demo_reachable _ step, of demo_tip lc'] lc'
    by (simp add: demo_keys demo_chain_lookup demo_tip_simps)
  with step lc' show ?thesis by blast
qed

end
