(* ===== verification/UX_State.thy ===== *)
theory UX_State
  imports LC_State
begin

text \<open>
  Accounts of the pool program (\<open>programs/utxopia/src/state\<close>) as far as the redemption
  lifecycle uses them: the pool ledger, redemption requests, UTXO records, token and pool
  configuration, each with its zero-copy codec and the operations of its \<open>impl\<close>; the
  error codes of \<open>error.rs\<close>; and the account validation of \<open>utils/validation.rs\<close>.
  Setters that only assign a field are record updates.
\<close>

section \<open>Error codes\<close>

abbreviation PoolPaused :: program_error where "PoolPaused \<equiv> Custom 6000"
abbreviation InvalidRedemptionState :: program_error where "InvalidRedemptionState \<equiv> Custom 6010"
abbreviation Unauthorized :: program_error where "Unauthorized \<equiv> Custom 6011"
abbreviation TreeFull :: program_error where "TreeFull \<equiv> Custom 6020"
abbreviation UxInvalidAccountOwner :: program_error where "UxInvalidAccountOwner \<equiv> Custom 6026"
abbreviation RedemptionCancelNotAllowed :: program_error where "RedemptionCancelNotAllowed \<equiv> Custom 6031"
abbreviation AccountNotWritable :: program_error where "AccountNotWritable \<equiv> Custom 6060"
abbreviation InvalidUtxo :: program_error where "InvalidUtxo \<equiv> Custom 6075"
abbreviation UtxoNotUnspent :: program_error where "UtxoNotUnspent \<equiv> Custom 6076"
abbreviation RedemptionAmountExceedsLimit :: program_error where "RedemptionAmountExceedsLimit \<equiv> Custom 6086"
abbreviation RedemptionFeeExceedsLimit :: program_error where "RedemptionFeeExceedsLimit \<equiv> Custom 6087"
abbreviation InsufficientReservedInputs :: program_error where "InsufficientReservedInputs \<equiv> Custom 6100"
abbreviation ExcessiveReservedInputs :: program_error where "ExcessiveReservedInputs \<equiv> Custom 6101"
abbreviation RedemptionFeeMismatch :: program_error where "RedemptionFeeMismatch \<equiv> Custom 6102"
abbreviation EmptyCommitmentBatch :: program_error where "EmptyCommitmentBatch \<equiv> Custom 6107"

section \<open>Constants and seeds\<close>

definition POOL_STATE_DISCRIMINATOR :: u8 where "POOL_STATE_DISCRIMINATOR = 0x01"
definition REDEMPTION_REQUEST_DISCRIMINATOR :: u8 where "REDEMPTION_REQUEST_DISCRIMINATOR = 0x04"
definition UTXO_RECORD_DISCRIMINATOR :: u8 where "UTXO_RECORD_DISCRIMINATOR = 0x09"
definition POOL_CONFIG_DISCRIMINATOR :: u8 where "POOL_CONFIG_DISCRIMINATOR = 0x0A"
definition TOKEN_CONFIG_DISCRIMINATOR :: u8 where "TOKEN_CONFIG_DISCRIMINATOR = 0x0B"

definition POOL_STATE_SEED :: bytes where "POOL_STATE_SEED = ascii ''pool_state''"
definition REDEMPTION_SEED :: bytes where "REDEMPTION_SEED = ascii ''redemption''"
definition UTXO_SEED :: bytes where "UTXO_SEED = ascii ''utxo''"
definition TOKEN_CONFIG_SEED :: bytes where "TOKEN_CONFIG_SEED = ascii ''token_config''"
definition POOL_CONFIG_SEED :: bytes where "POOL_CONFIG_SEED = ascii ''pool_config''"
definition TREE_SEED :: bytes where "TREE_SEED = ascii ''commitment_tree''"

definition MAX_REDEMPTION_AMOUNT_SATS :: u64 where "MAX_REDEMPTION_AMOUNT_SATS = 100000000"
definition MAX_MINER_FEE_SATS :: u64 where "MAX_MINER_FEE_SATS = 50000"
definition REDEMPTION_TIMEOUT_SLOTS :: u64 where "REDEMPTION_TIMEOUT_SLOTS = 216000"
definition MAX_BTC_SCRIPT_LEN :: nat where "MAX_BTC_SCRIPT_LEN = 34"

section \<open>PoolState\<close>

record pool_state =
  ps_discriminator :: u8
  ps_bump :: u8
  ps_flags :: u8
  ps_padding :: u8
  ps_authority :: pubkey
  ps_zkbtc_mint :: pubkey
  ps_pool_vault :: pubkey
  ps_deposit_vault :: pubkey
  ps_deposit_count :: u64
  ps_total_minted :: u64
  ps_total_burned :: u64
  ps_pending_redemptions :: u64
  ps_last_update :: i64
  ps_min_deposit :: u64
  ps_max_deposit :: u64
  ps_total_shielded :: u64
  ps_service_fee_base :: u64
  ps_fee_pool :: u64
  ps_pending_min_deposit :: u64
  ps_pending_max_deposit :: u64
  ps_pending_service_fee :: u64
  ps_pending_execute_after :: i64
  ps_deposit_fee_bps :: u16
  ps_withdrawal_fee_bps :: u16
  ps_total_btc_held :: u64
  ps_utxo_count_lo :: u16
  ps_active_tree_index :: u32
  ps_utxo_count_hi :: u16
  ps_auditor :: pubkey
  ps_auditor_viewing_pubkey :: pubkey
  ps_nullifier_count :: u32

definition POOL_STATE_LEN :: nat where "POOL_STATE_LEN = 332"

definition encode_pool_state :: "pool_state \<Rightarrow> bytes" where
  "encode_pool_state x =
     byte1 (ps_discriminator x) @ byte1 (ps_bump x) @ byte1 (ps_flags x) @ byte1 (ps_padding x) @
      le_bytes 32 (ps_authority x) @ le_bytes 32 (ps_zkbtc_mint x) @ le_bytes 32 (ps_pool_vault x) @
      le_bytes 32 (ps_deposit_vault x) @ le_bytes 8 (ps_deposit_count x) @
      le_bytes 8 (ps_total_minted x) @ le_bytes 8 (ps_total_burned x) @
      le_bytes 8 (ps_pending_redemptions x) @ le_bytes 8 (ps_last_update x) @
      le_bytes 8 (ps_min_deposit x) @ le_bytes 8 (ps_max_deposit x) @
      le_bytes 8 (ps_total_shielded x) @ le_bytes 8 (ps_service_fee_base x) @
      le_bytes 8 (ps_fee_pool x) @ le_bytes 8 (ps_pending_min_deposit x) @
      le_bytes 8 (ps_pending_max_deposit x) @ le_bytes 8 (ps_pending_service_fee x) @
      le_bytes 8 (ps_pending_execute_after x) @ le_bytes 2 (ps_deposit_fee_bps x) @
      le_bytes 2 (ps_withdrawal_fee_bps x) @ le_bytes 8 (ps_total_btc_held x) @
      le_bytes 2 (ps_utxo_count_lo x) @ le_bytes 4 (ps_active_tree_index x) @
      le_bytes 2 (ps_utxo_count_hi x) @ le_bytes 32 (ps_auditor x) @
      le_bytes 32 (ps_auditor_viewing_pubkey x) @ le_bytes 4 (ps_nullifier_count x)"

definition decode_pool_state :: "bytes \<Rightarrow> pool_state" where
  "decode_pool_state d =
     \<lparr>ps_discriminator = byte_at 0 d, ps_bump = byte_at 1 d, ps_flags = byte_at 2 d,
      ps_padding = byte_at 3 d, ps_authority = from_le (bslice 4 32 d),
      ps_zkbtc_mint = from_le (bslice 36 32 d), ps_pool_vault = from_le (bslice 68 32 d),
      ps_deposit_vault = from_le (bslice 100 32 d), ps_deposit_count = from_le (bslice 132 8 d),
      ps_total_minted = from_le (bslice 140 8 d), ps_total_burned = from_le (bslice 148 8 d),
      ps_pending_redemptions = from_le (bslice 156 8 d), ps_last_update = from_le (bslice 164 8 d),
      ps_min_deposit = from_le (bslice 172 8 d), ps_max_deposit = from_le (bslice 180 8 d),
      ps_total_shielded = from_le (bslice 188 8 d), ps_service_fee_base = from_le (bslice 196 8 d),
      ps_fee_pool = from_le (bslice 204 8 d), ps_pending_min_deposit = from_le (bslice 212 8 d),
      ps_pending_max_deposit = from_le (bslice 220 8 d),
      ps_pending_service_fee = from_le (bslice 228 8 d),
      ps_pending_execute_after = from_le (bslice 236 8 d),
      ps_deposit_fee_bps = from_le (bslice 244 2 d),
      ps_withdrawal_fee_bps = from_le (bslice 246 2 d),
      ps_total_btc_held = from_le (bslice 248 8 d), ps_utxo_count_lo = from_le (bslice 256 2 d),
      ps_active_tree_index = from_le (bslice 258 4 d), ps_utxo_count_hi = from_le (bslice 262 2 d),
      ps_auditor = from_le (bslice 264 32 d), ps_auditor_viewing_pubkey = from_le (bslice 296 32 d),
      ps_nullifier_count = from_le (bslice 328 4 d)\<rparr>"

definition pool_state_from_bytes :: "bytes \<Rightarrow> pool_state result" where
  "pool_state_from_bytes = layout_from_bytes POOL_STATE_LEN POOL_STATE_DISCRIMINATOR decode_pool_state"

definition is_paused :: "pool_state \<Rightarrow> bool" where
  "is_paused p \<longleftrightarrow> ps_flags p AND 1 \<noteq> 0"

definition permissioned :: "pool_state \<Rightarrow> bool" where
  "permissioned p \<longleftrightarrow> ps_flags p AND 2 \<noteq> 0"

definition set_paused :: "bool \<Rightarrow> pool_state \<Rightarrow> pool_state" where
  "set_paused paused p = p\<lparr>ps_flags := (if paused then ps_flags p OR 1 else ps_flags p AND NOT 1)\<rparr>"

text \<open>The UTXO counter is split over two 16-bit fields.\<close>

definition utxo_count :: "pool_state \<Rightarrow> u32" where
  "utxo_count p = ucast (ps_utxo_count_lo p) OR push_bit 16 (ucast (ps_utxo_count_hi p))"

definition set_utxo_count :: "u32 \<Rightarrow> pool_state \<Rightarrow> pool_state" where
  "set_utxo_count v p = p\<lparr>ps_utxo_count_lo := ucast (v AND 0xFFFF), ps_utxo_count_hi := ucast (drop_bit 16 v)\<rparr>"

definition bps_of :: "u64 \<Rightarrow> u16 \<Rightarrow> u64" where
  "bps_of amount bps = ucast (min ((ucast amount * ucast bps :: u128) div 10000) (ucast (- 1 :: u64)))"

definition compute_deposit_fee :: "pool_state \<Rightarrow> u64 \<Rightarrow> u64" where
  "compute_deposit_fee p amount = bps_of amount (ps_deposit_fee_bps p)"

definition compute_withdrawal_fee :: "pool_state \<Rightarrow> u64 \<Rightarrow> u64" where
  "compute_withdrawal_fee p amount = bps_of amount (ps_withdrawal_fee_bps p)"

definition compute_service_fee :: "pool_state \<Rightarrow> u64 \<Rightarrow> u64" where
  "compute_service_fee p amount = saturating_add (compute_withdrawal_fee p amount) (ps_service_fee_base p)"

definition add_utxos :: "u64 \<Rightarrow> u32 \<Rightarrow> pool_state \<Rightarrow> pool_state result" where
  "add_utxos amount count p =
     bindE (ok_or (checked_add (ps_total_btc_held p) amount) ArithmeticOverflow) (\<lambda>held.
     bindE (ok_or (checked_add (utxo_count p) count) ArithmeticOverflow) (\<lambda>c.
     Inr (set_utxo_count c (p\<lparr>ps_total_btc_held := held\<rparr>))))"

definition add_utxo :: "u64 \<Rightarrow> pool_state \<Rightarrow> pool_state result" where
  "add_utxo amount p =
     bindE (ok_or (checked_add (ps_total_btc_held p) amount) ArithmeticOverflow) (\<lambda>held.
     bindE (ok_or (checked_add (utxo_count p) 1) ArithmeticOverflow) (\<lambda>c.
     Inr (set_utxo_count c (p\<lparr>ps_total_btc_held := held\<rparr>))))"

definition remove_utxo :: "u64 \<Rightarrow> pool_state \<Rightarrow> pool_state result" where
  "remove_utxo amount p =
     bindE (ok_or (checked_sub (ps_total_btc_held p) amount) ArithmeticOverflow) (\<lambda>held.
     bindE (ok_or (checked_sub (utxo_count p) 1) ArithmeticOverflow) (\<lambda>c.
     Inr (set_utxo_count c (p\<lparr>ps_total_btc_held := held\<rparr>))))"

definition add_nullifiers :: "u32 \<Rightarrow> pool_state \<Rightarrow> pool_state" where
  "add_nullifiers n p = p\<lparr>ps_nullifier_count := saturating_add (ps_nullifier_count p) n\<rparr>"

definition auditor_is_frozen :: "pool_state \<Rightarrow> bool" where
  "auditor_is_frozen p \<longleftrightarrow> ps_flags p AND 4 \<noteq> 0"

definition vk_registries_are_frozen :: "pool_state \<Rightarrow> bool" where
  "vk_registries_are_frozen p \<longleftrightarrow> ps_flags p AND 8 \<noteq> 0"

definition has_pending_proposal :: "pool_state \<Rightarrow> bool" where
  "has_pending_proposal p \<longleftrightarrow> ps_pending_execute_after p \<noteq> 0"

definition set_permissioned :: "bool \<Rightarrow> pool_state \<Rightarrow> pool_state" where
  "set_permissioned v p = p\<lparr>ps_flags := (if v then ps_flags p OR 2 else ps_flags p AND NOT 2)\<rparr>"

definition set_auditor_frozen :: "bool \<Rightarrow> pool_state \<Rightarrow> pool_state" where
  "set_auditor_frozen v p = p\<lparr>ps_flags := (if v then ps_flags p OR 4 else ps_flags p AND NOT 4)\<rparr>"

definition freeze_vk_registries :: "pool_state \<Rightarrow> pool_state" where
  "freeze_vk_registries p = p\<lparr>ps_flags := ps_flags p OR 8\<rparr>"

definition clear_pending_proposal :: "pool_state \<Rightarrow> pool_state" where
  "clear_pending_proposal p = p\<lparr>ps_pending_min_deposit := 0, ps_pending_max_deposit := 0,
     ps_pending_service_fee := 0, ps_pending_execute_after := 0\<rparr>"

definition increment_deposit_count :: "pool_state \<Rightarrow> pool_state result" where
  "increment_deposit_count p =
     bindE (ok_or (checked_add (ps_deposit_count p) 1) ArithmeticOverflow) (\<lambda>v. Inr (p\<lparr>ps_deposit_count := v\<rparr>))"

definition add_minted :: "u64 \<Rightarrow> pool_state \<Rightarrow> pool_state result" where
  "add_minted amount p =
     bindE (ok_or (checked_add (ps_total_minted p) amount) ArithmeticOverflow) (\<lambda>v. Inr (p\<lparr>ps_total_minted := v\<rparr>))"

definition add_burned :: "u64 \<Rightarrow> pool_state \<Rightarrow> pool_state result" where
  "add_burned amount p =
     bindE (ok_or (checked_add (ps_total_burned p) amount) ArithmeticOverflow) (\<lambda>v. Inr (p\<lparr>ps_total_burned := v\<rparr>))"

definition add_shielded :: "u64 \<Rightarrow> pool_state \<Rightarrow> pool_state result" where
  "add_shielded amount p =
     bindE (ok_or (checked_add (ps_total_shielded p) amount) ArithmeticOverflow) (\<lambda>v. Inr (p\<lparr>ps_total_shielded := v\<rparr>))"

definition sub_shielded :: "u64 \<Rightarrow> pool_state \<Rightarrow> pool_state result" where
  "sub_shielded amount p =
     bindE (ok_or (checked_sub (ps_total_shielded p) amount) ArithmeticOverflow) (\<lambda>v. Inr (p\<lparr>ps_total_shielded := v\<rparr>))"

definition add_fee_pool :: "u64 \<Rightarrow> pool_state \<Rightarrow> pool_state result" where
  "add_fee_pool amount p =
     bindE (ok_or (checked_add (ps_fee_pool p) amount) ArithmeticOverflow) (\<lambda>v. Inr (p\<lparr>ps_fee_pool := v\<rparr>))"

section \<open>RedemptionRequest\<close>

datatype redemption_status = RPending | RProcessing | RFailed

record redemption_request =
  rr_discriminator :: u8
  rr_status :: u8
  rr_btc_script_len :: u8
  rr_signing_approved :: u8
  rr_processing_slot :: u32
  rr_request_id :: u64
  rr_requester :: pubkey
  rr_amount_sats :: u64
  rr_service_fee :: u64
  rr_total_input_sats :: u64
  rr_btc_script :: "272 word"
  rr_token_id :: hash32
  rr_reserved_count :: u8
  rr_approved_inputs :: u32
  rr_approval_miner_fee :: "24 word"
  rr_inputs_commitment :: hash32

definition REDEMPTION_REQUEST_LEN :: nat where "REDEMPTION_REQUEST_LEN = 178"

definition encode_redemption_request :: "redemption_request \<Rightarrow> bytes" where
  "encode_redemption_request x =
     byte1 (rr_discriminator x) @ byte1 (rr_status x) @ byte1 (rr_btc_script_len x) @
      byte1 (rr_signing_approved x) @ le_bytes 4 (rr_processing_slot x) @
      le_bytes 8 (rr_request_id x) @ le_bytes 32 (rr_requester x) @ le_bytes 8 (rr_amount_sats x) @
      le_bytes 8 (rr_service_fee x) @ le_bytes 8 (rr_total_input_sats x) @
      le_bytes 34 (rr_btc_script x) @ le_bytes 32 (rr_token_id x) @ byte1 (rr_reserved_count x) @
      le_bytes 4 (rr_approved_inputs x) @ le_bytes 3 (rr_approval_miner_fee x) @
      le_bytes 32 (rr_inputs_commitment x)"

definition decode_redemption_request :: "bytes \<Rightarrow> redemption_request" where
  "decode_redemption_request d =
     \<lparr>rr_discriminator = byte_at 0 d, rr_status = byte_at 1 d, rr_btc_script_len = byte_at 2 d,
      rr_signing_approved = byte_at 3 d, rr_processing_slot = from_le (bslice 4 4 d),
      rr_request_id = from_le (bslice 8 8 d), rr_requester = from_le (bslice 16 32 d),
      rr_amount_sats = from_le (bslice 48 8 d), rr_service_fee = from_le (bslice 56 8 d),
      rr_total_input_sats = from_le (bslice 64 8 d), rr_btc_script = from_le (bslice 72 34 d),
      rr_token_id = from_le (bslice 106 32 d), rr_reserved_count = byte_at 138 d,
      rr_approved_inputs = from_le (bslice 139 4 d),
      rr_approval_miner_fee = from_le (bslice 143 3 d),
      rr_inputs_commitment = from_le (bslice 146 32 d)\<rparr>"

definition redemption_request_from_bytes :: "bytes \<Rightarrow> redemption_request result" where
  "redemption_request_from_bytes = layout_from_bytes REDEMPTION_REQUEST_LEN REDEMPTION_REQUEST_DISCRIMINATOR decode_redemption_request"

definition redemption_init :: redemption_request where
  "redemption_init = decode_redemption_request (REDEMPTION_REQUEST_DISCRIMINATOR # replicate 177 0)"

definition rr_get_status :: "redemption_request \<Rightarrow> redemption_status" where
  "rr_get_status r = (if rr_status r = 0 then RPending else if rr_status r = 1 then RProcessing
     else if rr_status r = 2 then RFailed else RPending)"

definition rr_set_status :: "redemption_status \<Rightarrow> redemption_request \<Rightarrow> redemption_request" where
  "rr_set_status st r = r\<lparr>rr_status := (case st of RPending \<Rightarrow> 0 | RProcessing \<Rightarrow> 1 | RFailed \<Rightarrow> 2)\<rparr>"

text \<open>The script is a slice of a 34-byte array; a longer stored length panics.\<close>

definition get_btc_script :: "redemption_request \<Rightarrow> bytes result" where
  "get_btc_script r =
     (if unat (rr_btc_script_len r) > MAX_BTC_SCRIPT_LEN then Inl Panic
      else Inr (take (unat (rr_btc_script_len r)) (le_bytes 34 (rr_btc_script r))))"

definition set_btc_script :: "bytes \<Rightarrow> redemption_request \<Rightarrow> redemption_request result" where
  "set_btc_script script r =
     (if length script > MAX_BTC_SCRIPT_LEN then Inl InvalidArgument
      else Inr (r\<lparr>rr_btc_script := from_le (script @ drop (length script) (le_bytes 34 (rr_btc_script r))),
                  rr_btc_script_len := of_nat (length script)\<rparr>))"

definition is_signing_approved :: "redemption_request \<Rightarrow> bool" where
  "is_signing_approved r \<longleftrightarrow> rr_signing_approved r \<noteq> 0"

definition is_input_signing_approved :: "u32 \<Rightarrow> redemption_request \<Rightarrow> bool" where
  "is_input_signing_approved i r \<longleftrightarrow> i < 32 \<and> rr_approved_inputs r AND push_bit (unat i) 1 \<noteq> 0"

definition has_any_input_approved :: "redemption_request \<Rightarrow> bool" where
  "has_any_input_approved r \<longleftrightarrow> rr_approved_inputs r \<noteq> 0"

definition approval_miner_fee_sats :: "redemption_request \<Rightarrow> u64" where
  "approval_miner_fee_sats r = ucast (rr_approval_miner_fee r)"

definition all_inputs_signing_approved :: "redemption_request \<Rightarrow> bool" where
  "all_inputs_signing_approved r =
     (if rr_reserved_count r = 0 \<or> rr_reserved_count r > 32 then False
      else let required = (if rr_reserved_count r = 32 then - 1
                           else push_bit (unat (rr_reserved_count r)) 1 - 1)
           in rr_approved_inputs r AND required = required)"

definition mark_input_signing_approved :: "u32 \<Rightarrow> redemption_request \<Rightarrow> redemption_request result" where
  "mark_input_signing_approved i r =
     (if i \<ge> 32 \<or> i \<ge> ucast (rr_reserved_count r) then Inl InvalidArgument
      else let r1 = r\<lparr>rr_approved_inputs := rr_approved_inputs r OR push_bit (unat i) 1\<rparr>
           in Inr (if all_inputs_signing_approved r1 then r1\<lparr>rr_signing_approved := 1\<rparr> else r1))"

definition set_approval_miner_fee_sats :: "u64 \<Rightarrow> redemption_request \<Rightarrow> redemption_request result" where
  "set_approval_miner_fee_sats v r =
     (if v > 0x00ffffff then Inl InvalidArgument else Inr (r\<lparr>rr_approval_miner_fee := ucast v\<rparr>))"

section \<open>UtxoRecord\<close>

datatype utxo_status = UUnspent | UReserved

record utxo_record =
  ur_discriminator :: u8
  ur_status :: u8
  ur_padding :: u16
  ur_vout :: u32
  ur_txid :: hash32
  ur_amount_sats :: u64
  ur_reserved_for_request_id :: u64

definition UTXO_RECORD_LEN :: nat where "UTXO_RECORD_LEN = 56"

definition encode_utxo_record :: "utxo_record \<Rightarrow> bytes" where
  "encode_utxo_record x =
     byte1 (ur_discriminator x) @ byte1 (ur_status x) @ le_bytes 2 (ur_padding x) @
      le_bytes 4 (ur_vout x) @ le_bytes 32 (ur_txid x) @ le_bytes 8 (ur_amount_sats x) @
      le_bytes 8 (ur_reserved_for_request_id x)"

definition decode_utxo_record :: "bytes \<Rightarrow> utxo_record" where
  "decode_utxo_record d =
     \<lparr>ur_discriminator = byte_at 0 d, ur_status = byte_at 1 d, ur_padding = from_le (bslice 2 2 d),
      ur_vout = from_le (bslice 4 4 d), ur_txid = from_le (bslice 8 32 d),
      ur_amount_sats = from_le (bslice 40 8 d), ur_reserved_for_request_id = from_le (bslice 48 8 d)\<rparr>"

definition utxo_record_from_bytes :: "bytes \<Rightarrow> utxo_record result" where
  "utxo_record_from_bytes = layout_from_bytes UTXO_RECORD_LEN UTXO_RECORD_DISCRIMINATOR decode_utxo_record"

definition ur_get_status :: "utxo_record \<Rightarrow> utxo_status" where
  "ur_get_status u = (if ur_status u = 0 then UUnspent else if ur_status u = 1 then UReserved else UUnspent)"

definition ur_set_status :: "utxo_status \<Rightarrow> utxo_record \<Rightarrow> utxo_record" where
  "ur_set_status st u = u\<lparr>ur_status := (case st of UUnspent \<Rightarrow> 0 | UReserved \<Rightarrow> 1)\<rparr>"

definition leaf_commitment :: "bytes \<Rightarrow> hash32 option" where
  "leaf_commitment d = (if UTXO_RECORD_LEN + 32 \<le> length d then Some (from_le (bslice UTXO_RECORD_LEN 32 d)) else None)"

definition set_leaf_commitment :: "hash32 \<Rightarrow> bytes \<Rightarrow> bytes result" where
  "set_leaf_commitment c d =
     (if UTXO_RECORD_LEN + 32 \<le> length d
      then Inr (take UTXO_RECORD_LEN d @ bytes32 c @ drop (UTXO_RECORD_LEN + 32) d)
      else Inl AccountDataTooSmall)"

section \<open>TokenConfig and PoolConfig\<close>

record token_config =
  tc_discriminator :: u8
  tc_bump :: u8
  tc_mint :: pubkey
  tc_token_id :: hash32
  tc_vault :: pubkey
  tc_decimals :: u8
  tc_enabled :: u8
  tc_service_fee :: u64
  tc_min_deposit :: u64
  tc_max_deposit :: u64
  tc_deposit_cap :: u64
  tc_total_shielded :: u64
  tc_accumulated_fees :: u64
  tc_reserved :: u128

definition TOKEN_CONFIG_LEN :: nat where "TOKEN_CONFIG_LEN = 164"

definition encode_token_config :: "token_config \<Rightarrow> bytes" where
  "encode_token_config x =
     byte1 (tc_discriminator x) @ byte1 (tc_bump x) @ le_bytes 32 (tc_mint x) @
      le_bytes 32 (tc_token_id x) @ le_bytes 32 (tc_vault x) @ byte1 (tc_decimals x) @
      byte1 (tc_enabled x) @ le_bytes 8 (tc_service_fee x) @ le_bytes 8 (tc_min_deposit x) @
      le_bytes 8 (tc_max_deposit x) @ le_bytes 8 (tc_deposit_cap x) @
      le_bytes 8 (tc_total_shielded x) @ le_bytes 8 (tc_accumulated_fees x) @
      le_bytes 16 (tc_reserved x)"

definition decode_token_config :: "bytes \<Rightarrow> token_config" where
  "decode_token_config d =
     \<lparr>tc_discriminator = byte_at 0 d, tc_bump = byte_at 1 d, tc_mint = from_le (bslice 2 32 d),
      tc_token_id = from_le (bslice 34 32 d), tc_vault = from_le (bslice 66 32 d),
      tc_decimals = byte_at 98 d, tc_enabled = byte_at 99 d,
      tc_service_fee = from_le (bslice 100 8 d), tc_min_deposit = from_le (bslice 108 8 d),
      tc_max_deposit = from_le (bslice 116 8 d), tc_deposit_cap = from_le (bslice 124 8 d),
      tc_total_shielded = from_le (bslice 132 8 d), tc_accumulated_fees = from_le (bslice 140 8 d),
      tc_reserved = from_le (bslice 148 16 d)\<rparr>"

definition token_config_from_bytes :: "bytes \<Rightarrow> token_config result" where
  "token_config_from_bytes = layout_from_bytes TOKEN_CONFIG_LEN TOKEN_CONFIG_DISCRIMINATOR decode_token_config"

definition tc_add_shielded :: "u64 \<Rightarrow> token_config \<Rightarrow> token_config result" where
  "tc_add_shielded amount t =
     bindE (ok_or (checked_add (tc_total_shielded t) amount) ArithmeticOverflow) (\<lambda>v. Inr (t\<lparr>tc_total_shielded := v\<rparr>))"

definition tc_sub_shielded :: "u64 \<Rightarrow> token_config \<Rightarrow> token_config result" where
  "tc_sub_shielded amount t =
     bindE (ok_or (checked_sub (tc_total_shielded t) amount) ArithmeticOverflow) (\<lambda>v. Inr (t\<lparr>tc_total_shielded := v\<rparr>))"

definition tc_add_fees :: "u64 \<Rightarrow> token_config \<Rightarrow> token_config result" where
  "tc_add_fees amount t =
     bindE (ok_or (checked_add (tc_accumulated_fees t) amount) ArithmeticOverflow) (\<lambda>v. Inr (t\<lparr>tc_accumulated_fees := v\<rparr>))"

definition tc_sub_fees :: "u64 \<Rightarrow> token_config \<Rightarrow> token_config result" where
  "tc_sub_fees amount t =
     bindE (ok_or (checked_sub (tc_accumulated_fees t) amount) ArithmeticOverflow) (\<lambda>v. Inr (t\<lparr>tc_accumulated_fees := v\<rparr>))"

record pool_config =
  pc_discriminator :: u8
  pc_pool_script_len :: u8
  pc_pool_script :: "272 word"
  pc_ika_dwallet :: pubkey
  pc_ika_dwallet_xonly_pubkey :: hash32
  pc_cpi_authority_bump :: u8
  pc_reserved :: "224 word"

definition POOL_CONFIG_LEN :: nat where "POOL_CONFIG_LEN = 129"

definition encode_pool_config :: "pool_config \<Rightarrow> bytes" where
  "encode_pool_config x =
     byte1 (pc_discriminator x) @ byte1 (pc_pool_script_len x) @ le_bytes 34 (pc_pool_script x) @
      le_bytes 32 (pc_ika_dwallet x) @ le_bytes 32 (pc_ika_dwallet_xonly_pubkey x) @
      byte1 (pc_cpi_authority_bump x) @ le_bytes 28 (pc_reserved x)"

definition decode_pool_config :: "bytes \<Rightarrow> pool_config" where
  "decode_pool_config d =
     \<lparr>pc_discriminator = byte_at 0 d, pc_pool_script_len = byte_at 1 d,
      pc_pool_script = from_le (bslice 2 34 d), pc_ika_dwallet = from_le (bslice 36 32 d),
      pc_ika_dwallet_xonly_pubkey = from_le (bslice 68 32 d), pc_cpi_authority_bump = byte_at 100 d,
      pc_reserved = from_le (bslice 101 28 d)\<rparr>"

definition pool_config_from_bytes :: "bytes \<Rightarrow> pool_config result" where
  "pool_config_from_bytes = layout_from_bytes POOL_CONFIG_LEN POOL_CONFIG_DISCRIMINATOR decode_pool_config"

definition get_pool_script :: "pool_config \<Rightarrow> bytes" where
  "get_pool_script c =
     (let n = unat (pc_pool_script_len c) in
      if n = 0 \<or> n > 34 then [] else take n (le_bytes 34 (pc_pool_script c)))"

definition set_pool_script :: "bytes \<Rightarrow> pool_config \<Rightarrow> pool_config result" where
  "set_pool_script script c =
     (if length script > 34 then Inl InvalidInstructionData
      else Inr (c\<lparr>pc_pool_script_len := of_nat (length script),
                  pc_pool_script := from_le (script @ replicate (34 - length script) 0)\<rparr>))"

section \<open>Account validation\<close>

definition validate_program_owner :: "env \<Rightarrow> store \<Rightarrow> account_info \<Rightarrow> unit result" where
  "validate_program_owner E s a = ensure (owner (s (key a)) = program_id E) UxInvalidAccountOwner"

definition validate_account_writable :: "account_info \<Rightarrow> unit result" where
  "validate_account_writable a = ensure (is_writable a) AccountNotWritable"

definition validate_pool_state_pda :: "env \<Rightarrow> store \<Rightarrow> account_info \<Rightarrow> unit result" where
  "validate_pool_state_pda E s a =
     bindE (validate_program_owner E s a) (\<lambda>_.
     bindE (pool_state_from_bytes (adata (s (key a)))) (\<lambda>pool.
     let pda = find_program_address E [POOL_STATE_SEED, bytes32 (ps_zkbtc_mint pool)] in
     ensure (key a = fst pda \<and> ps_bump pool = snd pda) InvalidSeeds))"

definition validate_pool_config_pda :: "env \<Rightarrow> store \<Rightarrow> account_info \<Rightarrow> account_info \<Rightarrow> unit result" where
  "validate_pool_config_pda E s cfg pool =
     bindE (validate_program_owner E s cfg) (\<lambda>_.
     bindE (validate_pool_state_pda E s pool) (\<lambda>_.
     ensure (key cfg = fst (find_program_address E [POOL_CONFIG_SEED, bytes32 (key pool)])) InvalidSeeds))"

definition redemption_address :: "env \<Rightarrow> pubkey \<Rightarrow> redemption_request \<Rightarrow> pubkey" where
  "redemption_address E pool r =
     fst (find_program_address E [REDEMPTION_SEED, bytes32 pool, bytes32 (rr_requester r), bytes8 (rr_request_id r)])"

definition validate_redemption_pda :: "env \<Rightarrow> store \<Rightarrow> account_info \<Rightarrow> account_info \<Rightarrow> unit result" where
  "validate_redemption_pda E s red pool =
     bindE (validate_program_owner E s red) (\<lambda>_.
     bindE (validate_pool_state_pda E s pool) (\<lambda>_.
     bindE (redemption_request_from_bytes (adata (s (key red)))) (\<lambda>r.
     ensure (key red = redemption_address E (key pool) r) InvalidSeeds)))"

definition validate_active_tree_pda :: "env \<Rightarrow> store \<Rightarrow> account_info \<Rightarrow> account_info \<Rightarrow> u32 \<Rightarrow> unit result" where
  "validate_active_tree_pda E s tree pool active_index =
     bindE (validate_pool_state_pda E s pool) (\<lambda>_.
     ensure (key tree = fst (find_program_address E [TREE_SEED, bytes32 (key pool), bytes4 active_index])) InvalidSeeds)"

definition redemption_reservation_key :: "env \<Rightarrow> pubkey \<Rightarrow> u64" where
  "redemption_reservation_key E pda = from_le (take 8 (bytes32 (rt_sha256 E (bytes32 pda))))"

definition close_account_securely :: "pubkey \<Rightarrow> pubkey \<Rightarrow> store \<Rightarrow> store result" where
  "close_account_securely a dest s =
     (let s1 = (if adata (s a) = [] then s else set_data a (0xFF # replicate (length (adata (s a)) - 1) 0) s);
          l = lamports (s1 a) in
      if l = 0 then Inr s1
      else let s2 = s1(a := (s1 a)\<lparr>lamports := 0\<rparr>) in
           bindE (ok_or (checked_add (lamports (s2 dest)) l) ArithmeticOverflow) (\<lambda>v.
           Inr (s2(dest := (s2 dest)\<lparr>lamports := v\<rparr>))))"

definition create_pda_account :: "env \<Rightarrow> pubkey \<Rightarrow> pubkey \<Rightarrow> u64 \<Rightarrow> u64 \<Rightarrow> nat \<Rightarrow> store \<Rightarrow> store result" where
  "create_pda_account E payer pda lam space n_seeds s =
     (if n_seeds > 5 then Inl MaxSeedLengthExceeded else create_or_claim_pda E payer pda lam space s)"

section \<open>Signing policy\<close>

definition redemption_driver_is_allowed :: "pubkey \<Rightarrow> pubkey \<Rightarrow> pubkey \<Rightarrow> unit result" where
  "redemption_driver_is_allowed signer pool_authority requester =
     ensure (signer = pool_authority \<or> signer = requester) Unauthorized"

definition compute_bps_fee :: "u64 \<Rightarrow> u16 \<Rightarrow> u64" where
  "compute_bps_fee amount fee_bps =
     (let fee = ucast ((ucast amount * ucast fee_bps :: u128) div 10000) in
      if fee = 0 \<and> amount > 0 \<and> fee_bps > 0 then 1 else fee)"

definition check_redemption_signing :: "pool_state \<Rightarrow> u64 \<Rightarrow> u64 \<Rightarrow> unit result" where
  "check_redemption_signing pool amount_sats miner_fee_sats =
     (if is_paused pool then Inl PoolPaused
      else if amount_sats > MAX_REDEMPTION_AMOUNT_SATS then Inl RedemptionAmountExceedsLimit
      else if miner_fee_sats > MAX_MINER_FEE_SATS then Inl RedemptionFeeExceedsLimit
      else Inr ())"

section \<open>The layouts satisfy the interface\<close>

lemmas ux_layout_simps =
  encode_pool_state_def decode_pool_state_def encode_redemption_request_def decode_redemption_request_def
  encode_utxo_record_def decode_utxo_record_def encode_token_config_def decode_token_config_def
  encode_pool_config_def decode_pool_config_def
  POOL_STATE_LEN_def REDEMPTION_REQUEST_LEN_def UTXO_RECORD_LEN_def TOKEN_CONFIG_LEN_def POOL_CONFIG_LEN_def
  slice_simps from_le_le_bytes le_bytes_from_le slice_join byte1_byte_at bslice_0_take take_join first_byte_append

interpretation psl: account_layout POOL_STATE_LEN POOL_STATE_DISCRIMINATOR ps_discriminator
    encode_pool_state decode_pool_state
  by unfold_locales (simp_all add: ux_layout_simps)

interpretation rrl: account_layout REDEMPTION_REQUEST_LEN REDEMPTION_REQUEST_DISCRIMINATOR rr_discriminator
    encode_redemption_request decode_redemption_request
  by unfold_locales (simp_all add: ux_layout_simps)

interpretation url: account_layout UTXO_RECORD_LEN UTXO_RECORD_DISCRIMINATOR ur_discriminator
    encode_utxo_record decode_utxo_record
  by unfold_locales (simp_all add: ux_layout_simps)

interpretation tcl: account_layout TOKEN_CONFIG_LEN TOKEN_CONFIG_DISCRIMINATOR tc_discriminator
    encode_token_config decode_token_config
  by unfold_locales (simp_all add: ux_layout_simps)

interpretation pcl: account_layout POOL_CONFIG_LEN POOL_CONFIG_DISCRIMINATOR pc_discriminator
    encode_pool_config decode_pool_config
  by unfold_locales (simp_all add: ux_layout_simps)

end
