(* ===== verification/UX_Crypto.thy ===== *)
theory UX_Crypto
  imports UX_State
begin

text \<open>
  Hashing into the BN254 scalar field (\<open>utils/crypto.rs\<close>). A 32-byte value is read
  big-endian by the field operations; \<open>be_nat\<close> is that reading. The Poseidon syscall is a
  field of the environment, called on reduced inputs only; \<open>poseidon_spec\<close> names what the
  code relies on: the syscall succeeds on canonical field elements. The bound-parameter hashes
  are given with the exact preimages they feed to SHA-256.
\<close>

section \<open>The scalar field\<close>

definition BN254_FR_MODULUS :: bytes where
  "BN254_FR_MODULUS =
     [0x30, 0x64, 0x4e, 0x72, 0xe1, 0x31, 0xa0, 0x29, 0xb8, 0x50, 0x45, 0xb6, 0x81, 0x81, 0x58, 0x5d,
      0x28, 0x33, 0xe8, 0x48, 0x79, 0xb9, 0x70, 0x91, 0x43, 0xe1, 0xf5, 0x93, 0xf0, 0x00, 0x00, 0x01]"

definition be_nat :: "hash32 \<Rightarrow> nat" where
  "be_nat h = le_nat (rev (bytes32 h))"

definition FR :: nat where
  "FR = 21888242871839275222246405745257275088548364400416034343698204186575808495617"

fun ge_bytes :: "bytes \<Rightarrow> bytes \<Rightarrow> bool" where
  "ge_bytes (v # vs) (m # ms) = (if v < m then False else if v > m then True else ge_bytes vs ms)"
| "ge_bytes _ _ = True"

definition is_ge_modulus :: "hash32 \<Rightarrow> bool" where
  "is_ge_modulus val = ge_bytes (bytes32 val) BN254_FR_MODULUS"

definition is_canonical_fr :: "hash32 \<Rightarrow> bool" where
  "is_canonical_fr val \<longleftrightarrow> \<not> is_ge_modulus val"

text \<open>The subtraction loop, from the last byte to the first; the borrow is a \<open>u16\<close>.\<close>

fun sub_borrow :: "bytes \<Rightarrow> bytes \<Rightarrow> u16 \<Rightarrow> bytes" where
  "sub_borrow (v # vs) (m # ms) borrow =
     (let diff = ucast v - ucast m - borrow
      in ucast diff # sub_borrow vs ms (if diff > 0xFF then 1 else 0))"
| "sub_borrow _ _ _ = []"

definition subtract_modulus :: "hash32 \<Rightarrow> hash32" where
  "subtract_modulus val = from_le (rev (sub_borrow (rev (bytes32 val)) (rev BN254_FR_MODULUS) 0))"

lemma modulus_value: "le_nat (rev BN254_FR_MODULUS) = FR"
  by (simp add: BN254_FR_MODULUS_def FR_def)

lemma FR_pos [simp]: "0 < FR"
  by (simp add: FR_def)

lemma length_modulus [simp]: "length BN254_FR_MODULUS = 32"
  by (simp add: BN254_FR_MODULUS_def)

lemma ge_bytes_iff: "length vs = length ms \<Longrightarrow> ge_bytes vs ms \<longleftrightarrow> le_nat (rev ms) \<le> le_nat (rev vs)"
proof (induction vs ms rule: list_induct2)
  case (Cons v vs m ms)
  let ?n = "256 ^ length ms :: nat"
  have b: "le_nat (rev vs) < ?n" "le_nat (rev ms) < ?n"
    using le_nat_bound [of "rev vs"] le_nat_bound [of "rev ms"] Cons.hyps by simp_all
  have step: "le_nat (rev xs) < ?n \<Longrightarrow> x < y \<Longrightarrow> le_nat (rev xs) + ?n * unat x < le_nat (rev ys) + ?n * unat y"
    for x y :: u8 and xs ys
  proof -
    assume "le_nat (rev xs) < ?n" "x < y"
    then have "unat x + 1 \<le> unat y" by (simp add: word_less_nat_alt)
    then have "?n * unat x + ?n \<le> ?n * unat y"
      by (metis mult_le_mono2 distrib_left mult.right_neutral)
    with \<open>le_nat (rev xs) < ?n\<close> show ?thesis by linarith
  qed
  consider "v < m" | "m < v" | "v = m" by (metis linorder_neqE)
  then show ?case
  proof cases
    case 1
    with step [OF b(1) 1, of ms] Cons.hyps show ?thesis by (simp add: le_nat_append)
  next
    case 2
    with step [OF b(2) 2, of vs] Cons.hyps show ?thesis by (simp add: le_nat_append)
  next
    case 3
    with Cons show ?thesis by (simp add: le_nat_append)
  qed
qed simp

lemma is_ge_modulus_iff: "is_ge_modulus val \<longleftrightarrow> FR \<le> be_nat val"
  by (simp add: is_ge_modulus_def ge_bytes_iff be_nat_def modulus_value)

lemma length_sub_borrow [simp]: "length (sub_borrow vs ms b) = min (length vs) (length ms)"
  by (induction vs ms b rule: sub_borrow.induct) (simp_all add: Let_def)

lemma borrow_digit:
  fixes v m :: u8 and b :: u16
  defines "d \<equiv> ucast v - ucast m - b"
  assumes "unat b \<le> 1"
  shows "int (unat (ucast d :: u8)) = int (unat v) - int (unat m) - int (unat b) + 256 * (if d > 0xFF then 1 else 0)"
proof -
  define x where "x = int (unat v) - int (unat m) - int (unat b)"
  have range: "- 256 \<le> x" "x \<le> 255"
    using unat_u8_bound [of v] unat_u8_bound [of m] assms(2) unfolding x_def by linarith+
  have d: "uint d = x mod 65536"
    by (simp add: d_def x_def uint_word_ariths(2) mod_simps uint_up_ucast is_up)
  have "int (unat (ucast d :: u8)) = int (unat d mod 256)"
    unfolding unat_ucast_mod by simp
  with d have w: "int (unat (ucast d :: u8)) = x mod 65536 mod 256"
    unfolding zmod_int by simp
  have g: "d > 0xFF \<longleftrightarrow> 255 < x mod 65536" by (simp add: word_less_def d)
  show ?thesis
  proof (cases "0 \<le> x")
    case True
    with range have "x mod 65536 = x" "x mod 256 = x" by simp_all
    with w g range show ?thesis by (simp add: x_def)
  next
    case False
    have "x mod 65536 = (x + 65536) mod 65536" by (rule mod_add_self2 [symmetric])
    also have "\<dots> = x + 65536" by (rule mod_pos_pos_trivial) (use False range in linarith)+
    finally have 1: "x mod 65536 = x + 65536" .
    have "x mod 65536 mod 256 = x mod 256" by (rule mod_mod_cancel) simp
    also have "\<dots> = (x + 256) mod 256" by (rule mod_add_self2 [symmetric])
    also have "\<dots> = x + 256" by (rule mod_pos_pos_trivial) (use False range in linarith)+
    finally have "x mod 65536 mod 256 = x + 256" .
    with w g 1 range show ?thesis by (simp add: x_def)
  qed
qed

lemma sub_borrow_value:
  "length vs = length ms \<Longrightarrow> unat b \<le> 1 \<Longrightarrow>
     \<exists>c \<ge> 0. int (le_nat (sub_borrow vs ms b)) = int (le_nat vs) - int (le_nat ms) - int (unat b) + 256 ^ length vs * c"
proof (induction vs ms arbitrary: b rule: list_induct2)
  case Nil
  show ?case by (rule exI [of _ "int (unat b)"]) simp
next
  case (Cons v vs m ms)
  define d where "d = ucast v - ucast m - b"
  define b' where "b' = (if d > 0xFF then 1 else 0 :: u16)"
  have b': "unat b' \<le> 1" "int (unat b') = (if d > 0xFF then 1 else 0)" by (simp_all add: b'_def)
  obtain c where "0 \<le> c" and
    c: "int (le_nat (sub_borrow vs ms b')) = int (le_nat vs) - int (le_nat ms) - int (unat b') + 256 ^ length vs * c"
    using Cons.IH [OF b'(1)] by blast
  have digit: "int (unat (ucast d :: u8)) = int (unat v) - int (unat m) - int (unat b) + 256 * int (unat b')"
    using borrow_digit [OF Cons.prems, of v m] b'(2) by (simp add: d_def)
  have "int (le_nat (sub_borrow (v # vs) (m # ms) b)) =
      int (unat (ucast d :: u8)) + 256 * int (le_nat (sub_borrow vs ms b'))"
    by (simp add: Let_def d_def [symmetric] b'_def [symmetric])
  also have "\<dots> = int (le_nat (v # vs)) - int (le_nat (m # ms)) - int (unat b) + 256 ^ length (v # vs) * c"
    unfolding digit c by (simp add: algebra_simps)
  finally show ?case using \<open>0 \<le> c\<close> by blast
qed

lemma be_nat_bound: "be_nat v < 256 ^ 32"
  using le_nat_bound [of "rev (bytes32 v)"] by (simp add: be_nat_def)

lemma be_nat_from: "length bs = 32 \<Longrightarrow> be_nat (from_le bs) = le_nat (rev bs)"
  by (simp add: be_nat_def)

lemma be_nat_subtract:
  assumes "FR \<le> be_nat v"
  shows "be_nat (subtract_modulus v) = be_nat v - FR"
proof -
  let ?r = "sub_borrow (rev (bytes32 v)) (rev BN254_FR_MODULUS) 0"
  obtain c where "0 \<le> c" and
    c: "int (le_nat ?r) = int (be_nat v) - int FR + 256 ^ 32 * c"
    using sub_borrow_value [of "rev (bytes32 v)" "rev BN254_FR_MODULUS" 0]
    by (auto simp: be_nat_def modulus_value)
  have "le_nat ?r < 256 ^ 32" using le_nat_bound [of ?r] by simp
  then have "int (le_nat ?r) < 256 ^ 32" by (metis of_nat_less_iff of_nat_numeral of_nat_power)
  moreover have "256 ^ 32 * 1 \<le> 256 ^ 32 * c" if "c \<noteq> 0"
    using that \<open>0 \<le> c\<close> by (intro mult_left_mono) simp_all
  ultimately have "c = 0" using c assms by (cases "c = 0") linarith+
  then have "le_nat ?r = be_nat v - FR" using c assms by simp
  then show ?thesis by (simp add: subtract_modulus_def be_nat_from)
qed

function reduce_to_field_exact :: "hash32 \<Rightarrow> hash32" where
  "reduce_to_field_exact val =
     (if is_ge_modulus val then reduce_to_field_exact (subtract_modulus val) else val)"
  by pat_completeness auto

termination
  by (relation "measure be_nat") (auto simp: is_ge_modulus_iff be_nat_subtract dest: less_le_trans [OF FR_pos])

declare reduce_to_field_exact.simps [simp del]

lemma be_nat_inj: "be_nat a = be_nat b \<longleftrightarrow> a = b"
proof
  assume "be_nat a = be_nat b"
  then have "rev (bytes32 a) = rev (bytes32 b)" unfolding be_nat_def by (rule le_nat_inj [rotated]) simp
  then show "a = b" by simp
qed simp

lemma be_nat_reduce: "be_nat (reduce_to_field_exact v) = be_nat v mod FR"
proof (induction v rule: reduce_to_field_exact.induct)
  case (1 v)
  show ?case
  proof (cases "is_ge_modulus v")
    case True
    then have "FR \<le> be_nat v" by (simp add: is_ge_modulus_iff)
    with 1 True show ?thesis
      by (simp add: reduce_to_field_exact.simps [of v] be_nat_subtract le_mod_geq)
  next
    case False
    then show ?thesis by (simp add: reduce_to_field_exact.simps [of v] is_ge_modulus_iff)
  qed
qed

lemma canonical_iff: "is_canonical_fr v \<longleftrightarrow> be_nat v < FR"
  by (simp add: is_canonical_fr_def is_ge_modulus_iff not_le)

lemma reduce_canonical [simp]: "is_canonical_fr (reduce_to_field_exact v)"
  by (simp add: canonical_iff be_nat_reduce)

lemma reduce_id: "is_canonical_fr v \<Longrightarrow> reduce_to_field_exact v = v"
  by (simp add: reduce_to_field_exact.simps [of v] is_canonical_fr_def)

section \<open>Poseidon\<close>

definition poseidon2_hash :: "env \<Rightarrow> hash32 \<Rightarrow> hash32 \<Rightarrow> hash32 result" where
  "poseidon2_hash E left right =
     (case rt_poseidon2 E (reduce_to_field_exact left) (reduce_to_field_exact right) of
        Inl _ \<Rightarrow> Inl InvalidArgument | Inr h \<Rightarrow> Inr h)"

definition poseidon3_hash :: "env \<Rightarrow> hash32 \<Rightarrow> hash32 \<Rightarrow> hash32 \<Rightarrow> hash32 result" where
  "poseidon3_hash E a b c =
     (case rt_poseidon3 E (reduce_to_field_exact a) (reduce_to_field_exact b) (reduce_to_field_exact c) of
        Inl _ \<Rightarrow> Inl InvalidArgument | Inr h \<Rightarrow> Inr h)"

text \<open>The 32-byte big-endian encoding of a \<open>u64\<close>, as the amount of a commitment.\<close>

definition be_amount :: "u64 \<Rightarrow> hash32" where
  "be_amount amount = from_le (replicate 24 0 @ rev (bytes8 amount))"

definition compute_commitment :: "env \<Rightarrow> hash32 \<Rightarrow> hash32 \<Rightarrow> u64 \<Rightarrow> hash32 result" where
  "compute_commitment E npk token_id amount_sats = poseidon3_hash E npk token_id (be_amount amount_sats)"

definition compute_token_id :: "env \<Rightarrow> hash32 \<Rightarrow> hash32 result" where
  "compute_token_id E mint_bytes = poseidon2_hash E (reduce_to_field_exact mint_bytes) 0"

fun compute_merkle_root :: "env \<Rightarrow> hash32 \<Rightarrow> u64 \<Rightarrow> hash32 list \<Rightarrow> hash32 result" where
  "compute_merkle_root E current index [] = Inr current"
| "compute_merkle_root E current index (sibling # siblings) =
     bindE (if index AND 1 = 0 then poseidon2_hash E current sibling else poseidon2_hash E sibling current)
       (\<lambda>h. compute_merkle_root E h (index div 2) siblings)"

text \<open>What the code relies on: the syscall succeeds on canonical field elements.\<close>

definition poseidon_spec :: "env \<Rightarrow> (hash32 \<Rightarrow> hash32 \<Rightarrow> hash32) \<Rightarrow> bool" where
  "poseidon_spec E h \<longleftrightarrow>
     (\<forall>a b. is_canonical_fr a \<longrightarrow> is_canonical_fr b \<longrightarrow> rt_poseidon2 E a b = Inr (h a b))"

definition field_hash :: "(hash32 \<Rightarrow> hash32 \<Rightarrow> hash32) \<Rightarrow> hash32 \<Rightarrow> hash32 \<Rightarrow> hash32" where
  "field_hash h a b = h (reduce_to_field_exact a) (reduce_to_field_exact b)"

lemma poseidon2_total: "poseidon_spec E h \<Longrightarrow> poseidon2_hash E a b = Inr (field_hash h a b)"
  by (simp add: poseidon_spec_def poseidon2_hash_def field_hash_def)

section \<open>Domain separation and bound parameters\<close>

definition DOMAIN_SEPARATOR_TAG :: bytes where
  "DOMAIN_SEPARATOR_TAG = ascii ''UTXOPIA_DOMAIN_V1''"

definition domain_preimage :: "u64 \<Rightarrow> pubkey \<Rightarrow> pubkey \<Rightarrow> bool \<Rightarrow> bytes" where
  "domain_preimage chain_id prog pool perm =
     DOMAIN_SEPARATOR_TAG @ bytes8 chain_id @ bytes32 prog @ bytes32 pool @ [if perm then 1 else 0]"

definition compute_domain_separator :: "env \<Rightarrow> u64 \<Rightarrow> pubkey \<Rightarrow> pubkey \<Rightarrow> bool \<Rightarrow> hash32" where
  "compute_domain_separator E chain_id prog pool perm =
     reduce_to_field_exact (rt_sha256 E (domain_preimage chain_id prog pool perm))"

definition bind_bound_params_to_domain :: "env \<Rightarrow> hash32 \<Rightarrow> u64 \<Rightarrow> pubkey \<Rightarrow> pubkey \<Rightarrow> bool \<Rightarrow> hash32 result" where
  "bind_bound_params_to_domain E operation_hash chain_id prog pool perm =
     poseidon2_hash E (compute_domain_separator E chain_id prog pool perm) operation_hash"

definition private_transfer_preimage :: "u64 \<Rightarrow> hash32 \<Rightarrow> bytes" where
  "private_transfer_preimage chain_id stealth =
     replicate 4 0 @ [0] @ replicate 32 0 @ bytes8 chain_id @ bytes32 stealth"

definition compute_bound_params_hash_private_transfer :: "env \<Rightarrow> u64 \<Rightarrow> hash32 \<Rightarrow> hash32" where
  "compute_bound_params_hash_private_transfer E chain_id stealth =
     reduce_to_field_exact (rt_sha256 E (private_transfer_preimage chain_id stealth))"

definition unshield_preimage :: "u64 \<Rightarrow> hash32 \<Rightarrow> hash32 \<Rightarrow> bytes" where
  "unshield_preimage chain_id destinations_hash stealth =
     replicate 4 0 @ [1] @ bytes32 destinations_hash @ bytes8 chain_id @ bytes32 stealth"

definition compute_bound_params_hash_unshield :: "env \<Rightarrow> u64 \<Rightarrow> bytes \<Rightarrow> hash32 \<Rightarrow> hash32" where
  "compute_bound_params_hash_unshield E chain_id owners_concat stealth =
     reduce_to_field_exact (rt_sha256 E (unshield_preimage chain_id (rt_sha256 E owners_concat) stealth))"

text \<open>The buffer of \<open>length_prefixed_hash\<close> is bounded; writing past it panics.\<close>

definition MAX_PUBLIC_OUTPUTS :: nat where "MAX_PUBLIC_OUTPUTS = 3"
definition LPH_CAP :: nat where "LPH_CAP = 4 + MAX_PUBLIC_OUTPUTS * (4 + MAX_BTC_SCRIPT_LEN)"

fun lph_fill :: "bytes \<Rightarrow> bytes list \<Rightarrow> bytes result" where
  "lph_fill buf [] = Inr buf"
| "lph_fill buf (it # its) =
     (let b1 = buf @ le_bytes 4 (of_nat (length it) :: u32) in
      if length b1 > LPH_CAP then Inl Panic
      else if length (b1 @ it) > LPH_CAP then Inl Panic
      else lph_fill (b1 @ it) its)"

definition length_prefixed_buffer :: "bytes list \<Rightarrow> bytes result" where
  "length_prefixed_buffer items = lph_fill (le_bytes 4 (of_nat (length items) :: u32)) items"

definition length_prefixed_hash :: "env \<Rightarrow> bytes list \<Rightarrow> hash32 result" where
  "length_prefixed_hash E items =
     bindE (length_prefixed_buffer items) (\<lambda>buf. Inr (rt_sha256 E buf))"

definition redeem_preimage :: "u64 \<Rightarrow> hash32 \<Rightarrow> hash32 \<Rightarrow> pubkey \<Rightarrow> bytes" where
  "redeem_preimage chain_id script_hash stealth requester =
     replicate 4 0 @ [2] @ bytes32 script_hash @ bytes8 chain_id @ bytes32 stealth @ bytes32 requester"

definition compute_bound_params_hash_redeem :: "env \<Rightarrow> u64 \<Rightarrow> bytes list \<Rightarrow> hash32 \<Rightarrow> pubkey \<Rightarrow> hash32 result" where
  "compute_bound_params_hash_redeem E chain_id btc_scripts stealth requester =
     bindE (length_prefixed_hash E btc_scripts) (\<lambda>script_hash.
       Inr (reduce_to_field_exact (rt_sha256 E (redeem_preimage chain_id script_hash stealth requester))))"

section \<open>What the hashes bind\<close>

text \<open>
  C40. The field reduction that Poseidon inputs and all bound-parameter hashes pass through
  terminates and is the residue of the big-endian value modulo the BN254 scalar order; it is
  canonical, and the identity on canonical values. The byte-wise comparison and the subtraction
  with a 16-bit borrow of the source are thereby the comparison and subtraction of numbers.
\<close>

theorem reduce_to_field_exact_is_mod:
  "be_nat (reduce_to_field_exact v) = be_nat v mod FR \<and>
   is_canonical_fr (reduce_to_field_exact v) \<and>
   (is_canonical_fr v \<longleftrightarrow> be_nat v < FR) \<and>
   (reduce_to_field_exact v = v \<longleftrightarrow> is_canonical_fr v)"
  using be_nat_reduce reduce_canonical canonical_iff reduce_id by metis

text \<open>The filled buffer, when it does not panic.\<close>

definition item_bytes :: "bytes \<Rightarrow> bytes" where
  "item_bytes it = le_bytes 4 (of_nat (length it) :: u32) @ it"

lemma lph_fill_value: "lph_fill buf items = Inr d \<Longrightarrow> d = buf @ concat (map item_bytes items)"
  by (induction buf items rule: lph_fill.induct) (auto simp: Let_def item_bytes_def split: if_splits)

lemma lph_fill_fits:
  "length buf + length (concat (map item_bytes items)) \<le> LPH_CAP \<Longrightarrow> \<exists>d. lph_fill buf items = Inr d"
  by (induction buf items rule: lph_fill.induct) (simp_all add: Let_def item_bytes_def)

lemma lph_fill_bounded:
  "lph_fill buf items = Inr d \<Longrightarrow> length buf \<le> LPH_CAP \<Longrightarrow> length d \<le> LPH_CAP"
  by (induction buf items rule: lph_fill.induct) (auto simp: Let_def split: if_splits)

lemma concat_items_inj:
  assumes "length xs = length ys"
    and "list_all (\<lambda>b. length b < 2 ^ 32) xs" and "list_all (\<lambda>b. length b < 2 ^ 32) ys"
    and "concat (map item_bytes xs) = concat (map item_bytes ys)"
  shows "xs = ys"
  using assms
proof (induction xs ys rule: list_induct2)
  case (Cons x xs y ys)
  have "le_bytes 4 (of_nat (length x) :: u32) = le_bytes 4 (of_nat (length y) :: u32)"
    and rest: "x @ concat (map item_bytes xs) = y @ concat (map item_bytes ys)"
    using Cons.prems by (simp_all add: item_bytes_def [of x] item_bytes_def [of y])
  then have "(of_nat (length x) :: u32) = of_nat (length y)" by (metis from_le_bytes4)
  then have "unat (of_nat (length x) :: u32) = unat (of_nat (length y) :: u32)" by simp
  then have "length x = length y" using Cons.prems by (simp add: unat_of_nat)
  with rest Cons show ?case by simp
qed simp

lemma lph_buffer:
  assumes "length_prefixed_buffer items = Inr d"
  shows "d = le_bytes 4 (of_nat (length items) :: u32) @ concat (map item_bytes items)"
    and "length items < 2 ^ 32" and "list_all (\<lambda>b. length b < 2 ^ 32) items"
proof -
  show d: "d = le_bytes 4 (of_nat (length items) :: u32) @ concat (map item_bytes items)"
    using assms lph_fill_value by (auto simp: length_prefixed_buffer_def)
  have "length d \<le> LPH_CAP"
    using assms by (auto simp: length_prefixed_buffer_def LPH_CAP_def dest: lph_fill_bounded)
  then have cap: "length (concat (map item_bytes items)) < 2 ^ 32"
    by (simp add: d LPH_CAP_def MAX_PUBLIC_OUTPUTS_def MAX_BTC_SCRIPT_LEN_def)
  have "length xs \<le> length (concat (map item_bytes xs))" for xs
    by (induction xs) (simp_all add: item_bytes_def)
  with cap show "length items < 2 ^ 32" using le_less_trans by blast
  have "length b \<le> length (concat (map item_bytes items))" if "b \<in> set items" for b
    using that by (induction items) (auto simp: item_bytes_def)
  with cap show "list_all (\<lambda>b. length b < 2 ^ 32) items"
    unfolding list_all_iff using le_less_trans by blast
qed

text \<open>
  Re-slicing attack: two script lists that are hashed from the same buffer by
  \<open>length_prefixed_hash\<close> are the same list, so a redeem proof bound to one partition of
  the script bytes is not bound to another; and at most three scripts of at most 34 bytes never
  overflow the stack buffer.
\<close>

theorem length_prefixed_buffer_binds:
  "(length_prefixed_buffer xs = Inr d \<and> length_prefixed_buffer ys = Inr d \<longrightarrow> xs = ys) \<and>
   (length zs \<le> MAX_PUBLIC_OUTPUTS \<and> list_all (\<lambda>b. length b \<le> MAX_BTC_SCRIPT_LEN) zs \<longrightarrow>
      (\<exists>d. length_prefixed_buffer zs = Inr d))"
proof (intro conjI impI; elim conjE)
  assume x: "length_prefixed_buffer xs = Inr d" and y: "length_prefixed_buffer ys = Inr d"
  note lx = lph_buffer [OF x] and ly = lph_buffer [OF y]
  have "le_bytes 4 (of_nat (length xs) :: u32) = le_bytes 4 (of_nat (length ys) :: u32)"
    and c: "concat (map item_bytes xs) = concat (map item_bytes ys)"
    using lx(1) ly(1) by simp_all
  then have "(of_nat (length xs) :: u32) = of_nat (length ys)" by (metis from_le_bytes4)
  then have "unat (of_nat (length xs) :: u32) = unat (of_nat (length ys) :: u32)" by simp
  then have "length xs = length ys" using lx(2) ly(2) by (simp add: unat_of_nat)
  then show "xs = ys" using lx(3) ly(3) c by (rule concat_items_inj)
next
  assume n: "length zs \<le> MAX_PUBLIC_OUTPUTS" and b: "list_all (\<lambda>b. length b \<le> MAX_BTC_SCRIPT_LEN) zs"
  from b have "length (concat (map item_bytes zs)) \<le> length zs * (4 + MAX_BTC_SCRIPT_LEN)"
    by (induction zs) (simp_all add: item_bytes_def)
  also have "\<dots> \<le> MAX_PUBLIC_OUTPUTS * (4 + MAX_BTC_SCRIPT_LEN)" using n by (rule mult_le_mono1)
  finally show "\<exists>d. length_prefixed_buffer zs = Inr d"
    unfolding length_prefixed_buffer_def by (intro lph_fill_fits) (simp add: LPH_CAP_def)
qed

theorem length_prefixed_buffer_binds_witness:
  "length_prefixed_buffer [[1, 2], [3]] \<noteq> length_prefixed_buffer [[1], [2, 3]]"
proof
  assume eq: "length_prefixed_buffer [[1, 2], [3]] = length_prefixed_buffer [[1], [2, 3]]"
  have "\<exists>d. length_prefixed_buffer [[1, 2], [3]] = Inr d"
    by (rule length_prefixed_buffer_binds [THEN conjunct2, THEN mp])
      (simp add: MAX_PUBLIC_OUTPUTS_def MAX_BTC_SCRIPT_LEN_def)
  then obtain d where "length_prefixed_buffer [[1, 2], [3]] = Inr d" ..
  with eq have "[[1, 2], [3]] = [[1], [2, 3 :: u8]]"
    using length_prefixed_buffer_binds [THEN conjunct1, of "[[1, 2], [3]]" d "[[1], [2, 3]]"] by simp
  then show False by simp
qed

text \<open>
  Domain separation: the preimages of the domain separator and of the three kinds of
  bound-parameter hash determine every field they bind (chain, program, pool and kind;
  destinations or scripts, stealth data and requester), and preimages of different operations
  never coincide.
\<close>

theorem bound_params_preimages_separate:
  "(domain_preimage c p q k = domain_preimage c' p' q' k' \<longleftrightarrow> (c, p, q, k) = (c', p', q', k')) \<and>
   (private_transfer_preimage c s = private_transfer_preimage c' s' \<longleftrightarrow> (c, s) = (c', s')) \<and>
   (unshield_preimage c a s = unshield_preimage c' a' s' \<longleftrightarrow> (c, a, s) = (c', a', s')) \<and>
   (redeem_preimage c a s r = redeem_preimage c' a' s' r' \<longleftrightarrow> (c, a, s, r) = (c', a', s', r')) \<and>
   private_transfer_preimage c s \<noteq> unshield_preimage c' a' s' \<and>
   private_transfer_preimage c s \<noteq> redeem_preimage c' a' s' r' \<and>
   unshield_preimage c a s \<noteq> redeem_preimage c' a' s' r'"
  by (auto simp: domain_preimage_def private_transfer_preimage_def unshield_preimage_def redeem_preimage_def
      simp flip: append_assoc split: if_splits)

end
