(* ===== verification/UX_Tree.thy ===== *)
theory UX_Tree
  imports UX_Crypto
begin

text \<open>
  The commitment tree (\<open>state/commitment_tree.rs\<close>): an append-only Merkle tree of depth
  16 kept as a frontier of rightmost nodes, with a ring of 256 past roots. The reference is
  the complete binary tree over the list of inserted leaves, padded with zero leaves. That the
  tabulated \<open>ZERO_HASHES\<close> are the roots of the empty subtrees, which the source documents,
  is the hypothesis \<open>zero_ladder\<close>; \<open>tree_run\<close> are the histories of a tree account.
\<close>

section \<open>The account\<close>

definition COMMITMENT_TREE_DISCRIMINATOR :: u8 where "COMMITMENT_TREE_DISCRIMINATOR = 0x05"
definition TREE_DEPTH :: nat where "TREE_DEPTH = 16"
definition ROOT_HISTORY_SIZE :: nat where "ROOT_HISTORY_SIZE = 256"
definition MAX_LEAVES :: u64 where "MAX_LEAVES = 65536"

text \<open>The 32 bytes of a hexadecimal literal, most significant first.\<close>

definition be_hash :: "hash32 \<Rightarrow> hash32" where
  "be_hash w = from_le (rev (bytes32 w))"

definition ZERO_HASHES :: "hash32 list" where
  "ZERO_HASHES = map be_hash
     [0,
      0x2098f5fb9e239eab3ceac3f27b81e481dc3124d55ffed523a839ee8446b64864,
      0x1069673dcdb12263df301a6ff584a7ec261a44cb9dc68df067a4774460b1f1e1,
      0x18f43331537ee2af2e3d758d50f72106467c6eea50371dd528d57eb2b856d238,
      0x07f9d837cb17b0d36320ffe93ba52345f1b728571a568265caac97559dbc952a,
      0x2b94cf5e8746b3f5c9631f4c5df32907a699c58c94b2ad4d7b5cec1639183f55,
      0x2dee93c5a666459646ea7d22cca9e1bcfed71e6951b953611d11dda32ea09d78,
      0x078295e5a22b84e982cf601eb639597b8b0515a88cb5ac7fa8a4aabe3c87349d,
      0x2fa5e5f18f6027a6501bec864564472a616b2e274a41211a444cbe3a99f3cc61,
      0x0e884376d0d8fd21ecb780389e941f66e45e7acce3e228ab3e2156a614fcd747,
      0x1b7201da72494f1e28717ad1a52eb469f95892f957713533de6175e5da190af2,
      0x1f8d8822725e36385200c0b201249819a6e6e1e4650808b5bebc6bface7d7636,
      0x2c5d82f66c914bafb9701589ba8cfcfb6162b0a12acf88a8d0879a0471b5f85a,
      0x14c54148a0940bb820957f5adf3fa1134ef5c4aaa113f4646458f270e0bfbfd0,
      0x190d33b12f986f961e10c0ee44d8b9af11be25588cad89d416118e4bf4ebe80c,
      0x22f98aa9ce704152ac17354914ad73ed1167ae6596af510aa5b3649325e06c92,
      0x2a7c7c9b6ce5880b9f6f228d72bf6a575a526f29c66ecceef8b753d38bba7323]"

record commitment_tree =
  ct_discriminator :: u8
  ct_bump :: u8
  ct_padding :: "48 word"
  ct_current_root :: hash32
  ct_next_index :: u64
  ct_frontier :: "hash32 list"
  ct_root_history :: "hash32 list"
  ct_root_history_index :: u32
  ct_tree_index :: u32
  ct_reserved :: "448 word"

definition TREE_LEN :: nat where "TREE_LEN = 8816"

text \<open>Arrays of 32-byte values.\<close>

definition encode_hashes :: "hash32 list \<Rightarrow> bytes" where
  "encode_hashes hs = concat (map bytes32 hs)"

definition decode_hashes :: "nat \<Rightarrow> bytes \<Rightarrow> hash32 list" where
  "decode_hashes n d = map (\<lambda>i. from_le (bslice (32 * i) 32 d)) [0..<n]"

definition encode_commitment_tree :: "commitment_tree \<Rightarrow> bytes" where
  "encode_commitment_tree x =
     byte1 (ct_discriminator x) @ byte1 (ct_bump x) @ le_bytes 6 (ct_padding x) @
     le_bytes 32 (ct_current_root x) @ le_bytes 8 (ct_next_index x) @ encode_hashes (ct_frontier x) @
     encode_hashes (ct_root_history x) @ le_bytes 4 (ct_root_history_index x) @
     le_bytes 4 (ct_tree_index x) @ le_bytes 56 (ct_reserved x)"

definition decode_commitment_tree :: "bytes \<Rightarrow> commitment_tree" where
  "decode_commitment_tree d =
     \<lparr>ct_discriminator = byte_at 0 d, ct_bump = byte_at 1 d, ct_padding = from_le (bslice 2 6 d),
      ct_current_root = from_le (bslice 8 32 d), ct_next_index = from_le (bslice 40 8 d),
      ct_frontier = decode_hashes TREE_DEPTH (bslice 48 512 d),
      ct_root_history = decode_hashes ROOT_HISTORY_SIZE (bslice 560 8192 d),
      ct_root_history_index = from_le (bslice 8752 4 d), ct_tree_index = from_le (bslice 8756 4 d),
      ct_reserved = from_le (bslice 8760 56 d)\<rparr>"

definition commitment_tree_from_bytes :: "bytes \<Rightarrow> commitment_tree result" where
  "commitment_tree_from_bytes = layout_from_bytes TREE_LEN COMMITMENT_TREE_DISCRIMINATOR decode_commitment_tree"

section \<open>The codec\<close>

text \<open>
  A layout with arrays decodes only values whose lists have the array lengths: the contract of
  \<open>account_layout\<close> relative to a validity predicate. A layout without arrays is one where
  every value is valid.
\<close>

locale array_layout =
  fixes LEN :: nat and DISC :: u8 and valid :: "'s \<Rightarrow> bool"
    and discr :: "'s \<Rightarrow> u8" and encode :: "'s \<Rightarrow> bytes" and decode :: "bytes \<Rightarrow> 's"
  assumes LEN_pos: "0 < LEN"
    and length_encode: "valid x \<Longrightarrow> length (encode x) = LEN"
    and decode_encode: "valid x \<Longrightarrow> decode (encode x @ rest) = x"
    and valid_decode: "LEN \<le> length d \<Longrightarrow> valid (decode d)"
    and first_byte: "encode x ! 0 = discr x"
begin

lemma from_bytes_overlay:
  "valid x \<Longrightarrow> discr x = DISC \<Longrightarrow> layout_from_bytes LEN DISC decode (encode x @ rest) = Inr x"
  using LEN_pos by (simp add: layout_from_bytes_def length_encode decode_encode nth_append first_byte)

lemma from_bytes_valid: "layout_from_bytes LEN DISC decode d = Inr x \<Longrightarrow> valid x"
  by (auto simp: layout_from_bytes_def valid_decode not_less split: if_splits)

lemma from_bytes_after_write:
  assumes "write_front k (encode x) s = Inr s'" and "valid x" and "discr x = DISC"
  shows "layout_from_bytes LEN DISC decode (adata (s' k)) = Inr x"
  using assms by (auto simp: res_simps from_bytes_overlay)

end

sublocale account_layout \<subseteq> arr: array_layout LEN DISC "\<lambda>_. True" discr encode decode
  by unfold_locales (simp_all add: LEN_pos length_encode decode_encode first_byte)

lemma length_encode_hashes [simp]: "length (encode_hashes hs) = 32 * length hs"
  by (induction hs) (simp_all add: encode_hashes_def)

lemma length_decode_hashes [simp]: "length (decode_hashes n d) = n"
  by (simp add: decode_hashes_def)

lemma encode_hashes_slice: "i < length hs \<Longrightarrow> bslice (32 * i) 32 (encode_hashes hs @ rest) = bytes32 (hs ! i)"
proof (induction hs arbitrary: i)
  case (Cons h hs)
  show ?case
  proof (cases i)
    case 0
    then show ?thesis by (simp add: encode_hashes_def bslice_def)
  next
    case (Suc j)
    with Cons.IH [of j] Cons.prems show ?thesis by (simp add: encode_hashes_def bslice_def)
  qed
qed simp

lemma decode_encode_hashes: "length hs = n \<Longrightarrow> decode_hashes n (encode_hashes hs) = hs"
  using encode_hashes_slice [of _ hs "[]"] by (intro nth_equalityI) (simp_all add: decode_hashes_def)

definition tree_valid :: "commitment_tree \<Rightarrow> bool" where
  "tree_valid t \<longleftrightarrow> length (ct_frontier t) = TREE_DEPTH \<and> length (ct_root_history t) = ROOT_HISTORY_SIZE"

interpretation ctl: array_layout TREE_LEN COMMITMENT_TREE_DISCRIMINATOR tree_valid ct_discriminator
  encode_commitment_tree decode_commitment_tree
proof
  show "0 < TREE_LEN" by (simp add: TREE_LEN_def)
  fix x :: commitment_tree and rest d :: bytes
  show "encode_commitment_tree x ! 0 = ct_discriminator x"
    by (simp add: encode_commitment_tree_def first_byte_append)
  show "TREE_LEN \<le> length d \<Longrightarrow> tree_valid (decode_commitment_tree d)"
    by (simp add: tree_valid_def decode_commitment_tree_def)
  assume v: "tree_valid x"
  show "length (encode_commitment_tree x) = TREE_LEN"
    using v by (simp add: encode_commitment_tree_def tree_valid_def TREE_LEN_def TREE_DEPTH_def ROOT_HISTORY_SIZE_def)
  let ?a = "encode_hashes (ct_frontier x)" and ?b = "encode_hashes (ct_root_history x)"
  have len: "length (ct_frontier x) = 16" "length (ct_root_history x) = 256"
    using v by (simp_all add: tree_valid_def TREE_DEPTH_def ROOT_HISTORY_SIZE_def)
  have arr: "decode_hashes TREE_DEPTH ?a = ct_frontier x" "decode_hashes ROOT_HISTORY_SIZE ?b = ct_root_history x"
    using v by (simp_all add: decode_encode_hashes tree_valid_def)
  show "decode_commitment_tree (encode_commitment_tree x @ rest) = x"
    unfolding decode_commitment_tree_def encode_commitment_tree_def
    by (simp add: slice_simps codec_simps from_le_le_bytes len arr)
qed

section \<open>Operations\<close>

definition tree_init :: commitment_tree where
  "tree_init = \<lparr>ct_discriminator = COMMITMENT_TREE_DISCRIMINATOR, ct_bump = 0, ct_padding = 0,
     ct_current_root = ZERO_HASHES ! TREE_DEPTH, ct_next_index = 0,
     ct_frontier = replicate TREE_DEPTH 0, ct_root_history = replicate ROOT_HISTORY_SIZE 0,
     ct_root_history_index = 0, ct_tree_index = 0, ct_reserved = 0\<rparr>"

definition is_valid_root :: "hash32 \<Rightarrow> commitment_tree \<Rightarrow> bool" where
  "is_valid_root root t \<longleftrightarrow>
     (if root = 0 then False
      else if ct_current_root t = root then True
      else list_ex (\<lambda>h. h = root) (ct_root_history t))"

definition update_root :: "hash32 \<Rightarrow> commitment_tree \<Rightarrow> commitment_tree" where
  "update_root new_root t =
     (let index = unat (ct_root_history_index t) in
      t\<lparr>ct_root_history := (ct_root_history t)[index mod ROOT_HISTORY_SIZE := ct_current_root t],
        ct_root_history_index := of_nat (index + 1),
        ct_current_root := new_root\<rparr>)"

definition has_capacity :: "commitment_tree \<Rightarrow> bool" where
  "has_capacity t \<longleftrightarrow> ct_next_index t < MAX_LEAVES"

text \<open>The walk from the leaf to the root; returns the new frontier and the root.\<close>

fun append_walk :: "env \<Rightarrow> hash32 list \<Rightarrow> nat \<Rightarrow> hash32 list \<Rightarrow> nat \<Rightarrow> hash32 \<Rightarrow> (hash32 list \<times> hash32) result" where
  "append_walk E [] level frontier current_index current_hash = Inr (frontier, current_hash)"
| "append_walk E (zero_hash # zeros) level frontier current_index current_hash =
     (if current_index mod 2 = 0
      then bindE (poseidon2_hash E current_hash zero_hash) (\<lambda>h.
           append_walk E zeros (Suc level) (frontier[level := current_hash]) (current_index div 2) h)
      else bindE (poseidon2_hash E (frontier ! level) current_hash) (\<lambda>h.
           append_walk E zeros (Suc level) frontier (current_index div 2) h))"

definition append_leaf :: "env \<Rightarrow> hash32 \<Rightarrow> commitment_tree \<Rightarrow> (hash32 \<times> u64 \<times> commitment_tree) result" where
  "append_leaf E commitment t =
     (let leaf_index = ct_next_index t in
      if leaf_index \<ge> MAX_LEAVES then Inl TreeFull
      else bindE (append_walk E (take TREE_DEPTH ZERO_HASHES) 0 (ct_frontier t) (unat leaf_index) commitment)
        (\<lambda>(frontier, root). Inr (root, leaf_index, t\<lparr>ct_frontier := frontier, ct_next_index := leaf_index + 1\<rparr>)))"

definition insert_leaf :: "env \<Rightarrow> hash32 \<Rightarrow> commitment_tree \<Rightarrow> (u64 \<times> commitment_tree) result" where
  "insert_leaf E commitment t =
     bindE (append_leaf E commitment t) (\<lambda>(root, leaf_index, t'). Inr (leaf_index, update_root root t'))"

fun append_leaves :: "env \<Rightarrow> hash32 list \<Rightarrow> hash32 \<Rightarrow> commitment_tree \<Rightarrow> (hash32 \<times> commitment_tree) result" where
  "append_leaves E [] root t = Inr (root, t)"
| "append_leaves E (c # cs) root t =
     bindE (append_leaf E c t) (\<lambda>(new_root, _, t'). append_leaves E cs new_root t')"

definition insert_leaves_batch :: "env \<Rightarrow> hash32 list \<Rightarrow> commitment_tree \<Rightarrow> (u64 \<times> commitment_tree) result" where
  "insert_leaves_batch E commitments t =
     (if commitments = [] then Inl EmptyCommitmentBatch
      else bindE (append_leaves E commitments (ct_current_root t) t) (\<lambda>(root, t').
           Inr (ct_next_index t, update_root root t')))"

section \<open>The reference tree\<close>

text \<open>Node \<open>i\<close> of height \<open>l\<close> of the complete tree over a list of leaves, zero-padded.\<close>

fun node :: "(hash32 \<Rightarrow> hash32 \<Rightarrow> hash32) \<Rightarrow> hash32 list \<Rightarrow> nat \<Rightarrow> nat \<Rightarrow> hash32" where
  "node h leaves 0 i = (if i < length leaves then leaves ! i else 0)"
| "node h leaves (Suc l) i = h (node h leaves l (2 * i)) (node h leaves l (2 * i + 1))"

definition zero_ladder :: "(hash32 \<Rightarrow> hash32 \<Rightarrow> hash32) \<Rightarrow> bool" where
  "zero_ladder h \<longleftrightarrow> (\<forall>l < TREE_DEPTH. h (ZERO_HASHES ! l) (ZERO_HASHES ! l) = ZERO_HASHES ! Suc l)"

lemma length_ZERO_HASHES [simp]: "length ZERO_HASHES = 17"
  by (simp add: ZERO_HASHES_def)

lemma le_bytes_0 [simp]: "le_bytes n 0 = replicate n 0"
  by (induction n) simp_all

lemma from_le_replicate_0 [simp]: "from_le (replicate n 0) = 0"
  by (induction n) simp_all

lemma ZERO_HASHES_0 [simp]: "ZERO_HASHES ! 0 = 0"
  by (simp add: ZERO_HASHES_def be_hash_def)

lemma div_pow_half: "(n::nat) div 2 ^ l div 2 = n div 2 ^ Suc l"
  by (metis div_mult2_eq power_Suc2)

lemma node_empty:
  "zero_ladder h \<Longrightarrow> l \<le> TREE_DEPTH \<Longrightarrow> length leaves \<le> i * 2 ^ l \<Longrightarrow> node h leaves l i = ZERO_HASHES ! l"
proof (induction l arbitrary: i)
  case (Suc l)
  have "length leaves \<le> 2 * i * 2 ^ l" "length leaves \<le> (2 * i + 1) * 2 ^ l"
    using Suc.prems(3) by (simp_all add: algebra_simps)
  with Suc show ?case by (simp add: zero_ladder_def)
qed simp

text \<open>Appending leaves does not change a subtree that was already full.\<close>

lemma node_full: "Suc i * 2 ^ l \<le> length leaves \<Longrightarrow> node h (leaves @ xs) l i = node h leaves l i"
proof (induction l arbitrary: i)
  case (Suc l)
  have "Suc (2 * i) * 2 ^ l \<le> length leaves" "Suc (2 * i + 1) * 2 ^ l \<le> length leaves"
    using Suc.prems by (simp_all add: algebra_simps)
  from Suc.IH [OF this(1)] Suc.IH [OF this(2)] show ?case by simp
qed (simp add: nth_append)

text \<open>The frontier holds the left siblings the next insertions need.\<close>

definition frontier_ok :: "(hash32 \<Rightarrow> hash32 \<Rightarrow> hash32) \<Rightarrow> hash32 list \<Rightarrow> hash32 list \<Rightarrow> bool" where
  "frontier_ok h leaves frontier \<longleftrightarrow> length frontier = TREE_DEPTH \<and>
     (\<forall>l < TREE_DEPTH. odd (length leaves div 2 ^ l) \<longrightarrow> frontier ! l = node h leaves l (length leaves div 2 ^ l - 1))"

text \<open>One level of the walk computes the parent of the new node.\<close>

lemma div_pow_bounds: "n div 2 ^ l * 2 ^ l \<le> n" "Suc n \<le> Suc (n div 2 ^ l) * 2 ^ l"
proof -
  show "n div 2 ^ l * 2 ^ l \<le> n" by (rule div_times_less_eq_dividend)
  have "n < 2 ^ l + n div 2 ^ l * 2 ^ l" by (rule dividend_less_div_times) simp
  then show "Suc n \<le> Suc (n div 2 ^ l) * 2 ^ l" by simp
qed

lemma parent_even:
  assumes "zero_ladder h" and "l < TREE_DEPTH" and "even (length leaves div 2 ^ l)"
  shows "node h (leaves @ [c]) (Suc l) (length leaves div 2 ^ Suc l) =
         h (node h (leaves @ [c]) l (length leaves div 2 ^ l)) (ZERO_HASHES ! l)"
proof -
  let ?i = "length leaves div 2 ^ l"
  have half: "length leaves div 2 ^ Suc l = ?i div 2" by (rule div_pow_half [symmetric])
  have i: "2 * (?i div 2) = ?i" using assms(3) by simp
  have "node h (leaves @ [c]) l (?i + 1) = ZERO_HASHES ! l"
    using assms(1,2) div_pow_bounds(2) [of "length leaves" l] by (intro node_empty) simp_all
  with i show ?thesis unfolding half node.simps by simp
qed

lemma parent_odd:
  assumes "odd (length leaves div 2 ^ l)"
  shows "node h (leaves @ [c]) (Suc l) (length leaves div 2 ^ Suc l) =
         h (node h leaves l (length leaves div 2 ^ l - 1)) (node h (leaves @ [c]) l (length leaves div 2 ^ l))"
proof -
  let ?i = "length leaves div 2 ^ l"
  have half: "length leaves div 2 ^ Suc l = ?i div 2" by (rule div_pow_half [symmetric])
  have i: "2 * (?i div 2) = ?i - 1" "2 * (?i div 2) + 1 = ?i" using assms by (auto elim: oddE)
  have "node h (leaves @ [c]) l (?i - 1) = node h leaves l (?i - 1)"
    using assms div_pow_bounds(1) [of "length leaves" l] by (intro node_full) (auto elim: oddE)
  with i show ?thesis unfolding half node.simps by simp
qed

text \<open>What the walk from level \<open>l\<close> on delivers: the root, and the left children it passed.\<close>

definition walk_ok :: "(hash32 \<Rightarrow> hash32 \<Rightarrow> hash32) \<Rightarrow> hash32 list \<Rightarrow> hash32 \<Rightarrow> nat \<Rightarrow> hash32 list \<Rightarrow>
    (hash32 list \<times> hash32) result \<Rightarrow> bool" where
  "walk_ok h leaves c l frontier r \<longleftrightarrow>
     (\<exists>f'. r = Inr (f', node h (leaves @ [c]) TREE_DEPTH (length leaves div 2 ^ TREE_DEPTH)) \<and>
        length f' = TREE_DEPTH \<and>
        (\<forall>k < TREE_DEPTH. f' ! k =
           (if l \<le> k \<and> even (length leaves div 2 ^ k) then node h (leaves @ [c]) k (length leaves div 2 ^ k)
            else frontier ! k)))"

lemma walk_ok_odd:
  "walk_ok h leaves c (Suc l) frontier r \<Longrightarrow> odd (length leaves div 2 ^ l) \<Longrightarrow> walk_ok h leaves c l frontier r"
  unfolding walk_ok_def by (auto simp: Suc_le_eq le_less)

lemma walk_ok_even:
  assumes "walk_ok h leaves c (Suc l) (frontier[l := node h (leaves @ [c]) l (length leaves div 2 ^ l)]) r"
    and "even (length leaves div 2 ^ l)" and "length frontier = TREE_DEPTH"
  shows "walk_ok h leaves c l frontier r"
proof -
  let ?cur = "node h (leaves @ [c]) l (length leaves div 2 ^ l)"
  obtain f' where r: "r = Inr (f', node h (leaves @ [c]) TREE_DEPTH (length leaves div 2 ^ TREE_DEPTH))"
    and len: "length f' = TREE_DEPTH"
    and f': "\<And>k. k < TREE_DEPTH \<Longrightarrow> f' ! k =
           (if Suc l \<le> k \<and> even (length leaves div 2 ^ k) then node h (leaves @ [c]) k (length leaves div 2 ^ k)
            else frontier[l := ?cur] ! k)"
    using assms(1) unfolding walk_ok_def by blast
  have "f' ! k = (if l \<le> k \<and> even (length leaves div 2 ^ k) then node h (leaves @ [c]) k (length leaves div 2 ^ k)
            else frontier ! k)" if "k < TREE_DEPTH" for k
    using f' [OF that] assms(2,3) that by (cases k l rule: linorder_cases) simp_all
  with r len show ?thesis unfolding walk_ok_def by blast
qed

lemma append_walk_node:
  assumes spec: "poseidon_spec E p" and h: "h = field_hash p" and ladder: "zero_ladder h"
  shows "l \<le> TREE_DEPTH \<Longrightarrow> length frontier = TREE_DEPTH \<Longrightarrow>
     (\<forall>k. l \<le> k \<and> k < TREE_DEPTH \<and> odd (length leaves div 2 ^ k) \<longrightarrow>
        frontier ! k = node h leaves k (length leaves div 2 ^ k - 1)) \<Longrightarrow>
     walk_ok h leaves c l frontier
       (append_walk E (drop l (take TREE_DEPTH ZERO_HASHES)) l frontier (length leaves div 2 ^ l)
          (node h (leaves @ [c]) l (length leaves div 2 ^ l)))"
proof (induction "TREE_DEPTH - l" arbitrary: l frontier)
  case 0
  then show ?case by (auto simp: TREE_DEPTH_def walk_ok_def)
next
  case (Suc d)
  let ?n = "length leaves" and ?Z = "take TREE_DEPTH ZERO_HASHES"
  let ?i = "?n div 2 ^ l" and ?cur = "node h (leaves @ [c]) l (?n div 2 ^ l)"
  have l: "l < TREE_DEPTH" and d: "d = TREE_DEPTH - Suc l" using Suc.hyps(2) by simp_all
  have z: "drop l ?Z = ZERO_HASHES ! l # drop (Suc l) ?Z"
    using l by (subst Cons_nth_drop_Suc [symmetric]) (simp_all add: TREE_DEPTH_def)
  note step = z append_walk.simps poseidon2_total [OF spec] div_pow_half h [symmetric] bindE_Inr
  show ?case
  proof (cases "even ?i")
    case True
    have "walk_ok h leaves c (Suc l) (frontier[l := ?cur])
        (append_walk E (drop (Suc l) ?Z) (Suc l) (frontier[l := ?cur]) (?n div 2 ^ Suc l)
          (node h (leaves @ [c]) (Suc l) (?n div 2 ^ Suc l)))"
      using Suc.prems l by (intro Suc.hyps(1) [OF d]) auto
    from walk_ok_even [OF this True Suc.prems(2)] show ?thesis
      using True parent_even [OF ladder l True, of c] unfolding step by (simp only: even_iff_mod_2_eq_zero if_True simp_thms)
  next
    case False
    have "walk_ok h leaves c (Suc l) frontier
        (append_walk E (drop (Suc l) ?Z) (Suc l) frontier (?n div 2 ^ Suc l)
          (node h (leaves @ [c]) (Suc l) (?n div 2 ^ Suc l)))"
      using Suc.prems l by (intro Suc.hyps(1) [OF d]) auto
    moreover have "frontier ! l = node h leaves l (?i - 1)" using Suc.prems(3) l False by simp
    ultimately show ?thesis
      using walk_ok_odd [OF _ False] False parent_odd [OF False, of h c] unfolding step
      by (simp only: even_iff_mod_2_eq_zero if_False simp_thms)
  qed
qed

lemma frontier_ok_snoc:
  assumes "frontier_ok h leaves frontier" and "walk_ok h leaves c 0 frontier (Inr (f', root))"
  shows "frontier_ok h (leaves @ [c]) f'"
proof -
  let ?n = "length leaves"
  have f': "length f' = TREE_DEPTH"
    "\<And>k. k < TREE_DEPTH \<Longrightarrow> f' ! k = (if even (?n div 2 ^ k) then node h (leaves @ [c]) k (?n div 2 ^ k) else frontier ! k)"
    using assms(2) by (auto simp: walk_ok_def)
  have "f' ! k = node h (leaves @ [c]) k (Suc ?n div 2 ^ k - 1)"
    if k: "k < TREE_DEPTH" and o: "odd (Suc ?n div 2 ^ k)" for k
  proof (cases "Suc ?n div 2 ^ k = ?n div 2 ^ k")
    case True
    with o have "odd (?n div 2 ^ k)" by simp
    moreover from this have "node h (leaves @ [c]) k (?n div 2 ^ k - 1) = node h leaves k (?n div 2 ^ k - 1)"
      using div_pow_bounds(1) [of ?n k] by (intro node_full) (auto elim: oddE)
    ultimately show ?thesis using assms(1) k True f'(2) [OF k] by (simp add: frontier_ok_def)
  next
    case False
    then have "Suc ?n div 2 ^ k = Suc (?n div 2 ^ k)" by (simp add: div_Suc split: if_splits)
    with o k f'(2) [OF k] show ?thesis by simp
  qed
  with f'(1) show ?thesis by (simp add: frontier_ok_def)
qed

section \<open>Inserting refines appending to a list\<close>

definition tree_rep :: "env \<Rightarrow> (hash32 \<Rightarrow> hash32 \<Rightarrow> hash32) \<Rightarrow> commitment_tree \<Rightarrow> hash32 list \<Rightarrow> bool" where
  "tree_rep E p t leaves \<longleftrightarrow>
     poseidon_spec E p \<and> zero_ladder (field_hash p) \<and>
     unat (ct_next_index t) = length leaves \<and> length leaves \<le> 65536 \<and>
     frontier_ok (field_hash p) leaves (ct_frontier t) \<and>
     ct_current_root t = node (field_hash p) leaves TREE_DEPTH 0"

text \<open>The part of a tree account that \<open>append_leaf\<close> works on, and its root.\<close>

lemma unat_leaf_count: "n \<le> 65536 \<Longrightarrow> unat (of_nat n :: u64) = n"
  by (simp add: unat_of_nat)

lemma append_leaf_full: "MAX_LEAVES \<le> ct_next_index t \<Longrightarrow> append_leaf E c t = Inl TreeFull"
  by (simp add: append_leaf_def Let_def)

lemma append_leaf_ok:
  assumes spec: "poseidon_spec E p" "zero_ladder (field_hash p)"
    and idx: "unat (ct_next_index t) = length leaves" and room: "length leaves < 65536"
    and fr: "frontier_ok (field_hash p) leaves (ct_frontier t)"
  shows "\<exists>f'. append_leaf E c t = Inr (node (field_hash p) (leaves @ [c]) TREE_DEPTH 0, of_nat (length leaves),
      t\<lparr>ct_frontier := f', ct_next_index := of_nat (Suc (length leaves))\<rparr>) \<and>
      frontier_ok (field_hash p) (leaves @ [c]) f'"
proof -
  let ?h = "field_hash p"
  have i: "ct_next_index t = of_nat (length leaves)" using idx by (metis of_nat_unat ucast_id)
  have "ct_next_index t < MAX_LEAVES" by (simp add: word_less_nat_alt MAX_LEAVES_def idx room)
  moreover have "walk_ok ?h leaves c 0 (ct_frontier t)
      (append_walk E (take TREE_DEPTH ZERO_HASHES) 0 (ct_frontier t) (length leaves) c)"
    using append_walk_node [OF spec(1) refl spec(2), of 0 "ct_frontier t" leaves c] fr
    by (simp add: frontier_ok_def nth_append)
  moreover from this obtain f' where
    run: "append_walk E (take TREE_DEPTH ZERO_HASHES) 0 (ct_frontier t) (length leaves) c =
      Inr (f', node ?h (leaves @ [c]) TREE_DEPTH (length leaves div 2 ^ TREE_DEPTH))"
    unfolding walk_ok_def by blast
  ultimately have "frontier_ok ?h (leaves @ [c]) f'" using frontier_ok_snoc [OF fr] by simp
  moreover have "length leaves div 2 ^ TREE_DEPTH = 0" using room by (simp add: TREE_DEPTH_def)
  moreover have "unat (of_nat (length leaves) :: u64) = length leaves" using room by (simp add: unat_leaf_count)
  ultimately show ?thesis
    using run \<open>ct_next_index t < MAX_LEAVES\<close>
    by (intro exI [of _ f']) (simp add: append_leaf_def Let_def not_le i add.commute)
qed

lemma tree_rep_init:
  "poseidon_spec E p \<Longrightarrow> zero_ladder (field_hash p) \<Longrightarrow> tree_rep E p (tree_init\<lparr>ct_bump := b, ct_tree_index := i\<rparr>) []"
  using node_empty [of "field_hash p" TREE_DEPTH "[]" 0]
  by (simp add: tree_rep_def tree_init_def frontier_ok_def)

lemma update_root_tree [simp]:
  "ct_current_root (update_root r t) = r" "ct_frontier (update_root r t) = ct_frontier t"
  "ct_next_index (update_root r t) = ct_next_index t"
  by (simp_all add: update_root_def Let_def)

text \<open>
  The contract of the tree towards the pool's handlers: an append-only list of at most
  \<open>cap\<close> leaves whose digest is the root.
\<close>

locale commitment_log =
  fixes rep :: "'t \<Rightarrow> 'a list \<Rightarrow> bool" and ins :: "'a \<Rightarrow> 't \<Rightarrow> (u64 \<times> 't) result"
    and root :: "'t \<Rightarrow> 'd" and digest :: "'a list \<Rightarrow> 'd" and cap :: nat
  assumes ins_room: "rep t xs \<Longrightarrow> length xs < cap \<Longrightarrow> \<exists>t'. ins x t = Inr (of_nat (length xs), t') \<and> rep t' (xs @ [x])"
    and ins_full: "rep t xs \<Longrightarrow> cap \<le> length xs \<Longrightarrow> ins x t = Inl TreeFull"
    and root_digest: "rep t xs \<Longrightarrow> root t = digest xs"
    and rep_cap: "rep t xs \<Longrightarrow> length xs \<le> cap"
begin

primrec ins_all :: "'a list \<Rightarrow> 't \<Rightarrow> 't result" where
  "ins_all [] t = Inr t"
| "ins_all (x # xs) t = bindE (ins x t) (\<lambda>(_, t'). ins_all xs t')"

lemma ins_all_ok:
  "rep t xs \<Longrightarrow> length xs + length ys \<le> cap \<Longrightarrow>
     \<exists>t'. ins_all ys t = Inr t' \<and> rep t' (xs @ ys) \<and> root t' = digest (xs @ ys)"
proof (induction ys arbitrary: t xs)
  case Nil
  then show ?case by (simp add: root_digest)
next
  case (Cons y ys)
  obtain t1 where t1: "ins y t = Inr (of_nat (length xs), t1)" "rep t1 (xs @ [y])"
    using ins_room [OF Cons.prems(1), of y] Cons.prems(2) by auto
  with Cons.IH [OF t1(2)] Cons.prems(2) show ?case by simp
qed

lemma ins_all_overflow:
  "rep t xs \<Longrightarrow> cap < length xs + length ys \<Longrightarrow> ins_all ys t = Inl TreeFull"
proof (induction ys arbitrary: t xs)
  case Nil
  then show ?case using rep_cap [of t xs] by simp
next
  case (Cons y ys)
  show ?case
  proof (cases "length xs < cap")
    case True
    then obtain t1 where t1: "ins y t = Inr (of_nat (length xs), t1)" "rep t1 (xs @ [y])"
      using ins_room [OF Cons.prems(1), of y] by auto
    with Cons.IH [OF t1(2)] Cons.prems(2) show ?thesis by simp
  next
    case False
    then show ?thesis using ins_full [OF Cons.prems(1), of y] by simp
  qed
qed

end

interpretation ctree: commitment_log "tree_rep E p" "insert_leaf E" ct_current_root
  "\<lambda>leaves. node (field_hash p) leaves TREE_DEPTH 0" 65536 for E p
proof
  fix t xs x
  assume r: "tree_rep E p t xs"
  show "ct_current_root t = node (field_hash p) xs TREE_DEPTH 0" "length xs \<le> 65536"
    using r by (simp_all add: tree_rep_def)
  show "insert_leaf E x t = Inl TreeFull" if "65536 \<le> length xs"
    using that r append_leaf_full [of t E x]
    by (simp add: insert_leaf_def tree_rep_def word_le_nat_alt MAX_LEAVES_def)
  assume room: "length xs < 65536"
  obtain f' where "append_leaf E x t = Inr (node (field_hash p) (xs @ [x]) TREE_DEPTH 0, of_nat (length xs),
      t\<lparr>ct_frontier := f', ct_next_index := of_nat (Suc (length xs))\<rparr>)"
    "frontier_ok (field_hash p) (xs @ [x]) f'"
    using append_leaf_ok [of E p t xs x] r room by (auto simp: tree_rep_def)
  then show "\<exists>t'. insert_leaf E x t = Inr (of_nat (length xs), t') \<and> tree_rep E p t' (xs @ [x])"
    using r room unat_leaf_count [of "Suc (length xs)"]
    by (simp add: insert_leaf_def tree_rep_def del: of_nat_Suc)
qed

text \<open>
  C35. Refinement: a tree account that represents a list of leaves behaves as that list. While
  there is room \<open>insert_leaf\<close> succeeds, returns the position of the new leaf and leaves an
  account that represents the extended list, whose root is the root of the complete Merkle tree
  of depth 16 over the zero-padded leaves; in a full tree it fails with \<open>TreeFull\<close>.
\<close>

theorem insert_leaf_refines_append:
  assumes "tree_rep E p t leaves"
  shows "(if length leaves < 65536
      then \<exists>t'. insert_leaf E c t = Inr (of_nat (length leaves), t') \<and> tree_rep E p t' (leaves @ [c]) \<and>
             ct_current_root t' = node (field_hash p) (leaves @ [c]) 16 0
      else insert_leaf E c t = Inl TreeFull)"
  using ctree.ins_room [OF assms, of c] ctree.ins_full [OF assms, of c] ctree.root_digest
  by (auto simp: TREE_DEPTH_def)

section \<open>Batches\<close>

primrec insert_each :: "env \<Rightarrow> hash32 list \<Rightarrow> commitment_tree \<Rightarrow> commitment_tree result" where
  "insert_each E [] t = Inr t"
| "insert_each E (c # cs) t = bindE (insert_leaf E c t) (\<lambda>(_, t'). insert_each E cs t')"

text \<open>A tree without its root and history.\<close>

definition strip :: "commitment_tree \<Rightarrow> commitment_tree" where
  "strip t = t\<lparr>ct_current_root := 0, ct_root_history := [], ct_root_history_index := 0\<rparr>"

lemma strip_update_root [simp]: "strip (update_root r t) = strip t"
  by (simp add: strip_def update_root_def Let_def)

lemma strip_eqD:
  assumes "strip t = strip u"
  shows "ct_next_index t = ct_next_index u" and "ct_frontier t = ct_frontier u"
proof -
  have "ct_next_index (strip t) = ct_next_index (strip u)" "ct_frontier (strip t) = ct_frontier (strip u)"
    using assms by simp_all
  then show "ct_next_index t = ct_next_index u" "ct_frontier t = ct_frontier u" by (simp_all add: strip_def)
qed

lemma strip_update:
  "strip t = strip u \<Longrightarrow> strip (t\<lparr>ct_frontier := f, ct_next_index := n\<rparr>) = strip (u\<lparr>ct_frontier := f, ct_next_index := n\<rparr>)"
proof -
  assume eq: "strip t = strip u"
  have comm: "strip (v\<lparr>ct_frontier := f, ct_next_index := n\<rparr>) = (strip v)\<lparr>ct_frontier := f, ct_next_index := n\<rparr>" for v
    by (simp add: strip_def)
  show ?thesis unfolding comm eq ..
qed

definition same_append :: "(hash32 \<times> u64 \<times> commitment_tree) result \<Rightarrow> (hash32 \<times> u64 \<times> commitment_tree) result \<Rightarrow> bool" where
  "same_append r r' \<longleftrightarrow> rel_sum (=) (\<lambda>(h, i, t) (h', i', t'). h = h' \<and> i = i' \<and> strip t = strip t') r r'"

lemma append_leaf_strip:
  assumes "strip t = strip u"
  shows "same_append (append_leaf E c t) (append_leaf E c u)"
proof -
  let ?w = "append_walk E (take TREE_DEPTH ZERO_HASHES) 0 (ct_frontier u) (unat (ct_next_index u)) c"
  show ?thesis
    unfolding append_leaf_def strip_eqD [OF assms] same_append_def
    by (cases ?w) (auto simp: Let_def strip_update [OF assms])
qed

lemma append_leaf_keeps:
  assumes "append_leaf E c t = Inr (r, i, t')"
  shows "ct_current_root t' = ct_current_root t \<and> ct_root_history t' = ct_root_history t \<and>
         ct_root_history_index t' = ct_root_history_index t"
  using assms by (auto simp: append_leaf_def Let_def res_simps split: if_splits)

lemma append_leaves_keeps:
  assumes "append_leaves E cs root t = Inr (r, t')"
  shows "ct_current_root t' = ct_current_root t \<and> ct_root_history t' = ct_root_history t \<and>
         ct_root_history_index t' = ct_root_history_index t"
  using assms
proof (induction E cs root t rule: append_leaves.induct)
  case (2 E c cs root t)
  then obtain h i t1 where "append_leaf E c t = Inr (h, i, t1)" "append_leaves E cs h t1 = Inr (r, t')"
    by (auto simp: res_simps)
  with append_leaf_keeps [of E c t h i t1] "2.IH" show ?case by force
qed simp

text \<open>The sequential insertions and the batch walk over the same frontier.\<close>

lemma append_leaves_sequential:
  "strip t = strip u \<Longrightarrow> root = ct_current_root u \<Longrightarrow>
   rel_sum (=) (\<lambda>(r, t') u'. strip t' = strip u' \<and> ct_current_root u' = r)
     (append_leaves E cs root t) (insert_each E cs u)"
proof (induction cs arbitrary: t u root)
  case (Cons c cs)
  have same: "same_append (append_leaf E c t) (append_leaf E c u)"
    by (rule append_leaf_strip) (rule Cons.prems)
  show ?case
  proof (cases "append_leaf E c t")
    case (Inl e)
    with same have "append_leaf E c u = Inl e"
      by (cases "append_leaf E c u") (auto simp: same_append_def)
    with Inl show ?thesis by (simp add: insert_leaf_def)
  next
    case (Inr x)
    obtain h i t' where x: "x = (h, i, t')" by (cases x)
    with Inr same obtain u' where u': "append_leaf E c u = Inr (h, i, u')" "strip t' = strip u'"
      by (cases "append_leaf E c u") (auto simp: same_append_def)
    with Inr x Cons.IH [of t' "update_root h u'" h] show ?thesis by (simp add: insert_leaf_def)
  qed
qed simp

lemma batch_sequential:
  assumes "cs \<noteq> []"
  shows "case insert_leaves_batch E cs t of
      Inl e \<Rightarrow> insert_each E cs t = Inl e
    | Inr (first, t') \<Rightarrow> first = ct_next_index t \<and>
        (\<exists>u. insert_each E cs t = Inr u \<and> ct_current_root t' = ct_current_root u \<and>
           ct_frontier t' = ct_frontier u \<and> ct_next_index t' = ct_next_index u) \<and>
        ct_root_history t' = (ct_root_history t)[unat (ct_root_history_index t) mod 256 := ct_current_root t]"
proof -
  note rel = append_leaves_sequential [of t t "ct_current_root t" E cs]
  show ?thesis
  proof (cases "append_leaves E cs (ct_current_root t) t")
    case (Inl e)
    with rel assms show ?thesis by (cases "insert_each E cs t") (auto simp: insert_leaves_batch_def)
  next
    case (Inr x)
    obtain r t' where x: "x = (r, t')" by (cases x)
    with Inr rel obtain u where u: "insert_each E cs t = Inr u" "strip t' = strip u" "ct_current_root u = r"
      by (cases "insert_each E cs t") auto
    note keeps = append_leaves_keeps [OF Inr [unfolded x]] strip_eqD [OF u(2)]
    have "insert_leaves_batch E cs t = Inr (ct_next_index t, update_root r t')"
      using assms Inr x by (simp add: insert_leaves_batch_def)
    then show ?thesis using u keeps by (simp add: update_root_def Let_def ROOT_HISTORY_SIZE_def)
  qed
qed

text \<open>
  C36. A batch insertion does what the same insertions one by one do: it fails with the same
  error, or reaches the same root, frontier and leaf count; and it records one history entry,
  the root from before the batch. It returns the index of the first leaf.
\<close>

theorem insert_leaves_batch_sequential:
  assumes "cs \<noteq> []"
  shows "case insert_leaves_batch E cs t of
      Inl e \<Rightarrow> insert_each E cs t = Inl e
    | Inr (first, t') \<Rightarrow> first = ct_next_index t \<and>
        (\<exists>u. insert_each E cs t = Inr u \<and> ct_current_root t' = ct_current_root u \<and>
           ct_frontier t' = ct_frontier u \<and> ct_next_index t' = ct_next_index u) \<and>
        ct_root_history t' = (ct_root_history t)[unat (ct_root_history_index t) mod 256 := ct_current_root t]"
  using assms by (rule batch_sequential)

section \<open>Histories of a tree account\<close>

text \<open>
  The states a tree account passes through, with the leaves inserted and the roots it had,
  oldest first. The handlers set bump and tree index right after \<open>init\<close>.
\<close>

inductive tree_run :: "env \<Rightarrow> hash32 list \<Rightarrow> hash32 list \<Rightarrow> commitment_tree \<Rightarrow> bool" for E where
  tr_init: "tree_run E [] [ZERO_HASHES ! TREE_DEPTH] (tree_init\<lparr>ct_bump := b, ct_tree_index := i\<rparr>)"
| tr_insert: "tree_run E xs rs t \<Longrightarrow> insert_leaf E c t = Inr (i, t') \<Longrightarrow>
    tree_run E (xs @ [c]) (rs @ [ct_current_root t']) t'"
| tr_batch: "tree_run E xs rs t \<Longrightarrow> insert_leaves_batch E cs t = Inr (i, t') \<Longrightarrow>
    tree_run E (xs @ cs) (rs @ [ct_current_root t']) t'"

lemma insert_each_ins_all: "insert_each E cs t = commitment_log.ins_all (insert_leaf E) cs t"
  by (induction cs arbitrary: t) (simp_all add: ctree.ins_all.simps)

lemma batch_rep:
  assumes rep: "tree_rep E p t xs" and run: "insert_leaves_batch E cs t = Inr (i, t')"
  shows "tree_rep E p t' (xs @ cs)"
proof -
  have "cs \<noteq> []" using run by (auto simp: insert_leaves_batch_def)
  from batch_sequential [OF this, of E t] run obtain u where u: "insert_each E cs t = Inr u"
    "ct_current_root t' = ct_current_root u" "ct_frontier t' = ct_frontier u" "ct_next_index t' = ct_next_index u"
    by auto
  have "length xs + length cs \<le> 65536"
    using ctree.ins_all_overflow [OF rep, of cs] u(1) by (force simp: insert_each_ins_all not_le)
  from ctree.ins_all_ok [OF rep this] u(1) have "tree_rep E p u (xs @ cs)"
    by (simp add: insert_each_ins_all)
  with u show ?thesis by (simp add: tree_rep_def)
qed

lemma insert_rep:
  assumes rep: "tree_rep E p t xs" and run: "insert_leaf E c t = Inr (i, t')"
  shows "tree_rep E p t' (xs @ [c])"
proof (cases "length xs < 65536")
  case True
  with ctree.ins_room [OF rep True, of c] run show ?thesis by auto
next
  case False
  with ctree.ins_full [OF rep, of c] run show ?thesis by simp
qed

lemma prefix_digests:
  assumes "\<forall>r \<in> set rs. \<exists>k \<le> length xs. r = D (take k xs)"
  shows "\<forall>r \<in> set (rs @ [D (xs @ ys)]). \<exists>k \<le> length (xs @ ys). r = D (take k (xs @ ys))"
proof
  fix r assume r: "r \<in> set (rs @ [D (xs @ ys)])"
  show "\<exists>k \<le> length (xs @ ys). r = D (take k (xs @ ys))"
  proof (cases "r \<in> set rs")
    case True
    with assms obtain k where "k \<le> length xs" "r = D (take k xs)" by blast
    then have "k \<le> length (xs @ ys) \<and> r = D (take k (xs @ ys))" by simp
    then show ?thesis ..
  next
    case False
    with r show ?thesis by (intro exI [of _ "length (xs @ ys)"]) simp
  qed
qed

lemma tree_run_rep:
  assumes "tree_run E xs rs t" and "poseidon_spec E p" and "zero_ladder (field_hash p)"
  shows "tree_rep E p t xs \<and>
    (\<forall>r \<in> set rs. \<exists>k \<le> length xs. r = node (field_hash p) (take k xs) TREE_DEPTH 0)"
  using assms(1)
proof (induction rule: tree_run.induct)
  case (tr_init b i)
  from tree_rep_init [OF assms(2,3), of b i] show ?case
    using node_empty [OF assms(3), of TREE_DEPTH "[]" 0] by simp
next
  case (tr_insert xs rs t c i t')
  from insert_rep [OF conjunct1 [OF tr_insert.IH] tr_insert.hyps(2)]
  have rep: "tree_rep E p t' (xs @ [c])" .
  with tr_insert.IH show ?case
    unfolding ctree.root_digest [OF rep] by (intro conjI prefix_digests [where ys = "[c]"]) simp_all
next
  case (tr_batch xs rs t cs i t')
  from batch_rep [OF conjunct1 [OF tr_batch.IH] tr_batch.hyps(2)]
  have rep: "tree_rep E p t' (xs @ cs)" .
  with tr_batch.IH show ?case
    unfolding ctree.root_digest [OF rep] by (intro conjI prefix_digests) simp_all
qed

text \<open>The ring of past roots against the list of them.\<close>

definition ring_holds :: "hash32 list \<Rightarrow> commitment_tree \<Rightarrow> bool" where
  "ring_holds past t \<longleftrightarrow>
     length (ct_root_history t) = 256 \<and> unat (ct_root_history_index t) mod 256 = length past mod 256 \<and>
     (\<forall>j < length past. length past \<le> j + 256 \<longrightarrow> ct_root_history t ! (j mod 256) = past ! j) \<and>
     (\<forall>s < 256. length past \<le> s \<longrightarrow> ct_root_history t ! s = 0)"

lemma mod_256_neq:
  fixes j n :: nat
  assumes "j < n" and "n < j + 256"
  shows "j mod 256 \<noteq> n mod 256"
proof
  assume "j mod 256 = n mod 256"
  then have "256 dvd n - j" using assms(1) mod_eq_dvd_iff_nat [of j n 256] by simp
  with assms show False by (auto dest!: dvd_imp_le)
qed

lemma update_root_ring:
  assumes "ring_holds past t"
  shows "ring_holds (past @ [ct_current_root t]) (update_root r t)"
proof -
  let ?n = "length past" and ?i = "unat (ct_root_history_index t)"
  have len: "length (ct_root_history t) = 256" and i: "?i mod 256 = ?n mod 256"
    and win: "\<And>j. j < ?n \<Longrightarrow> ?n \<le> j + 256 \<Longrightarrow> ct_root_history t ! (j mod 256) = past ! j"
    and zero: "\<And>s. s < 256 \<Longrightarrow> ?n \<le> s \<Longrightarrow> ct_root_history t ! s = 0"
    using assms by (auto simp: ring_holds_def)
  have hist: "ct_root_history (update_root r t) = (ct_root_history t)[?n mod 256 := ct_current_root t]"
    by (simp add: update_root_def Let_def ROOT_HISTORY_SIZE_def i)
  have "unat (ct_root_history_index (update_root r t)) = Suc ?i mod 2 ^ 32"
    by (simp add: update_root_def Let_def unat_of_nat del: of_nat_Suc of_nat_add)
  also have "\<dots> mod 256 = Suc ?i mod 256" by (rule mod_mod_cancel) simp
  also have "\<dots> = Suc ?n mod 256" using i by (metis mod_Suc_eq)
  finally have idx: "unat (ct_root_history_index (update_root r t)) mod 256 = Suc ?n mod 256" .
  have "(ct_root_history t)[?n mod 256 := ct_current_root t] ! (j mod 256) = (past @ [ct_current_root t]) ! j"
    if "j < Suc ?n" "Suc ?n \<le> j + 256" for j
  proof (cases "j = ?n")
    case False
    with that have "j < ?n" "j mod 256 \<noteq> ?n mod 256" using mod_256_neq [of j ?n] by auto
    with win [of j] that show ?thesis by (simp add: nth_append)
  qed (simp add: len)
  moreover have "(ct_root_history t)[?n mod 256 := ct_current_root t] ! s = 0" if "s < 256" "Suc ?n \<le> s" for s
    using that zero [of s] by simp
  ultimately show ?thesis using len idx by (simp add: ring_holds_def hist)
qed

lemma residue_in_window:
  fixes a s :: nat
  assumes "s < 256"
  shows "\<exists>j \<ge> a. j < a + 256 \<and> j mod 256 = s"
proof -
  define q b where "q = a div 256" and "b = a mod 256"
  have a: "a = q * 256 + b" "b < 256" by (simp_all add: q_def b_def)
  let ?j = "(if b \<le> s then q else Suc q) * 256 + s"
  have "a \<le> ?j \<and> ?j < a + 256" using assms a by (cases "b \<le> s") simp_all
  with assms show ?thesis by (intro exI [of _ ?j]) simp
qed

lemma in_set_drop_iff: "r \<in> set (drop k xs) \<longleftrightarrow> (\<exists>j < length xs. k \<le> j \<and> xs ! j = r)"
proof
  assume "r \<in> set (drop k xs)"
  then obtain i where "i < length xs - k" "xs ! (k + i) = r" by (auto simp: in_set_conv_nth)
  then show "\<exists>j < length xs. k \<le> j \<and> xs ! j = r" by (intro exI [of _ "k + i"]) simp
next
  assume "\<exists>j < length xs. k \<le> j \<and> xs ! j = r"
  then obtain j where "j < length xs" "k \<le> j" "xs ! j = r" by blast
  then have "j - k < length (drop k xs)" "drop k xs ! (j - k) = r" by simp_all
  then show "r \<in> set (drop k xs)" by (metis nth_mem)
qed

lemma ring_members:
  assumes "ring_holds past t" and "r \<noteq> 0"
  shows "r \<in> set (ct_root_history t) \<longleftrightarrow> r \<in> set (take 256 (rev past))"
proof -
  let ?n = "length past"
  have len: "length (ct_root_history t) = 256"
    and win: "\<And>j. j < ?n \<Longrightarrow> ?n \<le> j + 256 \<Longrightarrow> ct_root_history t ! (j mod 256) = past ! j"
    and zero: "\<And>s. s < 256 \<Longrightarrow> ?n \<le> s \<Longrightarrow> ct_root_history t ! s = 0"
    using assms(1) by (auto simp: ring_holds_def)
  have w: "r \<in> set (take 256 (rev past)) \<longleftrightarrow> (\<exists>j < ?n. ?n \<le> j + 256 \<and> past ! j = r)"
    by (simp add: take_rev in_set_drop_iff le_diff_conv)
  have "\<exists>j < ?n. ?n \<le> j + 256 \<and> past ! j = r" if s: "s < 256" "ct_root_history t ! s = r" for s
  proof (cases "?n \<le> 256")
    case True
    have "s < ?n" by (rule ccontr) (use zero [of s] s assms(2) in simp)
    with True s win [of s] show ?thesis by (intro exI [of _ s]) simp
  next
    case False
    obtain j where "?n - 256 \<le> j" "j < ?n - 256 + 256" "j mod 256 = s" using residue_in_window [OF s(1)] by blast
    with False s win [of j] show ?thesis by (intro exI [of _ j]) auto
  qed
  moreover have "r \<in> set (ct_root_history t)" if "j < ?n" "?n \<le> j + 256" "past ! j = r" for j
    using win [OF that(1,2)] that(3) len by (metis mod_less_divisor nth_mem zero_less_numeral)
  ultimately show ?thesis unfolding w by (metis in_set_conv_nth len)
qed

lemma batch_ring:
  "ring_holds past t \<Longrightarrow> insert_leaves_batch E cs t = Inr (i, t') \<Longrightarrow> ring_holds (past @ [ct_current_root t]) t'"
proof -
  assume ring: "ring_holds past t" and run: "insert_leaves_batch E cs t = Inr (i, t')"
  from run obtain r u where u: "append_leaves E cs (ct_current_root t) t = Inr (r, u)" and t': "t' = update_root r u"
    by (auto simp: insert_leaves_batch_def res_simps split: if_splits)
  have "ring_holds past u" and root: "ct_current_root u = ct_current_root t"
    using ring append_leaves_keeps [OF u] by (simp_all add: ring_holds_def)
  from update_root_ring [OF this(1), of r] show ?thesis by (simp add: t' root)
qed

lemma insert_ring:
  "ring_holds past t \<Longrightarrow> insert_leaf E c t = Inr (i, t') \<Longrightarrow> ring_holds (past @ [ct_current_root t]) t'"
  using batch_ring [of past t E "[c]" i t']
  by (auto simp: insert_leaf_def insert_leaves_batch_def append_leaf_def Let_def res_simps split: if_splits)

lemma tree_run_ring:
  "tree_run E xs rs t \<Longrightarrow> rs \<noteq> [] \<and> last rs = ct_current_root t \<and> ring_holds (butlast rs) t"
proof (induction rule: tree_run.induct)
  case (tr_init b i)
  show ?case by (simp add: ring_holds_def tree_init_def ROOT_HISTORY_SIZE_def)
next
  case (tr_insert xs rs t c i t')
  then have "ring_holds (butlast rs @ [ct_current_root t]) t'" by (blast intro: insert_ring)
  with tr_insert.IH show ?case by (metis append_butlast_last_id butlast_snoc last_snoc snoc_eq_iff_butlast)
next
  case (tr_batch xs rs t cs i t')
  then have "ring_holds (butlast rs @ [ct_current_root t]) t'" by (blast intro: batch_ring)
  with tr_batch.IH show ?case by (metis append_butlast_last_id butlast_snoc last_snoc snoc_eq_iff_butlast)
qed

lemma valid_root_window:
  assumes "tree_run E xs rs t"
  shows "is_valid_root r t \<longleftrightarrow> r \<noteq> 0 \<and> r \<in> set (take 257 (rev rs))"
proof -
  note ring = tree_run_ring [OF assms]
  then have rs: "rs = butlast rs @ [ct_current_root t]" by (metis append_butlast_last_id)
  have "take 257 (rev rs) = ct_current_root t # take 256 (rev (butlast rs))"
    by (subst rs) simp
  then show ?thesis
    using ring ring_members [of "butlast rs" t r] by (auto simp: is_valid_root_def list_ex_iff)
qed

text \<open>
  C37. Along every history of a tree account: a root is accepted exactly when it is non-zero and
  one of the last 257 roots, the current one and the 256 of the ring, also after the 32-bit ring
  index has wrapped; the account represents the leaves inserted so far; and every accepted root is
  the Merkle root of a prefix of these leaves, so a spend is only ever proved against a state the
  tree really had.
\<close>

theorem tree_run_valid_roots:
  assumes "tree_run E leaves roots t" and "poseidon_spec E p" and "zero_ladder (field_hash p)"
  shows "tree_rep E p t leaves \<and>
    (is_valid_root r t \<longleftrightarrow> r \<noteq> 0 \<and> r \<in> set (take 257 (rev roots))) \<and>
    (is_valid_root r t \<longrightarrow> (\<exists>k \<le> length leaves. r = node (field_hash p) (take k leaves) 16 0))"
proof -
  note window = valid_root_window [OF assms(1), of r] and rep = tree_run_rep [OF assms]
  have "r \<in> set roots" if "is_valid_root r t" using that window by (auto dest: in_set_takeD)
  then show ?thesis using window rep by (auto simp: TREE_DEPTH_def)
qed

section \<open>Membership proofs\<close>

definition auth_path :: "(hash32 \<Rightarrow> hash32 \<Rightarrow> hash32) \<Rightarrow> hash32 list \<Rightarrow> nat \<Rightarrow> nat \<Rightarrow> hash32 list" where
  "auth_path h leaves l i =
     map (\<lambda>k. node h leaves k (if even (i div 2 ^ (k - l)) then Suc (i div 2 ^ (k - l)) else i div 2 ^ (k - l) - 1))
       [l..<TREE_DEPTH]"

lemma auth_path_step:
  assumes "l < TREE_DEPTH"
  shows "auth_path h leaves l i =
    node h leaves l (if even i then Suc i else i - 1) # auth_path h leaves (Suc l) (i div 2)"
proof -
  have "i div 2 ^ (k - l) = i div 2 div 2 ^ (k - Suc l)" if "k \<in> set [Suc l..<TREE_DEPTH]" for k
  proof -
    have "k - l = Suc (k - Suc l)" using that by auto
    then show ?thesis by (simp add: div_mult2_eq)
  qed
  then show ?thesis
    unfolding auth_path_def upt_conv_Cons [OF assms] list.map by (simp cong: map_cong)
qed

lemma u64_parity: "(of_nat n :: u64) AND 1 = 0 \<longleftrightarrow> even n"
  by (simp add: and_one_eq flip: even_iff_mod_2_eq_zero)

lemma u64_half: "n < 2 ^ 64 \<Longrightarrow> (of_nat n :: u64) div 2 = of_nat (n div 2)"
  by (simp add: word_unat_eq_iff unat_div unat_of_nat)

lemma compute_merkle_root_path:
  assumes spec: "poseidon_spec E p" and h: "h = field_hash p"
  shows "l \<le> TREE_DEPTH \<Longrightarrow> i < 2 ^ (TREE_DEPTH - l) \<Longrightarrow>
    compute_merkle_root E (node h leaves l i) (of_nat i) (auth_path h leaves l i) =
      Inr (node h leaves TREE_DEPTH 0)"
proof (induction "TREE_DEPTH - l" arbitrary: l i)
  case 0
  then show ?case by (simp add: auth_path_def)
next
  case (Suc d)
  have l: "l < TREE_DEPTH" and d: "d = TREE_DEPTH - Suc l" using Suc.hyps(2) by simp_all
  have i: "i div 2 < 2 ^ (TREE_DEPTH - Suc l)"
  proof -
    have "TREE_DEPTH - l = Suc (TREE_DEPTH - Suc l)" using l by simp
    with Suc.prems(2) have "i < 2 ^ (TREE_DEPTH - Suc l) * 2" by simp
    then show ?thesis by (rule less_mult_imp_div_less)
  qed
  have "i < 2 ^ TREE_DEPTH"
    using Suc.prems(2) by (rule less_le_trans) (simp add: power_increasing)
  then have "i < 2 ^ 64" by (rule less_le_trans) (simp add: TREE_DEPTH_def)
  note half = u64_half [OF this]
  have parent: "node h leaves (Suc l) (i div 2) =
      (if even i then h (node h leaves l i) (node h leaves l (Suc i)) else h (node h leaves l (i - 1)) (node h leaves l i))"
    by (auto elim!: evenE oddE)
  have IH: "compute_merkle_root E (node h leaves (Suc l) (i div 2)) (of_nat (i div 2)) (auth_path h leaves (Suc l) (i div 2)) =
      Inr (node h leaves TREE_DEPTH 0)"
    using l by (intro Suc.hyps(1) [OF d]) (simp_all add: i)
  show ?case
    unfolding auth_path_step [OF l] compute_merkle_root.simps u64_parity poseidon2_total [OF spec] half h [symmetric]
    using IH parent by (simp split: if_splits)
qed

text \<open>
  Every leaf of the tree has a membership proof: \<open>compute_merkle_root\<close> on the leaf, its
  index and the siblings of its path is the current root of the account.
\<close>

theorem membership_proof_complete:
  assumes "tree_rep E p t leaves" and "i < length leaves"
  shows "compute_merkle_root E (leaves ! i) (of_nat i) (auth_path (field_hash p) leaves 0 i) =
     Inr (ct_current_root t)"
proof -
  have "length leaves \<le> 65536" "poseidon_spec E p" and r: "ct_current_root t = node (field_hash p) leaves TREE_DEPTH 0"
    using assms(1) by (simp_all add: tree_rep_def)
  with compute_merkle_root_path [of E p "field_hash p" 0 i leaves] assms(2) show ?thesis
    by (simp add: TREE_DEPTH_def)
qed

section \<open>A concrete tree\<close>

text \<open>A hash with the documented zero ladder, to run the tree on.\<close>

definition demo_poseidon :: "hash32 \<Rightarrow> hash32 \<Rightarrow> hash32" where
  "demo_poseidon a b =
     (if a = b then (case map_of (zip ZERO_HASHES (tl ZERO_HASHES)) a of Some z \<Rightarrow> z | None \<Rightarrow> a) else a + 2 * b + 1)"

definition tree_env :: env where
  "tree_env = demo_env\<lparr>rt_poseidon2 := \<lambda>a b. Inr (demo_poseidon a b)\<rparr>"

lemma be_nat_be_hash: "be_nat (be_hash w) = unat w"
  by (simp add: be_hash_def be_nat_from)

lemma ZERO_HASHES_values: "map be_nat ZERO_HASHES =
     [0,
      0x2098f5fb9e239eab3ceac3f27b81e481dc3124d55ffed523a839ee8446b64864,
      0x1069673dcdb12263df301a6ff584a7ec261a44cb9dc68df067a4774460b1f1e1,
      0x18f43331537ee2af2e3d758d50f72106467c6eea50371dd528d57eb2b856d238,
      0x07f9d837cb17b0d36320ffe93ba52345f1b728571a568265caac97559dbc952a,
      0x2b94cf5e8746b3f5c9631f4c5df32907a699c58c94b2ad4d7b5cec1639183f55,
      0x2dee93c5a666459646ea7d22cca9e1bcfed71e6951b953611d11dda32ea09d78,
      0x078295e5a22b84e982cf601eb639597b8b0515a88cb5ac7fa8a4aabe3c87349d,
      0x2fa5e5f18f6027a6501bec864564472a616b2e274a41211a444cbe3a99f3cc61,
      0x0e884376d0d8fd21ecb780389e941f66e45e7acce3e228ab3e2156a614fcd747,
      0x1b7201da72494f1e28717ad1a52eb469f95892f957713533de6175e5da190af2,
      0x1f8d8822725e36385200c0b201249819a6e6e1e4650808b5bebc6bface7d7636,
      0x2c5d82f66c914bafb9701589ba8cfcfb6162b0a12acf88a8d0879a0471b5f85a,
      0x14c54148a0940bb820957f5adf3fa1134ef5c4aaa113f4646458f270e0bfbfd0,
      0x190d33b12f986f961e10c0ee44d8b9af11be25588cad89d416118e4bf4ebe80c,
      0x22f98aa9ce704152ac17354914ad73ed1167ae6596af510aa5b3649325e06c92,
      0x2a7c7c9b6ce5880b9f6f228d72bf6a575a526f29c66ecceef8b753d38bba7323]"
  by (simp add: ZERO_HASHES_def be_nat_be_hash)

lemma distinct_ZERO_HASHES: "distinct ZERO_HASHES"
proof -
  have "distinct (map be_nat ZERO_HASHES)" unfolding ZERO_HASHES_values by simp
  then show ?thesis by (simp add: distinct_map)
qed

lemma canonical_ZERO_HASHES: "\<forall>z \<in> set ZERO_HASHES. is_canonical_fr z"
proof -
  have "\<forall>n \<in> set (map be_nat ZERO_HASHES). n < FR" unfolding ZERO_HASHES_values by (simp add: FR_def)
  then show ?thesis by (simp add: canonical_iff)
qed

lemma demo_ladder: "zero_ladder (field_hash demo_poseidon)"
proof -
  have "field_hash demo_poseidon (ZERO_HASHES ! l) (ZERO_HASHES ! l) = ZERO_HASHES ! Suc l" if l: "l < TREE_DEPTH" for l
  proof -
    let ?Z = "zip ZERO_HASHES (tl ZERO_HASHES)"
    have "l < length ?Z" using l by (simp add: TREE_DEPTH_def)
    then have "(ZERO_HASHES ! l, ZERO_HASHES ! Suc l) \<in> set ?Z"
      using l by (auto simp: in_set_conv_nth TREE_DEPTH_def nth_tl intro!: exI [of _ l])
    moreover have "distinct (map fst ?Z)"
      using distinct_ZERO_HASHES by (simp add: map_fst_zip_take distinct_take)
    ultimately have "map_of ?Z (ZERO_HASHES ! l) = Some (ZERO_HASHES ! Suc l)" by simp
    moreover have "reduce_to_field_exact (ZERO_HASHES ! l) = ZERO_HASHES ! l"
      using canonical_ZERO_HASHES l by (intro reduce_id) (simp add: TREE_DEPTH_def)
    ultimately show ?thesis by (simp add: field_hash_def demo_poseidon_def)
  qed
  then show ?thesis by (simp add: zero_ladder_def)
qed

lemma demo_spec: "poseidon_spec tree_env demo_poseidon"
  by (simp add: poseidon_spec_def tree_env_def)

lemmas demo_rep = tree_rep_init [OF demo_spec demo_ladder, where b = 254 and i = 0]

theorem insert_leaf_refines_append_witness:
  "\<exists>t. insert_leaf tree_env 5 (tree_init\<lparr>ct_bump := 254, ct_tree_index := 0\<rparr>) = Inr (0, t) \<and>
       ct_current_root t = node (field_hash demo_poseidon) [5] 16 0"
  using insert_leaf_refines_append [OF demo_rep, of 5] by auto

theorem insert_leaves_batch_sequential_witness:
  "case insert_leaves_batch tree_env [5, 6] tree_init of
      Inl e \<Rightarrow> insert_each tree_env [5, 6] tree_init = Inl e
    | Inr (first, t') \<Rightarrow> first = 0 \<and>
        (\<exists>u. insert_each tree_env [5, 6] tree_init = Inr u \<and> ct_current_root t' = ct_current_root u)"
  using insert_leaves_batch_sequential [of "[5, 6]" tree_env tree_init]
  by (auto simp: tree_init_def split: sum.splits)

theorem tree_run_valid_roots_witness:
  "\<exists>roots t. tree_run tree_env [5] roots t \<and> is_valid_root (ZERO_HASHES ! 16) t \<and> \<not> is_valid_root 0 t"
proof -
  let ?t = "tree_init\<lparr>ct_bump := 254, ct_tree_index := 0\<rparr>"
  obtain t where ins: "insert_leaf tree_env 5 ?t = Inr (0, t)"
    using ctree.ins_room [OF demo_rep, of 5] by auto
  from tr_insert [OF tr_init ins]
  have run: "tree_run tree_env [5] [ZERO_HASHES ! 16, ct_current_root t] t" by (simp add: TREE_DEPTH_def)
  moreover have "ZERO_HASHES ! 16 \<noteq> 0"
    using distinct_ZERO_HASHES nth_eq_iff_index_eq [of ZERO_HASHES 16 0] by simp
  ultimately show ?thesis
    using tree_run_valid_roots [OF run demo_spec demo_ladder, of "ZERO_HASHES ! 16"]
      tree_run_valid_roots [OF run demo_spec demo_ladder, of 0] by auto
qed

theorem membership_proof_complete_witness:
  "\<exists>t. tree_rep tree_env demo_poseidon t [5] \<and>
     compute_merkle_root tree_env 5 0 (auth_path (field_hash demo_poseidon) [5] 0 0) = Inr (ct_current_root t)"
proof -
  obtain t where t: "tree_rep tree_env demo_poseidon t [5]"
    using ctree.ins_room [OF demo_rep, of 5] by auto
  from membership_proof_complete [OF t, of 0] t show ?thesis by auto
qed

end
