(* ===== verification/UX_Bitcoin.thy ===== *)
theory UX_Bitcoin
  imports UX_State LC_Verify
begin

text \<open>
  Bitcoin transactions (\<open>utils/bitcoin.rs\<close>): the varint reader, the transaction parser
  and its iterators over inputs and outputs, the deposit payload in an OP_RETURN, and the
  transaction id, which for a SegWit transaction skips marker, flag and witness. Offsets are
  \<open>usize\<close>, natural numbers below \<open>2 ^ 64\<close> with the checked additions of the
  source. The reference is a transaction as data with its consensus serialisation, legacy and
  SegWit; \<open>push_compact_size\<close> of \<open>utils/sighash.rs\<close> is the varint writer.
\<close>

section \<open>Reading\<close>

definition usize_checked_add :: "nat \<Rightarrow> nat \<Rightarrow> nat option" where
  "usize_checked_add a b = (if a + b < 2 ^ 64 then Some (a + b) else None)"

lemma usize_checked_add_eq_Some [res_simps]:
  "usize_checked_add a b = Some c \<longleftrightarrow> a + b < 2 ^ 64 \<and> c = a + b"
  by (auto simp: usize_checked_add_def)

definition read_varint :: "bytes \<Rightarrow> (u64 \<times> nat) result" where
  "read_varint d =
     (if d = [] then Inl InvalidInstructionData
      else if d ! 0 \<le> 0xfc then Inr (ucast (d ! 0), 1)
      else if d ! 0 = 0xfd then
        (if length d < 3 then Inl InvalidInstructionData else Inr (ucast (from_le (bslice 1 2 d) :: u16), 3))
      else if d ! 0 = 0xfe then
        (if length d < 5 then Inl InvalidInstructionData else Inr (ucast (from_le (bslice 1 4 d) :: u32), 5))
      else
        (if length d < 9 then Inl InvalidInstructionData else Inr (from_le (bslice 1 8 d), 9)))"

text \<open>The offset after a script of the announced length and \<open>tail\<close> more bytes.\<close>

definition script_end :: "nat \<Rightarrow> nat \<Rightarrow> u64 \<Rightarrow> nat \<Rightarrow> nat option" where
  "script_end off vi script_len tail =
     Option.bind (usize_checked_add off vi) (\<lambda>o1.
     Option.bind (usize_checked_add o1 (unat script_len)) (\<lambda>o2. usize_checked_add o2 tail))"

lemma script_end_eq_Some [res_simps]:
  "script_end off vi n tail = Some c \<longleftrightarrow> off + vi + unat n + tail < 2 ^ 64 \<and> c = off + vi + unat n + tail"
  by (auto simp: script_end_def bind_eq_Some_conv res_simps)

fun skip_inputs :: "nat \<Rightarrow> bytes \<Rightarrow> nat \<Rightarrow> nat result" where
  "skip_inputs 0 raw off = Inr off"
| "skip_inputs (Suc n) raw off =
     (if off + 36 > length raw then Inl InvalidInstructionData
      else bindE (read_varint (drop (off + 36) raw)) (\<lambda>(script_len, vi).
           bindE (ok_or (script_end (off + 36) vi script_len 4) InvalidInstructionData) (\<lambda>off'.
           if off' > length raw then Inl InvalidInstructionData else skip_inputs n raw off')))"

fun skip_outputs :: "nat \<Rightarrow> bytes \<Rightarrow> nat \<Rightarrow> nat result" where
  "skip_outputs 0 raw off = Inr off"
| "skip_outputs (Suc n) raw off =
     (if off + 8 > length raw then Inl InvalidInstructionData
      else bindE (read_varint (drop (off + 8) raw)) (\<lambda>(script_len, vi).
           bindE (ok_or (script_end (off + 8) vi script_len 0) InvalidInstructionData) (\<lambda>off'.
           if off' > length raw then Inl InvalidInstructionData else skip_outputs n raw off')))"

record parsed_transaction =
  inputs_data :: bytes
  input_count :: nat
  outputs_data :: bytes
  output_count :: nat

definition is_segwit :: "bytes \<Rightarrow> bool" where
  "is_segwit raw \<longleftrightarrow> length raw > 6 \<and> raw ! 4 = 0 \<and> raw ! 5 = 1"

definition parse_transaction :: "bytes \<Rightarrow> parsed_transaction result" where
  "parse_transaction raw =
     (if length raw < 10 then Inl InvalidInstructionData
      else let off = (if is_segwit raw then 6 else 4) in
        bindE (read_varint (drop off raw)) (\<lambda>(n_in, vi).
        if n_in = 0 then Inl InvalidInstructionData
        else let inputs_start = off + vi in
        bindE (skip_inputs (unat n_in) raw inputs_start) (\<lambda>inputs_end.
        bindE (read_varint (drop inputs_end raw)) (\<lambda>(n_out, vo).
        let outputs_start = inputs_end + vo in
        bindE (skip_outputs (unat n_out) raw outputs_start) (\<lambda>outputs_end.
        Inr \<lparr>inputs_data = bslice inputs_start (inputs_end - inputs_start) raw, input_count = unat n_in,
             outputs_data = bslice outputs_start (outputs_end - outputs_start) raw, output_count = unat n_out\<rparr>)))))"

section \<open>Iterators\<close>

record tx_output =
  txo_value :: u64
  script_pubkey :: bytes

record tx_input =
  prev_txid :: hash32
  prev_vout :: u32

text \<open>\<open>next\<close> of the iterators: the item and the new offset.\<close>

definition output_next :: "bytes \<Rightarrow> nat \<Rightarrow> (tx_output \<times> nat) option" where
  "output_next d off =
     (if off + 8 > length d then None
      else case read_varint (drop (off + 8) d) of Inl _ \<Rightarrow> None
        | Inr (script_len, vi) \<Rightarrow>
            (case usize_checked_add (off + 8 + vi) (unat script_len) of None \<Rightarrow> None
             | Some e \<Rightarrow> if e > length d then None
                 else Some (\<lparr>txo_value = from_le (bslice off 8 d),
                             script_pubkey = bslice (off + 8 + vi) (unat script_len) d\<rparr>, e)))"

fun output_items :: "nat \<Rightarrow> bytes \<Rightarrow> nat \<Rightarrow> tx_output list" where
  "output_items 0 d off = []"
| "output_items (Suc n) d off =
     (case output_next d off of None \<Rightarrow> [] | Some (x, off') \<Rightarrow> x # output_items n d off')"

definition input_next :: "bytes \<Rightarrow> nat \<Rightarrow> (tx_input \<times> nat) option" where
  "input_next d off =
     (if off + 36 > length d then None
      else case read_varint (drop (off + 36) d) of Inl _ \<Rightarrow> None
        | Inr (script_len, vi) \<Rightarrow>
            (case script_end (off + 36) vi script_len 4 of None \<Rightarrow> None
             | Some e \<Rightarrow> if e > length d then None
                 else Some (\<lparr>prev_txid = from_le (bslice off 32 d), prev_vout = from_le (bslice (off + 32) 4 d)\<rparr>, e)))"

fun input_items :: "nat \<Rightarrow> bytes \<Rightarrow> nat \<Rightarrow> tx_input list" where
  "input_items 0 d off = []"
| "input_items (Suc n) d off =
     (case input_next d off of None \<Rightarrow> [] | Some (x, off') \<Rightarrow> x # input_items n d off')"

definition tx_outputs :: "parsed_transaction \<Rightarrow> tx_output list" where
  "tx_outputs p = output_items (output_count p) (outputs_data p) 0"

definition tx_inputs :: "parsed_transaction \<Rightarrow> tx_input list" where
  "tx_inputs p = input_items (input_count p) (inputs_data p) 0"

definition OP_RETURN :: u8 where "OP_RETURN = 0x6a"
definition DEPOSIT_OP_RETURN_SIZE :: nat where "DEPOSIT_OP_RETURN_SIZE = 73"

definition is_op_return :: "tx_output \<Rightarrow> bool" where
  "is_op_return x \<longleftrightarrow> script_pubkey x \<noteq> [] \<and> script_pubkey x ! 0 = OP_RETURN"

record deposit_op_return =
  dor_pool_tag :: u64
  dor_ephemeral_pubkey :: hash32
  dor_note_public_key :: hash32

definition get_deposit_op_return :: "tx_output \<Rightarrow> deposit_op_return option" where
  "get_deposit_op_return x =
     (let s = script_pubkey x in
      if \<not> is_op_return x \<or> length s < 2 then None
      else
        Option.bind
          (if length s = 2 + DEPOSIT_OP_RETURN_SIZE \<and> s ! 1 = of_nat DEPOSIT_OP_RETURN_SIZE
           then Some (bslice 2 DEPOSIT_OP_RETURN_SIZE s)
           else if length s = 3 + DEPOSIT_OP_RETURN_SIZE \<and> s ! 1 = 0x4c \<and> s ! 2 = of_nat DEPOSIT_OP_RETURN_SIZE
           then Some (bslice 3 DEPOSIT_OP_RETURN_SIZE s)
           else None)
          (\<lambda>d. if d ! 0 \<noteq> 0x50 \<and> d ! 0 \<noteq> 0x52 \<and> d ! 0 \<noteq> 0x53 then None
               else Some \<lparr>dor_pool_tag = from_le (bslice 1 8 d), dor_ephemeral_pubkey = from_le (bslice 9 32 d),
                          dor_note_public_key = from_le (bslice 41 32 d)\<rparr>))"

definition sum_outputs :: "parsed_transaction \<Rightarrow> u64" where
  "sum_outputs p = fold (\<lambda>x total. saturating_add total (txo_value x)) (tx_outputs p) 0"

definition find_deposit_output :: "parsed_transaction \<Rightarrow> tx_output option" where
  "find_deposit_output p = find (\<lambda>x. \<not> is_op_return x \<and> txo_value x > 0) (tx_outputs p)"

definition find_deposit_output_with_vout :: "parsed_transaction \<Rightarrow> (tx_output \<times> u32) option" where
  "find_deposit_output_with_vout p =
     map_option (\<lambda>(i, x). (x, of_nat i))
       (find (\<lambda>(_, x). \<not> is_op_return x \<and> txo_value x > 0) (enumerate 0 (tx_outputs p)))"

definition find_output_by_script :: "bytes \<Rightarrow> parsed_transaction \<Rightarrow> (tx_output \<times> u32) option" where
  "find_output_by_script script p =
     map_option (\<lambda>(i, x). (x, of_nat i)) (find (\<lambda>(_, x). script_pubkey x = script) (enumerate 0 (tx_outputs p)))"

definition positive_output_count_by_script :: "bytes \<Rightarrow> parsed_transaction \<Rightarrow> nat" where
  "positive_output_count_by_script script p =
     length (filter (\<lambda>x. txo_value x > 0 \<and> script_pubkey x = script) (tx_outputs p))"

fun find_map :: "('a \<Rightarrow> 'b option) \<Rightarrow> 'a list \<Rightarrow> 'b option" where
  "find_map f [] = None"
| "find_map f (x # xs) = (case f x of Some y \<Rightarrow> Some y | None \<Rightarrow> find_map f xs)"

definition find_deposit_op_return :: "parsed_transaction \<Rightarrow> deposit_op_return option" where
  "find_deposit_op_return p = find_map get_deposit_op_return (tx_outputs p)"

definition find_input_with_prev_outpoint :: "hash32 \<Rightarrow> u32 \<Rightarrow> parsed_transaction \<Rightarrow> bool" where
  "find_input_with_prev_outpoint txid vout p \<longleftrightarrow>
     list_ex (\<lambda>x. prev_txid x = txid \<and> prev_vout x = vout) (tx_inputs p)"

section \<open>Transaction ids\<close>

definition sha256_parts :: "env \<Rightarrow> bytes list \<Rightarrow> hash32" where
  "sha256_parts E parts = rt_sha256 E (concat parts)"

fun segwit_inputs :: "nat \<Rightarrow> bytes \<Rightarrow> nat \<Rightarrow> nat option" where
  "segwit_inputs 0 raw off = Some off"
| "segwit_inputs (Suc n) raw off =
     (if off + 36 > length raw then None
      else case read_varint (drop (off + 36) raw) of Inl _ \<Rightarrow> None
        | Inr (script_len, vi) \<Rightarrow>
            Option.bind (script_end (off + 36) vi script_len 4) (\<lambda>off'.
            if off' > length raw then None else segwit_inputs n raw off'))"

fun segwit_outputs :: "nat \<Rightarrow> bytes \<Rightarrow> nat \<Rightarrow> nat option" where
  "segwit_outputs 0 raw off = Some off"
| "segwit_outputs (Suc n) raw off =
     (if off + 8 > length raw then None
      else case read_varint (drop (off + 8) raw) of Inl _ \<Rightarrow> None
        | Inr (script_len, vi) \<Rightarrow>
            Option.bind (script_end (off + 8) vi script_len 0) (\<lambda>off'.
            if off' > length raw then None else segwit_outputs n raw off'))"

definition segwit_body_end :: "bytes \<Rightarrow> nat option" where
  "segwit_body_end raw =
     (if length raw < 10 then None
      else if \<not> (raw ! 4 = 0 \<and> raw ! 5 = 1) then None
      else case read_varint (drop 6 raw) of Inl _ \<Rightarrow> None
        | Inr (n_in, vi) \<Rightarrow>
            if n_in = 0 then None
            else Option.bind (segwit_inputs (unat n_in) raw (6 + vi)) (\<lambda>off.
              if off > length raw then None
              else case read_varint (drop off raw) of Inl _ \<Rightarrow> None
                | Inr (n_out, vo) \<Rightarrow> segwit_outputs (unat n_out) raw (off + vo)))"

definition compute_tx_hash :: "env \<Rightarrow> bytes \<Rightarrow> hash32" where
  "compute_tx_hash E raw =
     (case segwit_body_end raw of
        Some body_end \<Rightarrow>
          if length raw \<ge> body_end + 4
          then rt_sha256 E (bytes32 (sha256_parts E [bslice 0 4 raw, bslice 6 (body_end - 6) raw, drop (length raw - 4) raw]))
          else double_sha256 E raw
      | None \<Rightarrow> double_sha256 E raw)"

section \<open>Consensus serialisation\<close>

definition push_compact_size :: "nat \<Rightarrow> bytes" where
  "push_compact_size n =
     (if n < 0xFD then [of_nat n]
      else if n \<le> 0xFFFF then 0xFD # le_bytes 2 (of_nat n :: u16)
      else if n \<le> 0xFFFFFFFF then 0xFE # le_bytes 4 (of_nat n :: u32)
      else 0xFF # le_bytes 8 (of_nat n :: u64))"

record btc_input =
  bin_txid :: hash32
  bin_vout :: u32
  bin_script :: bytes
  bin_sequence :: u32

record btc_tx =
  btx_version :: u32
  btx_inputs :: "btc_input list"
  btx_outputs :: "tx_output list"
  btx_locktime :: u32

definition ser_input :: "btc_input \<Rightarrow> bytes" where
  "ser_input i = bytes32 (bin_txid i) @ bytes4 (bin_vout i) @
     push_compact_size (length (bin_script i)) @ bin_script i @ bytes4 (bin_sequence i)"

definition ser_output :: "tx_output \<Rightarrow> bytes" where
  "ser_output x = bytes8 (txo_value x) @ push_compact_size (length (script_pubkey x)) @ script_pubkey x"

definition ser_body :: "btc_tx \<Rightarrow> bytes" where
  "ser_body tx =
     push_compact_size (length (btx_inputs tx)) @ concat (map ser_input (btx_inputs tx)) @
     push_compact_size (length (btx_outputs tx)) @ concat (map ser_output (btx_outputs tx))"

definition ser_legacy :: "btc_tx \<Rightarrow> bytes" where
  "ser_legacy tx = bytes4 (btx_version tx) @ ser_body tx @ bytes4 (btx_locktime tx)"

definition ser_segwit :: "bytes \<Rightarrow> btc_tx \<Rightarrow> bytes" where
  "ser_segwit witness tx =
     bytes4 (btx_version tx) @ [0, 1] @ ser_body tx @ witness @ bytes4 (btx_locktime tx)"

definition outpoint :: "btc_input \<Rightarrow> tx_input" where
  "outpoint i = \<lparr>prev_txid = bin_txid i, prev_vout = bin_vout i\<rparr>"

lemma length_push_compact_size: "1 \<le> length (push_compact_size n)" "length (push_compact_size n) \<le> 9"
  by (simp_all add: push_compact_size_def)

lemma of_nat_ucast_small:
  assumes "n < 2 ^ LENGTH('a)" and "LENGTH('a) \<le> LENGTH('b)"
  shows "ucast (of_nat n :: 'a::len word) = (of_nat n :: 'b::len word)"
proof -
  have "n < 2 ^ LENGTH('b)" using assms(1) by (rule less_le_trans) (use assms(2) in simp)
  then have "unat (of_nat n :: 'b word) = n" by (simp add: unat_of_nat)
  moreover have "unat (ucast (of_nat n :: 'a word) :: 'b word) = n"
    unfolding unat_ucast_up [OF assms(2)] using assms(1) by (simp add: unat_of_nat)
  ultimately show ?thesis by (simp add: word_unat_eq_iff)
qed

lemma read_varint_compact_size:
  assumes "n < 2 ^ 64"
  shows "read_varint (push_compact_size n @ rest) = Inr (of_nat n, length (push_compact_size n))"
proof -
  consider "n < 0xFD" | "0xFD \<le> n" "n \<le> 0xFFFF" | "0xFFFF < n" "n \<le> 0xFFFFFFFF" | "0xFFFFFFFF < n" by linarith
  then show ?thesis
  proof cases
    case 1
    have "(of_nat n :: u8) \<le> 0xfc" using 1 by (simp add: word_le_nat_alt unat_of_nat)
    moreover have "ucast (of_nat n :: u8) = (of_nat n :: u64)" using 1 by (intro of_nat_ucast_small) simp_all
    ultimately show ?thesis using 1 by (simp add: read_varint_def push_compact_size_def)
  next
    case 2
    have "ucast (of_nat n :: u16) = (of_nat n :: u64)" using 2 by (intro of_nat_ucast_small) simp_all
    with 2 show ?thesis by (simp add: read_varint_def push_compact_size_def bslice_def)
  next
    case 3
    have "ucast (of_nat n :: u32) = (of_nat n :: u64)" using 3 by (intro of_nat_ucast_small) simp_all
    with 3 show ?thesis by (simp add: read_varint_def push_compact_size_def bslice_def)
  next
    case 4
    then show ?thesis by (simp add: read_varint_def push_compact_size_def bslice_def)
  qed
qed

lemma unat_of_nat_64: "n < 2 ^ 64 \<Longrightarrow> unat (of_nat n :: u64) = n"
  by (simp add: unat_of_nat)

text \<open>One field of the stream behind a prefix.\<close>

lemma drop_prefix: "length a = n \<Longrightarrow> drop (length pre + n) (pre @ a @ r) = r"
  by simp

lemma skip_inputs_ser:
  "length (pre @ concat (map ser_input ins) @ rest) < 2 ^ 64 \<Longrightarrow>
     skip_inputs (length ins) (pre @ concat (map ser_input ins) @ rest) (length pre) =
       Inr (length (pre @ concat (map ser_input ins)))"
proof (induction ins arbitrary: pre)
  case (Cons i ins)
  let ?cs = "push_compact_size (length (bin_script i))" and ?tl = "concat (map ser_input ins) @ rest"
  let ?head = "bytes32 (bin_txid i) @ bytes4 (bin_vout i)"
  have raw: "pre @ concat (map ser_input (i # ins)) @ rest =
      pre @ ?head @ ?cs @ bin_script i @ bytes4 (bin_sequence i) @ ?tl"
    by (simp add: ser_input_def)
  have len: "length pre + 36 + length ?cs + length (bin_script i) + 4 + length ?tl < 2 ^ 64"
    using Cons.prems unfolding raw by simp
  have d: "drop (length pre + 36) (pre @ ?head @ ?cs @ bin_script i @ bytes4 (bin_sequence i) @ ?tl) =
      ?cs @ bin_script i @ bytes4 (bin_sequence i) @ ?tl" by simp
  have n: "unat (of_nat (length (bin_script i)) :: u64) = length (bin_script i)"
    using len by (intro unat_of_nat_64) simp
  have v: "read_varint (?cs @ bin_script i @ bytes4 (bin_sequence i) @ ?tl) =
      Inr (of_nat (length (bin_script i)), length ?cs)"
    using len by (intro read_varint_compact_size) simp
  have IH: "skip_inputs (length ins) ((pre @ ser_input i) @ ?tl) (length (pre @ ser_input i)) =
      Inr (length ((pre @ ser_input i) @ concat (map ser_input ins)))"
    using Cons.prems by (intro Cons.IH) simp
  have s: "script_end (length pre + 36) (length ?cs) (of_nat (length (bin_script i))) 4 = Some (length (pre @ ser_input i))"
    using len by (simp add: res_simps n ser_input_def [of i])
  show ?case
    using IH unfolding raw list.size(4) add_Suc_right add_0_right skip_inputs.simps d v
    by (simp add: s ser_input_def [of i])
qed simp

lemma skip_outputs_ser:
  "length (pre @ concat (map ser_output outs) @ rest) < 2 ^ 64 \<Longrightarrow>
     skip_outputs (length outs) (pre @ concat (map ser_output outs) @ rest) (length pre) =
       Inr (length (pre @ concat (map ser_output outs)))"
proof (induction outs arbitrary: pre)
  case (Cons x outs)
  let ?cs = "push_compact_size (length (script_pubkey x))" and ?tl = "concat (map ser_output outs) @ rest"
  have raw: "pre @ concat (map ser_output (x # outs)) @ rest =
      pre @ bytes8 (txo_value x) @ ?cs @ script_pubkey x @ ?tl"
    by (simp add: ser_output_def)
  have len: "length pre + 8 + length ?cs + length (script_pubkey x) + length ?tl < 2 ^ 64"
    using Cons.prems unfolding raw by simp
  have d: "drop (length pre + 8) (pre @ bytes8 (txo_value x) @ ?cs @ script_pubkey x @ ?tl) =
      ?cs @ script_pubkey x @ ?tl" by simp
  have n: "unat (of_nat (length (script_pubkey x)) :: u64) = length (script_pubkey x)"
    using len by (intro unat_of_nat_64) simp
  have v: "read_varint (?cs @ script_pubkey x @ ?tl) = Inr (of_nat (length (script_pubkey x)), length ?cs)"
    using len by (intro read_varint_compact_size) simp
  have IH: "skip_outputs (length outs) ((pre @ ser_output x) @ ?tl) (length (pre @ ser_output x)) =
      Inr (length ((pre @ ser_output x) @ concat (map ser_output outs)))"
    using Cons.prems by (intro Cons.IH) simp
  have s: "script_end (length pre + 8) (length ?cs) (of_nat (length (script_pubkey x))) 0 = Some (length (pre @ ser_output x))"
    using len by (simp add: res_simps n ser_output_def [of x])
  show ?case
    using IH unfolding raw list.size(4) add_Suc_right add_0_right skip_outputs.simps d v
    by (simp add: s ser_output_def [of x])
qed simp

text \<open>The iterators deliver the serialised items.\<close>

lemma input_next_ser:
  assumes "length (pre @ ser_input i @ rest) < 2 ^ 64"
  shows "input_next (pre @ ser_input i @ rest) (length pre) = Some (outpoint i, length (pre @ ser_input i))"
proof -
  let ?cs = "push_compact_size (length (bin_script i))"
  have len: "length pre + 36 + length ?cs + length (bin_script i) + 4 + length rest < 2 ^ 64"
    using assms by (simp add: ser_input_def)
  have n: "unat (of_nat (length (bin_script i)) :: u64) = length (bin_script i)"
    using len by (intro unat_of_nat_64) simp
  have v: "read_varint (?cs @ bin_script i @ bytes4 (bin_sequence i) @ rest) =
      Inr (of_nat (length (bin_script i)), length ?cs)"
    using len by (intro read_varint_compact_size) simp
  have s: "script_end (length pre + 36) (length ?cs) (of_nat (length (bin_script i))) 4 =
      Some (length pre + 36 + length ?cs + length (bin_script i) + 4)"
    using len by (simp add: res_simps n)
  show ?thesis
    unfolding input_next_def ser_input_def by (simp add: v s outpoint_def bslice_def)
qed

lemma output_next_ser:
  assumes "length (pre @ ser_output x @ rest) < 2 ^ 64"
  shows "output_next (pre @ ser_output x @ rest) (length pre) = Some (x, length (pre @ ser_output x))"
proof -
  let ?cs = "push_compact_size (length (script_pubkey x))"
  have len: "length pre + 8 + length ?cs + length (script_pubkey x) + length rest < 2 ^ 64"
    using assms by (simp add: ser_output_def)
  have n: "unat (of_nat (length (script_pubkey x)) :: u64) = length (script_pubkey x)"
    using len by (intro unat_of_nat_64) simp
  have v: "read_varint (?cs @ script_pubkey x @ rest) = Inr (of_nat (length (script_pubkey x)), length ?cs)"
    using len by (intro read_varint_compact_size) simp
  have s: "usize_checked_add (length pre + 8 + length ?cs) (length (script_pubkey x)) =
      Some (length pre + 8 + length ?cs + length (script_pubkey x))"
    using len by (simp add: res_simps)
  show ?thesis
    unfolding output_next_def ser_output_def by (simp add: v n s bslice_def)
qed

lemma input_items_ser:
  "length (pre @ concat (map ser_input ins) @ rest) < 2 ^ 64 \<Longrightarrow>
     input_items (length ins) (pre @ concat (map ser_input ins) @ rest) (length pre) = map outpoint ins"
proof (induction ins arbitrary: pre)
  case (Cons i ins)
  then show ?case
    using input_next_ser [of pre i "concat (map ser_input ins) @ rest"] Cons.IH [of "pre @ ser_input i"] by simp
qed simp

lemma output_items_ser:
  "length (pre @ concat (map ser_output outs) @ rest) < 2 ^ 64 \<Longrightarrow>
     output_items (length outs) (pre @ concat (map ser_output outs) @ rest) (length pre) = outs"
proof (induction outs arbitrary: pre)
  case (Cons x outs)
  then show ?case
    using output_next_ser [of pre x "concat (map ser_output outs) @ rest"] Cons.IH [of "pre @ ser_output x"] by simp
qed simp

definition ser_parsed :: "btc_tx \<Rightarrow> parsed_transaction" where
  "ser_parsed tx =
     \<lparr>inputs_data = concat (map ser_input (btx_inputs tx)), input_count = length (btx_inputs tx),
      outputs_data = concat (map ser_output (btx_outputs tx)), output_count = length (btx_outputs tx)\<rparr>"

lemma length_ser_input: "41 \<le> length (ser_input i)"
  using length_push_compact_size(1) [of "length (bin_script i)"] by (simp add: ser_input_def)

lemma length_ser_output: "1 \<le> length (ser_output x)"
  by (simp add: ser_output_def)

lemma length_concat_ge: "(\<And>x. 1 \<le> length (f x)) \<Longrightarrow> length xs \<le> length (concat (map f xs))"
proof (induction xs)
  case (Cons x xs)
  have "1 \<le> length (f x)" and "length xs \<le> length (concat (map f xs))" using Cons by blast+
  then have "1 + length xs \<le> length (f x) + length (concat (map f xs))" by (rule add_le_mono)
  then show ?case by simp
qed simp

lemma length_ser_body: "btx_inputs tx \<noteq> [] \<Longrightarrow> 43 \<le> length (ser_body tx)"
  using length_ser_input [of "hd (btx_inputs tx)"] length_push_compact_size(1) [of "length (btx_inputs tx)"]
    length_push_compact_size(1) [of "length (btx_outputs tx)"]
  by (cases "btx_inputs tx") (simp_all add: ser_body_def)

lemma ser_body_counts:
  assumes "length (ser_body tx) < 2 ^ 64"
  shows "length (btx_inputs tx) < 2 ^ 64" and "length (btx_outputs tx) < 2 ^ 64"
proof -
  have "1 \<le> length (ser_input i)" for i using length_ser_input [of i] by simp
  from length_concat_ge [of ser_input, OF this] length_concat_ge [of ser_output, OF length_ser_output]
  have "length (btx_inputs tx) \<le> length (ser_body tx)" "length (btx_outputs tx) \<le> length (ser_body tx)"
    by (simp_all add: ser_body_def trans_le_add1 trans_le_add2)
  with assms show "length (btx_inputs tx) < 2 ^ 64" "length (btx_outputs tx) < 2 ^ 64" by simp_all
qed

text \<open>The walk over the body, shared by the parser and the transaction id.\<close>

lemma ser_body_walk:
  fixes hd rest :: bytes and tx :: btc_tx
  defines "raw \<equiv> hd @ ser_body tx @ rest"
    and "ni \<equiv> push_compact_size (length (btx_inputs tx))" and "no \<equiv> push_compact_size (length (btx_outputs tx))"
  defines "e \<equiv> length hd + length ni + length (concat (map ser_input (btx_inputs tx)))"
  assumes len: "length raw < 2 ^ 64"
  shows "read_varint (drop (length hd) raw) = Inr (of_nat (length (btx_inputs tx)), length ni)"
    and "skip_inputs (length (btx_inputs tx)) raw (length hd + length ni) = Inr e"
    and "read_varint (drop e raw) = Inr (of_nat (length (btx_outputs tx)), length no)"
    and "skip_outputs (length (btx_outputs tx)) raw (e + length no) = Inr (length hd + length (ser_body tx))"
proof -
  let ?I = "concat (map ser_input (btx_inputs tx))" and ?O = "concat (map ser_output (btx_outputs tx))"
  have c: "length (btx_inputs tx) < 2 ^ 64" "length (btx_outputs tx) < 2 ^ 64"
    using len ser_body_counts [of tx] by (simp_all add: raw_def)
  have d: "drop (length hd) raw = ni @ ?I @ no @ ?O @ rest" "drop e raw = no @ ?O @ rest"
    by (simp_all add: raw_def ser_body_def ni_def no_def e_def)
  show "read_varint (drop (length hd) raw) = Inr (of_nat (length (btx_inputs tx)), length ni)"
    unfolding d ni_def by (rule read_varint_compact_size) (rule c)
  show "read_varint (drop e raw) = Inr (of_nat (length (btx_outputs tx)), length no)"
    unfolding d no_def by (rule read_varint_compact_size) (rule c)
  have "raw = (hd @ ni) @ ?I @ no @ ?O @ rest" by (simp add: raw_def ser_body_def ni_def no_def)
  with skip_inputs_ser [of "hd @ ni" "btx_inputs tx" "no @ ?O @ rest"] len
  show "skip_inputs (length (btx_inputs tx)) raw (length hd + length ni) = Inr e" by (simp add: e_def)
  have "raw = (hd @ ni @ ?I @ no) @ ?O @ rest" by (simp add: raw_def ser_body_def ni_def no_def)
  with skip_outputs_ser [of "hd @ ni @ ?I @ no" "btx_outputs tx" rest] len
  show "skip_outputs (length (btx_outputs tx)) raw (e + length no) = Inr (length hd + length (ser_body tx))"
    by (simp add: e_def ser_body_def ni_def no_def add.assoc)
qed

lemma parse_ser:
  fixes hd rest :: bytes and tx :: btc_tx
  defines "raw \<equiv> hd @ ser_body tx @ rest"
  assumes len: "length raw < 2 ^ 64" "10 \<le> length raw" and ins: "btx_inputs tx \<noteq> []"
    and off: "length hd = (if is_segwit raw then 6 else 4)"
  shows "parse_transaction raw = Inr (ser_parsed tx)"
proof -
  note walk = ser_body_walk [of hd tx rest, folded raw_def, OF len(1)]
  have c: "length (btx_inputs tx) < 2 ^ 64" "length (btx_outputs tx) < 2 ^ 64"
    using len(1) ser_body_counts [of tx] by (simp_all add: raw_def)
  have "(of_nat (length (btx_inputs tx)) :: u64) \<noteq> 0"
    using c ins unat_of_nat_64 [OF c(1)] by (metis length_0_conv unat_0)
  then show ?thesis
    unfolding parse_transaction_def Let_def
    using len walk(1,2) by (simp add: off [symmetric] unat_of_nat_64 [OF c(1)] unat_of_nat_64 [OF c(2)] walk(3,4))
      (simp add: ser_parsed_def raw_def ser_body_def bslice_def)
qed

text \<open>
  The segwit walk is the parser's walk.
\<close>

lemma segwit_inputs_eq: "segwit_inputs n raw off = (case skip_inputs n raw off of Inl _ \<Rightarrow> None | Inr x \<Rightarrow> Some x)"
proof (induction n arbitrary: off)
  case (Suc n)
  then show ?case
    by (cases "read_varint (drop (off + 36) raw)") (auto simp: bindE_def ok_or_def split: option.splits sum.splits if_splits)
qed simp

lemma segwit_outputs_eq: "segwit_outputs n raw off = (case skip_outputs n raw off of Inl _ \<Rightarrow> None | Inr x \<Rightarrow> Some x)"
proof (induction n arbitrary: off)
  case (Suc n)
  then show ?case
    by (cases "read_varint (drop (off + 8) raw)") (auto simp: bindE_def ok_or_def split: option.splits sum.splits if_splits)
qed simp

lemma compact_size_nonzero: "0 < n \<Longrightarrow> n < 2 ^ 64 \<Longrightarrow> push_compact_size n ! 0 \<noteq> 0"
proof -
  assume n: "0 < n" "n < 2 ^ 64"
  have "(of_nat n :: u8) \<noteq> 0" if "n < 0xFD"
  proof -
    have "unat (of_nat n :: u8) = n" using that by (simp add: unat_of_nat)
    then show ?thesis using n by (metis unat_0 less_numeral_extra(3))
  qed
  then show ?thesis by (simp add: push_compact_size_def)
qed

lemma not_segwit_ser_legacy:
  assumes "btx_inputs tx \<noteq> []" and "length (ser_legacy tx) < 2 ^ 64"
  shows "ser_legacy tx ! 4 \<noteq> 0"
proof -
  let ?n = "length (btx_inputs tx)"
  have "?n < 2 ^ 64" using ser_body_counts(1) [of tx] assms(2) by (simp add: ser_legacy_def)
  then have "push_compact_size ?n ! 0 \<noteq> 0" using assms(1) by (intro compact_size_nonzero) simp_all
  moreover have "ser_legacy tx ! 4 = push_compact_size ?n ! 0"
    using length_push_compact_size(1) [of ?n]
    by (cases "push_compact_size ?n") (simp_all add: ser_legacy_def ser_body_def nth_append)
  ultimately show ?thesis by simp
qed

lemma is_segwit_ser_segwit: "btx_inputs tx \<noteq> [] \<Longrightarrow> is_segwit (ser_segwit w tx)"
  using length_ser_body [of tx] by (simp add: is_segwit_def ser_segwit_def nth_append)

lemma parse_both_forms:
  assumes "btx_inputs tx \<noteq> []" and "length (ser_segwit w tx) < 2 ^ 64"
  shows "parse_transaction (ser_segwit w tx) = Inr (ser_parsed tx)"
    and "parse_transaction (ser_legacy tx) = Inr (ser_parsed tx)"
proof -
  note b = length_ser_body [OF assms(1)]
  have "is_segwit (ser_segwit w tx)" by (rule is_segwit_ser_segwit [OF assms(1)])
  with parse_ser [of "bytes4 (btx_version tx) @ [0, 1]" tx "w @ bytes4 (btx_locktime tx)"] assms b
  show "parse_transaction (ser_segwit w tx) = Inr (ser_parsed tx)" by (simp add: ser_segwit_def)
  have l: "length (ser_legacy tx) < 2 ^ 64" using assms(2) by (simp add: ser_segwit_def ser_legacy_def)
  then have "\<not> is_segwit (ser_legacy tx)" using not_segwit_ser_legacy [OF assms(1)] by (simp add: is_segwit_def)
  with parse_ser [of "bytes4 (btx_version tx)" tx "bytes4 (btx_locktime tx)"] assms b l
  show "parse_transaction (ser_legacy tx) = Inr (ser_parsed tx)" by (simp add: ser_legacy_def)
qed

lemma segwit_body_end_ser:
  assumes ins: "btx_inputs tx \<noteq> []" and len: "length (ser_segwit w tx) < 2 ^ 64"
  shows "segwit_body_end (ser_segwit w tx) = Some (6 + length (ser_body tx))"
proof -
  let ?hd = "bytes4 (btx_version tx) @ [0, 1]" and ?rest = "w @ bytes4 (btx_locktime tx)"
  have raw: "ser_segwit w tx = ?hd @ ser_body tx @ ?rest" by (simp add: ser_segwit_def)
  note walk = ser_body_walk [of ?hd tx ?rest, folded raw, OF len]
  have c: "length (btx_inputs tx) < 2 ^ 64" "length (btx_outputs tx) < 2 ^ 64"
    using len ser_body_counts [of tx] by (simp_all add: raw)
  have nz: "(of_nat (length (btx_inputs tx)) :: u64) \<noteq> 0"
    using c ins unat_of_nat_64 [OF c(1)] by (metis length_0_conv unat_0)
  have "is_segwit (ser_segwit w tx)" by (rule is_segwit_ser_segwit [OF ins])
  moreover have "\<not> length (ser_segwit w tx) < 10" using length_ser_body [OF ins] by (simp add: raw)
  ultimately show ?thesis
    using nz walk unfolding segwit_body_end_def segwit_inputs_eq segwit_outputs_eq
    by (simp add: is_segwit_def unat_of_nat_64 [OF c(1)] unat_of_nat_64 [OF c(2)])
      (simp add: raw ser_body_def)
qed

text \<open>
  Round trip: the parser accepts the consensus serialisation of a transaction with inputs,
  legacy or SegWit with any witness, and its iterators deliver exactly the outputs and the
  spent outpoints that were serialised, in order.
\<close>

theorem parse_serialize_round_trip:
  assumes "btx_inputs tx \<noteq> []" and "length (ser_segwit witness tx) < 2 ^ 64"
  shows "\<exists>p. parse_transaction (ser_segwit witness tx) = Inr p \<and> parse_transaction (ser_legacy tx) = Inr p \<and>
     tx_outputs p = btx_outputs tx \<and> tx_inputs p = map outpoint (btx_inputs tx)"
proof -
  have "length (concat (map ser_input (btx_inputs tx))) < 2 ^ 64" "length (concat (map ser_output (btx_outputs tx))) < 2 ^ 64"
    using assms(2) by (simp_all add: ser_segwit_def ser_body_def)
  then show ?thesis
    using parse_both_forms [OF assms] input_items_ser [of "[]" "btx_inputs tx" "[]"]
      output_items_ser [of "[]" "btx_outputs tx" "[]"]
    by (intro exI [of _ "ser_parsed tx"]) (simp add: tx_outputs_def tx_inputs_def ser_parsed_def)
qed

definition sample_tx :: btc_tx where
  "sample_tx = \<lparr>btx_version = 2,
     btx_inputs = [\<lparr>bin_txid = 7, bin_vout = 1, bin_script = [], bin_sequence = 0xfffffffd\<rparr>],
     btx_outputs = [\<lparr>txo_value = 50000, script_pubkey = [0x51, 0x20]\<rparr>, \<lparr>txo_value = 330, script_pubkey = [0x6a]\<rparr>],
     btx_locktime = 0\<rparr>"

lemma sample_tx_ok: "btx_inputs sample_tx \<noteq> []" "length (ser_segwit [1, 2, 3] sample_tx) < 2 ^ 64"
  by (simp_all add: sample_tx_def ser_segwit_def ser_body_def ser_input_def ser_output_def push_compact_size_def)

theorem parse_serialize_round_trip_witness:
  "\<exists>p. parse_transaction (ser_segwit [1, 2, 3] sample_tx) = Inr p \<and> length (tx_outputs p) = 2 \<and>
       tx_inputs p = [\<lparr>prev_txid = 7, prev_vout = 1\<rparr>]"
  using parse_serialize_round_trip [OF sample_tx_ok] by (auto simp: sample_tx_def outpoint_def)

text \<open>
  C38. The transaction id: for a SegWit serialisation \<open>compute_tx_hash\<close> is the double SHA-256
  of the legacy serialisation of the same transaction, whatever the witness, and for a legacy
  serialisation it is the double SHA-256 of the raw bytes. So the id does not depend on the form
  in which the transaction was submitted.
\<close>

theorem compute_tx_hash_is_txid:
  assumes "btx_inputs tx \<noteq> []" and "length (ser_segwit witness tx) < 2 ^ 64"
  shows "compute_tx_hash E (ser_segwit witness tx) = double_sha256 E (ser_legacy tx) \<and>
         compute_tx_hash E (ser_legacy tx) = double_sha256 E (ser_legacy tx)"
proof
  show "compute_tx_hash E (ser_segwit witness tx) = double_sha256 E (ser_legacy tx)"
    unfolding compute_tx_hash_def segwit_body_end_ser [OF assms]
    by (simp add: double_sha256_def sha256_parts_def ser_legacy_def)
      (simp add: ser_segwit_def bslice_def)
  have "length (ser_legacy tx) < 2 ^ 64" using assms(2) by (simp add: ser_segwit_def ser_legacy_def)
  from not_segwit_ser_legacy [OF assms(1) this]
  show "compute_tx_hash E (ser_legacy tx) = double_sha256 E (ser_legacy tx)"
    by (simp add: compute_tx_hash_def segwit_body_end_def)
qed

theorem compute_tx_hash_is_txid_witness:
  "compute_tx_hash demo_env (ser_segwit [1, 2, 3] sample_tx) = compute_tx_hash demo_env (ser_legacy sample_tx)"
  using compute_tx_hash_is_txid [OF sample_tx_ok, of demo_env] by simp

section \<open>Accepted transactions\<close>

text \<open>Reading inside a slice gives what reading the whole gave.\<close>

lemma read_varint_take:
  assumes "read_varint d = Inr (v, k)" and "k \<le> m"
  shows "read_varint (take m d) = Inr (v, k)" and "k \<le> length d" and "1 \<le> k"
proof -
  have s: "bslice 1 j (take m d) = bslice 1 j d" if "Suc j \<le> m" for j
    using that by (simp add: bslice_def take_drop min_def)
  show "k \<le> length d" "1 \<le> k"
    using assms(1) by (auto simp: read_varint_def Suc_le_eq split: if_splits)
  show "read_varint (take m d) = Inr (v, k)"
    using assms s [of 2] s [of 4] s [of 8] by (auto simp: read_varint_def split: if_splits)
qed

lemma drop_bslice: "a \<le> off \<Longrightarrow> drop (off - a) (bslice a (e - a) raw) = take (e - off) (drop off raw)"
  by (simp add: bslice_def drop_take)

lemma skip_mono:
  "skip_inputs n raw off = Inr e \<Longrightarrow> off \<le> e \<and> (0 < n \<longrightarrow> e \<le> length raw)"
  "skip_outputs n raw off = Inr e \<Longrightarrow> off \<le> e \<and> (0 < n \<longrightarrow> e \<le> length raw)"
proof (induction n arbitrary: off)
  case (Suc n)
  {
    case 1
    then obtain off' where "skip_inputs n raw off' = Inr e" "off \<le> off'" "off' \<le> length raw"
      by (auto simp: res_simps not_less split: if_splits)
    with Suc.IH(1) [of off'] show ?case by (cases n) auto
  next
    case 2
    then obtain off' where "skip_outputs n raw off' = Inr e" "off \<le> off'" "off' \<le> length raw"
      by (auto simp: res_simps not_less split: if_splits)
    with Suc.IH(2) [of off'] show ?case by (cases n) auto
  }
qed simp_all

lemma skip_outputs_items:
  assumes "skip_outputs n raw off = Inr e" and "a \<le> off" and "e \<le> length raw"
  shows "length (output_items n (bslice a (e - a) raw) (off - a)) = n"
  using assms
proof (induction n arbitrary: off)
  case (Suc n)
  let ?d = "bslice a (e - a) raw"
  from Suc.prems(1) obtain v k where rv: "read_varint (drop (off + 8) raw) = Inr (v, k)"
    and o: "off + 8 + k + unat v < 2 ^ 64" and run: "skip_outputs n raw (off + 8 + k + unat v) = Inr e"
    by (auto simp: res_simps split: if_splits)
  have e: "off + 8 + k + unat v \<le> e" using skip_mono(2) [OF run] by simp
  from Suc.prems(2) obtain r where r: "off = a + r" by (auto simp: le_iff_add)
  define s where "s = e - a"
  then have s: "e = a + s" "r + 8 + k + unat v \<le> s" using e r by simp_all
  have len: "length ?d = e - a" using Suc.prems(2,3) e by (simp add: bslice_def)
  have "drop (off - a + 8) ?d = take (e - (off + 8)) (drop (off + 8) raw)"
    using drop_bslice [of a "off + 8" e raw] Suc.prems(2) by simp
  with read_varint_take(1) [OF rv, of "e - (off + 8)"] e
  have "read_varint (drop (off - a + 8) ?d) = Inr (v, k)" by simp
  then have "\<exists>x. output_next ?d (off - a) = Some (x, off + 8 + k + unat v - a)"
    using o len s(2) by (simp add: r s(1) output_next_def usize_checked_add_def)
  then show ?case using Suc.IH [OF run _ Suc.prems(3)] Suc.prems(2) by auto
qed simp

lemma skip_inputs_items:
  assumes "skip_inputs n raw off = Inr e" and "a \<le> off" and "e \<le> length raw"
  shows "length (input_items n (bslice a (e - a) raw) (off - a)) = n"
  using assms
proof (induction n arbitrary: off)
  case (Suc n)
  let ?d = "bslice a (e - a) raw"
  from Suc.prems(1) obtain v k where rv: "read_varint (drop (off + 36) raw) = Inr (v, k)"
    and o: "off + 36 + k + unat v + 4 < 2 ^ 64" and run: "skip_inputs n raw (off + 36 + k + unat v + 4) = Inr e"
    by (auto simp: res_simps split: if_splits)
  have e: "off + 36 + k + unat v + 4 \<le> e" using skip_mono(1) [OF run] by simp
  from Suc.prems(2) obtain r where r: "off = a + r" by (auto simp: le_iff_add)
  define s where "s = e - a"
  then have s: "e = a + s" "r + 36 + k + unat v + 4 \<le> s" using e r by simp_all
  have len: "length ?d = e - a" using Suc.prems(2,3) e by (simp add: bslice_def)
  have "drop (off - a + 36) ?d = take (e - (off + 36)) (drop (off + 36) raw)"
    using drop_bslice [of a "off + 36" e raw] Suc.prems(2) by simp
  with read_varint_take(1) [OF rv, of "e - (off + 36)"] e
  have "read_varint (drop (off - a + 36) ?d) = Inr (v, k)" by simp
  moreover have "script_end (off - a + 36) k v 4 = Some (off + 36 + k + unat v + 4 - a)"
    using o Suc.prems(2) by (simp add: res_simps)
  ultimately have "\<exists>x. input_next ?d (off - a) = Some (x, off + 36 + k + unat v + 4 - a)"
    using len s(2) by (simp add: r s(1) input_next_def)
  then show ?case using Suc.IH [OF run _ Suc.prems(3)] Suc.prems(2) by auto
qed simp

text \<open>
  On every byte string the parser accepts, also an adversarial one, the iterators do not stop
  early: they yield exactly the announced number of inputs and outputs, of which there is at
  least one input. No output can hide behind a malformed one.
\<close>

theorem parsed_iterators_complete:
  assumes "parse_transaction raw = Inr p"
  shows "length (tx_outputs p) = output_count p \<and> length (tx_inputs p) = input_count p \<and> 0 < input_count p"
proof -
  define off where "off = (if is_segwit raw then 6 else 4 :: nat)"
  have "\<exists>(n_in :: u64) vi ie (n_out :: u64) vo oe. n_in \<noteq> 0 \<and> skip_inputs (unat n_in) raw (off + vi) = Inr ie \<and>
      skip_outputs (unat n_out) raw (ie + vo) = Inr oe \<and>
      \<lparr>inputs_data = bslice (off + vi) (ie - (off + vi)) raw, input_count = unat n_in,
       outputs_data = bslice (ie + vo) (oe - (ie + vo)) raw, output_count = unat n_out\<rparr> = p"
    using assms unfolding parse_transaction_def Let_def off_def [symmetric]
    by (simp only: res_simps split_paired_Ex prod.case sum.inject) (elim conjE exE, intro exI conjI, assumption+)
  then obtain n_in n_out :: u64 and vi ie vo oe where n: "n_in \<noteq> 0"
    and si: "skip_inputs (unat n_in) raw (off + vi) = Inr ie"
    and so: "skip_outputs (unat n_out) raw (ie + vo) = Inr oe"
    and p: "\<lparr>inputs_data = bslice (off + vi) (ie - (off + vi)) raw, input_count = unat n_in,
       outputs_data = bslice (ie + vo) (oe - (ie + vo)) raw, output_count = unat n_out\<rparr> = p"
    by blast
  have pos: "0 < unat n_in" using n by (simp add: unat_gt_0)
  have "ie \<le> length raw" using skip_mono(1) [OF si] pos by simp
  then have i: "length (tx_inputs p) = input_count p"
    using skip_inputs_items [OF si, of "off + vi"] by (simp add: tx_inputs_def p [symmetric])
  have "oe \<le> length raw" if "0 < unat n_out" using skip_mono(2) [OF so] that by simp
  then have "length (tx_outputs p) = output_count p"
    using skip_outputs_items [OF so, of "ie + vo"] by (cases "unat n_out = 0") (auto simp: tx_outputs_def p [symmetric])
  with i pos show ?thesis by (simp add: p [symmetric])
qed

theorem parsed_iterators_complete_witness:
  "\<exists>p. parse_transaction (ser_legacy sample_tx) = Inr p \<and> length (tx_outputs p) = output_count p"
  using parse_both_forms(2) [OF sample_tx_ok] parsed_iterators_complete [of "ser_legacy sample_tx" "ser_parsed sample_tx"]
  by simp

definition deposit_payload :: "u8 \<Rightarrow> deposit_op_return \<Rightarrow> bytes" where
  "deposit_payload header d =
     header # bytes8 (dor_pool_tag d) @ bytes32 (dor_ephemeral_pubkey d) @ bytes32 (dor_note_public_key d)"

lemma length_deposit_payload [simp]: "length (deposit_payload header d) = 73"
  by (simp add: deposit_payload_def)

definition read_payload :: "bytes \<Rightarrow> deposit_op_return" where
  "read_payload d = \<lparr>dor_pool_tag = from_le (bslice 1 8 d), dor_ephemeral_pubkey = from_le (bslice 9 32 d),
     dor_note_public_key = from_le (bslice 41 32 d)\<rparr>"

lemma read_payload_write: "read_payload (deposit_payload header d) = d" "deposit_payload header d ! 0 = header"
  by (simp_all add: read_payload_def deposit_payload_def bslice_def)

lemma list_of_slices:
  assumes "length d = 73"
  shows "d = d ! 0 # bslice 1 8 d @ bslice 9 32 d @ bslice 41 32 d"
proof -
  have "((take 1 d @ bslice 1 8 d) @ bslice 9 32 d) @ bslice 41 32 d = d"
    using take_join [of 1 d 8] take_join [of 9 d 32] take_join [of 41 d 32] assms by simp
  moreover have "take 1 d = [d ! 0]" using assms by (cases d) simp_all
  ultimately show ?thesis by simp
qed

lemma write_payload_read:
  assumes "length d = 73"
  shows "deposit_payload (d ! 0) (read_payload d) = d"
proof -
  have "length (bslice 1 8 d) = 8" "length (bslice 9 32 d) = 32" "length (bslice 41 32 d) = 32"
    using assms by (simp_all add: bslice_def)
  then show ?thesis
    unfolding deposit_payload_def read_payload_def
    using list_of_slices [OF assms] by (simp add: le_bytes_from_le)
qed

lemma script_of_push:
  "length s = 2 + 73 \<Longrightarrow> s = [s ! 0, s ! 1] @ bslice 2 73 s"
  "length s = 3 + 73 \<Longrightarrow> s = [s ! 0, s ! 1, s ! 2] @ bslice 3 73 s"
proof -
  assume "length s = 2 + 73"
  then show "s = [s ! 0, s ! 1] @ bslice 2 73 s"
    by (cases s; cases "tl s") (simp_all add: bslice_def)
next
  assume "length s = 3 + 73"
  then show "s = [s ! 0, s ! 1, s ! 2] @ bslice 3 73 s"
    by (cases s; cases "tl s"; cases "tl (tl s)") (simp_all add: bslice_def)
qed

text \<open>
  The deposit payload is read back exactly from either of its two script encodings, the
  direct push and PUSHDATA1, with each of the three network headers; and only an OP_RETURN
  script of one of these two forms yields a payload.
\<close>

theorem deposit_op_return_exact:
  "get_deposit_op_return x = Some d \<longleftrightarrow>
     (\<exists>header \<in> {0x50, 0x52, 0x53}. script_pubkey x = [0x6a, 73] @ deposit_payload header d \<or>
        script_pubkey x = [0x6a, 0x4c, 73] @ deposit_payload header d)"
proof
  let ?s = "script_pubkey x"
  assume "get_deposit_op_return x = Some d"
  then obtain b where op: "?s \<noteq> []" "?s ! 0 = 0x6a"
    and b: "length ?s = 2 + 73 \<and> ?s ! 1 = 73 \<and> b = bslice 2 73 ?s \<or>
            length ?s = 3 + 73 \<and> ?s ! 1 = 0x4c \<and> ?s ! 2 = 73 \<and> b = bslice 3 73 ?s"
    and h: "b ! 0 \<in> {0x50, 0x52, 0x53}" and d: "d = read_payload b"
    by (auto simp: get_deposit_op_return_def Let_def bind_eq_Some_conv is_op_return_def OP_RETURN_def
        DEPOSIT_OP_RETURN_SIZE_def read_payload_def split: if_splits)
  have "length b = 73" using b by (auto simp: bslice_def)
  from write_payload_read [OF this] have "b = deposit_payload (b ! 0) d" by (simp add: d)
  with b op script_of_push [of ?s] h show "\<exists>header \<in> {0x50, 0x52, 0x53}. ?s = [0x6a, 73] @ deposit_payload header d \<or>
        ?s = [0x6a, 0x4c, 73] @ deposit_payload header d" by metis
next
  assume "\<exists>header \<in> {0x50, 0x52, 0x53}. script_pubkey x = [0x6a, 73] @ deposit_payload header d \<or>
        script_pubkey x = [0x6a, 0x4c, 73] @ deposit_payload header d"
  then obtain header where h: "header \<in> {0x50, 0x52, 0x53}"
    and s: "script_pubkey x = [0x6a, 73] @ deposit_payload header d \<or>
        script_pubkey x = [0x6a, 0x4c, 73] @ deposit_payload header d" by blast
  note r = read_payload_write [of header d]
  define P where "P = deposit_payload header d"
  have P: "length P = 73" "P ! 0 = header" "read_payload P = d" by (simp_all add: P_def r)
  have sl: "bslice 2 73 (0x6a # 73 # P) = P" "bslice 3 73 (0x6a # 0x4c # 73 # P) = P"
    by (simp_all add: bslice_def P(1))
  from s show "get_deposit_op_return x = Some d"
  proof
    assume "script_pubkey x = [0x6a, 73] @ deposit_payload header d"
    then have "script_pubkey x = 0x6a # 73 # P" by (simp add: P_def)
    then show ?thesis using h P sl
      by (auto simp: get_deposit_op_return_def Let_def is_op_return_def OP_RETURN_def
          DEPOSIT_OP_RETURN_SIZE_def read_payload_def)
  next
    assume "script_pubkey x = [0x6a, 0x4c, 73] @ deposit_payload header d"
    then have "script_pubkey x = 0x6a # 0x4c # 73 # P" by (simp add: P_def)
    then show ?thesis using h P sl
      by (auto simp: get_deposit_op_return_def Let_def is_op_return_def OP_RETURN_def
          DEPOSIT_OP_RETURN_SIZE_def read_payload_def)
  qed
qed

theorem deposit_op_return_exact_witness:
  "get_deposit_op_return \<lparr>txo_value = 0, script_pubkey = [0x6a, 73] @
     deposit_payload 0x50 \<lparr>dor_pool_tag = 1, dor_ephemeral_pubkey = 2, dor_note_public_key = 3\<rparr>\<rparr> =
   Some \<lparr>dor_pool_tag = 1, dor_ephemeral_pubkey = 2, dor_note_public_key = 3\<rparr>"
  by (simp add: deposit_op_return_exact)

end
