(* ===== verification/UX_Sighash.thy ===== *)
theory UX_Sighash
  imports UX_Bitcoin UX_Crypto "HOL-Library.Multiset"
begin

text \<open>
  The message a redemption is signed over (\<open>utils/sighash.rs\<close>): the canonical order of the
  reserved inputs and the commitment to them, and the BIP-341 key-path and script-path preimages.
  The lemmas show that the order does not depend on how the inputs were listed, and that the
  preimages determine every field of the transaction they are built from, up to collisions of
  the five midstate hashes.
\<close>

section \<open>Self-delimiting codes\<close>

text \<open>A code whose words can be read off the front of a byte stream; valid values only.\<close>

locale self_delimiting =
  fixes enc :: "'a \<Rightarrow> bytes" and ok :: "'a \<Rightarrow> bool"
  assumes enc_inj: "ok x \<Longrightarrow> ok y \<Longrightarrow> enc x @ r = enc y @ r' \<Longrightarrow> x = y \<and> r = r'"
    and enc_nonempty: "enc x \<noteq> []"
begin

lemma concat_inj:
  "list_all ok xs \<Longrightarrow> list_all ok ys \<Longrightarrow> concat (map enc xs) = concat (map enc ys) \<Longrightarrow> xs = ys"
proof (induction xs arbitrary: ys)
  case Nil
  then show ?case by (cases ys) (simp_all add: enc_nonempty)
next
  case (Cons x xs)
  from Cons.prems(3) obtain y ys' where ys: "ys = y # ys'" by (cases ys) (simp_all add: enc_nonempty)
  with Cons.prems have "x = y \<and> concat (map enc xs) = concat (map enc ys')"
    using enc_inj [of x y "concat (map enc xs)" "concat (map enc ys')"] by simp
  with Cons.IH [of ys'] Cons.prems ys show ?case by simp
qed

end

section \<open>Reserved inputs\<close>

record reserved_input =
  ri_txid :: hash32
  ri_vout :: u32
  ri_amount_sats :: u64
  ri_leaf_commitment :: "hash32 option"

text \<open>The comparison of \<open>canonical_sort\<close>; byte arrays compare lexicographically.\<close>

definition bytes_le :: "hash32 \<Rightarrow> hash32 \<Rightarrow> bool" where
  "bytes_le a b = ge_bytes (bytes32 b) (bytes32 a)"

definition ri_le :: "reserved_input \<Rightarrow> reserved_input \<Rightarrow> bool" where
  "ri_le a b =
     (if ri_amount_sats a \<noteq> ri_amount_sats b then ri_amount_sats b < ri_amount_sats a
      else if ri_txid a \<noteq> ri_txid b then bytes_le (ri_txid a) (ri_txid b)
      else ri_vout a \<le> ri_vout b)"

fun ri_insert :: "reserved_input \<Rightarrow> reserved_input list \<Rightarrow> reserved_input list" where
  "ri_insert x [] = [x]"
| "ri_insert x (y # ys) = (if ri_le x y then x # y # ys else y # ri_insert x ys)"

definition canonical_sort :: "reserved_input list \<Rightarrow> reserved_input list" where
  "canonical_sort items = foldr ri_insert items []"

definition ri_bytes :: "reserved_input \<Rightarrow> bytes" where
  "ri_bytes x = bytes32 (ri_txid x) @ bytes4 (ri_vout x) @ bytes8 (ri_amount_sats x)"

definition inputs_commitment :: "env \<Rightarrow> reserved_input list \<Rightarrow> hash32" where
  "inputs_commitment E ordered = rt_sha256 E (concat (map ri_bytes ordered))"

section \<open>Preimages\<close>

record sighash_input =
  si_txid :: hash32
  si_vout :: u32
  si_sequence :: u32
  si_amount_sats :: u64
  si_script_pubkey :: bytes

record sighash_output =
  so_amount_sats :: u64
  so_script_pubkey :: bytes

record sighash_midstate =
  ms_prevouts :: hash32
  ms_amounts :: hash32
  ms_script_pubkeys :: hash32
  ms_sequences :: hash32
  ms_outputs :: hash32
  ms_tag :: hash32

definition prevouts_buf :: "sighash_input list \<Rightarrow> bytes" where
  "prevouts_buf ins = concat (map (\<lambda>i. bytes32 (si_txid i) @ bytes4 (si_vout i)) ins)"
definition amounts_buf :: "sighash_input list \<Rightarrow> bytes" where
  "amounts_buf ins = concat (map (\<lambda>i. bytes8 (si_amount_sats i)) ins)"
definition script_bytes :: "bytes \<Rightarrow> bytes" where
  "script_bytes s = push_compact_size (length s) @ s"
definition spk_buf :: "sighash_input list \<Rightarrow> bytes" where
  "spk_buf ins = concat (map (\<lambda>i. script_bytes (si_script_pubkey i)) ins)"
definition seq_buf :: "sighash_input list \<Rightarrow> bytes" where
  "seq_buf ins = concat (map (\<lambda>i. bytes4 (si_sequence i)) ins)"
definition out_bytes :: "sighash_output \<Rightarrow> bytes" where
  "out_bytes x = bytes8 (so_amount_sats x) @ script_bytes (so_script_pubkey x)"
definition out_buf :: "sighash_output list \<Rightarrow> bytes" where
  "out_buf outs = concat (map out_bytes outs)"

definition sighash_midstate :: "env \<Rightarrow> sighash_input list \<Rightarrow> sighash_output list \<Rightarrow> sighash_midstate" where
  "sighash_midstate E ins outs =
     \<lparr>ms_prevouts = rt_sha256 E (prevouts_buf ins), ms_amounts = rt_sha256 E (amounts_buf ins),
      ms_script_pubkeys = rt_sha256 E (spk_buf ins), ms_sequences = rt_sha256 E (seq_buf ins),
      ms_outputs = rt_sha256 E (out_buf outs), ms_tag = rt_sha256 E (ascii ''TapSighash'')\<rparr>"

text \<open>The common front of both messages, from the tag to the input index.\<close>

definition sig_msg :: "u32 \<Rightarrow> u32 \<Rightarrow> sighash_midstate \<Rightarrow> u8 \<Rightarrow> u32 \<Rightarrow> bytes" where
  "sig_msg version locktime m spend_type input_index =
     bytes32 (ms_tag m) @ bytes32 (ms_tag m) @ [0x00] @ [0x00] @ bytes4 version @ bytes4 locktime @
     bytes32 (ms_prevouts m) @ bytes32 (ms_amounts m) @ bytes32 (ms_script_pubkeys m) @
     bytes32 (ms_sequences m) @ bytes32 (ms_outputs m) @ [spend_type] @ bytes4 input_index"

definition taproot_keyspend_preimage ::
  "env \<Rightarrow> u32 \<Rightarrow> u32 \<Rightarrow> sighash_input list \<Rightarrow> sighash_output list \<Rightarrow> u32 \<Rightarrow> bytes" where
  "taproot_keyspend_preimage E version locktime ins outs input_index =
     sig_msg version locktime (sighash_midstate E ins outs) 0x00 input_index"

definition taproot_scriptspend_preimage ::
  "env \<Rightarrow> u32 \<Rightarrow> u32 \<Rightarrow> sighash_input list \<Rightarrow> sighash_output list \<Rightarrow> u32 \<Rightarrow> hash32 \<Rightarrow> bytes" where
  "taproot_scriptspend_preimage E version locktime ins outs input_index leaf_hash =
     sig_msg version locktime (sighash_midstate E ins outs) 0x02 input_index @
     bytes32 leaf_hash @ [0x00] @ bytes4 0xffffffff"

definition taproot_keyspend_sighash :: "env \<Rightarrow> bytes \<Rightarrow> hash32" where
  "taproot_keyspend_sighash E preimage = rt_sha256 E preimage"

definition ika_message_digest :: "env \<Rightarrow> bytes \<Rightarrow> hash32" where
  "ika_message_digest E preimage = rt_keccak256 E preimage"

section \<open>The canonical order\<close>

lemma bytes_le_iff: "bytes_le a b \<longleftrightarrow> be_nat a \<le> be_nat b"
  by (simp add: bytes_le_def ge_bytes_iff be_nat_def)

text \<open>The comparison as a lexicographic one over numbers.\<close>

definition ri_key :: "reserved_input \<Rightarrow> nat \<times> nat \<times> nat" where
  "ri_key x = (2 ^ 64 - 1 - unat (ri_amount_sats x), be_nat (ri_txid x), unat (ri_vout x))"

definition key_le :: "nat \<times> nat \<times> nat \<Rightarrow> nat \<times> nat \<times> nat \<Rightarrow> bool" where
  "key_le = (\<lambda>(a, b, c) (a', b', c'). a < a' \<or> a = a' \<and> (b < b' \<or> b = b' \<and> c \<le> c'))"

lemma ri_le_key: "ri_le x y \<longleftrightarrow> key_le (ri_key x) (ri_key y)"
proof -
  have a: "unat a \<le> 2 ^ 64 - 1" for a :: u64 using unat_bound [of a] by simp
  have "ri_amount_sats y < ri_amount_sats x \<longleftrightarrow> 2 ^ 64 - 1 - unat (ri_amount_sats x) < 2 ^ 64 - 1 - unat (ri_amount_sats y)"
    "ri_amount_sats x = ri_amount_sats y \<longleftrightarrow> 2 ^ 64 - 1 - unat (ri_amount_sats x) = 2 ^ 64 - 1 - unat (ri_amount_sats y)"
    using a [of "ri_amount_sats x"] a [of "ri_amount_sats y"]
    by (auto simp: word_less_nat_alt word_unat_eq_iff)
  moreover have "bytes_le (ri_txid x) (ri_txid y) \<longleftrightarrow> be_nat (ri_txid x) < be_nat (ri_txid y)" if "ri_txid x \<noteq> ri_txid y"
    using that be_nat_inj by (auto simp: bytes_le_iff le_less)
  ultimately show ?thesis
    by (auto simp: ri_le_def ri_key_def key_le_def be_nat_inj word_le_nat_alt)
qed

lemma key_le_linear: "key_le p q \<or> key_le q p"
  and key_le_trans: "key_le p q \<Longrightarrow> key_le q r \<Longrightarrow> key_le p r"
  and key_le_antisym: "key_le p q \<Longrightarrow> key_le q p \<Longrightarrow> p = q"
  by (auto simp: key_le_def split: prod.splits)

lemma ri_key_eq: "ri_key x = ri_key y \<Longrightarrow> ri_txid x = ri_txid y \<and> ri_vout x = ri_vout y"
  by (simp add: ri_key_def be_nat_inj word_unat_eq_iff)

lemma mset_ri_insert: "mset (ri_insert x xs) = add_mset x (mset xs)"
  by (induction xs) auto

lemma mset_canonical_sort [simp]: "mset (canonical_sort xs) = mset xs"
  by (induction xs) (simp_all add: canonical_sort_def mset_ri_insert)

lemma set_canonical_sort [simp]: "set (canonical_sort xs) = set xs"
  by (metis mset_canonical_sort set_mset_mset)

lemma length_canonical_sort [simp]: "length (canonical_sort xs) = length xs"
  by (metis mset_canonical_sort size_mset)

lemma sorted_ri_insert: "sorted_wrt ri_le xs \<Longrightarrow> sorted_wrt ri_le (ri_insert x xs)"
proof (induction xs)
  case (Cons y ys)
  have set: "set (ri_insert x ys) = insert x (set ys)"
    by (metis mset_ri_insert set_mset_add_mset_insert set_mset_mset)
  show ?case
  proof (cases "ri_le x y")
    case True
    then show ?thesis using Cons.prems key_le_trans by (auto simp: ri_le_key)
  next
    case False
    then have "ri_le y x" using key_le_linear [of "ri_key x" "ri_key y"] by (simp add: ri_le_key)
    with Cons False set show ?thesis by auto
  qed
qed simp

lemma sorted_canonical_sort: "sorted_wrt ri_le (canonical_sort xs)"
  by (induction xs) (simp_all add: canonical_sort_def sorted_ri_insert)

text \<open>A list sorted by the canonical order is determined by its elements when no outpoint repeats.\<close>

lemma canonical_unique:
  assumes "sorted_wrt ri_le xs" and "sorted_wrt ri_le ys" and "mset xs = mset ys"
    and "distinct (map (\<lambda>x. (ri_txid x, ri_vout x)) xs)"
  shows "xs = ys"
  using assms
proof (induction xs arbitrary: ys)
  case (Cons x xs)
  then obtain y ys' where ys: "ys = y # ys'" by (cases ys) simp_all
  have "x \<in> set ys" "y \<in> set (x # xs)" using Cons.prems(3) ys by (metis list.set_intros(1) set_mset_mset)+
  then have "ri_le y x \<or> x = y" "ri_le x y \<or> x = y" using Cons.prems(1,2) ys by auto
  then have "x = y \<or> ri_key x = ri_key y" by (auto simp: ri_le_key dest: key_le_antisym)
  then have "(ri_txid x, ri_vout x) = (ri_txid y, ri_vout y)" using ri_key_eq by blast
  with Cons.prems(4) \<open>y \<in> set (x # xs)\<close> have "x = y" by (auto simp: rev_image_eqI)
  with Cons ys show ?case by simp
qed simp

lemma canonical_sort_perm:
  assumes "mset xs = mset ys" and "distinct (map (\<lambda>x. (ri_txid x, ri_vout x)) xs)"
  shows "canonical_sort xs = canonical_sort ys"
proof (rule canonical_unique)
  show "distinct (map (\<lambda>x. (ri_txid x, ri_vout x)) (canonical_sort xs))"
    using assms(2) mset_eq_imp_distinct_iff [of "map (\<lambda>x. (ri_txid x, ri_vout x)) (canonical_sort xs)"
        "map (\<lambda>x. (ri_txid x, ri_vout x)) xs"] by simp
qed (simp_all add: sorted_canonical_sort assms(1))

section \<open>What the messages bind\<close>

lemma bytes4_inj [simp]: "bytes4 a = bytes4 b \<longleftrightarrow> a = b"
  by (metis from_le_bytes4)

lemma le_bytes_Nil [simp]: "le_bytes n w = [] \<longleftrightarrow> n = 0"
  by (metis length_0_conv length_le_bytes)

lemma script_bytes_inj:
  assumes "length s < 2 ^ 64" and "length s' < 2 ^ 64" and eq: "script_bytes s @ r = script_bytes s' @ r'"
  shows "s = s' \<and> r = r'"
proof -
  have "read_varint (script_bytes s @ r) = Inr (of_nat (length s), length (push_compact_size (length s)))"
    "read_varint (script_bytes s' @ r') = Inr (of_nat (length s'), length (push_compact_size (length s')))"
    using read_varint_compact_size [OF assms(1), of "s @ r"] read_varint_compact_size [OF assms(2), of "s' @ r'"]
    by (simp_all add: script_bytes_def)
  with eq have "(of_nat (length s) :: u64) = of_nat (length s')" by simp
  then have "length s = length s'" using unat_of_nat_64 [OF assms(1)] unat_of_nat_64 [OF assms(2)] by metis
  with eq show ?thesis by (simp add: script_bytes_def)
qed

interpretation scr: self_delimiting script_bytes "\<lambda>s. length s < 2 ^ 64"
proof
  show "script_bytes s \<noteq> []" for s
    using length_push_compact_size(1) [of "length s"] by (auto simp: script_bytes_def)
qed (rule script_bytes_inj)

interpretation outb: self_delimiting out_bytes "\<lambda>x. length (so_script_pubkey x) < 2 ^ 64"
proof
  show "out_bytes x \<noteq> []" for x by (simp add: out_bytes_def)
  fix x y :: sighash_output and r r' :: bytes
  assume ok: "length (so_script_pubkey x) < 2 ^ 64" "length (so_script_pubkey y) < 2 ^ 64"
    and "out_bytes x @ r = out_bytes y @ r'"
  then have "so_amount_sats x = so_amount_sats y"
    "script_bytes (so_script_pubkey x) @ r = script_bytes (so_script_pubkey y) @ r'"
    by (simp_all add: out_bytes_def)
  with script_bytes_inj [OF ok] show "x = y \<and> r = r'" by (auto intro: sighash_output.equality)
qed

interpretation pob: self_delimiting "\<lambda>(t, v). bytes32 t @ bytes4 v" "\<lambda>_. True"
  by unfold_locales auto

interpretation b8: self_delimiting "bytes8" "\<lambda>_. True"
  by unfold_locales auto

interpretation b4: self_delimiting "bytes4" "\<lambda>_. True"
  by unfold_locales auto

interpretation rib: self_delimiting "\<lambda>(t, v, a). bytes32 t @ bytes4 v @ bytes8 a" "\<lambda>_. True"
  by unfold_locales auto

lemma concat_map_comp: "concat (map (\<lambda>x. f (g x)) xs) = concat (map f (map g xs))"
  by (simp add: comp_def)

text \<open>
  Canonical inputs: however the reserved UTXOs are listed, if no outpoint repeats the
  canonical order is the same list, a permutation of the inputs sorted by amount descending, then
  txid, then vout; and the bytes hashed by \<open>inputs_commitment\<close> determine the ordered list of
  outpoints and amounts. So the set committed when a redemption is marked processing is the set the
  signing approval has to present.
\<close>

theorem canonical_inputs_commitment:
  assumes "mset xs = mset ys" and "distinct (map (\<lambda>x. (ri_txid x, ri_vout x)) xs)"
  shows "canonical_sort xs = canonical_sort ys \<and> mset (canonical_sort xs) = mset xs \<and>
     sorted_wrt ri_le (canonical_sort xs) \<and>
     (concat (map ri_bytes us) = concat (map ri_bytes vs) \<longleftrightarrow>
        map (\<lambda>x. (ri_txid x, ri_vout x, ri_amount_sats x)) us = map (\<lambda>x. (ri_txid x, ri_vout x, ri_amount_sats x)) vs)"
proof (intro conjI)
  let ?f = "\<lambda>x. (ri_txid x, ri_vout x, ri_amount_sats x)"
  have rb: "concat (map ri_bytes zs) = concat (map (\<lambda>(t, v, a). bytes32 t @ bytes4 v @ bytes8 a) (map ?f zs))" for zs
    by (simp add: ri_bytes_def [abs_def] comp_def)
  show "concat (map ri_bytes us) = concat (map ri_bytes vs) \<longleftrightarrow> map ?f us = map ?f vs"
  proof
    show "concat (map ri_bytes us) = concat (map ri_bytes vs) \<Longrightarrow> map ?f us = map ?f vs"
      unfolding rb by (rule rib.concat_inj [rotated 2]) (simp_all add: list_all_iff)
    show "map ?f us = map ?f vs \<Longrightarrow> concat (map ri_bytes us) = concat (map ri_bytes vs)"
      unfolding rb by (rule arg_cong)
  qed
qed (simp_all add: canonical_sort_perm [OF assms] sorted_canonical_sort assms(1))

theorem canonical_inputs_commitment_witness:
  "canonical_sort [\<lparr>ri_txid = 1, ri_vout = 0, ri_amount_sats = 5, ri_leaf_commitment = None\<rparr>,
                   \<lparr>ri_txid = 2, ri_vout = 0, ri_amount_sats = 9, ri_leaf_commitment = None\<rparr>] =
   canonical_sort [\<lparr>ri_txid = 2, ri_vout = 0, ri_amount_sats = 9, ri_leaf_commitment = None\<rparr>,
                   \<lparr>ri_txid = 1, ri_vout = 0, ri_amount_sats = 5, ri_leaf_commitment = None\<rparr>]"
  by (rule canonical_inputs_commitment [THEN conjunct1]) simp_all

lemma sig_msg_inj:
  "sig_msg v l m st i @ r = sig_msg v' l' m' st' i' @ r' \<longleftrightarrow> (v, l, m, st, i, r) = (v', l', m', st', i', r')"
  by (auto simp: sig_msg_def intro: sighash_midstate.equality)

lemma length_sig_msg [simp]: "length (sig_msg v l m st i) = 239"
  by (simp add: sig_msg_def)

definition inputs_ok :: "sighash_input list \<Rightarrow> sighash_output list \<Rightarrow> bool" where
  "inputs_ok ins outs \<longleftrightarrow> list_all (\<lambda>i. length (si_script_pubkey i) < 2 ^ 64) ins \<and>
     list_all (\<lambda>x. length (so_script_pubkey x) < 2 ^ 64) outs"

text \<open>The five buffers determine the transaction.\<close>

lemma sighash_buffers_inj:
  assumes ok: "inputs_ok ins outs" "inputs_ok ins' outs'"
    and "prevouts_buf ins = prevouts_buf ins'" and "amounts_buf ins = amounts_buf ins'"
    and "spk_buf ins = spk_buf ins'" and "seq_buf ins = seq_buf ins'" and "out_buf outs = out_buf outs'"
  shows "ins = ins' \<and> outs = outs'"
proof
  show "outs = outs'"
    using assms(7) ok unfolding out_buf_def inputs_ok_def by (blast intro: outb.concat_inj)
  let ?p = "\<lambda>i. (si_txid i, si_vout i)"
  have pb: "prevouts_buf zs = concat (map (\<lambda>(t, v). bytes32 t @ bytes4 v) (map ?p zs))" for zs
    by (simp add: prevouts_buf_def comp_def)
  have 1: "map ?p ins = map ?p ins'"
    using assms(3) unfolding pb by (rule pob.concat_inj [rotated 2]) (simp_all add: list_all_iff)
  have 2: "map si_amount_sats ins = map si_amount_sats ins'"
    using assms(4) unfolding amounts_buf_def concat_map_comp [of bytes8 si_amount_sats]
    by (rule b8.concat_inj [rotated 2]) (simp_all add: list_all_iff)
  have 3: "map si_script_pubkey ins = map si_script_pubkey ins'"
    using assms(5) ok unfolding spk_buf_def concat_map_comp [of script_bytes si_script_pubkey] inputs_ok_def
    by (intro scr.concat_inj) (simp_all add: list_all_iff)
  have 4: "map si_sequence ins = map si_sequence ins'"
    using assms(6) unfolding seq_buf_def concat_map_comp [of bytes4 si_sequence]
    by (rule b4.concat_inj [rotated 2]) (simp_all add: list_all_iff)
  show "ins = ins'"
  proof (rule nth_equalityI)
    show len: "length ins = length ins'" using 1 by (rule map_eq_imp_length_eq)
    fix k assume k: "k < length ins"
    have nth: "f (ins ! k) = f (ins' ! k)" if "map f ins = map f ins'" for f :: "sighash_input \<Rightarrow> 'z"
      using that k len by (metis nth_map)
    show "ins ! k = ins' ! k"
      using nth [OF 1] nth [OF 2] nth [OF 3] nth [OF 4] by (auto intro: sighash_input.equality)
  qed
qed

text \<open>No collision of the hash between the midstate buffers of two transactions.\<close>

definition buffers_collision_free ::
  "env \<Rightarrow> sighash_input list \<Rightarrow> sighash_output list \<Rightarrow> sighash_input list \<Rightarrow> sighash_output list \<Rightarrow> bool" where
  "buffers_collision_free E ins outs ins' outs' \<longleftrightarrow>
     list_all (\<lambda>(a, b). rt_sha256 E a = rt_sha256 E b \<longrightarrow> a = b)
       [(prevouts_buf ins, prevouts_buf ins'), (amounts_buf ins, amounts_buf ins'),
        (spk_buf ins, spk_buf ins'), (seq_buf ins, seq_buf ins'), (out_buf outs, out_buf outs')]"

lemma midstate_inj:
  assumes "inputs_ok ins outs" and "inputs_ok ins' outs'" and "buffers_collision_free E ins outs ins' outs'"
  shows "sighash_midstate E ins outs = sighash_midstate E ins' outs' \<longleftrightarrow> ins = ins' \<and> outs = outs'"
  using sighash_buffers_inj [OF assms(1,2)] assms(3)
  by (auto simp: sighash_midstate_def buffers_collision_free_def)

text \<open>
  C39. What is signed: the key-path message has 239 bytes and the script-path message 276; two
  messages coincide only if they are of the same kind and agree in version, lock time, every input
  (outpoint, sequence, amount and its own scriptPubKey), every output, the input index and, for
  the script path, the leaf, unless two of the ten hashed buffers collide. An approved digest
  therefore fixes the transaction that spends the pool's coins.
\<close>

theorem sighash_preimage_binds:
  assumes "inputs_ok ins outs" and "inputs_ok ins' outs'" and "buffers_collision_free E ins outs ins' outs'"
  shows "length (taproot_keyspend_preimage E v l ins outs i) = 239 \<and>
    length (taproot_scriptspend_preimage E v l ins outs i leaf) = 276 \<and>
    (taproot_keyspend_preimage E v l ins outs i = taproot_keyspend_preimage E v' l' ins' outs' i' \<longleftrightarrow>
       (v, l, ins, outs, i) = (v', l', ins', outs', i')) \<and>
    (taproot_scriptspend_preimage E v l ins outs i leaf = taproot_scriptspend_preimage E v' l' ins' outs' i' leaf' \<longleftrightarrow>
       (v, l, ins, outs, i, leaf) = (v', l', ins', outs', i', leaf')) \<and>
    taproot_keyspend_preimage E v l ins outs i \<noteq> taproot_scriptspend_preimage E v' l' ins' outs' i' leaf'"
proof -
  have len: "length (taproot_keyspend_preimage E v l ins outs i) = 239"
    "length (taproot_scriptspend_preimage E v l ins outs i leaf) = 276"
    "length (taproot_scriptspend_preimage E v' l' ins' outs' i' leaf') = 276"
    by (simp_all add: taproot_keyspend_preimage_def taproot_scriptspend_preimage_def)
  note m = midstate_inj [OF assms]
  have "taproot_keyspend_preimage E v l ins outs i = taproot_keyspend_preimage E v' l' ins' outs' i' \<longleftrightarrow>
       (v, l, ins, outs, i) = (v', l', ins', outs', i')"
    using sig_msg_inj [of v l "sighash_midstate E ins outs" 0 i "[]" v' l' "sighash_midstate E ins' outs'" 0 i' "[]"] m
    by (auto simp: taproot_keyspend_preimage_def)
  moreover have "taproot_scriptspend_preimage E v l ins outs i leaf = taproot_scriptspend_preimage E v' l' ins' outs' i' leaf' \<longleftrightarrow>
       (v, l, ins, outs, i, leaf) = (v', l', ins', outs', i', leaf')"
    using m by (auto simp: taproot_scriptspend_preimage_def sig_msg_inj)
  moreover have "taproot_keyspend_preimage E v l ins outs i \<noteq> taproot_scriptspend_preimage E v' l' ins' outs' i' leaf'"
    using len(1,3) by (metis numeral_eq_iff semiring_norm(88,90))
  ultimately show ?thesis using len by blast
qed

definition sample_ins :: "sighash_input list" where
  "sample_ins = [\<lparr>si_txid = 0x11, si_vout = 0, si_sequence = 0xfffffffd, si_amount_sats = 100000, si_script_pubkey = [0x51]\<rparr>]"

definition sample_outs :: "sighash_output list" where
  "sample_outs = [\<lparr>so_amount_sats = 90000, so_script_pubkey = [0x51, 0x20]\<rparr>]"

theorem sighash_preimage_binds_witness:
  "taproot_keyspend_preimage demo_env 2 0 sample_ins sample_outs 0 \<noteq> taproot_keyspend_preimage demo_env 2 0 sample_ins sample_outs 1"
proof -
  have ok: "inputs_ok sample_ins sample_outs" by (simp add: inputs_ok_def sample_ins_def sample_outs_def)
  have "buffers_collision_free demo_env sample_ins sample_outs sample_ins sample_outs"
    by (simp add: buffers_collision_free_def)
  from sighash_preimage_binds [OF ok ok this, of 2 0 0 0 2 0 1 0] show ?thesis by simp
qed

end
