(* ===== verification/UX_Redemption.thy ===== *)
theory UX_Redemption
  imports UX_Tree UX_Sighash
begin

text \<open>
  The redemption lifecycle up to its cancellation
  (\<open>instructions/mark_processing.rs\<close>, \<open>instructions/cancel_redemption.rs\<close>): a
  pending request reserves pool UTXOs; an unsigned request that is pending, or processing and timed
  out, is cancelled by re-minting the note into the active commitment tree and releasing the
  reserved UTXOs. Both handlers run a loop over UTXO accounts; the loop is one function of its step,
  and the interface \<open>utxo_transition\<close> of a step carries the lemmas about it.
  Log events are not modelled.
\<close>

section \<open>Loops over UTXO accounts\<close>

definition record_at :: "store \<Rightarrow> pubkey \<Rightarrow> utxo_record result" where
  "record_at s k = utxo_record_from_bytes (adata (s k))"

definition put_record :: "pubkey \<Rightarrow> utxo_record \<Rightarrow> store \<Rightarrow> store result" where
  "put_record k u s = write_front k (encode_utxo_record u) s"

text \<open>The validation and the discriminator test both loops start with.\<close>

definition load_utxo :: "env \<Rightarrow> account_info \<Rightarrow> store \<Rightarrow> utxo_record result" where
  "load_utxo E a s =
     bindE (validate_program_owner E s a) (\<lambda>_.
     bindE (validate_account_writable a) (\<lambda>_.
     let d = adata (s (key a)) in
     if d = [] \<or> d ! 0 \<noteq> UTXO_RECORD_DISCRIMINATOR then Inl InvalidUtxo else record_at s (key a)))"

fun utxo_loop ::
  "(account_info \<Rightarrow> store \<Rightarrow> (utxo_record \<times> store) result) \<Rightarrow> account_info list \<Rightarrow> u64 \<Rightarrow> store \<Rightarrow>
    (utxo_record list \<times> u64 \<times> store) result" where
  "utxo_loop step [] tot s = Inr ([], tot, s)"
| "utxo_loop step (a # as) tot s =
     bindE (step a s) (\<lambda>(u, s1).
     bindE (ok_or (checked_add tot (ur_amount_sats u)) ArithmeticOverflow) (\<lambda>tot'.
     bindE (utxo_loop step as tot' s1) (\<lambda>(us, tot'', s2). Inr (u # us, tot'', s2))))"

section \<open>mark_processing\<close>

definition MAX_UTXOS_PER_MARK :: nat where "MAX_UTXOS_PER_MARK = 20"

definition utxo_address :: "env \<Rightarrow> pubkey \<Rightarrow> utxo_record \<Rightarrow> pubkey" where
  "utxo_address E pool u =
     fst (find_program_address E [UTXO_SEED, bytes32 pool, bytes32 (ur_txid u), bytes4 (ur_vout u)])"

definition reserve_record :: "u64 \<Rightarrow> utxo_record \<Rightarrow> utxo_record" where
  "reserve_record rkey u = (ur_set_status UReserved u)\<lparr>ur_reserved_for_request_id := rkey\<rparr>"

definition reserve_step :: "env \<Rightarrow> pubkey \<Rightarrow> u64 \<Rightarrow> account_info \<Rightarrow> store \<Rightarrow> (utxo_record \<times> store) result" where
  "reserve_step E pool rkey a s =
     bindE (load_utxo E a s) (\<lambda>u.
     if ur_get_status u \<noteq> UUnspent then Inl UtxoNotUnspent
     else if key a \<noteq> utxo_address E pool u then Inl InvalidUtxo
     else bindE (put_record (key a) (reserve_record rkey u) s) (\<lambda>s'. Inr (u, s')))"

definition reserved_of :: "utxo_record \<Rightarrow> reserved_input" where
  "reserved_of u = \<lparr>ri_txid = ur_txid u, ri_vout = ur_vout u, ri_amount_sats = ur_amount_sats u, ri_leaf_commitment = None\<rparr>"

text \<open>The bounds on the reserved set: enough for the payout, and no input superfluous.\<close>

definition check_reservation :: "u64 \<Rightarrow> u64 \<Rightarrow> u64 list \<Rightarrow> u64 \<Rightarrow> unit result" where
  "check_reservation amount_sats service_fee amounts tot =
     bindE (ok_or (checked_sub amount_sats service_fee) InvalidArgument) (\<lambda>send_amount.
     let max_miner_fee = min MAX_MINER_FEE_SATS service_fee in
     bindE (ok_or (checked_add send_amount max_miner_fee) ArithmeticOverflow) (\<lambda>required.
     if tot < required then Inl InsufficientReservedInputs
     else if amounts = [] then Inl InvalidInstructionData
     else let smallest = foldr min amounts (hd amounts) in
     if saturating_sub tot smallest \<ge> required then Inl ExcessiveReservedInputs
     else Inr ()))"

fun remove_utxos :: "u64 list \<Rightarrow> pool_state \<Rightarrow> pool_state result" where
  "remove_utxos [] p = Inr p"
| "remove_utxos (x # xs) p = bindE (remove_utxo x p) (remove_utxos xs)"

definition start_processing :: "env \<Rightarrow> u64 \<Rightarrow> nat \<Rightarrow> hash32 \<Rightarrow> redemption_request \<Rightarrow> redemption_request result" where
  "start_processing E tot n commitment r =
     (if rr_get_status r \<noteq> RPending then Inl InvalidRedemptionState
      else Inr ((rr_set_status RProcessing r)\<lparr>rr_processing_slot := ucast (clock_slot E),
             rr_total_input_sats := tot, rr_reserved_count := of_nat n, rr_inputs_commitment := commitment\<rparr>))"

definition process_mark_processing :: "env \<Rightarrow> account_info list \<Rightarrow> bytes \<Rightarrow> store \<Rightarrow> store result" where
  "process_mark_processing E accounts d s =
     (if length accounts < 3 then Inl NotEnoughAccountKeys
      else let pool_info = accounts ! 0; red_info = accounts ! 1; authority = accounts ! 2 in
      if \<not> is_signer authority then Inl MissingRequiredSignature
      else
      bindE (validate_program_owner E s pool_info) (\<lambda>_.
      bindE (validate_program_owner E s red_info) (\<lambda>_.
      bindE (validate_redemption_pda E s red_info pool_info) (\<lambda>_.
      bindE (validate_account_writable pool_info) (\<lambda>_.
      bindE (validate_account_writable red_info) (\<lambda>_.
      bindE (pool_state_from_bytes (adata (s (key pool_info)))) (\<lambda>pool.
      if is_paused pool then Inl PoolPaused
      else
      bindE (redemption_request_from_bytes (adata (s (key red_info)))) (\<lambda>red.
      bindE (redemption_driver_is_allowed (key authority) (ps_authority pool) (rr_requester red)) (\<lambda>_.
      if d = [] then Inl InvalidInstructionData
      else let n = unat (d ! 0) in
      if n = 0 then Inl InvalidInstructionData
      else if length accounts < 3 + n then Inl NotEnoughAccountKeys
      else if n > MAX_UTXOS_PER_MARK then Inl InvalidInstructionData
      else let rkey = redemption_reservation_key E (key red_info) in
      if rr_get_status red \<noteq> RPending then Inl InvalidRedemptionState
      else
      bindE (utxo_loop (reserve_step E (key pool_info) rkey) (take n (drop 3 accounts)) 0 s) (\<lambda>(us, tot, s1).
      let amounts = map ur_amount_sats us in
      bindE (check_reservation (rr_amount_sats red) (rr_service_fee red) amounts tot) (\<lambda>_.
      let commitment = inputs_commitment E (canonical_sort (map reserved_of us)) in
      bindE (pool_state_from_bytes (adata (s1 (key pool_info)))) (\<lambda>pool1.
      bindE (remove_utxos amounts pool1) (\<lambda>pool2.
      bindE (write_front (key pool_info) (encode_pool_state pool2) s1) (\<lambda>s2.
      bindE (redemption_request_from_bytes (adata (s2 (key red_info)))) (\<lambda>red2.
      bindE (start_processing E tot n commitment red2) (\<lambda>red3.
      write_front (key red_info) (encode_redemption_request red3) s2))))))))))))))))"

section \<open>cancel_redemption\<close>

definition MAX_UTXOS_PER_CANCEL :: nat where "MAX_UTXOS_PER_CANCEL = 20"

definition cancel_data_from_bytes :: "bytes \<Rightarrow> (hash32 \<times> nat) result" where
  "cancel_data_from_bytes d =
     (if length d < 32 then Inl InvalidInstructionData
      else let n = (if length d > 32 then unat (d ! 32) else 0) in
      if n > MAX_UTXOS_PER_CANCEL then Inl InvalidInstructionData
      else Inr (from_le (take 32 d), n))"

definition release_record :: "utxo_record \<Rightarrow> utxo_record" where
  "release_record u = (ur_set_status UUnspent u)\<lparr>ur_reserved_for_request_id := 0\<rparr>"

definition release_step :: "env \<Rightarrow> u64 \<Rightarrow> account_info \<Rightarrow> store \<Rightarrow> (utxo_record \<times> store) result" where
  "release_step E rkey a s =
     bindE (load_utxo E a s) (\<lambda>u.
     if ur_get_status u \<noteq> UReserved \<or> ur_reserved_for_request_id u \<noteq> rkey then Inl InvalidUtxo
     else bindE (put_record (key a) (release_record u) s) (\<lambda>s'. Inr (u, s')))"

text \<open>The requester, approval and timeout tests; the result tells whether UTXOs were reserved.\<close>

definition cancel_allowed :: "env \<Rightarrow> pubkey \<Rightarrow> redemption_request \<Rightarrow> bool result" where
  "cancel_allowed E user r =
     (if user \<noteq> rr_requester r then Inl Unauthorized
      else if is_signing_approved r then Inl RedemptionCancelNotAllowed
      else case rr_get_status r of
        RPending \<Rightarrow> Inr False
      | RProcessing \<Rightarrow>
          let elapsed = (ucast (clock_slot E) - rr_processing_slot r :: u32) in
          if ucast elapsed < REDEMPTION_TIMEOUT_SLOTS then Inl RedemptionCancelNotAllowed else Inr True
      | RFailed \<Rightarrow> Inl RedemptionCancelNotAllowed)"

definition check_cancel_token :: "env \<Rightarrow> account_info \<Rightarrow> account_info \<Rightarrow> hash32 \<Rightarrow> store \<Rightarrow> unit result" where
  "check_cancel_token E tc_info pool_info token_id s =
     bindE (validate_program_owner E s tc_info) (\<lambda>_.
     bindE (validate_account_writable tc_info) (\<lambda>_.
     bindE (token_config_from_bytes (adata (s (key tc_info)))) (\<lambda>tc.
     if key tc_info \<noteq> fst (find_program_address E [TOKEN_CONFIG_SEED, bytes32 (key pool_info), bytes32 (tc_mint tc)])
     then Inl InvalidSeeds
     else if tc_token_id tc \<noteq> token_id then Inl Unauthorized
     else Inr ())))"

definition release_utxos :: "env \<Rightarrow> bool \<Rightarrow> u64 \<Rightarrow> account_info list \<Rightarrow> nat \<Rightarrow> store \<Rightarrow> (u64 \<times> store) result" where
  "release_utxos E was_processing rkey accounts n s =
     (if was_processing
      then bindE (utxo_loop (release_step E rkey) (take n (drop 6 accounts)) 0 s) (\<lambda>(us, tot, s1). Inr (tot, s1))
      else if n \<noteq> 0 then Inl InvalidInstructionData
      else Inr (0, s))"

definition remint :: "env \<Rightarrow> pubkey \<Rightarrow> hash32 \<Rightarrow> store \<Rightarrow> store result" where
  "remint E tree commitment s =
     bindE (commitment_tree_from_bytes (adata (s tree))) (\<lambda>t.
     bindE (insert_leaf E commitment t) (\<lambda>(leaf_index, t').
     write_front tree (encode_commitment_tree t') s))"

definition settle_cancel :: "env \<Rightarrow> u64 \<Rightarrow> u64 \<Rightarrow> nat \<Rightarrow> pool_state \<Rightarrow> pool_state result" where
  "settle_cancel E shielded restored n p =
     (let p1 = p\<lparr>ps_total_shielded := shielded\<rparr> in
      bindE (if restored > 0 then add_utxos restored (of_nat n) p1 else Inr p1) (\<lambda>p2.
      Inr (p2\<lparr>ps_pending_redemptions := saturating_sub (ps_pending_redemptions p2) 1,
              ps_last_update := clock_unix_timestamp E\<rparr>)))"

definition process_cancel_redemption :: "env \<Rightarrow> account_info list \<Rightarrow> bytes \<Rightarrow> store \<Rightarrow> store result" where
  "process_cancel_redemption E accounts d s =
     (if length accounts < 6 then Inl NotEnoughAccountKeys
      else let user = accounts ! 0; pool_info = accounts ! 1; red_info = accounts ! 2;
               tree_info = accounts ! 3; tc_info = accounts ! 5 in
      bindE (cancel_data_from_bytes d) (\<lambda>(npk, n).
      if \<not> is_signer user then Inl MissingRequiredSignature
      else
      bindE (validate_program_owner E s pool_info) (\<lambda>_.
      bindE (validate_program_owner E s red_info) (\<lambda>_.
      bindE (validate_redemption_pda E s red_info pool_info) (\<lambda>_.
      bindE (validate_program_owner E s tree_info) (\<lambda>_.
      bindE (validate_account_writable pool_info) (\<lambda>_.
      bindE (validate_account_writable red_info) (\<lambda>_.
      bindE (validate_account_writable tree_info) (\<lambda>_.
      bindE (pool_state_from_bytes (adata (s (key pool_info)))) (\<lambda>pool.
      if is_paused pool then Inl PoolPaused
      else
      bindE (validate_active_tree_pda E s tree_info pool_info (ps_active_tree_index pool)) (\<lambda>_.
      bindE (redemption_request_from_bytes (adata (s (key red_info)))) (\<lambda>red.
      bindE (cancel_allowed E (key user) red) (\<lambda>was_processing.
      bindE (check_cancel_token E tc_info pool_info (rr_token_id red) s) (\<lambda>_.
      if length accounts < 6 + n then Inl NotEnoughAccountKeys
      else if was_processing \<and> n \<noteq> unat (rr_reserved_count red) then Inl InvalidUtxo
      else
      bindE (release_utxos E was_processing (redemption_reservation_key E (key red_info)) accounts n s) (\<lambda>(restored, s1).
      bindE (compute_commitment E npk (rr_token_id red) (rr_amount_sats red)) (\<lambda>commitment.
      bindE (remint E (key tree_info) commitment s1) (\<lambda>s2.
      bindE (token_config_from_bytes (adata (s2 (key tc_info)))) (\<lambda>tc.
      bindE (tc_add_shielded (rr_amount_sats red) tc) (\<lambda>tc'.
      bindE (write_front (key tc_info) (encode_token_config tc') s2) (\<lambda>s3.
      bindE (pool_state_from_bytes (adata (s3 (key pool_info)))) (\<lambda>pool3.
      bindE (settle_cancel E (tc_total_shielded tc') restored n pool3) (\<lambda>pool4.
      bindE (write_front (key pool_info) (encode_pool_state pool4) s3) (\<lambda>s4.
      close_account_securely (key red_info) (key user) s4)))))))))))))))))))))))"

section \<open>What the loops do\<close>

text \<open>A step that moves one record from a state satisfying \<open>pre\<close> to one that does not.\<close>

locale utxo_transition =
  fixes step :: "account_info \<Rightarrow> store \<Rightarrow> (utxo_record \<times> store) result"
    and pre :: "pubkey \<Rightarrow> utxo_record \<Rightarrow> bool" and upd :: "utxo_record \<Rightarrow> utxo_record"
  assumes step_ok: "step a s = Inr (u, s') \<Longrightarrow>
      record_at s (key a) = Inr u \<and> pre (key a) u \<and> put_record (key a) (upd u) s = Inr s'"
    and upd_keeps: "ur_discriminator (upd u) = ur_discriminator u"
    and upd_excludes: "\<not> pre k (upd u)"
begin

lemma step_effect:
  assumes "step a s = Inr (u, s')"
  shows "record_at s (key a) = Inr u" and "pre (key a) u" and "record_at s' (key a) = Inr (upd u)"
    and "frame {key a} s s'" and "lamports (s' k) = lamports (s k)" and "k \<noteq> key a \<Longrightarrow> s' k = s k"
proof -
  note ok = step_ok [OF assms]
  from ok show "record_at s (key a) = Inr u" "pre (key a) u" by simp_all
  from ok have w: "write_front (key a) (encode_utxo_record (upd u)) s = Inr s'" by (simp add: put_record_def)
  have "ur_discriminator u = UTXO_RECORD_DISCRIMINATOR"
    using ok url.from_bytes_iff by (simp add: record_at_def utxo_record_from_bytes_def)
  then have "ur_discriminator (upd u) = UTXO_RECORD_DISCRIMINATOR" by (simp add: upd_keeps)
  from url.from_bytes_after_write [OF w this] show "record_at s' (key a) = Inr (upd u)"
    by (simp add: record_at_def utxo_record_from_bytes_def)
  from w show "frame {key a} s s'" by (rule frame_write)
  from w show "lamports (s' k) = lamports (s k)" "k \<noteq> key a \<Longrightarrow> s' k = s k" by (auto simp: res_simps)
qed

lemma loop_ok:
  "utxo_loop step as tot s = Inr (us, tot', s') \<Longrightarrow>
     distinct (map key as) \<and>
     list_all2 (\<lambda>a u. record_at s (key a) = Inr u \<and> pre (key a) u \<and> record_at s' (key a) = Inr (upd u)) as us \<and>
     unat tot' = unat tot + sum_list (map (\<lambda>u. unat (ur_amount_sats u)) us) \<and>
     (\<forall>k. k \<notin> key ` set as \<longrightarrow> s' k = s k) \<and>
     (\<forall>k. owner (s' k) = owner (s k) \<and> lamports (s' k) = lamports (s k))"
proof (induction as arbitrary: tot s us)
  case (Cons a as)
  from Cons.prems obtain u s1 t1 us' where step: "step a s = Inr (u, s1)"
    and add: "checked_add tot (ur_amount_sats u) = Some t1"
    and rest: "utxo_loop step as t1 s1 = Inr (us', tot', s')" and us: "us = u # us'"
    by (auto simp: res_simps)
  note eff = step_effect [OF step]
  note IH = Cons.IH [OF rest]
  have other: "key b \<noteq> key a" if "b \<in> set as" for b
  proof
    assume eq: "key b = key a"
    from that IH obtain v where "record_at s1 (key b) = Inr v" "pre (key b) v"
      by (auto simp: list_all2_conv_all_nth in_set_conv_nth)
    with eff(3) eq upd_excludes [of "key a" u] show False by auto
  qed
  then have "list_all2 (\<lambda>a u. record_at s (key a) = Inr u \<and> pre (key a) u \<and> record_at s' (key a) = Inr (upd u)) as us'"
    using IH eff(6) by (auto simp: record_at_def elim!: list.rel_mono_strong)
  moreover have notin: "key a \<notin> key ` set as" using other by fastforce
  moreover have "record_at s' (key a) = Inr (upd u)"
    using IH notin eff(3) by (simp add: record_at_def)
  moreover have "owner (s' k) = owner (s k)" for k
    using IH eff(4) step_ok [OF step] by (auto simp: put_record_def res_simps)
  ultimately show ?case
    using IH eff other unat_checked_add [OF add] us by auto
qed simp

end

lemma load_utxo_ok:
  assumes "load_utxo E a s = Inr u"
  shows "record_at s (key a) = Inr u" and "owner (s (key a)) = program_id E" and "is_writable a"
  using assms by (auto simp: load_utxo_def validate_program_owner_def validate_account_writable_def Let_def res_simps)

lemma status_simps [simp]:
  "ur_get_status (reserve_record rkey u) = UReserved" "ur_get_status (release_record u) = UUnspent"
  "ur_discriminator (reserve_record rkey u) = ur_discriminator u" "ur_discriminator (release_record u) = ur_discriminator u"
  by (simp_all add: reserve_record_def release_record_def ur_get_status_def ur_set_status_def)

lemma release_reserve: "ur_get_status u = UUnspent \<Longrightarrow> ur_status u = 0 \<Longrightarrow>
    release_record (reserve_record rkey u) = u\<lparr>ur_reserved_for_request_id := 0\<rparr>"
  by (simp add: reserve_record_def release_record_def ur_set_status_def)

interpretation reserve: utxo_transition "reserve_step E pool rkey"
  "\<lambda>k u. ur_get_status u = UUnspent \<and> k = utxo_address E pool u" "reserve_record rkey" for E pool rkey
  by unfold_locales (auto simp: reserve_step_def res_simps dest: load_utxo_ok)

interpretation release: utxo_transition "release_step E rkey"
  "\<lambda>k u. ur_get_status u = UReserved \<and> ur_reserved_for_request_id u = rkey" release_record for E rkey
  by unfold_locales (auto simp: release_step_def res_simps dest: load_utxo_ok)

section \<open>Pool counters\<close>

lemma utxo_count_set [simp]: "utxo_count (set_utxo_count v p) = v"
proof -
  have m: "v AND 0xFFFF = take_bit 16 v"
    by (simp add: take_bit_eq_mask mask_eq_exp_minus_1)
  show ?thesis
    unfolding utxo_count_def set_utxo_count_def m
    by (rule bit_eqI) (auto simp: bit_or_iff bit_push_bit_iff bit_ucast_iff bit_take_bit_iff bit_drop_bit_eq)
qed

lemma set_utxo_count_fields [simp]:
  "ps_total_btc_held (set_utxo_count v p) = ps_total_btc_held p"
  "ps_discriminator (set_utxo_count v p) = ps_discriminator p"
  "ps_total_shielded (set_utxo_count v p) = ps_total_shielded p"
  "ps_pending_redemptions (set_utxo_count v p) = ps_pending_redemptions p"
  by (simp_all add: set_utxo_count_def)

lemma utxo_count_held [simp]: "utxo_count (p\<lparr>ps_total_btc_held := h\<rparr>) = utxo_count p"
  by (simp add: utxo_count_def)

text \<open>Only the two UTXO counters of a pool may differ.\<close>

definition same_but_utxos :: "pool_state \<Rightarrow> pool_state \<Rightarrow> bool" where
  "same_but_utxos p p' \<longleftrightarrow> (\<exists>c h. p' = set_utxo_count c (p\<lparr>ps_total_btc_held := h\<rparr>))"

lemma set_utxo_count_twice [simp]:
  "set_utxo_count c ((set_utxo_count c' p)\<lparr>ps_total_btc_held := h\<rparr>) = set_utxo_count c (p\<lparr>ps_total_btc_held := h\<rparr>)"
  by (simp add: set_utxo_count_def)

lemma set_utxo_count_id [simp]: "set_utxo_count (utxo_count p) p = p"
proof -
  have lo: "ucast ((ucast a OR push_bit 16 (ucast b)) AND 0xFFFF :: u32) = a" for a b :: u16
  proof -
    have m: "v AND 0xFFFF = take_bit 16 v" for v :: u32 by (simp add: take_bit_eq_mask mask_eq_exp_minus_1)
    show ?thesis unfolding m
      by (rule bit_eqI) (auto simp: bit_or_iff bit_push_bit_iff bit_ucast_iff bit_take_bit_iff)
  qed
  have hi: "ucast (drop_bit 16 (ucast a OR push_bit 16 (ucast b) :: u32)) = b" for a b :: u16
    by (rule bit_eqI) (auto simp: bit_or_iff bit_push_bit_iff bit_ucast_iff bit_drop_bit_eq dest: bit_imp_le_length)
  show ?thesis unfolding set_utxo_count_def utxo_count_def lo hi by simp
qed

lemma same_but_utxos_refl [simp]: "same_but_utxos p p"
  unfolding same_but_utxos_def by (intro exI [of _ "utxo_count p"] exI [of _ "ps_total_btc_held p"]) simp

lemma remove_utxo_ok:
  assumes "remove_utxo x p = Inr p'"
  shows "unat (ps_total_btc_held p) = unat (ps_total_btc_held p') + unat x"
    and "unat (utxo_count p) = Suc (unat (utxo_count p'))" and "same_but_utxos p p'"
proof -
  from assms obtain h c where h: "checked_sub (ps_total_btc_held p) x = Some h"
    and c: "checked_sub (utxo_count p) 1 = Some c" and p': "p' = set_utxo_count c (p\<lparr>ps_total_btc_held := h\<rparr>)"
    by (auto simp: remove_utxo_def res_simps)
  from unat_checked_sub [OF h] unat_checked_sub [OF c]
  show "unat (ps_total_btc_held p) = unat (ps_total_btc_held p') + unat x"
    "unat (utxo_count p) = Suc (unat (utxo_count p'))"
    by (simp_all add: p')
  show "same_but_utxos p p'" unfolding same_but_utxos_def p' by blast
qed

lemma same_but_utxos_trans: "same_but_utxos p q \<Longrightarrow> same_but_utxos q r \<Longrightarrow> same_but_utxos p r"
  unfolding same_but_utxos_def by (elim exE) (simp, blast)

lemma remove_utxos_ok:
  "remove_utxos xs p = Inr p' \<Longrightarrow>
     unat (ps_total_btc_held p) = unat (ps_total_btc_held p') + sum_list (map unat xs) \<and>
     unat (utxo_count p) = unat (utxo_count p') + length xs \<and> same_but_utxos p p'"
proof (induction xs arbitrary: p)
  case Nil
  then show ?case by simp
next
  case (Cons x xs)
  from Cons.prems obtain q where q: "remove_utxo x p = Inr q" and r: "remove_utxos xs q = Inr p'"
    by (auto simp: res_simps)
  from remove_utxo_ok [OF q] Cons.IH [OF r] same_but_utxos_trans show ?case by auto
qed

lemma check_reservation_ok:
  assumes "check_reservation amount fee amounts tot = Inr u"
  shows "unat fee \<le> unat amount"
    and "unat amount - unat fee + min 50000 (unat fee) \<le> unat tot"
    and "\<exists>x \<in> set amounts. (\<forall>y \<in> set amounts. x \<le> y) \<and>
           unat tot - unat x < unat amount - unat fee + min 50000 (unat fee)"
proof -
  have mini: "foldr min ys z \<in> insert z (set ys) \<and> (\<forall>y \<in> insert z (set ys). foldr min ys z \<le> y)" for ys and z :: u64
    by (induction ys) (auto simp: min_def)
  from assms obtain sa rq where sa: "checked_sub amount fee = Some sa"
    and rq: "checked_add sa (min MAX_MINER_FEE_SATS fee) = Some rq" and lo: "\<not> tot < rq" and ne: "amounts \<noteq> []"
    and hi: "\<not> rq \<le> saturating_sub tot (foldr min amounts (hd amounts))"
    by (auto simp: check_reservation_def Let_def res_simps split: if_splits)
  have mf: "unat (min MAX_MINER_FEE_SATS fee) = min 50000 (unat fee)"
    by (simp add: min_def word_le_nat_alt MAX_MINER_FEE_SATS_def)
  have req: "unat rq = unat amount - unat fee + min 50000 (unat fee)"
    using unat_checked_add [OF rq] unat_checked_sub [OF sa] by (simp add: mf)
  show "unat fee \<le> unat amount" using unat_checked_sub [OF sa] by simp
  show "unat amount - unat fee + min 50000 (unat fee) \<le> unat tot"
    using lo by (simp add: req [symmetric] not_less word_le_nat_alt)
  let ?x = "foldr min amounts (hd amounts)"
  have "?x \<in> set amounts" "\<forall>y \<in> set amounts. ?x \<le> y" using mini [of amounts "hd amounts"] ne by auto
  moreover have "unat tot - unat ?x < unat rq"
    using hi unat_saturating_sub [of tot ?x] by (simp add: not_le word_less_nat_alt)
  ultimately show "\<exists>x \<in> set amounts. (\<forall>y \<in> set amounts. x \<le> y) \<and>
           unat tot - unat x < unat amount - unat fee + min 50000 (unat fee)"
    unfolding req by blast
qed

section \<open>Marking a redemption\<close>

named_theorems run_simps \<open>inversion of a successful handler, keeping its writes\<close>

lemmas [run_simps] = bindE_eq_Inr ensure_eq_Inr ok_or_eq_Inr if_Inl_eq_Inr split_paired_Ex prod.case not_less not_le

abbreviation pool_at :: "store \<Rightarrow> pubkey \<Rightarrow> pool_state result" where
  "pool_at s k \<equiv> pool_state_from_bytes (adata (s k))"
abbreviation request_at :: "store \<Rightarrow> pubkey \<Rightarrow> redemption_request result" where
  "request_at s k \<equiv> redemption_request_from_bytes (adata (s k))"
abbreviation token_at :: "store \<Rightarrow> pubkey \<Rightarrow> token_config result" where
  "token_at s k \<equiv> token_config_from_bytes (adata (s k))"
abbreviation tree_at :: "store \<Rightarrow> pubkey \<Rightarrow> commitment_tree result" where
  "tree_at s k \<equiv> commitment_tree_from_bytes (adata (s k))"

lemma validate_program_owner_iff [run_simps]:
  "validate_program_owner E s a = Inr u \<longleftrightarrow> owner (s (key a)) = program_id E"
  by (simp add: validate_program_owner_def res_simps)

lemma validate_account_writable_iff [run_simps]: "validate_account_writable a = Inr u \<longleftrightarrow> is_writable a"
  by (simp add: validate_account_writable_def res_simps)

lemma redemption_driver_iff [run_simps]:
  "redemption_driver_is_allowed k auth req = Inr u \<longleftrightarrow> k = auth \<or> k = req"
  by (simp add: redemption_driver_is_allowed_def res_simps)

definition pool_pda_ok :: "env \<Rightarrow> store \<Rightarrow> pubkey \<Rightarrow> bool" where
  "pool_pda_ok E s k \<longleftrightarrow> owner (s k) = program_id E \<and>
     (\<exists>p. pool_at s k = Inr p \<and> (k, ps_bump p) = find_program_address E [POOL_STATE_SEED, bytes32 (ps_zkbtc_mint p)])"

lemma validate_pool_state_pda_iff [run_simps]: "validate_pool_state_pda E s a = Inr u \<longleftrightarrow> pool_pda_ok E s (key a)"
  by (auto simp: validate_pool_state_pda_def pool_pda_ok_def res_simps Let_def validate_program_owner_def prod_eq_iff)

lemma validate_redemption_pda_iff [run_simps]:
  "validate_redemption_pda E s a b = Inr u \<longleftrightarrow> owner (s (key a)) = program_id E \<and> pool_pda_ok E s (key b) \<and>
     (\<exists>r. request_at s (key a) = Inr r) \<and>
     (\<forall>r. request_at s (key a) = Inr r \<longrightarrow> key a = redemption_address E (key b) r)"
  by (auto simp: validate_redemption_pda_def run_simps)

lemma validate_active_tree_pda_iff [run_simps]:
  "validate_active_tree_pda E s t p i = Inr u \<longleftrightarrow> pool_pda_ok E s (key p) \<and>
     key t = fst (find_program_address E [TREE_SEED, bytes32 (key p), bytes4 i])"
  by (simp add: validate_active_tree_pda_def run_simps)

text \<open>The first byte of an account decides which of the layouts it can be read as.\<close>

lemma first_byte_at:
  "pool_at s k = Inr p \<Longrightarrow> adata (s k) ! 0 = 0x01" "request_at s k = Inr r \<Longrightarrow> adata (s k) ! 0 = 0x04"
  "tree_at s k = Inr t \<Longrightarrow> adata (s k) ! 0 = 0x05" "record_at s k = Inr u \<Longrightarrow> adata (s k) ! 0 = 0x09"
  "token_at s k = Inr tc \<Longrightarrow> adata (s k) ! 0 = 0x0B"
  by (auto simp: pool_state_from_bytes_def redemption_request_from_bytes_def commitment_tree_from_bytes_def
      utxo_record_from_bytes_def token_config_from_bytes_def record_at_def layout_from_bytes_def
      POOL_STATE_DISCRIMINATOR_def REDEMPTION_REQUEST_DISCRIMINATOR_def COMMITMENT_TREE_DISCRIMINATOR_def
      UTXO_RECORD_DISCRIMINATOR_def TOKEN_CONFIG_DISCRIMINATOR_def split: if_splits)

lemma mark_run:
  assumes "process_mark_processing E accounts d s = Inr s'"
  defines "pk \<equiv> key (accounts ! 0)" and "rk \<equiv> key (accounts ! 1)" and "n \<equiv> unat (d ! 0)"
  shows "\<exists>pool red us tot s1 pool1 pool2 s2 red2 red3.
    length accounts \<ge> 3 + n \<and> is_signer (accounts ! 2) \<and> owner (s pk) = program_id E \<and> owner (s rk) = program_id E \<and>
    pool_at s pk = Inr pool \<and> request_at s rk = Inr red \<and> rk = redemption_address E pk red \<and> \<not> is_paused pool \<and>
    (key (accounts ! 2) = ps_authority pool \<or> key (accounts ! 2) = rr_requester red) \<and>
    0 < n \<and> n \<le> MAX_UTXOS_PER_MARK \<and> rr_get_status red = RPending \<and>
    utxo_loop (reserve_step E pk (redemption_reservation_key E rk)) (take n (drop 3 accounts)) 0 s = Inr (us, tot, s1) \<and>
    check_reservation (rr_amount_sats red) (rr_service_fee red) (map ur_amount_sats us) tot = Inr () \<and>
    pool_at s1 pk = Inr pool1 \<and> remove_utxos (map ur_amount_sats us) pool1 = Inr pool2 \<and>
    write_front pk (encode_pool_state pool2) s1 = Inr s2 \<and> request_at s2 rk = Inr red2 \<and>
    start_processing E tot n (inputs_commitment E (canonical_sort (map reserved_of us))) red2 = Inr red3 \<and>
    write_front rk (encode_redemption_request red3) s2 = Inr s'"
proof -
  have "process_mark_processing E accounts d s = Inr s'" by (rule assms(1))
  then show ?thesis
    unfolding process_mark_processing_def Let_def
    apply (simp only: run_simps pk_def [symmetric] rk_def [symmetric] n_def [symmetric])
    apply (elim exE conjE)
    apply (intro exI conjI; (assumption | simp))
    done
qed

lemma discriminator_at:
  "pool_at s k = Inr p \<Longrightarrow> ps_discriminator p = POOL_STATE_DISCRIMINATOR"
  "request_at s k = Inr r \<Longrightarrow> rr_discriminator r = REDEMPTION_REQUEST_DISCRIMINATOR"
  "token_at s k = Inr tc \<Longrightarrow> tc_discriminator tc = TOKEN_CONFIG_DISCRIMINATOR"
  by (simp_all add: pool_state_from_bytes_def redemption_request_from_bytes_def token_config_from_bytes_def
      psl.from_bytes_iff rrl.from_bytes_iff tcl.from_bytes_iff)

lemma write_pool:
  assumes "write_front k (encode_pool_state p) s = Inr s'" and "ps_discriminator p = POOL_STATE_DISCRIMINATOR"
  shows "pool_at s' k = Inr p" and "k' \<noteq> k \<Longrightarrow> s' k' = s k'"
    and "owner (s' k') = owner (s k')" and "lamports (s' k') = lamports (s k')"
  using psl.from_bytes_after_write [OF assms] assms(1) by (auto simp: pool_state_from_bytes_def res_simps)

lemma write_request:
  assumes "write_front k (encode_redemption_request r) s = Inr s'" and "rr_discriminator r = REDEMPTION_REQUEST_DISCRIMINATOR"
  shows "request_at s' k = Inr r" and "k' \<noteq> k \<Longrightarrow> s' k' = s k'"
    and "owner (s' k') = owner (s k')" and "lamports (s' k') = lamports (s k')"
  using rrl.from_bytes_after_write [OF assms] assms(1) by (auto simp: redemption_request_from_bytes_def res_simps)

lemma write_token:
  assumes "write_front k (encode_token_config c) s = Inr s'" and "tc_discriminator c = TOKEN_CONFIG_DISCRIMINATOR"
  shows "token_at s' k = Inr c" and "k' \<noteq> k \<Longrightarrow> s' k' = s k'"
    and "owner (s' k') = owner (s k')" and "lamports (s' k') = lamports (s k')"
  using tcl.from_bytes_after_write [OF assms] assms(1) by (auto simp: token_config_from_bytes_def res_simps)

lemma same_but_utxos_disc: "same_but_utxos p p' \<Longrightarrow> ps_discriminator p' = ps_discriminator p"
  by (auto simp: same_but_utxos_def)

definition required_sats :: "redemption_request \<Rightarrow> nat" where
  "required_sats r = unat (rr_amount_sats r) - unat (rr_service_fee r) + min 50000 (unat (rr_service_fee r))"

definition total_sats :: "utxo_record list \<Rightarrow> nat" where
  "total_sats us = sum_list (map (\<lambda>u. unat (ur_amount_sats u)) us)"

definition processing_request :: "env \<Rightarrow> utxo_record list \<Rightarrow> redemption_request \<Rightarrow> redemption_request" where
  "processing_request E us r = r\<lparr>rr_status := 1, rr_processing_slot := ucast (clock_slot E),
     rr_total_input_sats := of_nat (total_sats us), rr_reserved_count := of_nat (length us),
     rr_inputs_commitment := inputs_commitment E (canonical_sort (map reserved_of us))\<rparr>"

text \<open>What a successful call did, relating the stores before and after it.\<close>

definition marked :: "env \<Rightarrow> pubkey \<Rightarrow> pubkey \<Rightarrow> account_info list \<Rightarrow> pool_state \<Rightarrow> redemption_request \<Rightarrow>
    utxo_record list \<Rightarrow> pool_state \<Rightarrow> store \<Rightarrow> store \<Rightarrow> bool" where
  "marked E pk rk as pool red us pool' s s' \<longleftrightarrow>
     pool_at s pk = Inr pool \<and> request_at s rk = Inr red \<and> distinct (map key as) \<and>
     list_all2 (\<lambda>a u. record_at s (key a) = Inr u \<and> ur_get_status u = UUnspent \<and> key a = utxo_address E pk u \<and>
       record_at s' (key a) = Inr (reserve_record (redemption_reservation_key E rk) u)) as us \<and>
     pool_at s' pk = Inr pool' \<and> same_but_utxos pool pool' \<and>
     unat (ps_total_btc_held pool) = unat (ps_total_btc_held pool') + total_sats us \<and>
     unat (utxo_count pool) = unat (utxo_count pool') + length us \<and>
     request_at s' rk = Inr (processing_request E us red) \<and>
     (\<forall>k. k \<notin> {pk, rk} \<union> key ` set as \<longrightarrow> s' k = s k) \<and>
     (\<forall>k. owner (s' k) = owner (s k) \<and> lamports (s' k) = lamports (s k))"

lemma mark_effect:
  assumes run: "process_mark_processing E accounts d s = Inr s'"
  defines "pk \<equiv> key (accounts ! 0)" and "rk \<equiv> key (accounts ! 1)" and "as \<equiv> take (unat (d ! 0)) (drop 3 accounts)"
  shows "\<exists>pool red us pool'. marked E pk rk as pool red us pool' s s' \<and> \<not> is_paused pool \<and>
     is_signer (accounts ! 2) \<and> key (accounts ! 2) \<in> {ps_authority pool, rr_requester red} \<and>
     rr_get_status red = RPending \<and> length as = unat (d ! 0) \<and> 0 < length as \<and> length as \<le> 20 \<and>
     required_sats red \<le> total_sats us \<and>
     (\<forall>u \<in> set us. total_sats us - unat (ur_amount_sats u) < required_sats red)"
proof -
  let ?n = "unat (d ! 0)" and ?rkey = "redemption_reservation_key E rk"
  from mark_run [OF run, folded pk_def rk_def as_def] obtain pool red us tot s1 pool1 pool2 s2 red2 red3 where
    acc: "3 + ?n \<le> length accounts" "0 < ?n" "?n \<le> MAX_UTXOS_PER_MARK" and sig: "is_signer (accounts ! 2)"
    and pool: "pool_at s pk = Inr pool" "\<not> is_paused pool" and red: "request_at s rk = Inr red" "rr_get_status red = RPending"
    and drv: "key (accounts ! 2) = ps_authority pool \<or> key (accounts ! 2) = rr_requester red"
    and loop: "utxo_loop (reserve_step E pk ?rkey) as 0 s = Inr (us, tot, s1)"
    and chk: "check_reservation (rr_amount_sats red) (rr_service_fee red) (map ur_amount_sats us) tot = Inr ()"
    and pool1: "pool_at s1 pk = Inr pool1" "remove_utxos (map ur_amount_sats us) pool1 = Inr pool2"
    and w1: "write_front pk (encode_pool_state pool2) s1 = Inr s2" and red2: "request_at s2 rk = Inr red2"
    and st: "start_processing E tot ?n (inputs_commitment E (canonical_sort (map reserved_of us))) red2 = Inr red3"
    and w2: "write_front rk (encode_redemption_request red3) s2 = Inr s'" by blast
  note L = reserve.loop_ok [OF loop]
  have len: "length as = ?n" using acc(1) by (simp add: as_def)
  then have lus: "length us = ?n" using L by (auto dest: list_all2_lengthD)
  have tot: "unat tot = total_sats us" using L by (simp add: total_sats_def)
  have recs: "adata (s (key a)) ! 0 = 0x09" if "a \<in> set as" for a
    using L that by (auto simp: list_all2_conv_all_nth in_set_conv_nth dest: first_byte_at(4))
  have apart: "pk \<notin> key ` set as" "rk \<notin> key ` set as" "pk \<noteq> rk"
    using recs first_byte_at(1) [of s pk pool] pool(1) first_byte_at(2) [of s rk red] red(1) by auto
  have "pool_at s1 pk = Inr pool" using L apart pool(1) by simp
  with pool1 have rem: "remove_utxos (map ur_amount_sats us) pool = Inr pool2" by simp
  note R = remove_utxos_ok [OF rem]
  have "ps_discriminator pool2 = POOL_STATE_DISCRIMINATOR"
    using R same_but_utxos_disc [of pool pool2] discriminator_at(1) [of s pk pool] pool(1) by simp
  note W1 = write_pool [OF w1 this]
  have "request_at s2 rk = Inr red" using W1(2) [of rk] L apart red(1) by simp
  with red2 have r2: "red2 = red" by simp
  have "of_nat (total_sats us) = tot" using tot by (metis of_nat_unat ucast_id)
  then have r3: "red3 = processing_request E us red"
    using st red(2) by (simp add: start_processing_def r2 processing_request_def rr_set_status_def lus)
  have "rr_discriminator red3 = REDEMPTION_REQUEST_DISCRIMINATOR"
    using discriminator_at(2) [of s rk red] red(1) by (simp add: r3 processing_request_def)
  note W2 = write_request [OF w2 this]
  have recs': "record_at s' (key a) = record_at s1 (key a)" if "a \<in> set as" for a
  proof -
    have "key a \<noteq> pk" "key a \<noteq> rk" using that apart by auto
    with W1(2) [of "key a"] W2(2) [of "key a"] show ?thesis by (simp add: record_at_def)
  qed
  have "list_all2 (\<lambda>a u. record_at s (key a) = Inr u \<and> ur_get_status u = UUnspent \<and> key a = utxo_address E pk u \<and>
       record_at s' (key a) = Inr (reserve_record ?rkey u)) as us"
    using conjunct1 [OF conjunct2 [OF L]] by (rule list.rel_mono_strong) (use recs' in metis)
  moreover have "sum_list (map unat (map ur_amount_sats us)) = total_sats us" by (simp add: total_sats_def comp_def)
  moreover have "s' k = s k" if "k \<notin> {pk, rk} \<union> key ` set as" for k
    using that W1(2) [of k] W2(2) [of k] L by auto
  moreover have "pool_at s' pk = Inr pool2" using W1(1) W2(2) [of pk] apart by simp
  moreover have "owner (s' k) = owner (s k) \<and> lamports (s' k) = lamports (s k)" for k
    using L W1(3,4) W2(3,4) by simp
  ultimately have M: "marked E pk rk as pool red us pool2 s s'"
    unfolding marked_def using pool red R L W2(1) r3 by simp
  note C = check_reservation_ok [OF chk, unfolded tot]
  have "total_sats us - unat (ur_amount_sats u) < required_sats red" if "u \<in> set us" for u
  proof -
    from C(3) obtain x where "\<forall>y \<in> set (map ur_amount_sats us). x \<le> y" "total_sats us - unat x < required_sats red"
      by (auto simp: required_sats_def)
    with that have "unat x \<le> unat (ur_amount_sats u)" "total_sats us - unat x < required_sats red"
      by (auto simp: word_le_nat_alt)
    then show ?thesis by linarith
  qed
  then show ?thesis
    using M pool(2) red(2) sig drv acc len C(2)
    by (intro exI [of _ pool] exI [of _ red] exI [of _ us] exI [of _ pool2])
      (simp add: required_sats_def MAX_UTXOS_PER_MARK_def)
qed

text \<open>
  C32. Marking a redemption as processing. A successful call was signed by the pool authority or the
  requester, on an unpaused pool and a pending request; it moved between 1 and 20 distinct UTXO
  records of this pool, all unspent before, to reserved under the request's key; the pool's held
  bitcoin and UTXO count went down by exactly their sum and number; the request is processing and
  records sum, number and the commitment to the canonical input set; all other accounts, all owners
  and balances are unchanged. The reserved sum covers the payout with the largest admissible
  miner fee, and no reserved input is superfluous for it.
\<close>

theorem mark_processing_reserves:
  assumes "process_mark_processing E accounts d s = Inr s'"
  defines "as \<equiv> take (unat (d ! 0)) (drop 3 accounts)"
  shows "\<exists>pool red us pool'. marked E (key (accounts ! 0)) (key (accounts ! 1)) as pool red us pool' s s' \<and>
     \<not> is_paused pool \<and> is_signer (accounts ! 2) \<and> key (accounts ! 2) \<in> {ps_authority pool, rr_requester red} \<and>
     rr_get_status red = RPending \<and> length as = unat (d ! 0) \<and> 0 < length as \<and> length as \<le> 20 \<and>
     required_sats red \<le> total_sats us \<and>
     (\<forall>u \<in> set us. total_sats us - unat (ur_amount_sats u) < required_sats red)"
  using mark_effect [OF assms(1)] unfolding as_def .

section \<open>Cancelling a redemption\<close>

lemma length_append_walk:
  "append_walk E zs l f i c = Inr (f', r) \<Longrightarrow> length f' = length f"
  by (induction E zs l f i c rule: append_walk.induct) (auto simp: res_simps split: if_splits)

lemma insert_leaf_valid:
  "insert_leaf E c t = Inr (i, t') \<Longrightarrow> tree_valid t \<Longrightarrow> tree_valid t' \<and> ct_discriminator t' = ct_discriminator t"
  by (auto simp: insert_leaf_def append_leaf_def update_root_def Let_def tree_valid_def res_simps
      dest!: length_append_walk split: if_splits)

lemma remint_ok:
  assumes "remint E k c s = Inr s'"
  shows "\<exists>t i t'. tree_at s k = Inr t \<and> insert_leaf E c t = Inr (i, t') \<and> tree_at s' k = Inr t'"
    and "k' \<noteq> k \<Longrightarrow> s' k' = s k'" and "owner (s' k') = owner (s k')" and "lamports (s' k') = lamports (s k')"
proof -
  from assms obtain t i t' where t: "tree_at s k = Inr t" and i: "insert_leaf E c t = Inr (i, t')"
    and w: "write_front k (encode_commitment_tree t') s = Inr s'"
    by (auto simp: remint_def run_simps)
  have "tree_valid t" using ctl.from_bytes_valid t unfolding commitment_tree_from_bytes_def by blast
  moreover have "ct_discriminator t = COMMITMENT_TREE_DISCRIMINATOR"
    using t by (auto simp: commitment_tree_from_bytes_def layout_from_bytes_def decode_commitment_tree_def byte_at_def split: if_splits)
  ultimately have "tree_valid t'" "ct_discriminator t' = COMMITMENT_TREE_DISCRIMINATOR" using insert_leaf_valid [OF i] by simp_all
  from ctl.from_bytes_after_write [OF w this]
  have "tree_at s' k = Inr t'" by (simp add: commitment_tree_from_bytes_def)
  with t i show "\<exists>t i t'. tree_at s k = Inr t \<and> insert_leaf E c t = Inr (i, t') \<and> tree_at s' k = Inr t'" by blast
  from w show "k' \<noteq> k \<Longrightarrow> s' k' = s k'" "owner (s' k') = owner (s k')" "lamports (s' k') = lamports (s k')"
    by (auto simp: res_simps)
qed

lemma tc_add_shielded_ok:
  assumes "tc_add_shielded x c = Inr c'"
  shows "c' = c\<lparr>tc_total_shielded := tc_total_shielded c + x\<rparr>"
    and "unat (tc_total_shielded c + x) = unat (tc_total_shielded c) + unat x"
  using assms by (auto simp: tc_add_shielded_def res_simps checked_add_eq_Some unat_word_ariths)

lemma settle_cancel_ok:
  assumes "settle_cancel E sh restored n p = Inr p'" and "n < 2 ^ 32"
  shows "ps_total_shielded p' = sh" and "ps_discriminator p' = ps_discriminator p"
    and "unat (ps_total_btc_held p') = unat (ps_total_btc_held p) + unat restored"
    and "unat (utxo_count p') = unat (utxo_count p) + (if restored = 0 then 0 else n)"
    and "ps_pending_redemptions p' = saturating_sub (ps_pending_redemptions p) 1"
proof -
  let ?p1 = "p\<lparr>ps_total_shielded := sh\<rparr>"
  from assms obtain p2 where p2: "(if restored > 0 then add_utxos restored (of_nat n) ?p1 else Inr ?p1) = Inr p2"
    and p': "p' = p2\<lparr>ps_pending_redemptions := saturating_sub (ps_pending_redemptions p2) 1,
              ps_last_update := clock_unix_timestamp E\<rparr>"
    by (auto simp: settle_cancel_def Let_def run_simps)
  have cnt: "utxo_count p' = utxo_count p2" "utxo_count ?p1 = utxo_count p" by (simp_all add: p' utxo_count_def)
  have "ps_total_shielded p2 = sh \<and> ps_discriminator p2 = ps_discriminator p \<and>
      ps_pending_redemptions p2 = ps_pending_redemptions p \<and>
      unat (ps_total_btc_held p2) = unat (ps_total_btc_held p) + unat restored \<and>
      unat (utxo_count p2) = unat (utxo_count p) + (if restored = 0 then 0 else n)"
  proof (cases "restored > 0")
    case True
    with p2 obtain h c where h: "checked_add (ps_total_btc_held ?p1) restored = Some h"
      and c: "checked_add (utxo_count ?p1) (of_nat n) = Some c"
      and e: "p2 = set_utxo_count c (?p1\<lparr>ps_total_btc_held := h\<rparr>)"
      by (auto simp: add_utxos_def run_simps)
    have "unat (of_nat n :: u32) = n" using assms(2) by (simp add: unat_of_nat)
    moreover have "restored \<noteq> 0" using True by auto
    ultimately show ?thesis
      using unat_checked_add [OF h] unat_checked_add [OF c] by (simp add: e cnt)
  next
    case False
    then have "restored = 0" by (simp add: word_gt_0)
    with p2 False show ?thesis by (auto simp: cnt)
  qed
  then show "ps_total_shielded p' = sh" "ps_discriminator p' = ps_discriminator p"
    "unat (ps_total_btc_held p') = unat (ps_total_btc_held p) + unat restored"
    "unat (utxo_count p') = unat (utxo_count p) + (if restored = 0 then 0 else n)"
    "ps_pending_redemptions p' = saturating_sub (ps_pending_redemptions p) 1"
    by (simp_all add: cnt(1)) (simp_all add: p')
qed

lemma close_account_ok:
  assumes "close_account_securely a dest s = Inr s'" and "adata (s a) \<noteq> []"
  shows "adata (s' a) = 0xFF # replicate (length (adata (s a)) - 1) 0"
    and "k \<noteq> a \<Longrightarrow> adata (s' k) = adata (s k)" and "owner (s' k) = owner (s k)"
    and "a \<noteq> dest \<Longrightarrow> lamports (s' a) = 0"
  using assms by (auto simp: close_account_securely_def Let_def run_simps split: if_splits)

lemma cancel_run:
  assumes run: "process_cancel_redemption E accounts d s = Inr s'"
  defines "uk \<equiv> key (accounts ! 0)" and "pk \<equiv> key (accounts ! 1)" and "rk \<equiv> key (accounts ! 2)"
    and "tk \<equiv> key (accounts ! 3)" and "ck \<equiv> key (accounts ! 5)"
  shows "\<exists>npk n pool red wp restored s1 c s2 tc tc' s3 pool3 pool4 s4.
    cancel_data_from_bytes d = Inr (npk, n) \<and> is_signer (accounts ! 0) \<and> 6 + n \<le> length accounts \<and>
    pool_at s pk = Inr pool \<and> \<not> is_paused pool \<and> request_at s rk = Inr red \<and>
    tk = fst (find_program_address E [TREE_SEED, bytes32 pk, bytes4 (ps_active_tree_index pool)]) \<and>
    cancel_allowed E uk red = Inr wp \<and>
    check_cancel_token E (accounts ! 5) (accounts ! 1) (rr_token_id red) s = Inr () \<and>
    (wp \<longrightarrow> n = unat (rr_reserved_count red)) \<and>
    release_utxos E wp (redemption_reservation_key E rk) accounts n s = Inr (restored, s1) \<and>
    compute_commitment E npk (rr_token_id red) (rr_amount_sats red) = Inr c \<and>
    remint E tk c s1 = Inr s2 \<and> token_at s2 ck = Inr tc \<and> tc_add_shielded (rr_amount_sats red) tc = Inr tc' \<and>
    write_front ck (encode_token_config tc') s2 = Inr s3 \<and> pool_at s3 pk = Inr pool3 \<and>
    settle_cancel E (tc_total_shielded tc') restored n pool3 = Inr pool4 \<and>
    write_front pk (encode_pool_state pool4) s3 = Inr s4 \<and> close_account_securely rk uk s4 = Inr s'"
proof -
  note assms(1)
  then show ?thesis
    unfolding process_cancel_redemption_def Let_def
    apply (simp only: run_simps uk_def [symmetric] pk_def [symmetric] rk_def [symmetric] tk_def [symmetric] ck_def [symmetric])
    apply (elim exE conjE)
    apply (intro exI conjI; (assumption | simp))
    done
qed

text \<open>The UTXO accounts a cancellation has to release, and what it did in all.\<close>

definition cancelled :: "env \<Rightarrow> account_info list \<Rightarrow> bool \<Rightarrow> hash32 \<Rightarrow> account_info list \<Rightarrow> pool_state \<Rightarrow> redemption_request \<Rightarrow>
    token_config \<Rightarrow> utxo_record list \<Rightarrow> pool_state \<Rightarrow> store \<Rightarrow> store \<Rightarrow> bool" where
  "cancelled E accounts was_processing npk as pool red tc us pool' s s' \<longleftrightarrow>
     (let pk = key (accounts ! 1); rk = key (accounts ! 2); tk = key (accounts ! 3); ck = key (accounts ! 5);
          amount = rr_amount_sats red in
      pool_at s pk = Inr pool \<and> request_at s rk = Inr red \<and> token_at s ck = Inr tc \<and> tc_token_id tc = rr_token_id red \<and>
      distinct (map key as) \<and>
      list_all2 (\<lambda>a u. record_at s (key a) = Inr u \<and> ur_get_status u = UReserved \<and>
        ur_reserved_for_request_id u = redemption_reservation_key E rk \<and>
        record_at s' (key a) = Inr (release_record u)) as us \<and>
      (\<exists>c t i t'. compute_commitment E npk (rr_token_id red) amount = Inr c \<and> tree_at s tk = Inr t \<and>
         insert_leaf E c t = Inr (i, t') \<and> tree_at s' tk = Inr t') \<and>
      token_at s' ck = Inr (tc\<lparr>tc_total_shielded := tc_total_shielded tc + amount\<rparr>) \<and>
      unat (tc_total_shielded tc + amount) = unat (tc_total_shielded tc) + unat amount \<and>
      pool_at s' pk = Inr pool' \<and> ps_total_shielded pool' = tc_total_shielded tc + amount \<and>
      unat (ps_total_btc_held pool') = unat (ps_total_btc_held pool) + total_sats us \<and>
      unat (utxo_count pool') = unat (utxo_count pool) + (if total_sats us = 0 then 0 else length us) \<and>
      ps_pending_redemptions pool' = saturating_sub (ps_pending_redemptions pool) 1 \<and>
      (\<forall>r. request_at s' rk \<noteq> Inr r) \<and>
      (\<forall>k. k \<notin> {pk, rk, tk, ck} \<union> key ` set as \<longrightarrow> adata (s' k) = adata (s k)) \<and>
      (\<forall>k. owner (s' k) = owner (s k)))"

lemma release_utxos_ok:
  assumes "release_utxos E wp rkey accounts n s = Inr (restored, s1)" and "6 + n \<le> length accounts"
  defines "as \<equiv> if wp then take n (drop 6 accounts) else []"
  shows "\<exists>us. distinct (map key as) \<and>
     list_all2 (\<lambda>a u. record_at s (key a) = Inr u \<and> (ur_get_status u = UReserved \<and> ur_reserved_for_request_id u = rkey) \<and>
       record_at s1 (key a) = Inr (release_record u)) as us \<and>
     unat restored = total_sats us \<and> length us = n \<and> (\<forall>k. k \<notin> key ` set as \<longrightarrow> s1 k = s k) \<and>
     (\<forall>k. owner (s1 k) = owner (s k))"
proof (cases wp)
  case True
  with assms(1) obtain us where "utxo_loop (release_step E rkey) (take n (drop 6 accounts)) 0 s = Inr (us, restored, s1)"
    by (auto simp: release_utxos_def run_simps)
  from release.loop_ok [OF this] show ?thesis
    using True assms(2) by (intro exI [of _ us]) (auto simp: as_def total_sats_def dest: list_all2_lengthD)
next
  case False
  with assms(1) show ?thesis by (auto simp: release_utxos_def run_simps as_def total_sats_def split: if_splits)
qed

lemma check_cancel_token_ok:
  assumes "check_cancel_token E tc_info pool_info token_id s = Inr u"
  shows "\<exists>tc. token_at s (key tc_info) = Inr tc \<and> tc_token_id tc = token_id \<and>
     key tc_info = fst (find_program_address E [TOKEN_CONFIG_SEED, bytes32 (key pool_info), bytes32 (tc_mint tc)])"
  using assms by (auto simp: check_cancel_token_def run_simps)

lemma closed_not_request: "adata (s k) ! 0 = 0xFF \<Longrightarrow> request_at s k \<noteq> Inr r"
  using first_byte_at(2) [of s k r] by auto

lemma cancel_effect:
  assumes run: "process_cancel_redemption E accounts d s = Inr s'"
  shows "\<exists>npk n wp pool red tc us pool'.
     cancel_data_from_bytes d = Inr (npk, n) \<and> is_signer (accounts ! 0) \<and>
     cancel_allowed E (key (accounts ! 0)) red = Inr wp \<and> (if wp then n = unat (rr_reserved_count red) else n = 0) \<and>
     length us = n \<and> 6 + n \<le> length accounts \<and> \<not> is_paused pool \<and>
     cancelled E accounts wp npk (if wp then take n (drop 6 accounts) else []) pool red tc us pool' s s'"
proof -
  define uk pk rk tk ck where k: "uk = key (accounts ! 0)" "pk = key (accounts ! 1)" "rk = key (accounts ! 2)"
    "tk = key (accounts ! 3)" "ck = key (accounts ! 5)"
  from cancel_run [OF run, folded k] obtain npk n pool red wp restored s1 c s2 tc2 tc' s3 pool3 pool4 s4 where
    cd: "cancel_data_from_bytes d = Inr (npk, n)" and sig: "is_signer (accounts ! 0)" and len: "6 + n \<le> length accounts"
    and pool: "pool_at s pk = Inr pool" "\<not> is_paused pool" and red: "request_at s rk = Inr red"
    and al: "cancel_allowed E uk red = Inr wp" and tok: "check_cancel_token E (accounts ! 5) (accounts ! 1) (rr_token_id red) s = Inr ()"
    and cnt: "wp \<longrightarrow> n = unat (rr_reserved_count red)"
    and rel: "release_utxos E wp (redemption_reservation_key E rk) accounts n s = Inr (restored, s1)"
    and c: "compute_commitment E npk (rr_token_id red) (rr_amount_sats red) = Inr c"
    and rem: "remint E tk c s1 = Inr s2" and tc2: "token_at s2 ck = Inr tc2" and add: "tc_add_shielded (rr_amount_sats red) tc2 = Inr tc'"
    and w3: "write_front ck (encode_token_config tc') s2 = Inr s3" and pool3: "pool_at s3 pk = Inr pool3"
    and set: "settle_cancel E (tc_total_shielded tc') restored n pool3 = Inr pool4"
    and w4: "write_front pk (encode_pool_state pool4) s3 = Inr s4" and cl: "close_account_securely rk uk s4 = Inr s'"
    by blast
  define as where "as = (if wp then take n (drop 6 accounts) else [])"
  from release_utxos_ok [OF rel len, folded as_def] obtain us where dist: "distinct (map key as)"
    and L: "list_all2 (\<lambda>a u. record_at s (key a) = Inr u \<and> (ur_get_status u = UReserved \<and>
        ur_reserved_for_request_id u = redemption_reservation_key E rk) \<and> record_at s1 (key a) = Inr (release_record u)) as us"
    and R: "unat restored = total_sats us" "length us = n" and f1: "\<And>k. k \<notin> key ` set as \<Longrightarrow> s1 k = s k"
    and o1: "\<And>k. owner (s1 k) = owner (s k)" by blast
  from check_cancel_token_ok [OF tok, folded k] obtain tc where tc: "token_at s ck = Inr tc" "tc_token_id tc = rr_token_id red" by blast
  from remint_ok(1) [OF rem] obtain t i t' where t: "tree_at s1 tk = Inr t" "insert_leaf E c t = Inr (i, t')" "tree_at s2 tk = Inr t'" by blast
  note M = remint_ok(2,3) [OF rem]
  \<comment> \<open>The accounts are pairwise different: their first bytes are.\<close>
  have recs: "adata (s (key a)) ! 0 = 0x09" "adata (s1 (key a)) ! 0 = 0x09" if "a \<in> set as" for a
    using L that by (auto simp: list_all2_conv_all_nth in_set_conv_nth dest: first_byte_at(4))
  note fb = first_byte_at(1) [of s pk pool] pool(1) first_byte_at(2) [of s rk red] red first_byte_at(5) [of s ck tc] tc(1)
    first_byte_at(3) [of s1 tk t] t(1)
  have out: "pk \<notin> key ` set as" "rk \<notin> key ` set as" "ck \<notin> key ` set as" "tk \<notin> key ` set as" using recs fb by auto
  have ne: "pk \<noteq> rk" "pk \<noteq> ck" "rk \<noteq> ck" using fb by auto
  have "adata (s tk) ! 0 = 0x05" using fb f1 [OF out(4)] by simp
  with fb have ne': "tk \<noteq> pk" "tk \<noteq> rk" "tk \<noteq> ck" by auto
  have ts: "tree_at s tk = Inr t" using t(1) f1 [OF out(4)] by simp
  have "tc2 = tc" using tc2 tc(1) M(1) [of ck] ne' f1 [OF out(3)] by simp
  note T = tc_add_shielded_ok [OF add, unfolded this]
  have "tc_discriminator tc' = TOKEN_CONFIG_DISCRIMINATOR" using discriminator_at(3) [of s ck tc] tc(1) by (simp add: T)
  note W3 = write_token [OF w3 this]
  have p3: "pool3 = pool" using pool3 pool(1) W3(2) [of pk] M(1) [of pk] ne ne' f1 [OF out(1)] by simp
  have n32: "n < 2 ^ 32" using cd by (auto simp: cancel_data_from_bytes_def Let_def MAX_UTXOS_PER_CANCEL_def split: if_splits)
  note S = settle_cancel_ok [OF set n32, unfolded p3]
  have "ps_discriminator pool4 = POOL_STATE_DISCRIMINATOR"
    using discriminator_at(1) [of s pk pool] pool(1) S(2) by simp
  note W4 = write_pool [OF w4 this]
  have s4rk: "s4 rk = s rk" using W4(2) [of rk] W3(2) [of rk] M(1) [of rk] ne ne' f1 [OF out(2)] by simp
  then have "adata (s4 rk) \<noteq> []" using red
    by (auto simp: redemption_request_from_bytes_def layout_from_bytes_def REDEMPTION_REQUEST_LEN_def)
  note C = close_account_ok [OF cl this]
  have fin: "adata (s' x) = adata (s4 x)" if "x \<noteq> rk" for x using C(2) that by simp
  have recs': "record_at s' (key a) = record_at s1 (key a)" if "a \<in> set as" for a
  proof -
    have "key a \<noteq> pk" "key a \<noteq> rk" "key a \<noteq> tk" "key a \<noteq> ck" using that out by auto
    then show ?thesis using fin W4(2) W3(2) M(1) by (simp add: record_at_def)
  qed
  have L': "list_all2 (\<lambda>a u. record_at s (key a) = Inr u \<and> ur_get_status u = UReserved \<and>
        ur_reserved_for_request_id u = redemption_reservation_key E rk \<and> record_at s' (key a) = Inr (release_record u)) as us"
    using L by (rule list.rel_mono_strong) (use recs' in metis)
  have "restored = 0 \<longleftrightarrow> total_sats us = 0" using R(1) by (metis unat_eq_zero)
  then have cnts: "unat (utxo_count pool4) = unat (utxo_count pool) + (if total_sats us = 0 then 0 else length us)"
    using S(4) R(2) by simp
  have "tree_at s' tk = Inr t'" using fin [of tk] W4(2) [of tk] W3(2) [of tk] ne' t(3) by simp
  moreover have "token_at s' ck = Inr tc'" using fin [of ck] W4(2) [of ck] W3(1) ne by simp
  moreover have "pool_at s' pk = Inr pool4" using fin [of pk] W4(1) ne by simp
  moreover have "\<forall>r. request_at s' rk \<noteq> Inr r" using C(1) closed_not_request [of s' rk] by simp
  moreover have "adata (s' x) = adata (s x)" if "x \<notin> {pk, rk, tk, ck} \<union> key ` set as" for x
    using that fin W4(2) W3(2) M(1) f1 by simp
  moreover have "owner (s' x) = owner (s x)" for x using C(3) W4(3) W3(3) M(2) o1 by simp
  ultimately have "cancelled E accounts wp npk as pool red tc us pool4 s s'"
    unfolding cancelled_def Let_def k [symmetric]
    using pool red tc dist L' c ts t(2) T S R cnts by (intro conjI exI) simp_all
  moreover have "if wp then n = unat (rr_reserved_count red) else n = 0"
    using cnt rel by (auto simp: release_utxos_def split: if_splits)
  ultimately show ?thesis using cd sig al R(2) len pool(2) unfolding as_def k by blast
qed


lemma cancel_allowed_iff:
  "cancel_allowed E user r = Inr wp \<longleftrightarrow> user = rr_requester r \<and> \<not> is_signing_approved r \<and>
     (if wp then rr_get_status r = RProcessing \<and> 216000 \<le> unat (ucast (clock_slot E) - rr_processing_slot r :: u32)
      else rr_get_status r = RPending)"
proof -
  have "(ucast e :: u64) < REDEMPTION_TIMEOUT_SLOTS \<longleftrightarrow> unat e < 216000" for e :: u32
    by (simp add: word_less_nat_alt REDEMPTION_TIMEOUT_SLOTS_def unat_ucast_up)
  then show ?thesis
    by (auto simp: cancel_allowed_def Let_def not_less split: redemption_status.splits if_splits)
qed

lemma elapsed_slots:
  fixes marked_at :: u64
  assumes "n < 2 ^ 32"
  shows "unat (ucast (marked_at + of_nat n) - ucast marked_at :: u32) = n"
proof -
  have "unat (ucast (marked_at + of_nat n) :: u32) = (unat marked_at + n) mod 2 ^ 64 mod 2 ^ 32"
    unfolding unat_ucast_mod using assms by (simp add: unat_word_ariths(1) unat_of_nat)
  also have "\<dots> = (unat marked_at + n) mod 2 ^ 32" by (rule mod_mod_cancel) simp
  also have "\<dots> = unat (ucast marked_at + of_nat n :: u32)"
    unfolding unat_word_ariths(1) unat_ucast_mod by (simp add: unat_of_nat mod_simps)
  finally have "(ucast (marked_at + of_nat n) :: u32) = ucast marked_at + of_nat n"
    by (simp only: word_unat_eq_iff)
  then show ?thesis using assms by (simp add: unat_of_nat)
qed

text \<open>
  When a cancellation is refused: no call by someone other than the requester succeeds, none
  once signing was approved, none on a failed request, and none on a request marked processing
  fewer than 216000 slots ago, also when the 32-bit slot counter kept in the request has wrapped
  around in between.
\<close>

theorem cancel_redemption_refused:
  assumes "request_at s (key (accounts ! 2)) = Inr red"
    and "key (accounts ! 0) \<noteq> rr_requester red \<or> is_signing_approved red \<or> rr_get_status red = RFailed \<or>
      rr_get_status red = RProcessing \<and> rr_processing_slot red = ucast marked_at \<and>
        clock_slot E = marked_at + of_nat elapsed \<and> elapsed < 216000"
  shows "\<exists>e. process_cancel_redemption E accounts d s = Inl e"
proof (cases "process_cancel_redemption E accounts d s")
  case (Inr s')
  from cancel_effect [OF this] assms(1) obtain wp where "cancel_allowed E (key (accounts ! 0)) red = Inr wp"
    by (auto simp: cancelled_def Let_def)
  with assms(2) elapsed_slots [of elapsed marked_at] have False
    by (auto simp: cancel_allowed_iff split: if_splits)
  then show ?thesis ..
qed simp

text \<open>
  C34. Marking and cancelling are inverse: if the request marked by a successful call is cancelled
  later over the same UTXO accounts, the pool holds the same amount of bitcoin and the same number
  of UTXOs as before, provided the payout was not zero, and each record is as before, with its
  status unspent and its reservation cleared.
\<close>

theorem mark_then_cancel_restores_pool:
  assumes "process_mark_processing E accounts d s = Inr s1"
    and "process_cancel_redemption (E\<lparr>clock_slot := x, clock_unix_timestamp := y\<rparr>) accounts' d' s1 = Inr s2"
    and "key (accounts' ! 1) = key (accounts ! 0)" and "key (accounts' ! 2) = key (accounts ! 1)"
    and "take (unat (d ! 0)) (drop 6 accounts') = take (unat (d ! 0)) (drop 3 accounts)"
  shows "\<exists>pool red us pool2. pool_at s (key (accounts ! 0)) = Inr pool \<and> request_at s (key (accounts ! 1)) = Inr red \<and>
     pool_at s2 (key (accounts ! 0)) = Inr pool2 \<and> ps_total_btc_held pool2 = ps_total_btc_held pool \<and>
     (0 < required_sats red \<longrightarrow> utxo_count pool2 = utxo_count pool) \<and>
     list_all2 (\<lambda>a u. record_at s (key a) = Inr u \<and>
       record_at s2 (key a) = Inr (u\<lparr>ur_status := 0, ur_reserved_for_request_id := 0\<rparr>))
       (take (unat (d ! 0)) (drop 3 accounts)) us"
proof -
  define pk rk as where k: "pk = key (accounts ! 0)" "rk = key (accounts ! 1)" "as = take (unat (d ! 0)) (drop 3 accounts)"
  from mark_effect [OF assms(1), folded k] obtain pool red us pool1 where M: "marked E pk rk as pool red us pool1 s s1"
    and n: "length as = unat (d ! 0)" "length as \<le> 20" and req: "required_sats red \<le> total_sats us" by blast
  from cancel_effect [OF assms(2)] obtain npk n' wp pool1' red' tc us' pool2 where
    al: "cancel_allowed (E\<lparr>clock_slot := x, clock_unix_timestamp := y\<rparr>) (key (accounts' ! 0)) red' = Inr wp"
    and n': "if wp then n' = unat (rr_reserved_count red') else n' = 0"
    and C: "cancelled (E\<lparr>clock_slot := x, clock_unix_timestamp := y\<rparr>) accounts' wp npk
        (if wp then take n' (drop 6 accounts') else []) pool1' red' tc us' pool2 s1 s2" by blast
  have red': "red' = processing_request E us red" and p1: "pool1' = pool1"
    using C M assms(3,4) by (simp_all add: cancelled_def marked_def Let_def k)
  have lus: "length us = length as" using M by (auto simp: marked_def dest: list_all2_lengthD)
  have wp: "wp" using al by (auto simp: cancel_allowed_iff red' processing_request_def rr_get_status_def split: if_splits)
  have "n' = unat (d ! 0)" using n' wp n by (simp add: red' processing_request_def lus unat_of_nat)
  with C wp have C': "cancelled (E\<lparr>clock_slot := x, clock_unix_timestamp := y\<rparr>) accounts' True npk as pool1 red' tc us' pool2 s1 s2"
    using assms(5) by (simp add: k p1)
  let ?rkey = "redemption_reservation_key E rk"
  have A: "list_all2 (\<lambda>a u. record_at s (key a) = Inr u \<and> record_at s1 (key a) = Inr (reserve_record ?rkey u)) as us"
    using M by (auto simp: marked_def elim!: list.rel_mono_strong)
  have B: "list_all2 (\<lambda>a u. record_at s1 (key a) = Inr u \<and> record_at s2 (key a) = Inr (release_record u)) as us'"
    using C' by (auto simp: cancelled_def Let_def elim!: list.rel_mono_strong)
  have us': "us' = map (reserve_record ?rkey) us"
    using A B by (auto simp: list_all2_conv_all_nth intro!: nth_equalityI)
  have tot: "total_sats us' = total_sats us"
    by (simp add: us' total_sats_def comp_def reserve_record_def ur_set_status_def)
  have "release_record (reserve_record ?rkey u) = u\<lparr>ur_status := 0, ur_reserved_for_request_id := 0\<rparr>" for u
    by (simp add: release_record_def reserve_record_def ur_set_status_def)
  then have R: "list_all2 (\<lambda>a u. record_at s (key a) = Inr u \<and>
       record_at s2 (key a) = Inr (u\<lparr>ur_status := 0, ur_reserved_for_request_id := 0\<rparr>)) as us"
    using A B by (auto simp: us' list_all2_conv_all_nth)
  have "unat (ps_total_btc_held pool2) = unat (ps_total_btc_held pool)"
    "0 < total_sats us \<longrightarrow> unat (utxo_count pool2) = unat (utxo_count pool)"
    using M C' by (simp_all add: marked_def cancelled_def Let_def tot) (simp_all add: us')
  then have held: "ps_total_btc_held pool2 = ps_total_btc_held pool"
    and count: "0 < required_sats red \<longrightarrow> utxo_count pool2 = utxo_count pool"
    using req by (simp_all only: word_unat_eq_iff) linarith
  have "pool_at s pk = Inr pool" "request_at s rk = Inr red" using M by (simp_all add: marked_def)
  moreover have "pool_at s2 pk = Inr pool2" using C' assms(3) by (simp add: cancelled_def Let_def k)
  ultimately show ?thesis using held count R unfolding k [symmetric] by - (intro exI conjI, assumption+)
qed

section \<open>A redemption that is marked and cancelled\<close>

lemma demo_pda:
  "find_program_address demo_env (sd # bytes32 a # rest) = (of_nat (length sd) + 256 * a, 255)"
  by (simp add: find_program_address_def demo_env_def from_le_append32)

definition demo_pool :: pool_state where
  "demo_pool = (decode_pool_state (replicate 332 0))\<lparr>ps_discriminator := 1, ps_bump := 255, ps_zkbtc_mint := 1,
     ps_authority := 77, ps_total_btc_held := 100000, ps_utxo_count_lo := 1, ps_utxo_count_hi := 0, ps_pending_redemptions := 1\<rparr>"

definition demo_request :: redemption_request where
  "demo_request = redemption_init\<lparr>rr_requester := 88, rr_amount_sats := 100000, rr_service_fee := 1000, rr_token_id := 5,
     rr_btc_script_len := 2, rr_btc_script := 0x0151\<rparr>"

definition demo_utxo :: utxo_record where
  "demo_utxo = \<lparr>ur_discriminator = 9, ur_status = 0, ur_padding = 0, ur_vout = 0, ur_txid = 9,
     ur_amount_sats = 100000, ur_reserved_for_request_id = 0\<rparr>"

definition demo_token :: token_config where
  "demo_token = (decode_token_config (replicate 164 0))\<lparr>tc_discriminator := 0x0B, tc_mint := 1, tc_token_id := 5\<rparr>"

definition demo_account :: "bytes \<Rightarrow> account" where
  "demo_account d = \<lparr>lamports = 1, owner = 1, adata = d\<rparr>"

definition rd_over :: "store \<Rightarrow> store" where
  "rd_over b = (\<lambda>k.
     if k = 266 then demo_account (encode_pool_state demo_pool)
     else if k = 68106 then demo_account (encode_redemption_request demo_request)
     else if k = 68100 then demo_account (encode_utxo_record demo_utxo)
     else if k = 68111 then demo_account (encode_commitment_tree tree_init)
     else if k = 68108 then demo_account (encode_token_config demo_token)
     else b k)"

definition blank_store :: store where
  "blank_store = (\<lambda>k. \<lparr>lamports = 5, owner = 0, adata = []\<rparr>)"

abbreviation rd_store :: store where "rd_store \<equiv> rd_over blank_store"

definition demo_acc :: "pubkey \<Rightarrow> account_info" where
  "demo_acc k = \<lparr>key = k, is_signer = True, is_writable = True\<rparr>"

lemma demo_acc_simps [simp]: "key (demo_acc k) = k" "is_signer (demo_acc k)" "is_writable (demo_acc k)"
  by (simp_all add: demo_acc_def)

lemma demo_at:
  "pool_at (rd_over b) 266 = Inr demo_pool" "request_at (rd_over b) 68106 = Inr demo_request"
  "record_at (rd_over b) 68100 = Inr demo_utxo" "token_at (rd_over b) 68108 = Inr demo_token"
  "tree_at (rd_over b) 68111 = Inr tree_init"
proof -
  have "ps_discriminator demo_pool = POOL_STATE_DISCRIMINATOR" by (simp add: demo_pool_def POOL_STATE_DISCRIMINATOR_def)
  from psl.from_bytes_encode [OF this] show "pool_at (rd_over b) 266 = Inr demo_pool"
    by (simp add: rd_over_def blank_store_def demo_account_def pool_state_from_bytes_def)
  have "rr_discriminator demo_request = REDEMPTION_REQUEST_DISCRIMINATOR"
    by (simp add: demo_request_def redemption_init_def decode_redemption_request_def byte_at_def)
  from rrl.from_bytes_encode [OF this] show "request_at (rd_over b) 68106 = Inr demo_request"
    by (simp add: rd_over_def blank_store_def demo_account_def redemption_request_from_bytes_def)
  have "ur_discriminator demo_utxo = UTXO_RECORD_DISCRIMINATOR" by (simp add: demo_utxo_def UTXO_RECORD_DISCRIMINATOR_def)
  from url.from_bytes_encode [OF this] show "record_at (rd_over b) 68100 = Inr demo_utxo"
    by (simp add: rd_over_def blank_store_def demo_account_def record_at_def utxo_record_from_bytes_def)
  have "tc_discriminator demo_token = TOKEN_CONFIG_DISCRIMINATOR" by (simp add: demo_token_def TOKEN_CONFIG_DISCRIMINATOR_def)
  from tcl.from_bytes_encode [OF this] show "token_at (rd_over b) 68108 = Inr demo_token"
    by (simp add: rd_over_def blank_store_def demo_account_def token_config_from_bytes_def)
  have "tree_valid tree_init" "ct_discriminator tree_init = COMMITMENT_TREE_DISCRIMINATOR"
    by (simp_all add: tree_valid_def tree_init_def)
  from ctl.from_bytes_overlay [OF this, of "[]"] show "tree_at (rd_over b) 68111 = Inr tree_init"
    by (simp add: rd_over_def blank_store_def demo_account_def commitment_tree_from_bytes_def)
qed

definition mark_accounts :: "account_info list" where
  "mark_accounts = map demo_acc [266, 68106, 88, 68100]"

definition cancel_accounts :: "account_info list" where
  "cancel_accounts = map demo_acc [88, 266, 68106, 68111, 0, 68108, 68100]"

lemmas demo_seeds = POOL_STATE_SEED_def REDEMPTION_SEED_def UTXO_SEED_def TOKEN_CONFIG_SEED_def TREE_SEED_def ascii_def

lemma demo_owner: "k \<in> {266, 68106, 68100, 68111, 68108} \<Longrightarrow> owner ((rd_over b) k) = program_id demo_env"
  by (auto simp: rd_over_def blank_store_def demo_account_def demo_env_def)

lemma demo_pool_ok: "pool_pda_ok demo_env (rd_over b) 266"
proof -
  have "find_program_address demo_env [POOL_STATE_SEED, bytes32 (ps_zkbtc_mint demo_pool)] = (266, 255)"
    by (simp add: demo_pda demo_seeds demo_pool_def)
  then show ?thesis
    using demo_at(1) by (simp add: pool_pda_ok_def demo_owner) (simp add: demo_pool_def)
qed

lemma demo_load: "load_utxo demo_env (demo_acc 68100) (rd_over b) = Inr demo_utxo"
  using demo_at(3) first_byte_at(4) [of "rd_over b" 68100 demo_utxo]
  by (auto simp: load_utxo_def validate_program_owner_def validate_account_writable_def demo_owner
      UTXO_RECORD_DISCRIMINATOR_def Let_def)
    (simp add: rd_over_def blank_store_def demo_account_def encode_utxo_record_def byte1_def)

lemma demo_reserve:
  "\<exists>s1. reserve_step demo_env 266 rkey (demo_acc 68100) (rd_over b) = Inr (demo_utxo, s1)"
proof -
  have "utxo_address demo_env 266 demo_utxo = 68100" by (simp add: utxo_address_def demo_pda demo_seeds)
  moreover have "adata ((rd_over b) 68100) = encode_utxo_record demo_utxo" by (simp add: rd_over_def blank_store_def demo_account_def)
  moreover have "ur_get_status demo_utxo = UUnspent" by (simp add: ur_get_status_def demo_utxo_def)
  ultimately show ?thesis
    by (simp add: reserve_step_def demo_load put_record_def write_front_def put_front_def url.length_encode)
qed

lemma demo_mark: "\<exists>s1. process_mark_processing demo_env mark_accounts [1] (rd_over b) = Inr s1"
proof -
  let ?rkey = "redemption_reservation_key demo_env 68106"
  obtain s1 where st: "reserve_step demo_env 266 ?rkey (demo_acc 68100) (rd_over b) = Inr (demo_utxo, s1)"
    using demo_reserve by blast
  note eff = reserve.step_effect [OF st]
  have loop: "utxo_loop (reserve_step demo_env 266 ?rkey) [demo_acc 68100] 0 (rd_over b) = Inr ([demo_utxo], 100000, s1)"
    by (simp add: st) (simp add: demo_utxo_def checked_add_def)
  have keep: "s1 266 = (rd_over b) 266" "s1 68106 = (rd_over b) 68106" using eff(6) by simp_all
  have chk: "check_reservation 100000 1000 [100000] 100000 = Inr ()"
    by (simp add: check_reservation_def checked_sub_def checked_add_def MAX_MINER_FEE_SATS_def saturating_sub_def Let_def min_def)
  have rem: "\<exists>p. remove_utxos [100000] demo_pool = Inr p"
    by (simp add: remove_utxo_def checked_sub_def utxo_count_def demo_pool_def)
  then obtain p where p: "remove_utxos [100000] demo_pool = Inr p" ..
  have addr: "redemption_address demo_env 266 demo_request = 68106"
    by (simp add: redemption_address_def demo_pda demo_seeds)
  have len: "length (adata ((rd_over b) 266)) = 332" "length (adata ((rd_over b) 68106)) = 178"
    by (simp_all add: rd_over_def blank_store_def demo_account_def psl.length_encode rrl.length_encode POOL_STATE_LEN_def REDEMPTION_REQUEST_LEN_def)
  obtain s2 where s2: "write_front 266 (encode_pool_state p) s1 = Inr s2"
    by (simp add: write_front_def put_front_def psl.length_encode keep len POOL_STATE_LEN_def)
  have "ps_discriminator p = POOL_STATE_DISCRIMINATOR"
    using remove_utxos_ok [OF p] same_but_utxos_disc [of demo_pool p] by (simp add: demo_pool_def POOL_STATE_DISCRIMINATOR_def)
  note W = write_pool [OF s2 this]
  have s2r: "s2 68106 = (rd_over b) 68106" using W(2) [of 68106] keep by simp
  have req: "rr_get_status demo_request = RPending" "rr_amount_sats demo_request = 100000" "rr_service_fee demo_request = 1000"
    "rr_requester demo_request = 88" "\<not> is_paused demo_pool"
    by (simp_all add: demo_request_def redemption_init_def decode_redemption_request_def rr_get_status_def byte_at_def
        demo_pool_def decode_pool_state_def is_paused_def)
  have amt: "ur_amount_sats demo_utxo = 100000" by (simp add: demo_utxo_def)
  have g: "validate_program_owner demo_env (rd_over b) (demo_acc 266) = Inr ()"
    "validate_program_owner demo_env (rd_over b) (demo_acc 68106) = Inr ()"
    "validate_redemption_pda demo_env (rd_over b) (demo_acc 68106) (demo_acc 266) = Inr ()"
    "validate_account_writable (demo_acc k) = Inr ()" "redemption_driver_is_allowed 88 auth 88 = Inr ()" for k auth
    using demo_pool_ok demo_at(2) addr demo_owner [of 266] demo_owner [of 68106]
    by (simp_all only: run_simps demo_acc_simps) simp_all
  obtain r3 where r3: "start_processing demo_env 100000 1 (inputs_commitment demo_env (canonical_sort [reserved_of demo_utxo])) demo_request = Inr r3"
    by (simp add: start_processing_def req)
  have w: "\<exists>s'. write_front 68106 (encode_redemption_request r3) s2 = Inr s'"
    by (simp add: write_front_def put_front_def rrl.length_encode s2r len REDEMPTION_REQUEST_LEN_def)
  have accs: "take 1 (drop 3 (map demo_acc [266, 68106, 88, 68100])) = [demo_acc 68100]" by simp
  show ?thesis
    unfolding process_mark_processing_def mark_accounts_def Let_def
    using w by (simp add: g demo_at keep s2 s2r req amt MAX_UTXOS_PER_MARK_def loop [unfolded One_nat_def] chk p r3 [unfolded One_nat_def]
        del: utxo_loop.simps remove_utxos.simps)
qed

text \<open>An account that can be read can be overwritten.\<close>

context account_layout
begin

lemma write_ok:
  "layout_from_bytes LEN DISC decode (adata (s k)) = Inr x \<Longrightarrow> \<exists>s'. write_front k (encode y) s = Inr s'"
  by (auto simp: layout_from_bytes_def write_front_def put_front_def length_encode split: if_splits)

end

lemma append_walk_total: "poseidon_spec E p \<Longrightarrow> \<exists>f' r. append_walk E zs l f i c = Inr (f', r)"
  by (induction zs arbitrary: l f i c) (simp_all add: poseidon2_total)

lemma insert_leaf_total:
  assumes "poseidon_spec E p" and "ct_next_index t < MAX_LEAVES"
  shows "\<exists>i t'. insert_leaf E c t = Inr (i, t')"
proof -
  obtain f' r where "append_walk E (take TREE_DEPTH ZERO_HASHES) 0 (ct_frontier t) (unat (ct_next_index t)) c = Inr (f', r)"
    using append_walk_total [OF assms(1)] by blast
  with assms(2) show ?thesis by (simp add: insert_leaf_def append_leaf_def Let_def not_le)
qed

definition late_env :: env where
  "late_env = demo_env\<lparr>clock_slot := 300000, clock_unix_timestamp := 0\<rparr>"

lemma late_env_simps [simp]:
  "program_id late_env = program_id demo_env" "find_program_address late_env = find_program_address demo_env"
  "redemption_reservation_key late_env = redemption_reservation_key demo_env"
  "redemption_address late_env = redemption_address demo_env" "pool_pda_ok late_env = pool_pda_ok demo_env"
  by (simp_all add: late_env_def fun_eq_iff find_program_address_def redemption_reservation_key_def redemption_address_def
      pool_pda_ok_def)

lemma late_poseidon: "poseidon_spec late_env (\<lambda>a b. a + 2 * b + 1)" "\<exists>c. compute_commitment late_env a b x = Inr c"
  by (simp_all add: poseidon_spec_def late_env_def demo_env_def compute_commitment_def poseidon3_hash_def)

lemma demo_cancel:
  assumes mark: "process_mark_processing demo_env mark_accounts [1] rd_store = Inr s1"
  shows "\<exists>s2. process_cancel_redemption late_env cancel_accounts (replicate 32 0 @ [1]) s1 = Inr s2"
proof -
  let ?rkey = "redemption_reservation_key demo_env 68106"
  from mark_effect [OF mark] obtain pool red us p1 where M: "marked demo_env 266 68106 [demo_acc 68100] pool red us p1 rd_store s1"
    by (auto simp: mark_accounts_def)
  have pr: "pool = demo_pool" "red = demo_request" using M demo_at(1,2) by (simp_all add: marked_def)
  have us: "us = [demo_utxo]" using M demo_at(3) by (auto simp: marked_def list_all2_Cons1)
  have at1: "pool_at s1 266 = Inr p1" "request_at s1 68106 = Inr (processing_request demo_env [demo_utxo] demo_request)"
    "record_at s1 68100 = Inr (reserve_record ?rkey demo_utxo)" and same: "same_but_utxos demo_pool p1"
    and own: "\<And>k. owner (s1 k) = owner (rd_store k)"
    using M by (auto simp: marked_def us pr)
  have far: "s1 68111 = rd_store 68111" "s1 68108 = rd_store 68108" using M by (simp_all add: marked_def)
  have lam: "\<And>k. lamports (s1 k) = lamports (rd_store k)" using M by (simp add: marked_def)
  have p1: "ps_bump p1 = 255" "ps_zkbtc_mint p1 = 1" "\<not> is_paused p1" "ps_active_tree_index p1 = 0"
    using same by (auto simp: same_but_utxos_def set_utxo_count_def demo_pool_def decode_pool_state_def is_paused_def byte_at_def bslice_def)
  have cnt: "unat (ps_total_btc_held p1) = 0" "unat (utxo_count p1) = 0"
    using M by (simp_all add: marked_def us pr total_sats_def) (simp_all add: demo_pool_def demo_utxo_def utxo_count_def)
  have owners: "owner (s1 k) = program_id demo_env" if "k \<in> {266, 68106, 68100, 68111, 68108}" for k
    using that own demo_owner by simp
  have pda: "pool_pda_ok demo_env s1 266"
    using at1(1) p1 by (simp add: pool_pda_ok_def owners demo_pda demo_seeds)
  let ?u = "reserve_record ?rkey demo_utxo"
  have "adata (s1 68100) \<noteq> []" "adata (s1 68100) ! 0 = 9"
    using at1(3) first_byte_at(4) [of s1 68100 ?u]
    by (auto simp: record_at_def utxo_record_from_bytes_def layout_from_bytes_def UTXO_RECORD_LEN_def)
  then have "load_utxo late_env (demo_acc 68100) s1 = Inr ?u"
    by (simp add: load_utxo_def validate_program_owner_def validate_account_writable_def owners at1(3) UTXO_RECORD_DISCRIMINATOR_def)
  moreover obtain s2 where "write_front 68100 (encode_utxo_record (release_record ?u)) s1 = Inr s2"
    using url.write_ok at1(3) unfolding record_at_def utxo_record_from_bytes_def by blast
  ultimately have st: "release_step late_env ?rkey (demo_acc 68100) s1 = Inr (?u, s2)"
    by (simp add: release_step_def put_record_def) (simp add: reserve_record_def)
  note eff = release.step_effect [OF st]
  have amt: "ur_amount_sats ?u = 100000" by (simp add: reserve_record_def ur_set_status_def demo_utxo_def)
  have rel: "release_utxos late_env True ?rkey cancel_accounts 1 s1 = Inr (100000, s2)"
    by (simp add: release_utxos_def cancel_accounts_def st amt checked_add_def)
  obtain c where c: "compute_commitment late_env 0 5 100000 = Inr c" using late_poseidon(2) by blast
  obtain i t' where t': "insert_leaf late_env c tree_init = Inr (i, t')"
    using insert_leaf_total [OF late_poseidon(1), of tree_init c] by (auto simp: tree_init_def MAX_LEAVES_def)
  have tv: "tree_valid tree_init" by (simp add: tree_valid_def tree_init_def)
  have s2t: "s2 68111 = rd_store 68111" "s2 68108 = rd_store 68108" "s2 266 = s1 266" "s2 68106 = s1 68106"
    using eff(6) far by simp_all
  have "length (adata (s2 68111)) = TREE_LEN" by (simp add: s2t rd_over_def blank_store_def demo_account_def ctl.length_encode tv)
  then obtain s3 where "write_front 68111 (encode_commitment_tree t') s2 = Inr s3"
    using insert_leaf_valid [OF t' tv] by (simp add: write_front_def put_front_def ctl.length_encode)
  with t' have rem: "remint late_env 68111 c s2 = Inr s3" by (simp add: remint_def s2t demo_at(5))
  note Rm = remint_ok(2,4) [OF rem]
  have "token_at s3 68108 = Inr demo_token" by (simp add: Rm s2t demo_at)
  note tk = this
  obtain tc' where tc': "tc_add_shielded 100000 demo_token = Inr tc'"
    by (simp add: tc_add_shielded_def checked_add_def demo_token_def decode_token_config_def bslice_def)
  obtain s4 where s4: "write_front 68108 (encode_token_config tc') s3 = Inr s4"
    using tcl.write_ok tk unfolding token_config_from_bytes_def by blast
  have "tc_discriminator tc' = TOKEN_CONFIG_DISCRIMINATOR"
    by (simp add: tc_add_shielded_ok(1) [OF tc'] demo_token_def TOKEN_CONFIG_DISCRIMINATOR_def)
  note W4 = write_token [OF s4 this]
  have "s4 266 = s1 266" "s4 68106 = s1 68106" using W4(2) Rm s2t by simp_all
  then have pool4: "pool_at s4 266 = Inr p1" by (simp add: at1)
  obtain p4 where p4: "settle_cancel late_env (tc_total_shielded tc') 100000 1 p1 = Inr p4"
    using cnt by (simp add: settle_cancel_def add_utxos_def checked_add_def utxo_count_def)
  obtain s5 where s5: "write_front 266 (encode_pool_state p4) s4 = Inr s5"
    using psl.write_ok pool4 unfolding pool_state_from_bytes_def by blast
  have "ps_discriminator p4 = POOL_STATE_DISCRIMINATOR"
    using settle_cancel_ok(2) [OF p4] discriminator_at(1) [of s1 266 p1] at1(1) by simp
  note W5 = write_pool [OF s5 this]
  have "lamports (s5 k) = lamports (rd_store k)" for k using W5(4) W4(4) Rm(2) eff(5) lam by simp
  then have cl: "\<exists>s6. close_account_securely 68106 88 s5 = Inr s6"
    by (simp add: close_account_securely_def Let_def rd_over_def blank_store_def demo_account_def checked_add_def)
  let ?red = "processing_request demo_env [demo_utxo] demo_request"
  have red: "rr_requester ?red = 88" "rr_token_id ?red = 5" "rr_amount_sats ?red = 100000" "unat (rr_reserved_count ?red) = 1"
    "\<not> is_signing_approved ?red" "rr_get_status ?red = RProcessing" "rr_processing_slot ?red = 100"
    by (simp_all add: processing_request_def demo_request_def redemption_init_def decode_redemption_request_def
        is_signing_approved_def rr_get_status_def byte_at_def demo_env_def)
  have al: "cancel_allowed late_env 88 ?red = Inr True"
    by (simp add: cancel_allowed_iff red late_env_def)
  have addr: "redemption_address demo_env 266 ?red = 68106" by (simp add: redemption_address_def demo_pda demo_seeds)
  have tk1: "token_at s1 68108 = Inr demo_token" by (simp add: far demo_at)
  have tok: "check_cancel_token late_env (demo_acc 68108) (demo_acc 266) 5 s1 = Inr ()"
    by (simp add: check_cancel_token_def validate_program_owner_def validate_account_writable_def owners tk1 demo_pda
        demo_seeds) (simp add: demo_token_def)
  have g: "validate_program_owner late_env s1 (demo_acc 266) = Inr ()" "validate_program_owner late_env s1 (demo_acc 68106) = Inr ()"
    "validate_redemption_pda late_env s1 (demo_acc 68106) (demo_acc 266) = Inr ()"
    "validate_program_owner late_env s1 (demo_acc 68111) = Inr ()" "validate_account_writable (demo_acc k) = Inr ()"
    "validate_active_tree_pda late_env s1 (demo_acc 68111) (demo_acc 266) 0 = Inr ()" for k
    using pda at1(2) addr owners
    by (simp_all add: validate_program_owner_iff validate_account_writable_iff validate_redemption_pda_iff
        validate_active_tree_pda_iff demo_pda demo_seeds)
  have d: "cancel_data_from_bytes (replicate 32 0 @ [1]) = Inr (0, 1)"
    by (simp add: cancel_data_from_bytes_def Let_def MAX_UTXOS_PER_CANCEL_def nth_append)
  show ?thesis
    unfolding process_cancel_redemption_def d bindE_Inr prod.case
    using cl by (simp add: cancel_accounts_def Let_def g p1 at1 al tok red rel [unfolded cancel_accounts_def One_nat_def list.map] c rem tk tc' s4 pool4
        p4 [unfolded One_nat_def] s5)
qed

theorem mark_processing_reserves_witness:
  "\<exists>s1 pool1. process_mark_processing demo_env mark_accounts [1] rd_store = Inr s1 \<and>
     pool_at s1 266 = Inr pool1 \<and> ps_total_btc_held pool1 = 0"
proof -
  obtain s1 where s1: "process_mark_processing demo_env mark_accounts [1] rd_store = Inr s1" using demo_mark by blast
  from mark_processing_reserves [OF s1] obtain pool red us pool1 where
    M: "marked demo_env 266 68106 [demo_acc 68100] pool red us pool1 rd_store s1" by (auto simp: mark_accounts_def)
  have "pool = demo_pool" "us = [demo_utxo]" using M demo_at(1,3) by (auto simp: marked_def list_all2_Cons1)
  with M have "unat (ps_total_btc_held pool1) = 0" "pool_at s1 266 = Inr pool1"
    by (simp_all add: marked_def total_sats_def) (simp add: demo_pool_def demo_utxo_def)
  with s1 show ?thesis by (auto simp: unat_eq_zero)
qed


theorem cancel_redemption_refused_witness:
  "\<exists>s1 e. process_mark_processing demo_env mark_accounts [1] rd_store = Inr s1 \<and>
     process_cancel_redemption demo_env cancel_accounts (replicate 32 0 @ [1]) s1 = Inl e"
proof -
  obtain s1 where s1: "process_mark_processing demo_env mark_accounts [1] rd_store = Inr s1" using demo_mark by blast
  from mark_effect [OF s1] obtain us where
    r: "request_at s1 (key (cancel_accounts ! 2)) = Inr (processing_request demo_env us demo_request)"
    using demo_at(2) by (auto simp: marked_def mark_accounts_def cancel_accounts_def)
  have "\<exists>e. process_cancel_redemption demo_env cancel_accounts (replicate 32 0 @ [1]) s1 = Inl e"
    by (rule cancel_redemption_refused [where s = s1 and accounts = cancel_accounts and marked_at = 100 and elapsed = 0, OF r])
      (simp add: processing_request_def rr_get_status_def demo_env_def)
  with s1 show ?thesis by blast
qed

theorem mark_then_cancel_restores_pool_witness:
  "\<exists>s1 s2 pool2. process_mark_processing demo_env mark_accounts [1] rd_store = Inr s1 \<and>
     process_cancel_redemption late_env cancel_accounts (replicate 32 0 @ [1]) s1 = Inr s2 \<and>
     pool_at s2 266 = Inr pool2 \<and> ps_total_btc_held pool2 = 100000"
proof -
  obtain s1 where s1: "process_mark_processing demo_env mark_accounts [1] rd_store = Inr s1" using demo_mark by blast
  obtain s2 where s2: "process_cancel_redemption late_env cancel_accounts (replicate 32 0 @ [1]) s1 = Inr s2"
    using demo_cancel [OF s1] by blast
  from mark_then_cancel_restores_pool [OF s1 s2 [unfolded late_env_def]] demo_at(1)
  obtain pool2 where "pool_at s2 266 = Inr pool2" "ps_total_btc_held pool2 = ps_total_btc_held demo_pool"
    by (auto simp: mark_accounts_def cancel_accounts_def)
  with s1 s2 show ?thesis by (auto simp: demo_pool_def)
qed

end
