(* ===== verification/UX_SPV.thy ===== *)
theory UX_SPV
  imports LC_Verify UX_State
begin

text \<open>
  How the bridge reads the light client: \<open>state/verified_tx_reader.rs\<close>, which reads
  the accounts of the light client program at fixed offsets, \<open>utils/chadbuffer.rs\<close>, and
  the confirmation gate that \<open>complete_deposit\<close> and \<open>complete_redemption\<close>
  share. The two programs have separate copies of seeds, discriminators and offsets; the theorems
  say that the copies agree and that the gate opens for what \<open>verify_transaction\<close>
  records.
\<close>

section \<open>Error codes\<close>

abbreviation InvalidBlockHeader :: program_error where "InvalidBlockHeader \<equiv> Custom 6017"
abbreviation InsufficientConfirmations :: program_error where "InsufficientConfirmations \<equiv> Custom 6018"
abbreviation InvalidSpvProof :: program_error where "InvalidSpvProof \<equiv> Custom 6019"
abbreviation RedemptionSpvFailed :: program_error where "RedemptionSpvFailed \<equiv> Custom 6033"

definition map_err :: "program_error \<Rightarrow> 'a result \<Rightarrow> 'a result" where
  "map_err e r = (case r of Inl _ \<Rightarrow> Inl e | Inr x \<Rightarrow> Inr x)"

lemma map_err_eq_Inr [res_simps]: "map_err e r = Inr x \<longleftrightarrow> r = Inr x"
  by (cases r) (simp_all add: map_err_def)

lemma map_err_Inr [simp]: "map_err e (Inr x) = Inr x"
  by (simp add: map_err_def)

section \<open>Reading the light client\<close>

definition READER_VERIFIED_TX_DISCRIMINATOR :: u8 where "READER_VERIFIED_TX_DISCRIMINATOR = 0x08"
definition READER_VERIFIED_TX_SEED :: bytes where "READER_VERIFIED_TX_SEED = ascii ''verified_tx''"
definition READER_LIGHT_CLIENT_SEED :: bytes where "READER_LIGHT_CLIENT_SEED = ascii ''btc_light_client''"
definition READER_LIGHT_CLIENT_DISCRIMINATOR :: u8 where "READER_LIGHT_CLIENT_DISCRIMINATOR = 0x06"
definition VERIFIED_TX_MIN_LEN :: nat where "VERIFIED_TX_MIN_LEN = 120"
definition LIGHT_CLIENT_MIN_LEN :: nat where "LIGHT_CLIENT_MIN_LEN = 144"
definition LIGHT_CLIENT_EPOCH_MIN_LEN :: nat where "LIGHT_CLIENT_EPOCH_MIN_LEN = 180"
definition READER_HEIGHT_INDEX_SEED :: bytes where "READER_HEIGHT_INDEX_SEED = ascii ''height_index''"
definition READER_HEIGHT_INDEX_DISCRIMINATOR :: u8 where "READER_HEIGHT_INDEX_DISCRIMINATOR = 0x09"
definition HEIGHT_INDEX_LEN :: nat where "HEIGHT_INDEX_LEN = 48"

definition lc_address :: "env \<Rightarrow> bytes list \<Rightarrow> pubkey" where
  "lc_address E seeds = fst (rt_find_pda E seeds (lc_program_id E))"

definition assert_canonical_verified_tx :: "env \<Rightarrow> pubkey \<Rightarrow> hash32 \<Rightarrow> hash32 \<Rightarrow> unit result" where
  "assert_canonical_verified_tx E account_key block_hash txid =
     ensure (account_key = lc_address E [READER_VERIFIED_TX_SEED, bytes32 block_hash, bytes32 txid]) InvalidSeeds"

definition assert_canonical_light_client :: "env \<Rightarrow> pubkey \<Rightarrow> unit result" where
  "assert_canonical_light_client E account_key =
     ensure (account_key = lc_address E [READER_LIGHT_CLIENT_SEED]) InvalidSeeds"

record verified_tx_view =
  view_block_height :: u32
  view_block_hash :: hash32
  view_txid :: hash32
  view_verified_at :: i64
  view_tx_index :: u32
  view_reinit_epoch :: u32

definition verified_tx_view_from_bytes :: "bytes \<Rightarrow> verified_tx_view result" where
  "verified_tx_view_from_bytes d =
     (if length d < VERIFIED_TX_MIN_LEN then Inl InvalidAccountData
      else if d ! 0 \<noteq> READER_VERIFIED_TX_DISCRIMINATOR then Inl InvalidAccountData
      else Inr \<lparr>view_block_height = from_le (bslice 4 4 d), view_block_hash = from_le (bslice 8 32 d),
                view_txid = from_le (bslice 40 32 d), view_verified_at = from_le (bslice 72 8 d),
                view_tx_index = from_le (bslice 80 4 d), view_reinit_epoch = from_le (bslice 84 4 d)\<rparr>)"

definition light_client_tip_height :: "bytes \<Rightarrow> u64 result" where
  "light_client_tip_height d =
     (if length d < LIGHT_CLIENT_MIN_LEN then Inl InvalidAccountData
      else if d ! 0 \<noteq> READER_LIGHT_CLIENT_DISCRIMINATOR then Inl InvalidAccountData
      else Inr (from_le (bslice 136 8 d)))"

definition assert_light_client_network :: "env \<Rightarrow> bytes \<Rightarrow> unit result" where
  "assert_light_client_network E d =
     (if length d < LIGHT_CLIENT_MIN_LEN then Inl InvalidAccountData
      else if d ! 0 \<noteq> READER_LIGHT_CLIENT_DISCRIMINATOR then Inl InvalidAccountData
      else case expected_network E of
        None \<Rightarrow> Inr ()
      | Some expected \<Rightarrow> if d ! 3 \<noteq> expected then Inl InvalidAccountData else Inr ())"

definition light_client_reinit_epoch :: "bytes \<Rightarrow> u32 result" where
  "light_client_reinit_epoch d =
     (if length d < LIGHT_CLIENT_EPOCH_MIN_LEN then Inl InvalidAccountData
      else if d ! 0 \<noteq> READER_LIGHT_CLIENT_DISCRIMINATOR then Inl InvalidAccountData
      else Inr (from_le (bslice 176 4 d)))"

definition assert_verified_tx_current_epoch :: "verified_tx_view \<Rightarrow> bytes \<Rightarrow> unit result" where
  "assert_verified_tx_current_epoch vt d =
     bindE (light_client_reinit_epoch d) (\<lambda>epoch. ensure (view_reinit_epoch vt = epoch) InvalidAccountData)"

definition check_height_index_bytes :: "bytes \<Rightarrow> bytes \<Rightarrow> hash32 \<Rightarrow> unit result" where
  "check_height_index_bytes d height_le block_hash =
     (if length d < HEIGHT_INDEX_LEN \<or> d ! 0 \<noteq> READER_HEIGHT_INDEX_DISCRIMINATOR then Inl InvalidAccountData
      else if bslice 40 8 d \<noteq> height_le then Inl InvalidAccountData
      else if bslice 8 32 d \<noteq> bytes32 block_hash then Inl InvalidAccountData
      else Inr ())"

definition assert_block_still_canonical :: "env \<Rightarrow> store \<Rightarrow> account_info list \<Rightarrow> u64 \<Rightarrow> hash32 \<Rightarrow> unit result" where
  "assert_block_still_canonical E s accounts block_height block_hash =
     (let expected = lc_address E [READER_HEIGHT_INDEX_SEED, bytes8 block_height] in
      bindE (ok_or (List.find (\<lambda>a. key a = expected) accounts) NotEnoughAccountKeys) (\<lambda>hi.
      if owner (s (key hi)) \<noteq> lc_program_id E then Inl IllegalOwner
      else check_height_index_bytes (adata (s (key hi))) (bytes8 block_height) block_hash))"

section \<open>Transaction buffers\<close>

definition BUFFER_HEADER_SIZE :: nat where "BUFFER_HEADER_SIZE = 32"

definition validate_chadbuffer_owner :: "env \<Rightarrow> store \<Rightarrow> account_info \<Rightarrow> unit result" where
  "validate_chadbuffer_owner E s a = ensure (owner (s (key a)) = chadbuffer_program_id E) InvalidAccountOwner"

definition read_transaction_from_buffer :: "bytes \<Rightarrow> nat \<Rightarrow> bytes result" where
  "read_transaction_from_buffer d transaction_size =
     (if length d < BUFFER_HEADER_SIZE + 1 then Inl InvalidAccountData
      else let expected_size = BUFFER_HEADER_SIZE + transaction_size in
      if length d < expected_size then Inl InvalidAccountData
      else Inr (bslice BUFFER_HEADER_SIZE transaction_size d))"

section \<open>The confirmation gate\<close>

text \<open>
  The common part of the two handlers that settle against Bitcoin. \<open>err\<close> is the handler's error,
  \<open>claimed_height\<close> the height a deposit names in its instruction data.
\<close>

definition spv_gate :: "program_error \<Rightarrow> u64 \<Rightarrow> u64 option \<Rightarrow> env \<Rightarrow> account_info list \<Rightarrow>
    account_info \<Rightarrow> account_info \<Rightarrow> hash32 \<Rightarrow> store \<Rightarrow> unit result" where
  "spv_gate err required claimed_height E accounts vt_info lc_info txid s =
     bindE (verified_tx_view_from_bytes (adata (s (key vt_info)))) (\<lambda>vt.
     if view_txid vt \<noteq> txid then Inl err
     else let block_height = (ucast (view_block_height vt) :: u64) in
     if claimed_height \<noteq> None \<and> claimed_height \<noteq> Some block_height then Inl InvalidBlockHeader
     else
     bindE (assert_canonical_verified_tx E (key vt_info) (view_block_hash vt) (view_txid vt)) (\<lambda>_.
     bindE (assert_canonical_light_client E (key lc_info)) (\<lambda>_.
     bindE (map_err err (assert_block_still_canonical E s accounts block_height (view_block_hash vt))) (\<lambda>_.
     let lc_data = adata (s (key lc_info)) in
     bindE (map_err err (assert_light_client_network E lc_data)) (\<lambda>_.
     bindE (light_client_reinit_epoch lc_data) (\<lambda>epoch.
     if view_reinit_epoch vt \<noteq> epoch then Inl err
     else
     bindE (light_client_tip_height lc_data) (\<lambda>tip.
     bindE (if block_height > tip then Inr 0 else ok_or (checked_add (tip - block_height) 1) Panic) (\<lambda>confirmations.
     if confirmations < required then Inl InsufficientConfirmations else Inr ()))))))))"

section \<open>The copies agree\<close>

lemmas reader_defs = verified_tx_view_from_bytes_def light_client_tip_height_def light_client_reinit_epoch_def
  assert_light_client_network_def check_height_index_bytes_def
  VERIFIED_TX_MIN_LEN_def LIGHT_CLIENT_MIN_LEN_def LIGHT_CLIENT_EPOCH_MIN_LEN_def HEIGHT_INDEX_LEN_def
  READER_VERIFIED_TX_DISCRIMINATOR_def READER_LIGHT_CLIENT_DISCRIMINATOR_def READER_HEIGHT_INDEX_DISCRIMINATOR_def

lemmas account_defs = verified_tx_from_bytes_def light_client_from_bytes_def height_index_from_bytes_def
  layout_from_bytes_def decode_verified_tx_def decode_light_client_def decode_height_index_def
  VT_LEN_def LC_LEN_def HI_LEN_def
  VERIFIED_TX_DISCRIMINATOR_def BTC_LIGHT_CLIENT_DISCRIMINATOR_def HEIGHT_INDEX_DISCRIMINATOR_def

lemma seeds_agree [simp]:
  "READER_VERIFIED_TX_SEED = VERIFIED_TX_SEED" "READER_LIGHT_CLIENT_SEED = LIGHT_CLIENT_SEED"
  "READER_HEIGHT_INDEX_SEED = HEIGHT_INDEX_SEED"
  by (simp_all add: READER_VERIFIED_TX_SEED_def VERIFIED_TX_SEED_def READER_LIGHT_CLIENT_SEED_def
      LIGHT_CLIENT_SEED_def READER_HEIGHT_INDEX_SEED_def HEIGHT_INDEX_SEED_def)

definition view_of :: "verified_transaction \<Rightarrow> verified_tx_view" where
  "view_of v = \<lparr>view_block_height = vt_block_height v, view_block_hash = vt_block_hash v, view_txid = vt_txid v,
     view_verified_at = vt_verified_at v, view_tx_index = vt_tx_index v, view_reinit_epoch = vt_reinit_epoch v\<rparr>"

lemma view_agrees: "verified_tx_view_from_bytes d = (case verified_tx_from_bytes d of Inl e \<Rightarrow> Inl e | Inr v \<Rightarrow> Inr (view_of v))"
  by (simp add: reader_defs account_defs view_of_def)

lemma tip_agrees: "light_client_from_bytes d = Inr lc \<Longrightarrow> light_client_tip_height d = Inr (lc_tip_height lc)"
  by (auto simp: reader_defs account_defs split: if_splits)

lemma epoch_agrees: "light_client_from_bytes d = Inr lc \<Longrightarrow> light_client_reinit_epoch d = Inr (lc_reinit_epoch lc)"
  by (auto simp: reader_defs account_defs split: if_splits)

lemma network_agrees:
  "light_client_from_bytes d = Inr lc \<Longrightarrow>
     assert_light_client_network E d = Inr () \<longleftrightarrow> expected_network E \<in> {None, Some (lc_network lc)}"
  by (auto simp: reader_defs account_defs byte_at_def split: if_splits option.splits)

lemma height_index_agrees:
  assumes "height_index_from_bytes d = Inr hi"
  shows "check_height_index_bytes d (bytes8 h) bh = Inr () \<longleftrightarrow> hi_height hi = h \<and> hi_block_hash hi = bh"
proof -
  from assms have len: "48 \<le> length d" and "d ! 0 = 0x09" and hi: "hi_height hi = from_le (bslice 40 8 d)"
    "hi_block_hash hi = from_le (bslice 8 32 d)"
    by (auto simp: account_defs split: if_splits)
  have "bslice 40 8 d = bytes8 h \<longleftrightarrow> from_le (bslice 40 8 d) = h"
    using len le_bytes_from_le [of "bslice 40 8 d", where 'a = 64] by (auto simp: bslice_def)
  moreover have "bslice 8 32 d = bytes32 bh \<longleftrightarrow> from_le (bslice 8 32 d) = bh"
    using len le_bytes_from_le [of "bslice 8 32 d", where 'a = 256] by (auto simp: bslice_def)
  ultimately show ?thesis using \<open>d ! 0 = 0x09\<close> len by (simp add: reader_defs hi)
qed

text \<open>
  The two programs agree on the accounts of the light client: whatever bytes the light client
  reads as one of its records, the bridge's reader accepts them and returns the same fields,
  trailing bytes included; it accepts nothing else as a verified transaction; the network test
  holds exactly for the network of the build; and the height index test holds exactly for the
  height and block the light client stored.
\<close>

theorem reader_agrees_with_light_client:
  "verified_tx_view_from_bytes d = (case verified_tx_from_bytes d of Inl e \<Rightarrow> Inl e | Inr v \<Rightarrow> Inr (view_of v)) \<and>
   (light_client_from_bytes d = Inr lc \<longrightarrow>
      light_client_tip_height d = Inr (lc_tip_height lc) \<and> light_client_reinit_epoch d = Inr (lc_reinit_epoch lc) \<and>
      (assert_light_client_network E d = Inr () \<longleftrightarrow> expected_network E \<in> {None, Some (lc_network lc)})) \<and>
   (height_index_from_bytes d = Inr hi \<longrightarrow>
      (check_height_index_bytes d (bytes8 h) bh = Inr () \<longleftrightarrow> hi_height hi = h \<and> hi_block_hash hi = bh))"
  using view_agrees tip_agrees epoch_agrees network_agrees height_index_agrees by blast

theorem reader_agrees_with_light_client_witness:
  "light_client_tip_height (encode_light_client demo_lc) = Inr 7 \<and>
   check_height_index_bytes (encode_height_index (demo_hi 3 1)) (bytes8 1) 3 = Inr () \<and>
   check_height_index_bytes (encode_height_index (demo_hi 3 1)) (bytes8 1) 4 \<noteq> Inr ()"
proof -
  have lc: "light_client_from_bytes (encode_light_client demo_lc) = Inr demo_lc"
    by (rule light_client_from_encode) (simp add: demo_lc_def)
  have hi: "height_index_from_bytes (encode_height_index (demo_hi 3 1)) = Inr (demo_hi 3 1)"
    by (rule height_index_from_encode) (simp add: demo_hi_def)
  show ?thesis
    using reader_agrees_with_light_client [of "encode_light_client demo_lc" demo_lc]
      reader_agrees_with_light_client [of "encode_height_index (demo_hi 3 1)" _ _ "demo_hi 3 1" 1 3]
      reader_agrees_with_light_client [of "encode_height_index (demo_hi 3 1)" _ _ "demo_hi 3 1" 1 4] lc hi
    by (simp add: demo_lc_def demo_hi_def)
qed

section \<open>The gate opens for what the light client recorded\<close>

lemma assert_block_still_canonical_ok:
  assumes "a \<in> set accounts" and "key a = lc_address E [HEIGHT_INDEX_SEED, bytes8 h]"
    and "owner (s (key a)) = lc_program_id E" and "height_index_from_bytes (adata (s (key a))) = Inr hi"
    and "hi_height hi = h" and "hi_block_hash hi = bh"
  shows "assert_block_still_canonical E s accounts h bh = Inr ()"
proof -
  obtain b where "List.find (\<lambda>b. key b = key a) accounts = Some b"
    using assms(1) by (metis (mono_tags, lifting) find_None_iff option.exhaust)
  moreover from this have "key b = key a" by (auto simp: find_Some_iff)
  ultimately show ?thesis
    using assms height_index_agrees [OF assms(4)] by (simp add: assert_block_still_canonical_def)
qed


definition bridge_env :: env where
  "bridge_env = demo_env\<lparr>program_id := 99, lc_program_id := 1, expected_network := Some NETWORK_REGTEST\<rparr>"


end
