(* ===== verification/UX_Secp.thy ===== *)
theory UX_Secp
  imports UX_Bitcoin UX_Crypto LC_U256_Arith
begin

text \<open>
  Taproot output keys (\<open>utils/secp256k1.rs\<close>) and the deposit address derivation of
  \<open>instructions/complete_deposit.rs\<close>. The point addition is done by the
  \<open>secp256k1_recover\<close> syscall, a parameter; what the program computes itself is the
  message hash \<open>- (tweak * r) mod n\<close>, by double-and-add on four limbs. The theorem says
  that this is the exact residue. The comparison and the subtraction are the same loops over
  limbs as those of the light client.
\<close>

abbreviation TaprootVerificationFailed :: program_error where "TaprootVerificationFailed \<equiv> Custom 6078"

section \<open>Modular arithmetic\<close>

definition SECP256K1_N :: bytes where
  "SECP256K1_N =
     [0xFF, 0xFF, 0xFF, 0xFF, 0xFF, 0xFF, 0xFF, 0xFF, 0xFF, 0xFF, 0xFF, 0xFF, 0xFF, 0xFF, 0xFF, 0xFE,
      0xBA, 0xAE, 0xDC, 0xE6, 0xAF, 0x48, 0xA0, 0x3B, 0xBF, 0xD2, 0x5E, 0x8C, 0xD0, 0x36, 0x41, 0x41]"

definition u256_from_be :: "bytes \<Rightarrow> u64 list" where
  "u256_from_be b =
     [from_le (rev (bslice 24 8 b)), from_le (rev (bslice 16 8 b)),
      from_le (rev (bslice 8 8 b)), from_le (rev (bslice 0 8 b))]"

definition u256_to_be :: "u64 list \<Rightarrow> bytes" where
  "u256_to_be a = rev (bytes8 (a ! 3)) @ rev (bytes8 (a ! 2)) @ rev (bytes8 (a ! 1)) @ rev (bytes8 (a ! 0))"

fun add_carry_loop :: "u64 \<Rightarrow> u64 list \<Rightarrow> u64 list \<Rightarrow> u64 list \<times> bool" where
  "add_carry_loop carry (a # as) (b # bs) =
     (let (s1, c1) = overflowing_add a b;
          (s2, c2) = overflowing_add s1 carry;
          (rest, overflow) = add_carry_loop (of_bool c1 + of_bool c2) as bs
      in (s2 # rest, overflow))"
| "add_carry_loop carry _ _ = ([], carry \<noteq> 0)"

definition u256_add_carry :: "u64 list \<Rightarrow> u64 list \<Rightarrow> u64 list \<times> bool" where
  "u256_add_carry a b = add_carry_loop 0 a b"

definition secp_u256_gte :: "u64 list \<Rightarrow> u64 list \<Rightarrow> bool" where
  "secp_u256_gte a b = gt_from_top True (rev a) (rev b)"

definition secp_u256_sub :: "u64 list \<Rightarrow> u64 list \<Rightarrow> u64 list" where
  "secp_u256_sub a b = u256_sub_loop 0 a b"

definition u256_addmod :: "u64 list \<Rightarrow> u64 list \<Rightarrow> u64 list \<Rightarrow> u64 list" where
  "u256_addmod a b n =
     (let (sum, overflow) = u256_add_carry a b in
      if overflow \<or> secp_u256_gte sum n then secp_u256_sub sum n else sum)"

text \<open>One step of the double loop per bit, from the top bit of limb 3 down to bit 0 of limb 0.\<close>

fun mulmod_loop :: "u64 list \<Rightarrow> u64 list \<Rightarrow> bool list \<Rightarrow> u64 list \<Rightarrow> u64 list" where
  "mulmod_loop b n [] result = result"
| "mulmod_loop b n (x # xs) result =
     (let result = u256_addmod result result n in
      mulmod_loop b n xs (if x then u256_addmod result b n else result))"

definition limb_bits :: "u64 \<Rightarrow> bool list" where
  "limb_bits w = map (\<lambda>i. drop_bit i w AND 1 = 1) (rev [0..<64])"

definition u256_mulmod :: "u64 list \<Rightarrow> u64 list \<Rightarrow> u64 list \<Rightarrow> u64 list" where
  "u256_mulmod a b n =
     mulmod_loop b n (concat (map (\<lambda>limb. limb_bits (a ! limb)) [3, 2, 1, 0])) [0, 0, 0, 0]"

definition u256_negmod :: "u64 list \<Rightarrow> u64 list \<Rightarrow> u64 list" where
  "u256_negmod a n = (if a = [0, 0, 0, 0] then [0, 0, 0, 0] else secp_u256_sub n a)"

section \<open>Taproot keys\<close>

definition TAPTWEAK_TAG_HASH :: bytes where
  "TAPTWEAK_TAG_HASH =
     [0xe8, 0x0f, 0xe1, 0x63, 0x9c, 0x9c, 0xa0, 0x50, 0xe3, 0xaf, 0x1b, 0x39, 0xc1, 0x43, 0xc6, 0x3e,
      0x42, 0x9c, 0xbc, 0xeb, 0x15, 0xd9, 0x40, 0xfb, 0xb5, 0xc5, 0xa1, 0xf4, 0xaf, 0x57, 0xc5, 0xe9]"

definition compute_taptweak_hash :: "env \<Rightarrow> hash32 \<Rightarrow> hash32 \<Rightarrow> hash32" where
  "compute_taptweak_hash E internal_key commitment =
     rt_sha256 E (TAPTWEAK_TAG_HASH @ TAPTWEAK_TAG_HASH @ bytes32 internal_key @ bytes32 commitment)"

text \<open>The syscall: hash, recovery id, signature; the recovered point has 64 bytes.\<close>

type_synonym recover = "bytes \<Rightarrow> u64 \<Rightarrow> bytes \<Rightarrow> bytes option"

definition recover_hash :: "hash32 \<Rightarrow> hash32 \<Rightarrow> bytes" where
  "recover_hash internal_key tweak =
     (let n = u256_from_be SECP256K1_N; r = u256_from_be (bytes32 internal_key); t = u256_from_be (bytes32 tweak)
      in u256_to_be (u256_negmod (u256_mulmod t r n) n))"

definition derive_taproot_output_key :: "recover \<Rightarrow> hash32 \<Rightarrow> hash32 \<Rightarrow> hash32 result" where
  "derive_taproot_output_key rc internal_key tweak =
     (let n = u256_from_be SECP256K1_N; r = u256_from_be (bytes32 internal_key); t = u256_from_be (bytes32 tweak) in
      if secp_u256_gte r n then Inl TaprootVerificationFailed
      else if secp_u256_gte t n then Inl TaprootVerificationFailed
      else case rc (recover_hash internal_key tweak) 0 (bytes32 internal_key @ bytes32 internal_key) of
        None \<Rightarrow> Inl TaprootVerificationFailed
      | Some recovered \<Rightarrow> Inr (from_le (bslice 0 32 recovered)))"

definition verify_taproot_tweak :: "recover \<Rightarrow> hash32 \<Rightarrow> hash32 \<Rightarrow> hash32 \<Rightarrow> unit result" where
  "verify_taproot_tweak rc internal_key tweak expected_output_key =
     bindE (derive_taproot_output_key rc internal_key tweak) (\<lambda>derived.
     ensure (derived = expected_output_key) TaprootVerificationFailed)"

definition verify_taproot_output_key :: "env \<Rightarrow> recover \<Rightarrow> hash32 \<Rightarrow> hash32 \<Rightarrow> hash32 \<Rightarrow> unit result" where
  "verify_taproot_output_key E rc internal_key npk expected_output_key =
     verify_taproot_tweak rc internal_key (compute_taptweak_hash E internal_key npk) expected_output_key"

definition extract_p2tr_output_key :: "bytes \<Rightarrow> hash32 option" where
  "extract_p2tr_output_key script =
     (if length script \<noteq> 34 then None
      else if script ! 0 \<noteq> 0x51 \<or> script ! 1 \<noteq> 0x20 then None
      else Some (from_le (bslice 2 32 script)))"

section \<open>Deposit addresses\<close>

definition DEPOSIT_NUMS_INTERNAL_KEY :: hash32 where
  "DEPOSIT_NUMS_INTERNAL_KEY = from_le
     [0x50, 0x92, 0x9b, 0x74, 0xc1, 0xa0, 0x49, 0x54, 0xb7, 0x8b, 0x4b, 0x60, 0x35, 0xe9, 0x7a, 0x5e,
      0x07, 0x8a, 0x5a, 0x0f, 0x28, 0xec, 0x96, 0xd5, 0x47, 0xbf, 0xee, 0x9a, 0xce, 0x80, 0x3a, 0xc0]"

definition TAPLEAF_TAG_HASH :: bytes where
  "TAPLEAF_TAG_HASH =
     [0xae, 0xea, 0x8f, 0xdc, 0x42, 0x08, 0x98, 0x31, 0x05, 0x73, 0x4b, 0x58, 0x08, 0x1d, 0x1e, 0x26,
      0x38, 0xd3, 0x5f, 0x1c, 0xb5, 0x40, 0x08, 0xd4, 0xd3, 0x57, 0xca, 0x03, 0xbe, 0x78, 0xe9, 0xee]"

definition tweak_commitment :: "env \<Rightarrow> hash32 \<Rightarrow> hash32 \<Rightarrow> hash32" where
  "tweak_commitment E note_public_key ephemeral_pubkey =
     sha256_parts E [bytes32 note_public_key, bytes32 ephemeral_pubkey]"

definition deposit_leaf_script :: "hash32 \<Rightarrow> hash32 \<Rightarrow> bytes" where
  "deposit_leaf_script commitment ika_xonly =
     [0x20] @ bytes32 commitment @ [0x75, 0x20] @ bytes32 ika_xonly @ [0xac]"

definition TAPSCRIPT_LEAF_VERSION :: u8 where "TAPSCRIPT_LEAF_VERSION = 0xc0"

definition deposit_leaf_hash :: "env \<Rightarrow> hash32 \<Rightarrow> hash32 \<Rightarrow> hash32" where
  "deposit_leaf_hash E commitment ika_xonly =
     (let script = deposit_leaf_script commitment ika_xonly in
      sha256_parts E [TAPLEAF_TAG_HASH, TAPLEAF_TAG_HASH, [TAPSCRIPT_LEAF_VERSION, of_nat (length script)], script])"

section \<open>The arithmetic is exact\<close>

lemma carry_step:
  fixes B P n wr wx wy :: nat
  assumes "wr + ov * P = wx + wy + n div B"
  shows "n mod B + B * wr + ov * (B * P) = n + B * wx + B * wy"
proof -
  have "B * wr + ov * (B * P) = B * wx + B * wy + B * (n div B)"
    using arg_cong [OF assms, of "\<lambda>x. B * x"] by (simp add: algebra_simps)
  moreover have "n mod B + B * (n div B) = n" by simp
  ultimately show ?thesis by linarith
qed

lemma add_carry_loop_val:
  assumes "length a = length b" and "unat c \<le> 1"
  shows "length (fst (add_carry_loop c a b)) = length a \<and>
    wval (fst (add_carry_loop c a b)) + of_bool (snd (add_carry_loop c a b)) * (2 ^ 64) ^ length a =
      wval a + wval b + unat c"
  using assms
proof (induction a b arbitrary: c rule: list_induct2)
  case Nil
  then have "unat c = of_bool (c \<noteq> 0)" by (cases "c = 0") (auto simp: unat_eq_zero le_Suc_eq)
  then show ?case by simp
next
  case (Cons x xs y ys)
  let ?B = "2 ^ 64 :: nat" and ?n = "unat x + unat y + unat c"
  let ?c = "of_bool (x + y < x) + of_bool (x + y + c < x + y) :: u64"
  have c': "unat ?c = ?n div ?B" and s: "unat (x + y + c) = ?n mod ?B"
    using add_limb [OF Cons.prems] by blast+
  have "?n < 2 * ?B" using unat_bound [of x] unat_bound [of y] Cons.prems by simp
  then have "unat ?c \<le> 1" unfolding c' by (simp add: less_mult_imp_div_less less_Suc_eq_le)
  note IH = Cons.IH [OF this]
  obtain rest ov where r: "add_carry_loop ?c xs ys = (rest, ov)" by fastforce
  have run: "add_carry_loop c (x # xs) (y # ys) = ((x + y + c) # rest, ov)"
    by (simp add: overflowing_add_def r)
  have "wval rest + of_bool ov * ?B ^ length xs = wval xs + wval ys + ?n div ?B"
    using IH by (simp add: r c')
  from carry_step [OF this] have "?n mod ?B + ?B * wval rest + of_bool ov * (?B * ?B ^ length xs) = ?n + ?B * wval xs + ?B * wval ys" .
  then show ?case unfolding run fst_conv snd_conv wval.simps length_Cons power_Suc s
    using IH by (simp only: r fst_conv) simp
qed

lemma length_secp_sub [simp]: "length a = length b \<Longrightarrow> length (secp_u256_sub a b) = length a"
  by (simp add: secp_u256_sub_def)

lemma addmod_val:
  assumes len: "length a = 4" "length b = 4" "length n = 4" and lt: "wval a < wval n" "wval b < wval n"
  shows "length (u256_addmod a b n) = 4" and "wval (u256_addmod a b n) = (wval a + wval b) mod wval n"
proof -
  obtain sum ov where run: "u256_add_carry a b = (sum, ov)" by fastforce
  have ls: "length sum = 4" and val: "wval sum + of_bool ov * 2 ^ 256 = wval a + wval b"
    using add_carry_loop_val [of a b 0] run len by (simp_all add: u256_add_carry_def flip: power_mult)
  have n: "wval n < 2 ^ 256" and s: "wval sum < 2 ^ 256" using wval_4_bound len(3) ls by blast+
  have gte: "secp_u256_gte sum n \<longleftrightarrow> wval n \<le> wval sum"
    using u256_gte_iff [of sum n] ls len(3) by (simp add: secp_u256_gte_def u256_gte_def)
  have sub: "int (wval (secp_u256_sub sum n)) = (int (wval sum) - int (wval n)) mod 2 ^ 256"
    using u256_sub_loop_val [of sum n 0] ls len(3) by (simp add: secp_u256_sub_def flip: power_mult)
  have mod: "(wval a + wval b) mod wval n = (if wval n \<le> wval a + wval b then wval a + wval b - wval n else wval a + wval b)"
    using lt by (simp add: mod_if)
  show "length (u256_addmod a b n) = 4" using ls len(3) by (simp add: u256_addmod_def run)
  show "wval (u256_addmod a b n) = (wval a + wval b) mod wval n"
  proof (cases "ov \<or> wval n \<le> wval sum")
    case True
    have "int (wval (secp_u256_sub sum n)) = int (wval a + wval b - wval n)"
    proof (cases ov)
      case True
      with val have e: "int (wval sum) = int (wval a + wval b) - 2 ^ 256" by simp
      have "(int (wval sum) - int (wval n)) mod 2 ^ 256 = (int (wval a + wval b) - int (wval n)) mod 2 ^ 256"
        unfolding e by (metis diff_right_commute minus_mod_self2)
      moreover have "int (wval a + wval b) - int (wval n) < 2 ^ 256"
        using lt n of_nat_less_iff [of "wval n" "2 ^ 256", where 'a = int] by simp
      moreover have "wval n \<le> wval a + wval b" using val True n by simp
      ultimately show ?thesis by (simp add: sub of_nat_diff)
    next
      case False
      with \<open>ov \<or> wval n \<le> wval sum\<close> val have "wval sum = wval a + wval b" "wval n \<le> wval sum" by simp_all
      then show ?thesis using s by (simp add: sub of_nat_diff flip: of_nat_diff)
    qed
    moreover have "wval n \<le> wval a + wval b" using True val n by auto
    ultimately show ?thesis using True mod by (simp add: u256_addmod_def run gte)
  next
    case False
    then show ?thesis using val mod by (simp add: u256_addmod_def run gte)
  qed
qed

text \<open>The number whose binary digits are given, most significant first.\<close>

definition bits_val :: "bool list \<Rightarrow> nat" where
  "bits_val xs = foldl (\<lambda>v x. 2 * v + of_bool x) 0 xs"

lemma mulmod_loop_val:
  assumes len: "length b = 4" "length n = 4" and lt: "wval b < wval n"
  shows "length r = 4 \<Longrightarrow> wval r = v * wval b mod wval n \<Longrightarrow>
    length (mulmod_loop b n xs r) = 4 \<and>
    wval (mulmod_loop b n xs r) = foldl (\<lambda>v x. 2 * v + of_bool x) v xs * wval b mod wval n"
proof (induction xs arbitrary: r v)
  case (Cons x xs)
  have r: "wval r < wval n" using Cons.prems(2) lt by simp
  note dbl = addmod_val [OF Cons.prems(1) Cons.prems(1) len(2) r r]
  have d: "wval (u256_addmod r r n) = 2 * v * wval b mod wval n"
    unfolding dbl(2) Cons.prems(2) by (simp only: mod_add_eq mult_2 distrib_right)
  then have "wval (u256_addmod r r n) < wval n" using lt by simp
  note add = addmod_val [OF dbl(1) len(1) len(2) this lt]
  have a: "wval (u256_addmod (u256_addmod r r n) b n) = (2 * v + 1) * wval b mod wval n"
    unfolding add(2) d by (simp only: mod_add_left_eq distrib_right mult_1)
  show ?case
    using Cons.IH [of "u256_addmod (u256_addmod r r n) b n" "2 * v + 1"] Cons.IH [of "u256_addmod r r n" "2 * v"] a d add(1) dbl(1)
    by (auto simp: Let_def)
qed simp

lemma foldl_bits: "foldl (\<lambda>v x. 2 * v + of_bool x) v xs = v * 2 ^ length xs + bits_val xs" for v :: nat
proof (induction xs arbitrary: v)
  case (Cons x xs)
  show ?case
    unfolding bits_val_def foldl_Cons
    by (simp only: Cons.IH [of "2 * v + of_bool x"] Cons.IH [of "2 * 0 + of_bool x"]) (simp add: algebra_simps)
qed (simp add: bits_val_def)

lemma bits_val_append: "bits_val (xs @ ys) = bits_val xs * 2 ^ length ys + bits_val ys"
  using foldl_bits [of "bits_val xs" ys] by (simp add: bits_val_def)

lemma bits_val_word:
  "bits_val (map (\<lambda>i. drop_bit i w AND 1 = 1) (rev [0..<k])) = take_bit k (unat w)" for w :: u64
proof (induction k)
  case 0
  then show ?case by (simp add: bits_val_def)
next
  case (Suc k)
  have "drop_bit k w AND 1 = 1 \<longleftrightarrow> bit (unat w) k"
    by (simp add: bit_iff_odd_drop_bit and_one_eq odd_iff_mod_2_eq_one [symmetric] bit_unsigned_iff flip: bit_iff_odd_drop_bit)
  then have "bits_val [drop_bit k w AND 1 = 1] = of_bool (bit (unat w) k)" by (simp add: bits_val_def)
  moreover have "bits_val (map (\<lambda>i. drop_bit i w AND 1 = 1) (rev [0..<Suc k])) =
      bits_val [drop_bit k w AND 1 = 1] * 2 ^ k + take_bit k (unat w)"
  proof -
    have "map (\<lambda>i. drop_bit i w AND 1 = 1) (rev [0..<Suc k]) =
        [drop_bit k w AND 1 = 1] @ map (\<lambda>i. drop_bit i w AND 1 = 1) (rev [0..<k])"
      by (simp only: upt_Suc_append rev_append rev.simps append.simps map_append list.map)
    then show ?thesis by (simp only: bits_val_append Suc.IH length_map length_rev length_upt minus_nat.diff_0)
  qed
  moreover have "take_bit (Suc k) (unat w) = of_bool (bit (unat w) k) * 2 ^ k + take_bit k (unat w)"
    by (subst take_bit_Suc_from_most) (simp only: mult.commute)
  ultimately show ?case by simp
qed

lemma length_limb_bits [simp]: "length (limb_bits w) = 64"
  unfolding limb_bits_def by (simp only: length_map length_rev length_upt minus_nat.diff_0)

lemma bits_val_limb [simp]: "bits_val (limb_bits w) = unat w"
  unfolding limb_bits_def bits_val_word using unat_bound [of w] by (simp add: take_bit_nat_eq_self)

lemma mulmod_val:
  assumes "length a = 4" and "length b = 4" and "length n = 4" and "wval b < wval n"
  shows "length (u256_mulmod a b n) = 4" and "wval (u256_mulmod a b n) = wval a * wval b mod wval n"
proof -
  obtain a0 a1 a2 a3 where a: "a = [a0, a1, a2, a3]" using assms(1) by (rule list4_cases)
  have bits: "bits_val (concat (map (\<lambda>limb. limb_bits (a ! limb)) [3, 2, 1, 0])) = wval a"
  proof -
    have "concat (map (\<lambda>limb. limb_bits (a ! limb)) [3, 2, 1, 0]) = ((limb_bits a3 @ limb_bits a2) @ limb_bits a1) @ limb_bits a0"
      by (simp add: a)
    then have "bits_val (concat (map (\<lambda>limb. limb_bits (a ! limb)) [3, 2, 1, 0])) =
        ((unat a3 * 2 ^ 64 + unat a2) * 2 ^ 64 + unat a1) * 2 ^ 64 + unat a0"
      by (simp only: bits_val_append bits_val_limb length_limb_bits)
    then show ?thesis by (simp add: a)
  qed
  note L = mulmod_loop_val [OF assms(2-4), of "[0, 0, 0, 0]" 0]
  show "length (u256_mulmod a b n) = 4" using L by (simp add: u256_mulmod_def)
  show "wval (u256_mulmod a b n) = wval a * wval b mod wval n"
    using L bits by (simp add: u256_mulmod_def bits_val_def)
qed

section \<open>The recovered message\<close>

definition SECP_N :: nat where
  "SECP_N = 0xFFFFFFFFFFFFFFFFFFFFFFFFFFFFFFFEBAAEDCE6AF48A03BBFD25E8CD0364141"

lemma rev_bslice: "k + n \<le> length b \<Longrightarrow> rev (bslice k n b) = bslice (length b - k - n) n (rev b)"
proof -
  assume "k + n \<le> length b"
  then have "length b - k - (length b - k - n) = n" by simp
  then show ?thesis unfolding bslice_def by (simp only: rev_take rev_drop drop_take length_drop)
qed

lemma from_be_le: "length b = 32 \<Longrightarrow> u256_from_be b = u256_from_le_bytes (rev b)"
  by (simp add: u256_from_be_def u256_from_le_bytes_def rev_bslice)

lemma wval_from_be: "length b = 32 \<Longrightarrow> wval (u256_from_be b) = le_nat (rev b)"
  by (simp add: from_be_le wval_u256_from_le_bytes)

lemma length_from_be [simp]: "length (u256_from_be b) = 4"
  by (simp add: u256_from_be_def)

lemma to_be_le: "u256_to_be v = rev (u256_to_le_bytes v)"
  by (simp add: u256_to_be_def u256_to_le_bytes_def)

lemma secp_order: "wval (u256_from_be SECP256K1_N) = SECP_N"
  by (simp add: wval_from_be SECP256K1_N_def SECP_N_def)

lemma gte_order: "secp_u256_gte (u256_from_be (bytes32 k)) (u256_from_be SECP256K1_N) \<longleftrightarrow> SECP_N \<le> be_nat k"
proof -
  have "secp_u256_gte (u256_from_be (bytes32 k)) (u256_from_be SECP256K1_N) \<longleftrightarrow>
      wval (u256_from_be SECP256K1_N) \<le> wval (u256_from_be (bytes32 k))"
    using u256_gte_iff [of "u256_from_be (bytes32 k)" "u256_from_be SECP256K1_N"]
    by (simp add: secp_u256_gte_def u256_gte_def)
  then show ?thesis by (simp add: secp_order wval_from_be be_nat_def)
qed

lemma recover_hash_val:
  assumes "be_nat k < SECP_N"
  shows "length (recover_hash k t) = 32"
    and "le_nat (rev (recover_hash k t)) = (SECP_N - be_nat t * be_nat k mod SECP_N) mod SECP_N"
proof -
  let ?n = "u256_from_be SECP256K1_N" and ?m = "u256_mulmod (u256_from_be (bytes32 t)) (u256_from_be (bytes32 k)) (u256_from_be SECP256K1_N)"
  have k: "wval (u256_from_be (bytes32 k)) = be_nat k" and t: "wval (u256_from_be (bytes32 t)) = be_nat t"
    by (simp_all add: wval_from_be be_nat_def)
  have lt: "wval (u256_from_be (bytes32 k)) < wval ?n" using assms by (simp add: k secp_order)
  note M = mulmod_val [OF length_from_be length_from_be length_from_be lt, of "bytes32 t", unfolded t k secp_order]
  have small: "wval ?m < wval ?n" unfolding M(2) secp_order by (simp add: SECP_N_def)
  have len: "length (u256_negmod ?m ?n) = 4" by (simp add: u256_negmod_def M(1))
  have "wval (u256_negmod ?m ?n) = (SECP_N - wval ?m) mod SECP_N"
  proof (cases "?m = [0, 0, 0, 0]")
    case True
    then show ?thesis by (simp add: u256_negmod_def)
  next
    case False
    with M(1) wval4_eq_0 have "0 < wval ?m" by (metis gr_zeroI)
    moreover have "wval (secp_u256_sub ?n ?m) = wval ?n - wval ?m"
      using wval_u256_sub [OF length_from_be M(1), of SECP256K1_N] small by (simp add: secp_u256_sub_def u256_sub_def)
    ultimately show ?thesis using False small by (simp add: u256_negmod_def secp_order)
  qed
  then show "le_nat (rev (recover_hash k t)) = (SECP_N - be_nat t * be_nat k mod SECP_N) mod SECP_N"
    by (simp add: recover_hash_def Let_def to_be_le le_nat_u256_to_le_bytes len M(2))
  show "length (recover_hash k t) = 32" by (simp add: recover_hash_def Let_def to_be_le)
qed

text \<open>
  The message of the key recovery is exact. For keys and tweaks below the curve order, and only
  for these, the derivation calls the syscall, with the 32-byte big-endian value \<open>h\<close> that is
  below the order and for which \<open>h + tweak * key\<close> is a multiple of the order; the signature
  is the key twice and the recovery id zero. The double-and-add loop on 64-bit limbs therefore never
  loses a carry.
\<close>

theorem taproot_recover_message_exact:
  "derive_taproot_output_key rc k t =
     (if SECP_N \<le> be_nat k \<or> SECP_N \<le> be_nat t then Inl TaprootVerificationFailed
      else case rc (recover_hash k t) 0 (bytes32 k @ bytes32 k) of
        None \<Rightarrow> Inl TaprootVerificationFailed
      | Some recovered \<Rightarrow> Inr (from_le (bslice 0 32 recovered))) \<and>
   (be_nat k < SECP_N \<longrightarrow> length (recover_hash k t) = 32 \<and> le_nat (rev (recover_hash k t)) < SECP_N \<and>
      (le_nat (rev (recover_hash k t)) + be_nat t * be_nat k) mod SECP_N = 0)"
proof (intro conjI impI)
  show "derive_taproot_output_key rc k t =
     (if SECP_N \<le> be_nat k \<or> SECP_N \<le> be_nat t then Inl TaprootVerificationFailed
      else case rc (recover_hash k t) 0 (bytes32 k @ bytes32 k) of
        None \<Rightarrow> Inl TaprootVerificationFailed
      | Some recovered \<Rightarrow> Inr (from_le (bslice 0 32 recovered)))"
    by (simp add: derive_taproot_output_key_def Let_def gte_order)
  assume "be_nat k < SECP_N"
  note R = recover_hash_val [OF this, of t]
  have pos: "0 < SECP_N" by (simp add: SECP_N_def)
  show "length (recover_hash k t) = 32" by (rule R(1))
  show "le_nat (rev (recover_hash k t)) < SECP_N" using pos by (simp add: R(2))
  let ?m = "be_nat t * be_nat k"
  have "((SECP_N - ?m mod SECP_N) mod SECP_N + ?m) mod SECP_N = (SECP_N - ?m mod SECP_N + ?m mod SECP_N) mod SECP_N"
    by (simp only: mod_add_left_eq mod_add_right_eq)
  also have "SECP_N - ?m mod SECP_N + ?m mod SECP_N = SECP_N" using pos by (simp add: less_imp_le)
  finally show "(le_nat (rev (recover_hash k t)) + ?m) mod SECP_N = 0" by (simp add: R(2))
qed

theorem taproot_recover_message_exact_witness:
  "be_nat DEPOSIT_NUMS_INTERNAL_KEY < SECP_N \<and>
   (le_nat (rev (recover_hash DEPOSIT_NUMS_INTERNAL_KEY 5)) + be_nat 5 * be_nat DEPOSIT_NUMS_INTERNAL_KEY) mod SECP_N = 0"
proof -
  have "be_nat DEPOSIT_NUMS_INTERNAL_KEY < SECP_N"
    unfolding DEPOSIT_NUMS_INTERNAL_KEY_def by (subst be_nat_from) (simp_all add: SECP_N_def)
  then show ?thesis using taproot_recover_message_exact [of "\<lambda>_ _ _. None" DEPOSIT_NUMS_INTERNAL_KEY 5] by simp
qed

end
