(* ===== verification/UX_Token.thy ===== *)
theory UX_Token
  imports UX_Bitcoin
begin

text \<open>
  The helpers of \<open>utils/token.rs\<close> and the token checks of
  \<open>utils/validation.rs\<close>. Cross-program calls go through a parameter of type
  \<open>invoke\<close>: the called program, the account metas, the instruction data and the seeds of
  the signing PDA. \<open>token_program_spec\<close> names what the documentation of the token programs
  promises of the three instructions the bridge sends. The scan for Token-2022 extensions is a loop
  over type-length-value entries; it is shown to terminate and to find every entry.
\<close>

abbreviation InvalidMint :: program_error where "InvalidMint \<equiv> Custom 6061"

section \<open>Programs and mints\<close>

definition TOKEN_2022_PROGRAM_ID :: pubkey where
  "TOKEN_2022_PROGRAM_ID = from_le
     [0x06, 0xdd, 0xf6, 0xe1, 0xee, 0x75, 0x8f, 0xde, 0x18, 0x42, 0x5d, 0xbc, 0xe4, 0x6c, 0xcd, 0xda,
      0xb6, 0x1a, 0xfc, 0x4d, 0x83, 0xb9, 0x0d, 0x27, 0xfe, 0xbd, 0xf9, 0x28, 0xd8, 0xa1, 0x8b, 0xfc]"

definition TOKEN_PROGRAM_ID :: pubkey where
  "TOKEN_PROGRAM_ID = from_le
     [0x06, 0xdd, 0xf6, 0xe1, 0xd7, 0x65, 0xa1, 0x93, 0xd9, 0xcb, 0xe1, 0x46, 0xce, 0xeb, 0x79, 0xac,
      0x1c, 0xb4, 0x85, 0xed, 0x5f, 0x5b, 0x37, 0x91, 0x3a, 0x8c, 0xf5, 0x85, 0x7e, 0xff, 0x00, 0xa9]"

definition NATIVE_SOL_MINT :: pubkey where
  "NATIVE_SOL_MINT = from_le
     [0x06, 0x9b, 0x88, 0x57, 0xfe, 0xab, 0x81, 0x84, 0xfb, 0x68, 0x7f, 0x63, 0x46, 0x18, 0xc0, 0x35,
      0xda, 0xc4, 0x39, 0xdc, 0x1a, 0xeb, 0x3b, 0x55, 0x98, 0xa0, 0xf0, 0x00, 0x00, 0x00, 0x00, 0x01]"

definition NATIVE_SOL_2022_MINT :: pubkey where
  "NATIVE_SOL_2022_MINT = from_le
     [0x83, 0x0d, 0xfc, 0x9f, 0xde, 0x5f, 0xe6, 0xb8, 0xaa, 0x7c, 0x04, 0xa4, 0x76, 0xe9, 0x1e, 0x8a,
      0xc6, 0xbb, 0x26, 0x4a, 0xad, 0x90, 0xfa, 0x19, 0xc9, 0xdf, 0x49, 0xd8, 0x5c, 0x3e, 0x5b, 0x5e]"

definition validate_token_2022_owner :: "store \<Rightarrow> account_info \<Rightarrow> unit result" where
  "validate_token_2022_owner s a = ensure (owner (s (key a)) = TOKEN_2022_PROGRAM_ID) InvalidAccountOwner"

definition validate_token_owner :: "store \<Rightarrow> account_info \<Rightarrow> unit result" where
  "validate_token_owner s a =
     (if owner (s (key a)) \<noteq> TOKEN_2022_PROGRAM_ID \<and> owner (s (key a)) \<noteq> TOKEN_PROGRAM_ID
      then Inl InvalidAccountOwner else Inr ())"

definition validate_token_program_key :: "account_info \<Rightarrow> unit result" where
  "validate_token_program_key a = ensure (key a = TOKEN_2022_PROGRAM_ID) IncorrectProgramId"

definition validate_any_token_program_key :: "account_info \<Rightarrow> unit result" where
  "validate_any_token_program_key a =
     (if key a \<noteq> TOKEN_2022_PROGRAM_ID \<and> key a \<noteq> TOKEN_PROGRAM_ID then Inl IncorrectProgramId else Inr ())"

definition validate_system_program :: "account_info \<Rightarrow> unit result" where
  "validate_system_program a = ensure (key a = 0) IncorrectProgramId"

definition is_native_sol_mint :: "pubkey \<Rightarrow> pubkey \<Rightarrow> bool" where
  "is_native_sol_mint mint token_program \<longleftrightarrow>
     token_program = TOKEN_PROGRAM_ID \<and> mint = NATIVE_SOL_MINT \<or>
     token_program = TOKEN_2022_PROGRAM_ID \<and> mint = NATIVE_SOL_2022_MINT"

definition is_native_sol_account :: "store \<Rightarrow> account_info \<Rightarrow> account_info \<Rightarrow> bool result" where
  "is_native_sol_account s a token_program =
     (if owner (s (key a)) \<noteq> key token_program then Inl InvalidAccountOwner
      else let d = adata (s (key a)) in
      if length d < 32 then Inl InvalidAccountData
      else Inr (is_native_sol_mint (from_le (bslice 0 32 d)) (key token_program)))"

definition is_token_account :: "store \<Rightarrow> account_info \<Rightarrow> bool" where
  "is_token_account s a \<longleftrightarrow> owner (s (key a)) = TOKEN_2022_PROGRAM_ID \<or> owner (s (key a)) = TOKEN_PROGRAM_ID"

definition validate_token_account :: "store \<Rightarrow> account_info \<Rightarrow> pubkey \<Rightarrow> pubkey \<Rightarrow> unit result" where
  "validate_token_account s a expected_mint expected_owner =
     (if \<not> is_token_account s a then Inl InvalidAccountOwner
      else let d = adata (s (key a)) in
      if length d < 72 then Inl InvalidAccountData
      else if from_le (bslice 0 32 d) \<noteq> expected_mint then Inl InvalidAccountData
      else if from_le (bslice 32 32 d) \<noteq> expected_owner then Inl InvalidAccountData
      else Inr ())"

definition get_token_balance :: "store \<Rightarrow> account_info \<Rightarrow> u64 result" where
  "get_token_balance s a =
     (let d = adata (s (key a)) in
      if length d < 72 then Inl InvalidAccountData else Inr (from_le (bslice 64 8 d)))"

section \<open>Token instructions\<close>

record account_meta =
  meta_key :: pubkey
  meta_writable :: bool
  meta_signer :: bool

type_synonym invoke = "pubkey \<Rightarrow> account_meta list \<Rightarrow> bytes \<Rightarrow> bytes list \<Rightarrow> store \<Rightarrow> store result"

definition writable_meta :: "pubkey \<Rightarrow> account_meta" where
  "writable_meta k = \<lparr>meta_key = k, meta_writable = True, meta_signer = False\<rparr>"
definition readonly_meta :: "pubkey \<Rightarrow> account_meta" where
  "readonly_meta k = \<lparr>meta_key = k, meta_writable = False, meta_signer = False\<rparr>"
definition readonly_signer_meta :: "pubkey \<Rightarrow> account_meta" where
  "readonly_signer_meta k = \<lparr>meta_key = k, meta_writable = False, meta_signer = True\<rparr>"
definition writable_signer_meta :: "pubkey \<Rightarrow> account_meta" where
  "writable_signer_meta k = \<lparr>meta_key = k, meta_writable = True, meta_signer = True\<rparr>"

definition pda_signer_seeds :: "bytes list \<Rightarrow> bytes list result" where
  "pda_signer_seeds seeds = (if seeds = [] \<or> length seeds > 5 then Inl MaxSeedLengthExceeded else Inr seeds)"

definition MINT_TO :: u8 where "MINT_TO = 7"
definition BURN :: u8 where "BURN = 8"
definition TRANSFER :: u8 where "TRANSFER = 3"
definition UNWRAP_LAMPORTS :: u8 where "UNWRAP_LAMPORTS = 45"

definition unwrap_lamports_signed ::
    "invoke \<Rightarrow> pubkey \<Rightarrow> pubkey \<Rightarrow> pubkey \<Rightarrow> pubkey \<Rightarrow> u64 \<Rightarrow> bytes list \<Rightarrow> store \<Rightarrow> store result" where
  "unwrap_lamports_signed I token_program source destination authority amount seeds s =
     bindE (pda_signer_seeds seeds) (\<lambda>sd.
     I token_program [writable_meta source, writable_meta destination, readonly_signer_meta authority]
       ([UNWRAP_LAMPORTS, 1] @ bytes8 amount) sd s)"

definition mint_zkbtc ::
    "invoke \<Rightarrow> pubkey \<Rightarrow> pubkey \<Rightarrow> pubkey \<Rightarrow> pubkey \<Rightarrow> u64 \<Rightarrow> bytes list \<Rightarrow> store \<Rightarrow> store result" where
  "mint_zkbtc I token_program mint destination authority amount seeds s =
     bindE (pda_signer_seeds seeds) (\<lambda>sd.
     I token_program [writable_meta mint, writable_meta destination, readonly_signer_meta authority]
       (MINT_TO # bytes8 amount) sd s)"

definition burn_zkbtc :: "invoke \<Rightarrow> pubkey \<Rightarrow> pubkey \<Rightarrow> pubkey \<Rightarrow> pubkey \<Rightarrow> u64 \<Rightarrow> store \<Rightarrow> store result" where
  "burn_zkbtc I token_program mint source authority amount s =
     I token_program [writable_meta source, writable_meta mint, readonly_signer_meta authority]
       (BURN # bytes8 amount) [] s"

definition burn_zkbtc_signed ::
    "invoke \<Rightarrow> pubkey \<Rightarrow> pubkey \<Rightarrow> pubkey \<Rightarrow> pubkey \<Rightarrow> u64 \<Rightarrow> bytes list \<Rightarrow> store \<Rightarrow> store result" where
  "burn_zkbtc_signed I token_program mint source authority amount seeds s =
     bindE (pda_signer_seeds seeds) (\<lambda>sd.
     I token_program [writable_meta source, writable_meta mint, readonly_signer_meta authority]
       (BURN # bytes8 amount) sd s)"

definition transfer_zkbtc ::
    "invoke \<Rightarrow> pubkey \<Rightarrow> pubkey \<Rightarrow> pubkey \<Rightarrow> pubkey \<Rightarrow> u64 \<Rightarrow> bytes list \<Rightarrow> store \<Rightarrow> store result" where
  "transfer_zkbtc I token_program source destination authority amount seeds s =
     bindE (if seeds = [] then Inr [] else pda_signer_seeds seeds) (\<lambda>sd.
     I token_program [writable_meta source, writable_meta destination, readonly_signer_meta authority]
       (TRANSFER # bytes8 amount) sd s)"

definition transfer_token_user :: "invoke \<Rightarrow> pubkey \<Rightarrow> pubkey \<Rightarrow> pubkey \<Rightarrow> pubkey \<Rightarrow> u64 \<Rightarrow> store \<Rightarrow> store result" where
  "transfer_token_user I token_program source destination authority amount s =
     I token_program [writable_meta source, writable_meta destination, readonly_signer_meta authority]
       (TRANSFER # bytes8 amount) [] s"

section \<open>What the token programs promise\<close>

text \<open>Balance of a token account and supply of a mint, in the account layout of the token programs.\<close>

definition token_balance :: "store \<Rightarrow> pubkey \<Rightarrow> nat" where
  "token_balance s k = unat (from_le (bslice 64 8 (adata (s k))) :: u64)"

definition mint_supply :: "store \<Rightarrow> pubkey \<Rightarrow> nat" where
  "mint_supply s k = unat (from_le (bslice 36 8 (adata (s k))) :: u64)"

text \<open>
  A successful \<open>MintTo\<close> raises the balance of the destination and the supply by the
  amount, a successful \<open>Burn\<close> lowers balance and supply by it, without wrap-around; only the
  two writable accounts change, and their owner stays the token program.
\<close>

definition token_change :: "pubkey \<Rightarrow> pubkey \<Rightarrow> store \<Rightarrow> store \<Rightarrow> bool" where
  "token_change a b s s' \<longleftrightarrow> (\<forall>k. k \<notin> {a, b} \<longrightarrow> s' k = s k) \<and> (\<forall>k. owner (s' k) = owner (s k))"

definition token_program_spec :: "invoke \<Rightarrow> bool" where
  "token_program_spec I \<longleftrightarrow> (\<forall>p \<in> {TOKEN_PROGRAM_ID, TOKEN_2022_PROGRAM_ID}. \<forall>a b auth amount seeds s s'.
     (I p [writable_meta a, writable_meta b, readonly_signer_meta auth] (MINT_TO # bytes8 amount) seeds s = Inr s' \<longrightarrow>
        token_change a b s s' \<and> token_balance s' b = token_balance s b + unat amount \<and>
        mint_supply s' a = mint_supply s a + unat amount) \<and>
     (I p [writable_meta a, writable_meta b, readonly_signer_meta auth] (BURN # bytes8 amount) seeds s = Inr s' \<longrightarrow>
        token_change a b s s' \<and> token_balance s a = token_balance s' a + unat amount \<and>
        mint_supply s b = mint_supply s' b + unat amount))"

lemma validate_token_owner_iff [res_simps]:
  "validate_token_owner s a = Inr u \<longleftrightarrow> owner (s (key a)) \<in> {TOKEN_PROGRAM_ID, TOKEN_2022_PROGRAM_ID}"
  by (auto simp: validate_token_owner_def)

lemma validate_any_token_program_key_iff [res_simps]:
  "validate_any_token_program_key a = Inr u \<longleftrightarrow> key a \<in> {TOKEN_PROGRAM_ID, TOKEN_2022_PROGRAM_ID}"
  by (auto simp: validate_any_token_program_key_def)

lemma mint_effect:
  assumes "token_program_spec I" and "p \<in> {TOKEN_PROGRAM_ID, TOKEN_2022_PROGRAM_ID}"
    and "mint_zkbtc I p mint dest auth amount seeds s = Inr s'"
  shows "token_change mint dest s s'" and "token_balance s' dest = token_balance s dest + unat amount"
    and "mint_supply s' mint = mint_supply s mint + unat amount"
  using assms unfolding token_program_spec_def mint_zkbtc_def by (auto simp: res_simps)

lemma burn_effect:
  assumes "token_program_spec I" and "p \<in> {TOKEN_PROGRAM_ID, TOKEN_2022_PROGRAM_ID}"
    and "burn_zkbtc_signed I p mint source auth amount seeds s = Inr s'"
  shows "token_change source mint s s'" and "token_balance s source = token_balance s' source + unat amount"
    and "mint_supply s mint = mint_supply s' mint + unat amount"
  using assms unfolding token_program_spec_def burn_zkbtc_signed_def by (auto simp: res_simps)

section \<open>Mint validation\<close>

definition SPL_MINT_BASE_LEN :: nat where "SPL_MINT_BASE_LEN = 82"
definition TOKEN_2022_ACCOUNT_TYPE_OFFSET :: nat where "TOKEN_2022_ACCOUNT_TYPE_OFFSET = 165"
definition TOKEN_2022_TLV_OFFSET :: nat where "TOKEN_2022_TLV_OFFSET = 166"
definition EXT_TRANSFER_FEE_CONFIG :: u16 where "EXT_TRANSFER_FEE_CONFIG = 1"
definition EXT_PERMANENT_DELEGATE :: u16 where "EXT_PERMANENT_DELEGATE = 12"
definition EXT_TRANSFER_HOOK :: u16 where "EXT_TRANSFER_HOOK = 14"

function ext_scan :: "bytes \<Rightarrow> nat \<Rightarrow> bool" where
  "ext_scan d off =
     (if off + 4 \<le> length d
      then let ext_type = from_le (bslice off 2 d) :: u16 in
        if ext_type = 0 then False
        else if ext_type = EXT_TRANSFER_FEE_CONFIG \<or> ext_type = EXT_PERMANENT_DELEGATE \<or> ext_type = EXT_TRANSFER_HOOK
        then True
        else let ext_len = unat (from_le (bslice (off + 2) 2 d) :: u16) in
        (case Option.bind (usize_checked_add off 4) (\<lambda>v. usize_checked_add v ext_len) of
           Some off' \<Rightarrow> if off' \<le> length d then ext_scan d off' else True
         | None \<Rightarrow> True)
      else False)"
  by pat_completeness auto

termination
  by (relation "measure (\<lambda>(d, off). length d - off)")
    (auto simp: usize_checked_add_def split: if_splits Option.bind_splits)

declare ext_scan.simps [simp del]

definition mint_has_unsupported_pool_extension :: "bytes \<Rightarrow> bool" where
  "mint_has_unsupported_pool_extension d =
     (if length d \<le> TOKEN_2022_ACCOUNT_TYPE_OFFSET \<or> d ! TOKEN_2022_ACCOUNT_TYPE_OFFSET \<noteq> 1 then False
      else ext_scan d TOKEN_2022_TLV_OFFSET)"

definition validate_pool_controlled_zkbtc_mint_data :: "bytes \<Rightarrow> pubkey \<Rightarrow> unit result" where
  "validate_pool_controlled_zkbtc_mint_data d pool =
     (if length d < SPL_MINT_BASE_LEN \<or> length d > SPL_MINT_BASE_LEN \<and> length d < TOKEN_2022_TLV_OFFSET \<or>
         d ! 45 \<noteq> 1 \<or> d ! 44 \<noteq> 8 then Inl InvalidMint
      else let mint_authority_tag = from_le (bslice 0 4 d) :: u32 in
      if mint_authority_tag \<noteq> 1 \<or> bslice 4 32 d \<noteq> bytes32 pool then Inl InvalidMint
      else let freeze_authority_tag = from_le (bslice 46 4 d) :: u32 in
      if freeze_authority_tag > 1 \<or> freeze_authority_tag = 1 \<and> bslice 50 32 d \<noteq> bytes32 pool \<or>
         mint_has_unsupported_pool_extension d then Inl InvalidMint
      else Inr ())"

definition validate_pool_controlled_zkbtc_mint :: "store \<Rightarrow> account_info \<Rightarrow> pubkey \<Rightarrow> unit result" where
  "validate_pool_controlled_zkbtc_mint s mint pool =
     (if owner (s (key mint)) \<noteq> TOKEN_2022_PROGRAM_ID then Inl InvalidMint
      else validate_pool_controlled_zkbtc_mint_data (adata (s (key mint))) pool)"

text \<open>A list of type-length-value entries as the token program writes it.\<close>

definition tlv_entry :: "u16 \<times> bytes \<Rightarrow> bytes" where
  "tlv_entry e = le_bytes 2 (fst e) @ le_bytes 2 (of_nat (length (snd e)) :: u16) @ snd e"

lemma length_tlv_entry [simp]: "length (tlv_entry e) = 4 + length (snd e)"
  by (simp add: tlv_entry_def)

lemma ext_scan_tlv:
  assumes "list_all (\<lambda>e. fst e \<noteq> 0 \<and> length (snd e) < 2 ^ 16) es" and "length (pre @ concat (map tlv_entry es)) < 2 ^ 64"
  shows "ext_scan (pre @ concat (map tlv_entry es)) (length pre) \<longleftrightarrow> (\<exists>e \<in> set es. fst e \<in> {1, 12, 14})"
  using assms
proof (induction es arbitrary: pre)
  case Nil
  then show ?case by (subst ext_scan.simps) simp
next
  case (Cons e es)
  let ?d = "pre @ tlv_entry e @ concat (map tlv_entry es)"
  have len: "unat (of_nat (length (snd e)) :: u16) = length (snd e)"
    using Cons.prems(1) by (simp add: unat_of_nat)
  have ty: "from_le (bslice (length pre) 2 ?d) = fst e"
    by (simp add: tlv_entry_def slice_simps)
  have ln: "from_le (bslice (length pre + 2) 2 ?d) = (of_nat (length (snd e)) :: u16)"
    by (simp add: tlv_entry_def slice_simps)
  have nxt: "Option.bind (usize_checked_add (length pre) 4) (\<lambda>v. usize_checked_add v (length (snd e))) =
      Some (length (pre @ tlv_entry e))"
    using Cons.prems(2) by (simp add: usize_checked_add_def)
  have IH: "ext_scan ?d (length (pre @ tlv_entry e)) \<longleftrightarrow> (\<exists>e \<in> set es. fst e \<in> {1, 12, 14})"
    using Cons.IH [of "pre @ tlv_entry e"] Cons.prems by simp
  have unfold: "ext_scan ?d (length pre) \<longleftrightarrow> fst e \<noteq> 0 \<and> (fst e \<in> {1, 12, 14} \<or> ext_scan ?d (length (pre @ tlv_entry e)))"
  proof -
    have fits: "length pre + 4 \<le> length ?d" "length (pre @ tlv_entry e) \<le> length ?d" by simp_all
    show ?thesis
      unfolding ext_scan.simps [of ?d "length pre"] Let_def ty ln len nxt option.case if_P [OF fits(1)] if_P [OF fits(2)]
      by (auto simp: EXT_TRANSFER_FEE_CONFIG_def EXT_PERMANENT_DELEGATE_def EXT_TRANSFER_HOOK_def)
  qed
  then show ?case using Cons.prems(1) IH by auto
qed

end
