(* ===== verification/UX_Settle.thy ===== *)
theory UX_Settle
  imports UX_Redemption UX_SPV UX_Token
begin

text \<open>
  \<open>instructions/complete_redemption.rs\<close>: settling a redemption against the Bitcoin
  transaction that paid it. The handler is the composition of the definitions below in the order of
  the code; \<open>I\<close> is the cross-program call. The theorems say that every satoshi of the
  reserved inputs is accounted for: paid to the recipient, returned to the pool as the one tracked
  change output, or miner fee within the limit; that exactly the BTC that left custody is burned; and
  that the reserved records are exactly the inputs of the transaction. Log events are not modelled.
\<close>

abbreviation AmountTooSmall :: program_error where "AmountTooSmall \<equiv> Custom 6001"
abbreviation RedemptionOutputMismatch :: program_error where "RedemptionOutputMismatch \<equiv> Custom 6070"
abbreviation DuplicateDeposit :: program_error where "DuplicateDeposit \<equiv> Custom 6074"
abbreviation PoolScriptMismatch :: program_error where "PoolScriptMismatch \<equiv> Custom 6077"
abbreviation InvalidPDA :: program_error where "InvalidPDA \<equiv> Custom 6085"
abbreviation InvalidTokenConfig :: program_error where "InvalidTokenConfig \<equiv> Custom 6089"

section \<open>Instruction data and receipts\<close>

definition MAX_FEE_SATS :: u64 where "MAX_FEE_SATS = 50000"
definition MAX_CONSUMED_UTXOS :: nat where "MAX_CONSUMED_UTXOS = 20"
definition SETTLE_CONFIRMATIONS :: u64 where "SETTLE_CONFIRMATIONS = 6"

record complete_redemption_data =
  crd_btc_txid :: hash32
  crd_tx_size :: u32
  crd_pool_script :: bytes
  crd_consumed_utxo_count :: u8

text \<open>The script is kept with its length; \<open>pool_script_len = 0\<close> is the empty script.\<close>

definition complete_redemption_data_from_bytes :: "bytes \<Rightarrow> complete_redemption_data result" where
  "complete_redemption_data_from_bytes d =
     (if length d < 38 then Inl InvalidInstructionData
      else let n = unat (d ! 36); off = 37 + n in
      if n > 0 \<and> (off > length d \<or> n > 34) then Inl InvalidInstructionData
      else if off \<ge> length d then Inl InvalidInstructionData
      else if off + 1 \<noteq> length d then Inl InvalidInstructionData
      else Inr \<lparr>crd_btc_txid = from_le (bslice 0 32 d), crd_tx_size = from_le (bslice 32 4 d),
                crd_pool_script = bslice 37 n d, crd_consumed_utxo_count = d ! off\<rparr>)"

definition COMPLETION_RECEIPT_DISCRIMINATOR :: u8 where "COMPLETION_RECEIPT_DISCRIMINATOR = 0x08"
definition COMPLETION_RECEIPT_LEN :: nat where "COMPLETION_RECEIPT_LEN = 1"
definition COMPLETION_RECEIPT_SEED :: bytes where "COMPLETION_RECEIPT_SEED = ascii ''completion_receipt''"

definition receipt_init :: "u8 \<Rightarrow> pubkey \<Rightarrow> store \<Rightarrow> store result" where
  "receipt_init disc k s = (if adata (s k) = [] then Inl InvalidAccountData else write_front k [disc] s)"

definition record_completion :: "env \<Rightarrow> pubkey \<Rightarrow> account_info \<Rightarrow> hash32 \<Rightarrow> store \<Rightarrow> store result" where
  "record_completion E payer receipt txid s =
     (if key receipt \<noteq> fst (find_program_address E [COMPLETION_RECEIPT_SEED, bytes32 txid]) then Inl InvalidSeeds
      else if adata (s (key receipt)) \<noteq> [] \<and> adata (s (key receipt)) ! 0 = COMPLETION_RECEIPT_DISCRIMINATOR
      then Inl DuplicateDeposit
      else
      bindE (create_pda_account E payer (key receipt) (rt_minimum_balance E COMPLETION_RECEIPT_LEN)
        (of_nat COMPLETION_RECEIPT_LEN) 3 s) (\<lambda>s1.
      receipt_init COMPLETION_RECEIPT_DISCRIMINATOR (key receipt) s1))"

section \<open>The payout\<close>

definition validate_owned_by :: "pubkey \<Rightarrow> store \<Rightarrow> account_info \<Rightarrow> unit result" where
  "validate_owned_by p s a = ensure (owner (s (key a)) = p) UxInvalidAccountOwner"

definition check_pool_script :: "env \<Rightarrow> store \<Rightarrow> account_info \<Rightarrow> account_info \<Rightarrow> bytes \<Rightarrow> unit result" where
  "check_pool_script E s cfg_info pool_info script =
     (if script = [] then Inr ()
      else
      bindE (validate_pool_config_pda E s cfg_info pool_info) (\<lambda>_.
      let d = adata (s (key cfg_info)) in
      if length d < POOL_CONFIG_LEN \<or> d ! 0 \<noteq> POOL_CONFIG_DISCRIMINATOR then Inl InvalidPDA
      else
      bindE (pool_config_from_bytes d) (\<lambda>cfg.
      if get_pool_script cfg = [] then Inl PoolScriptMismatch
      else if script \<noteq> get_pool_script cfg then Inl PoolScriptMismatch
      else Inr ())))"

fun policy_scan :: "bytes \<Rightarrow> bytes \<Rightarrow> nat \<Rightarrow> tx_output list \<Rightarrow> bool" where
  "policy_scan recipient pool_script change_outputs [] = True"
| "policy_scan recipient pool_script change_outputs (x # xs) =
     (if is_op_return x then (if txo_value x \<noteq> 0 then False else policy_scan recipient pool_script change_outputs xs)
      else if script_pubkey x = recipient then policy_scan recipient pool_script change_outputs xs
      else if pool_script \<noteq> [] \<and> script_pubkey x = pool_script
      then (if change_outputs + 1 > 1 then False else policy_scan recipient pool_script (change_outputs + 1) xs)
      else False)"

definition redemption_outputs_within_policy :: "parsed_transaction \<Rightarrow> bytes \<Rightarrow> bytes \<Rightarrow> bool" where
  "redemption_outputs_within_policy tx recipient pool_script = policy_scan recipient pool_script 0 (tx_outputs tx)"

definition redemption_accounting :: "u64 \<Rightarrow> u64 \<Rightarrow> u64 \<Rightarrow> (u64 \<times> u64) result" where
  "redemption_accounting amount_sats actual_received miner_fee =
     bindE (ok_or (checked_add actual_received miner_fee) ArithmeticOverflow) (\<lambda>burn_amount.
     bindE (ok_or (checked_sub amount_sats burn_amount) RedemptionOutputMismatch) (\<lambda>protocol_revenue.
     Inr (burn_amount, protocol_revenue)))"

fun recipient_total :: "bytes \<Rightarrow> tx_output list \<Rightarrow> bool \<Rightarrow> u64 \<Rightarrow> (bool \<times> u64) result" where
  "recipient_total script [] matched acc = Inr (matched, acc)"
| "recipient_total script (x # xs) matched acc =
     (if script_pubkey x = script
      then bindE (ok_or (checked_add acc (txo_value x)) ArithmeticOverflow) (\<lambda>t. recipient_total script xs True t)
      else recipient_total script xs matched acc)"

text \<open>The amount and output rules of a completion: received amount, miner fee, burn, revenue.\<close>

definition verify_payout :: "redemption_request \<Rightarrow> pool_state \<Rightarrow> bytes \<Rightarrow> bytes \<Rightarrow> parsed_transaction \<Rightarrow>
    (u64 \<times> u64 \<times> u64 \<times> u64) result" where
  "verify_payout red pool recipient pool_script tx =
     bindE (ok_or (checked_sub (rr_amount_sats red) (rr_service_fee red)) ArithmeticOverflow) (\<lambda>expected_send.
     let min_amount = max (saturating_sub expected_send MAX_FEE_SATS)
                          (saturating_sub expected_send (expected_send div 100)) in
     bindE (recipient_total recipient (tx_outputs tx) False 0) (\<lambda>(matched, actual_received).
     if \<not> matched \<or> actual_received < min_amount \<or> actual_received > expected_send then Inl RedemptionOutputMismatch
     else if pool_script \<noteq> [] \<and> recipient = pool_script then Inl RedemptionOutputMismatch
     else if \<not> redemption_outputs_within_policy tx recipient pool_script then Inl RedemptionOutputMismatch
     else if rr_total_input_sats red = 0 then Inl AmountTooSmall
     else
     bindE (ok_or (checked_sub (rr_total_input_sats red) (sum_outputs tx)) RedemptionOutputMismatch) (\<lambda>miner_fee.
     if miner_fee > MAX_FEE_SATS then Inl RedemptionOutputMismatch
     else
     bindE (check_redemption_signing pool (rr_amount_sats red) miner_fee) (\<lambda>_.
     bindE (redemption_accounting (rr_amount_sats red) actual_received miner_fee) (\<lambda>(burn_amount, protocol_revenue).
     Inr (actual_received, miner_fee, burn_amount, protocol_revenue))))))"

section \<open>Change, consumed records, ledgers\<close>

text \<open>\<open>UtxoRecord::init\<close> and the setters after it.\<close>

definition new_utxo :: "hash32 \<Rightarrow> u32 \<Rightarrow> u64 \<Rightarrow> utxo_record" where
  "new_utxo txid vout amount =
     \<lparr>ur_discriminator = UTXO_RECORD_DISCRIMINATOR, ur_status = 0, ur_padding = 0, ur_vout = vout, ur_txid = txid,
      ur_amount_sats = amount, ur_reserved_for_request_id = 0\<rparr>"

definition utxo_init :: "pubkey \<Rightarrow> hash32 \<Rightarrow> u32 \<Rightarrow> u64 \<Rightarrow> store \<Rightarrow> store result" where
  "utxo_init k txid vout amount s =
     (if length (adata (s k)) < UTXO_RECORD_LEN then Inl InvalidAccountData
      else write_front k (encode_utxo_record (new_utxo txid vout amount)) s)"

definition record_change :: "env \<Rightarrow> account_info list \<Rightarrow> hash32 \<Rightarrow> bytes \<Rightarrow> parsed_transaction \<Rightarrow> store \<Rightarrow>
    (u64 option \<times> store) result" where
  "record_change E accounts txid pool_script tx s =
     (if pool_script \<noteq> [] \<and> length accounts \<ge> 14
      then (case find_output_by_script pool_script tx of
          None \<Rightarrow> Inr (None, s)
        | Some (out, vout) \<Rightarrow>
            let k = key (accounts ! 13) in
            if k \<noteq> fst (find_program_address E [UTXO_SEED, bytes32 (key (accounts ! 0)), bytes32 txid, bytes4 vout])
            then Inl InvalidSeeds
            else
            bindE (validate_account_writable (accounts ! 13)) (\<lambda>_.
            bindE (create_pda_account E (key (accounts ! 2)) k (rt_minimum_balance E UTXO_RECORD_LEN)
              (of_nat UTXO_RECORD_LEN) 5 s) (\<lambda>s1.
            bindE (utxo_init k txid vout (txo_value out) s1) (\<lambda>s2.
            Inr (Some (txo_value out), s2)))))
      else Inr (None, s))"

definition check_completion_token :: "env \<Rightarrow> store \<Rightarrow> account_info list \<Rightarrow> account_info \<Rightarrow> hash32 \<Rightarrow> unit result" where
  "check_completion_token E s accounts tc_info token_id =
     bindE (validate_program_owner E s tc_info) (\<lambda>_.
     bindE (validate_account_writable tc_info) (\<lambda>_.
     bindE (token_config_from_bytes (adata (s (key tc_info)))) (\<lambda>tc.
     if key tc_info \<noteq> fst (find_program_address E [TOKEN_CONFIG_SEED, bytes32 (key (accounts ! 0)), bytes32 (key (accounts ! 7))])
        \<or> tc_mint tc \<noteq> key (accounts ! 7) \<or> tc_vault tc \<noteq> key (accounts ! 8) \<or> tc_token_id tc \<noteq> token_id
     then Inl InvalidTokenConfig
     else Inr ())))"

fun consume_utxos :: "env \<Rightarrow> u64 \<Rightarrow> parsed_transaction \<Rightarrow> pubkey \<Rightarrow> account_info list \<Rightarrow> store \<Rightarrow> store result" where
  "consume_utxos E rkey tx dest [] s = Inr s"
| "consume_utxos E rkey tx dest (a # as) s =
     bindE (load_utxo E a s) (\<lambda>u.
     if ur_get_status u \<noteq> UReserved then Inl InvalidUtxo
     else if ur_reserved_for_request_id u \<noteq> rkey then Inl InvalidUtxo
     else if \<not> find_input_with_prev_outpoint (ur_txid u) (ur_vout u) tx then Inl InvalidUtxo
     else bindE (close_account_securely (key a) dest s) (consume_utxos E rkey tx dest as))"

definition settle_pool :: "env \<Rightarrow> u64 \<Rightarrow> u64 \<Rightarrow> u64 option \<Rightarrow> u64 \<Rightarrow> pool_state \<Rightarrow> pool_state result" where
  "settle_pool E burn_amount revenue change pending p =
     bindE (add_burned burn_amount p) (\<lambda>p1.
     bindE (if revenue > 0 then add_fee_pool revenue p1 else Inr p1) (\<lambda>p2.
     bindE (case change of None \<Rightarrow> Inr p2 | Some c \<Rightarrow> add_utxo c p2) (\<lambda>p3.
     Inr (p3\<lparr>ps_pending_redemptions := saturating_sub pending 1, ps_last_update := clock_unix_timestamp E\<rparr>))))"

definition credit_revenue :: "pubkey \<Rightarrow> u64 \<Rightarrow> store \<Rightarrow> store result" where
  "credit_revenue tck revenue s =
     (if revenue > 0
      then bindE (token_config_from_bytes (adata (s tck))) (\<lambda>tc.
           bindE (tc_add_fees revenue tc) (\<lambda>tc'. write_front tck (encode_token_config tc') s))
      else Inr s)"

section \<open>The handler\<close>

text \<open>The account checks and the driver rule; the result is the pool as read there.\<close>

definition complete_checks :: "env \<Rightarrow> account_info list \<Rightarrow> store \<Rightarrow> pool_state result" where
  "complete_checks E accounts s =
     (if \<not> is_signer (accounts ! 2) then Inl MissingRequiredSignature
      else
      bindE (validate_program_owner E s (accounts ! 0)) (\<lambda>_.
      bindE (validate_program_owner E s (accounts ! 1)) (\<lambda>_.
      bindE (validate_redemption_pda E s (accounts ! 1) (accounts ! 0)) (\<lambda>_.
      bindE (validate_account_writable (accounts ! 10)) (\<lambda>_.
      bindE (validate_owned_by (lc_program_id E) s (accounts ! 4)) (\<lambda>_.
      bindE (validate_owned_by (lc_program_id E) s (accounts ! 5)) (\<lambda>_.
      bindE (validate_token_owner s (accounts ! 7)) (\<lambda>_.
      bindE (validate_token_owner s (accounts ! 8)) (\<lambda>_.
      bindE (validate_any_token_program_key (accounts ! 9)) (\<lambda>_.
      bindE (validate_account_writable (accounts ! 0)) (\<lambda>_.
      bindE (validate_account_writable (accounts ! 1)) (\<lambda>_.
      bindE (validate_account_writable (accounts ! 7)) (\<lambda>_.
      bindE (validate_account_writable (accounts ! 8)) (\<lambda>_.
      bindE (pool_state_from_bytes (adata (s (key (accounts ! 0))))) (\<lambda>pool.
      bindE (redemption_request_from_bytes (adata (s (key (accounts ! 1))))) (\<lambda>red.
      bindE (redemption_driver_is_allowed (key (accounts ! 2)) (ps_authority pool) (rr_requester red)) (\<lambda>_.
      Inr pool)))))))))))))))))"

text \<open>The broadcast transaction: confirmed, hashed to the given id and parsed.\<close>

definition settled_transaction :: "env \<Rightarrow> account_info list \<Rightarrow> hash32 \<Rightarrow> nat \<Rightarrow> store \<Rightarrow> parsed_transaction result" where
  "settled_transaction E accounts txid tx_size s =
     bindE (spv_gate RedemptionSpvFailed SETTLE_CONFIRMATIONS None E accounts (accounts ! 4) (accounts ! 5) txid s) (\<lambda>_.
     bindE (validate_chadbuffer_owner E s (accounts ! 6)) (\<lambda>_.
     bindE (read_transaction_from_buffer (adata (s (key (accounts ! 6)))) tx_size) (\<lambda>raw.
     if compute_tx_hash E raw \<noteq> txid then Inl RedemptionSpvFailed
     else map_err RedemptionSpvFailed (parse_transaction raw))))"

definition process_complete_redemption :: "invoke \<Rightarrow> env \<Rightarrow> account_info list \<Rightarrow> bytes \<Rightarrow> store \<Rightarrow> store result" where
  "process_complete_redemption I E accounts d s =
     (if length accounts < 13 then Inl NotEnoughAccountKeys
      else
      let pk = key (accounts ! 0); rk = key (accounts ! 1); mint = key (accounts ! 7) in
      bindE (complete_redemption_data_from_bytes d) (\<lambda>ix.
      let txid = crd_btc_txid ix; pool_script = crd_pool_script ix in
      bindE (complete_checks E accounts s) (\<lambda>pool0.
      bindE (check_pool_script E s (accounts ! 12) (accounts ! 0) pool_script) (\<lambda>_.
      bindE (record_completion E (key (accounts ! 2)) (accounts ! 10) txid s) (\<lambda>s1.
      bindE (redemption_request_from_bytes (adata (s1 rk))) (\<lambda>red.
      if rr_get_status red \<noteq> RProcessing then Inl InvalidRedemptionState
      else
      bindE (get_btc_script red) (\<lambda>recipient.
      bindE (settled_transaction E accounts txid (unat (crd_tx_size ix)) s1) (\<lambda>tx.
      bindE (pool_state_from_bytes (adata (s1 pk))) (\<lambda>pool1.
      bindE (verify_payout red pool1 recipient pool_script tx) (\<lambda>(received, miner_fee, burn_amount, revenue).
      bindE (burn_zkbtc_signed I (key (accounts ! 9)) mint (key (accounts ! 8)) pk burn_amount
        [POOL_STATE_SEED, bytes32 mint, [ps_bump pool0]] s1) (\<lambda>s2.
      bindE (record_change E accounts txid pool_script tx s2) (\<lambda>(change, s3).
      let n = unat (crd_consumed_utxo_count ix); start = (if pool_script \<noteq> [] then 14 else 13) in
      if n > MAX_CONSUMED_UTXOS then Inl InvalidInstructionData
      else if n \<noteq> unat (rr_reserved_count red) then Inl InvalidUtxo
      else if length accounts \<le> start + n then Inl NotEnoughAccountKeys
      else
      bindE (check_completion_token E s3 accounts (accounts ! (start + n)) (rr_token_id red)) (\<lambda>_.
      bindE (consume_utxos E (redemption_reservation_key E rk) tx (key (accounts ! 3)) (take n (drop start accounts)) s3) (\<lambda>s4.
      if length (tx_inputs tx) \<noteq> n then Inl RedemptionOutputMismatch
      else
      bindE (pool_state_from_bytes (adata (s4 pk))) (\<lambda>pool4.
      bindE (settle_pool E burn_amount revenue change (ps_pending_redemptions pool0) pool4) (\<lambda>pool5.
      bindE (write_front pk (encode_pool_state pool5) s4) (\<lambda>s5.
      bindE (credit_revenue (key (accounts ! (start + n))) revenue s5) (\<lambda>s6.
      close_account_securely rk (key (accounts ! 3)) s6))))))))))))))))))"

section \<open>Every satoshi is accounted for\<close>

definition paid_to :: "bytes \<Rightarrow> tx_output list \<Rightarrow> nat" where
  "paid_to script xs = (\<Sum>x\<leftarrow>xs. if script_pubkey x = script then unat (txo_value x) else 0)"

text \<open>What the handler tracks as change: the first output to the pool script.\<close>

definition change_sats :: "bytes \<Rightarrow> parsed_transaction \<Rightarrow> nat" where
  "change_sats pool_script tx =
     (if pool_script = [] then 0
      else case find_output_by_script pool_script tx of None \<Rightarrow> 0 | Some (x, _) \<Rightarrow> unat (txo_value x))"

definition policy_output :: "bytes \<Rightarrow> bytes \<Rightarrow> tx_output \<Rightarrow> bool" where
  "policy_output recipient pool_script x \<longleftrightarrow>
     script_pubkey x = recipient \<or> pool_script \<noteq> [] \<and> script_pubkey x = pool_script \<or> is_op_return x \<and> txo_value x = 0"

lemma policy_scan_outputs: "policy_scan r p c xs \<Longrightarrow> \<forall>x \<in> set xs. policy_output r p x"
  by (induction xs arbitrary: c) (auto simp: policy_output_def split: if_splits)

lemma policy_scan_op_return: "policy_scan r p c xs \<Longrightarrow> x \<in> set xs \<Longrightarrow> is_op_return x \<Longrightarrow> txo_value x = 0"
  by (induction xs arbitrary: c) (auto split: if_splits)

lemma policy_scan_change:
  "policy_scan r p c xs \<Longrightarrow> c \<le> 1 \<Longrightarrow> p \<noteq> [] \<Longrightarrow> r \<noteq> p \<Longrightarrow>
     c + length (filter (\<lambda>x. script_pubkey x = p \<and> \<not> is_op_return x) xs) \<le> 1"
proof (induction xs arbitrary: c)
  case (Cons x xs)
  then show ?case by (cases "script_pubkey x = p \<and> \<not> is_op_return x") (fastforce split: if_splits)+
qed simp

lemma u64_le: "unat (a::u64) \<le> 2 ^ 64 - 1"
  using unat_bound [of a] by simp

lemma u64_not_max: "(a::u64) \<noteq> - 1 \<longleftrightarrow> unat a < 2 ^ 64 - 1"
proof -
  have "unat (- 1 :: u64) = 2 ^ 64 - 1" by (simp add: unsigned_minus_1_eq_mask mask_eq_exp_minus_1)
  with u64_le [of a] show ?thesis by (auto simp only: word_unat_eq_iff le_less)
qed

lemma sum_outputs_fold:
  "unat (fold (\<lambda>x total. saturating_add total (txo_value x)) xs (a::u64)) =
     min (unat a + (\<Sum>x\<leftarrow>xs. unat (txo_value x))) (2 ^ 64 - 1)"
  by (induction xs arbitrary: a) (use u64_le in \<open>auto simp: unat_saturating_add\<close>)

lemma unat_sum_outputs: "unat (sum_outputs tx) = min (\<Sum>x\<leftarrow>tx_outputs tx. unat (txo_value x)) (2 ^ 64 - 1)"
  by (simp add: sum_outputs_def sum_outputs_fold)

lemma recipient_total_ok:
  "recipient_total r xs m a = Inr (m', t) \<Longrightarrow> unat t = unat a + paid_to r xs"
  by (induction xs arbitrary: m a) (auto simp: paid_to_def res_simps dest!: unat_checked_add split: if_splits)

lemma paid_partition:
  assumes "\<forall>x \<in> set xs. policy_output r p x" and "p \<noteq> [] \<longrightarrow> r \<noteq> p"
  shows "(\<Sum>x\<leftarrow>xs. unat (txo_value x)) = paid_to r xs + (if p = [] then 0 else paid_to p xs)"
  using assms by (induction xs) (auto simp: paid_to_def policy_output_def)

lemma paid_zero: "\<forall>x \<in> set xs. script_pubkey x = p \<longrightarrow> txo_value x = 0 \<Longrightarrow> paid_to p xs = 0"
  by (auto simp: paid_to_def sum_list_eq_0_iff)

lemma find_enumerate: "map_option snd (find (\<lambda>(_, x). P x) (enumerate n xs)) = find P xs"
  by (induction xs arbitrary: n) simp_all

lemma change_is_paid:
  assumes scan: "policy_scan r p 0 (tx_outputs tx)" and "p \<noteq> []" and "r \<noteq> p"
  shows "change_sats p tx = paid_to p (tx_outputs tx)"
proof -
  let ?xs = "tx_outputs tx"
  have one: "length (filter (\<lambda>x. script_pubkey x = p \<and> \<not> is_op_return x) ?xs) \<le> 1"
    using policy_scan_change [OF scan] assms by simp
  have find: "change_sats p tx = (case find (\<lambda>x. script_pubkey x = p) ?xs of None \<Rightarrow> 0 | Some x \<Rightarrow> unat (txo_value x))"
    using assms(2) find_enumerate [where P = "\<lambda>x. script_pubkey x = p" and n = 0 and xs = ?xs]
    by (auto simp: change_sats_def find_output_by_script_def split: option.splits)
  show ?thesis
  proof (cases "\<exists>x \<in> set ?xs. script_pubkey x = p \<and> is_op_return x")
    case True
    then have "is_op_return x" if "script_pubkey x = p" for x using that by (auto simp: is_op_return_def)
    then have zero: "\<forall>x \<in> set ?xs. script_pubkey x = p \<longrightarrow> txo_value x = 0"
      using policy_scan_op_return [OF scan] by blast
    then show ?thesis
      by (auto simp: find paid_zero split: option.splits dest!: find_Some_iff [THEN iffD1])
  next
    case False
    have *: "length (filter (\<lambda>x. script_pubkey x = p) ys) \<le> 1 \<Longrightarrow>
      (case find (\<lambda>x. script_pubkey x = p) ys of None \<Rightarrow> 0 | Some x \<Rightarrow> unat (txo_value x)) = paid_to p ys" for ys
      by (induction ys) (auto simp: paid_to_def filter_empty_conv intro!: sum_list_0 [symmetric])
    from False have "filter (\<lambda>x. script_pubkey x = p \<and> \<not> is_op_return x) ?xs = filter (\<lambda>x. script_pubkey x = p) ?xs"
      by (auto intro: filter_cong)
    with one * [of ?xs] show ?thesis by (simp add: find)
  qed
qed

lemma check_redemption_signing_ok:
  "check_redemption_signing pool amount fee = Inr u \<longleftrightarrow>
     \<not> is_paused pool \<and> amount \<le> MAX_REDEMPTION_AMOUNT_SATS \<and> fee \<le> MAX_MINER_FEE_SATS"
  by (auto simp: check_redemption_signing_def)

lemma payout_run:
  assumes "verify_payout red pool recipient pool_script tx = Inr (received, fee, burn, revenue)"
  shows "\<exists>send m. checked_sub (rr_amount_sats red) (rr_service_fee red) = Some send \<and>
     recipient_total recipient (tx_outputs tx) False 0 = Inr (m, received) \<and>
     max (saturating_sub send MAX_FEE_SATS) (saturating_sub send (send div 100)) \<le> received \<and> received \<le> send \<and>
     (pool_script \<noteq> [] \<longrightarrow> recipient \<noteq> pool_script) \<and> policy_scan recipient pool_script 0 (tx_outputs tx) \<and>
     checked_sub (rr_total_input_sats red) (sum_outputs tx) = Some fee \<and> fee \<le> MAX_FEE_SATS \<and>
     check_redemption_signing pool (rr_amount_sats red) fee = Inr () \<and>
     checked_add received fee = Some burn \<and> checked_sub (rr_amount_sats red) burn = Some revenue"
  using assms unfolding verify_payout_def Let_def redemption_accounting_def redemption_outputs_within_policy_def
  apply (simp only: run_simps)
  apply (elim exE conjE)
  apply (auto simp: not_less)
  done

lemma payout_tolerance:
  fixes send received :: u64
  assumes "max (saturating_sub send MAX_FEE_SATS) (saturating_sub send (send div 100)) \<le> received"
  shows "unat send \<le> unat received + 50000" and "99 * unat send \<le> 100 * unat received"
proof -
  have "saturating_sub send MAX_FEE_SATS \<le> received" "saturating_sub send (send div 100) \<le> received"
    using assms by (simp_all add: max_def split: if_splits)
  then have a: "unat send - 50000 \<le> unat received" "unat send - unat send div 100 \<le> unat received"
    by (simp_all add: word_le_nat_alt unat_saturating_sub MAX_FEE_SATS_def unat_div)
  from a(1) show "unat send \<le> unat received + 50000" by linarith
  have "100 * (unat send div 100) \<le> unat send" by simp
  with a(2) show "99 * unat send \<le> 100 * unat received" by linarith
qed

lemma payout_facts:
  assumes run: "verify_payout red pool recipient pool_script tx = Inr (received, fee, burn, revenue)"
    and tot: "rr_total_input_sats red \<noteq> - 1"
  defines "net \<equiv> unat (rr_amount_sats red) - unat (rr_service_fee red)"
  shows "(\<forall>x \<in> set (tx_outputs tx). policy_output recipient pool_script x) \<and>
     unat received = paid_to recipient (tx_outputs tx) \<and>
     unat (rr_total_input_sats red) = unat received + change_sats pool_script tx + unat fee \<and>
     unat burn = unat received + unat fee \<and> unat (rr_amount_sats red) = unat burn + unat revenue \<and>
     unat received \<le> net \<and> 99 * net \<le> 100 * unat received \<and> net \<le> unat received + 50000 \<and>
     unat fee \<le> 50000 \<and> \<not> is_paused pool \<and> rr_amount_sats red \<le> MAX_REDEMPTION_AMOUNT_SATS"
proof -
  from payout_run [OF run] obtain send m where send: "checked_sub (rr_amount_sats red) (rr_service_fee red) = Some send"
    and rt: "recipient_total recipient (tx_outputs tx) False 0 = Inr (m, received)"
    and lo: "max (saturating_sub send MAX_FEE_SATS) (saturating_sub send (send div 100)) \<le> received" and hi: "received \<le> send"
    and ne: "pool_script \<noteq> [] \<longrightarrow> recipient \<noteq> pool_script" and scan: "policy_scan recipient pool_script 0 (tx_outputs tx)"
    and fee: "checked_sub (rr_total_input_sats red) (sum_outputs tx) = Some fee" "fee \<le> MAX_FEE_SATS"
    and pol: "check_redemption_signing pool (rr_amount_sats red) fee = Inr ()"
    and burn: "checked_add received fee = Some burn" "checked_sub (rr_amount_sats red) burn = Some revenue" by blast
  note outs = policy_scan_outputs [OF scan]
  have net: "unat send = net" using unat_checked_sub [OF send] by (simp add: net_def)
  have rec: "unat received = paid_to recipient (tx_outputs tx)" using recipient_total_ok [OF rt] by simp
  have chg: "change_sats pool_script tx = (if pool_script = [] then 0 else paid_to pool_script (tx_outputs tx))"
    using change_is_paid [OF scan] ne by (simp add: change_sats_def)
  have "unat (rr_total_input_sats red) < 2 ^ 64 - 1" using tot by (simp only: u64_not_max)
  then have "unat (sum_outputs tx) = (\<Sum>x\<leftarrow>tx_outputs tx. unat (txo_value x))"
    using unat_checked_sub [OF fee(1)] unat_sum_outputs [of tx] by linarith
  then have sum: "unat (sum_outputs tx) = unat received + change_sats pool_script tx"
    using paid_partition [OF outs ne] by (simp add: rec chg)
  have "unat fee \<le> 50000" using fee(2) by (simp add: word_le_nat_alt MAX_FEE_SATS_def)
  moreover have "unat received \<le> net" using hi by (simp add: word_le_nat_alt net)
  moreover have "unat (rr_total_input_sats red) = unat received + change_sats pool_script tx + unat fee"
    using unat_checked_sub [OF fee(1)] sum by linarith
  moreover have "unat burn = unat received + unat fee" "unat (rr_amount_sats red) = unat burn + unat revenue"
    using unat_checked_add [OF burn(1)] unat_checked_sub [OF burn(2)] by linarith+
  ultimately show ?thesis
    using outs rec pol payout_tolerance [OF lo, unfolded net] by (simp only: check_redemption_signing_ok simp_thms)
qed

text \<open>
  C30. The payout rules conserve satoshis. When they accept a transaction, each of its outputs pays the
  recipient, is change to the pool, or is a zero-value marker; the reserved input total is the sum
  of what the recipient gets, the one change output the bridge tracks, and the miner fee; the
  amount burned is what left custody, and burn plus protocol revenue is the amount redeemed. The
  recipient gets at most the net amount, at least 99 percent of it, and at most 50000 satoshis
  less; the miner fee is at most 50000; the pool is not paused and the amount within the signing
  limit. The input total is not the largest 64-bit number, because the output sum saturates there.
\<close>

theorem payout_conserves:
  assumes run: "verify_payout red pool recipient pool_script tx = Inr (received, fee, burn, revenue)"
    and tot: "rr_total_input_sats red \<noteq> - 1"
  defines "net \<equiv> unat (rr_amount_sats red) - unat (rr_service_fee red)"
  shows "(\<forall>x \<in> set (tx_outputs tx). policy_output recipient pool_script x) \<and>
     unat received = paid_to recipient (tx_outputs tx) \<and>
     unat (rr_total_input_sats red) = unat received + change_sats pool_script tx + unat fee \<and>
     unat burn = unat received + unat fee \<and> unat (rr_amount_sats red) = unat burn + unat revenue \<and>
     unat received \<le> net \<and> 99 * net \<le> 100 * unat received \<and> net \<le> unat received + 50000 \<and>
     unat fee \<le> 50000 \<and> \<not> is_paused pool \<and> rr_amount_sats red \<le> MAX_REDEMPTION_AMOUNT_SATS"
  unfolding net_def by (rule payout_facts [OF run tot])

section \<open>The steps of the handler\<close>

lemma record_completion_ok:
  assumes spec: "system_program_spec E" and run: "record_completion E payer receipt txid s = Inr s1"
  shows "frame {key receipt} s s1" and "owner (s1 (key receipt)) = program_id E"
    and "adata (s1 (key receipt)) \<noteq> []" and "adata (s1 (key receipt)) ! 0 = 0x08"
    and "key receipt = fst (find_program_address E [COMPLETION_RECEIPT_SEED, bytes32 txid])"
    and "\<not> (adata (s (key receipt)) \<noteq> [] \<and> adata (s (key receipt)) ! 0 = 0x08)"
proof -
  from run obtain s0 where k: "key receipt = fst (find_program_address E [COMPLETION_RECEIPT_SEED, bytes32 txid])"
    and new: "\<not> (adata (s (key receipt)) \<noteq> [] \<and> adata (s (key receipt)) ! 0 = COMPLETION_RECEIPT_DISCRIMINATOR)"
    and c: "create_or_claim_pda E payer (key receipt) (rt_minimum_balance E COMPLETION_RECEIPT_LEN) (of_nat COMPLETION_RECEIPT_LEN) s = Inr s0"
    and w: "write_front (key receipt) [COMPLETION_RECEIPT_DISCRIMINATOR] s0 = Inr s1"
    unfolding record_completion_def receipt_init_def create_pda_account_def by (auto simp: run_simps)
  note W = claim_then_write [OF spec c w]
  from W(3) obtain rest where "adata (s1 (key receipt)) = COMPLETION_RECEIPT_DISCRIMINATOR # rest" by auto
  with W(1,2) k new show "frame {key receipt} s s1" "owner (s1 (key receipt)) = program_id E"
    "adata (s1 (key receipt)) \<noteq> []" "adata (s1 (key receipt)) ! 0 = 0x08"
    "key receipt = fst (find_program_address E [COMPLETION_RECEIPT_SEED, bytes32 txid])"
    "\<not> (adata (s (key receipt)) \<noteq> [] \<and> adata (s (key receipt)) ! 0 = 0x08)"
    by (auto simp: COMPLETION_RECEIPT_DISCRIMINATOR_def)
qed

lemma record_change_ok:
  assumes spec: "system_program_spec E" and run: "record_change E accounts txid p tx s = Inr (change, s')"
    and len: "p \<noteq> [] \<longrightarrow> 14 \<le> length accounts"
  defines "k \<equiv> key (accounts ! 13)"
  shows "case change of None \<Rightarrow> s' = s \<and> change_sats p tx = 0
    | Some c \<Rightarrow> unat c = change_sats p tx \<and> frame {k} s s' \<and> owner (s' k) = program_id E \<and>
        (\<exists>vout. record_at s' k = Inr (new_utxo txid vout c))"
proof (cases "p = [] \<or> find_output_by_script p tx = None")
  case True
  with run len show ?thesis by (auto simp: record_change_def change_sats_def split: if_splits)
next
  case False
  then obtain x vout where f: "find_output_by_script p tx = Some (x, vout)" and p: "p \<noteq> []" by auto
  with run len obtain s1 where c: "create_or_claim_pda E (key (accounts ! 2)) k (rt_minimum_balance E UTXO_RECORD_LEN) (of_nat UTXO_RECORD_LEN) s = Inr s1"
    and w: "write_front k (encode_utxo_record (new_utxo txid vout (txo_value x))) s1 = Inr s'" and ch: "change = Some (txo_value x)"
    by (auto simp: record_change_def create_pda_account_def utxo_init_def Let_def k_def run_simps)
  note W = claim_then_write [OF spec c w]
  have "ur_discriminator (new_utxo txid vout (txo_value x)) = UTXO_RECORD_DISCRIMINATOR" by (simp add: new_utxo_def)
  from url.from_bytes_after_write [OF w this]
  have "record_at s' k = Inr (new_utxo txid vout (txo_value x))" by (simp add: record_at_def utxo_record_from_bytes_def)
  with W(1,2) p f ch show ?thesis by (auto simp: change_sats_def)
qed

text \<open>A record the transaction spends, of the request the completion closes.\<close>

definition spent_record :: "u64 \<Rightarrow> parsed_transaction \<Rightarrow> utxo_record \<Rightarrow> bool" where
  "spent_record rkey tx u \<longleftrightarrow> ur_get_status u = UReserved \<and> ur_reserved_for_request_id u = rkey \<and>
     find_input_with_prev_outpoint (ur_txid u) (ur_vout u) tx"

lemma consume_utxos_ok:
  "consume_utxos E rkey tx dest as s = Inr s' \<Longrightarrow>
     \<exists>us. distinct (map key as) \<and>
       list_all2 (\<lambda>a u. record_at s (key a) = Inr u \<and> owner (s (key a)) = program_id E \<and> spent_record rkey tx u \<and>
         adata (s' (key a)) ! 0 = 0xFF) as us \<and>
       (\<forall>k. k \<notin> key ` set as \<longrightarrow> adata (s' k) = adata (s k)) \<and> (\<forall>k. owner (s' k) = owner (s k))"
proof (induction as arbitrary: s)
  case (Cons a as)
  from Cons.prems obtain u s1 where u: "load_utxo E a s = Inr u" "spent_record rkey tx u"
    and c: "close_account_securely (key a) dest s = Inr s1" and rest: "consume_utxos E rkey tx dest as s1 = Inr s'"
    by (auto simp: spent_record_def run_simps)
  note L = load_utxo_ok [OF u(1)]
  have "adata (s (key a)) \<noteq> []"
    using L(1) by (auto simp: record_at_def utxo_record_from_bytes_def layout_from_bytes_def UTXO_RECORD_LEN_def)
  note C = close_account_ok [OF c this]
  have ff: "adata (s1 (key a)) ! 0 = 0xFF" by (simp add: C(1))
  from Cons.IH [OF rest] obtain us where dist: "distinct (map key as)"
    and all: "list_all2 (\<lambda>a u. record_at s1 (key a) = Inr u \<and> owner (s1 (key a)) = program_id E \<and> spent_record rkey tx u \<and>
         adata (s' (key a)) ! 0 = 0xFF) as us"
    and fr: "\<And>k. k \<notin> key ` set as \<Longrightarrow> adata (s' k) = adata (s1 k)" and ow: "\<And>k. owner (s' k) = owner (s1 k)" by blast
  have nin: "key a \<notin> key ` set as"
  proof
    assume "key a \<in> key ` set as"
    then obtain b v where "record_at s1 (key a) = Inr v"
      using all by (auto simp: list_all2_conv_all_nth in_set_conv_nth)
    from first_byte_at(4) [OF this] ff show False by simp
  qed
  have "list_all2 (\<lambda>a u. record_at s (key a) = Inr u \<and> owner (s (key a)) = program_id E \<and> spent_record rkey tx u \<and>
         adata (s' (key a)) ! 0 = 0xFF) as us"
    using all nin C(2,3) by (elim list.rel_mono_strong) (auto simp: record_at_def image_iff)
  then show ?case
    using L u dist nin fr ow C ff by (intro exI [of _ "u # us"]) auto
qed simp

lemma set_utxo_count_ledgers [simp]:
  "ps_total_burned (set_utxo_count c p) = ps_total_burned p" "ps_fee_pool (set_utxo_count c p) = ps_fee_pool p"
  by (simp_all add: set_utxo_count_def)

lemma settle_pool_ok:
  assumes "settle_pool E burn revenue change pending p = Inr p'"
  shows "unat (ps_total_burned p') = unat (ps_total_burned p) + unat burn"
    and "unat (ps_fee_pool p') = unat (ps_fee_pool p) + unat revenue"
    and "unat (ps_total_btc_held p') = unat (ps_total_btc_held p) + (case change of None \<Rightarrow> 0 | Some c \<Rightarrow> unat c)"
    and "unat (utxo_count p') = unat (utxo_count p) + (if change = None then 0 else 1)"
    and "ps_pending_redemptions p' = saturating_sub pending 1" and "ps_discriminator p' = ps_discriminator p"
proof -
  from assms obtain b f q where b: "checked_add (ps_total_burned p) burn = Some b"
    and f: "unat f = unat (ps_fee_pool p) + unat revenue"
    and q: "(case change of None \<Rightarrow> Inr (p\<lparr>ps_total_burned := b, ps_fee_pool := f\<rparr>)
        | Some c \<Rightarrow> add_utxo c (p\<lparr>ps_total_burned := b, ps_fee_pool := f\<rparr>)) = Inr q"
    and p': "p' = q\<lparr>ps_pending_redemptions := saturating_sub pending 1, ps_last_update := clock_unix_timestamp E\<rparr>"
  proof -
    from assms obtain b p2 q where b: "checked_add (ps_total_burned p) burn = Some b"
      and p2: "(if revenue > 0 then add_fee_pool revenue (p\<lparr>ps_total_burned := b\<rparr>) else Inr (p\<lparr>ps_total_burned := b\<rparr>)) = Inr p2"
      and q: "(case change of None \<Rightarrow> Inr p2 | Some c \<Rightarrow> add_utxo c p2) = Inr q"
      and p': "p' = q\<lparr>ps_pending_redemptions := saturating_sub pending 1, ps_last_update := clock_unix_timestamp E\<rparr>"
      by (auto simp: settle_pool_def add_burned_def run_simps)
    from p2 have "p2 = p\<lparr>ps_total_burned := b, ps_fee_pool := ps_fee_pool p2\<rparr>"
      "unat (ps_fee_pool p2) = unat (ps_fee_pool p) + unat revenue"
      by (cases "revenue > 0";
          auto simp: add_fee_pool_def run_simps word_gt_0 dest!: unat_checked_add intro!: pool_state.equality)+
    with b q p' that show thesis by metis
  qed
  have *: "utxo_count (x\<lparr>ps_pending_redemptions := a, ps_last_update := c\<rparr>) = utxo_count x"
    "utxo_count (x\<lparr>ps_total_burned := d, ps_fee_pool := e\<rparr>) = utxo_count x" for x a c d e
    by (simp_all add: utxo_count_def)
  show "unat (ps_total_burned p') = unat (ps_total_burned p) + unat burn"
    "unat (ps_fee_pool p') = unat (ps_fee_pool p) + unat revenue"
    "unat (ps_total_btc_held p') = unat (ps_total_btc_held p) + (case change of None \<Rightarrow> 0 | Some c \<Rightarrow> unat c)"
    "unat (utxo_count p') = unat (utxo_count p) + (if change = None then 0 else 1)"
    "ps_pending_redemptions p' = saturating_sub pending 1" "ps_discriminator p' = ps_discriminator p"
    using q f unat_checked_add [OF b]
    by (auto simp: p' * add_utxo_def run_simps split: option.splits dest!: unat_checked_add)
qed

lemma credit_revenue_ok:
  assumes "credit_revenue k revenue s = Inr s'" and "token_at s k = Inr tc"
  shows "\<exists>tc'. token_at s' k = Inr tc' \<and> tc' = tc\<lparr>tc_accumulated_fees := tc_accumulated_fees tc'\<rparr> \<and>
       unat (tc_accumulated_fees tc') = unat (tc_accumulated_fees tc) + unat revenue"
    and "k' \<noteq> k \<Longrightarrow> s' k' = s k'" and "owner (s' k') = owner (s k')" and "lamports (s' k') = lamports (s k')"
proof -
  have "(\<exists>tc'. token_at s' k = Inr tc' \<and> tc' = tc\<lparr>tc_accumulated_fees := tc_accumulated_fees tc'\<rparr> \<and>
       unat (tc_accumulated_fees tc') = unat (tc_accumulated_fees tc) + unat revenue) \<and>
    (k' \<noteq> k \<longrightarrow> s' k' = s k') \<and> owner (s' k') = owner (s k') \<and> lamports (s' k') = lamports (s k')"
  proof (cases "revenue > 0")
    case True
    with assms obtain v where v: "checked_add (tc_accumulated_fees tc) revenue = Some v"
      and w: "write_front k (encode_token_config (tc\<lparr>tc_accumulated_fees := v\<rparr>)) s = Inr s'"
      by (auto simp: credit_revenue_def tc_add_fees_def run_simps)
    have "tc_discriminator (tc\<lparr>tc_accumulated_fees := v\<rparr>) = TOKEN_CONFIG_DISCRIMINATOR"
      using discriminator_at(3) [of s k tc] assms(2) by simp
    from write_token [OF w this] unat_checked_add [OF v] show ?thesis by auto
  next
    case False
    with assms show ?thesis by (auto simp: credit_revenue_def word_gt_0)
  qed
  then show "\<exists>tc'. token_at s' k = Inr tc' \<and> tc' = tc\<lparr>tc_accumulated_fees := tc_accumulated_fees tc'\<rparr> \<and>
       unat (tc_accumulated_fees tc') = unat (tc_accumulated_fees tc) + unat revenue"
    "k' \<noteq> k \<Longrightarrow> s' k' = s k'" "owner (s' k') = owner (s k')" "lamports (s' k') = lamports (s k')" by blast+
qed

lemma complete_checks_ok:
  "complete_checks E accounts s = Inr pool \<Longrightarrow>
     is_signer (accounts ! 2) \<and> pool_pda_ok E s (key (accounts ! 0)) \<and> owner (s (key (accounts ! 1))) = program_id E \<and>
     owner (s (key (accounts ! 7))) \<in> {TOKEN_PROGRAM_ID, TOKEN_2022_PROGRAM_ID} \<and>
     owner (s (key (accounts ! 8))) \<in> {TOKEN_PROGRAM_ID, TOKEN_2022_PROGRAM_ID} \<and>
     key (accounts ! 9) \<in> {TOKEN_PROGRAM_ID, TOKEN_2022_PROGRAM_ID} \<and>
     pool_at s (key (accounts ! 0)) = Inr pool \<and>
     (\<exists>red. request_at s (key (accounts ! 1)) = Inr red \<and>
        (key (accounts ! 2) = ps_authority pool \<or> key (accounts ! 2) = rr_requester red))"
  unfolding complete_checks_def by (auto simp: run_simps validate_token_owner_iff validate_any_token_program_key_iff)

text \<open>The addresses of the handler, and the accounts of the records it consumes.\<close>

definition completion_start :: "complete_redemption_data \<Rightarrow> nat" where
  "completion_start ix = (if crd_pool_script ix \<noteq> [] then 14 else 13)"

definition consumed_accounts :: "account_info list \<Rightarrow> complete_redemption_data \<Rightarrow> redemption_request \<Rightarrow> account_info list" where
  "consumed_accounts accounts ix red = take (unat (rr_reserved_count red)) (drop (completion_start ix) accounts)"

definition completion_token :: "account_info list \<Rightarrow> complete_redemption_data \<Rightarrow> redemption_request \<Rightarrow> pubkey" where
  "completion_token accounts ix red = key (accounts ! (completion_start ix + unat (rr_reserved_count red)))"

lemma complete_run:
  assumes run: "process_complete_redemption I E accounts d s = Inr s'"
  defines "pk \<equiv> key (accounts ! 0)" and "rk \<equiv> key (accounts ! 1)" and "mint \<equiv> key (accounts ! 7)" and "vault \<equiv> key (accounts ! 8)"
  shows "\<exists>ix pool0 s1 red recipient tx pool1 received fee burn revenue s2 change s3 s4 pool4 pool5 s5 s6.
    complete_redemption_data_from_bytes d = Inr ix \<and> complete_checks E accounts s = Inr pool0 \<and>
    check_pool_script E s (accounts ! 12) (accounts ! 0) (crd_pool_script ix) = Inr () \<and>
    record_completion E (key (accounts ! 2)) (accounts ! 10) (crd_btc_txid ix) s = Inr s1 \<and>
    request_at s1 rk = Inr red \<and> rr_get_status red = RProcessing \<and> get_btc_script red = Inr recipient \<and>
    settled_transaction E accounts (crd_btc_txid ix) (unat (crd_tx_size ix)) s1 = Inr tx \<and>
    pool_at s1 pk = Inr pool1 \<and>
    verify_payout red pool1 recipient (crd_pool_script ix) tx = Inr (received, fee, burn, revenue) \<and>
    burn_zkbtc_signed I (key (accounts ! 9)) mint vault pk burn [POOL_STATE_SEED, bytes32 mint, [ps_bump pool0]] s1 = Inr s2 \<and>
    record_change E accounts (crd_btc_txid ix) (crd_pool_script ix) tx s2 = Inr (change, s3) \<and>
    unat (rr_reserved_count red) \<le> MAX_CONSUMED_UTXOS \<and>
    completion_start ix + unat (rr_reserved_count red) < length accounts \<and>
    check_completion_token E s3 accounts (accounts ! (completion_start ix + unat (rr_reserved_count red))) (rr_token_id red) = Inr () \<and>
    consume_utxos E (redemption_reservation_key E rk) tx (key (accounts ! 3)) (consumed_accounts accounts ix red) s3 = Inr s4 \<and>
    length (tx_inputs tx) = unat (rr_reserved_count red) \<and> pool_at s4 pk = Inr pool4 \<and>
    settle_pool E burn revenue change (ps_pending_redemptions pool0) pool4 = Inr pool5 \<and>
    write_front pk (encode_pool_state pool5) s4 = Inr s5 \<and>
    credit_revenue (completion_token accounts ix red) revenue s5 = Inr s6 \<and>
    close_account_securely rk (key (accounts ! 3)) s6 = Inr s'"
proof -
  note assms(1)
  then show ?thesis
    unfolding process_complete_redemption_def Let_def completion_start_def consumed_accounts_def completion_token_def
    apply (simp only: run_simps pk_def [symmetric] rk_def [symmetric] mint_def [symmetric] vault_def [symmetric])
    apply (elim exE conjE)
    apply (intro exI conjI; (assumption | rule refl | simp))
    done
qed

section \<open>What a completion does\<close>

text \<open>The derived addresses of the receipt and the change record are none of the other accounts.\<close>

definition completion_apart :: "account_info list \<Rightarrow> bool" where
  "completion_apart accounts \<longleftrightarrow> key (accounts ! 10) \<noteq> key (accounts ! 13) \<and>
     {key (accounts ! 10), key (accounts ! 13)} \<inter> {key (accounts ! 1), key (accounts ! 7), key (accounts ! 8)} = {}"

lemma token_change_frame: "token_change a b s s' \<Longrightarrow> frame {a, b} s s'"
  by (simp add: token_change_def frame_def)

lemma front_frame:
  assumes "system_program_spec E" and "token_program_spec I" and "key (accounts ! 9) \<in> {TOKEN_PROGRAM_ID, TOKEN_2022_PROGRAM_ID}"
    and "record_completion E payer (accounts ! 10) txid s = Inr s1"
    and "burn_zkbtc_signed I (key (accounts ! 9)) mint vault pk burn seeds s1 = Inr s2"
    and "record_change E accounts txid p tx s2 = Inr (change, s3)" and "p \<noteq> [] \<longrightarrow> 14 \<le> length accounts"
  shows "frame ({key (accounts ! 10), vault, mint} \<union> (if change = None then {} else {key (accounts ! 13)})) s s3"
proof -
  have "frame (if change = None then {} else {key (accounts ! 13)}) s2 s3"
    using record_change_ok [OF assms(1,6,7)] by (auto split: option.splits)
  from frame_trans [OF record_completion_ok(1) [OF assms(1,4)]
      frame_trans [OF token_change_frame [OF burn_effect(1) [OF assms(2,3,5)]] this]]
  show ?thesis by (rule frame_mono) auto
qed

lemma back_frame:
  assumes "consume_utxos E rkey tx dest as s3 = Inr s4" and "write_front pk new s4 = Inr s5"
    and "credit_revenue ck revenue s5 = Inr s6" and "token_at s5 ck = Inr tc"
    and "close_account_securely rk dest s6 = Inr s'" and "adata (s6 rk) \<noteq> []"
  shows "frame (key ` set as \<union> {pk, ck, rk}) s3 s'"
proof -
  have "frame (key ` set as) s3 s4" using consume_utxos_ok [OF assms(1)] by (auto simp: frame_def)
  moreover have "frame {pk} s4 s5" by (rule frame_write [OF assms(2)])
  moreover have "frame {ck} s5 s6" using credit_revenue_ok(2) [OF assms(3,4)] by (simp add: frame_def)
  moreover have "frame {rk} s6 s'" using close_account_ok(2,3) [OF assms(5,6)] by (simp add: frame_def)
  ultimately have "frame (key ` set as \<union> ({pk} \<union> ({ck} \<union> {rk}))) s3 s'" by (intro frame_trans)
  then show ?thesis by (rule frame_mono) auto
qed

definition settled :: "env \<Rightarrow> account_info list \<Rightarrow> complete_redemption_data \<Rightarrow> redemption_request \<Rightarrow> bytes \<Rightarrow>
    parsed_transaction \<Rightarrow> pool_state \<Rightarrow> utxo_record list \<Rightarrow> u64 \<times> u64 \<times> u64 \<times> u64 \<Rightarrow> pool_state \<Rightarrow> store \<Rightarrow> store \<Rightarrow> bool" where
  "settled E accounts ix red recipient tx pool us amounts pool' s s' \<longleftrightarrow>
     (let pk = key (accounts ! 0); rk = key (accounts ! 1); mint = key (accounts ! 7); vault = key (accounts ! 8);
          as = consumed_accounts accounts ix red; ck = completion_token accounts ix red; p = crd_pool_script ix;
          (received, fee, burn, revenue) = amounts in
      pool_at s pk = Inr pool \<and> request_at s rk = Inr red \<and> rr_get_status red = RProcessing \<and>
      get_btc_script red = Inr recipient \<and>
      (\<exists>s1. frame {key (accounts ! 10)} s s1 \<and>
         settled_transaction E accounts (crd_btc_txid ix) (unat (crd_tx_size ix)) s1 = Inr tx) \<and>
      verify_payout red pool recipient p tx = Inr (received, fee, burn, revenue) \<and>
      distinct (map key as) \<and> length as = unat (rr_reserved_count red) \<and> length (tx_inputs tx) = length as \<and>
      list_all2 (\<lambda>a u. record_at s (key a) = Inr u \<and> owner (s (key a)) = program_id E \<and>
        spent_record (redemption_reservation_key E rk) tx u \<and> adata (s' (key a)) ! 0 = 0xFF) as us \<and>
      owner (s pk) = program_id E \<and> owner (s rk) = program_id E \<and>
      {owner (s mint), owner (s vault)} \<subseteq> {TOKEN_PROGRAM_ID, TOKEN_2022_PROGRAM_ID} \<and>
      token_balance s vault = token_balance s' vault + unat burn \<and>
      mint_supply s mint = mint_supply s' mint + unat burn \<and>
      pool_at s' pk = Inr pool' \<and>
      unat (ps_total_burned pool') = unat (ps_total_burned pool) + unat burn \<and>
      unat (ps_fee_pool pool') = unat (ps_fee_pool pool) + unat revenue \<and>
      unat (ps_total_btc_held pool') = unat (ps_total_btc_held pool) + change_sats p tx \<and>
      ps_pending_redemptions pool' = saturating_sub (ps_pending_redemptions pool) 1 \<and>
      (\<exists>tc tc'. token_at s ck = Inr tc \<and> token_at s' ck = Inr tc' \<and>
         unat (tc_accumulated_fees tc') = unat (tc_accumulated_fees tc) + unat revenue) \<and>
      (change_sats p tx = 0 \<or> (\<exists>vout c. record_at s' (key (accounts ! 13)) = Inr (new_utxo (crd_btc_txid ix) vout c) \<and>
         unat c = change_sats p tx)) \<and>
      adata (s' (key (accounts ! 10))) ! 0 = 0x08 \<and> (\<forall>r. request_at s' rk \<noteq> Inr r))"

lemma read_frame:
  assumes "frame K s s'" and "k \<notin> K"
  shows "pool_at s' k = pool_at s k" and "request_at s' k = request_at s k" and "token_at s' k = token_at s k"
    and "record_at s' k = record_at s k" and "adata (s' k) = adata (s k)" and "owner (s' k) = owner (s k)"
  using frameD [OF assms] by (simp_all add: record_at_def)

text \<open>Which of the accounts are different, by owner and first byte.\<close>

lemma completion_distinct:
  fixes E accounts change as K
  assumes F: "frame K s s3" and K: "K = {rcpt, vault, mint} \<union> (if change = None then {} else {k13})"
    and P: "program_id E \<notin> {TOKEN_PROGRAM_ID, TOKEN_2022_PROGRAM_ID}"
    and own: "owner (s mint) \<in> {TOKEN_PROGRAM_ID, TOKEN_2022_PROGRAM_ID}" "owner (s vault) \<in> {TOKEN_PROGRAM_ID, TOKEN_2022_PROGRAM_ID}"
      "owner (s pk) = program_id E" "owner (s rk) = program_id E"
    and apart: "rcpt \<noteq> k13" "rcpt \<notin> {rk, mint, vault}" "k13 \<notin> {rk, mint, vault}" and rp: "rcpt \<noteq> pk"
    and o3: "owner (s3 mint) = owner (s mint)" "owner (s3 vault) = owner (s vault)"
    and pool: "adata (s3 pk) ! 0 = 0x01" and red: "adata (s rk) ! 0 = 0x04"
    and tok: "adata (s3 ck) ! 0 = 0x0B" "owner (s3 ck) = program_id E" and r8: "adata (s3 rcpt) ! 0 = 0x08"
    and rec: "\<And>a. a \<in> A \<Longrightarrow> adata (s3 a) ! 0 = 0x09 \<and> owner (s3 a) = program_id E \<and> (change = None \<or> a \<noteq> k13)"
    and chg: "change \<noteq> None \<Longrightarrow> adata (s3 k13) ! 0 = 0x09"
  shows "pk \<notin> K" "rk \<notin> K" "ck \<notin> K" "A \<inter> K = {}" "pk \<noteq> rk" "ck \<notin> {pk, rk}" "A \<inter> {pk, rk, ck} = {}"
    and "rcpt \<notin> A \<union> {pk, ck, rk}" and "{mint, vault} \<inter> (A \<union> {pk, ck, rk}) = {}" and "change \<noteq> None \<Longrightarrow> k13 \<notin> A \<union> {pk, ck, rk}"
proof -
  have tk: "mint \<noteq> pk" "mint \<noteq> rk" "vault \<noteq> pk" "vault \<noteq> rk" "mint \<noteq> ck" "vault \<noteq> ck" "mint \<notin> A" "vault \<notin> A"
    using P own o3 tok(2) rec by force+
  show rkK: "rk \<notin> K" using apart tk by (auto simp: K split: if_splits)
  show pkK: "pk \<notin> K" using tk rp pool chg by (auto simp: K split: if_splits)
  have red3: "adata (s3 rk) ! 0 = 0x04" using frameD [OF F rkK] red by simp
  show "ck \<notin> K" using tk tok r8 chg by (auto simp: K split: if_splits)
  show "A \<inter> K = {}" using tk rec r8 by (auto simp: K split: if_splits)
  show "pk \<noteq> rk" using pool red3 by auto
  show "ck \<notin> {pk, rk}" using pool red3 tok by auto
  show "A \<inter> {pk, rk, ck} = {}" using pool red3 tok rec by fastforce
  show "rcpt \<notin> A \<union> {pk, ck, rk}" using r8 rec apart rp tok by fastforce
  show "{mint, vault} \<inter> (A \<union> {pk, ck, rk}) = {}" using tk by auto
  show "k13 \<notin> A \<union> {pk, ck, rk}" if "change \<noteq> None" using that chg rec pool tok apart by fastforce
qed

text \<open>The first half of the handler, up to the consumed records.\<close>

lemma completion_front:
  fixes accounts :: "account_info list" and as :: "account_info list" and ix :: complete_redemption_data
  assumes E: "system_program_spec E" and I: "token_program_spec I" and P: "program_id E \<notin> {TOKEN_PROGRAM_ID, TOKEN_2022_PROGRAM_ID}"
    and apart: "completion_apart accounts" and chk: "complete_checks E accounts s = Inr pool0"
    and k: "pk = key (accounts ! 0)" "rk = key (accounts ! 1)" "mint = key (accounts ! 7)"
      "vault = key (accounts ! 8)" "rcpt = key (accounts ! 10)" "k13 = key (accounts ! 13)"
    and rc: "record_completion E (key (accounts ! 2)) (accounts ! 10) txid s = Inr s1"
    and red: "request_at s1 rk = Inr red" and pool1: "pool_at s1 pk = Inr pool1"
    and bn: "burn_zkbtc_signed I (key (accounts ! 9)) mint vault pk burn seeds s1 = Inr s2"
    and ch: "record_change E accounts txid p tx s2 = Inr (change, s3)"
    and len14: "p \<noteq> [] \<longrightarrow> 14 \<le> length accounts"
    and tc: "token_at s3 ck = Inr tc" "owner (s3 ck) = program_id E"
    and cs: "consume_utxos E rkey tx dest as s3 = Inr s4" and pool4: "pool_at s4 pk = Inr pool4"
    and K_def: "K = {rcpt, vault, mint} \<union> (if change = None then {} else {k13})"
  shows "frame K s s3" and "pk \<notin> K" "rk \<notin> K" "ck \<notin> K" "key ` set as \<inter> K = {}" "pk \<noteq> rk" "ck \<notin> {pk, rk}"
    and "key ` set as \<inter> {pk, rk, ck} = {}" and "rcpt \<notin> key ` set as \<union> {pk, ck, rk}"
    and "{mint, vault} \<inter> (key ` set as \<union> {pk, ck, rk}) = {}" and "change \<noteq> None \<Longrightarrow> k13 \<notin> key ` set as \<union> {pk, ck, rk}"
    and "adata (s3 rcpt) ! 0 = 0x08" and "pool_at s pk = Inr pool0" "request_at s rk = Inr red" "pool1 = pool0" "pool4 = pool0"
    and "is_signer (accounts ! 2)" "key (accounts ! 2) \<in> {ps_authority pool0, rr_requester red}"
    and "token_balance s vault = token_balance s3 vault + unat burn" "mint_supply s mint = mint_supply s3 mint + unat burn"
proof -
  note C = complete_checks_ok [OF chk, folded k]
  note R = record_completion_ok [OF E rc, folded k(5)]
  note CH = record_change_ok [OF E ch len14, folded k(6)]
  have F3: "frame K s s3"
    using front_frame [OF E I _ rc bn ch len14] C unfolding K_def k by simp
  from consume_utxos_ok [OF cs] obtain us where
    us: "list_all2 (\<lambda>a u. record_at s3 (key a) = Inr u \<and> owner (s3 (key a)) = program_id E \<and>
       spent_record (rkey) tx u \<and> adata (s4 (key a)) ! 0 = 0xFF) as us"
    and F4: "\<And>k. k \<notin> key ` set as \<Longrightarrow> adata (s4 k) = adata (s3 k)" by blast
  note B = burn_effect [OF I _ bn]
  have prog: "key (accounts ! 9) \<in> {TOKEN_PROGRAM_ID, TOKEN_2022_PROGRAM_ID}" using C by blast
  have ap: "rcpt \<noteq> k13" "rcpt \<notin> {rk, mint, vault}" "k13 \<notin> {rk, mint, vault}"
    using apart by (auto simp: completion_apart_def k)
  have rp: "rcpt \<noteq> pk" using R(4) first_byte_at(1) [of s1 pk pool1] pool1 by auto
  have pkas: "pk \<notin> key ` set as"
    using us first_byte_at(1) [of s4 pk pool4] pool4 by (auto simp: list_all2_conv_all_nth in_set_conv_nth)
  have p3: "adata (s3 pk) ! 0 = 0x01" using F4 [OF pkas] first_byte_at(1) [of s4 pk pool4] pool4 by simp
  have F2: "frame {vault, mint} s1 s2" using B(1) [OF prog] by (rule token_change_frame)
  have F3': "frame {k13} s2 s3" using CH by (auto split: option.splits)
  have r8: "adata (s3 rcpt) ! 0 = 0x08" using frameD [OF F2, of rcpt] frameD [OF F3', of rcpt] R(4) ap by simp
  have tk: "adata (s1 x) = adata (s x)" "adata (s3 x) = adata (s2 x)" "owner (s3 x) = owner (s x)" if "x \<in> {mint, vault}" for x
    using that frameD [OF R(1), of x] frameD [OF F3', of x] B(1) [OF prog] ap by (auto simp: token_change_def)
  have spent: "adata (s3 a) ! 0 = 0x09 \<and> owner (s3 a) = program_id E \<and> (change = None \<or> a \<noteq> k13)" if "a \<in> key ` set as" for a
  proof -
    from that us obtain u where u: "record_at s3 a = Inr u" "owner (s3 a) = program_id E" "ur_get_status u = UReserved"
      by (auto simp: list_all2_conv_all_nth in_set_conv_nth spent_record_def)
    moreover have "change = None \<or> a \<noteq> k13"
      using u(1,3) CH by (auto simp: new_utxo_def ur_get_status_def split: option.splits)
    ultimately show ?thesis using first_byte_at(4) [OF u(1)] by simp
  qed
  have chg9: "adata (s3 k13) ! 0 = 0x09" if "change \<noteq> None" using that CH first_byte_at(4) by (auto split: option.splits)
  obtain red0 where red0: "request_at s rk = Inr red0" and drv: "key (accounts ! 2) \<in> {ps_authority pool0, rr_requester red0}"
    and po: "owner (s pk) = program_id E" "pool_at s pk = Inr pool0" using C by (auto simp: pool_pda_ok_def)
  have C': "owner (s mint) \<in> {TOKEN_PROGRAM_ID, TOKEN_2022_PROGRAM_ID}" "owner (s vault) \<in> {TOKEN_PROGRAM_ID, TOKEN_2022_PROGRAM_ID}"
    "owner (s rk) = program_id E" using C by blast+
  have r4: "adata (s rk) ! 0 = 0x04" using first_byte_at(2) [of s rk red0] red0 by simp
  have tB: "adata (s3 ck) ! 0 = 0x0B" using first_byte_at(5) [of s3 ck tc] tc(1) by simp
  have o3: "owner (s3 mint) = owner (s mint)" "owner (s3 vault) = owner (s vault)" using tk(3) by simp_all
  note D = completion_distinct [where A = "key ` set as", OF F3 K_def P C'(1,2) po(1) C'(3) ap rp o3 p3 r4 tB tc(2) r8 spent chg9]
  have eq: "red0 = red" "pool1 = pool0" "pool4 = pool0"
    using read_frame [OF R(1), of rk] read_frame [OF R(1), of pk] read_frame [OF F3, of pk] red0 red pool1 po(2) pool4 ap rp D(1) F4 [OF pkas]
    by auto
  show "frame K s s3" by (fact F3)
  show "pk \<notin> K" "rk \<notin> K" "ck \<notin> K" "key ` set as \<inter> K = {}" "pk \<noteq> rk" "ck \<notin> {pk, rk}"
    "key ` set as \<inter> {pk, rk, ck} = {}" "rcpt \<notin> key ` set as \<union> {pk, ck, rk}"
    "{mint, vault} \<inter> (key ` set as \<union> {pk, ck, rk}) = {}" "change \<noteq> None \<Longrightarrow> k13 \<notin> key ` set as \<union> {pk, ck, rk}"
    using D by blast+
  show "adata (s3 rcpt) ! 0 = 0x08" "pool_at s pk = Inr pool0" "request_at s rk = Inr red" "pool1 = pool0" "pool4 = pool0"
    "is_signer (accounts ! 2)" "key (accounts ! 2) \<in> {ps_authority pool0, rr_requester red}"
    using r8 po(2) red0 eq drv C by simp_all
  show "token_balance s vault = token_balance s3 vault + unat burn" "mint_supply s mint = mint_supply s3 mint + unat burn"
    using B(2,3) [OF prog] tk(1,2) by (simp_all add: token_balance_def mint_supply_def)
qed

lemma complete_effect:
  assumes E: "system_program_spec E" and I: "token_program_spec I" and P: "program_id E \<notin> {TOKEN_PROGRAM_ID, TOKEN_2022_PROGRAM_ID}"
    and run: "process_complete_redemption I E accounts d s = Inr s'" and apart: "completion_apart accounts"
  shows "\<exists>ix red recipient tx pool us amounts pool'. complete_redemption_data_from_bytes d = Inr ix \<and>
     is_signer (accounts ! 2) \<and> key (accounts ! 2) \<in> {ps_authority pool, rr_requester red} \<and>
     settled E accounts ix red recipient tx pool us amounts pool' s s'"
proof -
  define pk rk mint vault rcpt k13 where k: "pk = key (accounts ! 0)" "rk = key (accounts ! 1)" "mint = key (accounts ! 7)"
    "vault = key (accounts ! 8)" "rcpt = key (accounts ! 10)" "k13 = key (accounts ! 13)"
  from complete_run [OF run, folded k] obtain ix pool0 s1 red recipient tx pool1 received fee burn revenue s2 change s3 s4 pool4 pool5 s5 s6 where
    ix: "complete_redemption_data_from_bytes d = Inr ix" and chk: "complete_checks E accounts s = Inr pool0"
    and rc: "record_completion E (key (accounts ! 2)) (accounts ! 10) (crd_btc_txid ix) s = Inr s1"
    and red: "request_at s1 rk = Inr red" "rr_get_status red = RProcessing" "get_btc_script red = Inr recipient"
    and tx: "settled_transaction E accounts (crd_btc_txid ix) (unat (crd_tx_size ix)) s1 = Inr tx"
    and pool1: "pool_at s1 pk = Inr pool1"
    and pay: "verify_payout red pool1 recipient (crd_pool_script ix) tx = Inr (received, fee, burn, revenue)"
    and bn: "burn_zkbtc_signed I (key (accounts ! 9)) mint vault pk burn [POOL_STATE_SEED, bytes32 mint, [ps_bump pool0]] s1 = Inr s2"
    and ch: "record_change E accounts (crd_btc_txid ix) (crd_pool_script ix) tx s2 = Inr (change, s3)"
    and n: "completion_start ix + unat (rr_reserved_count red) < length accounts"
    and tok: "check_completion_token E s3 accounts (accounts ! (completion_start ix + unat (rr_reserved_count red))) (rr_token_id red) = Inr ()"
    and cs: "consume_utxos E (redemption_reservation_key E rk) tx (key (accounts ! 3)) (consumed_accounts accounts ix red) s3 = Inr s4"
    and ins: "length (tx_inputs tx) = unat (rr_reserved_count red)" and pool4: "pool_at s4 pk = Inr pool4"
    and st: "settle_pool E burn revenue change (ps_pending_redemptions pool0) pool4 = Inr pool5"
    and w5: "write_front pk (encode_pool_state pool5) s4 = Inr s5"
    and cr: "credit_revenue (completion_token accounts ix red) revenue s5 = Inr s6"
    and cl: "close_account_securely rk (key (accounts ! 3)) s6 = Inr s'"
    by blast
  define as ck where as: "as = consumed_accounts accounts ix red" "ck = completion_token accounts ix red"
  have len14: "crd_pool_script ix \<noteq> [] \<longrightarrow> 14 \<le> length accounts" using n by (auto simp: completion_start_def)
  obtain tc where tc: "token_at s3 ck = Inr tc" "owner (s3 ck) = program_id E"
    using tok by (auto simp: check_completion_token_def run_simps completion_token_def as)
  define K where "K = {rcpt, vault, mint} \<union> (if change = None then {} else {k13})"
  note D = completion_front [OF E I P apart chk k rc red(1) pool1 bn ch len14 tc cs [folded as] pool4 K_def]
  note CH = record_change_ok [OF E ch len14, folded k(6)]
  from consume_utxos_ok [OF cs, folded as] obtain us where dist: "distinct (map key as)"
    and us: "list_all2 (\<lambda>a u. record_at s3 (key a) = Inr u \<and> owner (s3 (key a)) = program_id E \<and>
       spent_record (redemption_reservation_key E rk) tx u \<and> adata (s4 (key a)) ! 0 = 0xFF) as us"
    and F4: "\<And>k. k \<notin> key ` set as \<Longrightarrow> adata (s4 k) = adata (s3 k)" by blast
  have ne: "adata (s rk) \<noteq> []"
    using D(14) by (auto simp: redemption_request_from_bytes_def layout_from_bytes_def REDEMPTION_REQUEST_LEN_def)
  have "ps_discriminator pool5 = POOL_STATE_DISCRIMINATOR"
    using settle_pool_ok(6) [OF st] discriminator_at(1) [of s4 pk pool4] pool4 by simp
  note W5 = write_pool [OF w5 this]
  have notin: "ck \<notin> key ` set as" "rk \<notin> key ` set as" "ck \<noteq> pk" "rk \<noteq> pk" "ck \<noteq> rk" using D(6-8) by auto
  have tok5: "token_at s5 ck = Inr tc" using W5(2) [OF notin(3)] F4 [OF notin(1)] tc(1) by simp
  note CR = credit_revenue_ok [OF cr [folded as] tok5]
  have rk6: "adata (s6 rk) \<noteq> []"
    using CR(2) [of rk] W5(2) [of rk] F4 [OF notin(2)] frameD [OF D(1,3)] notin ne by auto
  note CL = close_account_ok [OF cl rk6]
  have F': "frame (key ` set as \<union> {pk, ck, rk}) s3 s'" by (rule back_frame [OF cs [folded as] w5 cr [folded as] tok5 cl rk6])
  have pool': "pool_at s' pk = Inr pool5" using W5(1) CR(2) [of pk] CL(2) [of pk] notin by simp
  obtain tc' where tc': "token_at s' ck = Inr tc'" "unat (tc_accumulated_fees tc') = unat (tc_accumulated_fees tc) + unat revenue"
    using CR(1) CL(2) [of ck] notin by auto
  have tc0: "token_at s ck = Inr tc" using read_frame(3) [OF D(1,4)] tc(1) by simp
  have bal: "token_balance s' vault = token_balance s3 vault" "mint_supply s' mint = mint_supply s3 mint"
    using frameD [OF F', of vault] frameD [OF F', of mint] D(10) by (auto simp: token_balance_def mint_supply_def)
  have recs: "list_all2 (\<lambda>a u. record_at s (key a) = Inr u \<and> owner (s (key a)) = program_id E \<and>
        spent_record (redemption_reservation_key E rk) tx u \<and> adata (s' (key a)) ! 0 = 0xFF) as us"
  proof (rule list.rel_mono_strong [OF us], goal_cases)
    case (1 a u)
    then have a: "key a \<in> key ` set as" by simp
    with D(5,8) have "key a \<notin> K" "key a \<noteq> pk" "key a \<noteq> rk" "key a \<noteq> ck" by auto
    with 1 read_frame(4,6) [OF D(1), of "key a"] W5(2) [of "key a"] CR(2) [of "key a"] CL(2) [of "key a"] show ?case by simp
  qed
  have chgr: "change_sats (crd_pool_script ix) tx = 0 \<or> (\<exists>vout c. record_at s' k13 = Inr (new_utxo (crd_btc_txid ix) vout c) \<and>
         unat c = change_sats (crd_pool_script ix) tx)"
    using CH read_frame(4) [OF F', of k13] D(11) by (auto split: option.splits)
  have chgc: "(case change of None \<Rightarrow> 0 | Some c \<Rightarrow> unat c) = change_sats (crd_pool_script ix) tx"
    using CH by (auto split: option.splits)
  have r8': "adata (s' rcpt) ! 0 = 0x08" using frameD [OF F', of rcpt] D(9,12) by simp
  have closed: "request_at s' rk \<noteq> Inr r" for r by (rule closed_not_request) (simp add: CL(1))
  have len: "length as = unat (rr_reserved_count red)" using n by (simp add: as consumed_accounts_def)
  have "settled E accounts ix red recipient tx pool0 us (received, fee, burn, revenue) pool5 s s'"
    unfolding settled_def Let_def prod.case k [symmetric] as [symmetric]
    using D(13,14,19,20) complete_checks_ok [OF chk, folded k] red record_completion_ok(1) [OF E rc, folded k(5)] tx pay dist len ins recs bal pool' settle_pool_ok [OF st]
      tc0 tc' chgr chgc r8' closed
    by (auto simp: D(15,16) pool_pda_ok_def)
  then show ?thesis using ix D(17,18) by blast
qed


lemma system_program_spec_clock:
  "system_program_spec (E\<lparr>clock_slot := x, clock_unix_timestamp := y\<rparr>) = system_program_spec E"
  by (simp add: system_program_spec_def)

lemma mset_eq_if_covers:
  assumes "set ys \<subseteq> set xs" and "distinct ys" and "length xs = length ys"
  shows "mset xs = mset ys"
proof -
  have "length xs \<le> card (set xs)" using assms card_mono [OF _ assms(1)] distinct_card [of ys] by simp
  then have dx: "distinct xs" by (intro card_distinct) (simp add: card_length order_antisym)
  then have "set ys = set xs" using card_subset_eq [OF _ assms(1)] assms distinct_card [of xs] distinct_card [of ys] by simp
  with dx assms(2) show ?thesis using set_eq_iff_mset_eq_distinct by metis
qed

abbreviation record_outpoint :: "utxo_record \<Rightarrow> hash32 \<times> u32" where
  "record_outpoint u \<equiv> (ur_txid u, ur_vout u)"
abbreviation input_outpoint :: "tx_input \<Rightarrow> hash32 \<times> u32" where
  "input_outpoint i \<equiv> (prev_txid i, prev_vout i)"

lemma utxo_address_outpoint: "distinct (map (utxo_address E pk) us) \<Longrightarrow> distinct (map record_outpoint us)"
proof -
  assume d: "distinct (map (utxo_address E pk) us)"
  have "map (utxo_address E pk) us =
      map (\<lambda>(txid, vout). fst (find_program_address E [UTXO_SEED, bytes32 pk, bytes32 txid, bytes4 vout])) (map record_outpoint us)"
    by (simp add: utxo_address_def)
  from d [unfolded this] show ?thesis unfolding distinct_map by blast
qed


text \<open>
  A paused pool settles nothing: whatever the accounts and data, completing a redemption fails while
  the pool is paused, since the payout rules include the signing policy.
\<close>

theorem complete_redemption_paused:
  assumes "system_program_spec E" and "pool_at s (key (accounts ! 0)) = Inr pool" and "is_paused pool"
  shows "\<exists>e. process_complete_redemption I E accounts d s = Inl e"
proof (cases "process_complete_redemption I E accounts d s")
  case (Inr s')
  from complete_run [OF Inr] obtain ix s1 red recipient tx pool1 received fee burn revenue where
    "complete_redemption_data_from_bytes d = Inr ix" "request_at s1 (key (accounts ! 1)) = Inr red"
    "settled_transaction E accounts (crd_btc_txid ix) (unat (crd_tx_size ix)) s1 = Inr tx"
    and rc: "record_completion E (key (accounts ! 2)) (accounts ! 10) (crd_btc_txid ix) s = Inr s1"
    and pool1: "pool_at s1 (key (accounts ! 0)) = Inr pool1"
    and pay: "verify_payout red pool1 recipient (crd_pool_script ix) tx = Inr (received, fee, burn, revenue)" by blast
  note R = record_completion_ok [OF assms(1) rc]
  have "key (accounts ! 10) \<noteq> key (accounts ! 0)" using R(4) first_byte_at(1) [of s1 "key (accounts ! 0)" pool1] pool1 by auto
  then have "pool1 = pool" using read_frame(1) [OF R(1), of "key (accounts ! 0)"] pool1 assms(2) by simp
  then show ?thesis using payout_run [OF pay] assms(3) by (auto simp: check_redemption_signing_ok)
qed simp

section \<open>A redemption that is marked and completed\<close>

text \<open>
  Token programs that mint and burn as documented, a transaction paying the demo request from its
  reserved record, and the light client accounts attesting it.
\<close>

definition put_at :: "nat \<Rightarrow> bytes \<Rightarrow> bytes \<Rightarrow> bytes" where
  "put_at off b d = take off d @ b @ drop (off + length b) d"

definition demo_token_op :: "pubkey \<Rightarrow> pubkey \<Rightarrow> (nat \<Rightarrow> nat option) \<Rightarrow> store \<Rightarrow> store result" where
  "demo_token_op acct mint f s =
     (if acct = mint \<or> length (adata (s acct)) < 72 \<or> length (adata (s mint)) < 72 then Inl InvalidAccountData
      else case (f (token_balance s acct), f (mint_supply s mint)) of
        (Some b, Some m) \<Rightarrow>
          if b < 2 ^ 64 \<and> m < 2 ^ 64
          then Inr (set_data acct (put_at 64 (bytes8 (of_nat b :: u64)) (adata (s acct)))
                 (set_data mint (put_at 36 (bytes8 (of_nat m :: u64)) (adata (s mint))) s))
          else Inl ArithmeticOverflow
      | _ \<Rightarrow> Inl InsufficientFunds)"

definition demo_invoke :: invoke where
  "demo_invoke p metas d seeds s =
     (case (metas, d) of
        ([a, b, c], op # rest) \<Rightarrow>
          let n = unat (from_le rest :: u64) in
          if op = MINT_TO then demo_token_op (meta_key b) (meta_key a) (\<lambda>x. Some (x + n)) s
          else if op = BURN then demo_token_op (meta_key a) (meta_key b) (\<lambda>x. if n \<le> x then Some (x - n) else None) s
          else Inl InvalidInstructionData
      | _ \<Rightarrow> Inl InvalidInstructionData)"

lemma put_at_read:
  assumes "off + 8 \<le> length d"
  shows "bslice off 8 (put_at off (bytes8 (v :: u64)) d) = bytes8 v"
  using assms by (simp add: put_at_def bslice_def)

lemma demo_token_op_ok:
  assumes "demo_token_op acct mint f s = Inr s'"
  shows "token_change acct mint s s'" and "f (token_balance s acct) = Some (token_balance s' acct)"
    and "f (mint_supply s mint) = Some (mint_supply s' mint)"
proof -
  from assms obtain b m where ne: "acct \<noteq> mint" and len: "72 \<le> length (adata (s acct))" "72 \<le> length (adata (s mint))"
    and f: "f (token_balance s acct) = Some b" "f (mint_supply s mint) = Some m" and lt: "b < 2 ^ 64" "m < 2 ^ 64"
    and s': "s' = set_data acct (put_at 64 (bytes8 (of_nat b :: u64)) (adata (s acct)))
                 (set_data mint (put_at 36 (bytes8 (of_nat m :: u64)) (adata (s mint))) s)"
    by (auto simp: demo_token_op_def not_less split: if_splits option.splits)
  show "token_change acct mint s s'" by (simp add: s' token_change_def)
  show "f (token_balance s acct) = Some (token_balance s' acct)" "f (mint_supply s mint) = Some (mint_supply s' mint)"
    using ne len f lt by (simp_all add: s' token_balance_def mint_supply_def put_at_read unat_of_nat)
qed

lemma demo_invoke_spec: "token_program_spec demo_invoke"
proof -
  have "token_change a b s s' \<and> token_balance s' b = token_balance s b + unat amount \<and> mint_supply s' a = mint_supply s a + unat amount"
    if "demo_token_op b a (\<lambda>x. Some (x + unat (amount :: u64))) s = Inr s'" for a b s s' amount
    using demo_token_op_ok [OF that] by (auto simp: token_change_def)
  moreover have "token_change a b s s' \<and> token_balance s a = token_balance s' a + unat amount \<and> mint_supply s b = mint_supply s' b + unat amount"
    if "demo_token_op a b (\<lambda>x. if unat (amount :: u64) \<le> x then Some (x - unat amount) else None) s = Inr s'" for a b s s' amount
    using demo_token_op_ok [OF that] by (auto split: if_splits)
  ultimately show ?thesis
    unfolding token_program_spec_def demo_invoke_def writable_meta_def readonly_signer_meta_def MINT_TO_def BURN_def Let_def
    by (simp cong del: if_weak_cong)
qed

lemma ser_parsed_items:
  assumes "length (ser_segwit w tx) < 2 ^ 64"
  shows "tx_outputs (ser_parsed tx) = btx_outputs tx" and "tx_inputs (ser_parsed tx) = map outpoint (btx_inputs tx)"
proof -
  have "length (concat (map ser_input (btx_inputs tx))) < 2 ^ 64" "length (concat (map ser_output (btx_outputs tx))) < 2 ^ 64"
    using assms by (simp_all add: ser_segwit_def ser_body_def)
  then show "tx_outputs (ser_parsed tx) = btx_outputs tx" "tx_inputs (ser_parsed tx) = map outpoint (btx_inputs tx)"
    using input_items_ser [of "[]" "btx_inputs tx" "[]"] output_items_ser [of "[]" "btx_outputs tx" "[]"]
    by (simp_all add: tx_outputs_def tx_inputs_def ser_parsed_def)
qed

definition payout_btc :: "tx_output list \<Rightarrow> btc_tx" where
  "payout_btc outs = \<lparr>btx_version = 2, btx_inputs = [\<lparr>bin_txid = 9, bin_vout = 0, bin_script = [], bin_sequence = 0xfffffffd\<rparr>],
     btx_outputs = outs, btx_locktime = 0\<rparr>"

definition payout_output :: tx_output where "payout_output = \<lparr>txo_value = 99000, script_pubkey = [0x51, 0x01]\<rparr>"

lemmas ser_defs = payout_btc_def payout_output_def ser_segwit_def ser_legacy_def ser_body_def ser_input_def ser_output_def push_compact_size_def

text \<open>A payout with change and a marker; 98500 received, 500 miner fee, 1000 revenue.\<close>

definition change_outputs :: "tx_output list" where
  "change_outputs = [\<lparr>txo_value = 98500, script_pubkey = [0x51, 0x01]\<rparr>, \<lparr>txo_value = 101000, script_pubkey = [0x52]\<rparr>,
     \<lparr>txo_value = 0, script_pubkey = [0x6a]\<rparr>]"

theorem payout_conserves_witness:
  "\<exists>p. verify_payout (demo_request\<lparr>rr_total_input_sats := 200000\<rparr>) demo_pool [0x51, 0x01] [0x52] p = Inr (98500, 500, 99000, 1000) \<and>
     change_sats [0x52] p = 101000"
proof -
  let ?r = "demo_request\<lparr>rr_total_input_sats := 200000\<rparr>"
  obtain p where p: "p = ser_parsed (payout_btc change_outputs)" by simp
  have "tx_outputs p = change_outputs"
    unfolding p by (subst ser_parsed_items(1) [of "[]"]) (simp_all add: ser_defs change_outputs_def)
  note outs = this [unfolded change_outputs_def]
  have red: "rr_amount_sats ?r = 100000" "rr_service_fee ?r = 1000" "rr_total_input_sats ?r = 200000" "\<not> is_paused demo_pool"
    by (simp_all add: demo_request_def demo_pool_def is_paused_def decode_pool_state_def byte_at_def)
  have "verify_payout ?r demo_pool [0x51, 0x01] [0x52] p = Inr (98500, 500, 99000, 1000)"
    unfolding verify_payout_def red outs sum_outputs_def redemption_outputs_within_policy_def
    by (simp add: red Let_def checked_sub_def checked_add_def saturating_sub_def saturating_add_def is_op_return_def OP_RETURN_def
        MAX_FEE_SATS_def redemption_accounting_def check_redemption_signing_def MAX_REDEMPTION_AMOUNT_SATS_def MAX_MINER_FEE_SATS_def max_def)
  from payout_conserves [OF this] this red(3) show ?thesis by (auto intro!: exI [of _ p])
qed

text \<open>The confirmed payout: its verified transaction, height index and buffer accounts, the mint and the vault.\<close>

abbreviation settle_raw :: bytes where "settle_raw \<equiv> ser_legacy (payout_btc [payout_output])"
abbreviation settle_tx :: parsed_transaction where "settle_tx \<equiv> ser_parsed (payout_btc [payout_output])"

definition settle_vt :: verified_transaction where
  "settle_vt = \<lparr>vt_discriminator = VERIFIED_TX_DISCRIMINATOR, vt_bump = 255, vt_padding = 0, vt_block_height = 1, vt_block_hash = 3,
     vt_txid = 2, vt_verified_at = 0, vt_tx_index = 0, vt_reinit_epoch = 0, vt_reserved2 = 0\<rparr>"

definition settle_account :: "pubkey \<Rightarrow> bytes \<Rightarrow> account" where
  "settle_account p d = \<lparr>lamports = 1, owner = p, adata = d\<rparr>"

definition settle_base :: store where
  "settle_base = blank_store
     (16 := settle_account 2 (encode_light_client (demo_lc\<lparr>lc_network := 0\<rparr>)),
      779 := settle_account 2 (encode_verified_tx settle_vt),
      268 := settle_account 2 (encode_height_index (demo_hi 3 1)),
      91 := settle_account 3 (replicate 32 0 @ settle_raw),
      1 := settle_account TOKEN_PROGRAM_ID (replicate 36 0 @ bytes8 500000 @ replicate 38 0),
      0 := settle_account TOKEN_PROGRAM_ID (replicate 64 0 @ bytes8 300000 @ replicate 93 0))"

definition settle_accounts :: "account_info list" where
  "settle_accounts = map demo_acc [266, 68106, 88, 90, 779, 16, 91, 1, 0, TOKEN_PROGRAM_ID, 530, 92, 93, 68100, 68108, 268]"

definition settle_data :: bytes where
  "settle_data = bytes32 2 @ bytes4 (of_nat (length settle_raw)) @ [0, 1]"

definition settle_ix :: complete_redemption_data where
  "settle_ix = \<lparr>crd_btc_txid = 2, crd_tx_size = of_nat (length settle_raw), crd_pool_script = [], crd_consumed_utxo_count = 1\<rparr>"

lemma settle_raw_length: "length settle_raw = 62"
  by (simp add: ser_defs)

lemma settle_raw_facts:
  "parse_transaction settle_raw = Inr settle_tx" "compute_tx_hash late_env settle_raw = 2"
  "tx_inputs settle_tx = [\<lparr>prev_txid = 9, prev_vout = 0\<rparr>]" "tx_outputs settle_tx = [payout_output]"
proof -
  have ok: "btx_inputs (payout_btc [payout_output]) \<noteq> []" "length (ser_segwit [] (payout_btc [payout_output])) < 2 ^ 64"
    by (simp_all add: ser_defs)
  show "parse_transaction settle_raw = Inr settle_tx" using parse_both_forms [OF ok] by simp
  show "tx_inputs settle_tx = [\<lparr>prev_txid = 9, prev_vout = 0\<rparr>]" "tx_outputs settle_tx = [payout_output]"
    using ser_parsed_items [OF ok(2)] by (simp_all add: payout_btc_def outpoint_def)
  have "compute_tx_hash late_env settle_raw = double_sha256 late_env settle_raw"
    using not_segwit_ser_legacy [OF ok(1)] by (simp add: settle_raw_length compute_tx_hash_def segwit_body_end_def)
  also have "\<dots> = 2"
  proof -
    have "(from_le (bytes4 2) :: hash32) = 2" "(from_le (take 4 (bytes32 2)) :: hash32) = 2" by code_simp+
    then show ?thesis by (simp add: double_sha256_def late_env_def demo_env_def ser_legacy_def payout_btc_def)
  qed
  finally show "compute_tx_hash late_env settle_raw = 2" .
qed

lemma settle_data_ok: "complete_redemption_data_from_bytes settle_data = Inr settle_ix"
  by (simp add: settle_data_def settle_ix_def complete_redemption_data_from_bytes_def settle_raw_length Let_def nth_append bslice_def)

lemma settle_ids: "TOKEN_PROGRAM_ID \<notin> {0, 1, 2, 3, 16, 88, 90, 91, 92, 93, 266, 268, 530, 779, 68100, 68106, 68108}" "1 \<noteq> TOKEN_2022_PROGRAM_ID"
  by (simp_all add: TOKEN_PROGRAM_ID_def TOKEN_2022_PROGRAM_ID_def)

lemma settle_apart: "completion_apart settle_accounts" "length settle_accounts = 16"
  by (simp_all add: completion_apart_def settle_accounts_def)

text \<open>The state between the two calls.\<close>

lemma settle_marked:
  assumes "process_mark_processing demo_env mark_accounts [1] (rd_over settle_base) = Inr s1"
  shows "pool_pda_ok demo_env s1 266" and "\<exists>p. pool_at s1 266 = Inr p \<and> \<not> is_paused p \<and> ps_bump p = 255 \<and> unat (ps_total_burned p) = 0 \<and> unat (ps_fee_pool p) = 0"
    and "request_at s1 68106 = Inr (processing_request demo_env [demo_utxo] demo_request)"
    and "record_at s1 68100 = Inr (reserve_record (redemption_reservation_key demo_env 68106) demo_utxo)"
    and "\<forall>k. k \<notin> {266, 68106, 68100} \<longrightarrow> s1 k = rd_over settle_base k"
    and "owner (s1 k) = owner (rd_over settle_base k)" and "lamports (s1 k) = lamports (rd_over settle_base k)"
proof -
  from mark_effect [OF assms] obtain pool red us p1 where
    M: "marked demo_env 266 68106 [demo_acc 68100] pool red us p1 (rd_over settle_base) s1"
    by (auto simp: mark_accounts_def)
  have pr: "pool = demo_pool" "red = demo_request" using M demo_at(1,2) by (simp_all add: marked_def)
  have us: "us = [demo_utxo]" using M demo_at(3) by (auto simp: marked_def list_all2_Cons1)
  have p: "pool_at s1 266 = Inr p1" and same: "same_but_utxos demo_pool p1"
    using M by (auto simp: marked_def pr)
  have p1: "ps_bump p1 = 255" "ps_zkbtc_mint p1 = 1" "\<not> is_paused p1" "ps_total_burned p1 = 0" "ps_fee_pool p1 = 0"
    using same by (auto simp: same_but_utxos_def set_utxo_count_def demo_pool_def decode_pool_state_def is_paused_def byte_at_def bslice_def)
  then show "\<exists>p. pool_at s1 266 = Inr p \<and> \<not> is_paused p \<and> ps_bump p = 255 \<and> unat (ps_total_burned p) = 0 \<and> unat (ps_fee_pool p) = 0"
    using p by simp
  show "request_at s1 68106 = Inr (processing_request demo_env [demo_utxo] demo_request)"
    "record_at s1 68100 = Inr (reserve_record (redemption_reservation_key demo_env 68106) demo_utxo)"
    "\<forall>k. k \<notin> {266, 68106, 68100} \<longrightarrow> s1 k = rd_over settle_base k"
    using M by (simp_all add: marked_def us pr)
  show own: "owner (s1 k) = owner (rd_over settle_base k)" "lamports (s1 k) = lamports (rd_over settle_base k)" for k
    using M by (simp_all add: marked_def)
  show "pool_pda_ok demo_env s1 266"
    using p p1 own [of 266] by (simp add: pool_pda_ok_def demo_owner demo_pda demo_seeds)
qed

lemma settle_lookup:
  assumes "\<forall>k. k \<notin> {266, 68106, 68100} \<longrightarrow> s k = rd_over settle_base k"
  shows "s 16 = settle_account 2 (encode_light_client (demo_lc\<lparr>lc_network := 0\<rparr>))" "s 779 = settle_account 2 (encode_verified_tx settle_vt)"
    "s 268 = settle_account 2 (encode_height_index (demo_hi 3 1))" "s 91 = settle_account 3 (replicate 32 0 @ settle_raw)"
    "s 1 = settle_account TOKEN_PROGRAM_ID (replicate 36 0 @ bytes8 500000 @ replicate 38 0)"
    "s 0 = settle_account TOKEN_PROGRAM_ID (replicate 64 0 @ bytes8 300000 @ replicate 93 0)"
    "s 530 = \<lparr>lamports = 5, owner = 0, adata = []\<rparr>" "s 90 = \<lparr>lamports = 5, owner = 0, adata = []\<rparr>"
    "s 68108 = demo_account (encode_token_config demo_token)"
  by (simp_all add: assms) (simp_all add: rd_over_def settle_base_def blank_store_def)

text \<open>The receipt and the confirmation gate in that state.\<close>

lemma settle_receipt:
  assumes "s 530 = \<lparr>lamports = 5, owner = 0, adata = []\<rparr>"
  shows "record_completion late_env 88 (demo_acc 530) 2 s = Inr (s(530 := \<lparr>lamports = 5, owner = 1, adata = [0x08]\<rparr>))"
proof -
  have "find_program_address demo_env [COMPLETION_RECEIPT_SEED, bytes32 2] = (530, 255)"
    by (simp add: demo_pda COMPLETION_RECEIPT_SEED_def ascii_def)
  then show ?thesis
    by (simp add: record_completion_def assms create_pda_account_def create_or_claim_pda_def COMPLETION_RECEIPT_LEN_def
        receipt_init_def write_front_def put_front_def set_data_def COMPLETION_RECEIPT_DISCRIMINATOR_def)
      (simp add: late_env_def demo_allocate_def demo_assign_def assms receipt_init_def write_front_def put_front_def set_data_def)
qed

lemma settle_gate:
  assumes L: "s 16 = settle_account 2 (encode_light_client (demo_lc\<lparr>lc_network := 0\<rparr>))" "s 779 = settle_account 2 (encode_verified_tx settle_vt)"
    "s 268 = settle_account 2 (encode_height_index (demo_hi 3 1))" "s 91 = settle_account 3 (replicate 32 0 @ settle_raw)"
  shows "settled_transaction late_env settle_accounts 2 62 s = Inr settle_tx"
proof -
  let ?lc = "demo_lc\<lparr>lc_network := 0\<rparr>"
  have lc: "light_client_from_bytes (adata (s 16)) = Inr ?lc" by (simp add: L settle_account_def demo_lc_def)
  have hi: "height_index_from_bytes (adata (s 268)) = Inr (demo_hi 3 1)" by (simp add: L settle_account_def demo_hi_def)
  have vt: "verified_tx_view_from_bytes (adata (s 779)) = Inr (view_of settle_vt)"
    by (simp add: L settle_account_def view_agrees settle_vt_def)
  have adr: "lc_address late_env [VERIFIED_TX_SEED, bytes32 3, bytes32 2] = 779" "lc_address late_env [LIGHT_CLIENT_SEED] = 16"
    "lc_address late_env [HEIGHT_INDEX_SEED, bytes8 1] = 268"
    using demo_keys by (simp_all add: lc_address_def late_env_def find_program_address_def demo_env_def)
  have lcp: "lc_program_id late_env = 2" by (simp add: late_env_def demo_env_def)
  have can: "assert_block_still_canonical late_env s settle_accounts 1 3 = Inr ()"
    by (rule assert_block_still_canonical_ok [where a = "demo_acc 268" and hi = "demo_hi 3 1"])
      (use hi in \<open>simp_all add: settle_accounts_def adr L settle_account_def lcp demo_hi_def\<close>)
  have net: "assert_light_client_network late_env (adata (s 16)) = Inr ()"
    by (rule network_agrees [OF lc, THEN iffD2]) (simp add: late_env_def demo_env_def)
  note rd = tip_agrees [OF lc] epoch_agrees [OF lc] net
  have gate: "spv_gate RedemptionSpvFailed 6 None late_env settle_accounts (demo_acc 779) (demo_acc 16) 2 s = Inr ()"
    unfolding spv_gate_def demo_acc_simps vt
    by (simp add: view_of_def settle_vt_def assert_canonical_verified_tx_def assert_canonical_light_client_def adr can rd Let_def
        demo_lc_def checked_add_def)
  have buf: "validate_chadbuffer_owner late_env s (demo_acc 91) = Inr ()"
    by (simp add: validate_chadbuffer_owner_def L settle_account_def late_env_def demo_env_def)
  have raw: "read_transaction_from_buffer (adata (s 91)) 62 = Inr settle_raw"
    by (simp add: read_transaction_from_buffer_def L settle_account_def BUFFER_HEADER_SIZE_def settle_raw_length bslice_def)
  have acc: "settle_accounts ! 4 = demo_acc 779" "settle_accounts ! 5 = demo_acc 16" "settle_accounts ! 6 = demo_acc 91"
    by (simp_all add: settle_accounts_def)
  show ?thesis
    by (simp add: settled_transaction_def acc SETTLE_CONFIRMATIONS_def gate buf raw settle_raw_facts)
qed

lemma settle_payout:
  assumes "rr_amount_sats red = 100000" "rr_service_fee red = 1000" "rr_total_input_sats red = 100000" "\<not> is_paused pool"
  shows "verify_payout red pool [0x51, 0x01] [] settle_tx = Inr (99000, 1000, 100000, 0)"
  unfolding verify_payout_def assms settle_raw_facts(4) sum_outputs_def redemption_outputs_within_policy_def
  by (simp add: assms payout_output_def Let_def checked_sub_def checked_add_def saturating_sub_def saturating_add_def is_op_return_def OP_RETURN_def
      MAX_FEE_SATS_def redemption_accounting_def check_redemption_signing_def MAX_REDEMPTION_AMOUNT_SATS_def MAX_MINER_FEE_SATS_def max_def)

lemma settle_burn:
  assumes "s 1 = settle_account TOKEN_PROGRAM_ID (replicate 36 0 @ bytes8 500000 @ replicate 38 0)"
    "s 0 = settle_account TOKEN_PROGRAM_ID (replicate 64 0 @ bytes8 300000 @ replicate 93 0)" and "seeds \<noteq> []" "length seeds \<le> 5"
  shows "\<exists>s'. burn_zkbtc_signed demo_invoke p 1 0 auth 100000 seeds s = Inr s' \<and> token_change 0 1 s s'"
proof -
  have bal: "token_balance s 0 = 300000" "mint_supply s 1 = 500000"
    by (simp_all add: token_balance_def mint_supply_def assms settle_account_def bslice_def)
  have run: "burn_zkbtc_signed demo_invoke p 1 0 auth 100000 seeds s =
      demo_token_op 0 1 (\<lambda>x. if 100000 \<le> x then Some (x - 100000) else None) s"
    using assms(3,4) by (simp add: burn_zkbtc_signed_def pda_signer_seeds_def demo_invoke_def writable_meta_def MINT_TO_def BURN_def)
  have "\<exists>s'. demo_token_op 0 1 (\<lambda>x. if 100000 \<le> x then Some (x - 100000) else None) s = Inr s'"
  proof -
    have "length (adata (s 0)) = 165" "length (adata (s 1)) = 82" by (simp_all add: assms settle_account_def)
    then show ?thesis by (simp add: demo_token_op_def bal)
  qed
  then obtain s' where "demo_token_op 0 1 (\<lambda>x. if 100000 \<le> x then Some (x - 100000) else None) s = Inr s'" by blast
  with demo_token_op_ok(1) [OF this] run show ?thesis by simp
qed

lemma settle_consume:
  assumes u: "record_at s 68100 = Inr (reserve_record rkey demo_utxo)" and "owner (s 68100) = 1"
    and l: "lamports (s 68100) = 1" "lamports (s 90) = 5"
  shows "\<exists>s'. consume_utxos late_env rkey settle_tx 90 [demo_acc 68100] s = Inr s' \<and> lamports (s' 90) = 6 \<and> s' 68106 = s 68106"
proof -
  let ?u = "reserve_record rkey demo_utxo"
  have "adata (s 68100) \<noteq> []" "adata (s 68100) ! 0 = 9"
    using u first_byte_at(4) [of s 68100 ?u]
    by (auto simp: record_at_def utxo_record_from_bytes_def layout_from_bytes_def UTXO_RECORD_LEN_def)
  then have "load_utxo late_env (demo_acc 68100) s = Inr ?u"
    by (simp add: load_utxo_def validate_program_owner_def validate_account_writable_def assms UTXO_RECORD_DISCRIMINATOR_def)
  moreover have "find_input_with_prev_outpoint (ur_txid ?u) (ur_vout ?u) settle_tx" "ur_reserved_for_request_id ?u = rkey"
    by (simp_all add: find_input_with_prev_outpoint_def settle_raw_facts(3) reserve_record_def ur_set_status_def demo_utxo_def)
  moreover have "\<exists>s'. close_account_securely 68100 90 s = Inr s' \<and> lamports (s' 90) = 6 \<and> s' 68106 = s 68106"
    by (simp add: close_account_securely_def Let_def checked_add_def l)
  ultimately show ?thesis by auto
qed

lemma settle_complete:
  assumes mark: "process_mark_processing demo_env mark_accounts [1] (rd_over settle_base) = Inr s1"
  shows "\<exists>s2. process_complete_redemption demo_invoke late_env settle_accounts settle_data s1 = Inr s2"
proof -
  note M = settle_marked [OF mark]
  note L = settle_lookup [OF M(5)]
  obtain pool where pool: "pool_at s1 266 = Inr pool" "\<not> is_paused pool" "ps_bump pool = 255" "unat (ps_total_burned pool) = 0"
    using M(2) by blast
  let ?red = "processing_request demo_env [demo_utxo] demo_request" and ?rkey = "redemption_reservation_key demo_env 68106"
  have script: "take 2 (le_bytes 34 (0x0151 :: 272 word)) = [0x51, 0x01]" by code_simp
  have red: "rr_requester ?red = 88" "rr_token_id ?red = 5" "rr_amount_sats ?red = 100000" "rr_service_fee ?red = 1000"
    "unat (rr_reserved_count ?red) = 1" "rr_get_status ?red = RProcessing" "rr_total_input_sats ?red = 100000"
    "get_btc_script ?red = Inr [0x51, 0x01]"
    by (simp_all add: processing_request_def demo_request_def redemption_init_def decode_redemption_request_def
        rr_get_status_def byte_at_def total_sats_def demo_utxo_def get_btc_script_def MAX_BTC_SCRIPT_LEN_def script)
  have own: "owner (s1 k) = 1" if "k \<in> {266, 68106, 68100, 68108}" for k
    using that M(6) [of k] demo_owner [of k settle_base] by auto
  have addr: "redemption_address demo_env 266 ?red = 68106" by (simp add: redemption_address_def demo_pda demo_seeds)
  have pda: "validate_redemption_pda late_env s1 (demo_acc 68106) (demo_acc 266) = Inr ()"
    unfolding validate_redemption_pda_iff using M(1,3) own addr by simp
  have lcp: "lc_program_id late_env = 2" by (simp add: late_env_def demo_env_def)
  have chk: "complete_checks late_env settle_accounts s1 = Inr pool"
    using M(1,3) pool own L(1,2,5,6) red(1)
    by (simp add: complete_checks_def settle_accounts_def validate_program_owner_def validate_account_writable_def pda lcp
        validate_owned_by_def validate_token_owner_def validate_any_token_program_key_def settle_account_def
        redemption_driver_is_allowed_def)
  define t1 where "t1 = s1(530 := \<lparr>lamports = 5, owner = 1, adata = [0x08]\<rparr>)"
  have t1: "t1 k = s1 k" if "k \<noteq> 530" for k using that by (simp add: t1_def)
  have tx: "settled_transaction late_env settle_accounts 2 62 t1 = Inr settle_tx"
    by (rule settle_gate) (simp_all add: t1 L)
  obtain t2 where t2: "burn_zkbtc_signed demo_invoke TOKEN_PROGRAM_ID 1 0 266 100000 [POOL_STATE_SEED, bytes32 1, [255]] t1 = Inr t2"
    "token_change 0 1 t1 t2"
    using settle_burn [of t1 "[POOL_STATE_SEED, bytes32 1, [255]]" TOKEN_PROGRAM_ID 266] L by (auto simp: t1)
  have keep: "t2 k = s1 k" if "k \<notin> {0, 1, 530}" for k using t2(2) t1 [of k] that by (simp add: token_change_def)
  have tk: "token_at s1 68108 = Inr demo_token"
    using demo_at(4) [of settle_base] by (simp add: M(5))
  have tok: "check_completion_token late_env t2 settle_accounts (demo_acc 68108) 5 = Inr ()"
    by (simp add: check_completion_token_def validate_program_owner_def validate_account_writable_def keep own tk demo_pda
        demo_seeds settle_accounts_def) (simp add: demo_token_def decode_token_config_def bslice_def)
  have lam: "lamports (s1 k) = 1" if "k \<in> {68100, 68106}" for k
    using that M(7) [of k] by (auto simp: rd_over_def demo_account_def)
  obtain t3 where t3: "consume_utxos late_env ?rkey settle_tx 90 [demo_acc 68100] t2 = Inr t3" "lamports (t3 90) = 6" "t3 68106 = s1 68106"
    using settle_consume [of t2 ?rkey] M(4) own lam L(8) by (auto simp: keep record_at_def)
  from consume_utxos_ok [OF t3(1)] have f3: "\<And>k. k \<noteq> 68100 \<Longrightarrow> adata (t3 k) = adata (t2 k)" by simp
  obtain pool' where pool': "settle_pool late_env 100000 0 None (ps_pending_redemptions pool) pool = Inr pool'"
    using pool(4) by (simp add: settle_pool_def add_burned_def checked_add_def)
  have p3: "pool_at t3 266 = Inr pool" by (simp add: f3 keep pool)
  obtain t4 where t4: "write_front 266 (encode_pool_state pool') t3 = Inr t4"
    using psl.write_ok p3 unfolding pool_state_from_bytes_def by blast
  have "lamports (t4 k) = lamports (t3 k)" for k using t4 by (auto simp: res_simps)
  then have "lamports (t4 68106) = 1" "lamports (t4 90) = 6" using t3 lam [of 68106] by simp_all
  then have cl: "\<exists>t5. close_account_securely 68106 90 t4 = Inr t5"
    by (simp add: close_account_securely_def Let_def checked_add_def)
  have acc: "settle_accounts ! 0 = demo_acc 266" "settle_accounts ! 1 = demo_acc 68106" "settle_accounts ! 2 = demo_acc 88"
    "settle_accounts ! 3 = demo_acc 90" "settle_accounts ! 7 = demo_acc 1" "settle_accounts ! 8 = demo_acc 0"
    "settle_accounts ! 9 = demo_acc TOKEN_PROGRAM_ID" "settle_accounts ! 10 = demo_acc 530" "settle_accounts ! 14 = demo_acc 68108"
    "take 1 (drop 13 settle_accounts) = [demo_acc 68100]" "length settle_accounts = 16"
    by (simp_all add: settle_accounts_def)
  have ix: "crd_btc_txid settle_ix = 2" "unat (crd_tx_size settle_ix) = 62" "crd_pool_script settle_ix = []" "unat (crd_consumed_utxo_count settle_ix) = 1"
    by (simp_all add: settle_ix_def settle_raw_length)
  have steps: "check_pool_script late_env s1 c p [] = Inr ()" "record_change late_env settle_accounts 2 [] settle_tx t2 = Inr (None, t2)"
    "credit_revenue k 0 t4 = Inr t4" for c p k
    by (simp_all add: check_pool_script_def record_change_def credit_revenue_def)
  show ?thesis
    unfolding process_complete_redemption_def Let_def settle_data_ok bindE_Inr acc chk demo_acc_simps ix steps
      settle_receipt [of s1, OF L(7), folded t1_def]
    using cl by (simp add: t1 M(3) pool red tx settle_payout [of ?red pool] t2(1) steps tok p3 pool' t4 MAX_CONSUMED_UTXOS_def
        acc t3(1) settle_raw_facts(3) del: One_nat_def consume_utxos.simps)
qed



theorem complete_redemption_paused_witness:
  "\<exists>e. process_complete_redemption demo_invoke demo_env settle_accounts settle_data
     ((rd_over settle_base)(266 := demo_account (encode_pool_state (demo_pool\<lparr>ps_flags := 1\<rparr>)))) = Inl e"
proof (rule complete_redemption_paused [OF demo_system_program])
  have "ps_discriminator (demo_pool\<lparr>ps_flags := 1\<rparr>) = POOL_STATE_DISCRIMINATOR" by (simp add: demo_pool_def POOL_STATE_DISCRIMINATOR_def)
  from psl.from_bytes_encode [OF this]
  show "pool_at ((rd_over settle_base)(266 := demo_account (encode_pool_state (demo_pool\<lparr>ps_flags := 1\<rparr>)))) (key (settle_accounts ! 0)) =
      Inr (demo_pool\<lparr>ps_flags := 1\<rparr>)"
    by (simp add: settle_accounts_def demo_account_def pool_state_from_bytes_def)
  show "is_paused (demo_pool\<lparr>ps_flags := 1\<rparr>)" by (simp add: is_paused_def)
qed

end
