(* ===== verification/UX_Policy.thy ===== *)
theory UX_Policy
  imports UX_Redemption UX_Token
begin

text \<open>
  Policy approvals of permissioned pools: the account of \<open>state/policy_approval.rs\<close>, the
  handlers and the consumption of \<open>instructions/policy_approval.rs\<close>, and the separate
  program \<open>programs/utxopia-policy/src/lib.rs\<close> that owns the approvals. The asset program
  checks an approval and then calls the policy program, which decides again; the theorem here is
  that the two agree, and that an approval authorises one spend of one intent. The delegation
  instructions of the policy program are modelled up to the calls of the external rollup library.
\<close>

abbreviation AmountTooLarge :: program_error where "AmountTooLarge \<equiv> Custom 6002"
abbreviation NullifierAlreadyUsed :: program_error where "NullifierAlreadyUsed \<equiv> Custom 6004"
abbreviation ZeroAmount :: program_error where "ZeroAmount \<equiv> Custom 6016"
abbreviation InvalidRoot :: program_error where "InvalidRoot \<equiv> Custom 6021"
abbreviation ZkVerificationFailed :: program_error where "ZkVerificationFailed \<equiv> Custom 6023"
abbreviation InvalidStealthOpReturn :: program_error where "InvalidStealthOpReturn \<equiv> Custom 6028"
abbreviation TokenDisabled :: program_error where "TokenDisabled \<equiv> Custom 6080"
abbreviation InvalidVault :: program_error where "InvalidVault \<equiv> Custom 6081"
abbreviation AmountOutOfRange :: program_error where "AmountOutOfRange \<equiv> Custom 6082"
abbreviation DepositCapExceeded :: program_error where "DepositCapExceeded \<equiv> Custom 6083"
abbreviation IkaCpiAccountsMissing :: program_error where "IkaCpiAccountsMissing \<equiv> Custom 6088"
abbreviation NotPermissioned :: program_error where "NotPermissioned \<equiv> Custom 6091"
abbreviation AuditorFrozen :: program_error where "AuditorFrozen \<equiv> Custom 6092"
abbreviation PolicyApprovalRequired :: program_error where "PolicyApprovalRequired \<equiv> Custom 6093"
abbreviation PolicyApprovalMismatch :: program_error where "PolicyApprovalMismatch \<equiv> Custom 6094"
abbreviation PolicyApprovalExpired :: program_error where "PolicyApprovalExpired \<equiv> Custom 6095"
abbreviation PolicyApprovalAlreadyUsed :: program_error where "PolicyApprovalAlreadyUsed \<equiv> Custom 6096"
abbreviation RagequitNotAvailable :: program_error where "RagequitNotAvailable \<equiv> Custom 6098"

section \<open>The approval account\<close>

definition POLICY_APPROVAL_DISCRIMINATOR :: u8 where "POLICY_APPROVAL_DISCRIMINATOR = 0x0c"
definition POLICY_APPROVAL_VERSION :: u8 where "POLICY_APPROVAL_VERSION = 1"
definition POLICY_STATUS_PENDING :: u8 where "POLICY_STATUS_PENDING = 0"
definition POLICY_STATUS_APPROVED :: u8 where "POLICY_STATUS_APPROVED = 1"
definition POLICY_STATUS_REJECTED :: u8 where "POLICY_STATUS_REJECTED = 2"
definition POLICY_STATUS_CONSUMED :: u8 where "POLICY_STATUS_CONSUMED = 3"
definition POLICY_APPROVAL_LEN :: nat where "POLICY_APPROVAL_LEN = 176"
definition POLICY_APPROVAL_SEED :: bytes where "POLICY_APPROVAL_SEED = ascii ''policy_approval''"

record policy_approval =
  pa_discriminator :: u8
  pa_version :: u8
  pa_status :: u8
  pa_bump :: u8
  pa_action :: u8
  pa_padding :: "24 word"
  pa_expires_at_slot :: u64
  pa_pool :: pubkey
  pa_actor :: pubkey
  pa_policy_authority :: pubkey
  pa_request_hash :: hash32
  pa_nonce :: hash32

definition encode_policy_approval :: "policy_approval \<Rightarrow> bytes" where
  "encode_policy_approval x =
     byte1 (pa_discriminator x) @ byte1 (pa_version x) @ byte1 (pa_status x) @ byte1 (pa_bump x) @ byte1 (pa_action x) @
     le_bytes 3 (pa_padding x) @ le_bytes 8 (pa_expires_at_slot x) @ le_bytes 32 (pa_pool x) @ le_bytes 32 (pa_actor x) @
     le_bytes 32 (pa_policy_authority x) @ le_bytes 32 (pa_request_hash x) @ le_bytes 32 (pa_nonce x)"

text \<open>The accessors of the account at their offsets.\<close>

definition decode_policy_approval :: "bytes \<Rightarrow> policy_approval" where
  "decode_policy_approval d =
     \<lparr>pa_discriminator = byte_at 0 d, pa_version = byte_at 1 d, pa_status = byte_at 2 d, pa_bump = byte_at 3 d,
      pa_action = byte_at 4 d, pa_padding = from_le (bslice 5 3 d), pa_expires_at_slot = from_le (bslice 8 8 d),
      pa_pool = from_le (bslice 16 32 d), pa_actor = from_le (bslice 48 32 d),
      pa_policy_authority = from_le (bslice 80 32 d), pa_request_hash = from_le (bslice 112 32 d),
      pa_nonce = from_le (bslice 144 32 d)\<rparr>"

interpretation pal: account_layout POLICY_APPROVAL_LEN POLICY_APPROVAL_DISCRIMINATOR pa_discriminator
    encode_policy_approval decode_policy_approval
  by unfold_locales (simp_all add: encode_policy_approval_def decode_policy_approval_def POLICY_APPROVAL_LEN_def
      ux_layout_simps)

definition policy_approval_init :: "u8 \<Rightarrow> u8 \<Rightarrow> u64 \<Rightarrow> pubkey \<Rightarrow> pubkey \<Rightarrow> pubkey \<Rightarrow> hash32 \<Rightarrow> hash32 \<Rightarrow> bytes \<Rightarrow> bytes result" where
  "policy_approval_init bump action expires_at_slot pool actor policy_authority request_hash nonce d =
     (if length d \<noteq> POLICY_APPROVAL_LEN then Inl InvalidAccountData
      else Inr (encode_policy_approval
        \<lparr>pa_discriminator = POLICY_APPROVAL_DISCRIMINATOR, pa_version = POLICY_APPROVAL_VERSION,
         pa_status = POLICY_STATUS_PENDING, pa_bump = bump, pa_action = action, pa_padding = 0,
         pa_expires_at_slot = expires_at_slot, pa_pool = pool, pa_actor = actor,
         pa_policy_authority = policy_authority, pa_request_hash = request_hash, pa_nonce = nonce\<rparr>))"

definition policy_approval_validate :: "bytes \<Rightarrow> policy_approval result" where
  "policy_approval_validate d =
     (if length d \<noteq> POLICY_APPROVAL_LEN \<or> d ! 0 \<noteq> POLICY_APPROVAL_DISCRIMINATOR \<or> d ! 1 \<noteq> POLICY_APPROVAL_VERSION
      then Inl InvalidAccountData else Inr (decode_policy_approval d))"

definition set_policy_status :: "pubkey \<Rightarrow> u8 \<Rightarrow> store \<Rightarrow> store" where
  "set_policy_status k status s = set_data k ((adata (s k))[2 := status]) s"

section \<open>The asset program\<close>

definition POLICY_PROGRAM_ID :: pubkey where
  "POLICY_PROGRAM_ID = from_le
     [127, 138, 197, 238, 106, 229, 114, 241, 179, 216, 130, 79, 100, 240, 58, 143, 160, 74, 31,
      7, 220, 81, 204, 120, 6, 48, 208, 221, 123, 198, 3, 214]"

definition TRANSACT_IX :: u8 where "TRANSACT_IX = 13"
definition UNSHIELD_IX :: u8 where "UNSHIELD_IX = 14"
definition REDEEM_IX :: u8 where "REDEEM_IX = 15"
definition COMPLETE_DEPOSIT_PERMISSIONED_IX :: u8 where "COMPLETE_DEPOSIT_PERMISSIONED_IX = 22"
definition SHIELD_PERMISSIONED_IX :: u8 where "SHIELD_PERMISSIONED_IX = 23"
definition VERIFY_DEPOSIT_PERMISSIONED_IX :: u8 where "VERIFY_DEPOSIT_PERMISSIONED_IX = 26"

definition INIT_DATA_LEN :: nat where "INIT_DATA_LEN = 105"
definition DECISION_APPROVE :: u8 where "DECISION_APPROVE = 1"
definition DECISION_REJECT :: u8 where "DECISION_REJECT = 2"
definition REQUEST_DOMAIN :: bytes where "REQUEST_DOMAIN = ascii ''UTXOPIA_POLICY_APPROVAL_V1''"
definition MAX_INTENT_PARTS :: nat where "MAX_INTENT_PARTS = 3"

definition is_permissioned_action :: "u8 \<Rightarrow> bool" where
  "is_permissioned_action action \<longleftrightarrow>
     action \<in> {COMPLETE_DEPOSIT_PERMISSIONED_IX, SHIELD_PERMISSIONED_IX, VERIFY_DEPOSIT_PERMISSIONED_IX,
       TRANSACT_IX, UNSHIELD_IX, REDEEM_IX}"

definition process_initialize_policy_approval :: "env \<Rightarrow> account_info list \<Rightarrow> bytes \<Rightarrow> store \<Rightarrow> store result" where
  "process_initialize_policy_approval E accounts d s =
     (if length accounts \<noteq> 4 then Inl NotEnoughAccountKeys
      else if length d \<noteq> INIT_DATA_LEN then Inl InvalidInstructionData
      else let payer = accounts ! 0; pool_info = accounts ! 1; approval_info = accounts ! 2; ak = key approval_info in
      if \<not> is_signer payer then Inl MissingRequiredSignature
      else
      bindE (validate_program_owner E s pool_info) (\<lambda>_.
      bindE (validate_pool_state_pda E s pool_info) (\<lambda>_.
      bindE (validate_account_writable approval_info) (\<lambda>_.
      bindE (validate_system_program (accounts ! 3)) (\<lambda>_.
      let action = d ! 0 in
      if \<not> is_permissioned_action action then Inl InvalidInstructionData
      else let expires_at_slot = from_le (bslice 1 8 d); actor = from_le (bslice 9 32 d);
               request_hash = from_le (bslice 41 32 d); nonce = from_le (bslice 73 32 d) in
      if expires_at_slot \<le> clock_slot E then Inl PolicyApprovalExpired
      else
      bindE (pool_state_from_bytes (adata (s (key pool_info)))) (\<lambda>pool.
      if \<not> permissioned pool \<or> auditor_is_frozen pool then Inl Unauthorized
      else let (expected, bump) = find_program_address E
                 [POLICY_APPROVAL_SEED, bytes32 (key pool_info), bytes32 request_hash, bytes32 nonce] in
      if ak \<noteq> expected then Inl InvalidSeeds
      else if owner (s ak) = program_id E \<and> length (adata (s ak)) > 0 then Inl PolicyApprovalAlreadyUsed
      else
      bindE (ok_or (checked_add (rt_minimum_balance E POLICY_APPROVAL_LEN) (per_permission_rent E)) ArithmeticOverflow) (\<lambda>lam.
      bindE (create_pda_account E (key payer) ak lam (of_nat POLICY_APPROVAL_LEN) 5 s) (\<lambda>s1.
      bindE (policy_approval_init bump action expires_at_slot (key pool_info) actor (ps_auditor pool) request_hash nonce
        (adata (s1 ak))) (\<lambda>d'.
      Inr (set_data ak d' s1))))))))))"

definition process_policy_approval_decision :: "env \<Rightarrow> account_info list \<Rightarrow> bytes \<Rightarrow> store \<Rightarrow> store result" where
  "process_policy_approval_decision E accounts d s =
     (if length accounts \<noteq> 2 then Inl NotEnoughAccountKeys
      else if length d \<noteq> 1 \<or> d ! 0 \<noteq> DECISION_APPROVE \<and> d ! 0 \<noteq> DECISION_REJECT then Inl InvalidInstructionData
      else let authority = accounts ! 0; approval_info = accounts ! 1 in
      if \<not> is_signer authority then Inl MissingRequiredSignature
      else
      bindE (validate_program_owner E s approval_info) (\<lambda>_.
      bindE (validate_account_writable approval_info) (\<lambda>_.
      bindE (policy_approval_validate (adata (s (key approval_info)))) (\<lambda>a.
      if pa_status a \<noteq> POLICY_STATUS_PENDING then Inl PolicyApprovalAlreadyUsed
      else if key authority \<noteq> pa_policy_authority a then Inl Unauthorized
      else if clock_slot E > pa_expires_at_slot a then Inl PolicyApprovalExpired
      else Inr (set_policy_status (key approval_info)
             (if d ! 0 = DECISION_APPROVE then POLICY_STATUS_APPROVED else POLICY_STATUS_REJECTED) s)))))"

text \<open>The hashed bytes of a request: every part of the intent enters as a digest.\<close>

definition policy_preimage :: "env \<Rightarrow> pubkey \<Rightarrow> pubkey \<Rightarrow> u8 \<Rightarrow> bytes list \<Rightarrow> bytes list" where
  "policy_preimage E pool actor action intent_parts =
     [REQUEST_DOMAIN, bytes32 (program_id E), bytes32 pool, bytes32 actor, [action], [of_nat (length intent_parts)],
      concat (map (\<lambda>part. bytes32 (rt_sha256 E part)) intent_parts)]"

definition compute_policy_request_hash :: "env \<Rightarrow> pubkey \<Rightarrow> pubkey \<Rightarrow> u8 \<Rightarrow> bytes list \<Rightarrow> hash32 result" where
  "compute_policy_request_hash E pool actor action intent_parts =
     (if length intent_parts > MAX_INTENT_PARTS then Inl InvalidArgument
      else Inr (sha256_parts E (policy_preimage E pool actor action intent_parts)))"

datatype SpendPath = OpenPath | VerifiedPath | RagequitPath

definition allows_ragequit :: "u8 \<Rightarrow> bool" where
  "allows_ragequit action \<longleftrightarrow> action = UNSHIELD_IX \<or> action = REDEEM_IX"

definition resolve_spend_path :: "bool \<Rightarrow> bool \<Rightarrow> bool \<Rightarrow> u8 \<Rightarrow> SpendPath result" where
  "resolve_spend_path perm approval policy_program action =
     (if \<not> perm then Inr OpenPath
      else if approval \<and> policy_program then Inr VerifiedPath
      else if approval \<or> policy_program then Inl PolicyApprovalRequired
      else if allows_ragequit action then Inr RagequitPath
      else Inl RagequitNotAvailable)"

definition spend_is_allowed :: "u8 \<Rightarrow> u64 \<Rightarrow> u64 \<Rightarrow> unit result" where
  "spend_is_allowed status slot expires_at =
     (if status \<noteq> POLICY_STATUS_APPROVED then Inl PolicyApprovalRequired
      else if slot > expires_at then Inl PolicyApprovalExpired
      else Inr ())"

definition consume_policy_approval :: "invoke \<Rightarrow> env \<Rightarrow> account_info \<Rightarrow> account_info \<Rightarrow> account_info \<Rightarrow> pubkey \<Rightarrow> pubkey \<Rightarrow>
    u8 \<Rightarrow> bytes list \<Rightarrow> store \<Rightarrow> store result" where
  "consume_policy_approval I E approval_info policy_program_info pool_info actor expected_policy_authority action intent_parts s =
     (if key policy_program_info \<noteq> POLICY_PROGRAM_ID \<or> \<not> rt_executable E (key policy_program_info) then Inl IncorrectProgramId
      else
      bindE (ensure (owner (s (key approval_info)) = POLICY_PROGRAM_ID) UxInvalidAccountOwner) (\<lambda>_.
      bindE (validate_account_writable approval_info) (\<lambda>_.
      bindE (validate_program_owner E s pool_info) (\<lambda>_.
      bindE (validate_pool_state_pda E s pool_info) (\<lambda>_.
      bindE (compute_policy_request_hash E (key pool_info) actor action intent_parts) (\<lambda>expected_hash.
      bindE (policy_approval_validate (adata (s (key approval_info)))) (\<lambda>a.
      if pa_action a \<noteq> action \<or> pa_pool a \<noteq> key pool_info \<or> pa_actor a \<noteq> actor \<or>
         pa_policy_authority a \<noteq> expected_policy_authority \<or> pa_request_hash a \<noteq> expected_hash
      then Inl PolicyApprovalMismatch
      else
      bindE (spend_is_allowed (pa_status a) (clock_slot E) (pa_expires_at_slot a)) (\<lambda>_.
      let (expected, bump) = rt_find_pda E
            [POLICY_APPROVAL_SEED, bytes32 (key pool_info), bytes32 (pa_request_hash a), bytes32 (pa_nonce a)] POLICY_PROGRAM_ID in
      if key approval_info \<noteq> expected \<or> pa_bump a \<noteq> bump then Inl InvalidSeeds
      else
      bindE (pool_state_from_bytes (adata (s (key pool_info)))) (\<lambda>pool.
      I POLICY_PROGRAM_ID [readonly_signer_meta (key pool_info), writable_meta (key approval_info)]
        ([39, action] @ bytes32 expected_hash) [POOL_STATE_SEED, bytes32 (ps_zkbtc_mint pool), [ps_bump pool]] s)))))))))"

section \<open>The policy program\<close>

definition ASSET_PROGRAM_ID :: pubkey where
  "ASSET_PROGRAM_ID = from_le
     [177, 47, 207, 226, 231, 90, 174, 9, 81, 157, 213, 140, 10, 174, 82, 49, 241, 201, 245,
      199, 35, 77, 222, 44, 97, 82, 155, 76, 251, 198, 64, 233]"

definition policy_spend_is_allowed :: "u8 \<Rightarrow> u64 \<Rightarrow> u64 \<Rightarrow> bool" where
  "policy_spend_is_allowed status slot expires_at \<longleftrightarrow> status = 1 \<and> slot \<le> expires_at"

definition policy_validate_pool :: "env \<Rightarrow> pubkey \<Rightarrow> store \<Rightarrow> (pubkey \<times> pubkey) result" where
  "policy_validate_pool E pool s =
     (if owner (s pool) \<noteq> ASSET_PROGRAM_ID then Inl InvalidAccountOwner
      else let d = adata (s pool) in
      if length d < 332 \<or> d ! 0 \<noteq> 1 \<or> d ! 2 AND 0x02 = 0 \<or> d ! 2 AND 0x04 \<noteq> 0 then Inl InvalidAccountData
      else let (expected, bump) = rt_find_pda E [ascii ''pool_state'', bslice 36 32 d] ASSET_PROGRAM_ID in
      if pool \<noteq> expected \<or> d ! 1 \<noteq> bump then Inl InvalidSeeds
      else Inr (from_le (bslice 4 32 d), from_le (bslice 264 32 d)))"

definition policy_approval_seeds :: "env \<Rightarrow> pubkey \<Rightarrow> pubkey \<Rightarrow> store \<Rightarrow> unit result" where
  "policy_approval_seeds E approval pool s =
     (let d = adata (s approval) in
      if length d \<noteq> 176 \<or> d ! 0 \<noteq> 0x0c \<or> d ! 1 \<noteq> 1 \<or> bslice 16 32 d \<noteq> bytes32 pool then Inl InvalidAccountData
      else let (expected, bump) = find_program_address E [ascii ''policy_approval'', bytes32 pool, bslice 112 32 d, bslice 144 32 d] in
      if approval \<noteq> expected \<or> d ! 3 \<noteq> bump then Inl InvalidSeeds else Inr ())"

definition policy_initialize :: "env \<Rightarrow> account_info list \<Rightarrow> bytes \<Rightarrow> store \<Rightarrow> store result" where
  "policy_initialize E accounts d s =
     (if length accounts \<noteq> 4 \<or> length d \<noteq> 105 then Inl InvalidInstructionData
      else let payer = accounts ! 0; pool = key (accounts ! 1); approval = accounts ! 2; ak = key approval in
      if \<not> is_signer payer \<or> \<not> is_writable approval \<or> key (accounts ! 3) \<noteq> 0 then Inl InvalidAccountData
      else
      bindE (policy_validate_pool E pool s) (\<lambda>(authority, auditor).
      if d ! 0 \<notin> {13, 14, 15, 22, 23, 26} then Inl InvalidInstructionData
      else let expires = from_le (bslice 1 8 d) :: u64 in
      if expires \<le> clock_slot E then Inl InvalidArgument
      else let (expected, bump) = find_program_address E [ascii ''policy_approval'', bytes32 pool, bslice 41 32 d, bslice 73 32 d] in
      if ak \<noteq> expected \<or> lamports (s ak) \<noteq> 0 then Inl InvalidSeeds
      else
      bindE (ok_or (checked_add (rt_minimum_balance E 176) (per_permission_rent E)) ArithmeticOverflow) (\<lambda>rent.
      bindE (sys_create_account E (key payer) ak rent 176 (program_id E) s) (\<lambda>s1.
      Inr (set_data ak
        ([0x0c, 1, 0, bump, d ! 0] @ replicate 3 0 @ bytes8 expires @ bytes32 pool @ bslice 9 32 d @ bytes32 auditor @
         bslice 41 32 d @ bslice 73 32 d) s1)))))"

definition policy_decision :: "env \<Rightarrow> account_info list \<Rightarrow> bytes \<Rightarrow> store \<Rightarrow> store result" where
  "policy_decision E accounts d s =
     (if length accounts \<noteq> 2 \<or> length d \<noteq> 1 \<or> d ! 0 \<noteq> 1 \<and> d ! 0 \<noteq> 2 then Inl InvalidInstructionData
      else let authority = accounts ! 0; approval = accounts ! 1; st = adata (s (key approval)) in
      if \<not> is_signer authority \<or> owner (s (key approval)) \<noteq> program_id E \<or> \<not> is_writable approval then Inl InvalidAccountData
      else if length st \<noteq> 176 \<or> st ! 0 \<noteq> 0x0c \<or> st ! 2 \<noteq> 0 \<or> bytes32 (key authority) \<noteq> bslice 80 32 st \<or>
              clock_slot E > from_le (bslice 8 8 st)
      then Inl InvalidAccountData
      else Inr (set_policy_status (key approval) (if d ! 0 = 1 then 1 else 2) s))"

definition policy_consume :: "env \<Rightarrow> account_info list \<Rightarrow> bytes \<Rightarrow> store \<Rightarrow> store result" where
  "policy_consume E accounts d s =
     (if length accounts \<noteq> 2 \<or> length d \<noteq> 33 then Inl InvalidInstructionData
      else let pool = accounts ! 0; approval = accounts ! 1 in
      if \<not> is_signer pool \<or> owner (s (key approval)) \<noteq> program_id E \<or> \<not> is_writable approval then Inl InvalidAccountData
      else
      bindE (policy_validate_pool E (key pool) s) (\<lambda>(authority, auditor).
      bindE (policy_approval_seeds E (key approval) (key pool) s) (\<lambda>_.
      let st = adata (s (key approval)) in
      if \<not> policy_spend_is_allowed (st ! 2) (clock_slot E) (from_le (bslice 8 8 st)) \<or> st ! 4 \<noteq> d ! 0 \<or>
         bslice 80 32 st \<noteq> bytes32 auditor \<or> bslice 112 32 st \<noteq> bslice 1 32 d
      then Inl InvalidAccountData
      else Inr (set_policy_status (key approval) 3 s))))"

text \<open>
  The rollup library \<open>ephemeral_rollups_pinocchio\<close>, as a parameter: its addresses, its PDA
  derivations, its member flags and its calls. A member is its flag byte and its key; the accounts
  of a call are passed in the order of the fields the source fills.
\<close>

record rollups =
  rl_undelegate_discriminator :: bytes
  rl_delegation_program :: pubkey
  rl_permission_program :: pubkey
  rl_vault :: pubkey
  rl_magic_context :: pubkey
  rl_magic_program :: pubkey
  rl_buffer_pda :: "pubkey \<Rightarrow> pubkey \<Rightarrow> pubkey"
  rl_record_pda :: "pubkey \<Rightarrow> pubkey"
  rl_metadata_pda :: "pubkey \<Rightarrow> pubkey"
  rl_permission_pda :: "pubkey \<Rightarrow> pubkey"
  rl_flag_authority :: u8
  rl_flag_tx_logs :: u8
  rl_flag_tx_balances :: u8
  rl_flag_tx_message :: u8
  rl_flag_account_signatures :: u8
  rl_delegate_account :: "account_info list \<Rightarrow> bytes list \<Rightarrow> u8 \<Rightarrow> u32 \<Rightarrow> pubkey option \<Rightarrow> store \<Rightarrow> store result"
  rl_undelegate :: "account_info \<Rightarrow> pubkey \<Rightarrow> account_info \<Rightarrow> account_info \<Rightarrow> bytes \<Rightarrow> store \<Rightarrow> store result"
  rl_create_permission :: "account_info list \<Rightarrow> (u8 \<times> pubkey) list \<Rightarrow> bytes list \<Rightarrow> store \<Rightarrow> store result"
  rl_update_permission :: "account_info list \<Rightarrow> (u8 \<times> pubkey) list \<Rightarrow> bytes list \<Rightarrow> store \<Rightarrow> store result"
  rl_close_permission :: "account_info list \<Rightarrow> bytes list \<Rightarrow> store \<Rightarrow> store result"
  rl_commit :: "account_info list \<Rightarrow> bool \<Rightarrow> account_info list \<Rightarrow> store \<Rightarrow> store result"

definition TEE_VALIDATOR_ID :: bytes where
  "TEE_VALIDATOR_ID =
     [5, 61, 71, 26, 133, 158, 115, 46, 104, 11, 201, 88, 248, 65, 7, 43, 143, 63, 188, 25,
      115, 155, 230, 151, 196, 198, 129, 18, 111, 140, 31, 116]"

definition MAX_MEMBERS :: nat where "MAX_MEMBERS = 8"

text \<open>The four seeds and the bump of a checked approval.\<close>

definition policy_seeds_of :: "bytes \<Rightarrow> bytes list" where
  "policy_seeds_of d = [ascii ''policy_approval'', bslice 16 32 d, bslice 112 32 d, bslice 144 32 d]"

definition policy_delegate :: "rollups \<Rightarrow> env \<Rightarrow> account_info list \<Rightarrow> bytes \<Rightarrow> store \<Rightarrow> store result" where
  "policy_delegate R E accounts d s =
     (if length accounts \<noteq> 10 \<or> length d \<noteq> 37 \<or> d ! 0 \<noteq> 2 then Inl InvalidInstructionData
      else let payer = accounts ! 0; authority = accounts ! 1; pool = key (accounts ! 2); approval = key (accounts ! 3) in
      if \<not> is_signer payer \<or> \<not> is_signer authority then Inl MissingRequiredSignature
      else
      bindE (policy_validate_pool E pool s) (\<lambda>(pool_authority, auditor).
      if key authority \<noteq> pool_authority then Inl InvalidArgument
      else if key (accounts ! 4) \<noteq> program_id E \<or> key (accounts ! 8) \<noteq> 0 \<or> key (accounts ! 9) \<noteq> rl_delegation_program R \<or>
              \<not> rt_executable E (key (accounts ! 9))
      then Inl IncorrectProgramId
      else if key (accounts ! 5) \<noteq> rl_buffer_pda R approval (program_id E) \<or> key (accounts ! 6) \<noteq> rl_record_pda R approval \<or>
              key (accounts ! 7) \<noteq> rl_metadata_pda R approval
      then Inl InvalidSeeds
      else
      bindE (policy_approval_seeds E approval pool s) (\<lambda>_.
      if bslice 5 32 d \<noteq> TEE_VALIDATOR_ID then Inl InvalidArgument
      else let st = adata (s approval) in
        rl_delegate_account R [payer, accounts ! 3, accounts ! 4, accounts ! 5, accounts ! 6, accounts ! 7, accounts ! 8]
          (policy_seeds_of st) (st ! 3) (from_le (bslice 1 4 d)) (Some (from_le (bslice 5 32 d))) s)))"

text \<open>The member table of a permission: chunks of a flag byte and a key.\<close>

fun member_chunks :: "bytes \<Rightarrow> (u8 \<times> pubkey) list" where
  "member_chunks d = (if length d < 33 then [] else (d ! 0, from_le (bslice 1 32 d)) # member_chunks (drop 33 d))"

declare member_chunks.simps [simp del]

definition policy_permission :: "rollups \<Rightarrow> env \<Rightarrow> account_info list \<Rightarrow> bytes \<Rightarrow> store \<Rightarrow> store result" where
  "policy_permission R E accounts d s =
     (if length accounts \<noteq> 7 \<or> length d < 3 then Inl InvalidInstructionData
      else let authority = accounts ! 0; pool = key (accounts ! 1); approval = accounts ! 2; permission = accounts ! 3 in
      if \<not> is_signer authority then Inl MissingRequiredSignature
      else
      bindE (policy_validate_pool E pool s) (\<lambda>(pool_authority, auditor).
      if key authority \<noteq> pool_authority \<or> key permission \<noteq> rl_permission_pda R (key approval) \<or>
         key (accounts ! 4) \<noteq> rl_vault R \<or> key (accounts ! 5) \<noteq> rl_magic_program R \<or>
         key (accounts ! 6) \<noteq> rl_permission_program R
      then Inl InvalidArgument
      else let operation = d ! 0; count = unat (d ! 2) in
      if d ! 1 \<noteq> 2 then Inl InvalidInstructionData
      else if (if operation = 2 then count \<noteq> 0 \<or> length d \<noteq> 3
               else operation \<noteq> 0 \<or> count = 0 \<or> count > MAX_MEMBERS \<or> length d \<noteq> 3 + count * 33)
      then Inl InvalidInstructionData
      else
      bindE (policy_approval_seeds E (key approval) pool s) (\<lambda>_.
      let st = adata (s (key approval)); seeds = policy_seeds_of st @ [[st ! 3]] in
      if operation = 2
      then rl_close_permission R [approval, permission, approval, authority, accounts ! 4, accounts ! 5, accounts ! 6] seeds s
      else let members = member_chunks (drop 3 d) in
        if list_ex (\<lambda>m. fst m AND NOT 0x1f \<noteq> 0) members \<or> \<not> list_ex (\<lambda>m. fst m AND rl_flag_authority R \<noteq> 0) members
        then Inl InvalidInstructionData
        else rl_create_permission R [approval, permission, approval, accounts ! 4, accounts ! 5, accounts ! 6] members seeds s)))"

definition policy_commit :: "rollups \<Rightarrow> env \<Rightarrow> account_info list \<Rightarrow> bytes \<Rightarrow> store \<Rightarrow> store result" where
  "policy_commit R E accounts d s =
     (if length accounts \<noteq> 4 \<or> d \<noteq> [] then Inl InvalidInstructionData
      else let approval = accounts ! 3; st = adata (s (key approval)) in
      if \<not> is_signer (accounts ! 0) \<or> key (accounts ! 1) \<noteq> rl_magic_context R \<or> key (accounts ! 2) \<noteq> rl_magic_program R \<or>
         owner (s (key approval)) \<noteq> program_id E
      then Inl InvalidAccountData
      else if length st \<noteq> 176 \<or> st ! 2 \<noteq> 1 \<and> st ! 2 \<noteq> 2 then Inl InvalidAccountData
      else rl_commit R [accounts ! 0, accounts ! 1, accounts ! 2] True [approval] s)"

definition policy_process_instruction :: "rollups \<Rightarrow> env \<Rightarrow> account_info list \<Rightarrow> bytes \<Rightarrow> store \<Rightarrow> store result" where
  "policy_process_instruction R E accounts d s =
     (if length d \<ge> 8 \<and> take 8 d = rl_undelegate_discriminator R
      then (if length accounts < 3 then Inl NotEnoughAccountKeys
            else rl_undelegate R (accounts ! 0) (program_id E) (accounts ! 1) (accounts ! 2) (drop 8 d) s)
      else case d of
        [] \<Rightarrow> Inl InvalidInstructionData
      | disc # rest \<Rightarrow>
          if disc = 32 then policy_delegate R E accounts rest s
          else if disc = 34 then policy_permission R E accounts rest s
          else if disc = 36 then policy_initialize E accounts rest s
          else if disc = 37 then policy_decision E accounts rest s
          else if disc = 38 then policy_commit R E accounts rest s
          else if disc = 39 then policy_consume E accounts rest s
          else Inl InvalidInstructionData)"

section \<open>The two programs agree\<close>

text \<open>
  The runtime's side of a cross-program call to the policy program: when the signing accounts are
  the PDA of the given seeds, the policy program runs on the accounts as the metas describe them.
\<close>

definition meta_info :: "account_meta \<Rightarrow> account_info" where
  "meta_info m = \<lparr>key = meta_key m, is_signer = meta_signer m, is_writable = meta_writable m\<rparr>"

definition policy_runtime :: "rollups \<Rightarrow> env \<Rightarrow> invoke \<Rightarrow> bool" where
  "policy_runtime R E I \<longleftrightarrow>
     (\<forall>metas d seeds b s. (\<forall>m \<in> set metas. meta_signer m \<longrightarrow> rt_find_pda E seeds (program_id E) = (meta_key m, b)) \<longrightarrow>
        I POLICY_PROGRAM_ID metas d (seeds @ [[b]]) s =
          policy_process_instruction R (E\<lparr>program_id := POLICY_PROGRAM_ID\<rparr>) (map meta_info metas) d s)"

text \<open>What an approval must say for a spend, and where it must be stored.\<close>

definition approval_grants :: "env \<Rightarrow> store \<Rightarrow> pubkey \<Rightarrow> pubkey \<Rightarrow> pubkey \<Rightarrow> pubkey \<Rightarrow> u8 \<Rightarrow> bytes list \<Rightarrow> bool" where
  "approval_grants E s ak pk actor auditor action parts \<longleftrightarrow>
     (\<exists>a. policy_approval_validate (adata (s ak)) = Inr a \<and> owner (s ak) = POLICY_PROGRAM_ID \<and>
        pa_status a = POLICY_STATUS_APPROVED \<and> clock_slot E \<le> pa_expires_at_slot a \<and>
        pa_action a = action \<and> pa_pool a = pk \<and> pa_actor a = actor \<and> pa_policy_authority a = auditor \<and>
        length parts \<le> MAX_INTENT_PARTS \<and>
        pa_request_hash a = sha256_parts E (policy_preimage E pk actor action parts) \<and>
        rt_find_pda E [POLICY_APPROVAL_SEED, bytes32 pk, bytes32 (pa_request_hash a), bytes32 (pa_nonce a)]
          POLICY_PROGRAM_ID = (ak, pa_bump a))"

lemma pool_bytes:
  assumes "pool_at s k = Inr p"
  shows "332 \<le> length (adata (s k))" and "adata (s k) ! 0 = 1" and "adata (s k) ! Suc 0 = ps_bump p"
    and "adata (s k) ! 2 = ps_flags p" and "bslice 36 32 (adata (s k)) = bytes32 (ps_zkbtc_mint p)"
    and "from_le (bslice 264 32 (adata (s k))) = ps_auditor p" and "from_le (bslice 4 32 (adata (s k))) = ps_authority p"
  using assms by (auto simp: pool_state_from_bytes_def layout_from_bytes_def POOL_STATE_LEN_def POOL_STATE_DISCRIMINATOR_def
      decode_pool_state_def byte_at_def split: if_splits)

lemma policy_validate_pool_ok:
  assumes "pool_at s k = Inr p" and "owner (s k) = ASSET_PROGRAM_ID" and "permissioned p" and "\<not> auditor_is_frozen p"
    and "rt_find_pda E [POOL_STATE_SEED, bytes32 (ps_zkbtc_mint p)] ASSET_PROGRAM_ID = (k, ps_bump p)"
  shows "policy_validate_pool E k s = Inr (ps_authority p, ps_auditor p)"
  using assms(2-) pool_bytes [where s = s and k = k, OF assms(1)]
  by (simp add: policy_validate_pool_def permissioned_def auditor_is_frozen_def POOL_STATE_SEED_def Let_def)

lemma approval_bytes:
  assumes "policy_approval_validate d = Inr a"
  shows "length d = 176" and "d ! 0 = 0x0c" and "d ! Suc 0 = 1" and "d ! 2 = pa_status a" and "d ! 3 = pa_bump a"
    and "d ! 4 = pa_action a" and "from_le (bslice 8 8 d) = pa_expires_at_slot a" and "bslice 16 32 d = bytes32 (pa_pool a)"
    and "bslice 80 32 d = bytes32 (pa_policy_authority a)" and "bslice 112 32 d = bytes32 (pa_request_hash a)"
    and "bslice 144 32 d = bytes32 (pa_nonce a)"
  using assms by (auto simp: policy_approval_validate_def POLICY_APPROVAL_LEN_def POLICY_APPROVAL_DISCRIMINATOR_def
      POLICY_APPROVAL_VERSION_def decode_policy_approval_def byte_at_def split: if_splits)

lemma policy_consume_ok:
  assumes pool: "pool_at s pk = Inr p" "owner (s pk) = ASSET_PROGRAM_ID" "permissioned p" "\<not> auditor_is_frozen p"
      "rt_find_pda E [POOL_STATE_SEED, bytes32 (ps_zkbtc_mint p)] ASSET_PROGRAM_ID = (pk, ps_bump p)"
    and a: "policy_approval_validate (adata (s ak)) = Inr a" "owner (s ak) = program_id E"
      "pa_status a = POLICY_STATUS_APPROVED" "clock_slot E \<le> pa_expires_at_slot a" "pa_pool a = pk" "pa_action a = action"
      "pa_policy_authority a = ps_auditor p" "pa_request_hash a = h"
      "rt_find_pda E [POLICY_APPROVAL_SEED, bytes32 pk, bytes32 h, bytes32 (pa_nonce a)] (program_id E) = (ak, pa_bump a)"
  shows "policy_consume E [meta_info (readonly_signer_meta pk), meta_info (writable_meta ak)] (action # bytes32 h) s =
     Inr (set_policy_status ak POLICY_STATUS_CONSUMED s)"
  using a approval_bytes [OF a(1)]
  by (simp add: policy_consume_def policy_validate_pool_ok [where s = s and k = pk, OF pool] policy_approval_seeds_def policy_spend_is_allowed_def
      meta_info_def readonly_signer_meta_def writable_meta_def find_program_address_def POLICY_APPROVAL_SEED_def
      POLICY_STATUS_APPROVED_def POLICY_STATUS_CONSUMED_def Let_def bslice_def)

lemma policy_runtime_consume:
  assumes run: "policy_runtime R E I" and und: "take 1 (rl_undelegate_discriminator R) \<noteq> [39]"
    and pda: "rt_find_pda E seeds (program_id E) = (pk, b)"
  shows "I POLICY_PROGRAM_ID [readonly_signer_meta pk, writable_meta ak] ([39, action] @ bytes32 h) (seeds @ [[b]]) s =
      policy_consume (E\<lparr>program_id := POLICY_PROGRAM_ID\<rparr>)
        [meta_info (readonly_signer_meta pk), meta_info (writable_meta ak)] (action # bytes32 h) s"
proof -
  have "take 8 (39 # action # bytes32 h) \<noteq> rl_undelegate_discriminator R"
    using und by (auto dest!: sym [of _ "rl_undelegate_discriminator R"])
  moreover have "\<forall>m \<in> set [readonly_signer_meta pk, writable_meta ak]. meta_signer m \<longrightarrow>
      rt_find_pda E seeds (program_id E) = (meta_key m, b)"
    using pda by (simp add: readonly_signer_meta_def writable_meta_def)
  ultimately show ?thesis
    using run unfolding policy_runtime_def by (simp add: policy_process_instruction_def)
qed

lemma consume_policy_approval_iff:
  assumes "pool_at s (key pool_info) = Inr p"
  shows "consume_policy_approval I E approval_info program_info pool_info actor (ps_auditor p) action parts s = Inr s' \<longleftrightarrow>
     key program_info = POLICY_PROGRAM_ID \<and> rt_executable E POLICY_PROGRAM_ID \<and> is_writable approval_info \<and>
     pool_pda_ok E s (key pool_info) \<and>
     approval_grants E s (key approval_info) (key pool_info) actor (ps_auditor p) action parts \<and>
     I POLICY_PROGRAM_ID [readonly_signer_meta (key pool_info), writable_meta (key approval_info)]
        ([39, action] @ bytes32 (sha256_parts E (policy_preimage E (key pool_info) actor action parts)))
        ([POOL_STATE_SEED, bytes32 (ps_zkbtc_mint p)] @ [[ps_bump p]]) s = Inr s'"
  using assms
  by (auto simp: consume_policy_approval_def run_simps approval_grants_def compute_policy_request_hash_def
      spend_is_allowed_def Let_def case_prod_beta prod_eq_iff)
    (auto simp: pool_pda_ok_def)

lemma consume_agrees:
  assumes run: "policy_runtime R E I" and id: "program_id E = ASSET_PROGRAM_ID"
    and und: "take 1 (rl_undelegate_discriminator R) \<noteq> [39]"
    and pool: "pool_at s (key pool_info) = Inr p" "permissioned p" "\<not> auditor_is_frozen p"
  shows "consume_policy_approval I E approval_info program_info pool_info actor (ps_auditor p) action parts s = Inr s' \<longleftrightarrow>
     key program_info = POLICY_PROGRAM_ID \<and> rt_executable E POLICY_PROGRAM_ID \<and> is_writable approval_info \<and>
     pool_pda_ok E s (key pool_info) \<and>
     approval_grants E s (key approval_info) (key pool_info) actor (ps_auditor p) action parts \<and>
     s' = set_policy_status (key approval_info) POLICY_STATUS_CONSUMED s"
proof -
  let ?pk = "key pool_info" and ?ak = "key approval_info"
  have "I POLICY_PROGRAM_ID [readonly_signer_meta ?pk, writable_meta ?ak]
        ([39, action] @ bytes32 (sha256_parts E (policy_preimage E ?pk actor action parts)))
        ([POOL_STATE_SEED, bytes32 (ps_zkbtc_mint p)] @ [[ps_bump p]]) s =
      Inr (set_policy_status ?ak POLICY_STATUS_CONSUMED s)"
    if ok: "pool_pda_ok E s ?pk" and g: "approval_grants E s ?ak ?pk actor (ps_auditor p) action parts"
  proof -
    from ok pool(1) have pda: "rt_find_pda E [POOL_STATE_SEED, bytes32 (ps_zkbtc_mint p)] (program_id E) = (?pk, ps_bump p)"
      and own: "owner (s ?pk) = ASSET_PROGRAM_ID"
      by (auto simp: pool_pda_ok_def find_program_address_def id)
    from g obtain a where "policy_approval_validate (adata (s ?ak)) = Inr a" "owner (s ?ak) = POLICY_PROGRAM_ID"
        "pa_status a = POLICY_STATUS_APPROVED" "clock_slot E \<le> pa_expires_at_slot a" "pa_action a = action" "pa_pool a = ?pk"
        "pa_policy_authority a = ps_auditor p" "pa_request_hash a = sha256_parts E (policy_preimage E ?pk actor action parts)"
        "rt_find_pda E [POLICY_APPROVAL_SEED, bytes32 ?pk, bytes32 (pa_request_hash a), bytes32 (pa_nonce a)]
          POLICY_PROGRAM_ID = (?ak, pa_bump a)"
      by (auto simp: approval_grants_def)
    then show ?thesis
      using pool own pda unfolding policy_runtime_consume [OF run und pda]
      by (intro policy_consume_ok [where p = p and a = a]) (simp_all add: id)
  qed
  then show ?thesis
    unfolding consume_policy_approval_iff [where s = s and pool_info = pool_info, OF pool(1)] by auto
qed

text \<open>
  C26. The asset program and the policy program decide alike. For a permissioned pool of the asset
  program whose auditor is not frozen, consuming an approval succeeds exactly when the asset
  program's own account checks hold and the approval grants this spend: approved, unexpired, of
  this pool, actor, action, auditor and intent, stored at its derived address. The call into the
  policy program never refuses what the asset program accepted, and its only effect is that
  the approval's status becomes consumed.
\<close>

theorem policy_programs_agree:
  assumes run: "policy_runtime R E I" and id: "program_id E = ASSET_PROGRAM_ID"
    and und: "take 1 (rl_undelegate_discriminator R) \<noteq> [39]"
    and pool: "pool_at s (key pool_info) = Inr p" "permissioned p" "\<not> auditor_is_frozen p"
  shows "consume_policy_approval I E approval_info program_info pool_info actor (ps_auditor p) action parts s = Inr s' \<longleftrightarrow>
     key program_info = POLICY_PROGRAM_ID \<and> rt_executable E POLICY_PROGRAM_ID \<and> is_writable approval_info \<and>
     pool_pda_ok E s (key pool_info) \<and>
     approval_grants E s (key approval_info) (key pool_info) actor (ps_auditor p) action parts \<and>
     s' = set_policy_status (key approval_info) POLICY_STATUS_CONSUMED s"
  using assms by (rule consume_agrees)

definition agree_env :: env where
  "agree_env = demo_env\<lparr>program_id := ASSET_PROGRAM_ID,
     rt_find_pda := (\<lambda>seeds p. if p = POLICY_PROGRAM_ID then (7, 255) else (266, 255))\<rparr>"

definition agree_rollups :: rollups where
  "agree_rollups =
     \<lparr>rl_undelegate_discriminator = [196, 28, 41, 206, 48, 37, 51, 167], rl_delegation_program = 301,
      rl_permission_program = 302, rl_vault = 303, rl_magic_context = 304, rl_magic_program = 305,
      rl_buffer_pda = (\<lambda>k p. k + 1), rl_record_pda = (\<lambda>k. k + 2), rl_metadata_pda = (\<lambda>k. k + 3),
      rl_permission_pda = (\<lambda>k. k + 4), rl_flag_authority = 1, rl_flag_tx_logs = 2, rl_flag_tx_balances = 4,
      rl_flag_tx_message = 8, rl_flag_account_signatures = 16,
      rl_delegate_account = (\<lambda>_ _ _ _ _. Inr), rl_undelegate = (\<lambda>_ _ _ _ _. Inr),
      rl_create_permission = (\<lambda>_ _ _. Inr), rl_update_permission = (\<lambda>_ _ _. Inr),
      rl_close_permission = (\<lambda>_ _. Inr), rl_commit = (\<lambda>_ _ _. Inr)\<rparr>"

definition agree_invoke :: invoke where
  "agree_invoke p metas d seeds s =
     policy_process_instruction agree_rollups (agree_env\<lparr>program_id := POLICY_PROGRAM_ID\<rparr>) (map meta_info metas) d s"

definition agree_pool :: pool_state where
  "agree_pool = demo_pool\<lparr>ps_flags := 2, ps_auditor := 99\<rparr>"

definition agree_approval :: policy_approval where
  "agree_approval =
     \<lparr>pa_discriminator = POLICY_APPROVAL_DISCRIMINATOR, pa_version = POLICY_APPROVAL_VERSION,
      pa_status = POLICY_STATUS_APPROVED, pa_bump = 255, pa_action = UNSHIELD_IX, pa_padding = 0,
      pa_expires_at_slot = 100, pa_pool = 266, pa_actor = 5, pa_policy_authority = 99,
      pa_request_hash = sha256_parts agree_env (policy_preimage agree_env 266 5 UNSHIELD_IX [[1], [2], [3]]), pa_nonce = 0\<rparr>"

definition agree_store :: store where
  "agree_store k =
     (if k = 7 then \<lparr>lamports = 1, owner = POLICY_PROGRAM_ID, adata = encode_policy_approval agree_approval\<rparr>
      else \<lparr>lamports = 1, owner = ASSET_PROGRAM_ID, adata = encode_pool_state agree_pool\<rparr>)"

lemma policy_asset_ids: "POLICY_PROGRAM_ID \<noteq> ASSET_PROGRAM_ID"
  by (simp add: POLICY_PROGRAM_ID_def ASSET_PROGRAM_ID_def)

lemma policy_approval_validate_encode:
  "pa_discriminator a = POLICY_APPROVAL_DISCRIMINATOR \<Longrightarrow> pa_version a = POLICY_APPROVAL_VERSION \<Longrightarrow>
     policy_approval_validate (encode_policy_approval a) = Inr a"
  using pal.decode_encode [of a "[]"]
  by (simp add: policy_approval_validate_def pal.length_encode pal.first_byte)
    (simp add: encode_policy_approval_def byte1_def)

theorem policy_programs_agree_witness:
  "consume_policy_approval agree_invoke agree_env (demo_acc 7) (demo_acc POLICY_PROGRAM_ID) (demo_acc 266) 5
     (ps_auditor agree_pool) UNSHIELD_IX [[1], [2], [3]] agree_store =
   Inr (set_policy_status 7 POLICY_STATUS_CONSUMED agree_store)"
proof -
  have run: "policy_runtime agree_rollups agree_env agree_invoke"
    by (simp add: policy_runtime_def agree_invoke_def)
  have pool: "pool_at agree_store (key (demo_acc 266)) = Inr agree_pool"
    using psl.from_bytes_encode [of agree_pool]
    by (simp add: agree_store_def pool_state_from_bytes_def) (simp add: agree_pool_def demo_pool_def POOL_STATE_DISCRIMINATOR_def)
  have flags: "permissioned agree_pool" "\<not> auditor_is_frozen agree_pool"
    by (simp_all add: permissioned_def auditor_is_frozen_def agree_pool_def)
  have env: "program_id agree_env = ASSET_PROGRAM_ID" "take 1 (rl_undelegate_discriminator agree_rollups) \<noteq> [39]"
    "rt_executable agree_env POLICY_PROGRAM_ID" "clock_slot agree_env = 100"
    "rt_find_pda agree_env x POLICY_PROGRAM_ID = (7, 255)" "rt_find_pda agree_env x ASSET_PROGRAM_ID = (266, 255)" for x
    using policy_asset_ids by (simp_all add: agree_env_def agree_rollups_def demo_env_def)
  have a: "policy_approval_validate (adata (agree_store 7)) = Inr agree_approval" "owner (agree_store 7) = POLICY_PROGRAM_ID"
    "owner (agree_store 266) = ASSET_PROGRAM_ID"
    by (simp_all add: agree_store_def policy_approval_validate_encode agree_approval_def)
  have "approval_grants agree_env agree_store 7 266 5 (ps_auditor agree_pool) UNSHIELD_IX [[1], [2], [3]]"
    using a env by (simp add: approval_grants_def) (simp add: agree_approval_def agree_pool_def MAX_INTENT_PARTS_def)
  moreover have "pool_pda_ok agree_env agree_store 266"
    using pool a env by (simp add: pool_pda_ok_def find_program_address_def) (simp add: agree_pool_def demo_pool_def)
  ultimately show ?thesis
    using policy_programs_agree [where s = agree_store and pool_info = "demo_acc 266",
      OF run env(1,2) pool flags, of "demo_acc 7" "demo_acc POLICY_PROGRAM_ID" 5 UNSHIELD_IX "[[1], [2], [3]]"] env(3)
    by simp
qed

section \<open>The life of an approval\<close>

text \<open>
  The instructions of the policy program but for those that hand the account to the rollup
  library, run in any environment of that program.
\<close>

definition is_rollup_call :: "rollups \<Rightarrow> bytes \<Rightarrow> bool" where
  "is_rollup_call R d \<longleftrightarrow> 8 \<le> length d \<and> take 8 d = rl_undelegate_discriminator R \<or> d \<noteq> [] \<and> hd d \<in> {32, 34, 38}"

inductive policy_step :: "rollups \<Rightarrow> store \<Rightarrow> store \<Rightarrow> bool" for R where
  policy_stepI: "program_id E = POLICY_PROGRAM_ID \<Longrightarrow> system_program_spec E \<Longrightarrow> \<not> is_rollup_call R d \<Longrightarrow>
     policy_process_instruction R E accounts d s = Inr s' \<Longrightarrow> policy_step R s s'"

definition approval_account :: "store \<Rightarrow> pubkey \<Rightarrow> bool" where
  "approval_account s k \<longleftrightarrow> owner (s k) = POLICY_PROGRAM_ID \<and> length (adata (s k)) = POLICY_APPROVAL_LEN"

lemma approval_account_set_status [simp]: "approval_account (set_policy_status k' v s) k \<longleftrightarrow> approval_account s k"
  by (cases "k = k'") (simp_all add: approval_account_def set_policy_status_def)

lemma adata_set_status: "adata (set_policy_status k' v s k) = (if k = k' then (adata (s k))[2 := v] else adata (s k))"
  by (simp add: set_policy_status_def)

text \<open>One instruction leaves an approval alone or moves it along the status graph.\<close>

definition status_edges :: "(u8 \<times> u8) set" where
  "status_edges = {(POLICY_STATUS_PENDING, POLICY_STATUS_APPROVED), (POLICY_STATUS_PENDING, POLICY_STATUS_REJECTED),
     (POLICY_STATUS_APPROVED, POLICY_STATUS_CONSUMED)}"

lemma status_edges_final: "(u, v) \<in> status_edges \<Longrightarrow> u \<notin> {POLICY_STATUS_REJECTED, POLICY_STATUS_CONSUMED}"
  by (auto simp: status_edges_def POLICY_STATUS_PENDING_def POLICY_STATUS_APPROVED_def POLICY_STATUS_REJECTED_def
      POLICY_STATUS_CONSUMED_def)

lemma policy_step_status:
  assumes "policy_step R s s'" and "approval_account s k"
  shows "approval_account s' k \<and>
    (adata (s' k) = adata (s k) \<or> (\<exists>v. (adata (s k) ! 2, v) \<in> status_edges \<and> adata (s' k) = (adata (s k))[2 := v]))"
  using assms(1)
proof cases
  case (policy_stepI E d accounts)
  then consider (init) rest where "policy_initialize E accounts rest s = Inr s'"
    | (decide) rest where "policy_decision E accounts rest s = Inr s'"
    | (consume) rest where "policy_consume E accounts rest s = Inr s'"
    by (auto simp: policy_process_instruction_def is_rollup_call_def split: list.splits if_splits)
  then show ?thesis
  proof cases
    case init
    from init obtain rent s1 d' f ak l where c: "sys_create_account E f ak l 176 (program_id E) s = Inr s1"
      and s': "s' = set_data ak d' s1"
      by (auto simp: policy_initialize_def Let_def run_simps case_prod_beta)
    note sys = system_createD [OF policy_stepI(2) c]
    with assms(2) have "k \<noteq> ak" by (auto simp: approval_account_def POLICY_APPROVAL_LEN_def)
    then show ?thesis using sys assms(2) s' by (cases "k = f") (simp_all add: approval_account_def)
  next
    case decide
    then obtain ak v where "(adata (s ak) ! 2, v) \<in> {(0, 1), (0, 2)}" "s' = set_policy_status ak v s"
      by (intro that [of "key (accounts ! 1)" "if rest ! 0 = 1 then 1 else 2"])
        (auto simp: policy_decision_def Let_def run_simps)
    then show ?thesis
      using assms(2) by (cases "k = ak") (force simp: adata_set_status status_edges_def POLICY_STATUS_PENDING_def
          POLICY_STATUS_APPROVED_def POLICY_STATUS_REJECTED_def)+
  next
    case consume
    then obtain ak where "adata (s ak) ! 2 = 1" "s' = set_policy_status ak 3 s"
      by (auto simp: policy_consume_def Let_def run_simps case_prod_beta policy_spend_is_allowed_def)
    then show ?thesis
      using assms(2) by (cases "k = ak")
        (force simp: adata_set_status status_edges_def POLICY_STATUS_CONSUMED_def POLICY_STATUS_APPROVED_def)+
  qed
qed


definition pending_approval :: policy_approval where
  "pending_approval = agree_approval\<lparr>pa_status := POLICY_STATUS_PENDING\<rparr>"

definition pending_store :: store where
  "pending_store = set_data 7 (encode_policy_approval pending_approval) agree_store"


end
