(* ===== verification/UX_Deposit.thy ===== *)
theory UX_Deposit
  imports UX_Settle UX_Secp UX_Policy
begin

text \<open>
  \<open>instructions/complete_deposit.rs\<close>: crediting a Bitcoin deposit. The four entry points
  (with the note keys in an \<open>OP_RETURN\<close> or bound by the deposit address, for open or for
  permissioned pools) share \<open>complete_deposit_inner\<close>, the composition of the definitions
  below in the order of the code. \<open>I\<close> is the cross-program call, \<open>rc\<close> the
  recovery syscall. Log events are not modelled. The theorems say that a deposit keeps the supply
  backed by the bitcoin held, and that one Bitcoin output is credited at most once.
\<close>

section \<open>Instruction data\<close>

definition required_confirmations :: "env \<Rightarrow> u64" where
  "required_confirmations E = (if devnet_build E then 1 else 6)"

record complete_deposit_data =
  cdd_sweep_txid :: hash32
  cdd_block_height :: u64
  cdd_sweep_tx_size :: u32
  cdd_deposit_tx_size :: u32
  cdd_deposit_txid :: hash32

definition DEPOSIT_HEADER_SIZE :: nat where "DEPOSIT_HEADER_SIZE = 80"

definition complete_deposit_data_from_bytes :: "bytes \<Rightarrow> complete_deposit_data result" where
  "complete_deposit_data_from_bytes d =
     (if length d < DEPOSIT_HEADER_SIZE then Inl InvalidInstructionData
      else Inr \<lparr>cdd_sweep_txid = from_le (bslice 0 32 d), cdd_block_height = from_le (bslice 32 8 d),
                cdd_sweep_tx_size = from_le (bslice 40 4 d), cdd_deposit_tx_size = from_le (bslice 44 4 d),
                cdd_deposit_txid = from_le (bslice 48 32 d)\<rparr>)"

text \<open>Where the note keys come from: ephemeral key, note key and output index of a tweaked address.\<close>

datatype deposit_binding = OpReturnBinding | TweakBinding hash32 hash32 u32

definition binding_vout :: "deposit_binding \<Rightarrow> u32 option" where
  "binding_vout b = (case b of OpReturnBinding \<Rightarrow> None | TweakBinding _ _ v \<Rightarrow> Some v)"

record verify_deposit_data =
  vdd_base :: complete_deposit_data
  vdd_ephemeral_pubkey :: hash32
  vdd_note_public_key :: hash32
  vdd_deposit_vout :: u32

definition VERIFY_DEPOSIT_SIZE :: nat where "VERIFY_DEPOSIT_SIZE = DEPOSIT_HEADER_SIZE + 68"

definition verify_deposit_data_from_bytes :: "bytes \<Rightarrow> verify_deposit_data result" where
  "verify_deposit_data_from_bytes d =
     (if length d < VERIFY_DEPOSIT_SIZE then Inl InvalidInstructionData
      else bindE (complete_deposit_data_from_bytes d) (\<lambda>base.
        Inr \<lparr>vdd_base = base, vdd_ephemeral_pubkey = from_le (bslice 80 32 d),
             vdd_note_public_key = from_le (bslice 112 32 d), vdd_deposit_vout = from_le (bslice 144 4 d)\<rparr>))"

section \<open>Account checks and limits\<close>

definition deposit_checks :: "env \<Rightarrow> account_info list \<Rightarrow> store \<Rightarrow> unit result" where
  "deposit_checks E accounts s =
     bindE (validate_owned_by (lc_program_id E) s (accounts ! 1)) (\<lambda>_.
     bindE (validate_owned_by (lc_program_id E) s (accounts ! 2)) (\<lambda>_.
     bindE (validate_program_owner E s (accounts ! 3)) (\<lambda>_.
     bindE (validate_token_owner s (accounts ! 7)) (\<lambda>_.
     bindE (validate_token_owner s (accounts ! 8)) (\<lambda>_.
     bindE (validate_any_token_program_key (accounts ! 9)) (\<lambda>_.
     if owner (s (key (accounts ! 7))) \<noteq> key (accounts ! 9) \<or> owner (s (key (accounts ! 8))) \<noteq> key (accounts ! 9)
     then Inl InvalidAccountOwner
     else
     bindE (validate_system_program (accounts ! 6)) (\<lambda>_.
     bindE (validate_account_writable (accounts ! 0)) (\<lambda>_.
     bindE (validate_account_writable (accounts ! 3)) (\<lambda>_.
     bindE (validate_account_writable (accounts ! 7)) (\<lambda>_.
     bindE (validate_account_writable (accounts ! 8)) (\<lambda>_.
     bindE (validate_account_writable (accounts ! 11)) (\<lambda>_.
     bindE (validate_account_writable (accounts ! 12)) (\<lambda>_.
     bindE (validate_program_owner E s (accounts ! 13)) (\<lambda>_.
     validate_account_writable (accounts ! 13)))))))))))))))"

text \<open>The pool and the token configuration as read before anything is written.\<close>

definition deposit_limits :: "env \<Rightarrow> account_info list \<Rightarrow> store \<Rightarrow> (pool_state \<times> token_config) result" where
  "deposit_limits E accounts s =
     (let pk = key (accounts ! 0); mint = key (accounts ! 7); vault = key (accounts ! 8); tck = key (accounts ! 13) in
      if tck \<noteq> fst (find_program_address E [TOKEN_CONFIG_SEED, bytes32 pk, bytes32 mint]) then Inl InvalidPDA
      else
      bindE (pool_state_from_bytes (adata (s pk))) (\<lambda>pool.
      if mint \<noteq> ps_zkbtc_mint pool \<or> vault \<noteq> ps_pool_vault pool then Inl InvalidVault
      else
      bindE (validate_active_tree_pda E s (accounts ! 3) (accounts ! 0) (ps_active_tree_index pool)) (\<lambda>_.
      bindE (token_config_from_bytes (adata (s tck))) (\<lambda>tc.
      if tc_enabled tc = 0 then Inl TokenDisabled
      else if tc_mint tc \<noteq> mint \<or> tc_vault tc \<noteq> vault then Inl InvalidTokenConfig
      else Inr (pool, tc)))))"

section \<open>Receipts\<close>

definition DEPOSIT_RECEIPT_DISCRIMINATOR :: u8 where "DEPOSIT_RECEIPT_DISCRIMINATOR = 0x06"
definition DEPOSIT_RECEIPT_LEN :: nat where "DEPOSIT_RECEIPT_LEN = 1"
definition DEPOSIT_RECEIPT_SEED :: bytes where "DEPOSIT_RECEIPT_SEED = ascii ''deposit_receipt''"

definition deposit_receipt_seeds :: "hash32 \<Rightarrow> u32 option \<Rightarrow> bytes list" where
  "deposit_receipt_seeds txid vout =
     (case vout of Some v \<Rightarrow> [DEPOSIT_RECEIPT_SEED, bytes32 txid, bytes4 v] | None \<Rightarrow> [DEPOSIT_RECEIPT_SEED, bytes32 txid])"

definition record_deposit :: "env \<Rightarrow> pubkey \<Rightarrow> account_info \<Rightarrow> hash32 \<Rightarrow> u32 option \<Rightarrow> store \<Rightarrow> store result" where
  "record_deposit E payer receipt txid vout s =
     (let k = key receipt; seeds = deposit_receipt_seeds txid vout in
      if k \<noteq> fst (find_program_address E seeds) then Inl InvalidSeeds
      else if adata (s k) \<noteq> [] \<and> adata (s k) ! 0 = DEPOSIT_RECEIPT_DISCRIMINATOR then Inl DuplicateDeposit
      else
      bindE (create_pda_account E payer k (rt_minimum_balance E DEPOSIT_RECEIPT_LEN) (of_nat DEPOSIT_RECEIPT_LEN)
        (length seeds + 1) s) (\<lambda>s1.
      receipt_init DEPOSIT_RECEIPT_DISCRIMINATOR k s1))"

section \<open>The transactions\<close>

text \<open>The proven transaction and the deposit transaction, which may be the same one.\<close>

definition deposit_transactions :: "env \<Rightarrow> account_info list \<Rightarrow> complete_deposit_data \<Rightarrow> store \<Rightarrow>
    (parsed_transaction \<times> parsed_transaction) result" where
  "deposit_transactions E accounts ix s =
     bindE (validate_chadbuffer_owner E s (accounts ! 4)) (\<lambda>_.
     bindE (read_transaction_from_buffer (adata (s (key (accounts ! 4)))) (unat (cdd_sweep_tx_size ix))) (\<lambda>sweep_raw.
     if compute_tx_hash E sweep_raw \<noteq> cdd_sweep_txid ix then Inl InvalidSpvProof
     else
     bindE (map_err InvalidSpvProof (parse_transaction sweep_raw)) (\<lambda>sweep.
     bindE (if cdd_deposit_tx_size ix = 0
            then (if cdd_deposit_txid ix \<noteq> cdd_sweep_txid ix then Inl InvalidSpvProof else Inr sweep_raw)
            else
            bindE (validate_chadbuffer_owner E s (accounts ! 10)) (\<lambda>_.
            bindE (read_transaction_from_buffer (adata (s (key (accounts ! 10)))) (unat (cdd_deposit_tx_size ix))) (\<lambda>raw.
            if compute_tx_hash E raw \<noteq> cdd_deposit_txid ix then Inl InvalidSpvProof else Inr raw))) (\<lambda>deposit_raw.
     bindE (map_err InvalidSpvProof (parse_transaction deposit_raw)) (\<lambda>deposit.
     Inr (sweep, deposit))))))"

definition expected_pool_tag :: "env \<Rightarrow> pubkey \<Rightarrow> pubkey \<Rightarrow> u64" where
  "expected_pool_tag E pool mint =
     from_le (take 8 (bytes32 (rt_sha256 E (ascii ''UTXOPIA_SOL'' @ bytes32 (program_id E) @ bytes32 pool @ bytes32 mint))))"

text \<open>The ephemeral key and the note key of the deposit.\<close>

definition deposit_note_keys :: "env \<Rightarrow> pubkey \<Rightarrow> pubkey \<Rightarrow> deposit_binding \<Rightarrow> parsed_transaction \<Rightarrow> (hash32 \<times> hash32) result" where
  "deposit_note_keys E pool mint binding deposit =
     (case binding of
        OpReturnBinding \<Rightarrow>
          bindE (ok_or (find_deposit_op_return deposit) InvalidStealthOpReturn) (\<lambda>r.
          if dor_pool_tag r \<noteq> expected_pool_tag E pool mint then Inl InvalidStealthOpReturn
          else Inr (dor_ephemeral_pubkey r, dor_note_public_key r))
      | TweakBinding ephemeral note _ \<Rightarrow> Inr (ephemeral, note))"

definition deposit_pool_config :: "env \<Rightarrow> account_info list \<Rightarrow> store \<Rightarrow> pool_config result" where
  "deposit_pool_config E accounts s =
     bindE (validate_pool_config_pda E s (accounts ! 14) (accounts ! 0)) (\<lambda>_.
     let d = adata (s (key (accounts ! 14))) in
     if length d < POOL_CONFIG_LEN \<or> d ! 0 \<noteq> POOL_CONFIG_DISCRIMINATOR then Inl IkaCpiAccountsMissing
     else
     bindE (pool_config_from_bytes d) (\<lambda>config.
     if get_pool_script config = [] then Inl IkaCpiAccountsMissing else Inr config))"

section \<open>The credited output\<close>

definition is_p2tr_positive :: "tx_output \<Rightarrow> bool" where
  "is_p2tr_positive x \<longleftrightarrow> txo_value x \<noteq> 0 \<and> length (script_pubkey x) = 34 \<and> script_pubkey x ! 0 = 0x51 \<and> script_pubkey x ! 1 = 0x20"

definition output_key_of :: "tx_output \<Rightarrow> hash32" where
  "output_key_of x = from_le (bslice 2 32 (script_pubkey x))"

definition tweak_credited :: "env \<Rightarrow> recover \<Rightarrow> deposit_binding \<Rightarrow> pool_config \<Rightarrow> parsed_transaction \<Rightarrow> (u64 \<times> u32) option result" where
  "tweak_credited E rc binding config sweep =
     (case binding of
        OpReturnBinding \<Rightarrow> Inr None
      | TweakBinding ephemeral note vout \<Rightarrow>
          let internal_key = pc_ika_dwallet_xonly_pubkey config in
          if internal_key = 0 then Inl IkaCpiAccountsMissing
          else if length (tx_outputs sweep) \<le> unat vout then Inl InvalidSpvProof
          else let out = tx_outputs sweep ! unat vout in
          if \<not> is_p2tr_positive out then Inl TaprootVerificationFailed
          else
          bindE (verify_taproot_output_key E rc DEPOSIT_NUMS_INTERNAL_KEY
            (deposit_leaf_hash E (tweak_commitment E note ephemeral) internal_key) (output_key_of out)) (\<lambda>_.
          Inr (Some (txo_value out, vout))))"

text \<open>The scan for the one output that pays the note's derived address.\<close>

fun match_output :: "env \<Rightarrow> recover \<Rightarrow> hash32 \<Rightarrow> hash32 \<Rightarrow> (nat \<times> tx_output) list \<Rightarrow> (tx_output \<times> u32) option \<Rightarrow>
    (tx_output \<times> u32) option result" where
  "match_output E rc internal_key npk [] matched = Inr matched"
| "match_output E rc internal_key npk ((vout, x) # xs) matched =
     (if \<not> is_p2tr_positive x then match_output E rc internal_key npk xs matched
      else if verify_taproot_output_key E rc internal_key npk (output_key_of x) = Inr ()
      then (if matched \<noteq> None then Inl InvalidSpvProof
            else match_output E rc internal_key npk xs (Some (x, of_nat vout)))
      else match_output E rc internal_key npk xs matched)"

definition check_sweep :: "env \<Rightarrow> recover \<Rightarrow> complete_deposit_data \<Rightarrow> deposit_binding \<Rightarrow> hash32 \<Rightarrow> pool_config \<Rightarrow>
    parsed_transaction \<Rightarrow> parsed_transaction \<Rightarrow> unit result" where
  "check_sweep E rc ix binding note config sweep deposit =
     (if input_count sweep \<noteq> 1 then Inl InvalidSpvProof
      else let internal_key = pc_ika_dwallet_xonly_pubkey config in
      if internal_key = 0 then Inl IkaCpiAccountsMissing
      else case binding of
        TweakBinding _ _ _ \<Rightarrow> Inl InvalidInstructionData
      | OpReturnBinding \<Rightarrow>
          bindE (match_output E rc internal_key note (enumerate 0 (tx_outputs deposit)) None) (\<lambda>matched.
          bindE (ok_or matched TaprootVerificationFailed) (\<lambda>(out, vout).
          ensure (find_input_with_prev_outpoint (cdd_deposit_txid ix) vout sweep) InvalidSpvProof)))"

definition credited_output :: "env \<Rightarrow> recover \<Rightarrow> complete_deposit_data \<Rightarrow> deposit_binding \<Rightarrow> hash32 \<Rightarrow> pool_config \<Rightarrow>
    parsed_transaction \<Rightarrow> parsed_transaction \<Rightarrow> (u64 \<times> u32) result" where
  "credited_output E rc ix binding note config sweep deposit =
     bindE (tweak_credited E rc binding config sweep) (\<lambda>tweak.
     bindE (if cdd_deposit_tx_size ix = 0 \<or> tweak \<noteq> None then Inr ()
            else check_sweep E rc ix binding note config sweep deposit) (\<lambda>_.
     case tweak of
       Some credited \<Rightarrow> Inr credited
     | None \<Rightarrow>
         if positive_output_count_by_script (get_pool_script config) sweep \<noteq> 1 then Inl InvalidSpvProof
         else
         bindE (ok_or (find_output_by_script (get_pool_script config) sweep) InvalidSpvProof) (\<lambda>(out, vout).
         Inr (txo_value out, vout))))"

definition validate_btc_deposit_amount_and_fee :: "u64 \<Rightarrow> u64 \<Rightarrow> u64 \<Rightarrow> u64 \<Rightarrow> u64 \<Rightarrow> u16 \<Rightarrow> u64 \<Rightarrow> (u64 \<times> u64) result" where
  "validate_btc_deposit_amount_and_fee amount_sats pool_min pool_max token_min token_max fee_bps service_fee =
     (if amount_sats < pool_min then Inl AmountTooSmall
      else if amount_sats > pool_max then Inl AmountTooLarge
      else if amount_sats < token_min \<or> amount_sats > token_max then Inl AmountOutOfRange
      else
      bindE (ok_or (checked_add (compute_bps_fee amount_sats fee_bps) service_fee) ArithmeticOverflow) (\<lambda>total_fee.
      bindE (ok_or (checked_sub amount_sats total_fee) ArithmeticOverflow) (\<lambda>shielded_amount.
      if shielded_amount = 0 then Inl ZeroAmount else Inr (total_fee, shielded_amount))))"

section \<open>The writes\<close>

definition insert_note :: "env \<Rightarrow> pubkey \<Rightarrow> hash32 \<Rightarrow> store \<Rightarrow> store result" where
  "insert_note E tree commitment s =
     bindE (commitment_tree_from_bytes (adata (s tree))) (\<lambda>t.
     if \<not> has_capacity t then Inl TreeFull
     else
     bindE (insert_leaf E commitment t) (\<lambda>(leaf_index, t').
     write_front tree (encode_commitment_tree t') s))"

definition record_pool_output :: "env \<Rightarrow> account_info list \<Rightarrow> hash32 \<Rightarrow> u32 \<Rightarrow> u64 \<Rightarrow> hash32 option \<Rightarrow> store \<Rightarrow> store result" where
  "record_pool_output E accounts txid vout value leaf s =
     (let pk = key (accounts ! 0); k = key (accounts ! 12);
          account_len = (if leaf \<noteq> None then UTXO_RECORD_LEN + 32 else UTXO_RECORD_LEN) in
      if k \<noteq> fst (find_program_address E [UTXO_SEED, bytes32 pk, bytes32 txid, bytes4 vout]) then Inl InvalidSeeds
      else if adata (s k) \<noteq> [] \<and> adata (s k) ! 0 = UTXO_RECORD_DISCRIMINATOR then Inl DuplicateDeposit
      else
      bindE (create_pda_account E (key (accounts ! 5)) k (rt_minimum_balance E account_len) (of_nat account_len) 5 s) (\<lambda>s1.
      bindE (utxo_init k txid vout value s1) (\<lambda>s2.
      bindE (case leaf of None \<Rightarrow> Inr s2
             | Some c \<Rightarrow> bindE (set_leaf_commitment c (adata (s2 k))) (\<lambda>d. Inr (set_data k d s2))) (\<lambda>s3.
      bindE (pool_state_from_bytes (adata (s3 pk))) (\<lambda>pool.
      bindE (add_utxo value pool) (\<lambda>pool'.
      write_front pk (encode_pool_state pool') s3))))))"

definition credit_token :: "pubkey \<Rightarrow> u64 \<Rightarrow> u64 \<Rightarrow> store \<Rightarrow> (u64 \<times> store) result" where
  "credit_token tck shielded_amount total_fee s =
     bindE (token_config_from_bytes (adata (s tck))) (\<lambda>tc.
     bindE (ok_or (checked_add (tc_total_shielded tc) shielded_amount) ArithmeticOverflow) (\<lambda>total.
     if total > tc_deposit_cap tc then Inl DepositCapExceeded
     else
     bindE (tc_add_shielded shielded_amount tc) (\<lambda>tc1.
     bindE (tc_add_fees total_fee tc1) (\<lambda>tc2.
     bindE (write_front tck (encode_token_config tc2) s) (\<lambda>s'.
     Inr (tc_total_shielded tc2, s'))))))"

definition settle_deposit :: "env \<Rightarrow> u64 \<Rightarrow> u64 \<Rightarrow> pool_state \<Rightarrow> pool_state result" where
  "settle_deposit E amount_sats token_total p =
     bindE (increment_deposit_count p) (\<lambda>p1.
     bindE (add_minted amount_sats p1) (\<lambda>p2.
     Inr (p2\<lparr>ps_total_shielded := token_total, ps_last_update := clock_unix_timestamp E\<rparr>)))"

text \<open>The part that only reads: what the confirmed transaction pays, to which keys, at which index.\<close>

definition verified_deposit :: "recover \<Rightarrow> env \<Rightarrow> account_info list \<Rightarrow> complete_deposit_data \<Rightarrow> deposit_binding \<Rightarrow> store \<Rightarrow>
    (hash32 \<times> hash32 \<times> u64 \<times> u32) result" where
  "verified_deposit rc E accounts ix binding s =
     bindE (spv_gate InvalidSpvProof (required_confirmations E) (Some (cdd_block_height ix)) E accounts (accounts ! 1) (accounts ! 2)
       (cdd_sweep_txid ix) s) (\<lambda>_.
     bindE (deposit_transactions E accounts ix s) (\<lambda>(sweep, deposit).
     bindE (deposit_note_keys E (key (accounts ! 0)) (key (accounts ! 7)) binding deposit) (\<lambda>(ephemeral, note).
     bindE (deposit_pool_config E accounts s) (\<lambda>config.
     bindE (credited_output E rc ix binding note config sweep deposit) (\<lambda>(amount_sats, vout).
     Inr (ephemeral, note, amount_sats, vout))))))"

definition complete_deposit_inner :: "invoke \<Rightarrow> recover \<Rightarrow> env \<Rightarrow> account_info list \<Rightarrow> complete_deposit_data \<Rightarrow> deposit_binding \<Rightarrow>
    store \<Rightarrow> store result" where
  "complete_deposit_inner I rc E accounts ix binding s =
     (let pk = key (accounts ! 0); mint = key (accounts ! 7); tck = key (accounts ! 13) in
      bindE (deposit_checks E accounts s) (\<lambda>_.
      bindE (deposit_limits E accounts s) (\<lambda>(pool, tc).
      bindE (record_deposit E (key (accounts ! 5)) (accounts ! 11) (cdd_deposit_txid ix) (binding_vout binding) s) (\<lambda>s1.
      bindE (verified_deposit rc E accounts ix binding s1) (\<lambda>(ephemeral, note, amount_sats, vout).
      bindE (validate_btc_deposit_amount_and_fee amount_sats (ps_min_deposit pool) (ps_max_deposit pool)
        (tc_min_deposit tc) (tc_max_deposit tc) (ps_deposit_fee_bps pool) (tc_service_fee tc)) (\<lambda>(total_fee, shielded_amount).
      bindE (compute_commitment E note (tc_token_id tc) shielded_amount) (\<lambda>commitment.
      bindE (insert_note E (key (accounts ! 3)) commitment s1) (\<lambda>s2.
      bindE (record_pool_output E accounts (cdd_sweep_txid ix) vout amount_sats
        (case binding of OpReturnBinding \<Rightarrow> None | TweakBinding _ _ _ \<Rightarrow> Some (tweak_commitment E note ephemeral)) s2) (\<lambda>s3.
      bindE (mint_zkbtc I (key (accounts ! 9)) mint (key (accounts ! 8)) pk amount_sats
        [POOL_STATE_SEED, bytes32 mint, [ps_bump pool]] s3) (\<lambda>s4.
      bindE (credit_token tck shielded_amount total_fee s4) (\<lambda>(token_total, s5).
      bindE (pool_state_from_bytes (adata (s5 pk))) (\<lambda>pool5.
      bindE (settle_deposit E amount_sats token_total pool5) (\<lambda>pool6.
      write_front pk (encode_pool_state pool6) s5)))))))))))))"

section \<open>The entry points\<close>

text \<open>The gate of the open entry points and that of the permissioned ones; it returns the auditor.\<close>

definition open_gate :: "env \<Rightarrow> account_info list \<Rightarrow> store \<Rightarrow> unit result" where
  "open_gate E accounts s =
     bindE (validate_program_owner E s (accounts ! 0)) (\<lambda>_.
     bindE (pool_state_from_bytes (adata (s (key (accounts ! 0))))) (\<lambda>pool.
     if permissioned pool then Inl NotPermissioned
     else if is_paused pool then Inl PoolPaused
     else if key (accounts ! 5) \<noteq> ps_authority pool then Inl Unauthorized
     else Inr ()))"

definition permissioned_gate :: "env \<Rightarrow> account_info list \<Rightarrow> store \<Rightarrow> pubkey result" where
  "permissioned_gate E accounts s =
     bindE (validate_program_owner E s (accounts ! 0)) (\<lambda>_.
     bindE (pool_state_from_bytes (adata (s (key (accounts ! 0))))) (\<lambda>pool.
     if is_paused pool then Inl PoolPaused
     else if key (accounts ! 5) \<noteq> ps_authority pool then Inl Unauthorized
     else if auditor_is_frozen pool then Inl AuditorFrozen
     else if \<not> permissioned pool then Inl NotPermissioned
     else Inr (ps_auditor pool)))"

definition process_complete_deposit :: "invoke \<Rightarrow> recover \<Rightarrow> env \<Rightarrow> account_info list \<Rightarrow> bytes \<Rightarrow> store \<Rightarrow> store result" where
  "process_complete_deposit I rc E accounts d s =
     (if length accounts < 15 then Inl NotEnoughAccountKeys
      else if \<not> is_signer (accounts ! 5) then Inl MissingRequiredSignature
      else
      bindE (complete_deposit_data_from_bytes d) (\<lambda>ix.
      bindE (open_gate E accounts s) (\<lambda>_.
      complete_deposit_inner I rc E accounts ix OpReturnBinding s)))"

definition is_no_sweep :: "complete_deposit_data \<Rightarrow> bool" where
  "is_no_sweep ix \<longleftrightarrow> cdd_deposit_tx_size ix = 0 \<and> cdd_deposit_txid ix = cdd_sweep_txid ix"

definition process_verify_deposit :: "invoke \<Rightarrow> recover \<Rightarrow> env \<Rightarrow> account_info list \<Rightarrow> bytes \<Rightarrow> store \<Rightarrow> store result" where
  "process_verify_deposit I rc E accounts d s =
     (if length accounts < 15 then Inl NotEnoughAccountKeys
      else if \<not> is_signer (accounts ! 5) then Inl MissingRequiredSignature
      else if length d \<noteq> VERIFY_DEPOSIT_SIZE then Inl InvalidInstructionData
      else
      bindE (verify_deposit_data_from_bytes d) (\<lambda>ix.
      if \<not> is_no_sweep (vdd_base ix) then Inl InvalidInstructionData
      else
      bindE (open_gate E accounts s) (\<lambda>_.
      complete_deposit_inner I rc E accounts (vdd_base ix)
        (TweakBinding (vdd_ephemeral_pubkey ix) (vdd_note_public_key ix) (vdd_deposit_vout ix)) s)))"

definition process_verify_deposit_permissioned :: "invoke \<Rightarrow> recover \<Rightarrow> env \<Rightarrow> account_info list \<Rightarrow> bytes \<Rightarrow> store \<Rightarrow> store result" where
  "process_verify_deposit_permissioned I rc E accounts d s =
     (if length accounts < 17 then Inl NotEnoughAccountKeys
      else if \<not> is_signer (accounts ! 5) then Inl MissingRequiredSignature
      else
      bindE (verify_deposit_data_from_bytes d) (\<lambda>ix.
      if \<not> is_no_sweep (vdd_base ix) then Inl InvalidInstructionData
      else
      bindE (permissioned_gate E accounts s) (\<lambda>auditor.
      bindE (consume_policy_approval I E (accounts ! 15) (accounts ! 16) (accounts ! 0) (key (accounts ! 5)) auditor
        VERIFY_DEPOSIT_PERMISSIONED_IX [d] s) (\<lambda>s1.
      complete_deposit_inner I rc E accounts (vdd_base ix)
        (TweakBinding (vdd_ephemeral_pubkey ix) (vdd_note_public_key ix) (vdd_deposit_vout ix)) s1))))"

definition process_complete_deposit_permissioned :: "invoke \<Rightarrow> recover \<Rightarrow> env \<Rightarrow> account_info list \<Rightarrow> bytes \<Rightarrow> store \<Rightarrow> store result" where
  "process_complete_deposit_permissioned I rc E accounts d s =
     (if length accounts < 17 then Inl NotEnoughAccountKeys
      else if \<not> is_signer (accounts ! 5) then Inl MissingRequiredSignature
      else
      bindE (complete_deposit_data_from_bytes d) (\<lambda>ix.
      bindE (permissioned_gate E accounts s) (\<lambda>auditor.
      bindE (consume_policy_approval I E (accounts ! 15) (accounts ! 16) (accounts ! 0) (key (accounts ! 5)) auditor
        COMPLETE_DEPOSIT_PERMISSIONED_IX [d] s) (\<lambda>s1.
      complete_deposit_inner I rc E accounts ix OpReturnBinding s1))))"

section \<open>The steps of a deposit\<close>

lemma record_deposit_ok:
  assumes spec: "system_program_spec E" and run: "record_deposit E payer receipt txid vout s = Inr s1"
  shows "frame {key receipt} s s1" and "adata (s1 (key receipt)) \<noteq> []" and "adata (s1 (key receipt)) ! 0 = 0x06"
    and "key receipt = fst (find_program_address E (deposit_receipt_seeds txid vout))"
    and "\<not> (adata (s (key receipt)) \<noteq> [] \<and> adata (s (key receipt)) ! 0 = 0x06)"
proof -
  from run obtain s0 where k: "key receipt = fst (find_program_address E (deposit_receipt_seeds txid vout))"
    and new: "\<not> (adata (s (key receipt)) \<noteq> [] \<and> adata (s (key receipt)) ! 0 = DEPOSIT_RECEIPT_DISCRIMINATOR)"
    and c: "create_or_claim_pda E payer (key receipt) (rt_minimum_balance E DEPOSIT_RECEIPT_LEN) (of_nat DEPOSIT_RECEIPT_LEN) s = Inr s0"
    and w: "write_front (key receipt) [DEPOSIT_RECEIPT_DISCRIMINATOR] s0 = Inr s1"
    unfolding record_deposit_def receipt_init_def create_pda_account_def Let_def by (auto simp: run_simps)
  note W = claim_then_write [OF spec c w]
  from W(3) obtain rest where "adata (s1 (key receipt)) = DEPOSIT_RECEIPT_DISCRIMINATOR # rest" by auto
  with W(1) k new show "frame {key receipt} s s1" "adata (s1 (key receipt)) \<noteq> []" "adata (s1 (key receipt)) ! 0 = 0x06"
    "key receipt = fst (find_program_address E (deposit_receipt_seeds txid vout))"
    "\<not> (adata (s (key receipt)) \<noteq> [] \<and> adata (s (key receipt)) ! 0 = 0x06)"
    by (auto simp: DEPOSIT_RECEIPT_DISCRIMINATOR_def)
qed

lemma insert_note_ok:
  assumes "insert_note E k c s = Inr s'"
  shows "\<exists>t i t'. tree_at s k = Inr t \<and> insert_leaf E c t = Inr (i, t') \<and> tree_at s' k = Inr t'"
    and "k' \<noteq> k \<Longrightarrow> s' k' = s k'" and "owner (s' k') = owner (s k')"
proof -
  from assms have "remint E k c s = Inr s'" by (auto simp: insert_note_def remint_def run_simps)
  from remint_ok [OF this] show "\<exists>t i t'. tree_at s k = Inr t \<and> insert_leaf E c t = Inr (i, t') \<and> tree_at s' k = Inr t'"
    "k' \<noteq> k \<Longrightarrow> s' k' = s k'" "owner (s' k') = owner (s k')" by blast+
qed

lemma add_utxo_ok:
  assumes "add_utxo v p = Inr p'"
  shows "unat (ps_total_btc_held p') = unat (ps_total_btc_held p) + unat v" and "unat (utxo_count p') = unat (utxo_count p) + 1"
    and "same_but_utxos p p'"
proof -
  from assms obtain h c where "checked_add (ps_total_btc_held p) v = Some h" "checked_add (utxo_count p) 1 = Some c"
    and p': "p' = set_utxo_count c (p\<lparr>ps_total_btc_held := h\<rparr>)"
    by (auto simp: add_utxo_def run_simps)
  then show "unat (ps_total_btc_held p') = unat (ps_total_btc_held p) + unat v" "unat (utxo_count p') = unat (utxo_count p) + 1"
    "same_but_utxos p p'"
    by (auto simp: same_but_utxos_def dest!: unat_checked_add)
qed

text \<open>Writing the leaf commitment behind the record leaves the record.\<close>

lemma set_leaf_keeps_record:
  assumes "set_leaf_commitment c d = Inr d'" and "utxo_record_from_bytes d = Inr u"
  shows "utxo_record_from_bytes d' = Inr u" and "leaf_commitment d' = Some c"
proof -
  from assms have d: "d = encode_utxo_record u @ drop 56 d" and disc: "ur_discriminator u = UTXO_RECORD_DISCRIMINATOR"
    and d': "d' = take 56 d @ bytes32 c @ drop 88 d" and len: "88 \<le> length d"
    using url.from_bytes_iff [of d u] by (auto simp: set_leaf_commitment_def utxo_record_from_bytes_def UTXO_RECORD_LEN_def split: if_splits)
  have "take 56 d = encode_utxo_record u" using d url.length_encode [of u] by (metis UTXO_RECORD_LEN_def append_eq_conv_conj)
  with d' disc show "utxo_record_from_bytes d' = Inr u"
    by (simp add: utxo_record_from_bytes_def url.from_bytes_overlay)
  show "leaf_commitment d' = Some c" using len by (simp add: leaf_commitment_def d' UTXO_RECORD_LEN_def bslice_def)
qed

lemma record_pool_output_ok:
  assumes spec: "system_program_spec E" and run: "record_pool_output E accounts txid vout value leaf s = Inr s'"
    and apart: "key (accounts ! 12) \<noteq> key (accounts ! 0)"
  defines "pk \<equiv> key (accounts ! 0)" and "k \<equiv> key (accounts ! 12)"
  shows "frame {pk, k} s s'" and "\<not> (adata (s k) \<noteq> [] \<and> adata (s k) ! 0 = 0x09)"
    and "k = fst (find_program_address E [UTXO_SEED, bytes32 pk, bytes32 txid, bytes4 vout])"
    and "record_at s' k = Inr (new_utxo txid vout value)" and "leaf \<noteq> None \<Longrightarrow> leaf_commitment (adata (s' k)) = leaf"
    and "\<exists>p p'. pool_at s pk = Inr p \<and> add_utxo value p = Inr p' \<and> pool_at s' pk = Inr p'"
proof -
  from run obtain s1 s2 s3 p p' lam space where
    key: "k = fst (find_program_address E [UTXO_SEED, bytes32 pk, bytes32 txid, bytes4 vout])"
    and new: "\<not> (adata (s k) \<noteq> [] \<and> adata (s k) ! 0 = UTXO_RECORD_DISCRIMINATOR)"
    and c: "create_or_claim_pda E (key (accounts ! 5)) k lam space s = Inr s1"
    and w: "write_front k (encode_utxo_record (new_utxo txid vout value)) s1 = Inr s2"
    and leaf: "(case leaf of None \<Rightarrow> Inr s2 | Some c \<Rightarrow> bindE (set_leaf_commitment c (adata (s2 k))) (\<lambda>d. Inr (set_data k d s2))) = Inr s3"
    and p: "pool_at s3 pk = Inr p" "add_utxo value p = Inr p'" and wp: "write_front pk (encode_pool_state p') s3 = Inr s'"
    unfolding record_pool_output_def create_pda_account_def utxo_init_def Let_def k_def pk_def by (auto simp: run_simps)
  note W = claim_then_write [OF spec c w]
  have "ur_discriminator (new_utxo txid vout value) = UTXO_RECORD_DISCRIMINATOR" by (simp add: new_utxo_def)
  from url.from_bytes_after_write [OF w this]
  have r2: "utxo_record_from_bytes (adata (s2 k)) = Inr (new_utxo txid vout value)" by (simp add: utxo_record_from_bytes_def)
  have r3: "utxo_record_from_bytes (adata (s3 k)) = Inr (new_utxo txid vout value)"
    and l3: "leaf \<noteq> None \<Longrightarrow> leaf_commitment (adata (s3 k)) = leaf" and F3: "frame {k} s2 s3"
    using leaf set_leaf_keeps_record [OF _ r2] r2 by (auto simp: run_simps frame_set_data split: option.splits)
  have kp: "k \<noteq> pk" using apart by (simp add: k_def pk_def)
  have d: "ps_discriminator p' = POOL_STATE_DISCRIMINATOR"
    using discriminator_at(1) [of s3 pk p] p same_but_utxos_disc [OF add_utxo_ok(3) [OF p(2)]] by simp
  note WP = write_pool [OF wp d]
  have F: "frame {k} s s3" using frame_trans [OF W(1) F3] by simp
  from frame_trans [OF F frame_write [OF wp]] show "frame {pk, k} s s'" by (rule frame_mono) auto
  show "\<not> (adata (s k) \<noteq> [] \<and> adata (s k) ! 0 = 0x09)" using new by (simp add: UTXO_RECORD_DISCRIMINATOR_def)
  show "k = fst (find_program_address E [UTXO_SEED, bytes32 pk, bytes32 txid, bytes4 vout])" by (rule key)
  show "record_at s' k = Inr (new_utxo txid vout value)" using r3 WP(2) [OF kp] by (simp add: record_at_def)
  show "leaf_commitment (adata (s' k)) = leaf" if "leaf \<noteq> None" using l3 that WP(2) [OF kp] by simp
  have "pool_at s pk = Inr p" using read_frame(1) [OF F, of pk] kp p(1) by simp
  with p(2) WP(1) show "\<exists>p p'. pool_at s pk = Inr p \<and> add_utxo value p = Inr p' \<and> pool_at s' pk = Inr p'" by blast
qed

lemma credit_token_ok:
  assumes "credit_token k shielded fee s = Inr (tot, s')"
  shows "\<exists>tc tc'. token_at s k = Inr tc \<and> token_at s' k = Inr tc' \<and> tot = tc_total_shielded tc' \<and>
     tc' = tc\<lparr>tc_total_shielded := tc_total_shielded tc', tc_accumulated_fees := tc_accumulated_fees tc'\<rparr> \<and>
     unat (tc_total_shielded tc') = unat (tc_total_shielded tc) + unat shielded \<and>
     unat (tc_accumulated_fees tc') = unat (tc_accumulated_fees tc) + unat fee \<and> tc_total_shielded tc' \<le> tc_deposit_cap tc"
    and "k' \<noteq> k \<Longrightarrow> s' k' = s k'" and "owner (s' k') = owner (s k')"
proof -
  from assms obtain tc a b where tc: "token_at s k = Inr tc" and a: "checked_add (tc_total_shielded tc) shielded = Some a"
    and cap: "a \<le> tc_deposit_cap tc" and b: "checked_add (tc_accumulated_fees tc) fee = Some b"
    and w: "write_front k (encode_token_config (tc\<lparr>tc_total_shielded := a, tc_accumulated_fees := b\<rparr>)) s = Inr s'"
    and tt: "tot = a"
    by (auto simp: credit_token_def tc_add_shielded_def tc_add_fees_def run_simps)
  have "tc_discriminator (tc\<lparr>tc_total_shielded := a, tc_accumulated_fees := b\<rparr>) = TOKEN_CONFIG_DISCRIMINATOR"
    using discriminator_at(3) [of s k tc] tc by simp
  note W = write_token [OF w this]
  show "\<exists>tc tc'. token_at s k = Inr tc \<and> token_at s' k = Inr tc' \<and> tot = tc_total_shielded tc' \<and>
     tc' = tc\<lparr>tc_total_shielded := tc_total_shielded tc', tc_accumulated_fees := tc_accumulated_fees tc'\<rparr> \<and>
     unat (tc_total_shielded tc') = unat (tc_total_shielded tc) + unat shielded \<and>
     unat (tc_accumulated_fees tc') = unat (tc_accumulated_fees tc) + unat fee \<and> tc_total_shielded tc' \<le> tc_deposit_cap tc"
    using tc W(1) unat_checked_add [OF a] unat_checked_add [OF b] cap tt
    by (intro exI [of _ tc] exI [of _ "tc\<lparr>tc_total_shielded := a, tc_accumulated_fees := b\<rparr>"]) simp
  show "k' \<noteq> k \<Longrightarrow> s' k' = s k'" "owner (s' k') = owner (s k')" using W(2,3) by blast+
qed

lemma deposit_fee_split:
  assumes "validate_btc_deposit_amount_and_fee v pmin pmax tmin tmax bps fee = Inr (tot, shielded)"
  shows "unat tot + unat shielded = unat v" and "0 < shielded" and "pmin \<le> v" and "v \<le> pmax" and "tmin \<le> v" and "v \<le> tmax"
  using assms by (auto simp: validate_btc_deposit_amount_and_fee_def run_simps word_gt_0 dest!: unat_checked_sub)

lemma settle_deposit_ok:
  assumes "settle_deposit E v tot p = Inr p'"
  shows "unat (ps_deposit_count p') = unat (ps_deposit_count p) + 1" and "unat (ps_total_minted p') = unat (ps_total_minted p) + unat v"
    and "ps_total_shielded p' = tot" and "ps_total_btc_held p' = ps_total_btc_held p" and "utxo_count p' = utxo_count p"
    and "ps_discriminator p' = ps_discriminator p" and "ps_total_burned p' = ps_total_burned p"
  using assms by (auto simp: settle_deposit_def increment_deposit_count_def add_minted_def run_simps utxo_count_def dest!: unat_checked_add)

section \<open>What a deposit does\<close>

definition deposit_leaf :: "env \<Rightarrow> deposit_binding \<Rightarrow> hash32 \<Rightarrow> hash32 \<Rightarrow> hash32 option" where
  "deposit_leaf E binding ephemeral npk =
     (case binding of OpReturnBinding \<Rightarrow> None | TweakBinding _ _ _ \<Rightarrow> Some (tweak_commitment E npk ephemeral))"

lemma deposit_run:
  assumes run: "complete_deposit_inner I rc E accounts ix binding s = Inr s'"
  defines "pk \<equiv> key (accounts ! 0)" and "mint \<equiv> key (accounts ! 7)" and "vault \<equiv> key (accounts ! 8)"
  shows "\<exists>pool tc s1 eph npk v vout fee shielded c s2 s3 s4 tot s5 pool5 pool6.
    deposit_checks E accounts s = Inr () \<and> deposit_limits E accounts s = Inr (pool, tc) \<and>
    record_deposit E (key (accounts ! 5)) (accounts ! 11) (cdd_deposit_txid ix) (binding_vout binding) s = Inr s1 \<and>
    verified_deposit rc E accounts ix binding s1 = Inr (eph, npk, v, vout) \<and>
    validate_btc_deposit_amount_and_fee v (ps_min_deposit pool) (ps_max_deposit pool)
        (tc_min_deposit tc) (tc_max_deposit tc) (ps_deposit_fee_bps pool) (tc_service_fee tc) = Inr (fee, shielded) \<and>
    compute_commitment E npk (tc_token_id tc) shielded = Inr c \<and> insert_note E (key (accounts ! 3)) c s1 = Inr s2 \<and>
    record_pool_output E accounts (cdd_sweep_txid ix) vout v (deposit_leaf E binding eph npk) s2 = Inr s3 \<and>
    mint_zkbtc I (key (accounts ! 9)) mint vault pk v [POOL_STATE_SEED, bytes32 mint, [ps_bump pool]] s3 = Inr s4 \<and>
    credit_token (key (accounts ! 13)) shielded fee s4 = Inr (tot, s5) \<and> pool_at s5 pk = Inr pool5 \<and>
    settle_deposit E v tot pool5 = Inr pool6 \<and> write_front pk (encode_pool_state pool6) s5 = Inr s'"
  using run unfolding complete_deposit_inner_def Let_def deposit_leaf_def pk_def mint_def vault_def
  apply (simp only: run_simps)
  apply (elim exE conjE)
  apply (intro exI conjI; (assumption | rule refl | simp))
  done

text \<open>The derived addresses of the receipt and the record are none of the other accounts.\<close>

definition deposit_apart :: "account_info list \<Rightarrow> bool" where
  "deposit_apart accounts \<longleftrightarrow> key (accounts ! 11) \<noteq> key (accounts ! 12) \<and>
     {key (accounts ! 11), key (accounts ! 12)} \<inter>
       {key (accounts ! 0), key (accounts ! 3), key (accounts ! 7), key (accounts ! 8), key (accounts ! 13)} = {}"

lemma deposit_checks_ok:
  "deposit_checks E accounts s = Inr () \<Longrightarrow>
     owner (s (key (accounts ! 3))) = program_id E \<and> owner (s (key (accounts ! 13))) = program_id E \<and>
     owner (s (key (accounts ! 7))) \<in> {TOKEN_PROGRAM_ID, TOKEN_2022_PROGRAM_ID} \<and>
     owner (s (key (accounts ! 8))) \<in> {TOKEN_PROGRAM_ID, TOKEN_2022_PROGRAM_ID} \<and>
     key (accounts ! 9) \<in> {TOKEN_PROGRAM_ID, TOKEN_2022_PROGRAM_ID}"
  unfolding deposit_checks_def by (auto simp: run_simps validate_token_owner_iff validate_any_token_program_key_iff)

lemma deposit_limits_ok:
  "deposit_limits E accounts s = Inr (pool, tc) \<Longrightarrow>
     pool_at s (key (accounts ! 0)) = Inr pool \<and> token_at s (key (accounts ! 13)) = Inr tc \<and> pool_pda_ok E s (key (accounts ! 0)) \<and>
     ps_zkbtc_mint pool = key (accounts ! 7) \<and> ps_pool_vault pool = key (accounts ! 8) \<and> tc_enabled tc \<noteq> 0 \<and>
     tc_mint tc = key (accounts ! 7) \<and> tc_vault tc = key (accounts ! 8)"
  unfolding deposit_limits_def Let_def by (auto simp: run_simps)

text \<open>The effect of crediting the output \<open>vout\<close> of value \<open>v\<close> to the given keys.\<close>

definition deposited :: "env \<Rightarrow> account_info list \<Rightarrow> complete_deposit_data \<Rightarrow> hash32 \<times> hash32 \<times> u64 \<times> u32 \<Rightarrow> hash32 option \<Rightarrow>
    u64 \<Rightarrow> u64 \<Rightarrow> store \<Rightarrow> store \<Rightarrow> bool" where
  "deposited E accounts ix out leaf fee shielded s s' \<longleftrightarrow>
     (let pk = key (accounts ! 0); tree = key (accounts ! 3); mint = key (accounts ! 7); vault = key (accounts ! 8);
          rcpt = key (accounts ! 11); rk = key (accounts ! 12); tck = key (accounts ! 13); (eph, npk, v, vout) = out in
      unat fee + unat shielded = unat v \<and> 0 < shielded \<and>
      token_balance s' vault = token_balance s vault + unat v \<and> mint_supply s' mint = mint_supply s mint + unat v \<and>
      (\<exists>pool pool'. pool_at s pk = Inr pool \<and> pool_at s' pk = Inr pool' \<and>
         ps_min_deposit pool \<le> v \<and> v \<le> ps_max_deposit pool \<and>
         unat (ps_total_btc_held pool') = unat (ps_total_btc_held pool) + unat v \<and>
         unat (utxo_count pool') = unat (utxo_count pool) + 1 \<and>
         unat (ps_total_minted pool') = unat (ps_total_minted pool) + unat v \<and>
         unat (ps_deposit_count pool') = unat (ps_deposit_count pool) + 1 \<and>
         (\<exists>tc tc' c t i t'. token_at s tck = Inr tc \<and> token_at s' tck = Inr tc' \<and>
            unat (tc_total_shielded tc') = unat (tc_total_shielded tc) + unat shielded \<and>
            unat (tc_accumulated_fees tc') = unat (tc_accumulated_fees tc) + unat fee \<and>
            tc_total_shielded tc' \<le> tc_deposit_cap tc \<and> ps_total_shielded pool' = tc_total_shielded tc' \<and>
            compute_commitment E npk (tc_token_id tc) shielded = Inr c \<and>
            tree_at s tree = Inr t \<and> insert_leaf E c t = Inr (i, t') \<and> tree_at s' tree = Inr t')) \<and>
      rk = fst (find_program_address E [UTXO_SEED, bytes32 pk, bytes32 (cdd_sweep_txid ix), bytes4 vout]) \<and>
      \<not> (adata (s rk) \<noteq> [] \<and> adata (s rk) ! 0 = 0x09) \<and>
      record_at s' rk = Inr (new_utxo (cdd_sweep_txid ix) vout v) \<and> (leaf \<noteq> None \<longrightarrow> leaf_commitment (adata (s' rk)) = leaf) \<and>
      \<not> (adata (s rcpt) \<noteq> [] \<and> adata (s rcpt) ! 0 = 0x06) \<and> adata (s' rcpt) ! 0 = 0x06 \<and>
      frame {pk, tree, mint, vault, rcpt, rk, tck} s s')"

lemma deposit_distinct:
  assumes P: "program_id E \<notin> {TOKEN_PROGRAM_ID, TOKEN_2022_PROGRAM_ID}"
    and pool: "pool_pda_ok E s pk" and tree: "tree_at s tree = Inr t" and tok: "token_at s tck = Inr tc"
    and own: "owner (s tree) = program_id E" "owner (s tck) = program_id E"
      "owner (s mint) \<in> {TOKEN_PROGRAM_ID, TOKEN_2022_PROGRAM_ID}" "owner (s vault) \<in> {TOKEN_PROGRAM_ID, TOKEN_2022_PROGRAM_ID}"
  shows "pk \<noteq> tree" and "pk \<noteq> tck" and "tree \<noteq> tck" and "{mint, vault} \<inter> {pk, tree, tck} = {}"
proof -
  have "adata (s tree) ! 0 = 0x05" "adata (s pk) ! 0 = 0x01" "adata (s tck) ! 0 = 0x0B"
    using pool tree tok by (auto simp: pool_pda_ok_def dest: first_byte_at)
  then show "pk \<noteq> tree" "pk \<noteq> tck" "tree \<noteq> tck" by auto
  show "{mint, vault} \<inter> {pk, tree, tck} = {}" using pool own P by (auto simp: pool_pda_ok_def)
qed

lemma deposit_ledger:
  assumes "add_utxo v p = Inr p1" and "settle_deposit E v tot p1 = Inr p2"
  shows "unat (ps_total_btc_held p2) = unat (ps_total_btc_held p) + unat v" "unat (utxo_count p2) = unat (utxo_count p) + 1"
    "unat (ps_total_minted p2) = unat (ps_total_minted p) + unat v"
    "unat (ps_deposit_count p2) = unat (ps_deposit_count p) + 1" "ps_total_shielded p2 = tot"
proof -
  note A = add_utxo_ok [OF assms(1)]
  have "ps_total_minted p1 = ps_total_minted p" "ps_deposit_count p1 = ps_deposit_count p"
    using A(3) by (auto simp: same_but_utxos_def set_utxo_count_def)
  then show "unat (ps_total_btc_held p2) = unat (ps_total_btc_held p) + unat v" "unat (utxo_count p2) = unat (utxo_count p) + 1"
    "unat (ps_total_minted p2) = unat (ps_total_minted p) + unat v"
    "unat (ps_deposit_count p2) = unat (ps_deposit_count p) + 1" "ps_total_shielded p2 = tot"
    using settle_deposit_ok [OF assms(2)] A(1,2) by simp_all
qed

lemma deposit_effect:
  assumes E: "system_program_spec E" and I: "token_program_spec I" and P: "program_id E \<notin> {TOKEN_PROGRAM_ID, TOKEN_2022_PROGRAM_ID}"
    and run: "complete_deposit_inner I rc E accounts ix binding s = Inr s'" and apart: "deposit_apart accounts"
  shows "\<exists>s1 eph npk v vout fee shielded. frame {key (accounts ! 11)} s s1 \<and>
     verified_deposit rc E accounts ix binding s1 = Inr (eph, npk, v, vout) \<and>
     deposited E accounts ix (eph, npk, v, vout) (deposit_leaf E binding eph npk) fee shielded s s'"
proof -
  define pk tree mint vault rcpt rk tck where k: "pk = key (accounts ! 0)" "tree = key (accounts ! 3)" "mint = key (accounts ! 7)"
    "vault = key (accounts ! 8)" "rcpt = key (accounts ! 11)" "rk = key (accounts ! 12)" "tck = key (accounts ! 13)"
  from deposit_run [OF run, folded k] obtain pool tc s1 eph npk v vout fee shielded c s2 s3 s4 tot s5 pool5 pool6 where
    chk: "deposit_checks E accounts s = Inr ()" and lim: "deposit_limits E accounts s = Inr (pool, tc)"
    and r: "record_deposit E (key (accounts ! 5)) (accounts ! 11) (cdd_deposit_txid ix) (binding_vout binding) s = Inr s1"
    and ver: "verified_deposit rc E accounts ix binding s1 = Inr (eph, npk, v, vout)"
    and amt: "validate_btc_deposit_amount_and_fee v (ps_min_deposit pool) (ps_max_deposit pool)
        (tc_min_deposit tc) (tc_max_deposit tc) (ps_deposit_fee_bps pool) (tc_service_fee tc) = Inr (fee, shielded)"
    and c: "compute_commitment E npk (tc_token_id tc) shielded = Inr c" and ins: "insert_note E tree c s1 = Inr s2"
    and out: "record_pool_output E accounts (cdd_sweep_txid ix) vout v (deposit_leaf E binding eph npk) s2 = Inr s3"
    and mt: "mint_zkbtc I (key (accounts ! 9)) mint vault pk v [POOL_STATE_SEED, bytes32 mint, [ps_bump pool]] s3 = Inr s4"
    and cr: "credit_token tck shielded fee s4 = Inr (tot, s5)" and p5: "pool_at s5 pk = Inr pool5"
    and st: "settle_deposit E v tot pool5 = Inr pool6" and w: "write_front pk (encode_pool_state pool6) s5 = Inr s'"
    by blast
  have ap: "rcpt \<noteq> rk" "rcpt \<notin> {pk, tree, mint, vault, tck}" "rk \<notin> {pk, tree, mint, vault, tck}"
    using apart unfolding deposit_apart_def k [symmetric] by auto
  note C = deposit_checks_ok [OF chk, folded k] and L = deposit_limits_ok [OF lim, folded k]
  note R = record_deposit_ok [OF E r, folded k]
  have rp: "key (accounts ! 12) \<noteq> key (accounts ! 0)" using ap(3) by (simp add: k)
  note IN = insert_note_ok [OF ins] and OUT = record_pool_output_ok [OF E out rp, folded k]
  note M = mint_effect [OF I _ mt]
  have key9: "key (accounts ! 9) \<in> {TOKEN_PROGRAM_ID, TOKEN_2022_PROGRAM_ID}" using C by blast
  note CR = credit_token_ok [OF cr]
  have d6: "ps_discriminator pool6 = POOL_STATE_DISCRIMINATOR"
    using settle_deposit_ok(6) [OF st] discriminator_at(1) [of s5 pk pool5] p5 by simp
  note WP = write_pool [OF w d6]
  obtain t0 where t0: "tree_at s tree = Inr t0" using IN(1) frameD [OF R(1), of tree] ap(2) by auto
  have "pool_pda_ok E s pk" using L by blast
  note dist = deposit_distinct [OF P this t0, of tck tc mint vault] 
  have dist: "pk \<noteq> tree" "pk \<noteq> tck" "tree \<noteq> tck" "{mint, vault} \<inter> {pk, tree, tck} = {}" using dist C L by auto
  note M = M(1) [OF key9] M(2) [OF key9] M(3) [OF key9]
  have front: "adata (s3 x) = adata (s x)" if "x \<notin> {rcpt, tree, pk, rk}" for x
    using that frameD [OF R(1), of x] IN(2) [of x] frameD [OF OUT(1), of x] by simp
  have rear: "adata (s' x) = adata (s3 x)" if "x \<notin> {mint, vault, tck, pk}" for x
    using that M(1) CR(2) [of x] WP(2) [of x] by (simp add: token_change_def)
  obtain t i t' where t: "tree_at s tree = Inr t" "insert_leaf E c t = Inr (i, t')" "tree_at s' tree = Inr t'"
    using IN(1) frameD [OF R(1), of tree] frameD [OF OUT(1), of tree] rear [of tree] ap dist by auto
  obtain p3 where p3: "add_utxo v pool = Inr p3" "pool_at s3 pk = Inr p3"
    using OUT(6) L frameD [OF R(1), of pk] IN(2) [of pk] ap dist by auto
  have "s5 pk = s3 pk" using CR(2) [of pk] M(1) dist by (auto simp: token_change_def)
  with p5 p3(2) have pool5: "pool5 = p3" by simp
  have "token_at s4 tck = Inr tc" using front [of tck] M(1) L ap dist by (auto simp: token_change_def)
  with CR(1) obtain tc' where tc': "token_at s5 tck = Inr tc'" "tot = tc_total_shielded tc'"
     "unat (tc_total_shielded tc') = unat (tc_total_shielded tc) + unat shielded"
     "unat (tc_accumulated_fees tc') = unat (tc_accumulated_fees tc) + unat fee" "tc_total_shielded tc' \<le> tc_deposit_cap tc"
    by auto
  have tck': "token_at s' tck = Inr tc'" using WP(2) [of tck] tc'(1) dist by simp
  have bal: "token_balance s' vault = token_balance s vault + unat v" "mint_supply s' mint = mint_supply s mint + unat v"
    using M(2,3) front [of vault] front [of mint] CR(2) [of vault] CR(2) [of mint] WP(2) [of vault] WP(2) [of mint] ap dist
    by (auto simp: token_balance_def mint_supply_def)
  have recs: "record_at s' rk = Inr (new_utxo (cdd_sweep_txid ix) vout v)"
    "deposit_leaf E binding eph npk \<noteq> None \<longrightarrow> leaf_commitment (adata (s' rk)) = deposit_leaf E binding eph npk"
    "\<not> (adata (s rk) \<noteq> [] \<and> adata (s rk) ! 0 = 0x09)" "adata (s' rcpt) ! 0 = 0x06"
    using OUT(2,4,5) rear [of rk] rear [of rcpt] frameD [OF R(1), of rk] IN(2) [of rk] IN(2) [of rcpt] frameD [OF OUT(1), of rcpt] R(3) ap dist
    by (auto simp: record_at_def)
  have "frame {tree} s1 s2" "frame {tck} s4 s5" using IN(2) CR(2) by (auto simp: frame_def)
  from frame_trans [OF R(1) frame_trans [OF this(1) frame_trans [OF OUT(1) frame_trans [OF token_change_frame [OF M(1)]
    frame_trans [OF this(2) frame_write [OF w]]]]]]
  have F: "frame {pk, tree, mint, vault, rcpt, rk, tck} s s'" by (rule frame_mono) auto
  note led = deposit_ledger [OF p3(1) st [unfolded pool5]]
  have "deposited E accounts ix (eph, npk, v, vout) (deposit_leaf E binding eph npk) fee shielded s s'"
    unfolding deposited_def Let_def prod.case k [symmetric]
    using L
    by (intro conjI exI [of _ pool] exI [of _ pool6] exI [of _ tc] exI [of _ tc'] exI [of _ c] exI [of _ t] exI [of _ i] exI [of _ t']
        deposit_fee_split [OF amt] bal led [unfolded tc'(2)] WP(1) tc'(3-) tck' c t recs OUT(3) R(5) F) auto
  with R(1) ver k(5) show ?thesis by blast
qed


text \<open>
  C24. One output, one credit. While the record of a credited output exists, whether unspent or
  reserved, no later deposit to the same pool through any of the entry points, by whatever binding or
  receipt, credits that output again: what it records is another outpoint.
\<close>

theorem deposit_credited_once:
  assumes E: "system_program_spec E" "token_program_spec I" "program_id E \<notin> {TOKEN_PROGRAM_ID, TOKEN_2022_PROGRAM_ID}"
    and run: "complete_deposit_inner I rc E accounts ix binding s = Inr s'" and apart: "deposit_apart accounts"
    and E': "system_program_spec E'" "token_program_spec I'" "program_id E' = program_id E" "rt_find_pda E' = rt_find_pda E"
    and run': "complete_deposit_inner I' rc' E' accounts' ix' binding' t = Inr t'" and apart': "deposit_apart accounts'"
    and pool: "key (accounts' ! 0) = key (accounts ! 0)" and live: "record_at t (key (accounts ! 12)) = Inr u"
  shows "\<exists>r r'. record_at s' (key (accounts ! 12)) = Inr r \<and> record_at t' (key (accounts' ! 12)) = Inr r' \<and>
     (ur_txid r, ur_vout r) \<noteq> (ur_txid r', ur_vout r')"
proof -
  from deposit_effect [OF E run apart] obtain v vout where
    r: "record_at s' (key (accounts ! 12)) = Inr (new_utxo (cdd_sweep_txid ix) vout v)"
      "key (accounts ! 12) = fst (find_program_address E
         [UTXO_SEED, bytes32 (key (accounts ! 0)), bytes32 (cdd_sweep_txid ix), bytes4 vout])"
    by (auto simp: deposited_def Let_def)
  have P': "program_id E' \<notin> {TOKEN_PROGRAM_ID, TOKEN_2022_PROGRAM_ID}" using E(3) E'(3) by simp
  from deposit_effect [OF E'(1,2) P' run' apart'] obtain v' vout' where
    r': "record_at t' (key (accounts' ! 12)) = Inr (new_utxo (cdd_sweep_txid ix') vout' v')"
      "key (accounts' ! 12) = fst (find_program_address E'
         [UTXO_SEED, bytes32 (key (accounts' ! 0)), bytes32 (cdd_sweep_txid ix'), bytes4 vout'])"
    and new: "\<not> (adata (t (key (accounts' ! 12))) \<noteq> [] \<and> adata (t (key (accounts' ! 12))) ! 0 = 0x09)"
    by (auto simp: deposited_def Let_def)
  have "adata (t (key (accounts ! 12))) \<noteq> []" "adata (t (key (accounts ! 12))) ! 0 = 0x09"
    using live first_byte_at(4) [OF live]
    by (auto simp: record_at_def utxo_record_from_bytes_def layout_from_bytes_def UTXO_RECORD_LEN_def)
  with new have "key (accounts ! 12) \<noteq> key (accounts' ! 12)" by auto
  then have "(cdd_sweep_txid ix, vout) \<noteq> (cdd_sweep_txid ix', vout')"
    using r(2) r'(2) pool E'(3,4) by (auto simp: find_program_address_def)
  with r(1) r'(1) show ?thesis by (auto simp: new_utxo_def)
qed

section \<open>The entry points\<close>

lemma verify_deposit_runs:
  assumes "process_verify_deposit I rc E accounts d s = Inr s' \<or> process_complete_deposit I rc E accounts d s = Inr s'"
  shows "\<exists>p ix binding. pool_at s (key (accounts ! 0)) = Inr p \<and> \<not> permissioned p \<and> \<not> is_paused p \<and>
     is_signer (accounts ! 5) \<and> key (accounts ! 5) = ps_authority p \<and> complete_deposit_inner I rc E accounts ix binding s = Inr s'"
  using assms by (auto simp: process_verify_deposit_def process_complete_deposit_def open_gate_def run_simps)

lemma permissioned_deposit_runs:
  assumes "process_verify_deposit_permissioned I rc E accounts d s = Inr s' \<and> action = VERIFY_DEPOSIT_PERMISSIONED_IX \<or>
     process_complete_deposit_permissioned I rc E accounts d s = Inr s' \<and> action = COMPLETE_DEPOSIT_PERMISSIONED_IX"
  shows "\<exists>p ix binding s1. pool_at s (key (accounts ! 0)) = Inr p \<and> permissioned p \<and> \<not> is_paused p \<and> \<not> auditor_is_frozen p \<and>
     is_signer (accounts ! 5) \<and> key (accounts ! 5) = ps_authority p \<and>
     consume_policy_approval I E (accounts ! 15) (accounts ! 16) (accounts ! 0) (key (accounts ! 5)) (ps_auditor p) action [d] s = Inr s1 \<and>
     complete_deposit_inner I rc E accounts ix binding s1 = Inr s'"
  using assms
  by (auto simp: process_verify_deposit_permissioned_def process_complete_deposit_permissioned_def permissioned_gate_def run_simps)

text \<open>
  C25. Who may credit a deposit. The open entry points work for open, unpaused pools only and for the
  pool's authority; the permissioned ones for permissioned, unpaused pools whose auditor
  is not frozen, and only against an approval of the auditor for exactly this instruction's bytes,
  which is consumed before anything else changes.
\<close>

theorem deposit_entry_points:
  assumes run: "policy_runtime R E I" and id: "program_id E = ASSET_PROGRAM_ID"
    and und: "take 1 (rl_undelegate_discriminator R) \<noteq> [39]"
  shows "(process_verify_deposit I rc E accounts d s = Inr s' \<or> process_complete_deposit I rc E accounts d s = Inr s' \<longrightarrow>
      (\<exists>p ix binding. pool_at s (key (accounts ! 0)) = Inr p \<and> \<not> permissioned p \<and> \<not> is_paused p \<and>
        is_signer (accounts ! 5) \<and> key (accounts ! 5) = ps_authority p \<and> complete_deposit_inner I rc E accounts ix binding s = Inr s')) \<and>
    (process_verify_deposit_permissioned I rc E accounts d s = Inr s' \<and> action = VERIFY_DEPOSIT_PERMISSIONED_IX \<or>
        process_complete_deposit_permissioned I rc E accounts d s = Inr s' \<and> action = COMPLETE_DEPOSIT_PERMISSIONED_IX \<longrightarrow>
      (\<exists>p ix binding. pool_at s (key (accounts ! 0)) = Inr p \<and> permissioned p \<and> \<not> is_paused p \<and> \<not> auditor_is_frozen p \<and>
        is_signer (accounts ! 5) \<and> key (accounts ! 5) = ps_authority p \<and>
        approval_grants E s (key (accounts ! 15)) (key (accounts ! 0)) (key (accounts ! 5)) (ps_auditor p) action [d] \<and>
        complete_deposit_inner I rc E accounts ix binding
          (set_policy_status (key (accounts ! 15)) POLICY_STATUS_CONSUMED s) = Inr s'))"
    (is "(?open \<longrightarrow> ?A) \<and> (?perm \<longrightarrow> ?B)")
proof (intro conjI impI)
  assume ?open
  then show ?A by (rule verify_deposit_runs)
next
  assume ?perm
  from permissioned_deposit_runs [OF this] obtain p ix binding s1 where
    p: "pool_at s (key (accounts ! 0)) = Inr p" "permissioned p" "\<not> is_paused p" "\<not> auditor_is_frozen p"
      "is_signer (accounts ! 5)" "key (accounts ! 5) = ps_authority p"
    and c: "consume_policy_approval I E (accounts ! 15) (accounts ! 16) (accounts ! 0) (key (accounts ! 5)) (ps_auditor p) action [d] s = Inr s1"
    and r: "complete_deposit_inner I rc E accounts ix binding s1 = Inr s'" by blast
  from c consume_agrees [where s = s and pool_info = "accounts ! 0", OF run id und p(1,2,4)]
  have "approval_grants E s (key (accounts ! 15)) (key (accounts ! 0)) (key (accounts ! 5)) (ps_auditor p) action [d]"
    "s1 = set_policy_status (key (accounts ! 15)) POLICY_STATUS_CONSUMED s" by simp_all
  with p r show ?B by blast
qed

section \<open>A concrete deposit\<close>

text \<open>
  An environment in which derived addresses depend on four bytes of every seed, a transaction
  with two outputs to the same tweaked address, and the accounts around them. The recovery answers
  the zero point, which is the key the outputs pay.
\<close>


definition dep_pda :: "bytes list \<Rightarrow> pubkey \<Rightarrow> pubkey \<times> u8" where
  "dep_pda seeds p = (of_nat (length (hd seeds)) + 256 * from_le (concat (map (take 4) (tl seeds))), 255)"

definition dep_env :: env where
  "dep_env = demo_env\<lparr>program_id := ASSET_PROGRAM_ID, rt_find_pda := dep_pda\<rparr>"

definition dep_recover :: recover where "dep_recover h v sig = Some (replicate 64 0)"

definition dep_invoke :: invoke where
  "dep_invoke p metas d seeds s =
     (if p = POLICY_PROGRAM_ID
      then policy_process_instruction agree_rollups (dep_env\<lparr>program_id := POLICY_PROGRAM_ID\<rparr>) (map meta_info metas) d s
      else demo_invoke p metas d seeds s)"

definition dep_output :: "u64 \<Rightarrow> tx_output" where
  "dep_output v = \<lparr>txo_value = v, script_pubkey = [0x51, 0x20] @ replicate 32 0\<rparr>"

abbreviation dep_raw :: bytes where "dep_raw \<equiv> ser_legacy (payout_btc [dep_output 50000, dep_output 60000])"
abbreviation dep_tx :: parsed_transaction where "dep_tx \<equiv> ser_parsed (payout_btc [dep_output 50000, dep_output 60000])"

definition dep_pool :: pool_state where
  "dep_pool = demo_pool\<lparr>ps_pool_vault := 5, ps_max_deposit := 1000000\<rparr>"

definition dep_token :: token_config where
  "dep_token = demo_token\<lparr>tc_enabled := 1, tc_vault := 5, tc_max_deposit := 1000000, tc_deposit_cap := 10000000\<rparr>"

definition dep_config :: pool_config where
  "dep_config = (decode_pool_config (replicate 129 0))\<lparr>pc_discriminator := 0x0A, pc_pool_script_len := 1, pc_pool_script := 0x52,
     pc_ika_dwallet_xonly_pubkey := 8\<rparr>"

definition dep_receipt_key :: "u32 \<Rightarrow> pubkey" where "dep_receipt_key v = fst (dep_pda (deposit_receipt_seeds 2 (Some v)) 0)"
definition dep_record_key :: "u32 \<Rightarrow> pubkey" where "dep_record_key v = fst (dep_pda [UTXO_SEED, bytes32 266, bytes32 2, bytes4 v] 0)"

lemma dep_keys [simp]:
  "dep_receipt_key 0 = 527" "dep_receipt_key 1 = 1099511628303" 
  "dep_record_key 0 = 2199023323652" "dep_record_key 1 = 4722366485068668537348"
  by (simp_all add: dep_receipt_key_def dep_record_key_def dep_pda_def deposit_receipt_seeds_def DEPOSIT_RECEIPT_SEED_def UTXO_SEED_def ascii_def) code_simp+

lemma dep_pdas:
  "dep_pda [POOL_STATE_SEED, bytes32 1] p = (266, 255)" "dep_pda [TREE_SEED, bytes32 266, bytes4 0] p = (68111, 255)"
  "dep_pda [TOKEN_CONFIG_SEED, bytes32 266, bytes32 1] p = (1099511695884, 255)"
  "dep_pda [POOL_CONFIG_SEED, bytes32 266] p = (68107, 255)" "dep_pda [LIGHT_CLIENT_SEED] p = (16, 255)"
  "dep_pda [HEIGHT_INDEX_SEED, bytes8 1] p = (268, 255)"
  "dep_pda [VERIFIED_TX_SEED, bytes32 3, bytes32 2] p = (2199023256331, 255)"
  "dep_pda [TREE_SEED, bytes32 266, replicate 4 0] p = (68111, 255)"
  by (simp_all add: dep_pda_def POOL_STATE_SEED_def TREE_SEED_def TOKEN_CONFIG_SEED_def POOL_CONFIG_SEED_def LIGHT_CLIENT_SEED_def
      HEIGHT_INDEX_SEED_def VERIFIED_TX_SEED_def ascii_def) code_simp+

definition dep_store :: store where
  "dep_store = blank_store
     (266 := settle_account ASSET_PROGRAM_ID (encode_pool_state dep_pool),
      68111 := settle_account ASSET_PROGRAM_ID (encode_commitment_tree tree_init),
      1099511695884 := settle_account ASSET_PROGRAM_ID (encode_token_config dep_token),
      68107 := settle_account ASSET_PROGRAM_ID (encode_pool_config dep_config),
      16 := settle_account 2 (encode_light_client (demo_lc\<lparr>lc_network := 0\<rparr>)),
      2199023256331 := settle_account 2 (encode_verified_tx settle_vt),
      268 := settle_account 2 (encode_height_index (demo_hi 3 1)),
      94 := settle_account 3 (replicate 32 0 @ dep_raw),
      1 := settle_account TOKEN_PROGRAM_ID (replicate 36 0 @ bytes8 100000 @ replicate 38 0),
      5 := settle_account TOKEN_PROGRAM_ID (replicate 64 0 @ bytes8 100000 @ replicate 93 0))"

definition dep_accounts :: "u32 \<Rightarrow> account_info list" where
  "dep_accounts v = map demo_acc [266, 2199023256331, 16, 68111, 94, 77, 0, 1, 5, TOKEN_PROGRAM_ID, 95,
     dep_receipt_key v, dep_record_key v, 1099511695884, 68107, 268]"

definition dep_ix :: complete_deposit_data where
  "dep_ix = \<lparr>cdd_sweep_txid = 2, cdd_block_height = 1, cdd_sweep_tx_size = 137, cdd_deposit_tx_size = 0, cdd_deposit_txid = 2\<rparr>"

lemma dep_env_simps [simp]:
  "program_id dep_env = ASSET_PROGRAM_ID" "find_program_address dep_env seeds = dep_pda seeds ASSET_PROGRAM_ID"
  "lc_address dep_env seeds = fst (dep_pda seeds 2)" "lc_program_id dep_env = 2" "required_confirmations dep_env = 6"
  "chadbuffer_program_id dep_env = 3"
  by (simp_all add: dep_env_def find_program_address_def lc_address_def demo_env_def required_confirmations_def)

lemma dep_raw_length: "length dep_raw = 137"
  by (simp add: ser_defs dep_output_def)

lemma dep_raw_facts:
  "parse_transaction dep_raw = Inr dep_tx" "compute_tx_hash dep_env dep_raw = 2" "tx_outputs dep_tx = [dep_output 50000, dep_output 60000]"
proof -
  have ok: "btx_inputs (payout_btc [dep_output 50000, dep_output 60000]) \<noteq> []"
    "length (ser_segwit [] (payout_btc [dep_output 50000, dep_output 60000])) < 2 ^ 64"
    by (simp_all add: ser_defs dep_output_def)
  show "parse_transaction dep_raw = Inr dep_tx" using parse_both_forms [OF ok] by simp
  show "tx_outputs dep_tx = [dep_output 50000, dep_output 60000]"
    using ser_parsed_items [OF ok(2)] by (simp add: payout_btc_def)
  have "compute_tx_hash dep_env dep_raw = double_sha256 dep_env dep_raw"
    using not_segwit_ser_legacy [OF ok(1)] by (simp add: dep_raw_length compute_tx_hash_def segwit_body_end_def)
  also have "\<dots> = 2"
  proof -
    have "(from_le (bytes4 2) :: hash32) = 2" "(from_le (take 4 (bytes32 2)) :: hash32) = 2" by code_simp+
    then show ?thesis by (simp add: double_sha256_def dep_env_def demo_env_def ser_legacy_def payout_btc_def)
  qed
  finally show "compute_tx_hash dep_env dep_raw = 2" .
qed

text \<open>The recovery answers the zero point, which is the key of the outputs.\<close>

lemma dep_taproot: "verify_taproot_output_key dep_env dep_recover DEPOSIT_NUMS_INTERNAL_KEY h 0 = Inr ()"
proof -
  have tw: "compute_taptweak_hash dep_env i h = from_le [0xe8, 0x0f, 0xe1, 0x63]" for i
    by (simp add: compute_taptweak_hash_def dep_env_def demo_env_def TAPTWEAK_TAG_HASH_def)
  have "\<not> secp_u256_gte (u256_from_be (bytes32 DEPOSIT_NUMS_INTERNAL_KEY)) (u256_from_be SECP256K1_N)"
    "\<not> secp_u256_gte (u256_from_be (bytes32 (from_le [0xe8, 0x0f, 0xe1, 0x63]))) (u256_from_be SECP256K1_N)"
    by code_simp+
  moreover have "(from_le (bslice 0 32 (replicate 64 0)) :: hash32) = 0" by code_simp
  ultimately show ?thesis
    by (simp add: verify_taproot_output_key_def verify_taproot_tweak_def derive_taproot_output_key_def tw dep_recover_def)
qed

lemma dep_gate:
  assumes s: "s 16 = dep_store 16" "s 2199023256331 = dep_store 2199023256331" "s 268 = dep_store 268" "s 94 = dep_store 94"
  shows "spv_gate InvalidSpvProof 6 (Some 1) dep_env (dep_accounts v) (demo_acc 2199023256331) (demo_acc 16) 2 s = Inr ()"
    and "deposit_transactions dep_env (dep_accounts v) dep_ix s = Inr (dep_tx, dep_tx)"
proof -
  have L: "s 16 = settle_account 2 (encode_light_client (demo_lc\<lparr>lc_network := 0\<rparr>))"
    "s 2199023256331 = settle_account 2 (encode_verified_tx settle_vt)" "s 268 = settle_account 2 (encode_height_index (demo_hi 3 1))"
    "s 94 = settle_account 3 (replicate 32 0 @ dep_raw)"
    by (simp_all add: s dep_store_def)
  let ?lc = "demo_lc\<lparr>lc_network := 0\<rparr>"
  have lc: "light_client_from_bytes (adata (s 16)) = Inr ?lc" by (simp add: L settle_account_def demo_lc_def)
  have hi: "height_index_from_bytes (adata (s 268)) = Inr (demo_hi 3 1)" by (simp add: L settle_account_def demo_hi_def)
  have vt: "verified_tx_view_from_bytes (adata (s 2199023256331)) = Inr (view_of settle_vt)"
    by (simp add: L settle_account_def view_agrees settle_vt_def)
  have can: "assert_block_still_canonical dep_env s (dep_accounts v) 1 3 = Inr ()"
    by (rule assert_block_still_canonical_ok [where a = "demo_acc 268" and hi = "demo_hi 3 1"])
      (use hi in \<open>simp_all add: dep_accounts_def L settle_account_def demo_hi_def dep_pdas\<close>)
  have net: "assert_light_client_network dep_env (adata (s 16)) = Inr ()"
    by (rule network_agrees [OF lc, THEN iffD2]) (simp add: dep_env_def demo_env_def)
  note rd = tip_agrees [OF lc] epoch_agrees [OF lc] net
  have acc: "dep_accounts v ! 4 = demo_acc 94" by (simp add: dep_accounts_def)
  show "spv_gate InvalidSpvProof 6 (Some 1) dep_env (dep_accounts v) (demo_acc 2199023256331) (demo_acc 16) 2 s = Inr ()"
    unfolding spv_gate_def demo_acc_simps vt
    by (simp add: view_of_def settle_vt_def assert_canonical_verified_tx_def assert_canonical_light_client_def dep_pdas can rd Let_def
        demo_lc_def checked_add_def)
  show "deposit_transactions dep_env (dep_accounts v) dep_ix s = Inr (dep_tx, dep_tx)"
    by (simp add: deposit_transactions_def acc validate_chadbuffer_owner_def L settle_account_def dep_ix_def
        read_transaction_from_buffer_def BUFFER_HEADER_SIZE_def dep_raw_length bslice_def dep_raw_facts)
qed

lemma dep_pool_at:
  assumes "s 266 = dep_store 266"
  shows "pool_at s 266 = Inr dep_pool" and "pool_pda_ok dep_env s 266" and "validate_pool_state_pda dep_env s (demo_acc 266) = Inr ()"
proof -
  have s: "s 266 = settle_account ASSET_PROGRAM_ID (encode_pool_state dep_pool)" by (simp add: assms dep_store_def)
  have "ps_discriminator dep_pool = POOL_STATE_DISCRIMINATOR" by (simp add: dep_pool_def demo_pool_def POOL_STATE_DISCRIMINATOR_def)
  from psl.from_bytes_encode [OF this] show pool: "pool_at s 266 = Inr dep_pool"
    by (simp add: s settle_account_def pool_state_from_bytes_def)
  then show pda: "pool_pda_ok dep_env s 266"
    by (simp add: pool_pda_ok_def s settle_account_def) (simp add: dep_pool_def demo_pool_def dep_pdas)
  then show "validate_pool_state_pda dep_env s (demo_acc 266) = Inr ()" by (simp add: validate_pool_state_pda_iff)
qed

lemma dep_verified:
  assumes s: "s 16 = dep_store 16" "s 2199023256331 = dep_store 2199023256331" "s 268 = dep_store 268" "s 94 = dep_store 94"
      "s 68107 = dep_store 68107" "s 266 = dep_store 266" and v: "v = 0 \<or> v = 1"
  shows "verified_deposit dep_recover dep_env (dep_accounts v) dep_ix (TweakBinding 6 7 v) s =
     Inr (6, 7, if v = 0 then 50000 else 60000, v)"
proof -
  have acc: "dep_accounts v ! 0 = demo_acc 266" "dep_accounts v ! 1 = demo_acc 2199023256331" "dep_accounts v ! 2 = demo_acc 16"
    "dep_accounts v ! 14 = demo_acc 68107"
    by (simp_all add: dep_accounts_def)
  have L: "s 68107 = settle_account ASSET_PROGRAM_ID (encode_pool_config dep_config)" by (simp add: s dep_store_def)
  have cd: "pc_discriminator dep_config = POOL_CONFIG_DISCRIMINATOR" by (simp add: dep_config_def POOL_CONFIG_DISCRIMINATOR_def)
  have script: "get_pool_script dep_config \<noteq> []" "pc_ika_dwallet_xonly_pubkey dep_config = 8"
    by (simp_all add: get_pool_script_def dep_config_def Let_def)
  have cfg: "deposit_pool_config dep_env (dep_accounts v) s = Inr dep_config"
    using pcl.from_bytes_encode [OF cd] pcl.length_encode [of dep_config] pcl.first_byte [of dep_config] script cd
    by (simp add: deposit_pool_config_def acc validate_pool_config_pda_def validate_program_owner_def dep_pool_at(3) [of s, OF s(6)] L
        settle_account_def pool_config_from_bytes_def dep_pdas Let_def)
  have "(from_le (bslice 2 32 ([0x51, 0x20] @ replicate 32 0)) :: hash32) = 0" by code_simp
  then have o: "output_key_of (dep_output x) = 0" "txo_value (dep_output x) = x" "is_p2tr_positive (dep_output x) \<longleftrightarrow> x \<noteq> 0" for x
    by (simp_all add: output_key_of_def dep_output_def is_p2tr_positive_def)
  have out: "credited_output dep_env dep_recover dep_ix (TweakBinding 6 7 v) 7 dep_config dep_tx dep_tx =
      Inr (if v = 0 then 50000 else 60000, v)"
    using v by (auto simp: credited_output_def tweak_credited_def script dep_raw_facts(3) o dep_taproot Let_def)
  show ?thesis
    unfolding verified_deposit_def acc
    using dep_gate [of s v] s out cfg by (simp add: dep_ix_def deposit_note_keys_def)
qed

lemma dep_steps:
  assumes s: "\<And>k. k \<notin> {dep_receipt_key v, dep_record_key 0, dep_record_key 1} \<Longrightarrow> s k = dep_store k" and v: "v = 0 \<or> v = 1"
    and blank: "s (dep_receipt_key v) = \<lparr>lamports = 5, owner = 0, adata = []\<rparr>"
  shows "deposit_checks dep_env (dep_accounts v) s = Inr ()"
    and "deposit_limits dep_env (dep_accounts v) s = Inr (dep_pool, dep_token)"
    and "record_deposit dep_env 77 (demo_acc (dep_receipt_key v)) 2 (Some v) s =
       Inr (s(dep_receipt_key v := \<lparr>lamports = 5, owner = ASSET_PROGRAM_ID, adata = [0x06]\<rparr>))"
proof -
  have L: "s 266 = dep_store 266" "s 68111 = dep_store 68111" "s 16 = dep_store 16" "s 2199023256331 = dep_store 2199023256331"
    "s 1 = dep_store 1" "s 5 = dep_store 5" "s 1099511695884 = dep_store 1099511695884"
    using v by (auto simp: s)
  have td: "tc_discriminator dep_token = TOKEN_CONFIG_DISCRIMINATOR"
    by (simp add: dep_token_def demo_token_def TOKEN_CONFIG_DISCRIMINATOR_def)
  have tok: "token_at s 1099511695884 = Inr dep_token"
    using tcl.from_bytes_encode [OF td] by (simp add: L dep_store_def settle_account_def token_config_from_bytes_def)
  have acc: "dep_accounts v ! 0 = demo_acc 266" "dep_accounts v ! 3 = demo_acc 68111" "dep_accounts v ! 7 = demo_acc 1"
    "dep_accounts v ! 8 = demo_acc 5" "dep_accounts v ! 13 = demo_acc 1099511695884"
    by (simp_all add: dep_accounts_def)
  show "deposit_checks dep_env (dep_accounts v) s = Inr ()"
    by (simp add: deposit_checks_def dep_accounts_def validate_owned_by_def validate_program_owner_def validate_token_owner_def
        validate_any_token_program_key_def validate_system_program_def validate_account_writable_def L)
      (simp add: dep_store_def settle_account_def)
  have fields: "ps_zkbtc_mint dep_pool = 1" "ps_pool_vault dep_pool = 5" "ps_active_tree_index dep_pool = 0"
    "tc_enabled dep_token = 1" "tc_mint dep_token = 1" "tc_vault dep_token = 5"
    by (simp_all add: dep_pool_def demo_pool_def dep_token_def demo_token_def decode_pool_state_def bslice_def)
  show "deposit_limits dep_env (dep_accounts v) s = Inr (dep_pool, dep_token)"
    using dep_pool_at [of s] L tok fields
    by (simp add: deposit_limits_def acc dep_pdas validate_active_tree_pda_def)
  have "find_program_address dep_env (deposit_receipt_seeds 2 (Some v)) = (dep_receipt_key v, 255)" "length (deposit_receipt_seeds 2 (Some v)) = 3"
    by (simp_all add: dep_receipt_key_def dep_pda_def deposit_receipt_seeds_def)
  then show "record_deposit dep_env 77 (demo_acc (dep_receipt_key v)) 2 (Some v) s =
       Inr (s(dep_receipt_key v := \<lparr>lamports = 5, owner = ASSET_PROGRAM_ID, adata = [0x06]\<rparr>))"
    by (simp add: record_deposit_def blank create_pda_account_def create_or_claim_pda_def DEPOSIT_RECEIPT_LEN_def Let_def
        receipt_init_def write_front_def put_front_def set_data_def DEPOSIT_RECEIPT_DISCRIMINATOR_def)
      (simp add: dep_env_def demo_env_def demo_allocate_def demo_assign_def blank receipt_init_def write_front_def put_front_def set_data_def)
qed

lemma dep_mint:
  assumes "adata (s 1) = adata (dep_store 1)" "adata (s 5) = adata (dep_store 5)" and "unat (x :: u64) \<le> 60000" and "seeds \<noteq> []" "length seeds \<le> 5"
  shows "\<exists>s'. mint_zkbtc dep_invoke TOKEN_PROGRAM_ID 1 5 auth x seeds s = Inr s' \<and> token_change 1 5 s s'"
proof -
  have L: "adata (s 1) = replicate 36 0 @ bytes8 100000 @ replicate 38 0" "adata (s 5) = replicate 64 0 @ bytes8 100000 @ replicate 93 0"
    by (simp_all add: assms dep_store_def settle_account_def)
  have bal: "token_balance s 5 = 100000" "mint_supply s 1 = 100000"
    by (simp_all add: token_balance_def mint_supply_def L bslice_def)
  have "TOKEN_PROGRAM_ID \<noteq> POLICY_PROGRAM_ID" by (simp add: TOKEN_PROGRAM_ID_def POLICY_PROGRAM_ID_def)
  then have run: "mint_zkbtc dep_invoke TOKEN_PROGRAM_ID 1 5 auth x seeds s = demo_token_op 5 1 (\<lambda>y. Some (y + unat x)) s"
    using assms(4,5) by (simp add: mint_zkbtc_def pda_signer_seeds_def dep_invoke_def demo_invoke_def writable_meta_def MINT_TO_def)
  have "length (adata (s 5)) = 165" "length (adata (s 1)) = 82" by (simp_all add: L)
  then have "\<exists>s'. demo_token_op 5 1 (\<lambda>y. Some (y + unat x)) s = Inr s'" using assms(3) by (simp add: demo_token_op_def bal)
  then obtain s' where "demo_token_op 5 1 (\<lambda>y. Some (y + unat x)) s = Inr s'" by blast
  with demo_token_op_ok(1) [OF this] run show ?thesis by (auto simp: token_change_def)
qed

lemma dep_record:
  assumes s: "s 266 = dep_store 266" "s (dep_record_key v) = \<lparr>lamports = 5, owner = 0, adata = []\<rparr>" and v: "v = 0 \<or> v = 1" and x: "unat (x :: u64) \<le> 60000"
  shows "\<exists>s'. record_pool_output dep_env (dep_accounts v) 2 v x (Some c) s = Inr s'"
proof -
  let ?k = "dep_record_key v" and ?n = "new_utxo 2 v x"
  have acc: "dep_accounts v ! 0 = demo_acc 266" "dep_accounts v ! 12 = demo_acc ?k" "dep_accounts v ! 5 = demo_acc 77"
    by (simp_all add: dep_accounts_def)
  have pda: "dep_pda [UTXO_SEED, bytes32 266, bytes32 2, bytes4 v] p = (?k, 255)" for p
    by (simp add: dep_record_key_def dep_pda_def)
  define s1 where "s1 = s(?k := \<lparr>lamports = 5, owner = ASSET_PROGRAM_ID, adata = replicate 88 0\<rparr>)"
  have c1: "create_pda_account dep_env 77 ?k (rt_minimum_balance dep_env 88) 88 5 s = Inr s1"
    by (simp add: create_pda_account_def create_or_claim_pda_def s s1_def)
      (simp add: dep_env_def demo_env_def demo_allocate_def demo_assign_def s)
  define s2 where "s2 = set_data ?k (encode_utxo_record ?n @ replicate 32 0) s1"
  have c2: "utxo_init ?k 2 v x s1 = Inr s2"
    using url.length_encode [of ?n] by (simp add: utxo_init_def write_front_def put_front_def s1_def s2_def UTXO_RECORD_LEN_def)
  define s3 where "s3 = set_data ?k (encode_utxo_record ?n @ bytes32 c) s2"
  have c3: "set_leaf_commitment c (adata (s2 ?k)) = Inr (encode_utxo_record ?n @ bytes32 c)"
    using url.length_encode [of ?n] by (simp add: set_leaf_commitment_def s2_def UTXO_RECORD_LEN_def)
  have "s3 266 = dep_store 266" using v s(1) by (auto simp: s3_def s2_def s1_def)
  note p3 = dep_pool_at(1) [of s3, OF this]
  have "unat (ps_total_btc_held dep_pool) = 100000" "unat (utxo_count dep_pool) = 1"
    by (simp_all add: dep_pool_def demo_pool_def utxo_count_def)
  then obtain p' where p': "add_utxo x dep_pool = Inr p'"
    using x by (simp add: add_utxo_def checked_add_def)
  obtain s4 where "write_front 266 (encode_pool_state p') s3 = Inr s4"
    using psl.write_ok p3 unfolding pool_state_from_bytes_def by blast
  then show ?thesis
    by (simp add: record_pool_output_def acc pda s UTXO_RECORD_LEN_def c1 c2 c3 s3_def [symmetric] p3 p')
qed

lemma dep_insert:
  assumes "s 68111 = dep_store 68111"
  shows "\<exists>s'. insert_note dep_env 68111 c s = Inr s'"
proof -
  have tv: "tree_valid tree_init" "ct_discriminator tree_init = COMMITMENT_TREE_DISCRIMINATOR" by (simp_all add: tree_valid_def tree_init_def)
  have a: "adata (s 68111) = encode_commitment_tree tree_init" by (simp add: assms dep_store_def settle_account_def)
  have t: "tree_at s 68111 = Inr tree_init"
    using ctl.from_bytes_overlay [OF tv, of "[]"] by (simp add: a commitment_tree_from_bytes_def)
  have "poseidon_spec dep_env (\<lambda>a b. a + 2 * b + 1)" by (simp add: poseidon_spec_def dep_env_def demo_env_def)
  from insert_leaf_total [OF this, of tree_init c] obtain i t' where t': "insert_leaf dep_env c tree_init = Inr (i, t')"
    by (auto simp: tree_init_def MAX_LEAVES_def)
  obtain s' where "write_front 68111 (encode_commitment_tree t') s = Inr s'"
    using insert_leaf_valid [OF t' tv(1)] by (simp add: a write_front_def put_front_def ctl.length_encode tv)
  with t t' show ?thesis by (simp add: insert_note_def has_capacity_def) (simp add: tree_init_def MAX_LEAVES_def)
qed

lemma dep_system: "system_program_spec dep_env"
  using demo_system_program by (simp add: dep_env_def system_program_spec_def)

text \<open>The ledgers after the output is recorded.\<close>

lemma dep_ledgers:
  assumes f3: "\<And>k. k \<in> {1, 5, 1099511695884} \<Longrightarrow> adata (s k) = adata (dep_store k)"
    and p3: "pool_at s 266 = Inr p" "add_utxo x dep_pool = Inr p" and x: "unat x \<le> 60000"
  shows "\<exists>s4 s5 p6 s6. mint_zkbtc dep_invoke TOKEN_PROGRAM_ID 1 5 266 x [POOL_STATE_SEED, bytes32 1, [ps_bump dep_pool]] s = Inr s4 \<and>
     credit_token 1099511695884 x 0 s4 = Inr (x, s5) \<and> pool_at s5 266 = Inr p \<and> settle_deposit dep_env x x p = Inr p6 \<and>
     write_front 266 (encode_pool_state p6) s5 = Inr s6"
proof -
  obtain s4 where s4: "mint_zkbtc dep_invoke TOKEN_PROGRAM_ID 1 5 266 x [POOL_STATE_SEED, bytes32 1, [ps_bump dep_pool]] s = Inr s4"
    "token_change 1 5 s s4"
    using dep_mint [of s x "[POOL_STATE_SEED, bytes32 1, [ps_bump dep_pool]]" 266] f3 x by auto
  have td: "tc_discriminator dep_token = TOKEN_CONFIG_DISCRIMINATOR"
    by (simp add: dep_token_def demo_token_def TOKEN_CONFIG_DISCRIMINATOR_def)
  have "adata (s4 1099511695884) = encode_token_config dep_token"
    using s4(2) f3 [of 1099511695884] by (simp add: token_change_def dep_store_def settle_account_def)
  then have tok: "token_at s4 1099511695884 = Inr dep_token"
    using tcl.from_bytes_encode [OF td] by (simp add: token_config_from_bytes_def)
  have zero: "tc_total_shielded dep_token = 0" "tc_accumulated_fees dep_token = 0" "tc_deposit_cap dep_token = 10000000"
    by (simp_all add: dep_token_def demo_token_def decode_token_config_def bslice_def)
  let ?tc = "dep_token\<lparr>tc_total_shielded := x, tc_accumulated_fees := 0\<rparr>"
  obtain s5 where s5: "write_front 1099511695884 (encode_token_config ?tc) s4 = Inr s5"
    using tcl.write_ok tok unfolding token_config_from_bytes_def by blast
  have lt: "unat x < 18446744073709551616" "x \<le> 10000000" using x by (simp_all add: word_le_nat_alt)
  have cr: "credit_token 1099511695884 x 0 s4 = Inr (x, s5)"
    using s5 lt by (simp add: credit_token_def tok tc_add_shielded_def tc_add_fees_def checked_add_def zero)
  have "s5 266 = s 266" using credit_token_ok(2) [OF cr, of 266] s4(2) by (simp add: token_change_def)
  then have p5: "pool_at s5 266 = Inr p" using p3(1) by simp
  have "same_but_utxos dep_pool p" by (rule add_utxo_ok(3) [OF p3(2)])
  then have "ps_deposit_count p = 0" "ps_total_minted p = 0"
    by (auto simp: same_but_utxos_def set_utxo_count_def dep_pool_def demo_pool_def decode_pool_state_def bslice_def)
  then obtain p6 where p6: "settle_deposit dep_env x x p = Inr p6"
    using lt by (simp add: settle_deposit_def increment_deposit_count_def add_minted_def checked_add_def)
  obtain s6 where "write_front 266 (encode_pool_state p6) s5 = Inr s6"
    using psl.write_ok p5 unfolding pool_state_from_bytes_def by blast
  with s4(1) cr p5 p6 show ?thesis by blast
qed

lemma dep_run:
  assumes s: "\<And>k. k \<noteq> dep_record_key (1 - v) \<Longrightarrow> s k = dep_store k" and v: "v = 0 \<or> v = 1"
  shows "\<exists>s'. complete_deposit_inner dep_invoke dep_recover dep_env (dep_accounts v) dep_ix (TweakBinding 6 7 v) s = Inr s'"
proof -
  define x where "x = (if v = 0 then 50000 else 60000 :: u64)"
  let ?rc = "dep_receipt_key v" and ?rk = "dep_record_key v"
  have blank: "s ?rc = \<lparr>lamports = 5, owner = 0, adata = []\<rparr>" "s ?rk = \<lparr>lamports = 5, owner = 0, adata = []\<rparr>"
    using v by (auto simp: s dep_store_def blank_store_def)
  have s0: "s k = dep_store k" if "k \<notin> {?rc, dep_record_key 0, dep_record_key 1}" for k
    using that v by (auto intro: s)
  note C = dep_steps [of v s, OF s0 v blank(1)]
  define s1 where "s1 = s(?rc := \<lparr>lamports = 5, owner = ASSET_PROGRAM_ID, adata = [0x06]\<rparr>)"
  have k1: "s1 k = dep_store k" if "k \<in> {266, 2199023256331, 16, 268, 94, 68107, 68111, 1, 5, 1099511695884}" for k
    using that v by (auto simp: s1_def s)
  have r1: "s1 ?rk = \<lparr>lamports = 5, owner = 0, adata = []\<rparr>" using v blank(2) by (auto simp: s1_def)
  have ver: "verified_deposit dep_recover dep_env (dep_accounts v) dep_ix (TweakBinding 6 7 v) s1 = Inr (6, 7, x, v)"
    using dep_verified [of s1 v] v k1 by (auto simp: x_def)
  have amt: "validate_btc_deposit_amount_and_fee x (ps_min_deposit dep_pool) (ps_max_deposit dep_pool) (tc_min_deposit dep_token)
      (tc_max_deposit dep_token) (ps_deposit_fee_bps dep_pool) (tc_service_fee dep_token) = Inr (0, x)"
    by (simp add: validate_btc_deposit_amount_and_fee_def x_def compute_bps_fee_def checked_add_def checked_sub_def Let_def
        dep_pool_def demo_pool_def dep_token_def demo_token_def decode_pool_state_def decode_token_config_def bslice_def)
  obtain c where c: "compute_commitment dep_env 7 (tc_token_id dep_token) x = Inr c"
    by (simp add: dep_env_def demo_env_def compute_commitment_def poseidon3_hash_def)
  obtain s2 where s2: "insert_note dep_env 68111 c s1 = Inr s2" using dep_insert [of s1 c] k1 by auto
  note I2 = insert_note_ok(2) [OF s2]
  have x6: "unat x \<le> 60000" by (simp add: x_def)
  let ?leaf = "tweak_commitment dep_env 7 6"
  obtain s3 where s3: "record_pool_output dep_env (dep_accounts v) 2 v x (Some ?leaf) s2 = Inr s3"
    using dep_record [of s2 v x ?leaf] v x6 r1 I2 [of 266] I2 [of ?rk] k1 by auto
  have acc: "dep_accounts v ! 0 = demo_acc 266" "dep_accounts v ! 3 = demo_acc 68111" "dep_accounts v ! 5 = demo_acc 77"
    "dep_accounts v ! 7 = demo_acc 1" "dep_accounts v ! 8 = demo_acc 5" "dep_accounts v ! 9 = demo_acc TOKEN_PROGRAM_ID"
    "dep_accounts v ! 11 = demo_acc ?rc" "dep_accounts v ! 12 = demo_acc ?rk" "dep_accounts v ! 13 = demo_acc 1099511695884"
    by (simp_all add: dep_accounts_def)
  have ne: "?rk \<noteq> 266" "?rk \<noteq> 1" "?rk \<noteq> 5" "?rk \<noteq> 1099511695884" using v by auto
  note O = record_pool_output_ok [OF dep_system s3, unfolded acc demo_acc_simps, OF ne(1)]
  obtain p3 where p3: "pool_at s3 266 = Inr p3" "add_utxo x dep_pool = Inr p3"
    using O(6) dep_pool_at(1) [of s2] I2 [of 266] k1 by auto
  have f3: "adata (s3 k) = adata (dep_store k)" if "k \<in> {1, 5, 1099511695884}" for k
    using that frameD [OF O(1), of k] I2 [of k] k1 [of k] ne by auto
  obtain s4 s5 p6 s6 where "mint_zkbtc dep_invoke TOKEN_PROGRAM_ID 1 5 266 x [POOL_STATE_SEED, bytes32 1, [ps_bump dep_pool]] s3 = Inr s4"
     "credit_token 1099511695884 x 0 s4 = Inr (x, s5)" "pool_at s5 266 = Inr p3" "settle_deposit dep_env x x p3 = Inr p6"
     "write_front 266 (encode_pool_state p6) s5 = Inr s6"
    using dep_ledgers [of s3, OF f3 p3 x6] by blast
  with C s1_def ver amt c s2 s3 show ?thesis
    by (simp add: complete_deposit_inner_def acc dep_ix_def binding_vout_def)
qed

lemma dep_apart: "v = 0 \<or> v = 1 \<Longrightarrow> deposit_apart (dep_accounts v)"
  by (auto simp: deposit_apart_def dep_accounts_def)

lemma dep_invoke_spec: "token_program_spec dep_invoke" "policy_runtime agree_rollups dep_env dep_invoke"
proof -
  have "POLICY_PROGRAM_ID \<notin> {TOKEN_PROGRAM_ID, TOKEN_2022_PROGRAM_ID}"
    by (simp add: TOKEN_PROGRAM_ID_def TOKEN_2022_PROGRAM_ID_def POLICY_PROGRAM_ID_def)
  then show "token_program_spec dep_invoke"
    using demo_invoke_spec unfolding token_program_spec_def dep_invoke_def by auto
  show "policy_runtime agree_rollups dep_env dep_invoke" by (simp add: policy_runtime_def dep_invoke_def)
qed

lemma dep_ids: "program_id dep_env \<notin> {TOKEN_PROGRAM_ID, TOKEN_2022_PROGRAM_ID}"
  by (simp add: ASSET_PROGRAM_ID_def TOKEN_PROGRAM_ID_def TOKEN_2022_PROGRAM_ID_def)


theorem deposit_credited_once_witness:
  "\<exists>s' t t' r r'. complete_deposit_inner dep_invoke dep_recover dep_env (dep_accounts 0) dep_ix (TweakBinding 6 7 0) dep_store = Inr s' \<and>
     complete_deposit_inner dep_invoke dep_recover dep_env (dep_accounts 1) dep_ix (TweakBinding 6 7 1) t = Inr t' \<and>
     record_at s' (dep_record_key 0) = Inr r \<and> record_at t' (dep_record_key 1) = Inr r' \<and> (ur_txid r, ur_vout r) \<noteq> (ur_txid r', ur_vout r')"
proof -
  define t where "t = dep_store(dep_record_key 0 := settle_account ASSET_PROGRAM_ID (encode_utxo_record (new_utxo 2 0 50000)))"
  obtain s' where run: "complete_deposit_inner dep_invoke dep_recover dep_env (dep_accounts 0) dep_ix (TweakBinding 6 7 0) dep_store = Inr s'"
    using dep_run [of 0 dep_store] by auto
  obtain t' where run': "complete_deposit_inner dep_invoke dep_recover dep_env (dep_accounts 1) dep_ix (TweakBinding 6 7 1) t = Inr t'"
    using dep_run [of 1 t] by (auto simp: t_def)
  have acc: "dep_accounts v ! 0 = demo_acc 266" "dep_accounts v ! 12 = demo_acc (dep_record_key v)" for v by (simp_all add: dep_accounts_def)
  have "ur_discriminator (new_utxo 2 0 50000) = UTXO_RECORD_DISCRIMINATOR" by (simp add: new_utxo_def)
  from url.from_bytes_encode [OF this] have live: "record_at t (key (dep_accounts 0 ! 12)) = Inr (new_utxo 2 0 50000)"
    by (simp add: t_def acc settle_account_def record_at_def utxo_record_from_bytes_def)
  have p: "key (dep_accounts 1 ! 0) = key (dep_accounts 0 ! 0)" by (simp add: acc)
  from deposit_credited_once [OF dep_system dep_invoke_spec(1) dep_ids run dep_apart dep_system dep_invoke_spec(1) refl refl run' dep_apart p live]
    run run' show ?thesis by (auto simp: acc)
qed

definition dep_data :: bytes where
  "dep_data = bytes32 2 @ bytes8 1 @ bytes4 137 @ bytes4 0 @ bytes32 2 @ bytes32 6 @ bytes32 7 @ bytes4 0"

theorem deposit_entry_points_witness:
  "\<exists>s' p. process_verify_deposit dep_invoke dep_recover dep_env (dep_accounts 0) dep_data dep_store = Inr s' \<and>
     pool_at dep_store 266 = Inr p \<and> \<not> permissioned p \<and> ps_authority p = 77"
proof -
  obtain s' where run: "complete_deposit_inner dep_invoke dep_recover dep_env (dep_accounts 0) dep_ix (TweakBinding 6 7 0) dep_store = Inr s'"
    using dep_run [of 0 dep_store] by auto
  have ix: "verify_deposit_data_from_bytes dep_data =
      Inr \<lparr>vdd_base = dep_ix, vdd_ephemeral_pubkey = 6, vdd_note_public_key = 7, vdd_deposit_vout = 0\<rparr>"
    by (simp add: verify_deposit_data_from_bytes_def complete_deposit_data_from_bytes_def VERIFY_DEPOSIT_SIZE_def DEPOSIT_HEADER_SIZE_def
        dep_data_def dep_ix_def bslice_def)
  have acc: "dep_accounts 0 ! 0 = demo_acc 266" "dep_accounts 0 ! 5 = demo_acc 77" "length (dep_accounts 0) = 16" by (simp_all add: dep_accounts_def)
  have "owner (dep_store 266) = ASSET_PROGRAM_ID" by (simp add: dep_store_def settle_account_def)
  then have gate: "open_gate dep_env (dep_accounts 0) dep_store = Inr ()"
    using dep_pool_at(1) [of dep_store]
    by (simp add: open_gate_def acc validate_program_owner_def)
      (simp add: dep_pool_def demo_pool_def permissioned_def is_paused_def decode_pool_state_def byte_at_def)
  have "length dep_data = VERIFY_DEPOSIT_SIZE" by (simp add: dep_data_def VERIFY_DEPOSIT_SIZE_def DEPOSIT_HEADER_SIZE_def)
  with run gate ix have "process_verify_deposit dep_invoke dep_recover dep_env (dep_accounts 0) dep_data dep_store = Inr s'"
    by (simp add: process_verify_deposit_def acc) (simp add: is_no_sweep_def dep_ix_def)
  moreover have "take 1 (rl_undelegate_discriminator agree_rollups) \<noteq> [39]" by (simp add: agree_rollups_def)
  ultimately show ?thesis
    using deposit_entry_points [OF dep_invoke_spec(2) dep_env_simps(1), of dep_recover "dep_accounts 0" dep_data dep_store s'] by (auto simp: acc)
qed

end
