(* ===== verification/UX_Groth16.thy ===== *)
theory UX_Groth16
  imports UX_Policy
begin

text \<open>
  Proof verification: \<open>utils/groth16.rs\<close>, the verification key registry of
  \<open>state/vk_registry.rs\<close> and its handlers in \<open>instructions/init_vk_registry.rs\<close>.
  The curve operations are syscalls, the fields of \<open>bn254\<close>; \<open>bn254_spec\<close> states
  what their documentation (EIP-196 and EIP-197) promises. The theorems say that a proof is accepted
  exactly when its inputs are canonical and the Groth16 equation holds, that public inputs have one
  accepted encoding, and what the handlers keep of the registered keys.
\<close>

abbreviation InvalidVkRegistry :: program_error where "InvalidVkRegistry \<equiv> Custom 6066"
abbreviation VkRegistryFrozen :: program_error where "VkRegistryFrozen \<equiv> Custom 6090"
abbreviation PublicInputNotInField :: program_error where "PublicInputNotInField \<equiv> Custom 6103"
abbreviation InvalidProofPoint :: program_error where "InvalidProofPoint \<equiv> Custom 6104"
abbreviation VkHashMismatch :: program_error where "VkHashMismatch \<equiv> Custom 6105"

section \<open>The verifier\<close>

record bn254 =
  bn_add :: "bytes \<Rightarrow> bytes option"
  bn_mul :: "bytes \<Rightarrow> bytes option"
  bn_pairing :: "bytes \<Rightarrow> bytes option"

definition GROTH16_PROOF_SIZE :: nat where "GROTH16_PROOF_SIZE = 256"

definition BN254_FIELD_MODULUS :: bytes where
  "BN254_FIELD_MODULUS =
     [0x30, 0x64, 0x4e, 0x72, 0xe1, 0x31, 0xa0, 0x29, 0xb8, 0x50, 0x45, 0xb6, 0x81, 0x81, 0x58, 0x5d,
      0x97, 0x81, 0x6a, 0x91, 0x68, 0x71, 0xca, 0x8d, 0x3c, 0x20, 0x8c, 0x16, 0xd8, 0x7c, 0xfd, 0x47]"

text \<open>The subtraction loop of \<open>negate_g1\<close>, from the last byte to the first.\<close>

fun negate_loop :: "bytes \<Rightarrow> bytes \<Rightarrow> u16 \<Rightarrow> bytes" where
  "negate_loop (m # ms) (y # ys) borrow =
     (let a = ucast m; b = ucast y + borrow in
      if a \<ge> b then ucast (a - b) # negate_loop ms ys 0
      else ucast (a + 256 - b) # negate_loop ms ys 1)"
| "negate_loop _ _ _ = []"

definition negate_g1 :: "bytes \<Rightarrow> bytes" where
  "negate_g1 point =
     take 32 point @ rev (negate_loop (rev BN254_FIELD_MODULUS) (rev (bslice 32 32 point)) 0)"

text \<open>The linear combination of the key's points; a result of the wrong size makes the copy panic.\<close>

fun vk_x_loop :: "bn254 \<Rightarrow> hash32 list \<Rightarrow> bytes list \<Rightarrow> bytes \<Rightarrow> bytes result" where
  "vk_x_loop G (x # xs) (p # ps) vk_x =
     (if \<not> is_canonical_fr x then Inl PublicInputNotInField
      else
      bindE (ok_or (bn_mul G (p @ bytes32 x)) InvalidInstructionData) (\<lambda>term.
      if length term \<noteq> 64 then Inl Panic
      else
      bindE (ok_or (bn_add G (vk_x @ term)) InvalidInstructionData) (\<lambda>new.
      if length new \<noteq> 64 then Inl Panic else vk_x_loop G xs ps new)))"
| "vk_x_loop G _ _ vk_x = Inr vk_x"

definition VALID_PAIRING :: bytes where
  "VALID_PAIRING = replicate 31 0 @ [1]"

definition verify_groth16_proof :: "bn254 \<Rightarrow> bytes \<Rightarrow> hash32 list \<Rightarrow> bytes \<Rightarrow> bytes \<Rightarrow> bytes \<Rightarrow> bytes \<Rightarrow> bytes list \<Rightarrow> unit result" where
  "verify_groth16_proof G proof public_inputs alpha_g1 beta_g2 gamma_g2 delta_g2 ic =
     (if length proof \<noteq> GROTH16_PROOF_SIZE then Inl InvalidInstructionData
      else if length ic \<noteq> length public_inputs + 1 then Inl InvalidInstructionData
      else let pi_a = bslice 0 64 proof; pi_b = bslice 64 128 proof; pi_c = bslice 192 64 proof in
      if pi_a = replicate 64 0 then Inl InvalidProofPoint
      else
      bindE (vk_x_loop G public_inputs (tl ic) (hd ic)) (\<lambda>vk_x.
      bindE (ok_or (bn_pairing G (negate_g1 pi_a @ pi_b @ alpha_g1 @ beta_g2 @ vk_x @ gamma_g2 @ pi_c @ delta_g2))
        InvalidInstructionData) (\<lambda>r.
      if r \<noteq> VALID_PAIRING then Inl InvalidInstructionData else Inr ())))"

definition ALPHA_G1 :: bytes where
  "ALPHA_G1 =
     [0x2d, 0x4d, 0x9a, 0xa7, 0xe3, 0x02, 0xd9, 0xdf, 0x41, 0x74, 0x9d, 0x55, 0x07, 0x94, 0x9d, 0x05,
      0xdb, 0xea, 0x33, 0xfb, 0xb1, 0x6c, 0x64, 0x3b, 0x22, 0xf5, 0x99, 0xa2, 0xbe, 0x6d, 0xf2, 0xe2,
      0x14, 0xbe, 0xdd, 0x50, 0x3c, 0x37, 0xce, 0xb0, 0x61, 0xd8, 0xec, 0x60, 0x20, 0x9f, 0xe3, 0x45,
      0xce, 0x89, 0x83, 0x0a, 0x19, 0x23, 0x03, 0x01, 0xf0, 0x76, 0xca, 0xff, 0x00, 0x4d, 0x19, 0x26]"

definition BETA_G2 :: bytes where
  "BETA_G2 =
     [0x09, 0x67, 0x03, 0x2f, 0xcb, 0xf7, 0x76, 0xd1, 0xaf, 0xc9, 0x85, 0xf8, 0x88, 0x77, 0xf1, 0x82,
      0xd3, 0x84, 0x80, 0xa6, 0x53, 0xf2, 0xde, 0xca, 0xa9, 0x79, 0x4c, 0xbc, 0x3b, 0xf3, 0x06, 0x0c,
      0x0e, 0x18, 0x78, 0x47, 0xad, 0x4c, 0x79, 0x83, 0x74, 0xd0, 0xd6, 0x73, 0x2b, 0xf5, 0x01, 0x84,
      0x7d, 0xd6, 0x8b, 0xc0, 0xe0, 0x71, 0x24, 0x1e, 0x02, 0x13, 0xbc, 0x7f, 0xc1, 0x3d, 0xb7, 0xab,
      0x30, 0x4c, 0xfb, 0xd1, 0xe0, 0x8a, 0x70, 0x4a, 0x99, 0xf5, 0xe8, 0x47, 0xd9, 0x3f, 0x8c, 0x3c,
      0xaa, 0xfd, 0xde, 0xc4, 0x6b, 0x7a, 0x0d, 0x37, 0x9d, 0xa6, 0x9a, 0x4d, 0x11, 0x23, 0x46, 0xa7,
      0x17, 0x39, 0xc1, 0xb1, 0xa4, 0x57, 0xa8, 0xc7, 0x31, 0x31, 0x23, 0xd2, 0x4d, 0x2f, 0x91, 0x92,
      0xf8, 0x96, 0xb7, 0xc6, 0x3e, 0xea, 0x05, 0xa9, 0xd5, 0x7f, 0x06, 0x54, 0x7a, 0xd0, 0xce, 0xc8]"

definition GAMMA_G2 :: bytes where
  "GAMMA_G2 =
     [0x19, 0x8e, 0x93, 0x93, 0x92, 0x0d, 0x48, 0x3a, 0x72, 0x60, 0xbf, 0xb7, 0x31, 0xfb, 0x5d, 0x25,
      0xf1, 0xaa, 0x49, 0x33, 0x35, 0xa9, 0xe7, 0x12, 0x97, 0xe4, 0x85, 0xb7, 0xae, 0xf3, 0x12, 0xc2,
      0x18, 0x00, 0xde, 0xef, 0x12, 0x1f, 0x1e, 0x76, 0x42, 0x6a, 0x00, 0x66, 0x5e, 0x5c, 0x44, 0x79,
      0x67, 0x43, 0x22, 0xd4, 0xf7, 0x5e, 0xda, 0xdd, 0x46, 0xde, 0xbd, 0x5c, 0xd9, 0x92, 0xf6, 0xed,
      0x09, 0x06, 0x89, 0xd0, 0x58, 0x5f, 0xf0, 0x75, 0xec, 0x9e, 0x99, 0xad, 0x69, 0x0c, 0x33, 0x95,
      0xbc, 0x4b, 0x31, 0x33, 0x70, 0xb3, 0x8e, 0xf3, 0x55, 0xac, 0xda, 0xdc, 0xd1, 0x22, 0x97, 0x5b,
      0x12, 0xc8, 0x5e, 0xa5, 0xdb, 0x8c, 0x6d, 0xeb, 0x4a, 0xab, 0x71, 0x80, 0x8d, 0xcb, 0x40, 0x8f,
      0xe3, 0xd1, 0xe7, 0x69, 0x0c, 0x43, 0xd3, 0x7b, 0x4c, 0xe6, 0xcc, 0x01, 0x66, 0xfa, 0x7d, 0xaa]"

definition verify_groth16_joinsplit_proof :: "bn254 \<Rightarrow> bytes \<Rightarrow> hash32 list \<Rightarrow> bytes \<Rightarrow> bytes list \<Rightarrow> unit result" where
  "verify_groth16_joinsplit_proof G proof public_inputs delta_g2 ic =
     verify_groth16_proof G proof public_inputs ALPHA_G1 BETA_G2 GAMMA_G2 delta_g2 ic"

section \<open>The registry account\<close>

definition VK_REGISTRY_DISCRIMINATOR :: u8 where "VK_REGISTRY_DISCRIMINATOR = 0x14"
definition VK_REGISTRY_SEED :: bytes where "VK_REGISTRY_SEED = ascii ''vk_registry''"
definition MAX_SAFE_JOINSPLIT_SIZE :: nat where "MAX_SAFE_JOINSPLIT_SIZE = 10"
definition MAX_IC_POINTS :: nat where "MAX_IC_POINTS = 1 + 2 + MAX_SAFE_JOINSPLIT_SIZE"
definition VK_REGISTRY_SIZE :: nat where "VK_REGISTRY_SIZE = 1060"

definition joinsplit_num_public_inputs :: "u8 \<Rightarrow> u8 \<Rightarrow> nat" where
  "joinsplit_num_public_inputs n_inputs n_outputs = 2 + unat n_inputs + unat n_outputs"

record vk_registry =
  vk_discriminator :: u8
  vk_padding :: u8
  vk_n_inputs :: u8
  vk_n_outputs :: u8
  vk_authority :: pubkey
  vk_vk_hash :: hash32
  vk_delta_g2 :: "1024 word"
  vk_ic_len :: u8
  vk_reserved :: "248 word"
  vk_ic :: "512 word list"

definition encode_points :: "512 word list \<Rightarrow> bytes" where
  "encode_points ps = concat (map (le_bytes 64) ps)"

definition decode_points :: "nat \<Rightarrow> bytes \<Rightarrow> 512 word list" where
  "decode_points n d = map (\<lambda>i. from_le (bslice (64 * i) 64 d)) [0..<n]"

definition encode_vk_registry :: "vk_registry \<Rightarrow> bytes" where
  "encode_vk_registry x =
     byte1 (vk_discriminator x) @ byte1 (vk_padding x) @ byte1 (vk_n_inputs x) @ byte1 (vk_n_outputs x) @
     le_bytes 32 (vk_authority x) @ le_bytes 32 (vk_vk_hash x) @ le_bytes 128 (vk_delta_g2 x) @
     byte1 (vk_ic_len x) @ le_bytes 31 (vk_reserved x) @ encode_points (vk_ic x)"

definition decode_vk_registry :: "bytes \<Rightarrow> vk_registry" where
  "decode_vk_registry d =
     \<lparr>vk_discriminator = byte_at 0 d, vk_padding = byte_at 1 d, vk_n_inputs = byte_at 2 d,
      vk_n_outputs = byte_at 3 d, vk_authority = from_le (bslice 4 32 d), vk_vk_hash = from_le (bslice 36 32 d),
      vk_delta_g2 = from_le (bslice 68 128 d), vk_ic_len = byte_at 196 d,
      vk_reserved = from_le (bslice 197 31 d), vk_ic = decode_points MAX_IC_POINTS (bslice 228 832 d)\<rparr>"

definition vk_registry_from_bytes :: "bytes \<Rightarrow> vk_registry result" where
  "vk_registry_from_bytes = layout_from_bytes VK_REGISTRY_SIZE VK_REGISTRY_DISCRIMINATOR decode_vk_registry"

definition vk_registry_init :: vk_registry where
  "vk_registry_init = \<lparr>vk_discriminator = VK_REGISTRY_DISCRIMINATOR, vk_padding = 0, vk_n_inputs = 0, vk_n_outputs = 0,
     vk_authority = 0, vk_vk_hash = 0, vk_delta_g2 = 0, vk_ic_len = 0, vk_reserved = 0,
     vk_ic = replicate MAX_IC_POINTS 0\<rparr>"

definition is_authority :: "pubkey \<Rightarrow> vk_registry \<Rightarrow> bool" where
  "is_authority pk v \<longleftrightarrow> vk_authority v = pk"

text \<open>The flag is the first of the reserved bytes.\<close>

definition is_frozen :: "vk_registry \<Rightarrow> bool" where
  "is_frozen v \<longleftrightarrow> (ucast (vk_reserved v) :: u8) \<noteq> 0"

definition freeze :: "vk_registry \<Rightarrow> vk_registry" where
  "freeze v = v\<lparr>vk_reserved := (vk_reserved v AND NOT 0xFF) OR 1\<rparr>"

definition num_public_inputs :: "vk_registry \<Rightarrow> nat" where
  "num_public_inputs v = joinsplit_num_public_inputs (vk_n_inputs v) (vk_n_outputs v)"

definition get_ic :: "vk_registry \<Rightarrow> bytes list result" where
  "get_ic v =
     (let len = unat (vk_ic_len v) in
      if len = 0 \<or> len > MAX_IC_POINTS \<or> len \<noteq> num_public_inputs v + 1 then Inl InvalidAccountData
      else Inr (map (le_bytes 64) (take len (vk_ic v))))"

definition get_delta_g2 :: "vk_registry \<Rightarrow> bytes" where
  "get_delta_g2 v = le_bytes 128 (vk_delta_g2 v)"

definition vk_hash_parts :: "bytes \<Rightarrow> bytes list \<Rightarrow> bytes list" where
  "vk_hash_parts delta_g2 ic =
     [ALPHA_G1,
      bslice 32 32 BETA_G2, take 32 BETA_G2, drop 96 BETA_G2, bslice 64 32 BETA_G2,
      bslice 32 32 GAMMA_G2, take 32 GAMMA_G2, drop 96 GAMMA_G2, bslice 64 32 GAMMA_G2,
      bslice 32 32 delta_g2, take 32 delta_g2, drop 96 delta_g2, bslice 64 32 delta_g2,
      concat ic]"

definition compute_vk_hash :: "env \<Rightarrow> bytes \<Rightarrow> bytes list \<Rightarrow> hash32" where
  "compute_vk_hash E delta_g2 ic = sha256_parts E (vk_hash_parts delta_g2 ic)"

definition set_vk :: "env \<Rightarrow> hash32 \<Rightarrow> bytes \<Rightarrow> bytes list \<Rightarrow> vk_registry \<Rightarrow> vk_registry result" where
  "set_vk E vk_hash delta_g2 ic v =
     (if ic = [] \<or> length ic > MAX_IC_POINTS \<or> length ic \<noteq> num_public_inputs v + 1 then Inl InvalidInstructionData
      else let computed = compute_vk_hash E delta_g2 ic in
      if vk_hash \<noteq> computed then Inl VkHashMismatch
      else Inr (v\<lparr>vk_vk_hash := computed, vk_delta_g2 := from_le delta_g2, vk_ic_len := of_nat (length ic),
                  vk_ic := map from_le ic @ replicate (MAX_IC_POINTS - length ic) 0\<rparr>))"

section \<open>The handlers\<close>

definition BPF_LOADER_UPGRADEABLE_ID :: pubkey where
  "BPF_LOADER_UPGRADEABLE_ID = from_le
     [0x02, 0xa8, 0xf6, 0x91, 0x4e, 0x88, 0xa1, 0xb0, 0xe2, 0x10, 0x15, 0x3e, 0xf7, 0x63, 0xae, 0x2b,
      0x00, 0xc2, 0xb9, 0x3d, 0x16, 0xc1, 0x24, 0xd2, 0xc0, 0x53, 0x7a, 0x10, 0x04, 0x80, 0x00, 0x00]"

definition programdata_upgrade_authority :: "bytes \<Rightarrow> bytes result" where
  "programdata_upgrade_authority d =
     (if length d < 45 \<or> take 4 d \<noteq> [3, 0, 0, 0] \<or> d ! 12 \<noteq> 1 then Inl Unauthorized else Inr (bslice 13 32 d))"

definition validate_upgrade_authority :: "env \<Rightarrow> store \<Rightarrow> account_info \<Rightarrow> account_info \<Rightarrow> unit result" where
  "validate_upgrade_authority E s program_data signer =
     (if \<not> is_signer signer then Inl MissingRequiredSignature
      else let expected = fst (rt_find_pda E [bytes32 (program_id E)] BPF_LOADER_UPGRADEABLE_ID) in
      if key program_data \<noteq> expected \<or> owner (s (key program_data)) \<noteq> BPF_LOADER_UPGRADEABLE_ID then Inl InvalidArgument
      else
      bindE (programdata_upgrade_authority (adata (s (key program_data)))) (\<lambda>a.
      if a \<noteq> bytes32 (key signer) then Inl Unauthorized else Inr ()))"

record init_vk_registry_data =
  ivd_n_inputs :: u8
  ivd_n_outputs :: u8
  ivd_vk_hash :: hash32
  ivd_delta_g2 :: bytes
  ivd_ic :: "bytes list"

definition VK_HEADER_SIZE :: nat where "VK_HEADER_SIZE = 2 + 32 + 128 + 1"

definition init_vk_registry_data_from_bytes :: "bytes \<Rightarrow> init_vk_registry_data result" where
  "init_vk_registry_data_from_bytes d =
     (if length d < VK_HEADER_SIZE then Inl InvalidInstructionData
      else let n_inputs = d ! 0; n_outputs = d ! 1 in
      if n_inputs = 0 \<or> n_outputs = 0 \<or> unat n_inputs + unat n_outputs > MAX_SAFE_JOINSPLIT_SIZE then Inl InvalidArgument
      else let ic_len = unat (d ! 162); expected = joinsplit_num_public_inputs n_inputs n_outputs + 1 in
      if ic_len = 0 \<or> ic_len > MAX_IC_POINTS \<or> ic_len \<noteq> expected then Inl InvalidInstructionData
      else if length d \<noteq> VK_HEADER_SIZE + ic_len * 64 then Inl InvalidInstructionData
      else Inr \<lparr>ivd_n_inputs = n_inputs, ivd_n_outputs = n_outputs, ivd_vk_hash = from_le (bslice 2 32 d),
                ivd_delta_g2 = bslice 34 128 d,
                ivd_ic = map (\<lambda>i. bslice (VK_HEADER_SIZE + i * 64) 64 d) [0..<ic_len]\<rparr>)"

definition vk_registry_address :: "env \<Rightarrow> u8 \<Rightarrow> u8 \<Rightarrow> pubkey \<times> u8" where
  "vk_registry_address E n_inputs n_outputs = find_program_address E [VK_REGISTRY_SEED, [n_inputs], [n_outputs]]"

definition validate_vk_registry_pda :: "env \<Rightarrow> account_info \<Rightarrow> u8 \<Rightarrow> u8 \<Rightarrow> u8 result" where
  "validate_vk_registry_pda E vk_info n_inputs n_outputs =
     (let (expected, bump) = vk_registry_address E n_inputs n_outputs in
      if key vk_info \<noteq> expected then Inl InvalidSeeds else Inr bump)"

definition process_init_vk_registry :: "env \<Rightarrow> account_info list \<Rightarrow> bytes \<Rightarrow> store \<Rightarrow> store result" where
  "process_init_vk_registry E accounts d s =
     (if length accounts < 4 then Inl NotEnoughAccountKeys
      else let k = key (accounts ! 1); authority = accounts ! 2 in
      bindE (init_vk_registry_data_from_bytes d) (\<lambda>ix.
      bindE (validate_system_program (accounts ! 3)) (\<lambda>_.
      bindE (validate_upgrade_authority E s (accounts ! 0) authority) (\<lambda>_.
      bindE (validate_vk_registry_pda E (accounts ! 1) (ivd_n_inputs ix) (ivd_n_outputs ix)) (\<lambda>bump.
      bindE (if length (adata (s k)) > 0
             then (if adata (s k) ! 0 = VK_REGISTRY_DISCRIMINATOR then Inl AccountAlreadyInitialized else Inr s)
             else create_pda_account E (key authority) k (rt_minimum_balance E VK_REGISTRY_SIZE)
               (of_nat VK_REGISTRY_SIZE) 4 s) (\<lambda>s1.
      if length (adata (s1 k)) < VK_REGISTRY_SIZE then Inl InvalidAccountData
      else
      bindE (set_vk E (ivd_vk_hash ix) (ivd_delta_g2 ix) (ivd_ic ix)
        (vk_registry_init\<lparr>vk_n_inputs := ivd_n_inputs ix, vk_n_outputs := ivd_n_outputs ix,
           vk_authority := key authority\<rparr>)) (\<lambda>v.
      write_front k (encode_vk_registry v) s1)))))))"

definition process_update_vk_registry :: "env \<Rightarrow> account_info list \<Rightarrow> bytes \<Rightarrow> store \<Rightarrow> store result" where
  "process_update_vk_registry E accounts d s =
     (if length accounts < 3 then Inl NotEnoughAccountKeys
      else let k = key (accounts ! 1); authority = accounts ! 2 in
      bindE (init_vk_registry_data_from_bytes d) (\<lambda>ix.
      bindE (validate_upgrade_authority E s (accounts ! 0) authority) (\<lambda>_.
      bindE (validate_program_owner E s (accounts ! 1)) (\<lambda>_.
      bindE (validate_vk_registry_pda E (accounts ! 1) (ivd_n_inputs ix) (ivd_n_outputs ix)) (\<lambda>_.
      bindE (vk_registry_from_bytes (adata (s k))) (\<lambda>v.
      if \<not> is_authority (key authority) v then Inl Unauthorized
      else if is_frozen v then Inl VkRegistryFrozen
      else if vk_n_inputs v \<noteq> ivd_n_inputs ix \<or> vk_n_outputs v \<noteq> ivd_n_outputs ix then Inl InvalidArgument
      else
      bindE (set_vk E (ivd_vk_hash ix) (ivd_delta_g2 ix) (ivd_ic ix) v) (\<lambda>v'.
      write_front k (encode_vk_registry v') s)))))))"

definition process_freeze_vk_registry :: "env \<Rightarrow> account_info list \<Rightarrow> bytes \<Rightarrow> store \<Rightarrow> store result" where
  "process_freeze_vk_registry E accounts d s =
     (if length accounts < 3 then Inl NotEnoughAccountKeys
      else let k = key (accounts ! 1); authority = accounts ! 2 in
      bindE (validate_upgrade_authority E s (accounts ! 0) authority) (\<lambda>_.
      bindE (validate_program_owner E s (accounts ! 1)) (\<lambda>_.
      bindE (validate_account_writable (accounts ! 1)) (\<lambda>_.
      bindE (vk_registry_from_bytes (adata (s k))) (\<lambda>v.
      bindE (validate_vk_registry_pda E (accounts ! 1) (vk_n_inputs v) (vk_n_outputs v)) (\<lambda>_.
      if \<not> is_authority (key authority) v then Inl Unauthorized
      else write_front k (encode_vk_registry (freeze v)) s))))))"

section \<open>Negation of a point\<close>

lemma negate_digit:
  fixes m y :: u8 and borrow :: u16
  assumes "unat borrow \<le> 1"
  defines "d \<equiv> ucast m - ucast y - borrow"
  shows "ucast m \<ge> ucast y + borrow \<longleftrightarrow> \<not> d > 0xFF"
    and "(ucast (ucast m - (ucast y + borrow) :: u16) :: u8) = ucast d"
    and "(ucast (ucast m + 256 - (ucast y + borrow) :: u16) :: u8) = ucast d"
proof -
  have b: "unat (ucast m :: u16) = unat m" "unat (ucast y :: u16) = unat y"
    by (rule unat_ucast_up, simp)+
  have yb: "unat (ucast y + borrow) = unat y + unat borrow"
    using unat_u8_bound [of y] assms(1) by (simp add: unat_word_ariths b)
  have eq: "d = ucast m - (ucast y + borrow)" by (simp add: d_def)
  show "(ucast (ucast m - (ucast y + borrow) :: u16) :: u8) = ucast d" by (simp add: eq)
  have u8: "(ucast (x + 256) :: u8) = ucast x" for x :: u16
  proof -
    have "unat (ucast (x + 256) :: u8) = unat (ucast x :: u8)"
      by (simp add: unat_ucast_mod unat_word_ariths mod_mod_cancel)
    then show ?thesis by (simp add: word_unat_eq_iff)
  qed
  have "ucast m + 256 - (ucast y + borrow) = d + 256" by (simp add: eq algebra_simps)
  then show "(ucast (ucast m + 256 - (ucast y + borrow) :: u16) :: u8) = ucast d" by (simp only: u8)
  show "ucast m \<ge> ucast y + borrow \<longleftrightarrow> \<not> d > 0xFF"
  proof (cases "ucast y + borrow \<le> (ucast m :: u16)")
    case True
    then have "unat d \<le> 255" using unat_u8_bound [of m] by (simp add: eq unat_sub b)
    with True show ?thesis by (simp add: word_less_nat_alt)
  next
    case False
    then have lt: "unat m < unat y + unat borrow" by (simp add: word_le_nat_alt b yb)
    have "uint d = (uint (ucast m :: u16) - uint (ucast y + borrow)) mod 65536"
      unfolding eq uint_word_ariths(2) by simp
    also have "\<dots> = (int (unat m) - int (unat y + unat borrow)) mod 65536" by (simp only: uint_nat b yb)
    also have "\<dots> = (int (unat m) - int (unat y + unat borrow) + 65536) mod 65536" by (rule mod_add_self2 [symmetric])
    also have "\<dots> = int (unat m) - int (unat y + unat borrow) + 65536"
      by (rule mod_pos_pos_trivial) (use lt unat_u8_bound [of y] assms(1) in linarith)+
    finally have "255 < uint d" using unat_u8_bound [of y] assms(1) by linarith
    with False show ?thesis by (simp add: word_less_def)
  qed
qed

lemma negate_loop_sub_borrow: "unat b \<le> 1 \<Longrightarrow> negate_loop ms ys b = sub_borrow ms ys b"
proof (induction ms ys b rule: negate_loop.induct)
  case (1 m ms y ys b)
  note D = negate_digit [OF "1.prems", where m = m and y = y]
  show ?case using "1.IH" D by (auto simp: Let_def)
qed simp_all


definition FP :: nat where
  "FP = 21888242871839275222246405745257275088696311157297823662689037894645226208583"

lemma FP_value: "le_nat (rev BN254_FIELD_MODULUS) = FP"
  by (simp add: BN254_FIELD_MODULUS_def FP_def)

lemma length_FP [simp]: "length BN254_FIELD_MODULUS = 32"
  by (simp add: BN254_FIELD_MODULUS_def)

text \<open>The second coordinate of a point, read big-endian.\<close>

definition y_coord :: "bytes \<Rightarrow> nat" where
  "y_coord p = le_nat (rev (bslice 32 32 p))"

lemma negate_g1_halves:
  assumes "length p = 64"
  shows "length (negate_g1 p) = 64" and "take 32 (negate_g1 p) = take 32 p"
    and "\<exists>c \<ge> 0. int (y_coord (negate_g1 p)) = int FP - int (y_coord p) + 256 ^ 32 * c"
proof -
  let ?r = "negate_loop (rev BN254_FIELD_MODULUS) (rev (bslice 32 32 p)) 0"
  have r: "?r = sub_borrow (rev BN254_FIELD_MODULUS) (rev (bslice 32 32 p)) 0" by (rule negate_loop_sub_borrow) simp
  have len: "length ?r = 32" using assms by (simp add: r)
  show "length (negate_g1 p) = 64" "take 32 (negate_g1 p) = take 32 p"
    using assms len by (simp_all add: negate_g1_def)
  have "y_coord (negate_g1 p) = le_nat ?r"
    using assms len by (simp add: y_coord_def negate_g1_def bslice_def)
  with sub_borrow_value [of "rev BN254_FIELD_MODULUS" "rev (bslice 32 32 p)" 0] assms
  show "\<exists>c \<ge> 0. int (y_coord (negate_g1 p)) = int FP - int (y_coord p) + 256 ^ 32 * c"
    by (simp add: r FP_value y_coord_def)
qed

lemma y_coord_bound: "y_coord p < 256 ^ 32"
proof -
  have "y_coord p < 256 ^ length (rev (bslice 32 32 p))" unfolding y_coord_def by (rule le_nat_bound)
  also have "\<dots> \<le> 256 ^ 32" by (rule power_increasing) simp_all
  finally show ?thesis .
qed

lemma FP_bound: "FP < 256 ^ 32"
  by (simp add: FP_def)

lemma y_coord_negate:
  assumes "length p = 64"
  shows "y_coord (negate_g1 p) = (if y_coord p \<le> FP then FP - y_coord p else 256 ^ 32 + FP - y_coord p)"
proof -
  from negate_g1_halves(3) [OF assms] obtain c :: int where "0 \<le> c"
    and c: "int (y_coord (negate_g1 p)) = int FP - int (y_coord p) + 256 ^ 32 * c" by blast
  have b: "int (y_coord (negate_g1 p)) < 256 ^ 32" "int (y_coord p) < 256 ^ 32"
    using y_coord_bound by (metis of_nat_less_iff of_nat_numeral of_nat_power)+
  have "c < 2"
  proof (rule ccontr)
    assume "\<not> c < 2"
    then have "256 ^ 32 * 2 \<le> 256 ^ 32 * c" by (intro mult_left_mono) simp_all
    with c b show False by simp
  qed
  with \<open>0 \<le> c\<close> consider "c = 0" | "c = 1" by linarith
  then show ?thesis
  proof cases
    case 1
    with c show ?thesis by auto
  next
    case 2
    with c b FP_bound show ?thesis by auto
  qed
qed

lemma point_eqI:
  assumes "length p = 64" and "length q = 64" and "take 32 p = take 32 q" and "y_coord p = y_coord q"
  shows "p = q"
proof -
  have "rev (bslice 32 32 p) = rev (bslice 32 32 q)"
    using assms by (intro le_nat_inj) (simp_all add: y_coord_def)
  then have "drop 32 p = drop 32 q" using assms by (simp add: bslice_def)
  with assms(3) show ?thesis by (metis append_take_drop_id)
qed

text \<open>The encoding \<open>(0, p)\<close>: its second coordinate is not reduced.\<close>

definition identity_alias :: bytes where
  "identity_alias = replicate 32 0 @ BN254_FIELD_MODULUS"

lemma identity_alias_shape: "length identity_alias = 64" "take 32 identity_alias = replicate 32 0"
    "y_coord identity_alias = FP" "identity_alias \<noteq> replicate 64 0"
proof -
  show y: "y_coord identity_alias = FP" by (simp add: identity_alias_def y_coord_def bslice_def FP_value)
  have "y_coord (replicate 64 0) = 0" by (simp add: y_coord_def bslice_def)
  with y show "identity_alias \<noteq> replicate 64 0" by (auto simp: FP_def)
qed (simp_all add: identity_alias_def)

lemma negate_identity_alias: "negate_g1 identity_alias = replicate 64 0"
proof (rule point_eqI)
  show "y_coord (negate_g1 identity_alias) = y_coord (replicate 64 0)"
    by (simp add: y_coord_negate identity_alias_shape) (simp add: y_coord_def bslice_def)
qed (simp_all add: negate_g1_halves(1,2) identity_alias_shape)

text \<open>Apart from this encoding, only the negation of the identity could be confused with another point.\<close>

lemma negate_zero_iff:
  assumes "length p = 64"
  shows "negate_g1 p = replicate 64 0 \<longleftrightarrow> p = identity_alias" and "negate_g1 p = identity_alias \<longleftrightarrow> p = replicate 64 0"
proof -
  have z: "y_coord (replicate 64 0) = 0" by (simp add: y_coord_def bslice_def)
  show "negate_g1 p = replicate 64 0 \<longleftrightarrow> p = identity_alias"
  proof
    assume n: "negate_g1 p = replicate 64 0"
    show "p = identity_alias"
    proof (rule point_eqI)
      show "take 32 p = take 32 identity_alias"
        using negate_g1_halves(2) [OF assms] n by (simp add: identity_alias_shape)
      have "y_coord (negate_g1 p) = 0" using n z by simp
      then show "y_coord p = y_coord identity_alias"
        using y_coord_bound [of p] FP_bound by (simp add: y_coord_negate [OF assms] identity_alias_shape split: if_splits)
    qed (simp_all add: assms identity_alias_shape)
  qed (simp add: negate_identity_alias)
  show "negate_g1 p = identity_alias \<longleftrightarrow> p = replicate 64 0"
  proof
    assume n: "negate_g1 p = identity_alias"
    show "p = replicate 64 0"
    proof (rule point_eqI)
      show "take 32 p = take 32 (replicate 64 0)"
        using negate_g1_halves(2) [OF assms] n by (simp add: identity_alias_shape)
      have "y_coord (negate_g1 p) = FP" using n by (simp add: identity_alias_shape)
      then show "y_coord p = y_coord (replicate 64 0)"
        using y_coord_bound [of p] by (simp add: y_coord_negate [OF assms] z split: if_splits)
    qed (simp_all add: assms)
  next
    assume p: "p = replicate 64 0"
    then have "take 32 p = take 32 identity_alias" "y_coord p = 0" using z by (simp_all add: identity_alias_shape)
    moreover have "y_coord (negate_g1 p) = FP" using y_coord_negate [OF assms] \<open>y_coord p = 0\<close> by simp
    ultimately show "negate_g1 p = identity_alias"
      using negate_g1_halves(1,2) [OF assms] identity_alias_shape(1,3) by (metis point_eqI)
  qed
qed


section \<open>The Groth16 equation\<close>

definition times_point :: "nat \<Rightarrow> 'a::ab_group_add \<Rightarrow> 'a" where
  "times_point n x = ((+) x ^^ n) 0"

text \<open>
  The documented behaviour of the syscalls: \<open>g1\<close> and \<open>g2\<close> parse points, \<open>enc\<close> is
  the encoding the syscalls return, \<open>e\<close> the pairing. Sixty-four zero bytes encode the
  identity, and mirroring the second coordinate of another point negates it.
\<close>

definition bn254_spec :: "bn254 \<Rightarrow> (bytes \<Rightarrow> 'a::ab_group_add option) \<Rightarrow> ('a \<Rightarrow> bytes) \<Rightarrow> (bytes \<Rightarrow> 'b option) \<Rightarrow>
    ('a \<Rightarrow> 'b \<Rightarrow> 'c::comm_monoid_mult) \<Rightarrow> bool" where
  "bn254_spec G g1 enc g2 e \<longleftrightarrow>
     (\<forall>x. length (enc x) = 64 \<and> g1 (enc x) = Some x) \<and> g1 (replicate 64 0) = Some 0 \<and>
     (\<forall>p x. length p = 64 \<longrightarrow> p \<noteq> replicate 64 0 \<longrightarrow> g1 p = Some x \<longrightarrow> g1 (negate_g1 p) = Some (- x)) \<and>
     (\<forall>p s. length p = 64 \<longrightarrow>
        bn_mul G (p @ bytes32 s) = map_option (\<lambda>x. enc (times_point (be_nat s) x)) (g1 p)) \<and>
     (\<forall>p q. length p = 64 \<longrightarrow> length q = 64 \<longrightarrow>
        bn_add G (p @ q) = (case (g1 p, g1 q) of (Some x, Some y) \<Rightarrow> Some (enc (x + y)) | _ \<Rightarrow> None)) \<and>
     (\<forall>ps. list_all (\<lambda>(p, q). length p = 64 \<and> length q = 128) ps \<longrightarrow>
        bn_pairing G (concat (map (\<lambda>(p, q). p @ q) ps)) =
          (if list_ex (\<lambda>(p, q). g1 p = None \<or> g2 q = None) ps then None
           else Some (replicate 31 0 @
             [if prod_list (map (\<lambda>(p, q). e (the (g1 p)) (the (g2 q))) ps) = 1 then 1 else 0])))"

lemma bn254_specD:
  assumes "bn254_spec G g1 enc g2 e"
  shows "length (enc x) = 64" and "g1 (enc x) = Some x" and "g1 (replicate 64 0) = Some 0"
    and "length p = 64 \<Longrightarrow> p \<noteq> replicate 64 0 \<Longrightarrow> g1 p = Some x \<Longrightarrow> g1 (negate_g1 p) = Some (- x)"
    and "length p = 64 \<Longrightarrow> g1 p = Some x \<Longrightarrow> bn_mul G (p @ bytes32 s) = Some (enc (times_point (be_nat s) x))"
    and "length p = 64 \<Longrightarrow> length q = 64 \<Longrightarrow> g1 p = Some x \<Longrightarrow> g1 q = Some y \<Longrightarrow> bn_add G (p @ q) = Some (enc (x + y))"
  using assms unfolding bn254_spec_def by simp_all

lemma bn254_pairing4:
  assumes spec: "bn254_spec G g1 enc g2 e"
    and "length p1 = 64" "length p2 = 64" "length p3 = 64" "length p4 = 64"
    and "length q1 = 128" "length q2 = 128" "length q3 = 128" "length q4 = 128"
    and "g1 p1 = Some x1" "g1 p2 = Some x2" "g1 p3 = Some x3" "g1 p4 = Some x4"
    and "g2 q1 = Some y1" "g2 q2 = Some y2" "g2 q3 = Some y3" "g2 q4 = Some y4"
  shows "bn_pairing G (p1 @ q1 @ p2 @ q2 @ p3 @ q3 @ p4 @ q4) =
    Some (replicate 31 0 @ [if e x1 y1 * e x2 y2 * e x3 y3 * e x4 y4 = 1 then 1 else 0])"
proof -
  let ?ps = "[(p1, q1), (p2, q2), (p3, q3), (p4, q4)]"
  have "bn_pairing G (concat (map (\<lambda>(p, q). p @ q) ?ps)) =
      (if list_ex (\<lambda>(p, q). g1 p = None \<or> g2 q = None) ?ps then None
       else Some (replicate 31 0 @
         [if prod_list (map (\<lambda>(p, q). e (the (g1 p)) (the (g2 q))) ?ps) = 1 then 1 else 0]))"
    using spec assms(2-9) unfolding bn254_spec_def by (elim conjE allE [of _ ?ps]) simp
  then show ?thesis using assms(10-) by (simp add: mult.assoc del: replicate.simps)
qed

text \<open>The public part of the equation: the first point of the key plus the inputs times the others.\<close>

definition public_part :: "hash32 list \<Rightarrow> 'a::ab_group_add list \<Rightarrow> 'a \<Rightarrow> 'a" where
  "public_part xs ps p0 = p0 + sum_list (map2 (\<lambda>x p. times_point (be_nat x) p) xs ps)"

lemma vk_x_loop_value:
  assumes spec: "bn254_spec G g1 enc g2 e"
  shows "length xs = length ps \<Longrightarrow> list_all (\<lambda>p. length p = 64) ps \<Longrightarrow> map g1 ps = map Some ys \<Longrightarrow>
    length vk = 64 \<Longrightarrow> g1 vk = Some y0 \<Longrightarrow> list_all is_canonical_fr xs \<Longrightarrow>
    \<exists>vk'. vk_x_loop G xs ps vk = Inr vk' \<and> length vk' = 64 \<and> g1 vk' = Some (public_part xs ys y0)"
proof (induction xs ps arbitrary: ys vk y0 rule: list_induct2)
  case Nil
  then show ?case by (simp add: public_part_def)
next
  case (Cons x xs p ps)
  note D = bn254_specD [OF spec]
  from Cons.prems obtain y ys' where ys: "ys = y # ys'" and p: "length p = 64" "g1 p = Some y"
    and rest: "map g1 ps = map Some ys'" "list_all (\<lambda>p. length p = 64) ps" and x: "is_canonical_fr x" "list_all is_canonical_fr xs"
    by (cases ys) auto
  let ?t = "times_point (be_nat x) y"
  have "bn_mul G (p @ bytes32 x) = Some (enc ?t)" using D(5) p by blast
  moreover have "bn_add G (vk @ enc ?t) = Some (enc (y0 + ?t))"
    using D(6) [OF Cons.prems(3) D(1) Cons.prems(4) D(2)] .
  ultimately have run: "vk_x_loop G (x # xs) (p # ps) vk = vk_x_loop G xs ps (enc (y0 + ?t))"
    using x(1) by (simp add: D(1))
  have "public_part (x # xs) ys y0 = public_part xs ys' (y0 + ?t)" by (simp add: public_part_def ys add.assoc)
  with Cons.IH [OF rest(2,1) D(1) D(2) x(2)] run show ?case by simp
qed

lemma vk_x_loop_canonical:
  "length xs = length ps \<Longrightarrow> vk_x_loop G xs ps vk = Inr vk' \<Longrightarrow> list_all is_canonical_fr xs"
  by (induction xs ps arbitrary: vk rule: list_induct2) (auto simp: res_simps split: if_splits)

lemma vk_x_loop_rejects:
  assumes spec: "bn254_spec G g1 enc g2 e"
  shows "length xs = length ps \<Longrightarrow> list_all (\<lambda>p. length p = 64) ps \<Longrightarrow> map g1 ps = map Some ys \<Longrightarrow>
    length vk = 64 \<Longrightarrow> g1 vk = Some y0 \<Longrightarrow> \<not> list_all is_canonical_fr xs \<Longrightarrow>
    vk_x_loop G xs ps vk = Inl PublicInputNotInField"
proof (induction xs ps arbitrary: ys vk y0 rule: list_induct2)
  case (Cons x xs p ps)
  note D = bn254_specD [OF spec]
  from Cons.prems obtain y ys' where p: "length p = 64" "g1 p = Some y"
    and rest: "map g1 ps = map Some ys'" "list_all (\<lambda>p. length p = 64) ps"
    by (cases ys) auto
  let ?t = "times_point (be_nat x) y"
  have "bn_mul G (p @ bytes32 x) = Some (enc ?t)" using D(5) p by blast
  moreover have "bn_add G (vk @ enc ?t) = Some (enc (y0 + ?t))"
    using D(6) [OF Cons.prems(3) D(1) Cons.prems(4) D(2)] .
  ultimately show ?case using Cons.IH [OF rest(2,1) D(1) D(2)] Cons.prems(5) by (simp add: D(1))
qed simp

definition groth16_holds :: "('a::ab_group_add \<Rightarrow> 'b \<Rightarrow> 'c::comm_monoid_mult) \<Rightarrow> hash32 list \<Rightarrow> 'a \<Rightarrow> 'b \<Rightarrow> 'a \<Rightarrow>
    'a \<Rightarrow> 'b \<Rightarrow> 'b \<Rightarrow> 'b \<Rightarrow> 'a list \<Rightarrow> bool" where
  "groth16_holds e xs A B C alpha beta gamma delta ic \<longleftrightarrow>
     e (- A) B * e alpha beta * e (public_part xs (tl ic) (hd ic)) gamma * e C delta = 1"

text \<open>All branches of the verifier, the first point given by its mirror image.\<close>

lemma verify_groth16_value:
  assumes spec: "bn254_spec G g1 enc g2 e"
    and len: "length proof = 256" "length ic = length xs + 1"
    and A: "bslice 0 64 proof \<noteq> replicate 64 0" "g1 (negate_g1 (bslice 0 64 proof)) = Some (- A)"
    and BC: "g2 (bslice 64 128 proof) = Some B" "g1 (bslice 192 64 proof) = Some C"
    and key: "length a = 64" "length b = 128" "length c = 128" "length d = 128" "list_all (\<lambda>p. length p = 64) ic"
      "g1 a = Some alpha" "g2 b = Some beta" "g2 c = Some gamma" "g2 d = Some delta" "map g1 ic = map Some pts"
  shows "verify_groth16_proof G proof xs a b c d ic =
    (if \<not> list_all is_canonical_fr xs then Inl PublicInputNotInField
     else if groth16_holds e xs A B C alpha beta gamma delta pts then Inr () else Inl InvalidInstructionData)"
proof -
  from len(2) key(5,10) obtain p0 ps y0 ys where ic: "ic = p0 # ps" and pts: "pts = y0 # ys"
    and l: "length xs = length ps" "list_all (\<lambda>p. length p = 64) ps" "length p0 = 64"
    and g: "map g1 ps = map Some ys" "g1 p0 = Some y0"
    by (cases ic; cases pts) auto
  note loop = vk_x_loop_value [OF spec l(1,2) g(1) l(3) g(2)] vk_x_loop_rejects [OF spec l(1,2) g(1) l(3) g(2)]
  have start: "verify_groth16_proof G proof xs a b c d ic =
      bindE (vk_x_loop G xs ps p0) (\<lambda>vk_x.
      bindE (ok_or (bn_pairing G (negate_g1 (bslice 0 64 proof) @ bslice 64 128 proof @ a @ b @ vk_x @ c @ bslice 192 64 proof @ d))
        InvalidInstructionData) (\<lambda>r. if r \<noteq> VALID_PAIRING then Inl InvalidInstructionData else Inr ()))"
    using A(1) len by (simp add: verify_groth16_proof_def GROTH16_PROOF_SIZE_def Let_def ic)
  show ?thesis
  proof (cases "list_all is_canonical_fr xs")
    case True
    then obtain vk where vk: "vk_x_loop G xs ps p0 = Inr vk" "length vk = 64" "g1 vk = Some (public_part xs ys y0)"
      using loop(1) by blast
    have neg: "length (negate_g1 (bslice 0 64 proof)) = 64" using len(1) by (intro negate_g1_halves(1)) simp
    have "bn_pairing G (negate_g1 (bslice 0 64 proof) @ bslice 64 128 proof @ a @ b @ vk @ c @ bslice 192 64 proof @ d) =
      Some (replicate 31 0 @ [if groth16_holds e xs A B C alpha beta gamma delta pts then 1 else 0])"
      unfolding groth16_holds_def pts list.sel
      by (rule bn254_pairing4 [OF spec neg key(1) vk(2) _ _ key(2,3,4) A(2) key(6) vk(3) BC(2) BC(1) key(7,8,9)])
        (simp_all add: len)
    with True vk(1) show ?thesis by (simp add: start VALID_PAIRING_def)
  next
    case False
    with loop(2) show ?thesis by (simp add: start)
  qed
qed


lemma fixed_key_lengths [simp]: "length ALPHA_G1 = 64" "length BETA_G2 = 128" "length GAMMA_G2 = 128"
  by (simp_all add: ALPHA_G1_def BETA_G2_def GAMMA_G2_def)


lemma verify_canonical:
  assumes "verify_groth16_joinsplit_proof G prf xs d ic = Inr ()"
  shows "list_all is_canonical_fr xs"
  using assms by (auto simp: verify_groth16_joinsplit_proof_def verify_groth16_proof_def Let_def res_simps
      split: if_splits intro: vk_x_loop_canonical [of xs "tl ic" G "hd ic"])

text \<open>
  C14. One encoding per statement: whatever the proofs and keys, two lists of public inputs that the
  verifier accepts and that agree modulo the scalar order are the same bytes. A nullifier has
  therefore no second accepted encoding that would lead to another record address.
\<close>

theorem accepted_inputs_unique:
  assumes "verify_groth16_joinsplit_proof G proof xs d ic = Inr ()"
    and "verify_groth16_joinsplit_proof G' proof' ys d' ic' = Inr ()"
    and "list_all2 (\<lambda>x y. be_nat x mod FR = be_nat y mod FR) xs ys"
  shows "xs = ys"
proof -
  from assms(3) have "length xs = length ys" by (rule list_all2_lengthD)
  moreover have "xs ! i = ys ! i" if "i < length xs" for i
  proof -
    have "be_nat (xs ! i) mod FR = be_nat (ys ! i) mod FR" using assms(3) that by (rule list_all2_nthD)
    moreover have "be_nat (xs ! i) < FR" "be_nat (ys ! i) < FR"
      using verify_canonical [OF assms(1)] verify_canonical [OF assms(2)] that \<open>length xs = length ys\<close>
      by (simp_all add: list_all_length canonical_iff)
    ultimately show ?thesis by (simp add: be_nat_inj)
  qed
  ultimately show ?thesis by (rule nth_equalityI)
qed

text \<open>
  A gap in the identity check: the first point given as \<open>(0, p)\<close>, a second coordinate
  that is not reduced, is not the zero encoding the code compares with, and \<open>negate_g1\<close>
  turns it into the identity. The verifier then accepts exactly when the equation holds with
  the identity as first point, for every \<open>B\<close>: the proof element the check is meant to bind
  is not bound.
\<close>

theorem groth16_identity_alias:
  assumes "bn254_spec G g1 enc g2 e"
    and "length b = 128" and "length c = 64" and "length ic = length xs + 1" and "length d = 128"
    and "list_all (\<lambda>p. length p = 64) ic" and "list_all is_canonical_fr xs"
    and "g2 b = Some B" and "g1 c = Some C"
    and "g1 ALPHA_G1 = Some alpha" and "g2 BETA_G2 = Some beta" and "g2 GAMMA_G2 = Some gamma" and "g2 d = Some delta"
    and "map g1 ic = map Some pts"
  shows "verify_groth16_joinsplit_proof G (identity_alias @ b @ c) xs d ic = Inr () \<longleftrightarrow>
    groth16_holds e xs 0 B C alpha beta gamma delta pts"
proof -
  let ?p = "identity_alias @ b @ c"
  have s: "bslice 0 64 ?p = identity_alias" "bslice 64 128 ?p = b" "bslice 192 64 ?p = c" "length ?p = 256"
    using assms(2,3) identity_alias_shape(1) by (simp_all add: bslice_def)
  have neg: "g1 (negate_g1 (bslice 0 64 ?p)) = Some (- 0)"
    using bn254_specD(3) [OF assms(1)] by (simp add: s negate_identity_alias)
  have A: "bslice 0 64 ?p \<noteq> replicate 64 0" using identity_alias_shape(4) s(1) by simp
  from verify_groth16_value [OF assms(1) s(4) assms(4) A neg _ _ fixed_key_lengths assms(5,6,10,11,12,13,14), of B C]
  show ?thesis using assms(7,8,9) by (simp add: verify_groth16_joinsplit_proof_def s)
qed

section \<open>A concrete pairing\<close>

text \<open>
  The group of two elements: the zero encoding is the identity, every other encoding but
  \<open>(0, p)\<close> the other element, and the pairing is -1 on two non-trivial points.
\<close>

definition demo_g1 :: "bytes \<Rightarrow> 1 word option" where
  "demo_g1 p = (if p = identity_alias then None else Some (if p = replicate 64 0 then 0 else 1))"

definition demo_enc :: "1 word \<Rightarrow> bytes" where
  "demo_enc x = (if x = 0 then replicate 64 0 else 1 # replicate 63 0)"

definition demo_g2 :: "bytes \<Rightarrow> 1 word option" where
  "demo_g2 q = Some (if q = replicate 128 0 then 0 else 1)"

definition demo_e :: "1 word \<Rightarrow> 1 word \<Rightarrow> int" where
  "demo_e x y = (if x = 0 \<or> y = 0 then 1 else - 1)"

definition split_pairs :: "bytes \<Rightarrow> (bytes \<times> bytes) list" where
  "split_pairs d = map (\<lambda>i. (bslice (192 * i) 64 d, bslice (192 * i + 64) 128 d)) [0..<length d div 192]"

definition demo_bn254 :: bn254 where
  "demo_bn254 =
     \<lparr>bn_add = (\<lambda>d. case (demo_g1 (take 64 d), demo_g1 (drop 64 d)) of (Some x, Some y) \<Rightarrow> Some (demo_enc (x + y)) | _ \<Rightarrow> None),
      bn_mul = (\<lambda>d. map_option (\<lambda>x. demo_enc (of_nat (be_nat (from_le (drop 64 d))) * x)) (demo_g1 (take 64 d))),
      bn_pairing = (\<lambda>d. let ps = split_pairs d in
        if list_ex (\<lambda>(p, q). demo_g1 p = None \<or> demo_g2 q = None) ps then None
        else Some (replicate 31 0 @ [if prod_list (map (\<lambda>(p, q). demo_e (the (demo_g1 p)) (the (demo_g2 q))) ps) = 1 then 1 else 0]))\<rparr>"

lemma times_point_1word: "times_point n (x :: 1 word) = of_nat n * x"
  by (induction n) (simp_all add: times_point_def algebra_simps)

lemma length_pairs: "list_all (\<lambda>(p, q). length p = 64 \<and> length q = 128) ps \<Longrightarrow>
    length (concat (map (\<lambda>(p, q). p @ q) ps)) = 192 * length ps"
  by (induction ps) auto

lemma split_pairs_concat:
  "list_all (\<lambda>(p, q). length p = 64 \<and> length q = 128) ps \<Longrightarrow> split_pairs (concat (map (\<lambda>(p, q). p @ q) ps)) = ps"
proof (induction ps)
  case (Cons a ps)
  obtain p q where a: "a = (p, q)" and l: "length p = 64" "length q = 128"
    and ps: "list_all (\<lambda>(p, q). length p = 64 \<and> length q = 128) ps"
    using Cons.prems by (cases a) auto
  let ?d = "concat (map (\<lambda>(p, q). p @ q) ps)"
  have n: "length ?d = 192 * length ps" using ps by (rule length_pairs)
  have "split_pairs (p @ q @ ?d) = (p, q) # split_pairs ?d"
    unfolding split_pairs_def using l n
    by (simp add: upt_conv_Cons map_Suc_upt [symmetric] bslice_def del: upt_Suc) (simp add: add.commute)
  with Cons.IH [OF ps] show ?case by (simp add: a)
qed (simp add: split_pairs_def)

lemma word1_cases: "(x :: 1 word) = 0 \<or> x = 1"
proof -
  have "unat x < 2" using unat_bound [of x] by simp
  then have "unat x = 0 \<or> unat x = 1" by linarith
  then show ?thesis by (auto simp: word_unat_eq_iff)
qed

lemma word1_neg [simp]: "- (x :: 1 word) = x"
  using word1_cases [of x] by auto

lemma demo_parse_enc: "length (demo_enc x) = 64" "demo_g1 (demo_enc x) = Some x"
proof -
  show "length (demo_enc x) = 64" by (simp add: demo_enc_def)
  have "(1 :: u8) # replicate 63 0 \<noteq> identity_alias"
  proof
    assume "(1 :: u8) # replicate 63 0 = identity_alias"
    then have "hd ((1 :: u8) # replicate 63 0) = hd identity_alias" by (rule arg_cong)
    then show False by (simp add: identity_alias_def)
  qed
  moreover have "(1 :: u8) # replicate 63 0 \<noteq> replicate 64 0" by (simp add: replicate_eq_replicate eval_nat_numeral)
  ultimately show "demo_g1 (demo_enc x) = Some x"
    using word1_cases [of x] identity_alias_shape(4) by (auto simp: demo_g1_def demo_enc_def)
qed

lemma demo_negate:
  assumes "length p = 64" and "p \<noteq> replicate 64 0" and "demo_g1 p = Some x"
  shows "demo_g1 (negate_g1 p) = Some (- x)"
  using assms(2,3) negate_zero_iff [OF assms(1)] by (auto simp: demo_g1_def split: if_splits)

lemma demo_bn254_spec: "bn254_spec demo_bn254 demo_g1 demo_enc demo_g2 demo_e"
proof -
  have "demo_g1 (replicate 64 0) = Some 0" using identity_alias_shape(4) by (auto simp: demo_g1_def)
  then show ?thesis
    unfolding bn254_spec_def
    by (simp add: demo_parse_enc demo_negate demo_bn254_def times_point_1word split_pairs_concat Let_def
        split: option.split)
qed


definition demo_point :: bytes where
  "demo_point = 1 # replicate 63 0"

lemma demo_points: "demo_g1 demo_point = Some 1" "demo_g1 ALPHA_G1 = Some 1" "demo_g2 BETA_G2 = Some 1" "demo_g2 GAMMA_G2 = Some 1"
    "demo_g1 (replicate 64 0) = Some 0" "demo_g2 (replicate 128 0) = Some 0" "length demo_point = 64"
proof -
  show "demo_g1 demo_point = Some 1" using demo_parse_enc(2) [of 1] by (simp add: demo_enc_def demo_point_def)
  show "demo_g1 (replicate 64 0) = Some 0" using demo_parse_enc(2) [of 0] by (simp add: demo_enc_def)
  have "ALPHA_G1 ! 0 \<noteq> identity_alias ! 0" "ALPHA_G1 ! 0 \<noteq> replicate 64 0 ! 0"
    by (simp_all add: ALPHA_G1_def identity_alias_def nth_append)
  then have "ALPHA_G1 \<noteq> identity_alias" "ALPHA_G1 \<noteq> replicate 64 0" by metis+
  then show "demo_g1 ALPHA_G1 = Some 1" by (simp add: demo_g1_def)
  have "BETA_G2 ! 0 \<noteq> replicate 128 0 ! 0" "GAMMA_G2 ! 0 \<noteq> replicate 128 0 ! 0" by (simp_all add: BETA_G2_def GAMMA_G2_def)
  then have "BETA_G2 \<noteq> replicate 128 0" "GAMMA_G2 \<noteq> replicate 128 0" by metis+
  then show "demo_g2 BETA_G2 = Some 1" "demo_g2 GAMMA_G2 = Some 1" by (simp_all add: demo_g2_def)
qed (simp_all add: demo_g2_def demo_point_def)

lemma canonical_0 [simp]: "is_canonical_fr 0"
  by (simp add: canonical_iff be_nat_def)

definition demo_proof :: bytes where
  "demo_proof = demo_point @ replicate 128 0 @ replicate 64 0"

lemma demo_proof_parts: "bslice 0 64 demo_proof = demo_point" "bslice 64 128 demo_proof = replicate 128 0"
    "bslice 192 64 demo_proof = replicate 64 0" "length demo_proof = 256"
  by (simp_all add: demo_proof_def bslice_def demo_points)

lemma demo_point_nonzero: "demo_point \<noteq> replicate 64 0"
  using demo_points(1,5) by auto

lemma demo_public_part: "public_part [0] [1] (1 :: 1 word) = 1"
  by (simp add: public_part_def times_point_1word be_nat_def)

lemma demo_accepts:
  "verify_groth16_joinsplit_proof demo_bn254 demo_proof [0] (replicate 128 0) [demo_point, demo_point] = Inr ()"
proof -
  have "demo_g1 (negate_g1 demo_point) = Some (- 1)"
    by (rule demo_negate) (simp_all add: demo_points demo_point_nonzero)
  then have neg: "demo_g1 (negate_g1 (bslice 0 64 demo_proof)) = Some (- 1)" by (simp only: demo_proof_parts)
  have "verify_groth16_proof demo_bn254 demo_proof [0] ALPHA_G1 BETA_G2 GAMMA_G2 (replicate 128 0) [demo_point, demo_point] =
    (if \<not> list_all is_canonical_fr [0] then Inl PublicInputNotInField
     else if groth16_holds demo_e [0] 1 0 0 1 1 1 0 [1, 1] then Inr () else Inl InvalidInstructionData)"
    by (rule verify_groth16_value [OF demo_bn254_spec _ _ _ neg])
      (simp_all only: demo_proof_parts demo_points, simp_all add: demo_points demo_point_nonzero)
  then show ?thesis
    by (simp add: verify_groth16_joinsplit_proof_def groth16_holds_def demo_public_part demo_e_def)
qed


theorem accepted_inputs_unique_witness:
  "verify_groth16_joinsplit_proof demo_bn254 demo_proof [0] (replicate 128 0) [demo_point, demo_point] = Inr () \<and>
   verify_groth16_joinsplit_proof demo_bn254 demo_proof [be_hash (of_nat FR)] (replicate 128 0) [demo_point, demo_point] \<noteq> Inr ()"
proof -
  note ok = demo_accepts
  have v: "be_nat (be_hash (of_nat FR)) = FR" by (simp add: be_nat_be_hash FR_def)
  have "be_nat 0 mod FR = be_nat (be_hash (of_nat FR)) mod FR" by (simp only: v) (simp add: be_nat_def)
  then have same: "list_all2 (\<lambda>x y. be_nat x mod FR = be_nat y mod FR) [0] [be_hash (of_nat FR)]" by simp
  have "[0] \<noteq> [be_hash (of_nat FR)]" using v by (auto simp: be_nat_def FR_def)
  with ok accepted_inputs_unique [OF ok _ same] show ?thesis by blast
qed

theorem groth16_identity_alias_witness:
  "verify_groth16_joinsplit_proof demo_bn254 (identity_alias @ BETA_G2 @ replicate 64 0) [0] (replicate 128 0)
     [demo_point, demo_point] = Inr ()"
proof -
  have "verify_groth16_joinsplit_proof demo_bn254 (identity_alias @ BETA_G2 @ replicate 64 0) [0] (replicate 128 0)
     [demo_point, demo_point] = Inr () \<longleftrightarrow> groth16_holds demo_e [0] 0 1 0 1 1 1 0 [1, 1]"
    by (rule groth16_identity_alias [OF demo_bn254_spec]) (simp_all add: demo_points)
  then show ?thesis by (simp add: groth16_holds_def demo_public_part demo_e_def)
qed


section \<open>The registered keys\<close>

lemma length_encode_points [simp]: "length (encode_points ps) = 64 * length ps"
  by (induction ps) (simp_all add: encode_points_def)

lemma decode_encode_points: "length ps = n \<Longrightarrow> decode_points n (encode_points ps @ r) = ps"
proof (induction ps arbitrary: n)
  case (Cons p ps)
  have "decode_points (Suc m) (le_bytes 64 p @ d) = p # decode_points m d" for m d
    by (simp add: decode_points_def upt_conv_Cons map_Suc_upt [symmetric] bslice_def from_le_le_bytes del: upt_Suc)
  with Cons show ?case by (auto simp: encode_points_def)
qed (simp add: decode_points_def)

definition vk_valid :: "vk_registry \<Rightarrow> bool" where
  "vk_valid v \<longleftrightarrow> length (vk_ic v) = MAX_IC_POINTS"

interpretation vkl: array_layout VK_REGISTRY_SIZE VK_REGISTRY_DISCRIMINATOR vk_valid vk_discriminator
  encode_vk_registry decode_vk_registry
proof
  show "0 < VK_REGISTRY_SIZE" by (simp add: VK_REGISTRY_SIZE_def)
  fix x :: vk_registry and rest d :: bytes
  show "encode_vk_registry x ! 0 = vk_discriminator x" by (simp add: encode_vk_registry_def first_byte_append)
  show "VK_REGISTRY_SIZE \<le> length d \<Longrightarrow> vk_valid (decode_vk_registry d)"
    by (simp add: vk_valid_def decode_vk_registry_def decode_points_def)
  assume v: "vk_valid x"
  show "length (encode_vk_registry x) = VK_REGISTRY_SIZE"
    using v by (simp add: encode_vk_registry_def vk_valid_def VK_REGISTRY_SIZE_def MAX_IC_POINTS_def MAX_SAFE_JOINSPLIT_SIZE_def)
  have len: "length (vk_ic x) = 13" using v by (simp add: vk_valid_def MAX_IC_POINTS_def MAX_SAFE_JOINSPLIT_SIZE_def)
  have pts: "decode_points MAX_IC_POINTS (encode_points (vk_ic x)) = vk_ic x"
    using decode_encode_points [of "vk_ic x" _ "[]"] v by (simp add: vk_valid_def)
  show "decode_vk_registry (encode_vk_registry x @ rest) = x"
    unfolding decode_vk_registry_def encode_vk_registry_def
    by (simp add: slice_simps codec_simps from_le_le_bytes len pts)
qed

abbreviation vk_at :: "store \<Rightarrow> pubkey \<Rightarrow> vk_registry result" where
  "vk_at s k \<equiv> vk_registry_from_bytes (adata (s k))"

lemma vk_at_valid: "vk_registry_from_bytes d = Inr v \<Longrightarrow> vk_valid v \<and> vk_discriminator v = VK_REGISTRY_DISCRIMINATOR"
proof -
  assume r: "vk_registry_from_bytes d = Inr v"
  from r have "vk_valid v" using vkl.from_bytes_valid by (simp add: vk_registry_from_bytes_def)
  moreover from r have "vk_discriminator v = VK_REGISTRY_DISCRIMINATOR"
    by (auto simp: vk_registry_from_bytes_def layout_from_bytes_def decode_vk_registry_def byte_at_def split: if_splits)
  ultimately show ?thesis by simp
qed

lemma write_vk:
  assumes "write_front k (encode_vk_registry v) s = Inr s'" and "vk_valid v" and "vk_discriminator v = VK_REGISTRY_DISCRIMINATOR"
  shows "vk_at s' k = Inr v"
  using vkl.from_bytes_after_write [OF assms] by (simp add: vk_registry_from_bytes_def)

text \<open>A key whose stored identity is the hash of the material that the verifier reads.\<close>

definition vk_authentic :: "env \<Rightarrow> vk_registry \<Rightarrow> bool" where
  "vk_authentic E v \<longleftrightarrow> (\<exists>ic. get_ic v = Inr ic \<and> vk_vk_hash v = compute_vk_hash E (get_delta_g2 v) ic)"

definition key_material :: "vk_registry \<Rightarrow> u8 \<times> u8 \<times> hash32 \<times> 1024 word \<times> u8 \<times> 512 word list" where
  "key_material v = (vk_n_inputs v, vk_n_outputs v, vk_vk_hash v, vk_delta_g2 v, vk_ic_len v, vk_ic v)"

lemma set_vk_ok:
  assumes run: "set_vk E h d ic v = Inr v'" and d: "length d = 128" and ic: "list_all (\<lambda>p. length p = 64) ic"
  shows "get_ic v' = Inr ic" and "get_delta_g2 v' = d" and "vk_vk_hash v' = h" and "h = compute_vk_hash E d ic"
    and "vk_valid v'" and "vk_discriminator v' = vk_discriminator v" and "vk_n_inputs v' = vk_n_inputs v"
    and "vk_n_outputs v' = vk_n_outputs v" and "vk_authority v' = vk_authority v" and "is_frozen v' = is_frozen v"
proof -
  from run have n: "ic \<noteq> []" "length ic \<le> MAX_IC_POINTS" "length ic = num_public_inputs v + 1" and h: "h = compute_vk_hash E d ic"
    and v': "v' = v\<lparr>vk_vk_hash := h, vk_delta_g2 := from_le d, vk_ic_len := of_nat (length ic),
                  vk_ic := map from_le ic @ replicate (MAX_IC_POINTS - length ic) 0\<rparr>"
    by (auto simp: set_vk_def Let_def split: if_splits)
  have small: "unat (of_nat (length ic) :: u8) = length ic"
    using n(2) by (simp add: unat_of_nat MAX_IC_POINTS_def MAX_SAFE_JOINSPLIT_SIZE_def)
  have "map (le_bytes 64 \<circ> (from_le :: bytes \<Rightarrow> 512 word)) ic = ic"
    using ic by (induction ic) (simp_all add: le_bytes_from_le)
  then show "get_ic v' = Inr ic"
    using n small by (simp add: get_ic_def v' num_public_inputs_def)
  show "get_delta_g2 v' = d" using d by (simp add: get_delta_g2_def v' le_bytes_from_le)
  show "vk_valid v'" using n(2) by (simp add: vk_valid_def v')
  show "h = compute_vk_hash E d ic" by (rule h)
qed (use run in \<open>auto simp: set_vk_def Let_def is_frozen_def split: if_splits\<close>)

lemma init_data_shape:
  assumes "init_vk_registry_data_from_bytes d = Inr ix"
  shows "length (ivd_delta_g2 ix) = 128" and "list_all (\<lambda>p. length p = 64) (ivd_ic ix)"
  using assms by (auto simp: init_vk_registry_data_from_bytes_def Let_def VK_HEADER_SIZE_def list_all_iff split: if_splits)

lemma frozen_freeze [simp]: "is_frozen (freeze v)"
proof -
  have "bit (ucast ((vk_reserved v AND NOT 0xFF) OR 1) :: u8) 0" by (simp add: bit_simps)
  then have "(ucast ((vk_reserved v AND NOT 0xFF) OR 1) :: u8) \<noteq> 0" by (metis bit_0_eq bot_apply bot_bool_def)
  then show ?thesis by (simp add: is_frozen_def freeze_def)
qed

lemma freeze_keeps: "key_material (freeze v) = key_material v" "vk_valid (freeze v) = vk_valid v"
    "vk_discriminator (freeze v) = vk_discriminator v" "vk_authentic E (freeze v) = vk_authentic E v"
  by (simp_all add: key_material_def freeze_def vk_valid_def vk_authentic_def get_ic_def get_delta_g2_def num_public_inputs_def Let_def)


text \<open>The instructions that touch registries, in any order and by anybody.\<close>

inductive vk_step :: "env \<Rightarrow> store \<Rightarrow> store \<Rightarrow> bool" for E where
  vk_init: "process_init_vk_registry E accounts d s = Inr s' \<Longrightarrow> vk_step E s s'"
| vk_update: "process_update_vk_registry E accounts d s = Inr s' \<Longrightarrow> vk_step E s s'"
| vk_freeze: "process_freeze_vk_registry E accounts d s = Inr s' \<Longrightarrow> vk_step E s s'"

definition registry_ok :: "env \<Rightarrow> store \<Rightarrow> pubkey \<Rightarrow> bool" where
  "registry_ok E s k \<longleftrightarrow> adata (s k) = [] \<or> (\<exists>v. vk_at s k = Inr v \<and> vk_authentic E v)"

definition frozen_at :: "store \<Rightarrow> pubkey \<Rightarrow> u8 \<times> u8 \<times> hash32 \<times> 1024 word \<times> u8 \<times> 512 word list \<Rightarrow> bool" where
  "frozen_at s k m \<longleftrightarrow> (\<exists>v. vk_at s k = Inr v \<and> is_frozen v \<and> key_material v = m)"

lemma registry_frame:
  assumes "frame K s s'" and "k \<notin> K"
  shows "(registry_ok E s k \<longrightarrow> registry_ok E s' k) \<and> (frozen_at s k m \<longrightarrow> frozen_at s' k m)"
  using frameD [OF assms] by (simp add: registry_ok_def frozen_at_def)

lemma first_byte_vk: "vk_registry_from_bytes d = Inr v \<Longrightarrow> d \<noteq> [] \<and> d ! 0 = VK_REGISTRY_DISCRIMINATOR"
  by (auto simp: vk_registry_from_bytes_def layout_from_bytes_def VK_REGISTRY_SIZE_def split: if_splits)

lemma init_vk_ok:
  assumes spec: "system_program_spec E" and run: "process_init_vk_registry E accounts d s = Inr s'"
  defines "k \<equiv> key (accounts ! 1)"
  shows "frame {k} s s'" and "\<exists>v. vk_at s' k = Inr v \<and> vk_authentic E v" and "\<not> (adata (s k) \<noteq> [] \<and> adata (s k) ! 0 = VK_REGISTRY_DISCRIMINATOR)"
proof -
  from run obtain ix s1 v where ix: "init_vk_registry_data_from_bytes d = Inr ix"
    and s1: "(if length (adata (s k)) > 0
             then (if adata (s k) ! 0 = VK_REGISTRY_DISCRIMINATOR then Inl AccountAlreadyInitialized else Inr s)
             else create_pda_account E (key (accounts ! 2)) k (rt_minimum_balance E VK_REGISTRY_SIZE) (of_nat VK_REGISTRY_SIZE) 4 s) = Inr s1"
    and v: "set_vk E (ivd_vk_hash ix) (ivd_delta_g2 ix) (ivd_ic ix)
        (vk_registry_init\<lparr>vk_n_inputs := ivd_n_inputs ix, vk_n_outputs := ivd_n_outputs ix, vk_authority := key (accounts ! 2)\<rparr>) = Inr v"
    and w: "write_front k (encode_vk_registry v) s1 = Inr s'"
    unfolding process_init_vk_registry_def k_def Let_def by (simp only: run_simps) blast
  note S = set_vk_ok [OF v init_data_shape [OF ix]]
  have "vk_at s' k = Inr v" using w S(5,6) by (intro write_vk) (simp_all add: vk_registry_init_def)
  then show "\<exists>v. vk_at s' k = Inr v \<and> vk_authentic E v" using S(1-4) by (auto simp: vk_authentic_def)
  show "\<not> (adata (s k) \<noteq> [] \<and> adata (s k) ! 0 = VK_REGISTRY_DISCRIMINATOR)" using s1 by auto
  have "frame {k} s s1"
    using s1 create_or_claim_pda_ok(3) [OF spec] by (auto simp: create_pda_account_def split: if_splits)
  from frame_trans [OF this frame_write [OF w]] show "frame {k} s s'" by simp
qed

lemma update_vk_ok:
  assumes run: "process_update_vk_registry E accounts d s = Inr s'"
  defines "k \<equiv> key (accounts ! 1)"
  shows "frame {k} s s'" and "\<exists>v. vk_at s' k = Inr v \<and> vk_authentic E v" and "\<exists>v. vk_at s k = Inr v \<and> \<not> is_frozen v"
proof -
  from run obtain ix v v' where ix: "init_vk_registry_data_from_bytes d = Inr ix" and v: "vk_at s k = Inr v" "\<not> is_frozen v"
    and v': "set_vk E (ivd_vk_hash ix) (ivd_delta_g2 ix) (ivd_ic ix) v = Inr v'"
    and w: "write_front k (encode_vk_registry v') s = Inr s'"
    unfolding process_update_vk_registry_def k_def Let_def by (simp only: run_simps) blast
  note S = set_vk_ok [OF v' init_data_shape [OF ix]]
  have "vk_at s' k = Inr v'" using w S(5,6) vk_at_valid [OF v(1)] by (intro write_vk) simp_all
  then show "\<exists>v. vk_at s' k = Inr v \<and> vk_authentic E v" using S(1-4) by (auto simp: vk_authentic_def)
  show "frame {k} s s'" using w by (rule frame_write)
  show "\<exists>v. vk_at s k = Inr v \<and> \<not> is_frozen v" using v by blast
qed

lemma freeze_vk_ok:
  assumes run: "process_freeze_vk_registry E accounts d s = Inr s'"
  defines "k \<equiv> key (accounts ! 1)"
  shows "frame {k} s s'" and "\<exists>v. vk_at s k = Inr v \<and> vk_at s' k = Inr (freeze v)"
proof -
  from run obtain v where v: "vk_at s k = Inr v" and w: "write_front k (encode_vk_registry (freeze v)) s = Inr s'"
    unfolding process_freeze_vk_registry_def k_def Let_def by (simp only: run_simps) blast
  show "frame {k} s s'" using w by (rule frame_write)
  have "vk_at s' k = Inr (freeze v)" using w vk_at_valid [OF v] by (intro write_vk) (simp_all add: freeze_keeps)
  with v show "\<exists>v. vk_at s k = Inr v \<and> vk_at s' k = Inr (freeze v)" by blast
qed

lemma vk_step_keeps:
  assumes spec: "system_program_spec E" and step: "vk_step E s s'"
  shows "(registry_ok E s k \<longrightarrow> registry_ok E s' k) \<and> (frozen_at s k m \<longrightarrow> frozen_at s' k m)"
  using step
proof cases
  case (vk_init accounts d)
  note I = init_vk_ok [OF spec vk_init]
  show ?thesis
  proof (cases "k = key (accounts ! 1)")
    case True
    with I(2,3) show ?thesis by (auto simp: registry_ok_def frozen_at_def dest: first_byte_vk)
  qed (rule registry_frame [OF I(1)], simp)
next
  case (vk_update accounts d)
  note I = update_vk_ok [OF vk_update]
  show ?thesis
  proof (cases "k = key (accounts ! 1)")
    case True
    with I(2,3) show ?thesis by (auto simp: registry_ok_def frozen_at_def)
  qed (rule registry_frame [OF I(1)], simp)
next
  case (vk_freeze accounts d)
  note I = freeze_vk_ok [OF vk_freeze]
  show ?thesis
  proof (cases "k = key (accounts ! 1)")
    case True
    with I(2) show ?thesis by (auto simp: registry_ok_def frozen_at_def freeze_keeps dest: first_byte_vk)
  qed (rule registry_frame [OF I(1)], simp)
qed

text \<open>
  C15. Registered keys: whatever sequence of the three registry instructions is run, a registry that
  was empty or authentic stays so, that is, the hash stored in it is the hash of exactly the
  material the verifier will read; and once a registry is frozen, no instruction changes its
  size, points or hash any more.
\<close>

theorem vk_registry_life_cycle:
  assumes "system_program_spec E" and "(vk_step E)\<^sup>*\<^sup>* s s'" and "registry_ok E s k"
  shows "registry_ok E s' k \<and> (frozen_at s k m \<longrightarrow> frozen_at s' k m)"
proof -
  have "(registry_ok E s k \<longrightarrow> registry_ok E s' k) \<and> (frozen_at s k m \<longrightarrow> frozen_at s' k m)"
    using assms(2)
  proof (induction rule: rtranclp_induct)
    case (step y z)
    with vk_step_keeps [OF assms(1) step.hyps(2), of k m] show ?case by blast
  qed simp
  with assms(3) show ?thesis by blast
qed


definition demo_ic :: "bytes list" where
  "demo_ic = replicate 5 (replicate 64 7)"

definition demo_delta :: bytes where
  "demo_delta = replicate 128 9"

definition demo_registry :: vk_registry where
  "demo_registry = freeze (projr (set_vk demo_env (compute_vk_hash demo_env demo_delta demo_ic) demo_delta demo_ic
     (vk_registry_init\<lparr>vk_n_inputs := 1, vk_n_outputs := 1, vk_authority := 77\<rparr>)))"

definition demo_vk_store :: store where
  "demo_vk_store = (\<lambda>k. \<lparr>lamports = 1, owner = 0, adata = []\<rparr>)
     (32 := \<lparr>lamports = 1, owner = BPF_LOADER_UPGRADEABLE_ID, adata = [3, 0, 0, 0] @ replicate 8 0 @ [1] @ bytes32 77\<rparr>,
      65803 := \<lparr>lamports = 1, owner = 1, adata = encode_vk_registry demo_registry\<rparr>)"

lemma demo_registry_ok: "vk_authentic demo_env demo_registry" "vk_valid demo_registry"
    "vk_discriminator demo_registry = VK_REGISTRY_DISCRIMINATOR" "vk_n_inputs demo_registry = 1" "vk_n_outputs demo_registry = 1"
    "vk_authority demo_registry = 77" "is_frozen demo_registry"
proof -
  let ?b = "vk_registry_init\<lparr>vk_n_inputs := 1, vk_n_outputs := 1, vk_authority := 77\<rparr>"
  obtain v where v: "set_vk demo_env (compute_vk_hash demo_env demo_delta demo_ic) demo_delta demo_ic ?b = Inr v"
    by (simp add: set_vk_def demo_ic_def MAX_IC_POINTS_def MAX_SAFE_JOINSPLIT_SIZE_def num_public_inputs_def
        joinsplit_num_public_inputs_def Let_def)
  have "length demo_delta = 128" "list_all (\<lambda>p. length p = 64) demo_ic" by (simp_all add: demo_delta_def demo_ic_def list_all_iff)
  note S = set_vk_ok [OF v this]
  have r: "demo_registry = freeze v" by (simp add: demo_registry_def v)
  show "vk_authentic demo_env demo_registry" unfolding r freeze_keeps using S(1-4) by (auto simp: vk_authentic_def)
  show "vk_valid demo_registry" "is_frozen demo_registry" using S(5) by (simp_all add: r freeze_keeps)
  show "vk_discriminator demo_registry = VK_REGISTRY_DISCRIMINATOR" "vk_n_inputs demo_registry = 1"
    "vk_n_outputs demo_registry = 1" "vk_authority demo_registry = 77"
    using S(6-9) by (simp_all add: r freeze_def vk_registry_init_def)
qed

theorem vk_registry_life_cycle_witness:
  "\<exists>s'. process_freeze_vk_registry demo_env
       [\<lparr>key = 32, is_signer = False, is_writable = False\<rparr>, \<lparr>key = 65803, is_signer = False, is_writable = True\<rparr>,
        \<lparr>key = 77, is_signer = True, is_writable = False\<rparr>] [] demo_vk_store = Inr s' \<and>
     registry_ok demo_env s' 65803 \<and> frozen_at s' 65803 (key_material demo_registry)"
proof -
  have d: "vk_at demo_vk_store 65803 = Inr demo_registry"
    using vkl.from_bytes_overlay [OF demo_registry_ok(2,3), of "[]"]
    by (simp add: demo_vk_store_def vk_registry_from_bytes_def)
  have len: "length (encode_vk_registry demo_registry) = VK_REGISTRY_SIZE" "length (encode_vk_registry (freeze demo_registry)) = VK_REGISTRY_SIZE"
    using demo_registry_ok(2) by (simp_all add: vkl.length_encode freeze_keeps)
  have auth: "validate_upgrade_authority demo_env demo_vk_store \<lparr>key = 32, is_signer = False, is_writable = False\<rparr>
      \<lparr>key = 77, is_signer = True, is_writable = False\<rparr> = Inr ()"
    by (simp add: validate_upgrade_authority_def programdata_upgrade_authority_def demo_vk_store_def demo_env_def bslice_def nth_append)
  have pda: "validate_vk_registry_pda demo_env \<lparr>key = 65803, is_signer = False, is_writable = True\<rparr> 1 1 = Inr 255"
    by (simp add: validate_vk_registry_pda_def vk_registry_address_def find_program_address_def demo_env_def
        VK_REGISTRY_SEED_def ascii_def)
  obtain s' where run: "process_freeze_vk_registry demo_env
       [\<lparr>key = 32, is_signer = False, is_writable = False\<rparr>, \<lparr>key = 65803, is_signer = False, is_writable = True\<rparr>,
        \<lparr>key = 77, is_signer = True, is_writable = False\<rparr>] [] demo_vk_store = Inr s'"
    using d len demo_registry_ok
    by (simp add: process_freeze_vk_registry_def auth pda validate_program_owner_def validate_account_writable_def is_authority_def
        write_front_def put_front_def Let_def) (simp add: demo_vk_store_def demo_env_def)
  have ok: "registry_ok demo_env demo_vk_store 65803" "frozen_at demo_vk_store 65803 (key_material demo_registry)"
    using d demo_registry_ok by (auto simp: registry_ok_def frozen_at_def)
  have step: "(vk_step demo_env)\<^sup>*\<^sup>* demo_vk_store s'" using vk_step.vk_freeze [OF run] by blast
  from vk_registry_life_cycle [OF demo_system_program step ok(1)] ok(2) run show ?thesis by blast
qed

end
