(* ===== verification/UX_Joinsplit.thy ===== *)
theory UX_Joinsplit
  imports UX_Groth16 UX_Settle
begin

text \<open>
  What the shielded spends share (\<open>instructions/joinsplit_common.rs\<close>, \<open>state/nullifier.rs\<close>,
  \<open>validate_frozen_tree\<close> of \<open>utils/validation.rs\<close>): the instruction layout, the optional
  account tail declared by the flags, the check of root, key and proof, and the nullifier records.
  \<open>G\<close> are the curve syscalls. Log events are not modelled; the arrays of references padded to
  ten entries are lists of the entries in use. The theorems say that the tail is read from exactly
  the declared slots and that a nullifier is recorded at most once.
\<close>

abbreviation InvalidMerkleProof :: program_error where "InvalidMerkleProof \<equiv> Custom 6003"
abbreviation InvalidZkProof :: program_error where "InvalidZkProof \<equiv> Custom 6022"
abbreviation InvalidBoundParams :: program_error where "InvalidBoundParams \<equiv> Custom 6067"

section \<open>Flags and header\<close>

definition MAX_JOINSPLIT_SIZE :: nat where "MAX_JOINSPLIT_SIZE = MAX_SAFE_JOINSPLIT_SIZE"
definition STEALTH_DATA_PER_OUTPUT :: nat where "STEALTH_DATA_PER_OUTPUT = 72"
definition CHADBUFFER_AUTHORITY_SIZE :: nat where "CHADBUFFER_AUTHORITY_SIZE = 32"

definition PROOF_IN_BUFFER :: u8 where "PROOF_IN_BUFFER = 1"
definition RELAYER :: u8 where "RELAYER = 2"
definition FROZEN_SOURCE_TREE :: u8 where "FROZEN_SOURCE_TREE = 4"
definition POLICY :: u8 where "POLICY = 8"
definition QUEUED_LEAVES :: u8 where "QUEUED_LEAVES = 16"
definition RAGEQUIT :: u8 where "RAGEQUIT = 32"

definition ALL_FLAGS :: u8 where
  "ALL_FLAGS = PROOF_IN_BUFFER OR RELAYER OR FROZEN_SOURCE_TREE OR POLICY OR QUEUED_LEAVES OR RAGEQUIT"

definition has_flag :: "u8 \<Rightarrow> u8 \<Rightarrow> bool" where
  "has_flag flags flag \<longleftrightarrow> flags AND flag \<noteq> 0"

record joinsplit_header =
  jh_n_inputs :: nat
  jh_n_outputs :: nat
  jh_n_public_outputs :: nat
  jh_flags :: u8

definition proof_in_buffer :: "joinsplit_header \<Rightarrow> bool" where
  "proof_in_buffer h = has_flag (jh_flags h) PROOF_IN_BUFFER"

definition parse_header :: "bytes \<Rightarrow> joinsplit_header result" where
  "parse_header d =
     (if length d < 4 then Inl InvalidInstructionData
      else let h = \<lparr>jh_n_inputs = unat (d ! 0), jh_n_outputs = unat (d ! 1), jh_n_public_outputs = unat (d ! 2), jh_flags = d ! 3\<rparr> in
      if jh_flags h AND NOT ALL_FLAGS \<noteq> 0 \<or> jh_n_inputs h = 0 \<or> jh_n_outputs h = 0 \<or>
         jh_n_inputs h + jh_n_outputs h > MAX_JOINSPLIT_SIZE
      then Inl InvalidInstructionData
      else Inr h)"

definition validate_public_outputs :: "joinsplit_header \<Rightarrow> bool \<Rightarrow> unit result" where
  "validate_public_outputs h require_none =
     (if require_none then ensure (jh_n_public_outputs h = 0) InvalidInstructionData
      else ensure (\<not> (jh_n_public_outputs h = 0 \<or> jh_n_public_outputs h > MAX_PUBLIC_OUTPUTS \<or>
        jh_n_public_outputs h > jh_n_outputs h)) InvalidInstructionData)"

definition validate_account_count :: "nat \<Rightarrow> nat \<Rightarrow> u8 \<Rightarrow> unit result" where
  "validate_account_count accounts_len min_accounts proof_source =
     ensure (\<not> accounts_len < min_accounts + (if proof_source = 1 then 1 else 0)) NotEnoughAccountKeys"

section \<open>The common prefix\<close>

record joinsplit_prefix =
  jp_proof_bytes :: bytes
  jp_merkle_root :: hash32
  jp_bound_params_hash :: hash32
  jp_nullifiers :: "hash32 list"
  jp_commitments_out :: "hash32 list"
  jp_stealth_data_start :: nat
  jp_stealth_data_end :: nat

text \<open>Consecutive field elements, each required to be canonical.\<close>

fun read_fields :: "bytes \<Rightarrow> nat \<Rightarrow> nat \<Rightarrow> hash32 list result" where
  "read_fields d offset 0 = Inr []"
| "read_fields d offset (Suc n) =
     (let x = from_le (bslice offset 32 d) in
      if \<not> is_canonical_fr x then Inl InvalidZkProof
      else bindE (read_fields d (offset + 32) n) (\<lambda>xs. Inr (x # xs)))"

definition read_proof :: "env \<Rightarrow> store \<Rightarrow> bytes \<Rightarrow> account_info list \<Rightarrow> joinsplit_header \<Rightarrow> bytes result" where
  "read_proof E s d accounts h =
     (if \<not> proof_in_buffer h then Inr (bslice 4 GROTH16_PROOF_SIZE d)
      else if accounts = [] then Inl Panic
      else let buf = adata (s (key (last accounts))) in
      bindE (validate_chadbuffer_owner E s (last accounts)) (\<lambda>_.
      if length buf < CHADBUFFER_AUTHORITY_SIZE + GROTH16_PROOF_SIZE then Inl InvalidAccountData
      else Inr (bslice CHADBUFFER_AUTHORITY_SIZE GROTH16_PROOF_SIZE buf)))"

definition parse_prefix :: "env \<Rightarrow> store \<Rightarrow> bytes \<Rightarrow> account_info list \<Rightarrow> joinsplit_header \<Rightarrow> nat \<Rightarrow> joinsplit_prefix result" where
  "parse_prefix E s d accounts h n_tree_outputs =
     (let proof_data_size = (if \<not> proof_in_buffer h then GROTH16_PROOF_SIZE else 0);
          start = 4 + proof_data_size;
          nullifiers_at = start + 32 + 32;
          commitments_at = nullifiers_at + jh_n_inputs h * 32;
          stealth_data_start = commitments_at + jh_n_outputs h * 32;
          min_len = stealth_data_start + n_tree_outputs * STEALTH_DATA_PER_OUTPUT in
      if length d < min_len then Inl InvalidInstructionData
      else
      bindE (read_proof E s d accounts h) (\<lambda>proof_bytes.
      bindE (read_fields d nullifiers_at (jh_n_inputs h)) (\<lambda>nullifiers.
      bindE (read_fields d commitments_at (jh_n_outputs h)) (\<lambda>commitments_out.
      Inr \<lparr>jp_proof_bytes = proof_bytes, jp_merkle_root = from_le (bslice start 32 d),
           jp_bound_params_hash = from_le (bslice (start + 32) 32 d), jp_nullifiers = nullifiers,
           jp_commitments_out = commitments_out, jp_stealth_data_start = stealth_data_start,
           jp_stealth_data_end = stealth_data_start + n_tree_outputs * STEALTH_DATA_PER_OUTPUT\<rparr>))))"

definition nullifiers_concat :: "joinsplit_prefix \<Rightarrow> bytes" where
  "nullifiers_concat p = concat (map bytes32 (jp_nullifiers p))"

section \<open>The optional accounts\<close>

datatype PolicyTail = PolicyNone | PolicyVerified | PolicyRagequit nat

definition policy_account_count :: "PolicyTail \<Rightarrow> nat" where
  "policy_account_count t = (case t of PolicyNone \<Rightarrow> 0 | PolicyVerified \<Rightarrow> 2 | PolicyRagequit n \<Rightarrow> n)"

definition policy_tail_from_flags :: "u8 \<Rightarrow> bool \<Rightarrow> nat \<Rightarrow> PolicyTail result" where
  "policy_tail_from_flags flags perm n_public_outputs =
     (case (perm, has_flag flags POLICY, has_flag flags RAGEQUIT) of
        (False, False, False) \<Rightarrow> Inr PolicyNone
      | (True, True, False) \<Rightarrow> Inr PolicyVerified
      | (True, False, True) \<Rightarrow> Inr (PolicyRagequit n_public_outputs)
      | _ \<Rightarrow> Inl InvalidInstructionData)"

record joinsplit_tail =
  jt_relayer :: "nat option"
  jt_source_tree :: "nat option"
  jt_policy_start :: "nat option"
  jt_queued_leaves_start :: "nat option"
  jt_proof_buffer :: "nat option"

definition verified_pair :: "joinsplit_tail \<Rightarrow> (nat \<times> nat) option" where
  "verified_pair t = map_option (\<lambda>i. (i, i + 1)) (jt_policy_start t)"

text \<open>The closure \<open>take_n\<close> with the cursor it captures.\<close>

definition take_n :: "nat \<Rightarrow> nat \<Rightarrow> nat \<Rightarrow> (nat option \<times> nat) result" where
  "take_n account_count n cursor =
     (if n = 0 then Inr (None, cursor)
      else if cursor + n > account_count then Inl NotEnoughAccountKeys
      else Inr (Some cursor, cursor + n))"

definition resolve_joinsplit_tail :: "u8 \<Rightarrow> nat \<Rightarrow> PolicyTail \<Rightarrow> nat \<Rightarrow> nat \<Rightarrow> joinsplit_tail result" where
  "resolve_joinsplit_tail flags tail_start policy n_outputs account_count =
     bindE (take_n account_count (if has_flag flags RELAYER then 1 else 0) tail_start) (\<lambda>(relayer, c1).
     bindE (take_n account_count (if has_flag flags FROZEN_SOURCE_TREE then 1 else 0) c1) (\<lambda>(source_tree, c2).
     bindE (take_n account_count (policy_account_count policy) c2) (\<lambda>(policy_start, c3).
     bindE (take_n account_count (if has_flag flags QUEUED_LEAVES then n_outputs else 0) c3) (\<lambda>(queued, c4).
     bindE (take_n account_count (if has_flag flags PROOF_IN_BUFFER then 1 else 0) c4) (\<lambda>(proof_buffer, c5).
     if c5 \<noteq> account_count then Inl NotEnoughAccountKeys
     else Inr \<lparr>jt_relayer = relayer, jt_source_tree = source_tree, jt_policy_start = policy_start,
               jt_queued_leaves_start = queued, jt_proof_buffer = proof_buffer\<rparr>)))))"

section \<open>Root, key and proof\<close>

definition looks_like_commitment_tree :: "env \<Rightarrow> store \<Rightarrow> account_info \<Rightarrow> bool" where
  "looks_like_commitment_tree E s a \<longleftrightarrow> owner (s (key a)) = program_id E \<and> adata (s (key a)) \<noteq> [] \<and>
     adata (s (key a)) ! 0 = COMMITMENT_TREE_DISCRIMINATOR"

definition validate_frozen_tree :: "env \<Rightarrow> store \<Rightarrow> account_info \<Rightarrow> account_info \<Rightarrow> u32 \<Rightarrow> hash32 \<Rightarrow> bool result" where
  "validate_frozen_tree E s tree_account pool_account active_index expected_root =
     bindE (validate_program_owner E s tree_account) (\<lambda>_.
     let d = adata (s (key tree_account)) in
     if d = [] \<or> d ! 0 \<noteq> COMMITMENT_TREE_DISCRIMINATOR then Inl InvalidAccountData
     else
     bindE (commitment_tree_from_bytes d) (\<lambda>tree.
     let idx = ct_tree_index tree in
     if idx \<ge> active_index then Inl InvalidSeeds
     else
     bindE (validate_pool_state_pda E s pool_account) (\<lambda>_.
     if key tree_account \<noteq> fst (find_program_address E [TREE_SEED, bytes32 (key pool_account), bytes4 idx]) then Inl InvalidSeeds
     else Inr (is_valid_root expected_root tree))))"

text \<open>The tree the spent notes live in: the active one, or a frozen one the caller supplies.\<close>

definition source_tree_of :: "env \<Rightarrow> store \<Rightarrow> account_info \<Rightarrow> account_info \<Rightarrow> u32 \<Rightarrow> account_info option \<Rightarrow> hash32 \<Rightarrow> u32 result" where
  "source_tree_of E s pool_state_info commitment_tree_info active_index source_tree_info root =
     bindE (commitment_tree_from_bytes (adata (s (key commitment_tree_info)))) (\<lambda>tree.
     if is_valid_root root tree then Inr active_index
     else case source_tree_info of
       None \<Rightarrow> Inl InvalidMerkleProof
     | Some src \<Rightarrow>
         bindE (validate_frozen_tree E s src pool_state_info active_index root) (\<lambda>frozen_ok.
         if \<not> frozen_ok then Inl InvalidMerkleProof
         else
         bindE (commitment_tree_from_bytes (adata (s (key src)))) (\<lambda>t. Inr (ct_tree_index t))))"

definition joinsplit_public_inputs :: "joinsplit_prefix \<Rightarrow> hash32 list" where
  "joinsplit_public_inputs p = jp_merkle_root p # jp_bound_params_hash p # jp_nullifiers p @ jp_commitments_out p"

definition verify_vk_merkle_and_proof :: "bn254 \<Rightarrow> env \<Rightarrow> store \<Rightarrow> account_info \<Rightarrow> account_info \<Rightarrow> account_info \<Rightarrow> u32 \<Rightarrow>
    account_info option \<Rightarrow> joinsplit_header \<Rightarrow> joinsplit_prefix \<Rightarrow> u32 result" where
  "verify_vk_merkle_and_proof G E s pool_state_info vk_registry_info commitment_tree_info active_index source_tree_info h p =
     bindE (source_tree_of E s pool_state_info commitment_tree_info active_index source_tree_info (jp_merkle_root p)) (\<lambda>source_tree_index.
     let n_in = of_nat (jh_n_inputs h); n_out = of_nat (jh_n_outputs h) in
     if key vk_registry_info \<noteq> fst (vk_registry_address E n_in n_out) then Inl InvalidVkRegistry
     else
     bindE (vk_registry_from_bytes (adata (s (key vk_registry_info)))) (\<lambda>vk.
     if vk_n_inputs vk \<noteq> n_in \<or> vk_n_outputs vk \<noteq> n_out then Inl InvalidVkRegistry
     else
     bindE (get_ic vk) (\<lambda>ic.
     bindE (verify_groth16_joinsplit_proof G (jp_proof_bytes p) (joinsplit_public_inputs p) (get_delta_g2 vk) ic) (\<lambda>_.
     Inr source_tree_index))))"

section \<open>Nullifier records\<close>

definition NULLIFIER_RECORD_DISCRIMINATOR :: u8 where "NULLIFIER_RECORD_DISCRIMINATOR = 0x03"
definition NULLIFIER_RECORD_LEN :: nat where "NULLIFIER_RECORD_LEN = 1"
definition NULLIFIER_SEED :: bytes where "NULLIFIER_SEED = ascii ''nullifier''"

datatype NullifierAccounting = ApplyNow | DeferToQueue

definition nullifier_seeds :: "pubkey \<Rightarrow> u32 \<Rightarrow> hash32 \<Rightarrow> bytes list" where
  "nullifier_seeds pool source_tree_index nullifier =
     (if source_tree_index = 0 then [NULLIFIER_SEED, bytes32 pool, bytes32 nullifier]
      else [NULLIFIER_SEED, bytes32 pool, bytes4 source_tree_index, bytes32 nullifier])"

definition nullifier_record :: "env \<Rightarrow> pubkey \<Rightarrow> u32 \<Rightarrow> pubkey \<Rightarrow> hash32 \<Rightarrow> account_info \<Rightarrow> store \<Rightarrow> store result" where
  "nullifier_record E pool source_tree_index payer nullifier nullifier_info s =
     bindE (validate_account_writable nullifier_info) (\<lambda>_.
     let k = key nullifier_info; seeds = nullifier_seeds pool source_tree_index nullifier in
     if k \<noteq> fst (find_program_address E seeds) then Inl InvalidSeeds
     else if adata (s k) \<noteq> [] \<and> adata (s k) ! 0 = NULLIFIER_RECORD_DISCRIMINATOR then Inl NullifierAlreadyUsed
     else
     bindE (create_pda_account E payer k (rt_minimum_balance E NULLIFIER_RECORD_LEN) (of_nat NULLIFIER_RECORD_LEN)
       (length seeds + 1) s) (\<lambda>s1.
     receipt_init NULLIFIER_RECORD_DISCRIMINATOR k s1))"

fun nullifier_records :: "env \<Rightarrow> pubkey \<Rightarrow> u32 \<Rightarrow> pubkey \<Rightarrow> hash32 list \<Rightarrow> account_info list \<Rightarrow> store \<Rightarrow> store result" where
  "nullifier_records E pool source_tree_index payer [] accounts s = Inr s"
| "nullifier_records E pool source_tree_index payer (n # ns) [] s = Inl Panic"
| "nullifier_records E pool source_tree_index payer (n # ns) (a # as) s =
     bindE (nullifier_record E pool source_tree_index payer n a s) (\<lambda>s1.
     nullifier_records E pool source_tree_index payer ns as s1)"

definition create_nullifier_records :: "env \<Rightarrow> account_info list \<Rightarrow> nat \<Rightarrow> hash32 list \<Rightarrow> pubkey \<Rightarrow> u32 \<Rightarrow> pubkey \<Rightarrow>
    NullifierAccounting \<Rightarrow> store \<Rightarrow> store result" where
  "create_nullifier_records E accounts start_index nullifiers pool source_tree_index payer accounting s =
     bindE (nullifier_records E pool source_tree_index payer nullifiers (drop start_index accounts) s) (\<lambda>s1.
     if accounting = ApplyNow
     then bindE (pool_state_from_bytes (adata (s1 pool))) (\<lambda>p.
          write_front pool (encode_pool_state (add_nullifiers (of_nat (length nullifiers)) p)) s1)
     else Inr s1)"

section \<open>Queued leaves\<close>

text \<open>\<open>state/queued_leaf.rs\<close>: a commitment that is paid for but not yet placed in the tree.\<close>

definition QUEUED_LEAF_DISCRIMINATOR :: u8 where "QUEUED_LEAF_DISCRIMINATOR = 0x16"
definition QUEUED_LEAF_VERSION :: u8 where "QUEUED_LEAF_VERSION = 1"
definition QUEUED_LEAF_LEN :: nat where "QUEUED_LEAF_LEN = 144"
definition QUEUED_LEAF_SEED :: bytes where "QUEUED_LEAF_SEED = ascii ''queued_leaf''"

record queued_leaf =
  ql_discriminator :: u8
  ql_version :: u8
  ql_bump :: u8
  ql_tree_index :: u32
  ql_commitment :: hash32
  ql_payer :: pubkey
  ql_ephemeral_pub :: hash32
  ql_encrypted_amount :: u64
  ql_encrypted_token_id :: hash32
  ql_nullifier_debt :: u8

definition encode_queued_leaf :: "queued_leaf \<Rightarrow> bytes" where
  "encode_queued_leaf x =
     byte1 (ql_discriminator x) @ byte1 (ql_version x) @ byte1 (ql_bump x) @ le_bytes 4 (ql_tree_index x) @
     le_bytes 32 (ql_commitment x) @ le_bytes 32 (ql_payer x) @ le_bytes 32 (ql_ephemeral_pub x) @
     le_bytes 8 (ql_encrypted_amount x) @ le_bytes 32 (ql_encrypted_token_id x) @ byte1 (ql_nullifier_debt x)"

definition decode_queued_leaf :: "bytes \<Rightarrow> queued_leaf" where
  "decode_queued_leaf d =
     \<lparr>ql_discriminator = byte_at 0 d, ql_version = byte_at 1 d, ql_bump = byte_at 2 d, ql_tree_index = from_le (bslice 3 4 d),
      ql_commitment = from_le (bslice 7 32 d), ql_payer = from_le (bslice 39 32 d), ql_ephemeral_pub = from_le (bslice 71 32 d),
      ql_encrypted_amount = from_le (bslice 103 8 d), ql_encrypted_token_id = from_le (bslice 111 32 d),
      ql_nullifier_debt = byte_at 143 d\<rparr>"

definition queued_leaf_init :: "u8 \<Rightarrow> u32 \<Rightarrow> hash32 \<Rightarrow> pubkey \<Rightarrow> hash32 \<Rightarrow> u64 \<Rightarrow> hash32 \<Rightarrow> u8 \<Rightarrow> bytes \<Rightarrow> bytes result" where
  "queued_leaf_init bump tree_index commitment payer ephemeral_pub encrypted_amount encrypted_token_id nullifier_debt d =
     (if length d \<noteq> QUEUED_LEAF_LEN then Inl InvalidAccountData
      else Inr (encode_queued_leaf
        \<lparr>ql_discriminator = QUEUED_LEAF_DISCRIMINATOR, ql_version = QUEUED_LEAF_VERSION, ql_bump = bump,
         ql_tree_index = tree_index, ql_commitment = commitment, ql_payer = payer, ql_ephemeral_pub = ephemeral_pub,
         ql_encrypted_amount = encrypted_amount, ql_encrypted_token_id = encrypted_token_id,
         ql_nullifier_debt = nullifier_debt\<rparr>))"

definition queued_leaf_validate :: "bytes \<Rightarrow> queued_leaf result" where
  "queued_leaf_validate d =
     (if length d \<noteq> QUEUED_LEAF_LEN \<or> d ! 0 \<noteq> QUEUED_LEAF_DISCRIMINATOR \<or> d ! 1 \<noteq> QUEUED_LEAF_VERSION
      then Inl InvalidAccountData else Inr (decode_queued_leaf d))"

section \<open>The tail is what the flags declare\<close>

text \<open>Consecutive slots from a start position: the first of each, where it has any, and the end.\<close>

fun slot_starts :: "nat \<Rightarrow> nat list \<Rightarrow> nat option list" where
  "slot_starts start [] = []"
| "slot_starts start (n # ns) = (if n = 0 then None else Some start) # slot_starts (start + n) ns"

definition tail_sizes :: "u8 \<Rightarrow> PolicyTail \<Rightarrow> nat \<Rightarrow> nat list" where
  "tail_sizes flags policy n_outputs =
     [of_bool (has_flag flags RELAYER), of_bool (has_flag flags FROZEN_SOURCE_TREE), policy_account_count policy,
      (if has_flag flags QUEUED_LEAVES then n_outputs else 0), of_bool (has_flag flags PROOF_IN_BUFFER)]"

lemma take_n_eq: "cursor \<le> account_count \<Longrightarrow> take_n account_count n cursor =
    (if cursor + n \<le> account_count then Inr (if n = 0 then None else Some cursor, cursor + n) else Inl NotEnoughAccountKeys)"
  by (simp add: take_n_def)

text \<open>
  The account tail of a spend: \<open>resolve_joinsplit_tail\<close> accepts a list exactly when its length
  is the declared one, neither short nor stuffed, and then the optional accounts are the
  consecutive slots in the documented order (relayer, frozen tree, policy accounts, queued leaves,
  proof buffer), so that the presence of one never moves an account into the slot of another kind.
\<close>

theorem joinsplit_tail_exact:
  assumes "tail_start \<le> account_count"
  shows "resolve_joinsplit_tail flags tail_start policy n_outputs account_count =
    (let sizes = tail_sizes flags policy n_outputs; at = slot_starts tail_start sizes in
     if account_count = tail_start + sum_list sizes
     then Inr \<lparr>jt_relayer = at ! 0, jt_source_tree = at ! 1, jt_policy_start = at ! 2,
               jt_queued_leaves_start = at ! 3, jt_proof_buffer = at ! 4\<rparr>
     else Inl NotEnoughAccountKeys)"
proof -
  define a b c e f where abc: "a = (of_bool (has_flag flags RELAYER) :: nat)" "b = (of_bool (has_flag flags FROZEN_SOURCE_TREE) :: nat)"
    "c = policy_account_count policy" "e = (if has_flag flags QUEUED_LEAVES then n_outputs else 0)"
    "f = (of_bool (has_flag flags PROOF_IN_BUFFER) :: nat)"
  have sizes: "tail_sizes flags policy n_outputs = [a, b, c, e, f]" by (simp add: tail_sizes_def abc)
  have "resolve_joinsplit_tail flags tail_start policy n_outputs account_count =
     bindE (take_n account_count a tail_start) (\<lambda>(relayer, c1).
     bindE (take_n account_count b c1) (\<lambda>(source_tree, c2).
     bindE (take_n account_count c c2) (\<lambda>(policy_start, c3).
     bindE (take_n account_count e c3) (\<lambda>(queued, c4).
     bindE (take_n account_count f c4) (\<lambda>(proof_buffer, c5).
     if c5 \<noteq> account_count then Inl NotEnoughAccountKeys
     else Inr \<lparr>jt_relayer = relayer, jt_source_tree = source_tree, jt_policy_start = policy_start,
               jt_queued_leaves_start = queued, jt_proof_buffer = proof_buffer\<rparr>)))))"
    by (simp add: resolve_joinsplit_tail_def abc of_bool_def)
  then show ?thesis using assms by (auto simp: sizes take_n_eq Let_def numeral_eq_Suc)
qed

lemma all_optional_flags: "has_flag 15 RELAYER" "has_flag 15 FROZEN_SOURCE_TREE" "has_flag 15 PROOF_IN_BUFFER" "\<not> has_flag 15 QUEUED_LEAVES"
  by (simp_all add: has_flag_def RELAYER_def FROZEN_SOURCE_TREE_def PROOF_IN_BUFFER_def QUEUED_LEAVES_def)

theorem joinsplit_tail_exact_witness:
  "resolve_joinsplit_tail 15 7 PolicyVerified 0 12 =
    Inr \<lparr>jt_relayer = Some 7, jt_source_tree = Some 8, jt_policy_start = Some 9, jt_queued_leaves_start = None,
         jt_proof_buffer = Some 11\<rparr>"
  using joinsplit_tail_exact [of 7 12 15 PolicyVerified 0]
  by (simp add: tail_sizes_def all_optional_flags policy_account_count_def)

section \<open>A nullifier is recorded once\<close>

definition nullifier_address :: "env \<Rightarrow> pubkey \<Rightarrow> u32 \<Rightarrow> hash32 \<Rightarrow> pubkey" where
  "nullifier_address E pool i n = fst (find_program_address E (nullifier_seeds pool i n))"

definition spent_at :: "store \<Rightarrow> pubkey \<Rightarrow> bool" where
  "spent_at s k \<longleftrightarrow> adata (s k) \<noteq> [] \<and> adata (s k) ! 0 = NULLIFIER_RECORD_DISCRIMINATOR"

definition nullifier_spent :: "env \<Rightarrow> store \<Rightarrow> pubkey \<Rightarrow> u32 \<Rightarrow> hash32 \<Rightarrow> bool" where
  "nullifier_spent E s pool i n = spent_at s (nullifier_address E pool i n)"

lemma spent_cong: "adata (s' k) = adata (s k) \<Longrightarrow> spent_at s' k = spent_at s k"
  by (simp add: spent_at_def)

lemma nullifier_record_ok:
  assumes spec: "system_program_spec E" and run: "nullifier_record E pool i payer n a s = Inr s'"
  shows "key a = nullifier_address E pool i n" and "\<not> spent_at s (key a)" and "spent_at s' (key a)"
    and "frame {key a} s s'" and "owner (s' (key a)) = program_id E"
proof -
  from run obtain s0 where k: "key a = nullifier_address E pool i n" and new: "\<not> spent_at s (key a)"
    and c: "create_or_claim_pda E payer (key a) (rt_minimum_balance E NULLIFIER_RECORD_LEN) (of_nat NULLIFIER_RECORD_LEN) s = Inr s0"
    and w: "write_front (key a) [NULLIFIER_RECORD_DISCRIMINATOR] s0 = Inr s'"
    unfolding nullifier_record_def receipt_init_def create_pda_account_def Let_def nullifier_address_def spent_at_def
    by (auto simp: run_simps)
  note W = claim_then_write [OF spec c w]
  from W(3) obtain r where "adata (s' (key a)) = NULLIFIER_RECORD_DISCRIMINATOR # r" by auto
  with k new W(1,2) show "key a = nullifier_address E pool i n" "\<not> spent_at s (key a)" "spent_at s' (key a)"
    "frame {key a} s s'" "owner (s' (key a)) = program_id E" by (simp_all add: spent_at_def)
qed

lemma nullifier_records_ok:
  assumes spec: "system_program_spec E"
  shows "nullifier_records E pool i payer ns as s = Inr s' \<Longrightarrow>
    length ns \<le> length as \<and> map key (take (length ns) as) = map (nullifier_address E pool i) ns \<and>
    distinct (map (nullifier_address E pool i) ns) \<and>
    (\<forall>n \<in> set ns. \<not> nullifier_spent E s pool i n \<and> nullifier_spent E s' pool i n) \<and>
    (\<forall>k. spent_at s k \<longrightarrow> spent_at s' k) \<and> frame (nullifier_address E pool i ` set ns) s s'"
proof (induction ns arbitrary: as s)
  case (Cons n ns)
  from Cons.prems obtain a as' s1 where as: "as = a # as'" and r: "nullifier_record E pool i payer n a s = Inr s1"
    and rest: "nullifier_records E pool i payer ns as' s1 = Inr s'"
    by (cases as) (auto simp: res_simps)
  note R = nullifier_record_ok [OF spec r] and IH = Cons.IH [OF rest]
  have keep: "spent_at s1 k" if "spent_at s k" for k
    using that R(2) frameD [OF R(4), of k] by (cases "k = key a") (auto simp: spent_at_def)
  have "nullifier_address E pool i n \<notin> nullifier_address E pool i ` set ns"
    using IH R(1,3) by (auto simp: nullifier_spent_def)
  moreover have "\<not> nullifier_spent E s pool i m" if "m \<in> set ns" for m
    using IH keep that by (auto simp: nullifier_spent_def)
  moreover have "frame (nullifier_address E pool i ` set (n # ns)) s s'"
    using IH R(1) by (intro frame_mono [OF frame_trans [OF R(4)]]) auto
  moreover have "\<not> nullifier_spent E s pool i n" "nullifier_spent E s' pool i n"
    using IH R(1-3) by (auto simp: nullifier_spent_def)
  moreover have "\<forall>k. spent_at s k \<longrightarrow> spent_at s' k" using IH keep by blast
  ultimately show ?case using IH R(1) by (simp add: as)
qed simp

text \<open>Derived addresses of different kinds differ: no collision of the derivation between the seeds in use.\<close>

definition PDA_KINDS :: "bytes list" where
  "PDA_KINDS = [POOL_STATE_SEED, TREE_SEED, NULLIFIER_SEED, QUEUED_LEAF_SEED]"

definition pda_kinds_separate :: "env \<Rightarrow> bool" where
  "pda_kinds_separate E \<longleftrightarrow>
     (\<forall>a \<in> set PDA_KINDS. \<forall>b \<in> set PDA_KINDS. a \<noteq> b \<longrightarrow>
        (\<forall>as bs. fst (find_program_address E (a # as)) \<noteq> fst (find_program_address E (b # bs))))"

lemma seeds_differ [simp]: "NULLIFIER_SEED \<noteq> POOL_STATE_SEED" "NULLIFIER_SEED \<noteq> TREE_SEED" "NULLIFIER_SEED \<noteq> QUEUED_LEAF_SEED"
    "QUEUED_LEAF_SEED \<noteq> POOL_STATE_SEED" "QUEUED_LEAF_SEED \<noteq> TREE_SEED" "TREE_SEED \<noteq> POOL_STATE_SEED"
  by (simp_all add: NULLIFIER_SEED_def POOL_STATE_SEED_def TREE_SEED_def QUEUED_LEAF_SEED_def ascii_def)

lemma kinds_apart:
  assumes "pda_kinds_separate E"
  shows "nullifier_address E pool i n \<noteq> fst (find_program_address E (POOL_STATE_SEED # bs))"
    and "nullifier_address E pool i n \<noteq> fst (find_program_address E (TREE_SEED # bs))"
    and "nullifier_address E pool i n \<noteq> fst (find_program_address E (QUEUED_LEAF_SEED # bs))"
    and "fst (find_program_address E (QUEUED_LEAF_SEED # as)) \<noteq> fst (find_program_address E (POOL_STATE_SEED # bs))"
    and "fst (find_program_address E (QUEUED_LEAF_SEED # as)) \<noteq> fst (find_program_address E (TREE_SEED # bs))"
    and "fst (find_program_address E (TREE_SEED # as)) \<noteq> fst (find_program_address E (POOL_STATE_SEED # bs))"
  using assms seeds_differ unfolding pda_kinds_separate_def nullifier_address_def nullifier_seeds_def
  by (auto simp: PDA_KINDS_def)

lemma pool_address: "pool_pda_ok E s k \<Longrightarrow> \<exists>bs. k = fst (find_program_address E (POOL_STATE_SEED # bs))"
  by (auto simp: pool_pda_ok_def) (metis fst_conv)

lemma create_nullifier_records_ok:
  assumes spec: "system_program_spec E" and kinds: "pda_kinds_separate E" and pda: "pool_pda_ok E s pool"
    and p: "pool_at s pool = Inr p"
    and run: "create_nullifier_records E accounts start ns pool i payer acc s = Inr s'"
  shows "distinct (map (nullifier_address E pool i) ns)"
    and "n \<in> set ns \<Longrightarrow> \<not> nullifier_spent E s pool i n \<and> nullifier_spent E s' pool i n"
    and "spent_at s k \<Longrightarrow> spent_at s' k"
    and "frame (insert pool (nullifier_address E pool i ` set ns)) s s'" and "owner (s' pool) = owner (s pool)"
    and "pool_at s' pool = Inr (if acc = ApplyNow then add_nullifiers (of_nat (length ns)) p else p)"
proof -
  obtain bs where pk: "pool = fst (find_program_address E (POOL_STATE_SEED # bs))" using pool_address [OF pda] by blast
  have out: "pool \<notin> nullifier_address E pool' i ` set ns" for pool' using kinds_apart(1) [OF kinds] unfolding pk by (metis imageE)
  from run obtain s1 where r: "nullifier_records E pool i payer ns (drop start accounts) s = Inr s1"
    and w: "(if acc = ApplyNow then bindE (pool_at s1 pool) (\<lambda>p.
          write_front pool (encode_pool_state (add_nullifiers (of_nat (length ns)) p)) s1) else Inr s1) = Inr s'"
    by (auto simp: create_nullifier_records_def run_simps)
  note R = nullifier_records_ok [OF spec r]
  have f1: "adata (s1 pool) = adata (s pool) \<and> owner (s1 pool) = owner (s pool)" using R out [of pool] by (intro frameD) auto
  have b1: "adata (s pool) ! 0 = 1" using p by (rule first_byte_at)
  have w': "frame {pool} s1 s' \<and> owner (s' pool) = owner (s1 pool) \<and>
      pool_at s' pool = Inr (if acc = ApplyNow then add_nullifiers (of_nat (length ns)) p else p)"
  proof (cases acc)
    case ApplyNow
    with w p f1 have wr: "write_front pool (encode_pool_state (add_nullifiers (of_nat (length ns)) p)) s1 = Inr s'"
      by (simp add: run_simps)
    have "ps_discriminator (add_nullifiers (of_nat (length ns)) p) = POOL_STATE_DISCRIMINATOR"
      using discriminator_at(1) [where s = s and k = pool and p = p] p by (simp add: add_nullifiers_def)
    note W = write_pool [OF wr this]
    show ?thesis using W(1) W(3) [of pool] frame_write [OF wr] ApplyNow by simp
  next
    case DeferToQueue
    with w p f1 show ?thesis by simp
  qed
  have keep: "spent_at s' k = spent_at s1 k" if "k \<noteq> pool" for k
    using w' that by (intro spent_cong) (simp add: frame_def)
  have np: "\<not> spent_at s pool" using b1 by (simp add: spent_at_def NULLIFIER_RECORD_DISCRIMINATOR_def)
  show "distinct (map (nullifier_address E pool i) ns)" using R by blast
  have "nullifier_address E pool i n \<noteq> pool" if "n \<in> set ns" for n using out [of pool] that by (metis image_eqI)
  then show "n \<in> set ns \<Longrightarrow> \<not> nullifier_spent E s pool i n \<and> nullifier_spent E s' pool i n"
    using R keep [of "nullifier_address E pool i n"] by (simp add: nullifier_spent_def)
  show "spent_at s k \<Longrightarrow> spent_at s' k" using R keep [of k] np by (cases "k = pool") auto
  show "frame (insert pool (nullifier_address E pool i ` set ns)) s s'"
    using frame_trans [of _ s s1 "{pool}" s'] R w' by (simp add: Un_commute)
  show "owner (s' pool) = owner (s pool)"
    "pool_at s' pool = Inr (if acc = ApplyNow then add_nullifiers (of_nat (length ns)) p else p)"
    using w' f1 by simp_all
qed

end
