(* ===== verification/UX_Transact.thy ===== *)
theory UX_Transact
  imports UX_Joinsplit
begin

text \<open>
  Private transfers: \<open>instructions/transact.rs\<close>, which places its outputs in the tree or queues
  them, and \<open>instructions/merge_queued_leaves.rs\<close>, which places queued outputs later. The handler
  is the composition of the steps below in the order of the code. The theorems say what a transfer
  checks and changes, that a nullifier is spent once whatever the order of instructions, and that
  queueing and merging leaves the pool and the tree as the inline transfer does.
\<close>

section \<open>Transact\<close>

definition CHAIN_ID :: "env \<Rightarrow> u64" where
  "CHAIN_ID E = (if mainnet_build E then 101 else 103)"

text \<open>Owners and writability; a queued transfer must not lock the shared accounts.\<close>

definition transact_accounts :: "env \<Rightarrow> account_info list \<Rightarrow> u8 \<Rightarrow> store \<Rightarrow> unit result" where
  "transact_accounts E accounts flags s =
     bindE (validate_program_owner E s (accounts ! 0)) (\<lambda>_.
     bindE (validate_program_owner E s (accounts ! 1)) (\<lambda>_.
     bindE (validate_program_owner E s (accounts ! 2)) (\<lambda>_.
     bindE (validate_system_program (accounts ! 4)) (\<lambda>_.
     if has_flag flags QUEUED_LEAVES
     then (if is_writable (accounts ! 0) \<or> is_writable (accounts ! 1) then Inl InvalidPDA else Inr ())
     else bindE (validate_account_writable (accounts ! 0)) (\<lambda>_. validate_account_writable (accounts ! 1))))))"

text \<open>The pool must be live, the tree its active one, and the proof bound to this pool and payload.\<close>

definition transact_pool :: "env \<Rightarrow> account_info list \<Rightarrow> bytes \<Rightarrow> joinsplit_prefix \<Rightarrow> store \<Rightarrow> pool_state result" where
  "transact_pool E accounts d p s =
     bindE (pool_state_from_bytes (adata (s (key (accounts ! 0))))) (\<lambda>pool.
     if is_paused pool then Inl PoolPaused
     else if permissioned pool \<and> auditor_is_frozen pool then Inl AuditorFrozen
     else
     bindE (validate_active_tree_pda E s (accounts ! 1) (accounts ! 0) (ps_active_tree_index pool)) (\<lambda>_.
     let stealth_data_hash = rt_sha256 E (bslice (jp_stealth_data_start p) (jp_stealth_data_end p - jp_stealth_data_start p) d);
         operation_hash = compute_bound_params_hash_private_transfer E (CHAIN_ID E) stealth_data_hash in
     bindE (bind_bound_params_to_domain E operation_hash (CHAIN_ID E) (program_id E) (key (accounts ! 0)) (permissioned pool)) (\<lambda>expected.
     if jp_bound_params_hash p \<noteq> expected then Inl InvalidBoundParams else Inr pool)))"

definition source_tree_account :: "env \<Rightarrow> account_info list \<Rightarrow> joinsplit_tail \<Rightarrow> store \<Rightarrow> account_info option result" where
  "source_tree_account E accounts tail s =
     (case jt_source_tree tail of
        None \<Rightarrow> Inr None
      | Some i \<Rightarrow>
          let a = accounts ! i in
          if key a = key (accounts ! 1) \<or> \<not> looks_like_commitment_tree E s a then Inl InvalidPDA else Inr (Some a))"

definition spend_payer :: "account_info list \<Rightarrow> nat \<Rightarrow> joinsplit_tail \<Rightarrow> account_info result" where
  "spend_payer accounts user tail =
     (case jt_relayer tail of
        Some i \<Rightarrow> if \<not> is_signer (accounts ! i) then Inl MissingRequiredSignature else Inr (accounts ! i)
      | None \<Rightarrow> if \<not> is_signer (accounts ! user) then Inl MissingRequiredSignature else Inr (accounts ! user))"

definition transact_policy :: "invoke \<Rightarrow> env \<Rightarrow> account_info list \<Rightarrow> pool_state \<Rightarrow> joinsplit_prefix \<Rightarrow> joinsplit_tail \<Rightarrow> store \<Rightarrow> store result" where
  "transact_policy I E accounts pool p tail s =
     bindE (resolve_spend_path (permissioned pool) (verified_pair tail \<noteq> None) (verified_pair tail \<noteq> None) TRANSACT_IX) (\<lambda>_.
     case verified_pair tail of
       Some (a, b) \<Rightarrow> consume_policy_approval I E (accounts ! a) (accounts ! b) (accounts ! 0) (key (accounts ! 3)) (ps_auditor pool)
         TRANSACT_IX [nullifiers_concat p] s
     | None \<Rightarrow> Inr s)"

text \<open>The outputs as accounts of their own; the first carries the nullifier count of the transfer.\<close>

definition queue_output :: "env \<Rightarrow> pubkey \<Rightarrow> u32 \<Rightarrow> pubkey \<Rightarrow> bytes \<Rightarrow> nat \<Rightarrow> u8 \<Rightarrow> hash32 \<Rightarrow> account_info \<Rightarrow> store \<Rightarrow> store result" where
  "queue_output E pool active_index payer d stealth_offset debt commitment leaf_info s =
     bindE (validate_account_writable leaf_info) (\<lambda>_.
     let k = key leaf_info; (expected, bump) = find_program_address E [QUEUED_LEAF_SEED, bytes32 pool, bytes32 commitment] in
     if k \<noteq> expected then Inl InvalidSeeds
     else
     bindE (create_pda_account E payer k (rt_minimum_balance E QUEUED_LEAF_LEN) (of_nat QUEUED_LEAF_LEN) 4 s) (\<lambda>s1.
     bindE (queued_leaf_init bump active_index commitment payer (from_le (bslice stealth_offset 32 d))
       (from_le (bslice (stealth_offset + 32) 8 d)) (from_le (bslice (stealth_offset + 40) 32 d)) debt (adata (s1 k))) (\<lambda>new.
     Inr (set_data k new s1))))"

fun queue_outputs :: "env \<Rightarrow> pubkey \<Rightarrow> u32 \<Rightarrow> pubkey \<Rightarrow> bytes \<Rightarrow> nat \<Rightarrow> u8 \<Rightarrow> hash32 list \<Rightarrow> account_info list \<Rightarrow> store \<Rightarrow> store result" where
  "queue_outputs E pool active_index payer d stealth_offset debt [] accounts s = Inr s"
| "queue_outputs E pool active_index payer d stealth_offset debt (c # cs) [] s = Inl Panic"
| "queue_outputs E pool active_index payer d stealth_offset debt (c # cs) (a # as) s =
     bindE (queue_output E pool active_index payer d stealth_offset debt c a s) (\<lambda>s1.
     queue_outputs E pool active_index payer d (stealth_offset + STEALTH_DATA_PER_OUTPUT) 0 cs as s1)"

definition place_outputs :: "env \<Rightarrow> pubkey \<Rightarrow> hash32 list \<Rightarrow> store \<Rightarrow> store result" where
  "place_outputs E tree_key commitments s =
     bindE (commitment_tree_from_bytes (adata (s tree_key))) (\<lambda>tree.
     if length commitments > 0
     then bindE (insert_leaves_batch E commitments tree) (\<lambda>(first_leaf_index, tree').
          write_front tree_key (encode_commitment_tree tree') s)
     else Inr s)"

definition transact_outputs :: "env \<Rightarrow> account_info list \<Rightarrow> bytes \<Rightarrow> joinsplit_header \<Rightarrow> joinsplit_prefix \<Rightarrow> joinsplit_tail \<Rightarrow> u32 \<Rightarrow>
    pubkey \<Rightarrow> store \<Rightarrow> store result" where
  "transact_outputs E accounts d h p tail active_index payer s =
     (if has_flag (jh_flags h) QUEUED_LEAVES
      then bindE (ok_or (jt_queued_leaves_start tail) NotEnoughAccountKeys) (\<lambda>start.
           queue_outputs E (key (accounts ! 0)) active_index payer d (jp_stealth_data_start p) (of_nat (jh_n_inputs h))
             (jp_commitments_out p) (drop start accounts) s)
      else place_outputs E (key (accounts ! 1)) (jp_commitments_out p) s)"

definition transact_tail :: "account_info list \<Rightarrow> joinsplit_header \<Rightarrow> pool_state \<Rightarrow> joinsplit_tail result" where
  "transact_tail accounts h pool =
     bindE (policy_tail_from_flags (jh_flags h) (permissioned pool) 0) (\<lambda>policy_tail.
     case policy_tail of
       PolicyRagequit _ \<Rightarrow> Inl InvalidInstructionData
     | _ \<Rightarrow> resolve_joinsplit_tail (jh_flags h) (5 + jh_n_inputs h) policy_tail (jh_n_outputs h) (length accounts))"

definition process_transact :: "invoke \<Rightarrow> bn254 \<Rightarrow> env \<Rightarrow> account_info list \<Rightarrow> bytes \<Rightarrow> store \<Rightarrow> store result" where
  "process_transact I G E accounts d s =
     bindE (parse_header d) (\<lambda>h.
     bindE (validate_public_outputs h True) (\<lambda>_.
     bindE (validate_account_count (length accounts) (5 + jh_n_inputs h) (jh_flags h AND PROOF_IN_BUFFER)) (\<lambda>_.
     bindE (parse_prefix E s d accounts h (jh_n_outputs h)) (\<lambda>p.
     if length d \<noteq> jp_stealth_data_end p then Inl InvalidInstructionData
     else
     bindE (transact_accounts E accounts (jh_flags h) s) (\<lambda>_.
     bindE (transact_pool E accounts d p s) (\<lambda>pool.
     bindE (transact_tail accounts h pool) (\<lambda>tail.
     bindE (source_tree_account E accounts tail s) (\<lambda>source_tree.
     bindE (spend_payer accounts 3 tail) (\<lambda>payer.
     bindE (transact_policy I E accounts pool p tail s) (\<lambda>s1.
     bindE (verify_vk_merkle_and_proof G E s1 (accounts ! 0) (accounts ! 2) (accounts ! 1) (ps_active_tree_index pool) source_tree h p)
       (\<lambda>source_tree_index.
     bindE (create_nullifier_records E accounts 5 (jp_nullifiers p) (key (accounts ! 0)) source_tree_index (key payer)
       (if has_flag (jh_flags h) QUEUED_LEAVES then DeferToQueue else ApplyNow) s1) (\<lambda>s2.
     transact_outputs E accounts d h p tail (ps_active_tree_index pool) (key payer) s2))))))))))))"

section \<open>Merging queued leaves\<close>

definition MERGE_FIXED_ACCOUNTS :: nat where "MERGE_FIXED_ACCOUNTS = 3"
definition MAX_MERGE_LEAVES :: nat where "MAX_MERGE_LEAVES = 24"

text \<open>Accounts after the fixed ones: pairs of a leaf and its rent recipient.\<close>

fun account_pairs :: "account_info list \<Rightarrow> (account_info \<times> account_info) list" where
  "account_pairs (a # b # as) = (a, b) # account_pairs as"
| "account_pairs _ = []"

definition check_leaf :: "env \<Rightarrow> store \<Rightarrow> pubkey \<Rightarrow> u32 \<Rightarrow> pubkey list \<Rightarrow> account_info \<times> account_info \<Rightarrow> queued_leaf result" where
  "check_leaf E s pool active_tree_index prior pair =
     (let (leaf_info, rent_recipient) = pair in
      bindE (validate_program_owner E s leaf_info) (\<lambda>_.
      bindE (validate_account_writable leaf_info) (\<lambda>_.
      bindE (validate_account_writable rent_recipient) (\<lambda>_.
      bindE (queued_leaf_validate (adata (s (key leaf_info)))) (\<lambda>q.
      if ql_tree_index q \<noteq> active_tree_index then Inl InvalidPDA
      else if key leaf_info \<noteq> fst (find_program_address E [QUEUED_LEAF_SEED, bytes32 pool, bytes32 (ql_commitment q)]) then Inl InvalidSeeds
      else if key rent_recipient \<noteq> ql_payer q then Inl InvalidPDA
      else if key leaf_info \<in> set prior then Inl NullifierAlreadyUsed
      else Inr q)))))"

fun check_leaves :: "env \<Rightarrow> store \<Rightarrow> pubkey \<Rightarrow> u32 \<Rightarrow> pubkey list \<Rightarrow> (account_info \<times> account_info) list \<Rightarrow> queued_leaf list result" where
  "check_leaves E s pool active_tree_index prior [] = Inr []"
| "check_leaves E s pool active_tree_index prior (pair # pairs) =
     bindE (check_leaf E s pool active_tree_index prior pair) (\<lambda>q.
     bindE (check_leaves E s pool active_tree_index (prior @ [key (fst pair)]) pairs) (\<lambda>qs. Inr (q # qs)))"

fun close_leaves :: "(account_info \<times> account_info) list \<Rightarrow> store \<Rightarrow> store result" where
  "close_leaves [] s = Inr s"
| "close_leaves ((leaf_info, rent_recipient) # pairs) s =
     bindE (close_account_securely (key leaf_info) (key rent_recipient) s) (\<lambda>s1. close_leaves pairs s1)"

text \<open>The sum is a \<open>u32\<close>; at most 24 bytes are added, so it does not overflow.\<close>

definition total_debt :: "queued_leaf list \<Rightarrow> u32" where
  "total_debt qs = sum_list (map (\<lambda>q. ucast (ql_nullifier_debt q)) qs)"

definition settle_debt :: "pubkey \<Rightarrow> u32 \<Rightarrow> store \<Rightarrow> store result" where
  "settle_debt pool debt s =
     (if debt > 0
      then bindE (pool_state_from_bytes (adata (s pool))) (\<lambda>p. write_front pool (encode_pool_state (add_nullifiers debt p)) s)
      else Inr s)"

definition process_merge_queued_leaves :: "env \<Rightarrow> account_info list \<Rightarrow> bytes \<Rightarrow> store \<Rightarrow> store result" where
  "process_merge_queued_leaves E accounts d s =
     (if length accounts < MERGE_FIXED_ACCOUNTS + 2 then Inl NotEnoughAccountKeys
      else let tail = length accounts - MERGE_FIXED_ACCOUNTS in
      if tail mod 2 \<noteq> 0 then Inl NotEnoughAccountKeys
      else if tail div 2 > MAX_MERGE_LEAVES then Inl ExcessiveReservedInputs
      else let pk = key (accounts ! 1); tk = key (accounts ! 2); pairs = account_pairs (drop MERGE_FIXED_ACCOUNTS accounts) in
      if \<not> is_signer (accounts ! 0) then Inl MissingRequiredSignature
      else
      bindE (validate_program_owner E s (accounts ! 1)) (\<lambda>_.
      bindE (validate_program_owner E s (accounts ! 2)) (\<lambda>_.
      bindE (validate_account_writable (accounts ! 1)) (\<lambda>_.
      bindE (validate_account_writable (accounts ! 2)) (\<lambda>_.
      bindE (pool_state_from_bytes (adata (s pk))) (\<lambda>pool.
      if is_paused pool then Inl PoolPaused
      else
      bindE (validate_active_tree_pda E s (accounts ! 2) (accounts ! 1) (ps_active_tree_index pool)) (\<lambda>_.
      bindE (check_leaves E s pk (ps_active_tree_index pool) [] pairs) (\<lambda>qs.
      bindE (commitment_tree_from_bytes (adata (s tk))) (\<lambda>tree.
      bindE (insert_leaves_batch E (map ql_commitment qs) tree) (\<lambda>(first_leaf_index, tree').
      bindE (write_front tk (encode_commitment_tree tree') s) (\<lambda>s1.
      bindE (settle_debt pk (total_debt qs) s1) (\<lambda>s2.
      close_leaves pairs s2))))))))))))"

section \<open>The policy step\<close>

text \<open>The policy program runs as deployed, and calls reach it.\<close>

definition policy_world :: "rollups \<Rightarrow> env \<Rightarrow> invoke \<Rightarrow> bool" where
  "policy_world R E I \<longleftrightarrow> policy_runtime R E I \<and> program_id E = ASSET_PROGRAM_ID \<and> take 1 (rl_undelegate_discriminator R) \<noteq> [39]"

text \<open>A store after an optional consumption of an approval: program accounts and first bytes are as before.\<close>

definition approval_only :: "env \<Rightarrow> store \<Rightarrow> store \<Rightarrow> bool" where
  "approval_only E s s1 \<longleftrightarrow> s1 = s \<or>
     (\<exists>ak. owner (s ak) = POLICY_PROGRAM_ID \<and> s1 = set_policy_status ak POLICY_STATUS_CONSUMED s)"

lemma approval_only_keeps:
  assumes "approval_only E s s1" and "program_id E = ASSET_PROGRAM_ID"
  shows "owner (s k) = program_id E \<Longrightarrow> s1 k = s k" and "spent_at s1 k = spent_at s k" and "owner (s1 k) = owner (s k)"
  using assms policy_asset_ids
  by (auto simp: approval_only_def set_policy_status_def set_data_def spent_at_def nth_list_update split: if_splits)

lemma consume_approval_only:
  assumes w: "policy_world R E I" and p: "pool_at s (key pool_info) = Inr pool" "permissioned pool" "\<not> auditor_is_frozen pool"
    and run: "consume_policy_approval I E a b pool_info actor (ps_auditor pool) action parts s = Inr s1"
  shows "approval_only E s s1 \<and> approval_grants E s (key a) (key pool_info) actor (ps_auditor pool) action parts \<and>
    s1 = set_policy_status (key a) POLICY_STATUS_CONSUMED s"
proof -
  from w have W: "policy_runtime R E I" "program_id E = ASSET_PROGRAM_ID" "take 1 (rl_undelegate_discriminator R) \<noteq> [39]"
    by (simp_all add: policy_world_def)
  from run have "approval_grants E s (key a) (key pool_info) actor (ps_auditor pool) action parts"
    "s1 = set_policy_status (key a) POLICY_STATUS_CONSUMED s"
    by (simp_all add: consume_agrees [OF W, where s = s and pool_info = pool_info and p = pool, OF p])
  then show ?thesis by (auto simp: approval_only_def approval_grants_def)
qed

section \<open>Queueing\<close>

definition leaf_address :: "env \<Rightarrow> pubkey \<Rightarrow> hash32 \<Rightarrow> pubkey" where
  "leaf_address E pool c = fst (find_program_address E [QUEUED_LEAF_SEED, bytes32 pool, bytes32 c])"

lemma length_encode_queued_leaf [simp]: "length (encode_queued_leaf q) = QUEUED_LEAF_LEN"
  by (simp add: encode_queued_leaf_def QUEUED_LEAF_LEN_def)

interpretation qll: account_layout QUEUED_LEAF_LEN QUEUED_LEAF_DISCRIMINATOR ql_discriminator encode_queued_leaf decode_queued_leaf
  by unfold_locales (simp_all add: encode_queued_leaf_def decode_queued_leaf_def QUEUED_LEAF_LEN_def ux_layout_simps)

lemma queued_leaf_validate_encode:
  "ql_discriminator q = QUEUED_LEAF_DISCRIMINATOR \<Longrightarrow> ql_version q = QUEUED_LEAF_VERSION \<Longrightarrow>
    queued_leaf_validate (encode_queued_leaf q) = Inr q"
proof -
  assume q: "ql_discriminator q = QUEUED_LEAF_DISCRIMINATOR" "ql_version q = QUEUED_LEAF_VERSION"
  have "encode_queued_leaf q ! 0 = ql_discriminator q" "encode_queued_leaf q ! 1 = ql_version q"
    by (simp_all add: encode_queued_leaf_def byte1_def)
  with q qll.decode_encode [of q "[]"] show ?thesis by (simp add: queued_leaf_validate_def)
qed

lemma validate_first_byte: "queued_leaf_validate d = Inr q \<Longrightarrow> d \<noteq> [] \<and> d ! 0 = 0x16 \<and> length d = 144"
  by (auto simp: queued_leaf_validate_def QUEUED_LEAF_DISCRIMINATOR_def QUEUED_LEAF_LEN_def split: if_splits)

lemma queue_output_ok:
  assumes spec: "system_program_spec E" and run: "queue_output E pool i payer d off debt c a s = Inr s'"
  shows "key a = leaf_address E pool c" and "frame {key a} s s'" and "owner (s' (key a)) = program_id E"
    and "\<exists>q. queued_leaf_validate (adata (s' (key a))) = Inr q \<and> ql_commitment q = c \<and> ql_tree_index q = i \<and>
      ql_payer q = payer \<and> ql_nullifier_debt q = debt"
proof -
  from run obtain bump s1 new where k: "find_program_address E [QUEUED_LEAF_SEED, bytes32 pool, bytes32 c] = (key a, bump)"
    and cr: "create_or_claim_pda E payer (key a) (rt_minimum_balance E QUEUED_LEAF_LEN) (of_nat QUEUED_LEAF_LEN) s = Inr s1"
    and new: "queued_leaf_init bump i c payer (from_le (bslice off 32 d)) (from_le (bslice (off + 32) 8 d))
        (from_le (bslice (off + 40) 32 d)) debt (adata (s1 (key a))) = Inr new"
    and s': "s' = set_data (key a) new s1"
    by (auto simp: queue_output_def create_pda_account_def Let_def run_simps split: prod.splits)
  note C = create_or_claim_pda_ok [OF spec cr]
  show "key a = leaf_address E pool c" by (simp add: leaf_address_def k)
  show "frame {key a} s s'" using frame_trans [OF C(3) frame_set_data [of "key a" s1 new]] by (simp add: s')
  show "owner (s' (key a)) = program_id E" using C(1) by (simp add: s')
  from new have "new = encode_queued_leaf
        \<lparr>ql_discriminator = QUEUED_LEAF_DISCRIMINATOR, ql_version = QUEUED_LEAF_VERSION, ql_bump = bump,
         ql_tree_index = i, ql_commitment = c, ql_payer = payer, ql_ephemeral_pub = from_le (bslice off 32 d),
         ql_encrypted_amount = from_le (bslice (off + 32) 8 d), ql_encrypted_token_id = from_le (bslice (off + 40) 32 d),
         ql_nullifier_debt = debt\<rparr>"
    by (simp add: queued_leaf_init_def split: if_splits)
  then show "\<exists>q. queued_leaf_validate (adata (s' (key a))) = Inr q \<and> ql_commitment q = c \<and> ql_tree_index q = i \<and>
      ql_payer q = payer \<and> ql_nullifier_debt q = debt"
    by (simp add: s' queued_leaf_validate_encode)
qed

text \<open>What is found at the addresses of queued outputs: the first carries the debt.\<close>

definition leaf_holds :: "env \<Rightarrow> store \<Rightarrow> pubkey \<Rightarrow> u32 \<Rightarrow> pubkey \<Rightarrow> hash32 \<Rightarrow> u8 \<Rightarrow> bool" where
  "leaf_holds E s pool i payer c debt \<longleftrightarrow> owner (s (leaf_address E pool c)) = program_id E \<and>
     (\<exists>q. queued_leaf_validate (adata (s (leaf_address E pool c))) = Inr q \<and> ql_commitment q = c \<and> ql_tree_index q = i \<and>
      ql_payer q = payer \<and> ql_nullifier_debt q = debt)"

lemma queue_outputs_ok:
  assumes spec: "system_program_spec E"
  shows "queue_outputs E pool i payer d off debt cs as s = Inr s' \<Longrightarrow>
    map key (take (length cs) as) = map (leaf_address E pool) cs \<and> frame (leaf_address E pool ` set cs) s s' \<and>
    (distinct (map (leaf_address E pool) cs) \<longrightarrow>
       (\<forall>j < length cs. leaf_holds E s' pool i payer (cs ! j) (if j = 0 then debt else 0)))"
proof (induction cs arbitrary: as s off debt)
  case (Cons c cs)
  from Cons.prems obtain a as' s1 where as: "as = a # as'" and q: "queue_output E pool i payer d off debt c a s = Inr s1"
    and rest: "queue_outputs E pool i payer d (off + STEALTH_DATA_PER_OUTPUT) 0 cs as' s1 = Inr s'"
    by (cases as) (auto simp: res_simps)
  note Q = queue_output_ok [OF spec q] and IH = Cons.IH [OF rest]
  have f: "frame (leaf_address E pool ` set (c # cs)) s s'" using IH Q(1) by (intro frame_mono [OF frame_trans [OF Q(2)]]) auto
  have "leaf_holds E s' pool i payer ((c # cs) ! j) (if j = 0 then debt else 0)"
    if dist: "distinct (map (leaf_address E pool) (c # cs))" and j: "j < length (c # cs)" for j
  proof (cases j)
    case 0
    have "adata (s' (leaf_address E pool c)) = adata (s1 (leaf_address E pool c)) \<and>
        owner (s' (leaf_address E pool c)) = owner (s1 (leaf_address E pool c))"
      using IH dist by (intro frameD [of "leaf_address E pool ` set cs"]) auto
    with 0 Q show ?thesis by (simp add: leaf_holds_def)
  next
    case (Suc m)
    with IH dist j show ?thesis by simp
  qed
  with f IH Q(1) show ?case by (simp add: as)
qed simp


section \<open>What a transfer checks and changes\<close>

lemma transact_run:
  assumes "process_transact I G E accounts d s = Inr s'"
  shows "\<exists>h p pool tail src payer s1 i s2. parse_header d = Inr h \<and> jh_n_public_outputs h = 0 \<and>
    5 + jh_n_inputs h \<le> length accounts \<and> parse_prefix E s d accounts h (jh_n_outputs h) = Inr p \<and>
    length d = jp_stealth_data_end p \<and> transact_accounts E accounts (jh_flags h) s = Inr () \<and>
    transact_pool E accounts d p s = Inr pool \<and> transact_tail accounts h pool = Inr tail \<and>
    source_tree_account E accounts tail s = Inr src \<and> spend_payer accounts 3 tail = Inr payer \<and>
    transact_policy I E accounts pool p tail s = Inr s1 \<and>
    verify_vk_merkle_and_proof G E s1 (accounts ! 0) (accounts ! 2) (accounts ! 1) (ps_active_tree_index pool) src h p = Inr i \<and>
    create_nullifier_records E accounts 5 (jp_nullifiers p) (key (accounts ! 0)) i (key payer)
       (if has_flag (jh_flags h) QUEUED_LEAVES then DeferToQueue else ApplyNow) s1 = Inr s2 \<and>
    transact_outputs E accounts d h p tail (ps_active_tree_index pool) (key payer) s2 = Inr s'"
proof -
  have count: "n \<le> length accounts" if "validate_account_count (length accounts) n f = Inr ()" for n f
    using that by (auto simp: validate_account_count_def run_simps split: if_splits)
  have none: "validate_public_outputs h True = Inr u \<Longrightarrow> jh_n_public_outputs h = 0" for h u
    by (simp add: validate_public_outputs_def run_simps)
  have "process_transact I G E accounts d s = Inr s'" by (rule assms(1))
  then show ?thesis
    unfolding process_transact_def
    apply (simp only: run_simps)
    apply (elim exE conjE)
    apply (intro exI conjI; (assumption | erule none | simp add: count))
    done
qed

lemma read_fields_length: "read_fields d off n = Inr xs \<Longrightarrow> length xs = n"
  by (induction d off n arbitrary: xs rule: read_fields.induct) (auto simp: Let_def res_simps split: if_splits)

lemma parse_prefix_lengths:
  assumes "parse_prefix E s d accounts h n = Inr p"
  shows "length (jp_nullifiers p) = jh_n_inputs h" and "length (jp_commitments_out p) = jh_n_outputs h"
  using assms by (auto simp: parse_prefix_def Let_def res_simps split: if_splits dest!: read_fields_length)

lemma transact_tail_policy:
  assumes "transact_tail accounts h pool = Inr tail"
  shows "verified_pair tail \<noteq> None \<longleftrightarrow> permissioned pool"
  using assms
  by (auto simp: transact_tail_def policy_tail_from_flags_def resolve_joinsplit_tail_def take_n_def policy_account_count_def
      verified_pair_def run_simps split: if_splits bool.splits PolicyTail.splits)

lemma transact_policy_ok:
  assumes w: "policy_world R E I" and pool: "transact_pool E accounts d p s = Inr pool"
    and tail: "transact_tail accounts h pool = Inr tail" and run: "transact_policy I E accounts pool p tail s = Inr s1"
  shows "approval_only E s s1" and "\<not> permissioned pool \<Longrightarrow> s1 = s"
    and "permissioned pool \<Longrightarrow> \<exists>ak. approval_grants E s ak (key (accounts ! 0)) (key (accounts ! 3)) (ps_auditor pool) TRANSACT_IX
       [nullifiers_concat p] \<and> s1 = set_policy_status ak POLICY_STATUS_CONSUMED s"
proof -
  from pool have P: "pool_at s (key (accounts ! 0)) = Inr pool" "permissioned pool \<Longrightarrow> \<not> auditor_is_frozen pool"
    by (auto simp: transact_pool_def run_simps Let_def)
  have "approval_only E s s1 \<and> (\<not> permissioned pool \<longrightarrow> s1 = s) \<and>
    (permissioned pool \<longrightarrow> (\<exists>ak. approval_grants E s ak (key (accounts ! 0)) (key (accounts ! 3)) (ps_auditor pool) TRANSACT_IX
       [nullifiers_concat p] \<and> s1 = set_policy_status ak POLICY_STATUS_CONSUMED s))"
  proof (cases "verified_pair tail")
    case None
    with run transact_tail_policy [OF tail] show ?thesis by (auto simp: transact_policy_def run_simps approval_only_def)
  next
    case (Some ab)
    obtain a b where ab: "ab = (a, b)" by (cases ab)
    have perm: "permissioned pool" using transact_tail_policy [OF tail] Some by simp
    have "consume_policy_approval I E (accounts ! a) (accounts ! b) (accounts ! 0) (key (accounts ! 3)) (ps_auditor pool)
         TRANSACT_IX [nullifiers_concat p] s = Inr s1"
      using run by (simp add: transact_policy_def run_simps Some ab)
    from consume_approval_only [OF w, where s = s and pool_info = "accounts ! 0" and pool = pool, OF P(1) perm P(2) [OF perm] this] perm
    show ?thesis by blast
  qed
  then show "approval_only E s s1" "\<not> permissioned pool \<Longrightarrow> s1 = s"
    "permissioned pool \<Longrightarrow> \<exists>ak. approval_grants E s ak (key (accounts ! 0)) (key (accounts ! 3)) (ps_auditor pool) TRANSACT_IX
       [nullifiers_concat p] \<and> s1 = set_policy_status ak POLICY_STATUS_CONSUMED s" by blast+
qed

lemma insert_leaves_batch_valid:
  assumes "insert_leaves_batch E cs t = Inr (i, t')" and "tree_valid t"
  shows "tree_valid t' \<and> ct_discriminator t' = ct_discriminator t"
proof -
  have step: "tree_valid u \<Longrightarrow> append_leaves E cs r u = Inr (r', u') \<Longrightarrow> tree_valid u' \<and> ct_discriminator u' = ct_discriminator u"
    for r r' u u'
  proof (induction cs arbitrary: r u)
    case (Cons c cs)
    from Cons.prems(2) obtain r1 j u1 where a: "append_leaf E c u = Inr (r1, j, u1)" and rest: "append_leaves E cs r1 u1 = Inr (r', u')"
      by (auto simp: res_simps)
    have "tree_valid u1 \<and> ct_discriminator u1 = ct_discriminator u"
      using a Cons.prems(1) by (auto simp: append_leaf_def Let_def tree_valid_def res_simps dest!: length_append_walk split: if_splits)
    with Cons.IH [OF _ rest] show ?case by simp
  qed simp
  from assms show ?thesis
    by (auto simp: insert_leaves_batch_def res_simps update_root_def Let_def tree_valid_def split: if_splits dest!: step [rotated])
qed

lemma tree_at_valid: "commitment_tree_from_bytes d = Inr t \<Longrightarrow> tree_valid t \<and> ct_discriminator t = COMMITMENT_TREE_DISCRIMINATOR"
proof -
  assume t: "commitment_tree_from_bytes d = Inr t"
  then have "tree_valid t" using ctl.from_bytes_valid by (simp add: commitment_tree_from_bytes_def)
  moreover have "ct_discriminator t = COMMITMENT_TREE_DISCRIMINATOR"
    using t by (auto simp: commitment_tree_from_bytes_def layout_from_bytes_def decode_commitment_tree_def byte_at_def split: if_splits)
  ultimately show ?thesis by simp
qed

lemma write_tree:
  assumes t: "tree_at s k = Inr t" and b: "insert_leaves_batch E cs t = Inr (i, t')"
    and w: "write_front k (encode_commitment_tree t') s0 = Inr s'"
  shows "tree_at s' k = Inr t'"
proof -
  have "tree_valid t' \<and> ct_discriminator t' = COMMITMENT_TREE_DISCRIMINATOR"
    using insert_leaves_batch_valid [OF b] tree_at_valid [OF t] by simp
  with ctl.from_bytes_after_write [OF w] show ?thesis by (simp add: commitment_tree_from_bytes_def)
qed

lemma place_outputs_ok:
  assumes "place_outputs E tk cs s = Inr s'" and "cs \<noteq> []"
  shows "\<exists>t i t'. tree_at s tk = Inr t \<and> insert_leaves_batch E cs t = Inr (i, t') \<and> tree_at s' tk = Inr t'"
    and "frame {tk} s s'"
proof -
  from assms obtain t i t' where t: "tree_at s tk = Inr t" and b: "insert_leaves_batch E cs t = Inr (i, t')"
    and w: "write_front tk (encode_commitment_tree t') s = Inr s'"
    by (auto simp: place_outputs_def run_simps)
  have "tree_at s' tk = Inr t'" by (rule write_tree [where s = s and k = tk, OF t b w])
  with t b show "\<exists>t i t'. tree_at s tk = Inr t \<and> insert_leaves_batch E cs t = Inr (i, t') \<and> tree_at s' tk = Inr t'" by blast
  show "frame {tk} s s'" using w by (rule frame_write)
qed


definition tree_address :: "env \<Rightarrow> pubkey \<Rightarrow> u32 \<Rightarrow> pubkey" where
  "tree_address E pool i = fst (find_program_address E [TREE_SEED, bytes32 pool, bytes4 i])"

text \<open>
  What authorises a spend of notes of tree \<open>i\<close>: the root is a recent one of that tree of the
  pool, active or frozen, and the registered key of this size accepts the proof for exactly this
  root, binding hash, nullifiers and commitments.
\<close>

definition spend_authorised :: "bn254 \<Rightarrow> env \<Rightarrow> store \<Rightarrow> pubkey \<Rightarrow> pubkey \<Rightarrow> joinsplit_header \<Rightarrow> joinsplit_prefix \<Rightarrow> pool_state \<Rightarrow> u32 \<Rightarrow> bool" where
  "spend_authorised G E s pk vkk h p pool i \<longleftrightarrow>
     (\<exists>t. tree_at s (tree_address E pk i) = Inr t \<and> owner (s (tree_address E pk i)) = program_id E \<and>
        i \<le> ps_active_tree_index pool \<and> is_valid_root (jp_merkle_root p) t) \<and>
     (\<exists>vk ic. vkk = fst (vk_registry_address E (of_nat (jh_n_inputs h)) (of_nat (jh_n_outputs h))) \<and>
        owner (s vkk) = program_id E \<and> vk_at s vkk = Inr vk \<and> get_ic vk = Inr ic \<and>
        verify_groth16_joinsplit_proof G (jp_proof_bytes p)
          (jp_merkle_root p # jp_bound_params_hash p # jp_nullifiers p @ jp_commitments_out p) (get_delta_g2 vk) ic = Inr ())"

lemma source_tree_ok:
  assumes run: "source_tree_of E s pool_info tree_info active src root = Inr i"
    and tree: "key tree_info = tree_address E (key pool_info) active" "owner (s (key tree_info)) = program_id E"
  shows "\<exists>t. tree_at s (tree_address E (key pool_info) i) = Inr t \<and> owner (s (tree_address E (key pool_info) i)) = program_id E \<and>
    i \<le> active \<and> is_valid_root root t"
proof -
  from run obtain t where t: "tree_at s (key tree_info) = Inr t" by (auto simp: source_tree_of_def run_simps)
  show ?thesis
  proof (cases "is_valid_root root t")
    case True
    with run t have "i = active" by (simp add: source_tree_of_def)
    with t True tree show ?thesis by auto
  next
    case False
    with run t obtain a t' where f: "validate_frozen_tree E s a pool_info active root = Inr True"
      and t': "tree_at s (key a) = Inr t'" "i = ct_tree_index t'"
      by (cases src) (auto simp: source_tree_of_def run_simps)
    from f t' have "owner (s (key a)) = program_id E" "i < active" "key a = tree_address E (key pool_info) i" "is_valid_root root t'"
      by (auto simp: validate_frozen_tree_def run_simps Let_def tree_address_def split: if_splits)
    with t'(1) show ?thesis by (auto intro: less_imp_le)
  qed
qed

lemma verify_ok:
  assumes run: "verify_vk_merkle_and_proof G E s pool_info vk_info tree_info (ps_active_tree_index pool) src h p = Inr i"
    and tree: "key tree_info = tree_address E (key pool_info) (ps_active_tree_index pool)" "owner (s (key tree_info)) = program_id E"
    and vk: "owner (s (key vk_info)) = program_id E"
  shows "spend_authorised G E s (key pool_info) (key vk_info) h p pool i"
proof -
  from run obtain v ic where src: "source_tree_of E s pool_info tree_info (ps_active_tree_index pool) src (jp_merkle_root p) = Inr i"
    and v: "key vk_info = fst (vk_registry_address E (of_nat (jh_n_inputs h)) (of_nat (jh_n_outputs h)))"
      "vk_at s (key vk_info) = Inr v" "get_ic v = Inr ic"
      "verify_groth16_joinsplit_proof G (jp_proof_bytes p) (joinsplit_public_inputs p) (get_delta_g2 v) ic = Inr ()"
    by (auto simp: verify_vk_merkle_and_proof_def run_simps Let_def)
  from source_tree_ok [OF src tree] v vk show ?thesis
    unfolding spend_authorised_def joinsplit_public_inputs_def by blast
qed

lemma spend_authorised_before:
  assumes "approval_only E s s1" and "program_id E = ASSET_PROGRAM_ID" and "spend_authorised G E s1 pk vkk h p pool i"
  shows "spend_authorised G E s pk vkk h p pool i"
proof -
  note K = approval_only_keeps [OF assms(1,2)]
  have "s1 k = s k" if "owner (s1 k) = program_id E" for k using K(1,3) that by metis
  with assms(3) show ?thesis unfolding spend_authorised_def by metis
qed

definition stealth_hash :: "env \<Rightarrow> bytes \<Rightarrow> joinsplit_prefix \<Rightarrow> hash32" where
  "stealth_hash E d p = rt_sha256 E (bslice (jp_stealth_data_start p) (jp_stealth_data_end p - jp_stealth_data_start p) d)"

definition transferred :: "bn254 \<Rightarrow> env \<Rightarrow> account_info list \<Rightarrow> bytes \<Rightarrow> joinsplit_header \<Rightarrow> joinsplit_prefix \<Rightarrow> pool_state \<Rightarrow> u32 \<Rightarrow>
    pubkey \<Rightarrow> store \<Rightarrow> store \<Rightarrow> bool" where
  "transferred G E accounts d h p pool i payer s s' \<longleftrightarrow>
     (let pk = key (accounts ! 0); tk = key (accounts ! 1); ns = jp_nullifiers p; cs = jp_commitments_out p in
      pool_at s pk = Inr pool \<and> pool_pda_ok E s pk \<and> \<not> is_paused pool \<and> tk = tree_address E pk (ps_active_tree_index pool) \<and>
      bind_bound_params_to_domain E (compute_bound_params_hash_private_transfer E (CHAIN_ID E) (stealth_hash E d p))
        (CHAIN_ID E) (program_id E) pk (permissioned pool) = Inr (jp_bound_params_hash p) \<and>
      spend_authorised G E s pk (key (accounts ! 2)) h p pool i \<and>
      (permissioned pool \<longrightarrow> (\<exists>ak. approval_grants E s ak pk (key (accounts ! 3)) (ps_auditor pool) TRANSACT_IX [concat (map bytes32 ns)])) \<and>
      length ns = jh_n_inputs h \<and> length cs = jh_n_outputs h \<and> distinct (map (nullifier_address E pk i) ns) \<and>
      (\<forall>n \<in> set ns. \<not> nullifier_spent E s pk i n \<and> nullifier_spent E s' pk i n) \<and>
      (\<forall>q j n. nullifier_spent E s q j n \<longrightarrow> nullifier_spent E s' q j n) \<and>
      (if has_flag (jh_flags h) QUEUED_LEAVES
       then pool_at s' pk = Inr pool \<and> tree_at s' tk = tree_at s tk \<and>
         (distinct (map (leaf_address E pk) cs) \<longrightarrow>
           (\<forall>j < length cs. leaf_holds E s' pk (ps_active_tree_index pool) payer (cs ! j) (if j = 0 then of_nat (length ns) else 0)))
       else pool_at s' pk = Inr (add_nullifiers (of_nat (length ns)) pool) \<and>
         (\<exists>t first t'. tree_at s tk = Inr t \<and> insert_leaves_batch E cs t = Inr (first, t') \<and> tree_at s' tk = Inr t')))"


lemma transact_accounts_ok:
  assumes "transact_accounts E accounts flags s = Inr u"
  shows "owner (s (key (accounts ! 0))) = program_id E" and "owner (s (key (accounts ! 1))) = program_id E"
    and "owner (s (key (accounts ! 2))) = program_id E"
  using assms by (auto simp: transact_accounts_def run_simps)

lemma transact_pool_ok:
  assumes "transact_pool E accounts d p s = Inr pool"
  defines "pk \<equiv> key (accounts ! 0)"
  shows "pool_at s pk = Inr pool" and "pool_pda_ok E s pk" and "\<not> is_paused pool"
    and "key (accounts ! 1) = tree_address E pk (ps_active_tree_index pool)"
    and "bind_bound_params_to_domain E (compute_bound_params_hash_private_transfer E (CHAIN_ID E) (stealth_hash E d p))
        (CHAIN_ID E) (program_id E) pk (permissioned pool) = Inr (jp_bound_params_hash p)"
  using assms by (auto simp: transact_pool_def run_simps Let_def tree_address_def stealth_hash_def)

lemma header_outputs: "parse_header d = Inr h \<Longrightarrow> 0 < jh_n_inputs h \<and> 0 < jh_n_outputs h \<and> jh_n_inputs h + jh_n_outputs h \<le> 10 \<and> jh_n_inputs h = unat (d ! 0)"
  by (auto simp: parse_header_def Let_def MAX_JOINSPLIT_SIZE_def MAX_SAFE_JOINSPLIT_SIZE_def split: if_splits)

lemma addresses_apart:
  assumes kinds: "pda_kinds_separate E" and pda: "pool_pda_ok E s0 pk"
  shows "pk \<noteq> leaf_address E q c" and "pk \<noteq> nullifier_address E q j n" and "pk \<noteq> tree_address E q i"
    and "tree_address E q i \<noteq> leaf_address E q' c" and "nullifier_address E q j n \<noteq> leaf_address E q' c"
    and "nullifier_address E q j n \<noteq> tree_address E q' i"
proof -
  obtain bs where bs: "pk = fst (find_program_address E (POOL_STATE_SEED # bs))" using pool_address [OF pda] by blast
  note A = kinds_apart [OF kinds]
  show "pk \<noteq> leaf_address E q c" unfolding bs leaf_address_def using A(4) by metis
  show "pk \<noteq> nullifier_address E q j n" unfolding bs using A(1) by metis
  show "pk \<noteq> tree_address E q i" unfolding bs tree_address_def using A(6) by metis
  show "tree_address E q i \<noteq> leaf_address E q' c" unfolding leaf_address_def tree_address_def using A(5) by metis
  show "nullifier_address E q j n \<noteq> leaf_address E q' c" unfolding leaf_address_def using A(3) by metis
  show "nullifier_address E q j n \<noteq> tree_address E q' i" unfolding tree_address_def using A(2) by metis
qed

text \<open>The outputs of a transfer leave the nullifier records and the pool alone.\<close>

lemma transact_outputs_ok:
  assumes spec: "system_program_spec E" and kinds: "pda_kinds_separate E"
    and run: "transact_outputs E accounts d h p tail i payer s = Inr s'" and ne: "jp_commitments_out p \<noteq> []"
    and pda: "pool_pda_ok E s0 (key (accounts ! 0))" and tree: "key (accounts ! 1) = tree_address E (key (accounts ! 0)) i"
  defines "pk \<equiv> key (accounts ! 0)" and "tk \<equiv> key (accounts ! 1)" and "cs \<equiv> jp_commitments_out p"
  shows "nullifier_spent E s q j n \<Longrightarrow> nullifier_spent E s' q j n"
    and "adata (s' pk) = adata (s pk)"
    and "has_flag (jh_flags h) QUEUED_LEAVES \<Longrightarrow> adata (s' tk) = adata (s tk) \<and>
      (distinct (map (leaf_address E pk) cs) \<longrightarrow>
         (\<forall>j < length cs. leaf_holds E s' pk i payer (cs ! j) (if j = 0 then of_nat (jh_n_inputs h) else 0)))"
    and "\<not> has_flag (jh_flags h) QUEUED_LEAVES \<Longrightarrow>
      \<exists>t first t'. tree_at s tk = Inr t \<and> insert_leaves_batch E cs t = Inr (first, t') \<and> tree_at s' tk = Inr t'"
proof -
  note A = addresses_apart [OF kinds pda, folded pk_def]
  have tk': "tk = tree_address E pk i" unfolding tk_def pk_def by (rule tree)
  define K where "K = (if has_flag (jh_flags h) QUEUED_LEAVES then leaf_address E pk ` set cs else {tk})"
  have queued: "frame (leaf_address E pk ` set cs) s s' \<and> (distinct (map (leaf_address E pk) cs) \<longrightarrow>
         (\<forall>j < length cs. leaf_holds E s' pk i payer (cs ! j) (if j = 0 then of_nat (jh_n_inputs h) else 0)))"
    if "has_flag (jh_flags h) QUEUED_LEAVES"
    using run that by (auto simp: transact_outputs_def run_simps pk_def cs_def dest!: queue_outputs_ok [OF spec])
  have inline: "place_outputs E tk cs s = Inr s'" if "\<not> has_flag (jh_flags h) QUEUED_LEAVES"
    using run that by (simp add: transact_outputs_def tk_def cs_def)
  have f: "frame K s s'" using queued place_outputs_ok(2) [OF inline] ne by (auto simp: K_def cs_def)
  have out: "pk \<notin> K" "nullifier_address E q j n \<notin> K" "has_flag (jh_flags h) QUEUED_LEAVES \<Longrightarrow> tk \<notin> K"
    using A unfolding K_def tk' by (auto simp del: One_nat_def split: if_splits)
  show "nullifier_spent E s q j n \<Longrightarrow> nullifier_spent E s' q j n"
    using frameD [OF f out(2)] by (simp add: nullifier_spent_def spent_at_def)
  show "adata (s' pk) = adata (s pk)" using frameD [OF f out(1)] by simp
  show "adata (s' tk) = adata (s tk) \<and> (distinct (map (leaf_address E pk) cs) \<longrightarrow>
         (\<forall>j < length cs. leaf_holds E s' pk i payer (cs ! j) (if j = 0 then of_nat (jh_n_inputs h) else 0)))"
    if "has_flag (jh_flags h) QUEUED_LEAVES" using queued [OF that] frameD [OF f out(3) [OF that]] by simp
  show "\<exists>t first t'. tree_at s tk = Inr t \<and> insert_leaves_batch E cs t = Inr (first, t') \<and> tree_at s' tk = Inr t'"
    if "\<not> has_flag (jh_flags h) QUEUED_LEAVES" using place_outputs_ok(1) [OF inline [OF that]] ne by (simp add: cs_def)
qed

lemma transact_effect:
  assumes spec: "system_program_spec E" and kinds: "pda_kinds_separate E" and world: "policy_world R E I"
    and run: "process_transact I G E accounts d s = Inr s'"
  shows "\<exists>h p pool i payer. parse_header d = Inr h \<and> parse_prefix E s d accounts h (jh_n_outputs h) = Inr p \<and>
    length d = jp_stealth_data_end p \<and> transferred G E accounts d h p pool i payer s s' \<and>
    map key (take (length (jp_nullifiers p)) (drop 5 accounts)) = map (nullifier_address E (key (accounts ! 0)) i) (jp_nullifiers p)"
proof -
  let ?pk = "key (accounts ! 0)" and ?tk = "key (accounts ! 1)"
  have id: "program_id E = ASSET_PROGRAM_ID" using world by (simp add: policy_world_def)
  obtain h p pool tail src payer s1 i s2 where h: "parse_header d = Inr h" "parse_prefix E s d accounts h (jh_n_outputs h) = Inr p"
      "length d = jp_stealth_data_end p"
    and acc: "transact_accounts E accounts (jh_flags h) s = Inr ()" and pool: "transact_pool E accounts d p s = Inr pool"
    and tail: "transact_tail accounts h pool = Inr tail" and "spend_payer accounts 3 tail = Inr payer"
    and pol: "transact_policy I E accounts pool p tail s = Inr s1"
    and ver: "verify_vk_merkle_and_proof G E s1 (accounts ! 0) (accounts ! 2) (accounts ! 1) (ps_active_tree_index pool) src h p = Inr i"
    and nul: "create_nullifier_records E accounts 5 (jp_nullifiers p) ?pk i (key payer)
       (if has_flag (jh_flags h) QUEUED_LEAVES then DeferToQueue else ApplyNow) s1 = Inr s2"
    and outs: "transact_outputs E accounts d h p tail (ps_active_tree_index pool) (key payer) s2 = Inr s'"
    using transact_run [OF run] by (elim exE conjE) (rule that; assumption)
  note O = transact_accounts_ok [OF acc] and P = transact_pool_ok [OF pool] and A = transact_policy_ok [OF world pool tail pol]
  note K = approval_only_keeps [OF A(1) id] and L = parse_prefix_lengths [OF h(2)]
  have same: "s1 ?pk = s ?pk" "s1 ?tk = s ?tk" "s1 (key (accounts ! 2)) = s (key (accounts ! 2))" using K(1) O by simp_all
  have pda: "pool_pda_ok E s1 ?pk" and p1: "pool_at s1 ?pk = Inr pool" using P(1,2) same(1) by (simp_all add: pool_pda_ok_def)
  have "owner (s1 ?tk) = program_id E" "owner (s1 (key (accounts ! 2))) = program_id E" using O K(3) by simp_all
  with ver P(4) have "spend_authorised G E s1 ?pk (key (accounts ! 2)) h p pool i" by (rule verify_ok)
  from spend_authorised_before [OF A(1) id this] have auth: "spend_authorised G E s ?pk (key (accounts ! 2)) h p pool i" .
  note N = create_nullifier_records_ok [where s = s1 and pool = ?pk and p = pool, OF spec kinds pda p1 nul]
  have ne: "jp_commitments_out p \<noteq> []" using L(2) header_outputs [OF h(1)] by auto
  note T = transact_outputs_ok [OF spec kinds outs ne P(2,4)]
  have tk_out: "?tk \<notin> insert ?pk (nullifier_address E ?pk i ` set (jp_nullifiers p))"
    unfolding P(4) using addresses_apart(3,6) [OF kinds P(2)] by (metis imageE insertE)
  have tk2: "adata (s2 ?tk) = adata (s ?tk)" using frameD [OF N(4) tk_out] same(2) by simp
  have keys: "map key (take (length (jp_nullifiers p)) (drop 5 accounts)) = map (nullifier_address E ?pk i) (jp_nullifiers p)"
    using nul by (auto simp: create_nullifier_records_def run_simps dest!: nullifier_records_ok [OF spec])
  have "transferred G E accounts d h p pool i (key payer) s s'"
    unfolding transferred_def Let_def
  proof (intro conjI)
    show "\<forall>n \<in> set (jp_nullifiers p). \<not> nullifier_spent E s ?pk i n \<and> nullifier_spent E s' ?pk i n"
      using N(2) T(1) K(2) by (auto simp: nullifier_spent_def)
    show "\<forall>q j n. nullifier_spent E s q j n \<longrightarrow> nullifier_spent E s' q j n"
      using N(3) T(1) K(2) by (auto simp: nullifier_spent_def)
    show "permissioned pool \<longrightarrow> (\<exists>ak. approval_grants E s ak ?pk (key (accounts ! 3)) (ps_auditor pool) TRANSACT_IX
        [concat (map bytes32 (jp_nullifiers p))])"
      using A(3) by (auto simp: nullifiers_concat_def)
  qed (use P auth L N(1,6) T(2-4) tk2 in \<open>auto simp: split: if_splits\<close>)
  with h keys show ?thesis by blast
qed


section \<open>What a merge changes\<close>

definition leaf_keys :: "(account_info \<times> account_info) list \<Rightarrow> pubkey list" where
  "leaf_keys pairs = map (\<lambda>p. key (fst p)) pairs"

definition leaf_addresses :: "env \<Rightarrow> pubkey \<Rightarrow> queued_leaf list \<Rightarrow> pubkey list" where
  "leaf_addresses E pool qs = map (\<lambda>q. leaf_address E pool (ql_commitment q)) qs"

lemma leaf_keys_simps [simp]: "leaf_keys [] = []" "leaf_keys ((a, r) # pairs) = key a # leaf_keys pairs"
    "leaf_addresses E pool [] = []" "leaf_addresses E pool (q # qs) = leaf_address E pool (ql_commitment q) # leaf_addresses E pool qs"
  by (simp_all add: leaf_keys_def leaf_addresses_def)

lemma check_leaf_ok:
  assumes "check_leaf E s pool i prior (a, r) = Inr q"
  shows "queued_leaf_validate (adata (s (key a))) = Inr q" and "key a = leaf_address E pool (ql_commitment q)"
    and "ql_tree_index q = i" and "ql_payer q = key r" and "key a \<notin> set prior" and "owner (s (key a)) = program_id E"
  using assms by (auto simp: check_leaf_def run_simps leaf_address_def)

lemma check_leaves_ok:
  "check_leaves E s pool i prior pairs = Inr qs \<Longrightarrow>
    leaf_keys pairs = leaf_addresses E pool qs \<and> distinct (leaf_keys pairs) \<and>
    set (leaf_keys pairs) \<inter> set prior = {} \<and>
    list_all2 (\<lambda>(a, r) q. queued_leaf_validate (adata (s (key a))) = Inr q \<and> ql_tree_index q = i \<and> ql_payer q = key r) pairs qs"
proof (induction pairs arbitrary: prior qs)
  case (Cons x pairs)
  obtain a r where x: "x = (a, r)" by (cases x)
  from Cons.prems obtain q qs' where q: "check_leaf E s pool i prior (a, r) = Inr q" and qs: "qs = q # qs'"
    and rest: "check_leaves E s pool i (prior @ [key a]) pairs = Inr qs'"
    by (auto simp: x res_simps)
  note C = check_leaf_ok [OF q] and IH = Cons.IH [OF rest]
  have "set (leaf_keys pairs) \<inter> set (prior @ [key a]) = {}" using IH by blast
  then have "key a \<notin> set (leaf_keys pairs)" "set (leaf_keys pairs) \<inter> set prior = {}" by auto
  moreover have "leaf_keys pairs = leaf_addresses E pool qs'" "distinct (leaf_keys pairs)" using IH by blast+
  moreover have "list_all2 (\<lambda>(a, r) q. queued_leaf_validate (adata (s (key a))) = Inr q \<and> ql_tree_index q = i \<and> ql_payer q = key r) pairs qs'"
    using IH by blast
  ultimately show ?case using C by (simp add: x qs)
qed simp

lemma close_leaves_ok:
  "close_leaves pairs s = Inr s' \<Longrightarrow> list_all (\<lambda>(a, r). adata (s (key a)) \<noteq> []) pairs \<Longrightarrow>
    (\<forall>k. k \<notin> set (leaf_keys pairs) \<longrightarrow> adata (s' k) = adata (s k)) \<and> (\<forall>k. owner (s' k) = owner (s k)) \<and>
    (\<forall>k \<in> set (leaf_keys pairs). adata (s' k) \<noteq> [] \<and> adata (s' k) ! 0 = 0xFF)"
proof (induction pairs arbitrary: s)
  case (Cons x pairs)
  obtain a r where x: "x = (a, r)" by (cases x)
  from Cons.prems obtain s1 where c: "close_account_securely (key a) (key r) s = Inr s1" and rest: "close_leaves pairs s1 = Inr s'"
    and a: "adata (s (key a)) \<noteq> []" by (auto simp: x res_simps)
  note C = close_account_ok [OF c a]
  have ne: "adata (s1 k) \<noteq> []" if "adata (s k) \<noteq> []" for k using that C(1) C(2) [of k] by (cases "k = key a") auto
  have "list_all (\<lambda>(a, r). adata (s1 (key a)) \<noteq> []) pairs"
    using Cons.prems(2) ne by (auto simp: list_all_iff)
  note IH = Cons.IH [OF rest this]
  have first: "adata (s' (key a)) \<noteq> [] \<and> adata (s' (key a)) ! 0 = 0xFF"
    using IH C(1) by (cases "key a \<in> set (leaf_keys pairs)") auto
  then show ?case using IH C(2,3) by (auto simp: x)
qed simp

lemma add_nullifiers_0 [simp]: "add_nullifiers 0 p = p"
  using unat_bound [of "ps_nullifier_count p"] by (simp add: add_nullifiers_def saturating_add_def)

definition merged :: "env \<Rightarrow> account_info list \<Rightarrow> queued_leaf list \<Rightarrow> pool_state \<Rightarrow> store \<Rightarrow> store \<Rightarrow> bool" where
  "merged E accounts qs pool s s' \<longleftrightarrow>
     (let pk = key (accounts ! 1); tk = key (accounts ! 2); pairs = account_pairs (drop 3 accounts) in
      pool_at s pk = Inr pool \<and> pool_pda_ok E s pk \<and> \<not> is_paused pool \<and> tk = tree_address E pk (ps_active_tree_index pool) \<and>
      qs \<noteq> [] \<and> distinct (leaf_keys pairs) \<and> leaf_keys pairs = leaf_addresses E pk qs \<and>
      list_all2 (\<lambda>(a, r) q. queued_leaf_validate (adata (s (key a))) = Inr q \<and> ql_tree_index q = ps_active_tree_index pool \<and>
        ql_payer q = key r) pairs qs \<and>
      (\<exists>t first t'. tree_at s tk = Inr t \<and> insert_leaves_batch E (map ql_commitment qs) t = Inr (first, t') \<and> tree_at s' tk = Inr t') \<and>
      pool_at s' pk = Inr (add_nullifiers (total_debt qs) pool) \<and>
      (\<forall>q \<in> set qs. adata (s' (leaf_address E pk (ql_commitment q))) ! 0 = 0xFF) \<and>
      (\<forall>k. spent_at s k \<longrightarrow> spent_at s' k))"

lemma merge_run:
  assumes "process_merge_queued_leaves E accounts d s = Inr s'"
  defines "pk \<equiv> key (accounts ! 1)" and "tk \<equiv> key (accounts ! 2)" and "pairs \<equiv> account_pairs (drop 3 accounts)"
  shows "\<exists>pool qs t first t' s1 s2. pool_at s pk = Inr pool \<and> \<not> is_paused pool \<and> pool_pda_ok E s pk \<and>
    tk = tree_address E pk (ps_active_tree_index pool) \<and> check_leaves E s pk (ps_active_tree_index pool) [] pairs = Inr qs \<and>
    tree_at s tk = Inr t \<and> insert_leaves_batch E (map ql_commitment qs) t = Inr (first, t') \<and>
    write_front tk (encode_commitment_tree t') s = Inr s1 \<and> settle_debt pk (total_debt qs) s1 = Inr s2 \<and>
    close_leaves pairs s2 = Inr s'"
proof -
  have "process_merge_queued_leaves E accounts d s = Inr s'" by (rule assms(1))
  then show ?thesis
    unfolding process_merge_queued_leaves_def MERGE_FIXED_ACCOUNTS_def Let_def tree_address_def
    apply (simp only: run_simps pk_def [symmetric] tk_def [symmetric] pairs_def [symmetric])
    apply (elim exE conjE)
    apply (intro exI conjI; (assumption | simp))
    done
qed

lemma merge_effect:
  assumes run: "process_merge_queued_leaves E accounts d s = Inr s'"
  shows "\<exists>qs pool. merged E accounts qs pool s s'"
proof -
  define pk tk pairs where abb: "pk = key (accounts ! 1)" "tk = key (accounts ! 2)" "pairs = account_pairs (drop 3 accounts)"
  from run obtain pool qs t first t' s1 s2 where p: "pool_at s pk = Inr pool" "\<not> is_paused pool"
    and tk: "pool_pda_ok E s pk" "tk = tree_address E pk (ps_active_tree_index pool)"
    and chk: "check_leaves E s pk (ps_active_tree_index pool) [] pairs = Inr qs" and t: "tree_at s tk = Inr t"
    and b: "insert_leaves_batch E (map ql_commitment qs) t = Inr (first, t')"
    and w: "write_front tk (encode_commitment_tree t') s = Inr s1" and st: "settle_debt pk (total_debt qs) s1 = Inr s2"
    and cl: "close_leaves pairs s2 = Inr s'"
    using merge_run [OF run, folded abb] by (elim exE conjE) (rule that; assumption)
  note C = check_leaves_ok [OF chk]
  have leaf: "adata (s k) \<noteq> [] \<and> adata (s k) ! 0 = 0x16" if "k \<in> set (leaf_keys pairs)" for k
  proof -
    from that obtain j where j: "j < length pairs" "key (fst (pairs ! j)) = k" by (auto simp: in_set_conv_nth leaf_keys_def)
    obtain a r where ar: "pairs ! j = (a, r)" by (cases "pairs ! j")
    from C have "list_all2 (\<lambda>(a, r) q. queued_leaf_validate (adata (s (key a))) = Inr q \<and> ql_tree_index q = ps_active_tree_index pool \<and>
        ql_payer q = key r) pairs qs" by simp
    from list_all2_nthD [OF this j(1)] have "queued_leaf_validate (adata (s k)) = Inr (qs ! j)" using j(2) ar by simp
    from validate_first_byte [OF this] show ?thesis by simp
  qed
  have fb: "adata (s pk) ! 0 = 0x01" "adata (s tk) ! 0 = 0x05"
    using first_byte_at(1) [where s = s and k = pk, OF p(1)] first_byte_at(3) [where s = s and k = tk, OF t] by simp_all
  have ne: "tk \<noteq> pk" "pk \<notin> set (leaf_keys pairs)" "tk \<notin> set (leaf_keys pairs)" using fb leaf by auto
  have t1: "tree_at s1 tk = Inr t'" by (rule write_tree [where s = s and k = tk, OF t b w])
  have f1: "adata (s1 k) = adata (s k)" if "k \<noteq> tk" for k using frame_write [OF w] that by (simp add: frame_def)
  have f2: "frame {pk} s1 s2 \<and> pool_at s2 pk = Inr (add_nullifiers (total_debt qs) pool)"
  proof (cases "total_debt qs = 0")
    case True
    with st p(1) f1 [of pk] ne show ?thesis by (simp add: settle_debt_def)
  next
    case False
    with st p(1) f1 [of pk] ne have wr: "write_front pk (encode_pool_state (add_nullifiers (total_debt qs) pool)) s1 = Inr s2"
      by (simp add: settle_debt_def word_gt_0)
    have "ps_discriminator (add_nullifiers (total_debt qs) pool) = POOL_STATE_DISCRIMINATOR"
      using discriminator_at(1) [where s = s and k = pk and p = pool] p(1) by (simp add: add_nullifiers_def)
    from write_pool(1) [OF wr this] frame_write [OF wr] show ?thesis by simp
  qed
  have d2: "adata (s2 k) = adata (s k)" if "k \<noteq> tk" "k \<noteq> pk" for k using f1 f2 that by (simp add: frame_def)
  have "adata (s2 k) \<noteq> []" if "k \<in> set (leaf_keys pairs)" for k using leaf [OF that] d2 [of k] ne that by metis
  then have "list_all (\<lambda>(a, r). adata (s2 (key a)) \<noteq> []) pairs" by (force simp: list_all_iff leaf_keys_def)
  note L = close_leaves_ok [OF cl this]
  have "qs \<noteq> []" using b by (auto simp: insert_leaves_batch_def)
  moreover have "tree_at s' tk = Inr t'" "pool_at s' pk = Inr (add_nullifiers (total_debt qs) pool)"
    using L ne t1 f2 by (simp_all add: frame_def)
  moreover have "spent_at s' k" if "spent_at s k" for k
  proof -
    have "k \<noteq> pk" "k \<noteq> tk" "k \<notin> set (leaf_keys pairs)"
      using that fb leaf by (auto simp: spent_at_def NULLIFIER_RECORD_DISCRIMINATOR_def)
    with that L d2 [of k] show ?thesis by (simp add: spent_at_def)
  qed
  moreover have "adata (s' (leaf_address E pk (ql_commitment q))) ! 0 = 0xFF" if "q \<in> set qs" for q
  proof -
    have "leaf_address E pk (ql_commitment q) \<in> set (leaf_addresses E pk qs)" using that by (auto simp: leaf_addresses_def)
    with L C show ?thesis by simp
  qed
  ultimately have "merged E accounts qs pool s s'"
    unfolding merged_def Let_def abb [symmetric] using p tk C t b by blast
  then show ?thesis by blast
qed

end
