(* ===== verification/UX_Spend.thy ===== *)
theory UX_Spend
  imports UX_Transact UX_Deposit
begin

text \<open>
  The theorems on private transfers and queued leaves (\<open>transact.rs\<close>,
  \<open>merge_queued_leaves.rs\<close>): what a transfer checks and changes, that a nullifier is spent
  once in every history, and that queueing and merging amounts to the inline transfer; with a
  concrete transfer of one note on which they are run.
\<close>

section \<open>Theorems\<close>

text \<open>
  C10. A private transfer, whole: when \<open>process_transact\<close> succeeds, the pool was live and the proof was
  accepted by the registered key of its size for exactly the root, binding hash, nullifiers and
  commitments of the instruction, where the root is a recent one of the active or of a frozen tree
  of this pool and the binding hash is that of this chain, program, pool and stealth payload; in a
  permissioned pool an approval of these nullifiers existed; the nullifiers are distinct, were
  unspent and are spent afterwards, and no other record is lost; and either the commitments were
  inserted as one batch and the nullifier count raised, or tree and pool are unchanged and each
  commitment has its queued leaf, the first with the count.
\<close>

theorem transact_authorised_and_recorded:
  assumes "system_program_spec E" and "pda_kinds_separate E" and "policy_world R E I"
    and "process_transact I G E accounts d s = Inr s'"
  shows "\<exists>h p pool i payer. parse_header d = Inr h \<and> parse_prefix E s d accounts h (jh_n_outputs h) = Inr p \<and>
    length d = jp_stealth_data_end p \<and> transferred G E accounts d h p pool i payer s s'"
  using transact_effect [OF assms] by blast

text \<open>
  The addresses of the nullifier records a transfer names. Histories of a chain: transfers and merges
  under environments that differ in clock, syscalls and runtime but derive addresses alike, and
  steps of others that leave existing nullifier records in place.
\<close>

definition record_keys :: "account_info list \<Rightarrow> bytes \<Rightarrow> pubkey list" where
  "record_keys accounts d = map key (take (unat (d ! 0)) (drop 5 accounts))"

definition same_chain :: "rollups \<Rightarrow> env \<Rightarrow> env \<Rightarrow> invoke \<Rightarrow> bool" where
  "same_chain R E0 E I \<longleftrightarrow> system_program_spec E \<and> policy_world R E I \<and> rt_find_pda E = rt_find_pda E0 \<and> program_id E = program_id E0"

inductive spend_run :: "rollups \<Rightarrow> env \<Rightarrow> store \<Rightarrow> pubkey list \<Rightarrow> store \<Rightarrow> bool" for R E0 s where
  run_start: "spend_run R E0 s [] s"
| run_transact: "spend_run R E0 s log s1 \<Longrightarrow> same_chain R E0 E I \<Longrightarrow> process_transact I G E accounts d s1 = Inr s2 \<Longrightarrow>
    spend_run R E0 s (log @ record_keys accounts d) s2"
| run_merge: "spend_run R E0 s log s1 \<Longrightarrow> same_chain R E0 E I \<Longrightarrow> process_merge_queued_leaves E accounts d s1 = Inr s2 \<Longrightarrow>
    spend_run R E0 s log s2"
| run_other: "spend_run R E0 s log s1 \<Longrightarrow> (\<forall>q j n. nullifier_spent E0 s1 q j n \<longrightarrow> nullifier_spent E0 s2 q j n) \<Longrightarrow>
    spend_run R E0 s log s2"

lemma find_pda_cong:
  "rt_find_pda E = rt_find_pda E0 \<Longrightarrow> program_id E = program_id E0 \<Longrightarrow> find_program_address E seeds = find_program_address E0 seeds"
  by (simp add: find_program_address_def)

lemma chain_cong:
  assumes "same_chain R E0 E I"
  shows "nullifier_address E = nullifier_address E0" and "nullifier_spent E = nullifier_spent E0"
    and "pda_kinds_separate E0 \<Longrightarrow> pda_kinds_separate E"
  using assms find_pda_cong [of E E0]
  by (auto simp: same_chain_def nullifier_address_def nullifier_spent_def pda_kinds_separate_def fun_eq_iff)

lemma spend_run_once:
  assumes kinds: "pda_kinds_separate E0"
  shows "spend_run R E0 s log s' \<Longrightarrow> distinct log \<and> (\<forall>k \<in> set log. \<exists>q j n. k = nullifier_address E0 q j n \<and> nullifier_spent E0 s' q j n) \<and>
    (\<forall>q j n. nullifier_spent E0 s q j n \<longrightarrow> nullifier_spent E0 s' q j n \<and> nullifier_address E0 q j n \<notin> set log)"
proof (induction rule: spend_run.induct)
  case (run_transact log s1 E I G accounts d s2)
  note C = chain_cong [OF run_transact.hyps(2)]
  have "system_program_spec E" "policy_world R E I" using run_transact.hyps(2) by (simp_all add: same_chain_def)
  from transact_effect [OF this(1) C(3) [OF kinds] this(2) run_transact.hyps(3)] obtain h p pool i payer where
    h: "parse_header d = Inr h" and T: "transferred G E accounts d h p pool i payer s1 s2"
    and keys: "map key (take (length (jp_nullifiers p)) (drop 5 accounts)) = map (nullifier_address E (key (accounts ! 0)) i) (jp_nullifiers p)"
    by blast
  let ?pk = "key (accounts ! 0)"
  have len: "length (jp_nullifiers p) = unat (d ! 0)" using T header_outputs [OF h] by (simp add: transferred_def Let_def)
  have rk: "record_keys accounts d = map (nullifier_address E0 ?pk i) (jp_nullifiers p)"
    using keys by (simp add: record_keys_def len C(1))
  have T': "distinct (map (nullifier_address E0 ?pk i) (jp_nullifiers p))"
      "\<forall>n \<in> set (jp_nullifiers p). \<not> nullifier_spent E0 s1 ?pk i n \<and> nullifier_spent E0 s2 ?pk i n"
      "\<forall>q j n. nullifier_spent E0 s1 q j n \<longrightarrow> nullifier_spent E0 s2 q j n"
    using T by (simp_all add: transferred_def Let_def C)
  note IH = run_transact.IH
  have new: "\<not> spent_at s1 k" if "k \<in> set (record_keys accounts d)" for k
    using that T'(2) by (auto simp: rk nullifier_spent_def)
  have "set log \<inter> set (record_keys accounts d) = {}" using IH new by (auto simp: nullifier_spent_def)
  with IH T'(1) have "distinct (log @ record_keys accounts d)" by (simp add: rk)
  moreover have "\<exists>q j n. k = nullifier_address E0 q j n \<and> nullifier_spent E0 s2 q j n" if "k \<in> set (log @ record_keys accounts d)" for k
  proof (cases "k \<in> set log")
    case True
    with IH obtain q j n where "k = nullifier_address E0 q j n" "nullifier_spent E0 s1 q j n" by blast
    with T'(3) show ?thesis by blast
  next
    case False
    with that T'(2) show ?thesis by (auto simp: rk)
  qed
  moreover have "nullifier_spent E0 s2 q j n \<and> nullifier_address E0 q j n \<notin> set (log @ record_keys accounts d)"
    if "nullifier_spent E0 s q j n" for q j n
  proof -
    from IH that have s1: "nullifier_spent E0 s1 q j n" and l: "nullifier_address E0 q j n \<notin> set log" by blast+
    from s1 new have "nullifier_address E0 q j n \<notin> set (record_keys accounts d)" by (auto simp: nullifier_spent_def)
    with s1 l T'(3) show ?thesis by simp
  qed
  ultimately show ?case by blast
next
  case (run_merge log s1 E I accounts d s2)
  from merge_effect [OF run_merge.hyps(3)] have "nullifier_spent E0 s1 q j n \<Longrightarrow> nullifier_spent E0 s2 q j n" for q j n
    by (auto simp: merged_def Let_def nullifier_spent_def)
  with run_merge.IH show ?case by blast
next
  case (run_other log s1 s2)
  then show ?case by blast
qed simp

text \<open>
  C11. No double spend: in every history of transfers and merges, under whatever clocks and callers, and
  interleaved with any steps of others that leave nullifier records in place, no nullifier record
  is created twice. A note spent before the history starts or earlier in it (its pool, tree and
  nullifier determine the record) is not spent again.
\<close>

theorem no_double_spend:
  assumes "pda_kinds_separate E0" and "spend_run R E0 s log s'"
  shows "distinct log \<and> (nullifier_spent E0 s q j n \<longrightarrow> nullifier_address E0 q j n \<notin> set log) \<and>
    (nullifier_address E0 q j n \<in> set log \<longrightarrow> nullifier_spent E0 s' q j n)"
proof -
  note O = spend_run_once [OF assms]
  have "nullifier_spent E0 s' q j n" if "nullifier_address E0 q j n \<in> set log"
    using O that unfolding nullifier_spent_def by metis
  with O show ?thesis by blast
qed


lemma total_debt_first:
  assumes "qs \<noteq> []" and "\<forall>j < length qs. ql_nullifier_debt (qs ! j) = (if j = 0 then of_nat n else 0)" and "n \<le> 10"
  shows "total_debt qs = of_nat n"
proof -
  from assms(1) obtain q rest where qs: "qs = q # rest" by (cases qs) auto
  have "ql_nullifier_debt q = of_nat n" using assms(2) by (auto simp: qs dest: spec [of _ 0])
  moreover have "ql_nullifier_debt r = 0" if "r \<in> set rest" for r
    using that assms(2) by (auto simp: qs in_set_conv_nth dest: spec [of _ "Suc _"])
  then have "sum_list (map (\<lambda>q. ucast (ql_nullifier_debt q)) rest) = (0 :: u32)" by (induction rest) auto
  moreover have "ucast (of_nat n :: u8) = (of_nat n :: u32)" using assms(3) by (simp add: unsigned_of_nat take_bit_nat_eq_self)
  ultimately show ?thesis by (simp add: total_debt_def qs)
qed

text \<open>The leaves a merge reads are those the transfer queued.\<close>

lemma queued_leaves_read:
  assumes held: "\<forall>j < length cs. leaf_holds E s pk i payer (cs ! j) (if j = 0 then debt else 0)"
    and keys: "leaf_keys pairs = map (leaf_address E pk) cs"
    and all: "list_all2 (\<lambda>(a, r) q. queued_leaf_validate (adata (s (key a))) = Inr q \<and> P q \<and> Q r q) pairs qs"
  shows "map ql_commitment qs = cs" and "\<forall>j < length qs. ql_nullifier_debt (qs ! j) = (if j = 0 then debt else 0)"
proof -
  have len: "length pairs = length cs" "length qs = length cs"
    using arg_cong [OF keys, of length] list_all2_lengthD [OF all] by (simp_all add: leaf_keys_def)
  have "ql_commitment (qs ! j) = cs ! j \<and> ql_nullifier_debt (qs ! j) = (if j = 0 then debt else 0)" if j: "j < length cs" for j
  proof -
    obtain a r where ar: "pairs ! j = (a, r)" by (cases "pairs ! j")
    have "key a = leaf_address E pk (cs ! j)" using arg_cong [OF keys, of "\<lambda>xs. xs ! j"] j len ar by (simp add: leaf_keys_def)
    moreover have "queued_leaf_validate (adata (s (key a))) = Inr (qs ! j)" using list_all2_nthD [OF all, of j] j len ar by simp
    ultimately show ?thesis using held j by (auto simp: leaf_holds_def)
  qed
  with len show "map ql_commitment qs = cs" "\<forall>j < length qs. ql_nullifier_debt (qs ! j) = (if j = 0 then debt else 0)"
    by (auto intro: nth_equalityI)
qed

text \<open>
  C12. Queueing is only a delay: a transfer that queues its outputs, followed by the merge of exactly
  those leaves in order, leaves the commitment tree (leaves, frontier, root and root history) and
  the pool state as the same transfer made inline does, nullifier count included.
\<close>

theorem queued_then_merged_equals_inline:
  assumes "system_program_spec E" and "pda_kinds_separate E" and "policy_world R E I"
    and queued: "parse_header d = Inr h" "parse_prefix E s d accounts h (jh_n_outputs h) = Inr p" "has_flag (jh_flags h) QUEUED_LEAVES"
      "process_transact I G E accounts d s = Inr s1"
    and merge: "key (maccounts ! 1) = key (accounts ! 0)"
      "leaf_keys (account_pairs (drop 3 maccounts)) = map (leaf_address E (key (accounts ! 0))) (jp_commitments_out p)"
      "process_merge_queued_leaves E maccounts md s1 = Inr s2"
    and inline: "parse_header d' = Inr h'" "parse_prefix E s d' accounts' h' (jh_n_outputs h') = Inr p'"
      "\<not> has_flag (jh_flags h') QUEUED_LEAVES" "key (accounts' ! 0) = key (accounts ! 0)"
      "jp_nullifiers p' = jp_nullifiers p" "jp_commitments_out p' = jp_commitments_out p"
      "process_transact I G' E accounts' d' s = Inr s'"
  shows "tree_at s2 (key (accounts ! 1)) = tree_at s' (key (accounts ! 1)) \<and>
    pool_at s2 (key (accounts ! 0)) = pool_at s' (key (accounts ! 0))"
proof -
  let ?pk = "key (accounts ! 0)" and ?tk = "key (accounts ! 1)" and ?cs = "jp_commitments_out p" and ?n = "length (jp_nullifiers p)"
  from transact_effect [OF assms(1-3) queued(4)] queued obtain pool i payer where
    T: "transferred G E accounts d h p pool i payer s s1" by auto
  from transact_effect [OF assms(1-3) inline(7)] inline obtain pool' i' payer' where
    T': "transferred G' E accounts' d' h' p' pool' i' payer' s s'" by auto
  from merge_effect [OF merge(3)] obtain qs mpool where M: "merged E maccounts qs mpool s1 s2" by blast
  have Q: "pool_at s ?pk = Inr pool" "?tk = tree_address E ?pk (ps_active_tree_index pool)"
      "pool_at s1 ?pk = Inr pool" "tree_at s1 ?tk = tree_at s ?tk"
      "distinct (map (leaf_address E ?pk) ?cs) \<Longrightarrow>
        \<forall>j < length ?cs. leaf_holds E s1 ?pk (ps_active_tree_index pool) payer (?cs ! j) (if j = 0 then of_nat ?n else 0)"
    using T queued(3) by (auto simp: transferred_def Let_def)
  have N: "mpool = pool" "key (maccounts ! 2) = ?tk" "qs \<noteq> []" "distinct (map (leaf_address E ?pk) ?cs)"
      "pool_at s2 ?pk = Inr (add_nullifiers (total_debt qs) pool)"
    using M Q(1-3) merge by (auto simp: merged_def Let_def)
  have "list_all2 (\<lambda>(a, r) q. queued_leaf_validate (adata (s1 (key a))) = Inr q \<and> ql_tree_index q = ps_active_tree_index pool \<and>
        ql_payer q = key r) (account_pairs (drop 3 maccounts)) qs" using M N(1) by (simp add: merged_def Let_def)
  note leaves = queued_leaves_read [OF Q(5) [OF N(4)] merge(2) this]
  from M N(1,2) leaves(1) Q(4) obtain t f t' where B: "tree_at s ?tk = Inr t" "insert_leaves_batch E ?cs t = Inr (f, t')" "tree_at s2 ?tk = Inr t'"
    by (auto simp: merged_def Let_def)
  have I: "pool' = pool" "key (accounts' ! 1) = ?tk" "pool_at s' ?pk = Inr (add_nullifiers (of_nat ?n) pool)"
    using T' inline Q(1,2) by (auto simp: transferred_def Let_def)
  have "tree_at s' ?tk = Inr t'" using T' I(2) inline B by (auto simp: transferred_def Let_def)
  moreover have "?n \<le> 10" using T header_outputs [OF queued(1)] by (simp add: transferred_def Let_def)
  then have "total_debt qs = of_nat ?n" by (rule total_debt_first [OF N(3) leaves(2)])
  ultimately show ?thesis using B(3) N(5) I(3) by simp
qed

text \<open>
  A queued leaf does not refuse its commitment: when the leaf account of a commitment exists, queueing
  the same commitment again succeeds and replaces payer, stealth payload and nullifier count by
  those of the second transfer. Two paid outputs become one leaf, and the count of the first is lost.
\<close>

theorem queued_leaf_overwritten:
  assumes "key a = leaf_address E pool c" and "is_writable a"
    and "queued_leaf_validate (adata (s (key a))) = Inr q" and "owner (s (key a)) = program_id E"
    and "lamports (s (key a)) \<noteq> 0" and "rt_minimum_balance E QUEUED_LEAF_LEN \<le> lamports (s (key a))"
  shows "\<exists>s' q'. queue_output E pool i payer d off debt c a s = Inr s' \<and> frame {key a} s s' \<and>
    queued_leaf_validate (adata (s' (key a))) = Inr q' \<and> ql_commitment q' = c \<and> ql_payer q' = payer \<and> ql_nullifier_debt q' = debt"
proof -
  let ?k = "key a"
  obtain bump where k: "find_program_address E [QUEUED_LEAF_SEED, bytes32 pool, bytes32 c] = (?k, bump)"
    using assms(1) by (cases "find_program_address E [QUEUED_LEAF_SEED, bytes32 pool, bytes32 c]") (simp add: leaf_address_def)
  have len: "length (adata (s ?k)) = 144" using validate_first_byte [OF assms(3)] by simp
  have paid: "\<not> lamports (s ?k) < rt_minimum_balance E QUEUED_LEAF_LEN" using assms(6) by simp
  with len have cr: "create_pda_account E payer ?k (rt_minimum_balance E QUEUED_LEAF_LEN) (of_nat QUEUED_LEAF_LEN) 4 s = Inr s"
    using assms(4,5) paid by (simp add: create_pda_account_def create_or_claim_pda_def QUEUED_LEAF_LEN_def Let_def)
  define q' where "q' = \<lparr>ql_discriminator = QUEUED_LEAF_DISCRIMINATOR, ql_version = QUEUED_LEAF_VERSION, ql_bump = bump,
     ql_tree_index = i, ql_commitment = c, ql_payer = payer, ql_ephemeral_pub = from_le (bslice off 32 d),
     ql_encrypted_amount = from_le (bslice (off + 32) 8 d), ql_encrypted_token_id = from_le (bslice (off + 40) 32 d),
     ql_nullifier_debt = debt\<rparr>"
  have "queue_output E pool i payer d off debt c a s = Inr (set_data ?k (encode_queued_leaf q') s)"
    using assms(2) cr by (simp add: queue_output_def validate_account_writable_def k queued_leaf_init_def len QUEUED_LEAF_LEN_def q'_def Let_def)
  moreover have "queued_leaf_validate (encode_queued_leaf q') = Inr q'" by (rule queued_leaf_validate_encode) (simp_all add: q'_def)
  ultimately show ?thesis by (auto simp: frame_set_data q'_def)
qed

section \<open>A concrete transfer\<close>

text \<open>
  One note of a fresh pool is spent for one output, over the store and environment of the concrete
  deposit, with curve syscalls that accept and a hash that answers zero. With flag 16 the output is
  queued, the pool and the tree being read-only.
\<close>

definition accept_all :: bn254 where
  "accept_all = \<lparr>bn_add = (\<lambda>d. Some (replicate 64 0)), bn_mul = (\<lambda>d. Some (replicate 64 0)),
     bn_pairing = (\<lambda>d. Some VALID_PAIRING)\<rparr>"

definition sp_env :: env where
  "sp_env = dep_env\<lparr>rt_sha256 := (\<lambda>d. 0)\<rparr>"

definition sp_invoke :: invoke where
  "sp_invoke p metas d seeds s =
     policy_process_instruction agree_rollups (sp_env\<lparr>program_id := POLICY_PROGRAM_ID\<rparr>) (map meta_info metas) d s"

definition sp_store :: store where
  "sp_store = dep_store(65803 := settle_account ASSET_PROGRAM_ID (encode_vk_registry demo_registry))"

definition sp_data :: "u8 \<Rightarrow> bytes" where
  "sp_data flags = [1, 1, 0, flags] @ replicate 256 1 @ bytes32 (ct_current_root tree_init) @ bytes32 1 @ bytes32 5 @ bytes32 7 @
     replicate 72 0"

definition sp_nullifier :: pubkey where "sp_nullifier = 5497558206985"
definition sp_leaf :: pubkey where "sp_leaf = 7696581462539"

definition sp_accounts :: "bool \<Rightarrow> account_info list" where
  "sp_accounts queued = map (\<lambda>k. \<lparr>key = k, is_signer = False, is_writable = \<not> queued\<rparr>) [266, 68111] @
     map demo_acc [65803, 77, 0, sp_nullifier] @ (if queued then [demo_acc sp_leaf] else [])"

definition sp_header :: "u8 \<Rightarrow> joinsplit_header" where
  "sp_header flags = \<lparr>jh_n_inputs = 1, jh_n_outputs = 1, jh_n_public_outputs = 0, jh_flags = flags\<rparr>"

definition sp_prefix :: joinsplit_prefix where
  "sp_prefix = \<lparr>jp_proof_bytes = replicate 256 1, jp_merkle_root = ct_current_root tree_init, jp_bound_params_hash = 1,
     jp_nullifiers = [5], jp_commitments_out = [7], jp_stealth_data_start = 388, jp_stealth_data_end = 460\<rparr>"

abbreviation sp_flags :: "bool \<Rightarrow> u8" where "sp_flags queued \<equiv> (if queued then 16 else 0)"

lemma sp_pdas:
  "dep_pda [NULLIFIER_SEED, bytes32 266, bytes32 5] p = (sp_nullifier, 255)"
  "dep_pda [QUEUED_LEAF_SEED, bytes32 266, bytes32 7] p = (sp_leaf, 255)"
  "dep_pda [VK_REGISTRY_SEED, [1], [1]] p = (65803, 255)"
  by (simp_all add: dep_pda_def NULLIFIER_SEED_def QUEUED_LEAF_SEED_def VK_REGISTRY_SEED_def ascii_def sp_nullifier_def sp_leaf_def) code_simp+

lemma sp_env_simps [simp]:
  "program_id sp_env = ASSET_PROGRAM_ID" "find_program_address sp_env seeds = dep_pda seeds ASSET_PROGRAM_ID"
  by (simp_all add: sp_env_def find_program_address_def dep_env_def)

lemma sp_kinds: "pda_kinds_separate sp_env"
proof -
  have low: "unat (fst (dep_pda (a # as) p)) mod 256 = length a mod 256" for a as p
  proof -
    have "(256 * n mod 2 ^ 256) mod 256 = 0" "m mod 2 ^ 256 mod 256 = m mod 256" for m n :: nat
      by (simp_all add: mod_mod_cancel)
    then have "((m mod 2 ^ 256 + 256 * n mod 2 ^ 256) mod 2 ^ 256) mod 256 = m mod 256" for m n :: nat
      by (metis add.right_neutral mod_add_eq mod_mod_trivial)
    then show ?thesis by (simp add: dep_pda_def unat_word_ariths unat_of_nat)
  qed
  have "inj_on (\<lambda>a. length a mod 256) (set PDA_KINDS)"
    by (simp add: PDA_KINDS_def POOL_STATE_SEED_def TREE_SEED_def NULLIFIER_SEED_def QUEUED_LEAF_SEED_def ascii_def)
  then show ?thesis using low unfolding pda_kinds_separate_def sp_env_simps inj_on_def by metis
qed

lemma sp_fields: "is_canonical_fr (ct_current_root tree_init)" "is_canonical_fr 1" "is_canonical_fr 5" "is_canonical_fr 7"
    "ct_current_root tree_init \<noteq> 0"
proof -
  show r: "is_canonical_fr (ct_current_root tree_init)"
    by (simp add: tree_init_def is_canonical_fr_def is_ge_modulus_iff ZERO_HASHES_def be_nat_be_hash FR_def TREE_DEPTH_def)
  have "be_nat (ct_current_root tree_init) \<noteq> be_nat 0"
    by (simp add: tree_init_def ZERO_HASHES_def be_nat_be_hash TREE_DEPTH_def) (simp add: be_nat_def)
  then show "ct_current_root tree_init \<noteq> 0" by metis
qed code_simp+

lemma sp_bound: "bind_bound_params_to_domain sp_env (compute_bound_params_hash_private_transfer sp_env 101 0) 101 ASSET_PROGRAM_ID 266 False = Inr 1"
proof -
  have "is_canonical_fr 0" by code_simp
  then have z: "reduce_to_field_exact 0 = 0" by (rule reduce_id)
  then show ?thesis
    by (simp add: bind_bound_params_to_domain_def poseidon2_hash_def compute_domain_separator_def
        compute_bound_params_hash_private_transfer_def sp_env_def) (simp add: dep_env_def demo_env_def z)
qed

lemma sp_flag: "has_flag 0 f = False" "has_flag 16 PROOF_IN_BUFFER = False" "has_flag 16 RELAYER = False" "has_flag 16 FROZEN_SOURCE_TREE = False"
    "has_flag 16 POLICY = False" "has_flag 16 RAGEQUIT = False" "has_flag 16 QUEUED_LEAVES = True"
  by (simp_all add: has_flag_def PROOF_IN_BUFFER_def RELAYER_def FROZEN_SOURCE_TREE_def POLICY_def RAGEQUIT_def QUEUED_LEAVES_def)

lemma sp_parse: "parse_header (sp_data (sp_flags queued)) = Inr (sp_header (sp_flags queued))"
    "parse_prefix E s (sp_data (sp_flags queued)) accounts (sp_header (sp_flags queued)) 1 = Inr sp_prefix"
    "length (sp_data f) = 460"
proof -
  show "length (sp_data f) = 460" by (simp add: sp_data_def)
  show "parse_header (sp_data (sp_flags queued)) = Inr (sp_header (sp_flags queued))"
    by (simp add: parse_header_def sp_data_def sp_header_def Let_def MAX_JOINSPLIT_SIZE_def MAX_SAFE_JOINSPLIT_SIZE_def ALL_FLAGS_def
        PROOF_IN_BUFFER_def RELAYER_def FROZEN_SOURCE_TREE_def POLICY_def RAGEQUIT_def QUEUED_LEAVES_def)
  have f: "has_flag (sp_flags queued) PROOF_IN_BUFFER = False" by (simp add: sp_flag)
  show "parse_prefix E s (sp_data (sp_flags queued)) accounts (sp_header (sp_flags queued)) 1 = Inr sp_prefix"
    by (simp add: parse_prefix_def Let_def read_proof_def proof_in_buffer_def f sp_header_def GROTH16_PROOF_SIZE_def
        STEALTH_DATA_PER_OUTPUT_def numeral_eq_Suc [of Num.One] sp_prefix_def)
      (simp add: sp_data_def bslice_def sp_fields)
qed

lemma sp_system: "system_program_spec sp_env"
  using dep_system by (simp add: sp_env_def system_program_spec_def)

lemma sp_world: "policy_world agree_rollups sp_env sp_invoke"
  by (simp add: policy_world_def policy_runtime_def sp_invoke_def agree_rollups_def)

lemma sp_store_simps [simp]: "k \<noteq> 65803 \<Longrightarrow> sp_store k = dep_store k"
    "sp_store 65803 = settle_account ASSET_PROGRAM_ID (encode_vk_registry demo_registry)"
  by (simp_all add: sp_store_def)

lemma sp_proof: "verify_vk_merkle_and_proof accept_all sp_env sp_store pool_info (demo_acc 65803) tree_info 0 None
    (sp_header flags) sp_prefix = Inr 0"
  if "key tree_info = 68111"
proof -
  have tv: "tree_valid tree_init" "ct_discriminator tree_init = COMMITMENT_TREE_DISCRIMINATOR" by (simp_all add: tree_valid_def tree_init_def)
  have t: "tree_at sp_store 68111 = Inr tree_init"
    using ctl.from_bytes_overlay [OF tv, of "[]"] by (simp add: dep_store_def settle_account_def commitment_tree_from_bytes_def)
  have vk: "vk_at sp_store 65803 = Inr demo_registry"
    using vkl.from_bytes_overlay [OF demo_registry_ok(2,3), of "[]"]
    by (simp add: settle_account_def vk_registry_from_bytes_def)
  obtain ic where ic: "get_ic demo_registry = Inr ic" using demo_registry_ok(1) by (auto simp: vk_authentic_def)
  have len: "length ic = 5" using ic demo_registry_ok(2,4,5)
    by (auto simp: get_ic_def Let_def num_public_inputs_def joinsplit_num_public_inputs_def vk_valid_def MAX_IC_POINTS_def
        MAX_SAFE_JOINSPLIT_SIZE_def split: if_splits)
  have xs: "joinsplit_public_inputs sp_prefix = [ct_current_root tree_init, 1, 5, 7]" by (simp add: joinsplit_public_inputs_def sp_prefix_def)
  obtain a b c e f where abc: "ic = [a, b, c, e, f]" using len by (auto simp: numeral_eq_Suc length_Suc_conv)
  have "vk_x_loop accept_all (joinsplit_public_inputs sp_prefix) (tl ic) (hd ic) = Inr (replicate 64 0)"
    by (simp add: xs abc sp_fields accept_all_def)
  then have v: "verify_groth16_joinsplit_proof accept_all (replicate 256 1) (joinsplit_public_inputs sp_prefix) d ic = Inr ()" for d
    using len by (simp add: verify_groth16_joinsplit_proof_def verify_groth16_proof_def GROTH16_PROOF_SIZE_def xs bslice_def accept_all_def)
  have root: "is_valid_root (ct_current_root tree_init) tree_init" by (simp add: is_valid_root_def sp_fields)
  have "fst (vk_registry_address sp_env 1 1) = 65803" by (simp add: vk_registry_address_def sp_pdas)
  with t vk ic v root demo_registry_ok(4,5) that show ?thesis
    by (simp add: verify_vk_merkle_and_proof_def source_tree_of_def sp_header_def Let_def) (simp add: sp_prefix_def)
qed

lemma sp_acc [simp]:
    "sp_accounts queued ! 0 = \<lparr>key = 266, is_signer = False, is_writable = \<not> queued\<rparr>"
    "sp_accounts queued ! Suc 0 = \<lparr>key = 68111, is_signer = False, is_writable = \<not> queued\<rparr>"
    "sp_accounts queued ! 2 = demo_acc 65803" "sp_accounts queued ! 3 = demo_acc 77" "sp_accounts queued ! 4 = demo_acc 0"
    "drop 5 (sp_accounts queued) = demo_acc sp_nullifier # (if queued then [demo_acc sp_leaf] else [])"
    "length (sp_accounts queued) = (if queued then 7 else 6)"
  by (simp_all add: sp_accounts_def)

lemma sp_steps:
  shows "transact_accounts sp_env (sp_accounts queued) (sp_flags queued) sp_store = Inr ()"
    and "transact_pool sp_env (sp_accounts queued) (sp_data (sp_flags queued)) sp_prefix sp_store = Inr dep_pool"
    and "transact_tail (sp_accounts queued) (sp_header (sp_flags queued)) dep_pool = Inr \<lparr>jt_relayer = None, jt_source_tree = None,
       jt_policy_start = None, jt_queued_leaves_start = (if queued then Some 6 else None), jt_proof_buffer = None\<rparr>"
proof -
  show "transact_accounts sp_env (sp_accounts queued) (sp_flags queued) sp_store = Inr ()"
    by (cases queued; simp add: transact_accounts_def validate_program_owner_def validate_system_program_def validate_account_writable_def sp_flag
        dep_store_def settle_account_def sp_header_def)
  have perm: "permissioned dep_pool = False" "is_paused dep_pool = False" "ps_active_tree_index dep_pool = 0"
    by (simp_all add: dep_pool_def demo_pool_def permissioned_def is_paused_def decode_pool_state_def byte_at_def bslice_def)
  have st: "rt_sha256 sp_env x = 0" for x by (simp add: sp_env_def)
  have ch: "CHAIN_ID sp_env = 101" by (simp add: CHAIN_ID_def sp_env_def dep_env_def demo_env_def)
  have "pool_pda_ok sp_env sp_store 266" using dep_pool_at(1,2) [of sp_store] by (simp add: pool_pda_ok_def)
  then have pda: "validate_pool_state_pda sp_env sp_store \<lparr>key = 266, is_signer = False, is_writable = \<not> queued\<rparr> = Inr ()"
    by (simp add: validate_pool_state_pda_iff)
  show "transact_pool sp_env (sp_accounts queued) (sp_data (sp_flags queued)) sp_prefix sp_store = Inr dep_pool"
    using dep_pool_at(1) [of sp_store] pda
    by (simp add: transact_pool_def perm validate_active_tree_pda_def dep_pdas st ch sp_bound) (simp add: sp_prefix_def)
  show "transact_tail (sp_accounts queued) (sp_header (sp_flags queued)) dep_pool = Inr \<lparr>jt_relayer = None, jt_source_tree = None,
       jt_policy_start = None, jt_queued_leaves_start = (if queued then Some 6 else None), jt_proof_buffer = None\<rparr>"
    by (simp add: transact_tail_def perm policy_tail_from_flags_def sp_header_def sp_flag resolve_joinsplit_tail_def take_n_def
        policy_account_count_def)
qed

definition sp_spent :: store where
  "sp_spent = sp_store(sp_nullifier := \<lparr>lamports = 5, owner = ASSET_PROGRAM_ID, adata = [3]\<rparr>)"

definition sp_queued_leaf :: queued_leaf where
  "sp_queued_leaf = \<lparr>ql_discriminator = QUEUED_LEAF_DISCRIMINATOR, ql_version = QUEUED_LEAF_VERSION, ql_bump = 255, ql_tree_index = 0,
     ql_commitment = 7, ql_payer = 77, ql_ephemeral_pub = 0, ql_encrypted_amount = 0, ql_encrypted_token_id = 0, ql_nullifier_debt = 1\<rparr>"

definition sp_queue :: store where
  "sp_queue = sp_spent(sp_leaf := \<lparr>lamports = 5, owner = ASSET_PROGRAM_ID, adata = encode_queued_leaf sp_queued_leaf\<rparr>)"

lemma sp_keys [simp]: "sp_nullifier \<noteq> 266" "sp_nullifier \<noteq> 68111" "sp_nullifier \<noteq> 65803" "sp_nullifier \<noteq> sp_leaf"
    "sp_leaf \<noteq> sp_nullifier" "sp_leaf \<noteq> 266" "sp_leaf \<noteq> 68111" "sp_leaf \<noteq> 65803"
  by (simp_all add: sp_nullifier_def sp_leaf_def)

lemma sp_blank: "dep_store sp_nullifier = \<lparr>lamports = 5, owner = 0, adata = []\<rparr>" "dep_store sp_leaf = \<lparr>lamports = 5, owner = 0, adata = []\<rparr>"
  by (simp_all add: dep_store_def blank_store_def sp_nullifier_def sp_leaf_def)

lemma sp_env_system: "rt_minimum_balance sp_env n = 1" "sys_allocate sp_env = demo_allocate" "sys_assign sp_env = demo_assign"
  by (simp_all add: sp_env_def dep_env_def demo_env_def)

lemma sp_record: "nullifier_record sp_env 266 0 77 5 (demo_acc sp_nullifier) sp_store = Inr sp_spent"
proof -
  have st: "sp_store sp_nullifier = \<lparr>lamports = 5, owner = 0, adata = []\<rparr>" by (simp add: sp_blank)
  show ?thesis
    by (simp add: nullifier_record_def validate_account_writable_def nullifier_seeds_def sp_pdas create_pda_account_def
        create_or_claim_pda_def NULLIFIER_RECORD_LEN_def Let_def st sp_env_system demo_allocate_def demo_assign_def
        receipt_init_def write_front_def put_front_def set_data_def NULLIFIER_RECORD_DISCRIMINATOR_def sp_spent_def)
qed

lemma sp_queue_output: "queue_output sp_env 266 0 77 (sp_data 16) 388 1 7 (demo_acc sp_leaf) sp_spent = Inr sp_queue"
proof -
  have st: "sp_spent sp_leaf = \<lparr>lamports = 5, owner = 0, adata = []\<rparr>" by (simp add: sp_spent_def sp_blank)
  have z: "from_le (bslice 388 32 (sp_data 16)) = (0 :: hash32)" "from_le (bslice 420 8 (sp_data 16)) = (0 :: u64)"
    "from_le (bslice 428 32 (sp_data 16)) = (0 :: hash32)" by (simp_all add: sp_data_def bslice_def)
  have ini: "queued_leaf_init 255 0 7 77 0 0 0 1 (replicate 144 0) = Inr (encode_queued_leaf sp_queued_leaf)"
    by (simp add: queued_leaf_init_def sp_queued_leaf_def QUEUED_LEAF_LEN_def)
  show ?thesis
    by (simp add: queue_output_def validate_account_writable_def sp_pdas create_pda_account_def create_or_claim_pda_def
        QUEUED_LEAF_LEN_def Let_def st sp_env_system demo_allocate_def demo_assign_def z ini set_data_def sp_queue_def)
qed

text \<open>The checks that precede the effects.\<close>

lemma sp_transact:
  assumes "create_nullifier_records sp_env (sp_accounts queued) 5 [5] 266 0 77 (if queued then DeferToQueue else ApplyNow) sp_store = Inr s2"
    and "if queued then queue_output sp_env 266 0 77 (sp_data 16) 388 1 7 (demo_acc sp_leaf) s2 = Inr s'
         else place_outputs sp_env 68111 [7] s2 = Inr s'"
  shows "process_transact I accept_all sp_env (sp_accounts queued) (sp_data (sp_flags queued)) sp_store = Inr s'"
proof -
  have perm: "permissioned dep_pool = False" "ps_active_tree_index dep_pool = 0"
    by (simp_all add: dep_pool_def demo_pool_def permissioned_def decode_pool_state_def byte_at_def bslice_def)
  have pre: "sp_header f = \<lparr>jh_n_inputs = 1, jh_n_outputs = 1, jh_n_public_outputs = 0, jh_flags = f\<rparr>"
    "jp_stealth_data_end sp_prefix = 460" "jp_stealth_data_start sp_prefix = 388" "jp_nullifiers sp_prefix = [5]" "jp_commitments_out sp_prefix = [7]" for f
    by (simp_all add: sp_header_def sp_prefix_def)
  have six: "drop 6 (sp_accounts True) = [demo_acc sp_leaf]" by (simp add: sp_accounts_def)
  note P = sp_parse(1) [of queued] sp_parse(2) [where queued = queued, unfolded pre] sp_parse(3) sp_steps(1,2) [of queued] sp_steps(3) [of queued, unfolded pre]
    sp_proof [where tree_info = "sp_accounts queued ! 1" and flags = "sp_flags queued", unfolded pre]
  show ?thesis
    using assms P
    by (cases queued; simp add: process_transact_def pre validate_public_outputs_def validate_account_count_def source_tree_account_def
        spend_payer_def transact_policy_def verified_pair_def resolve_spend_path_def perm sp_flag transact_outputs_def six PROOF_IN_BUFFER_def)
qed

lemma sp_place:
  assumes "s 68111 = dep_store 68111"
  shows "\<exists>t' s'. tree_at s 68111 = Inr tree_init \<and> insert_leaves_batch sp_env [7] tree_init = Inr (0, t') \<and>
    write_front 68111 (encode_commitment_tree t') s = Inr s'"
proof -
  have tv: "tree_valid tree_init" "ct_discriminator tree_init = COMMITMENT_TREE_DISCRIMINATOR" by (simp_all add: tree_valid_def tree_init_def)
  have a: "adata (s 68111) = encode_commitment_tree tree_init" by (simp add: assms dep_store_def settle_account_def)
  have t: "tree_at s 68111 = Inr tree_init"
    using ctl.from_bytes_overlay [OF tv, of "[]"] by (simp add: a commitment_tree_from_bytes_def)
  have "poseidon_spec sp_env (\<lambda>a b. a + 2 * b + 1)" by (simp add: poseidon_spec_def sp_env_def dep_env_def demo_env_def)
  from insert_leaf_total [OF this, of tree_init 7] obtain i t' where t': "insert_leaf sp_env 7 tree_init = Inr (i, t')"
    by (auto simp: tree_init_def MAX_LEAVES_def)
  then have b: "insert_leaves_batch sp_env [7] tree_init = Inr (0, t')"
    by (auto simp: insert_leaf_def insert_leaves_batch_def append_leaf_def Let_def res_simps tree_init_def split: if_splits)
  obtain s' where "write_front 68111 (encode_commitment_tree t') s = Inr s'"
    using insert_leaf_valid [OF t' tv(1)] by (simp add: a write_front_def put_front_def ctl.length_encode tv)
  with t b show ?thesis by blast
qed

lemma sp_inline_run: "\<exists>s'. process_transact I accept_all sp_env (sp_accounts False) (sp_data 0) sp_store = Inr s'"
proof -
  have p: "pool_at sp_spent 266 = Inr dep_pool" using dep_pool_at(1) [of sp_spent] by (simp add: sp_spent_def)
  obtain s2 where s2: "write_front 266 (encode_pool_state (add_nullifiers 1 dep_pool)) sp_spent = Inr s2"
    using psl.write_ok p unfolding pool_state_from_bytes_def by blast
  have "s2 68111 = dep_store 68111" using s2 by (auto simp: res_simps sp_spent_def)
  from sp_place [of s2, OF this] obtain t' s' where "tree_at s2 68111 = Inr tree_init"
    "insert_leaves_batch sp_env [7] tree_init = Inr (0, t')" "write_front 68111 (encode_commitment_tree t') s2 = Inr s'" by blast
  then have "place_outputs sp_env 68111 [7] s2 = Inr s'" by (simp add: place_outputs_def)
  then show ?thesis
    using sp_transact [of False s2 s' I] p s2 by (auto simp: create_nullifier_records_def sp_record)
qed

lemma sp_queued_run: "process_transact I accept_all sp_env (sp_accounts True) (sp_data 16) sp_store = Inr sp_queue"
  using sp_transact [of True sp_spent sp_queue I] by (simp add: create_nullifier_records_def sp_record sp_queue_output)

definition sp_merge :: "account_info list" where
  "sp_merge = map demo_acc [88, 266, 68111, sp_leaf, 77]"

lemma sp_merge_run: "\<exists>s'. process_merge_queued_leaves sp_env sp_merge [] sp_queue = Inr s'"
proof -
  have q: "sp_queue 266 = dep_store 266" "sp_queue 68111 = dep_store 68111"
    "sp_queue sp_leaf = \<lparr>lamports = 5, owner = ASSET_PROGRAM_ID, adata = encode_queued_leaf sp_queued_leaf\<rparr>"
    by (simp_all add: sp_queue_def sp_spent_def)
  have val: "queued_leaf_validate (encode_queued_leaf sp_queued_leaf) = Inr sp_queued_leaf"
    by (rule queued_leaf_validate_encode) (simp_all add: sp_queued_leaf_def)
  obtain t' s1 where T: "tree_at sp_queue 68111 = Inr tree_init" "insert_leaves_batch sp_env [7] tree_init = Inr (0, t')"
    "write_front 68111 (encode_commitment_tree t') sp_queue = Inr s1" using sp_place [of sp_queue, OF q(2)] by blast
  have s1: "s1 266 = dep_store 266" "s1 sp_leaf = sp_queue sp_leaf" "s1 77 = dep_store 77" using T(3) q by (auto simp: res_simps sp_queue_def sp_spent_def sp_nullifier_def sp_leaf_def)
  note p1 = dep_pool_at(1) [of s1, OF s1(1)]
  obtain s2 where s2: "write_front 266 (encode_pool_state (add_nullifiers 1 dep_pool)) s1 = Inr s2"
    using psl.write_ok p1 unfolding pool_state_from_bytes_def by blast
  have l2: "s2 sp_leaf = sp_queue sp_leaf" "lamports (s2 77) = 5"
    using s2 s1 by (auto simp: res_simps) (simp add: dep_store_def blank_store_def)
  have pda: "pool_pda_ok sp_env sp_queue 266" using dep_pool_at(1,2) [of sp_queue, OF q(1)] by (simp add: pool_pda_ok_def)
  then have pda': "validate_pool_state_pda sp_env sp_queue (demo_acc 266) = Inr ()" by (simp add: validate_pool_state_pda_iff)
  have act: "ps_active_tree_index dep_pool = 0" "is_paused dep_pool = False"
    by (simp_all add: dep_pool_def demo_pool_def decode_pool_state_def is_paused_def bslice_def byte_at_def)
  have fields: "ql_tree_index sp_queued_leaf = 0" "ql_commitment sp_queued_leaf = 7" "ql_payer sp_queued_leaf = 77" "ql_nullifier_debt sp_queued_leaf = 1"
    by (simp_all add: sp_queued_leaf_def)
  have own: "owner (dep_store 266) = ASSET_PROGRAM_ID" "owner (dep_store 68111) = ASSET_PROGRAM_ID"
    by (simp_all add: dep_store_def settle_account_def)
  have ne: "encode_queued_leaf sp_queued_leaf \<noteq> []" by (simp add: encode_queued_leaf_def byte1_def)
  have far: "77 \<noteq> sp_leaf" "sp_leaf \<noteq> 77" by (simp_all add: sp_leaf_def)
  have "\<exists>s'. close_account_securely sp_leaf 77 s2 = Inr s'"
    using far by (simp add: close_account_securely_def l2 q ne checked_add_def Let_def)
  then obtain s' where "close_account_securely sp_leaf 77 s2 = Inr s'" by blast
  moreover have "check_leaves sp_env sp_queue 266 0 [] [(demo_acc sp_leaf, demo_acc 77)] = Inr [sp_queued_leaf]"
    by (simp add: check_leaf_def validate_program_owner_def validate_account_writable_def q val fields sp_pdas)
  ultimately show ?thesis
    using T p1 s2 dep_pool_at(1) [of sp_queue, OF q(1)]
    by (simp add: process_merge_queued_leaves_def MERGE_FIXED_ACCOUNTS_def MAX_MERGE_LEAVES_def sp_merge_def validate_program_owner_def q own
        validate_account_writable_def act validate_active_tree_pda_def pda' dep_pdas fields total_debt_def settle_debt_def)
qed

theorem transact_authorised_and_recorded_witness:
  "\<exists>s' i. process_transact sp_invoke accept_all sp_env (sp_accounts False) (sp_data 0) sp_store = Inr s' \<and>
     \<not> nullifier_spent sp_env sp_store 266 i 5 \<and> nullifier_spent sp_env s' 266 i 5"
proof -
  obtain s' where run: "process_transact sp_invoke accept_all sp_env (sp_accounts False) (sp_data 0) sp_store = Inr s'"
    using sp_inline_run by blast
  from transact_authorised_and_recorded [OF sp_system sp_kinds sp_world run] obtain h p pool i payer where
    "parse_header (sp_data 0) = Inr h" "parse_prefix sp_env sp_store (sp_data 0) (sp_accounts False) h (jh_n_outputs h) = Inr p"
    and T: "transferred accept_all sp_env (sp_accounts False) (sp_data 0) h p pool i payer sp_store s'" by blast
  then have "p = sp_prefix" using sp_parse(1) [of False] sp_parse(2) [where queued = False] by (simp add: sp_header_def)
  with T run show ?thesis by (auto simp: transferred_def Let_def sp_prefix_def)
qed

theorem no_double_spend_witness:
  "\<exists>s'. spend_run agree_rollups sp_env sp_store [sp_nullifier] s' \<and> nullifier_spent sp_env s' 266 0 5"
proof -
  have same: "same_chain agree_rollups sp_env sp_env sp_invoke" using sp_system sp_world by (simp add: same_chain_def)
  have keys: "record_keys (sp_accounts True) (sp_data 16) = [sp_nullifier]" by (simp add: record_keys_def) (simp add: sp_data_def)
  have a: "nullifier_address sp_env 266 0 5 = sp_nullifier" by (simp add: nullifier_address_def nullifier_seeds_def sp_pdas)
  have run: "spend_run agree_rollups sp_env sp_store [sp_nullifier] sp_queue"
    using run_transact [OF run_start same sp_queued_run] by (simp add: keys)
  from no_double_spend [OF sp_kinds run, of 266 0 5] run show ?thesis by (auto simp: a)
qed

theorem queued_then_merged_equals_inline_witness:
  "\<exists>s2 s'. process_merge_queued_leaves sp_env sp_merge [] sp_queue = Inr s2 \<and>
     process_transact sp_invoke accept_all sp_env (sp_accounts False) (sp_data 0) sp_store = Inr s' \<and>
     tree_at s2 68111 = tree_at s' 68111 \<and> pool_at s2 266 = pool_at s' 266"
proof -
  obtain s2 where m: "process_merge_queued_leaves sp_env sp_merge [] sp_queue = Inr s2" using sp_merge_run by blast
  obtain s' where i: "process_transact sp_invoke accept_all sp_env (sp_accounts False) (sp_data 0) sp_store = Inr s'"
    using sp_inline_run by blast
  have q: "parse_header (sp_data 16) = Inr (sp_header 16)"
    "parse_prefix sp_env sp_store (sp_data 16) (sp_accounts True) (sp_header 16) (jh_n_outputs (sp_header 16)) = Inr sp_prefix"
    "has_flag (jh_flags (sp_header 16)) QUEUED_LEAVES"
    using sp_parse(1) [of True] sp_parse(2) [where queued = True] by (simp_all add: sp_header_def sp_flag)
  have j: "parse_header (sp_data 0) = Inr (sp_header 0)"
    "parse_prefix sp_env sp_store (sp_data 0) (sp_accounts False) (sp_header 0) (jh_n_outputs (sp_header 0)) = Inr sp_prefix"
    "\<not> has_flag (jh_flags (sp_header 0)) QUEUED_LEAVES" "key (sp_accounts False ! 0) = key (sp_accounts True ! 0)"
    using sp_parse(1) [of False] sp_parse(2) [where queued = False] by (simp_all add: sp_header_def sp_flag)
  have k: "key (sp_merge ! 1) = key (sp_accounts True ! 0)"
    "leaf_keys (account_pairs (drop 3 sp_merge)) = map (leaf_address sp_env (key (sp_accounts True ! 0))) (jp_commitments_out sp_prefix)"
    by (simp_all add: sp_merge_def sp_prefix_def leaf_address_def sp_pdas)
  from queued_then_merged_equals_inline [OF sp_system sp_kinds sp_world q sp_queued_run k m j refl refl i] m i show ?thesis by auto
qed

theorem queued_leaf_overwritten_witness:
  "\<exists>s' q'. queue_output sp_env 266 0 99 (sp_data 16) 388 0 7 (demo_acc sp_leaf) sp_queue = Inr s' \<and>
     queued_leaf_validate (adata (sp_queue sp_leaf)) = Inr sp_queued_leaf \<and> ql_nullifier_debt sp_queued_leaf = 1 \<and>
     queued_leaf_validate (adata (s' sp_leaf)) = Inr q' \<and> ql_nullifier_debt q' = 0"
proof -
  have "queued_leaf_validate (encode_queued_leaf sp_queued_leaf) = Inr sp_queued_leaf"
    by (rule queued_leaf_validate_encode) (simp_all add: sp_queued_leaf_def)
  then have v: "queued_leaf_validate (adata (sp_queue (key (demo_acc sp_leaf)))) = Inr sp_queued_leaf" by (simp add: sp_queue_def)
  have k: "key (demo_acc sp_leaf) = leaf_address sp_env 266 7" by (simp add: leaf_address_def sp_pdas)
  from queued_leaf_overwritten [where s = sp_queue and a = "demo_acc sp_leaf", OF k _ v, of 0 99 "sp_data 16" 388 0] v show ?thesis
    by (auto simp: sp_queue_def sp_env_system) (simp add: sp_queued_leaf_def)
qed

end
