(* ===== verification/UX_Exit.thy ===== *)
theory UX_Exit
  imports UX_Spend
begin

text \<open>
  Two small components of the way out of the pool. The exit registry
  (\<open>state/exit_destination.rs\<close>, \<open>instructions/exit_destination.rs\<close>): one account
  per destination of a permissioned pool, whose existence is the membership. The rotation of a full
  commitment tree (\<open>instructions/rotate_tree.rs\<close>). The theorems say that registration only
  ever adds destinations, and that the notes of a rotated tree stay spendable.
\<close>

abbreviation ExitDestinationNotRegistered :: program_error where "ExitDestinationNotRegistered \<equiv> Custom 6097"

section \<open>The registry account\<close>

definition EXIT_DESTINATION_DISCRIMINATOR :: u8 where "EXIT_DESTINATION_DISCRIMINATOR = 0x0d"
definition EXIT_DESTINATION_VERSION :: u8 where "EXIT_DESTINATION_VERSION = 1"
definition EXIT_KIND_SOLANA_OWNER :: u8 where "EXIT_KIND_SOLANA_OWNER = 0"
definition EXIT_KIND_BTC_SCRIPT :: u8 where "EXIT_KIND_BTC_SCRIPT = 1"
definition EXIT_DESTINATION_LEN :: nat where "EXIT_DESTINATION_LEN = 36"
definition EXIT_DESTINATION_SEED :: bytes where "EXIT_DESTINATION_SEED = ascii ''exit_destination''"

definition is_valid_exit_kind :: "u8 \<Rightarrow> bool" where
  "is_valid_exit_kind kind \<longleftrightarrow> kind = EXIT_KIND_SOLANA_OWNER \<or> kind = EXIT_KIND_BTC_SCRIPT"

definition exit_destination_init :: "u8 \<Rightarrow> u8 \<Rightarrow> hash32 \<Rightarrow> bytes \<Rightarrow> bytes result" where
  "exit_destination_init bump kind k d =
     (if length d \<noteq> EXIT_DESTINATION_LEN then Inl InvalidAccountData
      else Inr ([EXIT_DESTINATION_DISCRIMINATOR, EXIT_DESTINATION_VERSION, bump, kind] @ bytes32 k))"

definition exit_destination_validate :: "bytes \<Rightarrow> unit result" where
  "exit_destination_validate d =
     (if length d \<noteq> EXIT_DESTINATION_LEN \<or> d ! 0 \<noteq> EXIT_DESTINATION_DISCRIMINATOR \<or> d ! 1 \<noteq> EXIT_DESTINATION_VERSION
      then Inl InvalidAccountData else Inr ())"

definition exit_kind :: "bytes \<Rightarrow> u8" where "exit_kind d = d ! 3"
definition exit_key :: "bytes \<Rightarrow> hash32" where "exit_key d = from_le (bslice 4 32 d)"

definition exit_destination_pda :: "env \<Rightarrow> pubkey \<Rightarrow> u8 \<Rightarrow> hash32 \<Rightarrow> pubkey \<times> u8" where
  "exit_destination_pda E pool kind k = find_program_address E [EXIT_DESTINATION_SEED, bytes32 pool, [kind], bytes32 k]"

text \<open>A destination that exists already is left as it is.\<close>

definition register_exit :: "env \<Rightarrow> pubkey \<Rightarrow> pubkey \<Rightarrow> u8 \<Rightarrow> u8 \<Rightarrow> hash32 \<Rightarrow> store \<Rightarrow> store result" where
  "register_exit E auditor dest bump kind k s =
     (if owner (s dest) = program_id E \<and> length (adata (s dest)) > 0
      then bindE (exit_destination_validate (adata (s dest))) (\<lambda>_. Inr s)
      else
      bindE (create_pda_account E auditor dest (rt_minimum_balance E EXIT_DESTINATION_LEN) (of_nat EXIT_DESTINATION_LEN) 5 s) (\<lambda>s1.
      bindE (exit_destination_init bump kind k (adata (s1 dest))) (\<lambda>new.
      Inr (set_data dest new s1))))"

definition REGISTER_DATA_LEN :: nat where "REGISTER_DATA_LEN = 1 + 32"

definition process_register_exit_destination :: "env \<Rightarrow> account_info list \<Rightarrow> bytes \<Rightarrow> store \<Rightarrow> store result" where
  "process_register_exit_destination E accounts d s =
     (if length accounts \<noteq> 4 then Inl NotEnoughAccountKeys
      else if length d \<noteq> REGISTER_DATA_LEN then Inl InvalidInstructionData
      else let auditor = accounts ! 0; pool_info = accounts ! 1; dest = key (accounts ! 2) in
      if \<not> is_signer auditor then Inl MissingRequiredSignature
      else
      bindE (validate_program_owner E s pool_info) (\<lambda>_.
      bindE (validate_pool_state_pda E s pool_info) (\<lambda>_.
      bindE (validate_account_writable (accounts ! 2)) (\<lambda>_.
      bindE (validate_system_program (accounts ! 3)) (\<lambda>_.
      let kind = d ! 0 in
      if \<not> is_valid_exit_kind kind then Inl InvalidInstructionData
      else let k = from_le (bslice 1 32 d) in
      bindE (pool_state_from_bytes (adata (s (key pool_info)))) (\<lambda>pool.
      if \<not> permissioned pool then Inl NotPermissioned
      else if key auditor \<noteq> ps_auditor pool then Inl Unauthorized
      else let (expected, bump) = exit_destination_pda E (key pool_info) kind k in
      if dest \<noteq> expected then Inl InvalidSeeds
      else register_exit E (key auditor) dest bump kind k s))))))"

definition assert_exit_destination_registered :: "env \<Rightarrow> store \<Rightarrow> pubkey \<Rightarrow> account_info \<Rightarrow> u8 \<Rightarrow> hash32 \<Rightarrow> unit result" where
  "assert_exit_destination_registered E s pool dest kind k =
     (let expected = fst (exit_destination_pda E pool kind k); d = adata (s (key dest)) in
      if key dest \<noteq> expected \<or> owner (s (key dest)) \<noteq> program_id E \<or> length d = 0 then Inl ExitDestinationNotRegistered
      else
      bindE (exit_destination_validate d) (\<lambda>_.
      if exit_kind d \<noteq> kind \<or> exit_key d \<noteq> k then Inl ExitDestinationNotRegistered else Inr ()))"

section \<open>Tree rotation\<close>

definition open_next_tree :: "env \<Rightarrow> pubkey \<Rightarrow> pubkey \<Rightarrow> pubkey \<Rightarrow> u32 \<Rightarrow> u8 \<Rightarrow> store \<Rightarrow> store result" where
  "open_next_tree E payer new_tree pk new_index new_bump s =
     bindE (create_pda_account E payer new_tree (rt_minimum_balance E TREE_LEN) (of_nat TREE_LEN) 4 s) (\<lambda>s1.
     bindE (ensure (\<not> length (adata (s1 new_tree)) < TREE_LEN) InvalidAccountData) (\<lambda>_.
     bindE (write_front new_tree (encode_commitment_tree (tree_init\<lparr>ct_bump := new_bump, ct_tree_index := new_index\<rparr>)) s1) (\<lambda>s2.
     bindE (pool_state_from_bytes (adata (s2 pk))) (\<lambda>p.
     write_front pk (encode_pool_state (p\<lparr>ps_active_tree_index := new_index\<rparr>)) s2))))"

definition process_rotate_tree :: "env \<Rightarrow> account_info list \<Rightarrow> bytes \<Rightarrow> store \<Rightarrow> store result" where
  "process_rotate_tree E accounts d s =
     (if length accounts < 5 then Inl NotEnoughAccountKeys
      else let pk = key (accounts ! 0); current = key (accounts ! 1); new_tree = key (accounts ! 2) in
      if \<not> is_signer (accounts ! 3) then Inl MissingRequiredSignature
      else
      bindE (validate_program_owner E s (accounts ! 0)) (\<lambda>_.
      bindE (validate_program_owner E s (accounts ! 1)) (\<lambda>_.
      bindE (validate_account_writable (accounts ! 0)) (\<lambda>_.
      bindE (validate_account_writable (accounts ! 2)) (\<lambda>_.
      bindE (validate_system_program (accounts ! 4)) (\<lambda>_.
      bindE (validate_pool_state_pda E s (accounts ! 0)) (\<lambda>_.
      bindE (pool_state_from_bytes (adata (s pk))) (\<lambda>pool.
      let current_index = ps_active_tree_index pool in
      if current \<noteq> fst (find_program_address E [TREE_SEED, bytes32 pk, bytes4 current_index]) then Inl InvalidSeeds
      else
      bindE (commitment_tree_from_bytes (adata (s current))) (\<lambda>tree.
      if ct_next_index tree < MAX_LEAVES then Inl InvalidInstructionData
      else let new_index = current_index + 1; pda = find_program_address E [TREE_SEED, bytes32 pk, bytes4 new_index] in
      if new_tree \<noteq> fst pda then Inl InvalidSeeds
      else open_next_tree E (key (accounts ! 3)) new_tree pk new_index (snd pda) s)))))))))"

section \<open>Registration only adds\<close>

definition exit_address :: "env \<Rightarrow> pubkey \<Rightarrow> u8 \<Rightarrow> hash32 \<Rightarrow> pubkey" where
  "exit_address E pool kind k = fst (exit_destination_pda E pool kind k)"

definition exit_registered :: "env \<Rightarrow> store \<Rightarrow> pubkey \<Rightarrow> u8 \<Rightarrow> hash32 \<Rightarrow> bool" where
  "exit_registered E s pool kind k \<longleftrightarrow> (let a = exit_address E pool kind k; d = adata (s a) in
     owner (s a) = program_id E \<and> exit_destination_validate d = Inr () \<and> exit_kind d = kind \<and> exit_key d = k)"

lemma assert_exit_iff [run_simps]:
  "assert_exit_destination_registered E s pool a kind k = Inr u \<longleftrightarrow>
     key a = exit_address E pool kind k \<and> exit_registered E s pool kind k"
  by (auto simp: assert_exit_destination_registered_def exit_registered_def exit_address_def Let_def run_simps
      exit_destination_validate_def EXIT_DESTINATION_LEN_def split: if_splits)

lemma exit_registered_cong:
  "adata (s' (exit_address E pool kind k)) = adata (s (exit_address E pool kind k)) \<Longrightarrow>
   owner (s' (exit_address E pool kind k)) = owner (s (exit_address E pool kind k)) \<Longrightarrow>
   exit_registered E s' pool kind k = exit_registered E s pool kind k"
  by (simp add: exit_registered_def Let_def)

lemma exit_registered_data: "exit_registered E s pool kind k \<Longrightarrow>
    owner (s (exit_address E pool kind k)) = program_id E \<and> length (adata (s (exit_address E pool kind k))) = 36 \<and>
    adata (s (exit_address E pool kind k)) ! 0 = 0x0d"
  by (auto simp: exit_registered_def Let_def exit_destination_validate_def EXIT_DESTINATION_LEN_def EXIT_DESTINATION_DISCRIMINATOR_def
      split: if_splits)

lemma exit_destination_init_ok:
  "exit_destination_init bump kind k d = Inr new \<Longrightarrow>
    exit_destination_validate new = Inr () \<and> exit_kind new = kind \<and> exit_key new = k"
  by (auto simp: exit_destination_init_def exit_destination_validate_def exit_kind_def exit_key_def EXIT_DESTINATION_LEN_def bslice_def
      split: if_splits)


section \<open>The notes of a rotated tree\<close>

lemma rotate_run:
  assumes "process_rotate_tree E accounts d s = Inr s'"
  defines "pk \<equiv> key (accounts ! 0)" and "old \<equiv> key (accounts ! 1)" and "new \<equiv> key (accounts ! 2)"
  shows "\<exists>pool tree bump. pool_at s pk = Inr pool \<and> pool_pda_ok E s pk \<and> owner (s old) = program_id E \<and>
    old = tree_address E pk (ps_active_tree_index pool) \<and> tree_at s old = Inr tree \<and> MAX_LEAVES \<le> ct_next_index tree \<and>
    new = tree_address E pk (ps_active_tree_index pool + 1) \<and>
    open_next_tree E (key (accounts ! 3)) new pk (ps_active_tree_index pool + 1) bump s = Inr s'"
proof -
  have "process_rotate_tree E accounts d s = Inr s'" by (rule assms(1))
  then show ?thesis
    unfolding process_rotate_tree_def Let_def pk_def old_def new_def tree_address_def
    by (simp only: run_simps) (elim exE conjE, intro exI conjI; (assumption | simp))
qed

lemma open_next_tree_run:
  assumes "open_next_tree E payer new pk i bump s = Inr s'"
  shows "\<exists>p s1 s2. create_or_claim_pda E payer new (rt_minimum_balance E TREE_LEN) (of_nat TREE_LEN) s = Inr s1 \<and>
    write_front new (encode_commitment_tree (tree_init\<lparr>ct_bump := bump, ct_tree_index := i\<rparr>)) s1 = Inr s2 \<and>
    pool_at s2 pk = Inr p \<and> write_front pk (encode_pool_state (p\<lparr>ps_active_tree_index := i\<rparr>)) s2 = Inr s'"
  using assms unfolding open_next_tree_def create_pda_account_def
  by (simp only: run_simps) (elim exE conjE, intro exI conjI; (assumption | simp))

lemma word_lt_Suc: "i < - 1 \<Longrightarrow> i < (i + 1 :: u32)"
proof -
  assume "i < - 1"
  then have "unat i < 2 ^ 32 - 1" by (simp add: word_less_nat_alt unsigned_minus_1_eq_mask mask_eq_exp_minus_1)
  then show ?thesis by (simp add: word_less_nat_alt unat_word_ariths)
qed

text \<open>
  C21. Rotation keeps every note spendable: it happens only when the active tree is full; the successor
  is a fresh empty tree at its own address that knows its index, and the pool points to it; the old
  tree is untouched, and every root it accepted, other than the root of the empty tree, is accepted
  afterwards as that of a frozen source tree of its index, which is what a spend of its notes needs.
\<close>

theorem rotation_keeps_notes_spendable:
  assumes spec: "system_program_spec E" and kinds: "pda_kinds_separate E"
    and run: "process_rotate_tree E accounts d s = Inr s'"
    and tree: "tree_at s (key (accounts ! 1)) = Inr t" and pool: "pool_at s (key (accounts ! 0)) = Inr p"
    and fresh: "key (accounts ! 2) \<noteq> key (accounts ! 1)"
    and index: "ct_tree_index t = ps_active_tree_index p" "ps_active_tree_index p < - 1"
  defines "pk \<equiv> key (accounts ! 0)" and "i \<equiv> ps_active_tree_index p"
  shows "MAX_LEAVES \<le> ct_next_index t \<and> pool_at s' pk = Inr (p\<lparr>ps_active_tree_index := i + 1\<rparr>) \<and>
    (\<exists>bump. tree_at s' (tree_address E pk (i + 1)) = Inr (tree_init\<lparr>ct_bump := bump, ct_tree_index := i + 1\<rparr>)) \<and>
    adata (s' (tree_address E pk i)) = adata (s (tree_address E pk i)) \<and>
    (is_valid_root root t \<longrightarrow> root \<noteq> ct_current_root tree_init \<longrightarrow>
      source_tree_of E s' (accounts ! 0) (accounts ! 2) (i + 1) (Some (accounts ! 1)) root = Inr i)"
proof -
  let ?old = "key (accounts ! 1)" and ?new = "key (accounts ! 2)"
  from rotate_run [OF run] obtain bump where pda: "pool_pda_ok E s pk" and own: "owner (s ?old) = program_id E"
    and a: "?old = tree_address E pk i" "?new = tree_address E pk (i + 1)" and full: "MAX_LEAVES \<le> ct_next_index t"
    and op: "open_next_tree E (key (accounts ! 3)) ?new pk (i + 1) bump s = Inr s'"
    using tree pool unfolding pk_def i_def by auto
  from open_next_tree_run [OF op] obtain q s1 s2 where
    c: "create_or_claim_pda E (key (accounts ! 3)) ?new (rt_minimum_balance E TREE_LEN) (of_nat TREE_LEN) s = Inr s1"
    and w: "write_front ?new (encode_commitment_tree (tree_init\<lparr>ct_bump := bump, ct_tree_index := i + 1\<rparr>)) s1 = Inr s2"
    and q: "pool_at s2 pk = Inr q" "write_front pk (encode_pool_state (q\<lparr>ps_active_tree_index := i + 1\<rparr>)) s2 = Inr s'" by auto
  have ne: "pk \<noteq> ?old" "pk \<noteq> ?new" "?old \<noteq> ?new" using addresses_apart(3) [OF kinds pda] a fresh by metis+
  note C = claim_then_write [OF spec c w]
  have s2: "adata (s2 k) = adata (s k) \<and> owner (s2 k) = owner (s k)" if "k \<noteq> ?new" for k using frameD [OF C(1)] that by simp
  have qp: "q = p" using q(1) s2 [of pk] ne pool by (simp add: pk_def)
  have disc: "ps_discriminator (q\<lparr>ps_active_tree_index := i + 1\<rparr>) = POOL_STATE_DISCRIMINATOR"
    using discriminator_at(1) [where s = s and k = pk and p = p] pool by (simp add: qp pk_def)
  note W = write_pool [OF q(2) disc]
  have s': "s' k = s2 k" if "k \<noteq> pk" for k using W(2) that by simp
  have tv: "tree_valid (tree_init\<lparr>ct_bump := bump, ct_tree_index := i + 1\<rparr>)"
    "ct_discriminator (tree_init\<lparr>ct_bump := bump, ct_tree_index := i + 1\<rparr>) = COMMITMENT_TREE_DISCRIMINATOR"
    by (simp_all add: tree_valid_def tree_init_def)
  have nt: "tree_at s' ?new = Inr (tree_init\<lparr>ct_bump := bump, ct_tree_index := i + 1\<rparr>)"
    using ctl.from_bytes_after_write [OF w tv] s' [of ?new] ne by (simp add: commitment_tree_from_bytes_def)
  have od: "adata (s' ?old) = adata (s ?old)" "owner (s' ?old) = program_id E" using s' [of ?old] s2 [of ?old] ne own by simp_all
  then have ot: "tree_at s' ?old = Inr t" using tree by simp
  have b: "adata (s' ?old) \<noteq> [] \<and> adata (s' ?old) ! 0 = COMMITMENT_TREE_DISCRIMINATOR"
    using ot by (auto simp: commitment_tree_from_bytes_def layout_from_bytes_def TREE_LEN_def split: if_splits)
  have np: "pool_at s' pk = Inr (p\<lparr>ps_active_tree_index := i + 1\<rparr>)" using W(1) by (simp add: qp)
  have "pool_pda_ok E s' pk" using pda np W(3) [of pk] s2 [of pk] ne pool by (auto simp: pool_pda_ok_def pk_def)
  then have vp: "validate_pool_state_pda E s' (accounts ! 0) = Inr ()" by (simp add: validate_pool_state_pda_iff pk_def)
  have lt: "\<not> i + 1 \<le> i" using word_lt_Suc [OF index(2)] by (simp add: i_def not_le)
  have "source_tree_of E s' (accounts ! 0) (accounts ! 2) (i + 1) (Some (accounts ! 1)) root = Inr i"
    if v: "is_valid_root root t" and r: "root \<noteq> ct_current_root tree_init"
  proof -
    have "\<not> is_valid_root root (tree_init\<lparr>ct_bump := bump, ct_tree_index := i + 1\<rparr>)"
      using r v by (auto simp: is_valid_root_def tree_init_def list_ex_iff split: if_splits)
    moreover have "validate_frozen_tree E s' (accounts ! 1) (accounts ! 0) (i + 1) root = Inr True"
      using b ot od lt vp a v index(1) by (simp add: validate_frozen_tree_def validate_program_owner_def Let_def tree_address_def i_def pk_def)
    ultimately show ?thesis using nt ot index(1) by (simp add: source_tree_of_def i_def)
  qed
  with full np nt od a show ?thesis by auto
qed

section \<open>Queued leaves of a full tree\<close>

lemma full_tree_refuses: "MAX_LEAVES \<le> ct_next_index t \<Longrightarrow> cs \<noteq> [] \<Longrightarrow> insert_leaves_batch E cs t \<noteq> Inr x"
  by (cases cs) (auto simp: insert_leaves_batch_def append_leaf_def Let_def)

text \<open>
  C22. Queued leaves can be stranded: a merge that contains a leaf queued for a tree that has become full
  fails, whether that tree is still the active one (it is full) or has been rotated away (the leaf
  names another tree). As a full tree never gets room again, the output of such a leaf cannot be
  placed any more, although its inputs are spent.
\<close>

theorem queued_leaf_stranded:
  assumes leaf: "(a, r) \<in> set (account_pairs (drop 3 accounts))" "queued_leaf_validate (adata (s (key a))) = Inr q"
    and full: "tree_at s (tree_address E (key (accounts ! 1)) (ql_tree_index q)) = Inr t" "MAX_LEAVES \<le> ct_next_index t"
  shows "process_merge_queued_leaves E accounts d s \<noteq> Inr s'"
proof
  assume "process_merge_queued_leaves E accounts d s = Inr s'"
  from merge_effect [OF this] obtain qs pool where M: "merged E accounts qs pool s s'" by blast
  let ?pk = "key (accounts ! 1)" and ?i = "ps_active_tree_index pool"
  from M have all: "list_all2 (\<lambda>(a, r) q. queued_leaf_validate (adata (s (key a))) = Inr q \<and> ql_tree_index q = ?i \<and> ql_payer q = key r)
      (account_pairs (drop 3 accounts)) qs" and ne: "qs \<noteq> []" and tk: "key (accounts ! 2) = tree_address E ?pk ?i"
    and ins: "\<exists>t first t'. tree_at s (key (accounts ! 2)) = Inr t \<and> insert_leaves_batch E (map ql_commitment qs) t = Inr (first, t')"
    by (auto simp: merged_def Let_def)
  from leaf(1) obtain j where j: "j < length (account_pairs (drop 3 accounts))" "account_pairs (drop 3 accounts) ! j = (a, r)"
    by (auto simp: in_set_conv_nth)
  from list_all2_nthD [OF all j(1)] j(2) leaf(2) have "ql_tree_index q = ?i" by auto
  with ins tk full ne show False by (auto simp: full_tree_refuses)
qed

section \<open>Concrete runs\<close>

definition perm_pool :: pool_state where
  "perm_pool = dep_pool\<lparr>ps_flags := 2, ps_auditor := 77\<rparr>"

definition perm_store :: store where
  "perm_store = sp_store(266 := settle_account ASSET_PROGRAM_ID (encode_pool_state perm_pool))"

lemma perm_pool_at:
  assumes "s 266 = perm_store 266"
  shows "pool_at s 266 = Inr perm_pool" and "pool_pda_ok sp_env s 266" and "permissioned perm_pool" and "ps_auditor perm_pool = 77"
proof -
  have s: "s 266 = settle_account ASSET_PROGRAM_ID (encode_pool_state perm_pool)" by (simp add: assms perm_store_def)
  have "ps_discriminator perm_pool = POOL_STATE_DISCRIMINATOR"
    by (simp add: perm_pool_def dep_pool_def demo_pool_def POOL_STATE_DISCRIMINATOR_def)
  from psl.from_bytes_encode [OF this] show pool: "pool_at s 266 = Inr perm_pool"
    by (simp add: s settle_account_def pool_state_from_bytes_def)
  then show "pool_pda_ok sp_env s 266"
    by (simp add: pool_pda_ok_def s settle_account_def) (simp add: perm_pool_def dep_pool_def demo_pool_def dep_pdas)
  show "permissioned perm_pool" "ps_auditor perm_pool = 77" by (simp_all add: permissioned_def perm_pool_def)
qed

definition exit_acc :: pubkey where "exit_acc = 21673573206788624"

lemma exit_pda: "exit_destination_pda sp_env 266 0 77 = (exit_acc, 255)"
  by (simp add: exit_destination_pda_def EXIT_DESTINATION_SEED_def ascii_def dep_pda_def exit_acc_def) code_simp


definition full_tree :: commitment_tree where
  "full_tree = tree_init\<lparr>ct_next_index := MAX_LEAVES, ct_current_root := be_hash 9\<rparr>"

definition full_store :: store where
  "full_store = sp_store(68111 := settle_account ASSET_PROGRAM_ID (encode_commitment_tree full_tree))"

theorem rotation_keeps_notes_spendable_witness:
  "\<exists>s'. process_rotate_tree sp_env (map demo_acc [266, 68111, 1099511695887, 77, 0]) [] full_store = Inr s' \<and>
     source_tree_of sp_env s' (demo_acc 266) (demo_acc 1099511695887) 1 (Some (demo_acc 68111)) (be_hash 9) = Inr 0"
proof -
  let ?accs = "map demo_acc [266, 68111, 1099511695887, 77, 0]" and ?new = "1099511695887 :: pubkey"
  have S: "full_store 266 = dep_store 266" "full_store ?new = \<lparr>lamports = 5, owner = 0, adata = []\<rparr>"
    "owner (full_store 68111) = ASSET_PROGRAM_ID" "owner (dep_store 266) = ASSET_PROGRAM_ID"
    by (simp_all add: full_store_def dep_store_def blank_store_def settle_account_def)
  have tv: "tree_valid full_tree" "ct_discriminator full_tree = COMMITMENT_TREE_DISCRIMINATOR"
    by (simp_all add: tree_valid_def full_tree_def tree_init_def)
  have t: "tree_at full_store 68111 = Inr full_tree"
    using ctl.from_bytes_overlay [OF tv, of "[]"] by (simp add: full_store_def settle_account_def commitment_tree_from_bytes_def)
  note p = dep_pool_at(1,2) [of full_store, OF S(1)]
  have pda: "validate_pool_state_pda sp_env full_store (demo_acc 266) = Inr ()" using p by (simp add: validate_pool_state_pda_iff pool_pda_ok_def)
  have act: "ps_active_tree_index dep_pool = 0" by (simp add: dep_pool_def demo_pool_def decode_pool_state_def bslice_def)
  have new: "dep_pda [TREE_SEED, bytes32 266, bytes4 1] q = (?new, 255)" for q
    by (simp add: dep_pda_def TREE_SEED_def ascii_def) code_simp
  define s1 where "s1 = full_store(?new := \<lparr>lamports = 5, owner = ASSET_PROGRAM_ID, adata = replicate TREE_LEN 0\<rparr>)"
  have c: "create_pda_account sp_env 77 ?new (rt_minimum_balance sp_env TREE_LEN) (of_nat TREE_LEN) 4 full_store = Inr s1"
    by (simp add: create_pda_account_def create_or_claim_pda_def S sp_env_system demo_allocate_def demo_assign_def TREE_LEN_def s1_def
        ASSET_PROGRAM_ID_def)
  let ?t = "tree_init\<lparr>ct_bump := 255, ct_tree_index := 1\<rparr>"
  have "tree_valid ?t" by (simp add: tree_valid_def tree_init_def)
  then obtain s2 where s2: "write_front ?new (encode_commitment_tree ?t) s1 = Inr s2"
    by (simp add: write_front_def put_front_def s1_def ctl.length_encode)
  then have "s2 266 = dep_store 266" using S(1) by (auto simp: res_simps s1_def)
  note p2 = dep_pool_at(1) [of s2, OF this]
  obtain s' where s': "write_front 266 (encode_pool_state (dep_pool\<lparr>ps_active_tree_index := 1\<rparr>)) s2 = Inr s'"
    using psl.write_ok p2 unfolding pool_state_from_bytes_def by blast
  have "open_next_tree sp_env 77 ?new 266 1 255 full_store = Inr s'"
    using c s2 p2 s' by (simp add: open_next_tree_def s1_def)
  then have run: "process_rotate_tree sp_env ?accs [] full_store = Inr s'"
    using p(1) t S pda act
    by (simp add: process_rotate_tree_def validate_program_owner_def validate_account_writable_def validate_system_program_def dep_pdas new)
      (simp add: full_tree_def)
  have n: "be_nat (ct_current_root tree_init) \<noteq> be_nat (be_hash 9)" "be_nat (be_hash 9) \<noteq> be_nat 0"
    by (simp_all add: tree_init_def ZERO_HASHES_def be_nat_be_hash TREE_DEPTH_def) (simp add: be_nat_def)
  then have "be_hash 9 \<noteq> 0" "be_hash 9 \<noteq> ct_current_root tree_init" by metis+
  moreover from this(1) have "is_valid_root (be_hash 9) full_tree" by (simp add: is_valid_root_def full_tree_def)
  moreover have "(0 :: u32) < - 1" by code_simp
  moreover have "ct_tree_index full_tree = 0" by (simp add: full_tree_def tree_init_def)
  ultimately show ?thesis
    using rotation_keeps_notes_spendable [OF sp_system sp_kinds run, where root = "be_hash 9" and t = full_tree and p = dep_pool] t p(1) act run by simp
qed


theorem queued_leaf_stranded_witness:
  "(\<forall>s'. process_merge_queued_leaves sp_env sp_merge []
     (sp_queue(68111 := settle_account ASSET_PROGRAM_ID (encode_commitment_tree full_tree))) \<noteq> Inr s') \<and>
   (\<exists>s'. process_merge_queued_leaves sp_env sp_merge [] sp_queue = Inr s')"
proof -
  let ?s = "sp_queue(68111 := settle_account ASSET_PROGRAM_ID (encode_commitment_tree full_tree))"
  have tv: "tree_valid full_tree" "ct_discriminator full_tree = COMMITMENT_TREE_DISCRIMINATOR"
    by (simp_all add: tree_valid_def full_tree_def tree_init_def)
  have t: "tree_at ?s 68111 = Inr full_tree"
    using ctl.from_bytes_overlay [OF tv, of "[]"] by (simp add: settle_account_def commitment_tree_from_bytes_def)
  have "queued_leaf_validate (encode_queued_leaf sp_queued_leaf) = Inr sp_queued_leaf"
    by (rule queued_leaf_validate_encode) (simp_all add: sp_queued_leaf_def)
  then have v: "queued_leaf_validate (adata (?s (key (demo_acc sp_leaf)))) = Inr sp_queued_leaf" by (simp add: sp_queue_def)
  have m: "(demo_acc sp_leaf, demo_acc 77) \<in> set (account_pairs (drop 3 sp_merge))" by (simp add: sp_merge_def)
  have a: "tree_address sp_env (key (sp_merge ! 1)) (ql_tree_index sp_queued_leaf) = 68111"
    by (simp add: tree_address_def sp_merge_def sp_queued_leaf_def dep_pdas)
  from queued_leaf_stranded [where s = ?s and E = sp_env, OF m v, unfolded a, OF t] sp_merge_run show ?thesis
    by (simp add: full_tree_def)
qed

end
