(* ===== verification/UX_Shield.thy ===== *)
theory UX_Shield
  imports UX_Exit
begin

text \<open>
  \<open>instructions/shield.rs\<close>: tokens enter the pool and become a note, through the open or the
  permissioned entry point. The transfer into the vault goes through the cross-program call
  \<open>I\<close>; \<open>token_transfer_spec\<close> names what the token programs promise of the two instructions
  that move tokens in and out of a vault. The theorem says that exactly what arrived in the vault is
  credited, split into note and fee, and that a depositor of a permissioned pool has a registered
  exit before and after.
\<close>

abbreviation InvalidCommitment :: program_error where "InvalidCommitment \<equiv> Custom 6006"

section \<open>Moving tokens\<close>

text \<open>
  A successful \<open>Transfer\<close> is between token accounts of the program, takes the amount from the source and gives
  the destination at most that (the token program may keep a transfer fee); to itself it changes no
  balance. A successful \<open>UnwrapLamports\<close> takes the amount from the source and leaves the data of another
  destination alone. Mint and owner of a token account, its first 64 bytes, stay.
\<close>

definition token_moved :: "pubkey \<Rightarrow> pubkey \<Rightarrow> store \<Rightarrow> store \<Rightarrow> bool" where
  "token_moved a b s s' \<longleftrightarrow> token_change a b s s' \<and> (\<forall>k. take 64 (adata (s' k)) = take 64 (adata (s k)))"

definition token_transfer_spec :: "invoke \<Rightarrow> bool" where
  "token_transfer_spec I \<longleftrightarrow> (\<forall>p \<in> {TOKEN_PROGRAM_ID, TOKEN_2022_PROGRAM_ID}. \<forall>a b auth amount seeds s s'.
     (I p [writable_meta a, writable_meta b, readonly_signer_meta auth] (TRANSFER # bytes8 amount) seeds s = Inr s' \<longrightarrow>
        token_moved a b s s' \<and> owner (s a) = p \<and> owner (s b) = p \<and>
        (if a = b then token_balance s' a = token_balance s a
         else token_balance s a = token_balance s' a + unat amount \<and> token_balance s b \<le> token_balance s' b \<and>
           token_balance s' b \<le> token_balance s b + unat amount)) \<and>
     (I p [writable_meta a, writable_meta b, readonly_signer_meta auth] ([UNWRAP_LAMPORTS, 1] @ bytes8 amount) seeds s = Inr s' \<longrightarrow>
        token_moved a b s s' \<and> owner (s a) = p \<and>
        (a \<noteq> b \<longrightarrow> token_balance s a = token_balance s' a + unat amount \<and> adata (s' b) = adata (s b))))"

lemma transfer_user_effect:
  assumes "token_transfer_spec I" and "p \<in> {TOKEN_PROGRAM_ID, TOKEN_2022_PROGRAM_ID}"
    and "transfer_token_user I p a b auth amount s = Inr s'"
  shows "token_change a b s s'" and "a = b \<Longrightarrow> token_balance s' a = token_balance s a"
    and "a \<noteq> b \<Longrightarrow> token_balance s a = token_balance s' a + unat amount \<and> token_balance s b \<le> token_balance s' b \<and>
      token_balance s' b \<le> token_balance s b + unat amount"
proof -
  have "token_change a b s s' \<and> (if a = b then token_balance s' a = token_balance s a
         else token_balance s a = token_balance s' a + unat amount \<and> token_balance s b \<le> token_balance s' b \<and>
           token_balance s' b \<le> token_balance s b + unat amount)"
    using assms unfolding token_transfer_spec_def transfer_token_user_def token_moved_def by blast
  then show "token_change a b s s'" "a = b \<Longrightarrow> token_balance s' a = token_balance s a"
    "a \<noteq> b \<Longrightarrow> token_balance s a = token_balance s' a + unat amount \<and> token_balance s b \<le> token_balance s' b \<and>
      token_balance s' b \<le> token_balance s b + unat amount" by simp_all
qed

section \<open>The handler\<close>

definition validate_token_config_pda :: "env \<Rightarrow> store \<Rightarrow> account_info \<Rightarrow> account_info \<Rightarrow> unit result" where
  "validate_token_config_pda E s token_config_account pool_account =
     bindE (validate_program_owner E s token_config_account) (\<lambda>_.
     bindE (validate_pool_state_pda E s pool_account) (\<lambda>_.
     bindE (token_config_from_bytes (adata (s (key token_config_account)))) (\<lambda>c.
     let pda = find_program_address E [TOKEN_CONFIG_SEED, bytes32 (key pool_account), bytes32 (tc_mint c)] in
     if key token_config_account \<noteq> fst pda \<or> tc_bump c \<noteq> snd pda then Inl InvalidSeeds else Inr ())))"

definition SHIELD_DATA_HEADER :: nat where "SHIELD_DATA_HEADER = 72"

definition shield_accounts :: "env \<Rightarrow> account_info list \<Rightarrow> store \<Rightarrow> unit result" where
  "shield_accounts E accounts s =
     bindE (validate_program_owner E s (accounts ! 3)) (\<lambda>_.
     bindE (validate_program_owner E s (accounts ! 5)) (\<lambda>_.
     bindE (validate_token_owner s (accounts ! 1)) (\<lambda>_.
     bindE (validate_token_owner s (accounts ! 4)) (\<lambda>_.
     bindE (validate_any_token_program_key (accounts ! 6)) (\<lambda>_.
     bindE (validate_account_writable (accounts ! 1)) (\<lambda>_.
     bindE (validate_account_writable (accounts ! 2)) (\<lambda>_.
     bindE (validate_account_writable (accounts ! 3)) (\<lambda>_.
     bindE (validate_account_writable (accounts ! 4)) (\<lambda>_.
     bindE (validate_account_writable (accounts ! 5)) (\<lambda>_.
     validate_token_config_pda E s (accounts ! 3) (accounts ! 2)))))))))))"

definition shield_pool :: "env \<Rightarrow> account_info list \<Rightarrow> store \<Rightarrow> pool_state result" where
  "shield_pool E accounts s =
     bindE (pool_state_from_bytes (adata (s (key (accounts ! 2))))) (\<lambda>pool.
     if is_paused pool then Inl PoolPaused
     else bindE (validate_active_tree_pda E s (accounts ! 5) (accounts ! 2) (ps_active_tree_index pool)) (\<lambda>_. Inr pool))"

text \<open>The token as configured: enabled, this vault, this mint, the requested amount within its limits.\<close>

definition shield_token :: "account_info list \<Rightarrow> u64 \<Rightarrow> store \<Rightarrow> token_config result" where
  "shield_token accounts amount s =
     bindE (token_config_from_bytes (adata (s (key (accounts ! 3))))) (\<lambda>tc.
     if tc_enabled tc = 0 then Inl TokenDisabled
     else if key (accounts ! 4) \<noteq> tc_vault tc then Inl InvalidVault
     else let d = adata (s (key (accounts ! 1))) in
     if length d < 32 then Inl InvalidAccountData
     else if from_le (bslice 0 32 d) \<noteq> tc_mint tc then Inl InvalidMint
     else if amount < tc_min_deposit tc \<or> amount > tc_max_deposit tc then Inl AmountOutOfRange
     else Inr tc)"

text \<open>What arrived, by the balance of the vault around the transfer.\<close>

definition shield_receive :: "invoke \<Rightarrow> account_info list \<Rightarrow> u64 \<Rightarrow> store \<Rightarrow> (u64 \<times> store) result" where
  "shield_receive I accounts amount s =
     bindE (get_token_balance s (accounts ! 4)) (\<lambda>vault_before.
     bindE (transfer_token_user I (key (accounts ! 6)) (key (accounts ! 1)) (key (accounts ! 4)) (key (accounts ! 0)) amount s) (\<lambda>s1.
     bindE (get_token_balance s1 (accounts ! 4)) (\<lambda>vault_after.
     bindE (ok_or (checked_sub vault_after vault_before) ArithmeticOverflow) (\<lambda>received. Inr (received, s1)))))"

text \<open>Fee and note, within the deposit cap of the token as it is after the transfer.\<close>

definition shield_split :: "u64 \<Rightarrow> u16 \<Rightarrow> u64 \<Rightarrow> pubkey \<Rightarrow> store \<Rightarrow> (u64 \<times> u64) result" where
  "shield_split received deposit_fee_bps deposit_cap tck s =
     (let protocol_fee = compute_bps_fee received deposit_fee_bps in
      bindE (ok_or (checked_sub received protocol_fee) ArithmeticOverflow) (\<lambda>shielded_amount.
      if shielded_amount = 0 then Inl AmountTooSmall
      else
      bindE (token_config_from_bytes (adata (s tck))) (\<lambda>tc.
      bindE (ok_or (checked_add (tc_total_shielded tc) shielded_amount) ArithmeticOverflow) (\<lambda>total.
      if total > deposit_cap then Inl DepositCapExceeded else Inr (protocol_fee, shielded_amount)))))"

definition add_note :: "env \<Rightarrow> pubkey \<Rightarrow> hash32 \<Rightarrow> store \<Rightarrow> store result" where
  "add_note E tree commitment s =
     bindE (commitment_tree_from_bytes (adata (s tree))) (\<lambda>t.
     bindE (insert_leaf E commitment t) (\<lambda>(leaf_index, t').
     write_front tree (encode_commitment_tree t') s))"

text \<open>The ledgers of the token and, for the pool's own token, of the pool.\<close>

definition sync_pool_total :: "env \<Rightarrow> bool \<Rightarrow> pubkey \<Rightarrow> u64 \<Rightarrow> store \<Rightarrow> store result" where
  "sync_pool_total E is_pool_zkbtc pk token_total s =
     (if is_pool_zkbtc
      then bindE (pool_state_from_bytes (adata (s pk))) (\<lambda>pool.
           write_front pk (encode_pool_state (pool\<lparr>ps_total_shielded := token_total, ps_last_update := clock_unix_timestamp E\<rparr>)) s)
      else Inr s)"

definition shield_ledgers :: "env \<Rightarrow> bool \<Rightarrow> pubkey \<Rightarrow> pubkey \<Rightarrow> u64 \<Rightarrow> u64 \<Rightarrow> store \<Rightarrow> store result" where
  "shield_ledgers E is_pool_zkbtc pk tck shielded_amount protocol_fee s =
     bindE (token_config_from_bytes (adata (s tck))) (\<lambda>tc.
     bindE (tc_add_shielded shielded_amount tc) (\<lambda>tc1.
     bindE (tc_add_fees protocol_fee tc1) (\<lambda>tc2.
     bindE (write_front tck (encode_token_config tc2) s) (\<lambda>s1.
     sync_pool_total E is_pool_zkbtc pk (tc_total_shielded tc2) s1))))"

definition shield_inner :: "invoke \<Rightarrow> env \<Rightarrow> account_info list \<Rightarrow> bytes \<Rightarrow> store \<Rightarrow> store result" where
  "shield_inner I E accounts d s =
     (let amount = from_le (bslice 0 8 d) :: u64; npk = from_le (bslice 8 32 d) :: hash32; tck = key (accounts ! 3) in
      bindE (shield_accounts E accounts s) (\<lambda>_.
      bindE (shield_pool E accounts s) (\<lambda>pool.
      bindE (shield_token accounts amount s) (\<lambda>tc.
      bindE (shield_receive I accounts amount s) (\<lambda>(received, s1).
      bindE (shield_split received (ps_deposit_fee_bps pool) (tc_deposit_cap tc) tck s1) (\<lambda>(protocol_fee, shielded_amount).
      bindE (compute_commitment E npk (tc_token_id tc) shielded_amount) (\<lambda>commitment.
      bindE (add_note E (key (accounts ! 5)) commitment s1) (\<lambda>s2.
      shield_ledgers E (tc_mint tc = ps_zkbtc_mint pool) (key (accounts ! 2)) tck shielded_amount protocol_fee s2))))))))"

definition process_shield :: "invoke \<Rightarrow> env \<Rightarrow> account_info list \<Rightarrow> bytes \<Rightarrow> store \<Rightarrow> store result" where
  "process_shield I E accounts d s =
     (if length accounts < 7 then Inl NotEnoughAccountKeys
      else if length d < SHIELD_DATA_HEADER then Inl InvalidInstructionData
      else if \<not> is_signer (accounts ! 0) then Inl MissingRequiredSignature
      else
      bindE (validate_program_owner E s (accounts ! 2)) (\<lambda>_.
      bindE (pool_state_from_bytes (adata (s (key (accounts ! 2))))) (\<lambda>pool.
      if permissioned pool then Inl NotPermissioned
      else shield_inner I E accounts d s)))"

definition process_shield_permissioned :: "invoke \<Rightarrow> env \<Rightarrow> account_info list \<Rightarrow> bytes \<Rightarrow> store \<Rightarrow> store result" where
  "process_shield_permissioned I E accounts d s =
     (if length accounts < 10 then Inl NotEnoughAccountKeys
      else if length d < SHIELD_DATA_HEADER then Inl InvalidInstructionData
      else if \<not> is_signer (accounts ! 0) then Inl MissingRequiredSignature
      else
      bindE (validate_program_owner E s (accounts ! 2)) (\<lambda>_.
      bindE (pool_state_from_bytes (adata (s (key (accounts ! 2))))) (\<lambda>pool.
      if \<not> permissioned pool then Inl NotPermissioned
      else if auditor_is_frozen pool then Inl AuditorFrozen
      else
      bindE (assert_exit_destination_registered E s (key (accounts ! 2)) (accounts ! 9) EXIT_KIND_SOLANA_OWNER (key (accounts ! 0))) (\<lambda>_.
      bindE (consume_policy_approval I E (accounts ! 7) (accounts ! 8) (accounts ! 2) (key (accounts ! 0)) (ps_auditor pool)
        SHIELD_PERMISSIONED_IX [d] s) (\<lambda>s1.
      shield_inner I E accounts d s1)))))"

section \<open>The steps of shielding\<close>

lemma token_ids: "policy_world R E I \<Longrightarrow> program_id E \<notin> {TOKEN_PROGRAM_ID, TOKEN_2022_PROGRAM_ID}"
  by (simp add: policy_world_def ASSET_PROGRAM_ID_def TOKEN_PROGRAM_ID_def TOKEN_2022_PROGRAM_ID_def)

lemma approval_only_other:
  assumes "approval_only E s s1" and "owner (s k) \<noteq> POLICY_PROGRAM_ID"
  shows "s1 k = s k"
  using assms by (auto simp: approval_only_def set_policy_status_def set_data_def)

lemma get_token_balance_ok: "get_token_balance s a = Inr b \<Longrightarrow> unat b = token_balance s (key a)"
  by (auto simp: get_token_balance_def Let_def token_balance_def split: if_splits)

lemma validate_token_config_pda_ok:
  "validate_token_config_pda E s a b = Inr u \<Longrightarrow> owner (s (key a)) = program_id E \<and> pool_pda_ok E s (key b) \<and>
    (\<exists>tc. token_at s (key a) = Inr tc \<and> key a = fst (find_program_address E [TOKEN_CONFIG_SEED, bytes32 (key b), bytes32 (tc_mint tc)]))"
  by (auto simp: validate_token_config_pda_def run_simps Let_def)

lemma shield_accounts_ok:
  assumes "shield_accounts E accounts s = Inr u"
  shows "owner (s (key (accounts ! 3))) = program_id E" and "owner (s (key (accounts ! 5))) = program_id E"
    and "owner (s (key (accounts ! 1))) \<in> {TOKEN_PROGRAM_ID, TOKEN_2022_PROGRAM_ID}"
    and "owner (s (key (accounts ! 4))) \<in> {TOKEN_PROGRAM_ID, TOKEN_2022_PROGRAM_ID}"
    and "key (accounts ! 6) \<in> {TOKEN_PROGRAM_ID, TOKEN_2022_PROGRAM_ID}" and "pool_pda_ok E s (key (accounts ! 2))"
  using assms by (auto simp: shield_accounts_def run_simps validate_token_owner_iff validate_any_token_program_key_iff
      dest!: validate_token_config_pda_ok)

lemma shield_receive_ok:
  assumes I: "token_transfer_spec I" and p: "key (accounts ! 6) \<in> {TOKEN_PROGRAM_ID, TOKEN_2022_PROGRAM_ID}"
    and run: "shield_receive I accounts amount s = Inr (received, s1)"
  defines "uta \<equiv> key (accounts ! 1)" and "vault \<equiv> key (accounts ! 4)"
  shows "token_change uta vault s s1" and "token_balance s1 vault = token_balance s vault + unat received"
    and "received \<noteq> 0 \<Longrightarrow> uta \<noteq> vault \<and> received \<le> amount \<and> token_balance s uta = token_balance s1 uta + unat amount"
proof -
  from run obtain a b where a: "unat a = token_balance s vault" "unat b = token_balance s1 vault"
    and c: "checked_sub b a = Some received"
    and t: "transfer_token_user I (key (accounts ! 6)) uta vault (key (accounts ! 0)) amount s = Inr s1"
    by (auto simp: shield_receive_def run_simps uta_def vault_def dest!: get_token_balance_ok)
  note T = transfer_user_effect [OF I p t]
  from unat_checked_sub [OF c] have d: "unat b = unat a + unat received" by simp
  then show "token_change uta vault s s1" "token_balance s1 vault = token_balance s vault + unat received"
    using T(1) a by simp_all
  show "uta \<noteq> vault \<and> received \<le> amount \<and> token_balance s uta = token_balance s1 uta + unat amount" if "received \<noteq> 0"
    using that T(2,3) a d by (cases "uta = vault") (auto simp: unat_eq_zero word_le_nat_alt)
qed

lemma shield_split_ok:
  assumes "shield_split received bps cap k s = Inr (fee, shielded)"
  shows "unat fee + unat shielded = unat received" and "0 < shielded" and "received \<noteq> 0"
    and "token_at s k = Inr tc \<Longrightarrow> unat (tc_total_shielded tc) + unat shielded \<le> unat cap"
  using assms by (auto simp: shield_split_def Let_def run_simps word_gt_0 word_le_nat_alt unat_eq_zero dest!: unat_checked_sub unat_checked_add)

lemma sync_pool_total_ok:
  assumes "sync_pool_total E z pk tot s = Inr s'" and "pool_at s pk = Inr p"
  shows "pool_at s' pk = Inr (if z then p\<lparr>ps_total_shielded := tot, ps_last_update := clock_unix_timestamp E\<rparr> else p)"
    and "k \<noteq> pk \<Longrightarrow> s' k = s k" and "owner (s' k) = owner (s k)"
proof -
  have "pool_at s' pk = Inr (if z then p\<lparr>ps_total_shielded := tot, ps_last_update := clock_unix_timestamp E\<rparr> else p) \<and>
    (k \<noteq> pk \<longrightarrow> s' k = s k) \<and> owner (s' k) = owner (s k)"
  proof (cases z)
    case True
    let ?p = "p\<lparr>ps_total_shielded := tot, ps_last_update := clock_unix_timestamp E\<rparr>"
    from True assms have w: "write_front pk (encode_pool_state ?p) s = Inr s'" by (simp add: sync_pool_total_def)
    have "ps_discriminator ?p = POOL_STATE_DISCRIMINATOR" using discriminator_at(1) [of s pk p] assms(2) by simp
    with write_pool [OF w this] True show ?thesis by simp
  next
    case False
    with assms show ?thesis by (simp add: sync_pool_total_def)
  qed
  then show "pool_at s' pk = Inr (if z then p\<lparr>ps_total_shielded := tot, ps_last_update := clock_unix_timestamp E\<rparr> else p)"
    "k \<noteq> pk \<Longrightarrow> s' k = s k" "owner (s' k) = owner (s k)" by blast+
qed

lemma shield_ledgers_ok:
  assumes run: "shield_ledgers E z pk tck shielded fee s = Inr s'" and tc: "token_at s tck = Inr tc" and p: "pool_at s pk = Inr p"
    and ne: "pk \<noteq> tck"
  shows "\<exists>a b. token_at s' tck = Inr (tc\<lparr>tc_total_shielded := a, tc_accumulated_fees := b\<rparr>) \<and>
      unat a = unat (tc_total_shielded tc) + unat shielded \<and> unat b = unat (tc_accumulated_fees tc) + unat fee \<and>
      pool_at s' pk = Inr (if z then p\<lparr>ps_total_shielded := a, ps_last_update := clock_unix_timestamp E\<rparr> else p)"
    and "k \<notin> {pk, tck} \<Longrightarrow> s' k = s k" and "owner (s' k) = owner (s k)"
proof -
  from run tc obtain a b s1 where a: "checked_add (tc_total_shielded tc) shielded = Some a"
    and b: "checked_add (tc_accumulated_fees tc) fee = Some b"
    and w: "write_front tck (encode_token_config (tc\<lparr>tc_total_shielded := a, tc_accumulated_fees := b\<rparr>)) s = Inr s1"
    and sy: "sync_pool_total E z pk a s1 = Inr s'"
    by (auto simp: shield_ledgers_def tc_add_shielded_def tc_add_fees_def run_simps)
  have "tc_discriminator (tc\<lparr>tc_total_shielded := a, tc_accumulated_fees := b\<rparr>) = TOKEN_CONFIG_DISCRIMINATOR"
    using discriminator_at(3) [of s tck tc] tc by simp
  note W = write_token [OF w this]
  have "pool_at s1 pk = Inr p" using p W(2) [of pk] ne by simp
  note S = sync_pool_total_ok [OF sy this]
  show "\<exists>a b. token_at s' tck = Inr (tc\<lparr>tc_total_shielded := a, tc_accumulated_fees := b\<rparr>) \<and>
      unat a = unat (tc_total_shielded tc) + unat shielded \<and> unat b = unat (tc_accumulated_fees tc) + unat fee \<and>
      pool_at s' pk = Inr (if z then p\<lparr>ps_total_shielded := a, ps_last_update := clock_unix_timestamp E\<rparr> else p)"
    using W(1) S(1) S(2) [of tck] ne unat_checked_add [OF a] unat_checked_add [OF b] by (intro exI [of _ a] exI [of _ b]) simp
  show "k \<notin> {pk, tck} \<Longrightarrow> s' k = s k" "owner (s' k) = owner (s k)" using W(2,3) S(2,3) by simp_all
qed

lemma add_note_ok:
  assumes "add_note E k c s = Inr s'"
  shows "\<exists>t i t'. tree_at s k = Inr t \<and> insert_leaf E c t = Inr (i, t') \<and> tree_at s' k = Inr t'"
    and "k' \<noteq> k \<Longrightarrow> s' k' = s k'" and "owner (s' k') = owner (s k')"
  using remint_ok [of E k c s s'] assms by (auto simp: add_note_def remint_def)

section \<open>What shielding does\<close>

text \<open>
  The effect of crediting \<open>received\<close> tokens, split into \<open>fee\<close> and note. The pool's own total follows
  the token's ledger when the token is the pool's.
\<close>

definition shielded_in :: "env \<Rightarrow> account_info list \<Rightarrow> bytes \<Rightarrow> pool_state \<Rightarrow> u64 \<Rightarrow> u64 \<Rightarrow> u64 \<Rightarrow> store \<Rightarrow> store \<Rightarrow> bool" where
  "shielded_in E accounts d pool received fee shielded s s' \<longleftrightarrow>
     (let uta = key (accounts ! 1); pk = key (accounts ! 2); tck = key (accounts ! 3); vault = key (accounts ! 4);
          tree = key (accounts ! 5); amount = from_le (bslice 0 8 d) :: u64 in
      pool_at s pk = Inr pool \<and> \<not> is_paused pool \<and>
      unat fee + unat shielded = unat received \<and> 0 < shielded \<and> received \<le> amount \<and> uta \<noteq> vault \<and>
      token_balance s uta = token_balance s' uta + unat amount \<and>
      token_balance s' vault = token_balance s vault + unat received \<and>
      (\<exists>tc a b c t i t'. token_at s tck = Inr tc \<and> tc_vault tc = vault \<and> tc_min_deposit tc \<le> amount \<and> amount \<le> tc_max_deposit tc \<and>
         token_at s' tck = Inr (tc\<lparr>tc_total_shielded := a, tc_accumulated_fees := b\<rparr>) \<and> a \<le> tc_deposit_cap tc \<and>
         unat a = unat (tc_total_shielded tc) + unat shielded \<and> unat b = unat (tc_accumulated_fees tc) + unat fee \<and>
         pool_at s' pk = Inr (if tc_mint tc = ps_zkbtc_mint pool
           then pool\<lparr>ps_total_shielded := a, ps_last_update := clock_unix_timestamp E\<rparr> else pool) \<and>
         compute_commitment E (from_le (bslice 8 32 d)) (tc_token_id tc) shielded = Inr c \<and>
         tree_at s tree = Inr t \<and> insert_leaf E c t = Inr (i, t') \<and> tree_at s' tree = Inr t'))"

lemma shield_run:
  assumes "shield_inner I E accounts d s = Inr s'"
  shows "\<exists>pool tc received s1 fee sh c s2. shield_accounts E accounts s = Inr () \<and> shield_pool E accounts s = Inr pool \<and>
    shield_token accounts (from_le (bslice 0 8 d)) s = Inr tc \<and>
    shield_receive I accounts (from_le (bslice 0 8 d)) s = Inr (received, s1) \<and>
    shield_split received (ps_deposit_fee_bps pool) (tc_deposit_cap tc) (key (accounts ! 3)) s1 = Inr (fee, sh) \<and>
    compute_commitment E (from_le (bslice 8 32 d)) (tc_token_id tc) sh = Inr c \<and> add_note E (key (accounts ! 5)) c s1 = Inr s2 \<and>
    shield_ledgers E (tc_mint tc = ps_zkbtc_mint pool) (key (accounts ! 2)) (key (accounts ! 3)) sh fee s2 = Inr s'"
  using assms unfolding shield_inner_def Let_def
  by (simp only: run_simps) (elim exE conjE, intro exI conjI; (assumption | simp))

lemma shield_effect:
  assumes I: "token_transfer_spec I" and P: "program_id E \<notin> {TOKEN_PROGRAM_ID, TOKEN_2022_PROGRAM_ID}"
    and run: "shield_inner I E accounts d s = Inr s'"
  defines "uta \<equiv> key (accounts ! 1)" and "pk \<equiv> key (accounts ! 2)" and "tck \<equiv> key (accounts ! 3)" and "vault \<equiv> key (accounts ! 4)"
    and "tree \<equiv> key (accounts ! 5)"
  shows "\<exists>pool received fee shielded. shielded_in E accounts d pool received fee shielded s s'"
    and "frame {uta, pk, tck, vault, tree} s s'" and "owner (s' k) = owner (s k)"
    and "owner (s uta) \<in> {TOKEN_PROGRAM_ID, TOKEN_2022_PROGRAM_ID}" and "owner (s vault) \<in> {TOKEN_PROGRAM_ID, TOKEN_2022_PROGRAM_ID}"
    and "pool_pda_ok E s pk" and "\<exists>t. tree_at s tree = Inr t" and "\<exists>tc. token_at s tck = Inr tc"
    and "owner (s tck) = program_id E" and "owner (s tree) = program_id E"
proof -
  let ?amount = "from_le (bslice 0 8 d) :: u64"
  from shield_run [OF run] obtain pool tc received s1 fee sh c s2 where chk: "shield_accounts E accounts s = Inr ()"
    and pl: "shield_pool E accounts s = Inr pool" and tk: "shield_token accounts ?amount s = Inr tc"
    and rc: "shield_receive I accounts ?amount s = Inr (received, s1)"
    and sp: "shield_split received (ps_deposit_fee_bps pool) (tc_deposit_cap tc) tck s1 = Inr (fee, sh)"
    and c: "compute_commitment E (from_le (bslice 8 32 d)) (tc_token_id tc) sh = Inr c" and an: "add_note E tree c s1 = Inr s2"
    and led: "shield_ledgers E (tc_mint tc = ps_zkbtc_mint pool) pk tck sh fee s2 = Inr s'"
    unfolding tck_def pk_def tree_def by blast
  note C = shield_accounts_ok [OF chk, folded uta_def pk_def tck_def vault_def tree_def]
  have p: "pool_at s pk = Inr pool" "\<not> is_paused pool" using pl by (auto simp: shield_pool_def run_simps pk_def)
  have t: "token_at s tck = Inr tc" "tc_vault tc = vault" "tc_min_deposit tc \<le> ?amount" "?amount \<le> tc_max_deposit tc"
    using tk by (auto simp: shield_token_def run_simps Let_def tck_def vault_def not_less split: if_splits)
  note R = shield_receive_ok [OF I C(5) rc, folded uta_def vault_def] and N = add_note_ok [OF an]
  note S = shield_split_ok [OF sp]
  note R3 = R(3) [OF S(3)]
  obtain tr i tr' where tr1: "tree_at s1 tree = Inr tr" "insert_leaf E c tr = Inr (i, tr')" "tree_at s2 tree = Inr tr'"
    using N(1) by blast
  have out: "pk \<notin> {uta, vault}" "tck \<notin> {uta, vault}" "tree \<notin> {uta, vault}" using C P by (auto simp: pool_pda_ok_def)
  have s1: "s1 pk = s pk" "s1 tck = s tck" "s1 tree = s tree" using R(1) out by (auto simp: token_change_def)
  have tr: "tree_at s tree = Inr tr" using tr1(1) s1 by simp
  have b: "adata (s tree) ! 0 = 0x05" "adata (s pk) ! 0 = 0x01" "adata (s tck) ! 0 = 0x0B"
    using p(1) t(1) tr by (auto dest: first_byte_at)
  have d: "pk \<noteq> tck" "pk \<noteq> tree" "tck \<noteq> tree" using b by auto
  have s2: "pool_at s2 pk = Inr pool" "token_at s2 tck = Inr tc" using N(2) [of pk] N(2) [of tck] s1 d p t by simp_all
  note L = shield_ledgers_ok [OF led s2(2,1) d(1)]
  from L(1) obtain a f where L1: "token_at s' tck = Inr (tc\<lparr>tc_total_shielded := a, tc_accumulated_fees := f\<rparr>)"
      "unat a = unat (tc_total_shielded tc) + unat sh" "unat f = unat (tc_accumulated_fees tc) + unat fee"
      "pool_at s' pk = Inr (if tc_mint tc = ps_zkbtc_mint pool
           then pool\<lparr>ps_total_shielded := a, ps_last_update := clock_unix_timestamp E\<rparr> else pool)" by blast
  have s': "s' k = s1 k" if "k \<notin> {pk, tck, tree}" for k using that L(2) [of k] N(2) [of k] by simp
  have uv: "s' uta = s1 uta" "s' vault = s1 vault" by (rule s'; use out in auto)+
  have "s' tree = s2 tree" by (rule L(2)) (use d in auto)
  then have tr': "tree_at s' tree = Inr tr'" using tr1(3) by simp
  have cap: "a \<le> tc_deposit_cap tc" using S(4) [of tc] t(1) s1(2) L1(2) by (simp add: word_le_nat_alt)
  have "shielded_in E accounts d pool received fee sh s s'"
    unfolding shielded_in_def Let_def uta_def [symmetric] pk_def [symmetric] tck_def [symmetric] vault_def [symmetric] tree_def [symmetric]
    using S(1,2) R3 R(2) uv p t
    by (intro conjI exI [of _ tc] exI [of _ a] exI [of _ f] exI [of _ c] exI [of _ tr] exI [of _ i] exI [of _ tr'] L1 cap c tr tr1(2) tr')
      (simp_all add: token_balance_def)
  then show "\<exists>pool received fee shielded. shielded_in E accounts d pool received fee shielded s s'" by blast
  show "frame {uta, pk, tck, vault, tree} s s'" using s' R(1) by (simp add: frame_def token_change_def)
  show "owner (s' k) = owner (s k)" using L(3) N(3) R(1) by (simp add: token_change_def)
  show "owner (s uta) \<in> {TOKEN_PROGRAM_ID, TOKEN_2022_PROGRAM_ID}" "owner (s vault) \<in> {TOKEN_PROGRAM_ID, TOKEN_2022_PROGRAM_ID}"
    "pool_pda_ok E s pk" "\<exists>t. tree_at s tree = Inr t" "\<exists>tc. token_at s tck = Inr tc" "owner (s tck) = program_id E" "owner (s tree) = program_id E"
    using C tr t(1) by blast+
qed

lemma exit_kept:
  assumes "exit_registered E s q i x" and "frame K s s'"
    and "\<And>k. k \<in> K \<Longrightarrow> owner (s k) \<noteq> program_id E \<or> adata (s k) ! 0 \<noteq> 0x0d"
  shows "exit_registered E s' q i x"
proof -
  have "exit_address E q i x \<notin> K" using assms(3) exit_registered_data [OF assms(1)] by blast
  with frameD [OF assms(2)] assms(1) exit_registered_cong show ?thesis by blast
qed

lemma shielded_in_cong:
  assumes "\<And>k. k \<in> {key (accounts ! 1), key (accounts ! 2), key (accounts ! 3), key (accounts ! 4), key (accounts ! 5)} \<Longrightarrow> s1 k = s k"
    and "shielded_in E accounts d pool received fee shielded s1 s'"
  shows "shielded_in E accounts d pool received fee shielded s s'"
  using assms(2) by (simp add: shielded_in_def Let_def assms(1) token_balance_def)

text \<open>The effect seen from a store in which an approval was not yet consumed.\<close>

lemma shield_after_approval:
  assumes I: "token_transfer_spec I" and w: "policy_world R E I" and ap: "approval_only E s s1"
    and run: "shield_inner I E accounts d s1 = Inr s'"
  defines "K \<equiv> {key (accounts ! 1), key (accounts ! 2), key (accounts ! 3), key (accounts ! 4), key (accounts ! 5)}"
  shows "\<exists>pool received fee shielded. shielded_in E accounts d pool received fee shielded s s'"
    and "frame (K \<union> {k. owner (s k) = POLICY_PROGRAM_ID}) s s'"
    and "exit_registered E s q i x \<Longrightarrow> exit_registered E s' q i x"
proof -
  note T = token_ids [OF w]
  have aid: "program_id E = ASSET_PROGRAM_ID" using w by (simp add: policy_world_def)
  note F = shield_effect [OF I T run]
  have own: "owner (s1 k) = owner (s k)" for k using approval_only_keeps(3) [OF ap aid] .
  have pid: "POLICY_PROGRAM_ID \<notin> {TOKEN_PROGRAM_ID, TOKEN_2022_PROGRAM_ID}" "POLICY_PROGRAM_ID \<noteq> program_id E"
    using policy_asset_ids aid by (simp_all add: TOKEN_PROGRAM_ID_def TOKEN_2022_PROGRAM_ID_def POLICY_PROGRAM_ID_def)
  have notpol: "owner (s k) \<noteq> POLICY_PROGRAM_ID" if "k \<in> K" for k
    using that F(4,5,6,9,10) pid own unfolding K_def pool_pda_ok_def by auto
  then have same: "s1 k = s k" if "k \<in> K" for k using that approval_only_other [OF ap] by blast
  then show "\<exists>pool received fee shielded. shielded_in E accounts d pool received fee shielded s s'"
  proof -
    from F(1) obtain pool received fee shielded where e: "shielded_in E accounts d pool received fee shielded s1 s'" by blast
    have "shielded_in E accounts d pool received fee shielded s s'"
      by (rule shielded_in_cong [where ?s1.0 = s1]) (use same e in \<open>auto simp: K_def\<close>)
    then show ?thesis by blast
  qed
  have F2: "frame K s1 s'" using F(2) unfolding K_def .
  have "frame {k. owner (s k) = POLICY_PROGRAM_ID} s s1" using approval_only_other [OF ap] by (auto simp: frame_def)
  from frame_trans [OF this F2] show fr: "frame (K \<union> {k. owner (s k) = POLICY_PROGRAM_ID}) s s'" by (simp add: Un_commute)
  have byte: "owner (s k) \<noteq> program_id E \<or> adata (s k) ! 0 \<noteq> 0x0d" if k: "k \<in> K \<union> {k. owner (s k) = POLICY_PROGRAM_ID}" for k
  proof (cases "owner (s k) = program_id E")
    case True
    with k pid(2) have "k \<in> K" by auto
    with True own F(4,5) T have "k \<in> {key (accounts ! 2), key (accounts ! 3), key (accounts ! 5)}" unfolding K_def by auto
    moreover have "adata (s (key (accounts ! 5))) ! 0 = 0x05" "adata (s (key (accounts ! 2))) ! 0 = 0x01"
      "adata (s (key (accounts ! 3))) ! 0 = 0x0B"
      using F(6,7,8) same by (auto simp: pool_pda_ok_def K_def dest: first_byte_at)
    ultimately show ?thesis by auto
  qed simp
  show "exit_registered E s q i x \<Longrightarrow> exit_registered E s' q i x" by (rule exit_kept [OF _ fr byte])
qed

lemma shield_run_effect:
  assumes w: "policy_world R E I" and I: "token_transfer_spec I"
    and run: "process_shield I E accounts d s = Inr s' \<or> process_shield_permissioned I E accounts d s = Inr s'"
  defines "pk \<equiv> key (accounts ! 2)" and "user \<equiv> key (accounts ! 0)"
  shows "is_signer (accounts ! 0) \<and>
    (\<exists>pool received fee shielded. shielded_in E accounts d pool received fee shielded s s' \<and>
       (permissioned pool \<longrightarrow> \<not> auditor_is_frozen pool \<and>
          approval_grants E s (key (accounts ! 7)) pk user (ps_auditor pool) SHIELD_PERMISSIONED_IX [d] \<and>
          exit_registered E s pk 0 user \<and> exit_registered E s' pk 0 user)) \<and>
    frame ({key (accounts ! 1), pk, key (accounts ! 3), key (accounts ! 4), key (accounts ! 5)} \<union>
      {k. owner (s k) = POLICY_PROGRAM_ID}) s s'"
proof -
  have "\<exists>p s1. pool_at s pk = Inr p \<and> is_signer (accounts ! 0) \<and> approval_only E s s1 \<and> shield_inner I E accounts d s1 = Inr s' \<and>
    (permissioned p \<longrightarrow> \<not> auditor_is_frozen p \<and>
      approval_grants E s (key (accounts ! 7)) pk user (ps_auditor p) SHIELD_PERMISSIONED_IX [d] \<and> exit_registered E s pk 0 user)"
    using run
  proof
    assume "process_shield I E accounts d s = Inr s'"
    then show ?thesis by (auto simp: process_shield_def run_simps pk_def approval_only_def split: if_splits)
  next
    assume "process_shield_permissioned I E accounts d s = Inr s'"
    then obtain p s1 where p: "pool_at s pk = Inr p" "permissioned p" "\<not> auditor_is_frozen p" "is_signer (accounts ! 0)"
      and x: "exit_registered E s pk 0 user"
      and c: "consume_policy_approval I E (accounts ! 7) (accounts ! 8) (accounts ! 2) user (ps_auditor p) SHIELD_PERMISSIONED_IX [d] s = Inr s1"
      and r: "shield_inner I E accounts d s1 = Inr s'"
      by (auto simp: process_shield_permissioned_def run_simps pk_def user_def EXIT_KIND_SOLANA_OWNER_def)
    from consume_approval_only [where pool_info = "accounts ! 2" and s = s and pool = p, OF w p(1) [unfolded pk_def] p(2,3) c] p x r
    show ?thesis unfolding pk_def by blast
  qed
  then obtain p s1 where p: "pool_at s pk = Inr p" "is_signer (accounts ! 0)" and ap: "approval_only E s s1"
    and r: "shield_inner I E accounts d s1 = Inr s'"
    and perm: "permissioned p \<longrightarrow> \<not> auditor_is_frozen p \<and>
      approval_grants E s (key (accounts ! 7)) pk user (ps_auditor p) SHIELD_PERMISSIONED_IX [d] \<and> exit_registered E s pk 0 user" by blast
  note F = shield_after_approval [OF I w ap r]
  from F(1) obtain pool received fee shielded where sh: "shielded_in E accounts d pool received fee shielded s s'" by blast
  then have "pool = p" using p(1) by (auto simp: shielded_in_def Let_def pk_def)
  with sh perm p(2) F(2,3) show ?thesis unfolding pk_def by blast
qed


section \<open>A concrete shield\<close>

definition move_tokens :: "pubkey \<Rightarrow> pubkey \<Rightarrow> pubkey \<Rightarrow> nat \<Rightarrow> store \<Rightarrow> store result" where
  "move_tokens p a b n s =
     (if length (adata (s a)) < 72 \<or> length (adata (s b)) < 72 \<or> owner (s a) \<noteq> p \<or> owner (s b) \<noteq> p then Inl InvalidAccountData
      else if a = b then Inr s
      else let x = token_balance s a; y = token_balance s b in
      if x < n \<or> 2 ^ 64 \<le> y + n then Inl InsufficientFunds
      else Inr (set_data a (put_at 64 (bytes8 (of_nat (x - n) :: u64)) (adata (s a)))
             (set_data b (put_at 64 (bytes8 (of_nat (y + n) :: u64)) (adata (s b))) s)))"

definition unwrap_tokens :: "pubkey \<Rightarrow> pubkey \<Rightarrow> pubkey \<Rightarrow> nat \<Rightarrow> store \<Rightarrow> store result" where
  "unwrap_tokens p a b n s =
     (if length (adata (s a)) < 72 \<or> owner (s a) \<noteq> p \<or> a = b then Inl InvalidAccountData
      else if token_balance s a < n then Inl InsufficientFunds
      else Inr (set_data a (put_at 64 (bytes8 (of_nat (token_balance s a - n) :: u64)) (adata (s a))) s))"

definition wd_pda :: "bytes list \<Rightarrow> pubkey \<Rightarrow> pubkey \<times> u8" where
  "wd_pda seeds p = (if hd seeds = REDEMPTION_SEED
     then (250 + 256 * from_le (concat (map (take 4) (tl seeds))), 255) else dep_pda seeds p)"

definition wd_env :: env where
  "wd_env = sp_env\<lparr>rt_poseidon3 := (\<lambda>_ _ _. Inr 7), rt_find_pda := wd_pda\<rparr>"

lemma wd_env_simps [simp]:
  "program_id wd_env = ASSET_PROGRAM_ID" "find_program_address wd_env seeds = wd_pda seeds ASSET_PROGRAM_ID"
  by (simp_all add: wd_env_def find_program_address_def)

lemma wd_pda_dep [simp]: "hd seeds \<noteq> REDEMPTION_SEED \<Longrightarrow> wd_pda seeds p = dep_pda seeds p"
  by (simp add: wd_pda_def)

lemma redemption_seed_differs [simp]: "POOL_STATE_SEED \<noteq> REDEMPTION_SEED" "TREE_SEED \<noteq> REDEMPTION_SEED" "TOKEN_CONFIG_SEED \<noteq> REDEMPTION_SEED"
    "NULLIFIER_SEED \<noteq> REDEMPTION_SEED" "VK_REGISTRY_SEED \<noteq> REDEMPTION_SEED" "QUEUED_LEAF_SEED \<noteq> REDEMPTION_SEED"
    "EXIT_DESTINATION_SEED \<noteq> REDEMPTION_SEED"
  by (simp_all add: POOL_STATE_SEED_def TREE_SEED_def TOKEN_CONFIG_SEED_def NULLIFIER_SEED_def VK_REGISTRY_SEED_def QUEUED_LEAF_SEED_def
      EXIT_DESTINATION_SEED_def REDEMPTION_SEED_def ascii_def)

definition wd_invoke :: invoke where
  "wd_invoke p metas d seeds s =
     (if p = POLICY_PROGRAM_ID
      then policy_process_instruction agree_rollups (wd_env\<lparr>program_id := POLICY_PROGRAM_ID\<rparr>) (map meta_info metas) d s
      else case (metas, d) of
        ([a, b, c], op # rest) \<Rightarrow>
          if op = TRANSFER then move_tokens p (meta_key a) (meta_key b) (unat (from_le rest :: u64)) s
          else if op = UNWRAP_LAMPORTS then unwrap_tokens p (meta_key a) (meta_key b) (unat (from_le (tl rest) :: u64)) s
          else Inl InvalidInstructionData
      | _ \<Rightarrow> Inl InvalidInstructionData)"

lemma balance_bound: "token_balance s k < 2 ^ 64"
  using unsigned_less [of "from_le (bslice 64 8 (adata (s k))) :: u64", where 'a = nat] by (simp add: token_balance_def)

lemma put_at_head: "72 \<le> length d \<Longrightarrow> take 64 (put_at 64 b d) = take 64 d"
  by (simp add: put_at_def)

lemma move_tokens_ok:
  assumes "move_tokens p a b n s = Inr s'"
  shows "token_moved a b s s'" and "owner (s a) = p" and "owner (s b) = p" and "a = b \<Longrightarrow> s' = s"
    and "a \<noteq> b \<Longrightarrow> token_balance s a = token_balance s' a + n \<and> token_balance s' b = token_balance s b + n"
proof -
  show "token_moved a b s s'" "owner (s a) = p" "owner (s b) = p" "a = b \<Longrightarrow> s' = s"
    using assms by (auto simp: move_tokens_def Let_def token_moved_def token_change_def set_data_def put_at_head split: if_splits)
  show "token_balance s a = token_balance s' a + n \<and> token_balance s' b = token_balance s b + n" if "a \<noteq> b"
    using that assms balance_bound [of s a]
    by (auto simp: move_tokens_def Let_def not_less not_le token_balance_def [of s'] put_at_read unat_of_nat split: if_splits
        simp del: of_nat_add of_nat_diff)
qed

lemma unwrap_tokens_ok:
  assumes "unwrap_tokens p a b n s = Inr s'"
  shows "token_moved a b s s'" and "owner (s a) = p" and "token_balance s a = token_balance s' a + n" and "adata (s' b) = adata (s b)"
proof -
  show "token_moved a b s s'" "owner (s a) = p" "adata (s' b) = adata (s b)"
    using assms by (auto simp: unwrap_tokens_def token_moved_def token_change_def set_data_def put_at_head split: if_splits)
  show "token_balance s a = token_balance s' a + n"
    using assms balance_bound [of s a]
    by (auto simp: unwrap_tokens_def not_less token_balance_def [of s'] put_at_read unat_of_nat split: if_splits
        simp del: of_nat_add of_nat_diff)
qed

lemma policy_not_token: "POLICY_PROGRAM_ID \<notin> {TOKEN_PROGRAM_ID, TOKEN_2022_PROGRAM_ID}"
  by (simp add: TOKEN_PROGRAM_ID_def TOKEN_2022_PROGRAM_ID_def POLICY_PROGRAM_ID_def)

lemma wd_world: "policy_world agree_rollups wd_env wd_invoke"
  by (simp add: policy_world_def policy_runtime_def wd_invoke_def agree_rollups_def)

lemma wd_invoke_token:
  assumes "p \<in> {TOKEN_PROGRAM_ID, TOKEN_2022_PROGRAM_ID}"
  shows "wd_invoke p [writable_meta a, writable_meta b, readonly_signer_meta c] (TRANSFER # bytes8 n) sd s =
      move_tokens p a b (unat (n :: u64)) s"
    and "wd_invoke p [writable_meta a, writable_meta b, readonly_signer_meta c] ([UNWRAP_LAMPORTS, 1] @ bytes8 n) sd s =
      unwrap_tokens p a b (unat n) s"
  using assms policy_not_token by (auto simp: wd_invoke_def writable_meta_def TRANSFER_def UNWRAP_LAMPORTS_def)

lemma wd_spec: "token_transfer_spec wd_invoke"
proof -
  note e = wd_invoke_token
  show ?thesis unfolding token_transfer_spec_def
  proof (intro ballI allI conjI impI)
    fix p a b c sd s s' and n :: u64
    assume p: "p \<in> {TOKEN_PROGRAM_ID, TOKEN_2022_PROGRAM_ID}"
    { assume "wd_invoke p [writable_meta a, writable_meta b, readonly_signer_meta c] (TRANSFER # bytes8 n) sd s = Inr s'"
      then have m: "move_tokens p a b (unat n) s = Inr s'" using e(1) [OF p] by simp
      show "token_moved a b s s'" "owner (s a) = p" "owner (s b) = p" using move_tokens_ok(1-3) [OF m] .
      show "if a = b then token_balance s' a = token_balance s a
         else token_balance s a = token_balance s' a + unat n \<and> token_balance s b \<le> token_balance s' b \<and>
           token_balance s' b \<le> token_balance s b + unat n"
        using move_tokens_ok(4,5) [OF m] by auto }
    { assume "wd_invoke p [writable_meta a, writable_meta b, readonly_signer_meta c] ([UNWRAP_LAMPORTS, 1] @ bytes8 n) sd s = Inr s'"
      then have m: "unwrap_tokens p a b (unat n) s = Inr s'" using e(2) [OF p] by simp
      show "token_moved a b s s'" "owner (s a) = p" "token_balance s a = token_balance s' a + unat n" "adata (s' b) = adata (s b)"
        using unwrap_tokens_ok [OF m] by simp_all }
  qed
qed

definition wd_token :: token_config where "wd_token = dep_token\<lparr>tc_bump := 255, tc_total_shielded := 5000\<rparr>"

abbreviation dep_tok :: pubkey where "dep_tok \<equiv> 1099511695884"

definition wd_ps :: pool_state where "wd_ps = dep_pool\<lparr>ps_total_shielded := 5000\<rparr>"

definition wd_store :: store where
  "wd_store = sp_store(266 := settle_account ASSET_PROGRAM_ID (encode_pool_state wd_ps),
     dep_tok := settle_account ASSET_PROGRAM_ID (encode_token_config wd_token),
     6 := settle_account TOKEN_PROGRAM_ID (bytes32 1 @ replicate 32 0 @ bytes8 100000 @ replicate 93 0))"


definition shield_demo_accounts :: "account_info list" where
  "shield_demo_accounts = map demo_acc [77, 6, 266, dep_tok, 5, 68111, TOKEN_PROGRAM_ID]"

definition shield_demo_data :: bytes where "shield_demo_data = bytes8 1000 @ bytes32 7 @ bytes32 0"

lemma wd_at:
  "token_at wd_store dep_tok = Inr wd_token" "pool_at wd_store 266 = Inr wd_ps" "tree_at wd_store 68111 = Inr tree_init"
  "validate_pool_state_pda wd_env wd_store (demo_acc 266) = Inr ()"
  "owner (wd_store dep_tok) = ASSET_PROGRAM_ID" "owner (wd_store 266) = ASSET_PROGRAM_ID" "owner (wd_store 68111) = ASSET_PROGRAM_ID"
  "owner (wd_store 5) = TOKEN_PROGRAM_ID" "owner (wd_store 6) = TOKEN_PROGRAM_ID"
  "adata (wd_store 5) = replicate 64 0 @ bytes8 100000 @ replicate 93 0"
  "adata (wd_store 6) = bytes32 1 @ replicate 32 0 @ bytes8 100000 @ replicate 93 0"
proof -
  have td: "tc_discriminator wd_token = TOKEN_CONFIG_DISCRIMINATOR"
    by (simp add: wd_token_def dep_token_def demo_token_def TOKEN_CONFIG_DISCRIMINATOR_def)
  show "token_at wd_store dep_tok = Inr wd_token"
    using tcl.from_bytes_encode [OF td] by (simp add: wd_store_def dep_store_def settle_account_def token_config_from_bytes_def)
  have pd: "ps_discriminator wd_ps = POOL_STATE_DISCRIMINATOR" by (simp add: wd_ps_def dep_pool_def demo_pool_def POOL_STATE_DISCRIMINATOR_def)
  show p: "pool_at wd_store 266 = Inr wd_ps"
    using psl.from_bytes_encode [OF pd] by (simp add: wd_store_def settle_account_def pool_state_from_bytes_def)
  have "ps_bump wd_ps = 255" "ps_zkbtc_mint wd_ps = 1" by (simp_all add: wd_ps_def dep_pool_def demo_pool_def)
  with p show "validate_pool_state_pda wd_env wd_store (demo_acc 266) = Inr ()"
    by (simp add: validate_pool_state_pda_iff pool_pda_ok_def dep_pdas) (simp add: wd_store_def settle_account_def)
  have tv: "tree_valid tree_init" "ct_discriminator tree_init = COMMITMENT_TREE_DISCRIMINATOR" by (simp_all add: tree_valid_def tree_init_def)
  show "tree_at wd_store 68111 = Inr tree_init"
    using ctl.from_bytes_overlay [OF tv, of "[]"] by (simp add: wd_store_def dep_store_def settle_account_def commitment_tree_from_bytes_def)
qed (simp_all add: wd_store_def dep_store_def settle_account_def)

lemma wd_token_fields: "tc_enabled wd_token = 1" "tc_vault wd_token = 5" "tc_mint wd_token = 1" "tc_min_deposit wd_token = 0"
    "tc_max_deposit wd_token = 1000000" "tc_deposit_cap wd_token = 10000000" "tc_total_shielded wd_token = 5000"
    "tc_accumulated_fees wd_token = 0" "tc_bump wd_token = 255" "tc_token_id wd_token = 5"
  by (simp_all add: wd_token_def dep_token_def demo_token_def decode_token_config_def bslice_def byte_at_def)

lemma wd_add_note:
  assumes "s 68111 = wd_store 68111"
  shows "\<exists>s'. add_note wd_env 68111 c s = Inr s'"
proof -
  have a: "adata (s 68111) = encode_commitment_tree tree_init" by (simp add: assms wd_store_def dep_store_def settle_account_def)
  have t: "tree_at s 68111 = Inr tree_init" using wd_at(3) assms by simp
  have "poseidon_spec wd_env (\<lambda>a b. a + 2 * b + 1)" by (simp add: poseidon_spec_def wd_env_def sp_env_def dep_env_def demo_env_def)
  from insert_leaf_total [OF this, of tree_init c] obtain i t' where t': "insert_leaf wd_env c tree_init = Inr (i, t')"
    by (auto simp: tree_init_def MAX_LEAVES_def)
  have tv: "tree_valid tree_init" by (simp add: tree_valid_def tree_init_def)
  obtain s' where "write_front 68111 (encode_commitment_tree t') s = Inr s'"
    using insert_leaf_valid [OF t' tv] by (simp add: a write_front_def put_front_def ctl.length_encode tv)
  with t t' show ?thesis by (simp add: add_note_def)
qed

text \<open>A thousand tokens are shielded; the pool takes no fee.\<close>

lemma wd_shield: "\<exists>s'. shield_inner wd_invoke wd_env shield_demo_accounts shield_demo_data wd_store = Inr s'"
proof -
  have acc: "shield_demo_accounts ! 0 = demo_acc 77" "shield_demo_accounts ! Suc 0 = demo_acc 6" "shield_demo_accounts ! 2 = demo_acc 266"
    "shield_demo_accounts ! 3 = demo_acc dep_tok" "shield_demo_accounts ! 4 = demo_acc 5" "shield_demo_accounts ! 5 = demo_acc 68111"
    "shield_demo_accounts ! 6 = demo_acc TOKEN_PROGRAM_ID"
    by (simp_all add: shield_demo_accounts_def)
  have amount: "from_le (bslice 0 8 shield_demo_data) = (1000 :: u64)" "from_le (bslice 8 32 shield_demo_data) = (7 :: hash32)"
    by (simp_all add: shield_demo_data_def slice_simps)
  have chk: "shield_accounts wd_env shield_demo_accounts wd_store = Inr ()"
    by (simp add: shield_accounts_def acc validate_program_owner_def wd_at validate_token_owner_def validate_any_token_program_key_def
        validate_account_writable_def validate_token_config_pda_def wd_token_fields dep_pdas)
  have pf: "ps_flags wd_ps = 0" "ps_active_tree_index wd_ps = 0" "ps_deposit_fee_bps wd_ps = 0" "ps_zkbtc_mint wd_ps = 1"
    by (simp_all add: wd_ps_def dep_pool_def demo_pool_def decode_pool_state_def bslice_def byte_at_def)
  have pl: "shield_pool wd_env shield_demo_accounts wd_store = Inr wd_ps"
    by (simp add: shield_pool_def acc wd_at is_paused_def pf validate_active_tree_pda_def dep_pdas)
  have mint: "from_le (bslice 0 32 (adata (wd_store 6))) = (1 :: pubkey)" by (simp add: wd_at slice_simps)
  have "(1000 :: u64) \<le> 1000000" by code_simp
  then have tk: "shield_token shield_demo_accounts 1000 wd_store = Inr wd_token"
    by (simp add: shield_token_def acc wd_at(1) wd_token_fields mint Let_def not_less) (simp add: wd_at)
  have b: "bslice 64 8 (adata (wd_store 5)) = bytes8 (100000 :: u64)" "bslice 64 8 (adata (wd_store 6)) = bytes8 (100000 :: u64)"
    by (simp_all add: wd_at slice_simps)
  then have bal: "token_balance wd_store 5 = 100000" "token_balance wd_store 6 = 100000" by (simp_all add: token_balance_def)
  define s1 where "s1 = set_data 6 (put_at 64 (bytes8 (99000 :: u64)) (adata (wd_store 6)))
       (set_data 5 (put_at 64 (bytes8 (101000 :: u64)) (adata (wd_store 5))) wd_store)"
  have len: "length (adata (wd_store 5)) = 165" "length (adata (wd_store 6)) = 165" by (simp_all add: wd_at)
  have mv: "move_tokens TOKEN_PROGRAM_ID 6 5 1000 wd_store = Inr s1" by (simp add: move_tokens_def len bal s1_def wd_at(8,9))
  have "transfer_token_user wd_invoke TOKEN_PROGRAM_ID 6 5 77 1000 wd_store = Inr s1"
    by (simp add: transfer_token_user_def wd_invoke_token mv)
  moreover have "get_token_balance s1 (demo_acc 5) = Inr 101000" "get_token_balance wd_store (demo_acc 5) = Inr 100000"
    using put_at_read [of 64 "adata (wd_store 5)" 101000] b by (simp_all add: get_token_balance_def s1_def len Let_def) (simp add: put_at_def len)
  ultimately have rc: "shield_receive wd_invoke shield_demo_accounts 1000 wd_store = Inr (1000, s1)"
    by (simp add: shield_receive_def acc checked_sub_def)
  have s1: "s1 266 = wd_store 266" "s1 dep_tok = wd_store dep_tok" "s1 68111 = wd_store 68111" by (simp_all add: s1_def)
  have tok1: "token_at s1 dep_tok = Inr wd_token" "tree_at s1 68111 = Inr tree_init" "pool_at s1 266 = Inr wd_ps" by (simp_all add: s1 wd_at)
  have "(6000 :: u64) \<le> 10000000" by code_simp
  then have sp: "shield_split 1000 0 10000000 dep_tok s1 = Inr (0, 1000)"
    by (simp add: shield_split_def Let_def tok1 compute_bps_fee_def checked_sub_def checked_add_def wd_token_fields not_less)
  obtain c where c: "compute_commitment wd_env 7 5 1000 = Inr c"
    by (simp add: compute_commitment_def poseidon3_hash_def wd_env_def)
  obtain s2 where s2: "add_note wd_env 68111 c s1 = Inr s2" using wd_add_note [of s1 c] s1 by auto
  have tok2: "token_at s2 dep_tok = Inr wd_token" "pool_at s2 266 = Inr wd_ps" using add_note_ok(2) [OF s2] tok1 by simp_all
  let ?tc = "wd_token\<lparr>tc_total_shielded := 6000, tc_accumulated_fees := 0\<rparr>"
  obtain s3 where s3: "write_front dep_tok (encode_token_config ?tc) s2 = Inr s3"
    using tcl.write_ok tok2(1) unfolding token_config_from_bytes_def by blast
  then have "pool_at s3 266 = Inr wd_ps" using tok2(2) by (auto simp: res_simps)
  moreover from this obtain s4 where "write_front 266 (encode_pool_state (wd_ps\<lparr>ps_total_shielded := 6000,
      ps_last_update := clock_unix_timestamp wd_env\<rparr>)) s3 = Inr s4"
    using psl.write_ok unfolding pool_state_from_bytes_def by blast
  ultimately have "shield_ledgers wd_env True 266 dep_tok 1000 0 s2 = Inr s4"
    using tok2 s3 by (simp add: shield_ledgers_def tc_add_shielded_def tc_add_fees_def checked_add_def wd_token_fields sync_pool_total_def)
  then show ?thesis
    by (simp add: shield_inner_def acc amount chk pl tk rc sp pf wd_token_fields c s2 Let_def)
qed


end
