(* ===== verification/UX_Withdraw.thy ===== *)
theory UX_Withdraw
  imports UX_Shield
begin

text \<open>
  The steps that the two withdrawals share, \<open>instructions/unshield.rs\<close> and
  \<open>instructions/redeem.rs\<close>: reading the public outputs, the optional accounts, who may authorise
  the spend, the binding hash, the burn commitments of the public outputs, and the
  spend itself (proof, nullifiers, tree outputs).
\<close>

section \<open>Reading the data\<close>

definition take_bytes :: "bytes \<Rightarrow> nat \<Rightarrow> nat \<Rightarrow> (bytes \<times> nat) result" where
  "take_bytes d offset len =
     bindE (ok_or (usize_checked_add offset len) InvalidInstructionData) (\<lambda>end_at.
     if end_at > length d then Inl InvalidInstructionData else Inr (bslice offset len d, end_at))"

definition read_u64_le :: "bytes \<Rightarrow> nat \<Rightarrow> (u64 \<times> nat) result" where
  "read_u64_le d offset = bindE (take_bytes d offset 8) (\<lambda>(b, offset'). Inr (from_le b, offset'))"

section \<open>Optional accounts and authorisation\<close>

text \<open>The tail, and the approval accounts when the spend declares them.\<close>

definition withdraw_tail :: "account_info list \<Rightarrow> joinsplit_header \<Rightarrow> pool_state \<Rightarrow> nat \<Rightarrow> (joinsplit_tail \<times> (nat \<times> nat) option) result" where
  "withdraw_tail accounts h pool min_accounts =
     (if jh_flags h AND (RELAYER OR QUEUED_LEAVES) \<noteq> 0 then Inl InvalidInstructionData
      else
      bindE (policy_tail_from_flags (jh_flags h) (permissioned pool) (jh_n_public_outputs h)) (\<lambda>policy_tail.
      bindE (resolve_joinsplit_tail (jh_flags h) min_accounts policy_tail 0 (length accounts)) (\<lambda>tail.
      case policy_tail of
        PolicyVerified \<Rightarrow> bindE (ok_or (verified_pair tail) NotEnoughAccountKeys) (\<lambda>pair. Inr (tail, Some pair))
      | _ \<Rightarrow> Inr (tail, None))))"

fun check_exits :: "env \<Rightarrow> store \<Rightarrow> pubkey \<Rightarrow> u8 \<Rightarrow> hash32 list \<Rightarrow> account_info list \<Rightarrow> unit result" where
  "check_exits E s pool kind [] accounts = Inr ()"
| "check_exits E s pool kind (x # xs) [] = Inl Panic"
| "check_exits E s pool kind (x # xs) (a # as) =
     bindE (assert_exit_destination_registered E s pool a kind x) (\<lambda>_. check_exits E s pool kind xs as)"

definition withdraw_policy :: "invoke \<Rightarrow> env \<Rightarrow> account_info list \<Rightarrow> pool_state \<Rightarrow> joinsplit_tail \<Rightarrow> (nat \<times> nat) option \<Rightarrow> u8 \<Rightarrow>
    bytes list \<Rightarrow> u8 \<Rightarrow> hash32 list \<Rightarrow> store \<Rightarrow> store result" where
  "withdraw_policy I E accounts pool tail approval action parts kind keys s =
     bindE (resolve_spend_path (permissioned pool) (approval \<noteq> None) (approval \<noteq> None) action) (\<lambda>path.
     case path of
       OpenPath \<Rightarrow> Inr s
     | VerifiedPath \<Rightarrow>
         if permissioned pool \<and> auditor_is_frozen pool then Inl AuditorFrozen
         else bindE (ok_or approval NotEnoughAccountKeys) (\<lambda>(a, b).
           consume_policy_approval I E (accounts ! a) (accounts ! b) (accounts ! 0) (key (accounts ! 3)) (ps_auditor pool) action parts s)
     | RagequitPath \<Rightarrow>
         bindE (ok_or (jt_policy_start tail) NotEnoughAccountKeys) (\<lambda>base.
         bindE (check_exits E s (key (accounts ! 0)) kind keys (drop base accounts)) (\<lambda>_. Inr s)))"

definition check_binding :: "env \<Rightarrow> pubkey \<Rightarrow> bool \<Rightarrow> hash32 \<Rightarrow> hash32 \<Rightarrow> unit result" where
  "check_binding E pool perm operation_hash bound =
     bindE (bind_bound_params_to_domain E operation_hash (CHAIN_ID E) (program_id E) pool perm) (\<lambda>expected.
     if bound \<noteq> expected then Inl InvalidBoundParams else Inr ())"

section \<open>The spend\<close>

text \<open>Each public output is the commitment of its revealed amount to the zero key.\<close>

fun check_burns :: "env \<Rightarrow> hash32 \<Rightarrow> u64 list \<Rightarrow> hash32 list \<Rightarrow> unit result" where
  "check_burns E token_id [] cs = Inr ()"
| "check_burns E token_id (a # as) [] = Inl Panic"
| "check_burns E token_id (a # as) (c # cs) =
     bindE (compute_commitment E 0 token_id a) (\<lambda>expected.
     if c \<noteq> expected then Inl InvalidCommitment else check_burns E token_id as cs)"

definition withdraw_spend :: "bn254 \<Rightarrow> env \<Rightarrow> account_info list \<Rightarrow> pool_state \<Rightarrow> account_info option \<Rightarrow> joinsplit_header \<Rightarrow> joinsplit_prefix \<Rightarrow>
    hash32 \<Rightarrow> u64 list \<Rightarrow> nat \<Rightarrow> store \<Rightarrow> store result" where
  "withdraw_spend G E accounts pool src h p token_id amounts nullifier_base s =
     (let n_tree = jh_n_outputs h - jh_n_public_outputs h; pk = key (accounts ! 0) in
      bindE (verify_vk_merkle_and_proof G E s (accounts ! 0) (accounts ! 2) (accounts ! 1) (ps_active_tree_index pool) src h p)
        (\<lambda>source_tree_index.
      bindE (check_burns E token_id amounts (drop n_tree (jp_commitments_out p))) (\<lambda>_.
      bindE (create_nullifier_records E accounts nullifier_base (jp_nullifiers p) pk source_tree_index (key (accounts ! 3)) ApplyNow s)
        (\<lambda>s1.
      place_outputs E (key (accounts ! 1)) (take n_tree (jp_commitments_out p)) s1))))"

section \<open>What the steps establish\<close>

lemma check_exits_ok: "check_exits E s pool kind xs as = Inr u \<Longrightarrow> \<forall>x \<in> set xs. exit_registered E s pool kind x"
  by (induction E s pool kind xs as rule: check_exits.induct) (auto simp: run_simps)

text \<open>Why a withdrawal is allowed: an open pool, an approval of a pool that is not frozen, or registered exits.\<close>

definition withdraw_allowed :: "env \<Rightarrow> store \<Rightarrow> account_info list \<Rightarrow> pool_state \<Rightarrow> u8 \<Rightarrow> bytes list \<Rightarrow> u8 \<Rightarrow> hash32 list \<Rightarrow> bool" where
  "withdraw_allowed E s accounts pool action parts kind keys \<longleftrightarrow> \<not> permissioned pool \<or>
     \<not> auditor_is_frozen pool \<and>
       (\<exists>ak. approval_grants E s ak (key (accounts ! 0)) (key (accounts ! 3)) (ps_auditor pool) action parts) \<or>
     (\<forall>x \<in> set keys. exit_registered E s (key (accounts ! 0)) kind x)"

lemma withdraw_policy_ok:
  assumes w: "policy_world R E I" and p: "pool_at s (key (accounts ! 0)) = Inr pool"
    and run: "withdraw_policy I E accounts pool tail approval action parts kind keys s = Inr s1"
  shows "approval_only E s s1" and "withdraw_allowed E s accounts pool action parts kind keys"
proof -
  have "approval_only E s s1 \<and> withdraw_allowed E s accounts pool action parts kind keys"
  proof (cases "resolve_spend_path (permissioned pool) (approval \<noteq> None) (approval \<noteq> None) action")
    case (Inl e)
    with run show ?thesis by (simp add: withdraw_policy_def)
  next
    case (Inr path)
    show ?thesis
    proof (cases path)
      case OpenPath
      with Inr have "\<not> permissioned pool" by (auto simp: resolve_spend_path_def split: if_splits)
      with run Inr OpenPath show ?thesis by (auto simp: withdraw_policy_def approval_only_def withdraw_allowed_def)
    next
      case VerifiedPath
      with Inr have perm: "permissioned pool" by (auto simp: resolve_spend_path_def split: if_splits)
      with run Inr VerifiedPath obtain a b where f: "\<not> auditor_is_frozen pool"
        and c: "consume_policy_approval I E (accounts ! a) (accounts ! b) (accounts ! 0) (key (accounts ! 3)) (ps_auditor pool) action parts s = Inr s1"
        by (auto simp: withdraw_policy_def run_simps split: prod.splits if_splits)
      from consume_approval_only [where pool_info = "accounts ! 0" and s = s and pool = pool, OF w p perm f c] f
      show ?thesis by (auto simp: withdraw_allowed_def)
    next
      case RagequitPath
      with run Inr show ?thesis
        by (auto simp: withdraw_policy_def run_simps approval_only_def withdraw_allowed_def dest!: check_exits_ok)
    qed
  qed
  then show "approval_only E s s1" "withdraw_allowed E s accounts pool action parts kind keys" by blast+
qed

text \<open>On the way out without the auditor nothing depends on the freeze flag.\<close>

lemma ragequit_ignores_freeze:
  assumes "resolve_spend_path (permissioned pool) (approval \<noteq> None) (approval \<noteq> None) action = Inr RagequitPath"
    and "permissioned pool' = permissioned pool"
  shows "withdraw_policy I E accounts pool' tail approval action parts kind keys s =
    withdraw_policy I E accounts pool tail approval action parts kind keys s"
  using assms by (simp add: withdraw_policy_def)

lemma check_burns_ok:
  "check_burns E token_id as cs = Inr u \<Longrightarrow>
     length as \<le> length cs \<and> (\<forall>j < length as. compute_commitment E 0 token_id (as ! j) = Inr (cs ! j))"
proof (induction E token_id as cs rule: check_burns.induct)
  case (3 E token_id a as c cs)
  then have c: "compute_commitment E 0 token_id a = Inr c" and "check_burns E token_id as cs = Inr u" by (auto simp: run_simps)
  with 3 have IH: "length as \<le> length cs \<and> (\<forall>j < length as. compute_commitment E 0 token_id (as ! j) = Inr (cs ! j))" by blast
  show ?case
  proof (intro conjI allI impI)
    fix j assume "j < length (a # as)"
    then show "compute_commitment E 0 token_id ((a # as) ! j) = Inr ((c # cs) ! j)" using c IH by (cases j) auto
  qed (use IH in simp)
qed simp_all

text \<open>Token configurations are at addresses of their own kind.\<close>

definition config_kind_separate :: "env \<Rightarrow> bool" where
  "config_kind_separate E \<longleftrightarrow> (\<forall>a \<in> set PDA_KINDS. \<forall>as bs.
     fst (find_program_address E (a # as)) \<noteq> fst (find_program_address E (TOKEN_CONFIG_SEED # bs)))"

definition config_address :: "env \<Rightarrow> pubkey \<Rightarrow> pubkey \<Rightarrow> pubkey" where
  "config_address E pool mint = fst (find_program_address E [TOKEN_CONFIG_SEED, bytes32 pool, bytes32 mint])"

lemma config_apart:
  assumes "config_kind_separate E"
  shows "config_address E q m \<noteq> nullifier_address E q' i n" and "config_address E q m \<noteq> tree_address E q' i"
    and "pool_pda_ok E s pk \<Longrightarrow> config_address E q m \<noteq> pk"
proof -
  have A: "fst (find_program_address E (TOKEN_CONFIG_SEED # bs)) \<noteq> fst (find_program_address E (a # as))" if "a \<in> set PDA_KINDS" for a as bs
    using assms that unfolding config_kind_separate_def by (metis (no_types))
  have k: "NULLIFIER_SEED \<in> set PDA_KINDS" "TREE_SEED \<in> set PDA_KINDS" "POOL_STATE_SEED \<in> set PDA_KINDS" by (simp_all add: PDA_KINDS_def)
  show "config_address E q m \<noteq> nullifier_address E q' i n"
    using A [OF k(1)] by (simp add: config_address_def nullifier_address_def nullifier_seeds_def)
  show "config_address E q m \<noteq> tree_address E q' i" using A [OF k(2)] by (simp add: config_address_def tree_address_def)
  show "config_address E q m \<noteq> pk" if pda: "pool_pda_ok E s pk"
  proof -
    obtain bs where "pk = fst (find_program_address E (POOL_STATE_SEED # bs))" using pool_address [OF pda] by blast
    with A [OF k(3)] show ?thesis by (simp add: config_address_def)
  qed
qed

text \<open>The effect of the spend: what authorised it, the nullifiers, the pool's counter, the new leaves.\<close>

definition withdrawn :: "bn254 \<Rightarrow> env \<Rightarrow> account_info list \<Rightarrow> joinsplit_header \<Rightarrow> joinsplit_prefix \<Rightarrow> pool_state \<Rightarrow> hash32 \<Rightarrow> u64 list \<Rightarrow>
    u32 \<Rightarrow> store \<Rightarrow> store \<Rightarrow> bool" where
  "withdrawn G E accounts h p pool token_id amounts i s s' \<longleftrightarrow>
     (let pk = key (accounts ! 0); tk = key (accounts ! 1); ns = jp_nullifiers p;
          n_tree = jh_n_outputs h - jh_n_public_outputs h in
      spend_authorised G E s pk (key (accounts ! 2)) h p pool i \<and>
      (\<forall>j < length amounts. compute_commitment E 0 token_id (amounts ! j) = Inr (jp_commitments_out p ! (n_tree + j))) \<and>
      distinct (map (nullifier_address E pk i) ns) \<and>
      (\<forall>n \<in> set ns. \<not> nullifier_spent E s pk i n \<and> nullifier_spent E s' pk i n) \<and>
      (\<forall>q j n. nullifier_spent E s q j n \<longrightarrow> nullifier_spent E s' q j n) \<and>
      (if n_tree = 0 then tree_at s' tk = tree_at s tk
       else \<exists>t first t'. tree_at s tk = Inr t \<and> insert_leaves_batch E (take n_tree (jp_commitments_out p)) t = Inr (first, t') \<and>
         tree_at s' tk = Inr t'))"

lemma nullifier_records_owner:
  assumes spec: "system_program_spec E"
  shows "nullifier_records E pool i payer ns as s = Inr s' \<Longrightarrow> n \<in> set ns \<Longrightarrow> owner (s' (nullifier_address E pool i n)) = program_id E"
proof (induction ns arbitrary: as s)
  case (Cons m ns)
  from Cons.prems obtain a as' s1 where r: "nullifier_record E pool i payer m a s = Inr s1"
    and rest: "nullifier_records E pool i payer ns as' s1 = Inr s'"
    by (cases as) (auto simp: res_simps)
  note R = nullifier_record_ok [OF spec r] and N = nullifier_records_ok [OF spec rest] and W = nullifier_records_ok [OF spec Cons.prems(1)]
  show ?case
  proof (cases "n \<in> set ns")
    case True
    then show ?thesis by (rule Cons.IH [OF rest])
  next
    case False
    with Cons.prems(2) W have "n = m" "nullifier_address E pool i m \<notin> nullifier_address E pool i ` set ns" by auto
    with N R show ?thesis by (metis frameD)
  qed
qed simp

lemma place_outputs_owner: "place_outputs E tk cs s = Inr s' \<Longrightarrow> owner (s' k) = owner (s k)"
  by (auto simp: place_outputs_def res_simps split: if_splits)

lemma withdraw_spend_ok:
  assumes spec: "system_program_spec E" and kinds: "pda_kinds_separate E"
    and run: "withdraw_spend G E accounts pool src h p token_id amounts base s = Inr s'"
    and P: "pool_at s (key (accounts ! 0)) = Inr pool" "pool_pda_ok E s (key (accounts ! 0))"
      "key (accounts ! 1) = tree_address E (key (accounts ! 0)) (ps_active_tree_index pool)"
    and own: "owner (s (key (accounts ! 1))) = program_id E" "owner (s (key (accounts ! 2))) = program_id E"
    and out: "jp_commitments_out p \<noteq> []"
  defines "pk \<equiv> key (accounts ! 0)" and "tk \<equiv> key (accounts ! 1)"
  shows "\<exists>i. withdrawn G E accounts h p pool token_id amounts i s s' \<and>
      frame ({pk, tk} \<union> nullifier_address E pk i ` set (jp_nullifiers p)) s s' \<and>
      (\<forall>n \<in> set (jp_nullifiers p). owner (s' (nullifier_address E pk i n)) = program_id E)"
    and "pool_at s' pk = Inr (add_nullifiers (of_nat (length (jp_nullifiers p))) pool)"
    and "owner (s' pk) = program_id E" and "owner (s' tk) = program_id E"
proof -
  let ?n = "jh_n_outputs h - jh_n_public_outputs h" and ?ns = "jp_nullifiers p"
  from run obtain i s1 where ver: "verify_vk_merkle_and_proof G E s (accounts ! 0) (accounts ! 2) (accounts ! 1) (ps_active_tree_index pool) src h p = Inr i"
    and burn: "check_burns E token_id amounts (drop ?n (jp_commitments_out p)) = Inr ()"
    and nul: "create_nullifier_records E accounts base ?ns pk i (key (accounts ! 3)) ApplyNow s = Inr s1"
    and pl: "place_outputs E tk (take ?n (jp_commitments_out p)) s1 = Inr s'"
    unfolding pk_def tk_def by (auto simp: withdraw_spend_def Let_def run_simps)
  note P' = P [folded pk_def tk_def]
  have auth: "spend_authorised G E s pk (key (accounts ! 2)) h p pool i" unfolding pk_def by (rule verify_ok [OF ver P(3) own])
  have fine: "compute_commitment E 0 token_id (amounts ! j) = Inr (jp_commitments_out p ! (?n + j))" if j: "j < length amounts" for j
    using check_burns_ok [OF burn] j by (auto simp: nth_drop)
  note N = create_nullifier_records_ok [where s = s and pool = pk and p = pool, OF spec kinds P'(2) P'(1) nul]
  note A = addresses_apart [OF kinds P'(2)]
  have tk_out: "tk \<notin> insert pk (nullifier_address E pk i ` set ?ns)" unfolding P'(3) using A(3,6) by (metis imageE insertE)
  have tk1: "adata (s1 tk) = adata (s tk)" using frameD [OF N(4) tk_out] by simp
  have pl': "frame {tk} s1 s' \<and> owner (s' pk) = owner (s1 pk) \<and> (if ?n = 0 then s' = s1 else \<exists>t first t'. tree_at s1 tk = Inr t \<and>
      insert_leaves_batch E (take ?n (jp_commitments_out p)) t = Inr (first, t') \<and> tree_at s' tk = Inr t')"
  proof (cases "?n = 0")
    case True
    with pl show ?thesis by (auto simp: place_outputs_def run_simps)
  next
    case False
    then have ne: "take ?n (jp_commitments_out p) \<noteq> []" using out by simp
    have "owner (s' pk) = owner (s1 pk)" using place_outputs_ok(2) [OF pl ne] A(3) P'(3) by (intro conjunct2 [OF frameD]) auto
    then show ?thesis using place_outputs_ok [OF pl ne] False by simp
  qed
  have pk_tk: "pk \<noteq> tk" unfolding P'(3) by (rule A(3))
  then have pk1: "adata (s' pk) = adata (s1 pk)" using pl' frameD [of "{tk}" s1 s' pk] by simp
  show "pool_at s' pk = Inr (add_nullifiers (of_nat (length ?ns)) pool)" using N(6) pk1 by simp
  show "owner (s' pk) = program_id E" using pl' N(5) P'(2) by (simp add: pool_pda_ok_def)
  show "owner (s' tk) = program_id E" using place_outputs_owner [OF pl, of tk] frameD [OF N(4) tk_out] own(1) by (simp add: tk_def)
  have keep: "nullifier_spent E s' q j n = nullifier_spent E s1 q j n" for q j n
    using pl' A(6) [of q j n pk "ps_active_tree_index pool"] unfolding nullifier_spent_def P'(3)
    by (intro spent_cong conjunct1 [OF frameD]) auto
  have fr: "frame ({pk, tk} \<union> nullifier_address E pk i ` set ?ns) s s'"
    using frame_trans [OF N(4) conjunct1 [OF pl']] by (rule frame_mono) auto
  have "withdrawn G E accounts h p pool token_id amounts i s s'"
    unfolding withdrawn_def Let_def pk_def [symmetric] tk_def [symmetric]
  proof (intro conjI)
    show "\<forall>n \<in> set ?ns. \<not> nullifier_spent E s pk i n \<and> nullifier_spent E s' pk i n" using N(2) keep by auto
    show "\<forall>q j n. nullifier_spent E s q j n \<longrightarrow> nullifier_spent E s' q j n" using N(3) keep by (auto simp: nullifier_spent_def)
  qed (use auth fine N(1) pl' tk1 in auto)
  moreover have "owner (s' (nullifier_address E pk i n)) = program_id E" if n: "n \<in> set ?ns" for n
  proof -
    from nul obtain s0 where r: "nullifier_records E pk i (key (accounts ! 3)) ?ns (drop base accounts) s = Inr s0"
      and w: "bindE (pool_at s0 pk) (\<lambda>p. write_front pk (encode_pool_state (add_nullifiers (of_nat (length ?ns)) p)) s0) = Inr s1"
      by (auto simp: create_nullifier_records_def run_simps)
    have "owner (s1 k) = owner (s0 k)" for k using w by (auto simp: res_simps)
    then show ?thesis using nullifier_records_owner [OF spec r n] place_outputs_owner [OF pl] by simp
  qed
  ultimately show "\<exists>i. withdrawn G E accounts h p pool token_id amounts i s s' \<and>
      frame ({pk, tk} \<union> nullifier_address E pk i ` set (jp_nullifiers p)) s s' \<and>
      (\<forall>n \<in> set (jp_nullifiers p). owner (s' (nullifier_address E pk i n)) = program_id E)" using fr by blast
qed

section \<open>A concrete spend\<close>

text \<open>
  One note of a thousand tokens is spent and revealed as one public output. In \<open>wd_env\<close> every
  kind of address has its own residue, and the commitment to the zero key is 7.
\<close>

lemma wd_system: "system_program_spec wd_env"
  using sp_system by (simp add: wd_env_def system_program_spec_def)

lemma wd_pda_low: "unat (fst (wd_pda (a # as) p)) mod 256 = (if a = REDEMPTION_SEED then 250 else length a mod 256)"
proof -
  have "(256 * n mod 2 ^ 256) mod 256 = 0" "m mod 2 ^ 256 mod 256 = m mod 256" for m n :: nat
    by (simp_all add: mod_mod_cancel)
  then have e: "((m mod 2 ^ 256 + 256 * n mod 2 ^ 256) mod 2 ^ 256) mod 256 = m mod 256" for m n :: nat
    by (metis add.right_neutral mod_add_eq mod_mod_trivial)
  have c: "(250 :: 256 word) = of_nat 250" by simp
  show ?thesis using e [of 250] e [of "length a"] unfolding wd_pda_def dep_pda_def c by (simp add: unat_word_ariths unat_of_nat del: of_nat_numeral)
qed

lemma wd_kinds: "pda_kinds_separate wd_env" "config_kind_separate wd_env"
proof -
  have k: "a \<noteq> REDEMPTION_SEED" "length a mod 256 \<noteq> length TOKEN_CONFIG_SEED mod 256" if "a \<in> set PDA_KINDS" for a
    using that by (auto simp: PDA_KINDS_def POOL_STATE_SEED_def TREE_SEED_def NULLIFIER_SEED_def QUEUED_LEAF_SEED_def
        TOKEN_CONFIG_SEED_def REDEMPTION_SEED_def ascii_def)
  have "inj_on (\<lambda>a. length a mod 256) (set PDA_KINDS)"
    by (simp add: PDA_KINDS_def POOL_STATE_SEED_def TREE_SEED_def NULLIFIER_SEED_def QUEUED_LEAF_SEED_def ascii_def)
  with k(1) wd_pda_low show "pda_kinds_separate wd_env" unfolding pda_kinds_separate_def wd_env_simps inj_on_def by metis
  show "config_kind_separate wd_env" unfolding config_kind_separate_def wd_env_simps using k wd_pda_low redemption_seed_differs(3) by metis
qed

definition wd_prefix :: joinsplit_prefix where "wd_prefix = sp_prefix\<lparr>jp_stealth_data_end := 388\<rparr>"
definition wd_header :: joinsplit_header where "wd_header = (sp_header 0)\<lparr>jh_n_public_outputs := 1\<rparr>"

text \<open>The data up to the public outputs.\<close>

definition wd_front :: bytes where
  "wd_front = [1, 1, 1, 0] @ replicate 256 1 @ bytes32 (ct_current_root tree_init) @ bytes32 1 @ bytes32 5 @ bytes32 7"

lemma wd_parse: "parse_header (wd_front @ rest) = Inr wd_header"
    "parse_prefix E s (wd_front @ rest) accounts wd_header 0 = Inr wd_prefix"
    "length wd_front = 388"
proof -
  show "length wd_front = 388" by (simp add: wd_front_def)
  show "parse_header (wd_front @ rest) = Inr wd_header"
    by (simp add: parse_header_def wd_front_def wd_header_def sp_header_def Let_def MAX_JOINSPLIT_SIZE_def MAX_SAFE_JOINSPLIT_SIZE_def ALL_FLAGS_def)
  show "parse_prefix E s (wd_front @ rest) accounts wd_header 0 = Inr wd_prefix"
    by (simp add: parse_prefix_def Let_def read_proof_def proof_in_buffer_def sp_flag wd_header_def sp_header_def GROTH16_PROOF_SIZE_def
        STEALTH_DATA_PER_OUTPUT_def numeral_eq_Suc [of Num.One] wd_prefix_def sp_prefix_def)
      (simp add: wd_front_def bslice_def sp_fields)
qed

lemma wd_store_simps: "k \<noteq> 266 \<Longrightarrow> k \<noteq> dep_tok \<Longrightarrow> k \<noteq> 6 \<Longrightarrow> wd_store k = sp_store k"
  by (simp add: wd_store_def)

lemma wd_proof: "key tree_info = 68111 \<Longrightarrow>
  verify_vk_merkle_and_proof accept_all wd_env wd_store pool_info (demo_acc 65803) tree_info 0 None wd_header wd_prefix = Inr 0"
proof -
  assume k: "key tree_info = 68111"
  have p: "jp_merkle_root wd_prefix = jp_merkle_root sp_prefix" "jp_proof_bytes wd_prefix = jp_proof_bytes sp_prefix"
    "joinsplit_public_inputs wd_prefix = joinsplit_public_inputs sp_prefix" "jh_n_inputs wd_header = jh_n_inputs (sp_header 0)"
    "jh_n_outputs wd_header = jh_n_outputs (sp_header 0)"
    by (simp_all add: wd_prefix_def joinsplit_public_inputs_def wd_header_def)
  have "source_tree_of wd_env wd_store pool_info tree_info 0 None r = source_tree_of sp_env sp_store pool_info tree_info 0 None r" for r
    using wd_at(3) by (cases "tree_at dep_store 68111") (auto simp: source_tree_of_def k wd_store_simps)
  moreover have "vk_registry_address wd_env a b = vk_registry_address sp_env a b" for a b by (simp add: vk_registry_address_def)
  moreover have q: "wd_store (key (demo_acc 65803)) = sp_store (key (demo_acc 65803))" by (simp add: wd_store_simps)
  ultimately show ?thesis using sp_proof [where pool_info = pool_info and flags = 0, OF k]
    unfolding verify_vk_merkle_and_proof_def p q Let_def by simp
qed

definition wd_spent :: store where
  "wd_spent = wd_store(sp_nullifier := \<lparr>lamports = 5, owner = ASSET_PROGRAM_ID, adata = [3]\<rparr>)"

lemma wd_record: "nullifier_record wd_env 266 0 77 5 (demo_acc sp_nullifier) wd_store = Inr wd_spent"
proof -
  have st: "wd_store sp_nullifier = \<lparr>lamports = 5, owner = 0, adata = []\<rparr>" using sp_blank by (simp add: wd_store_def sp_nullifier_def)
  have sys: "rt_minimum_balance wd_env n = 1" "sys_allocate wd_env = demo_allocate" "sys_assign wd_env = demo_assign" for n
    by (simp_all add: wd_env_def sp_env_system)
  show ?thesis
    by (simp add: nullifier_record_def validate_account_writable_def nullifier_seeds_def sp_pdas create_pda_account_def
        create_or_claim_pda_def NULLIFIER_RECORD_LEN_def Let_def st sys demo_allocate_def demo_assign_def
        receipt_init_def write_front_def put_front_def set_data_def NULLIFIER_RECORD_DISCRIMINATOR_def wd_spent_def)
qed

lemma wd_spend:
  assumes acc: "accounts ! 0 = demo_acc 266" "accounts ! Suc 0 = demo_acc 68111" "accounts ! 2 = demo_acc 65803" "accounts ! 3 = demo_acc 77"
    and base: "drop base accounts = demo_acc sp_nullifier # rest"
  shows "\<exists>s'. withdraw_spend accept_all wd_env accounts wd_ps None wd_header wd_prefix 5 [1000] base wd_store = Inr s' \<and>
    pool_at s' 266 = Inr (add_nullifiers 1 wd_ps) \<and> (\<forall>k. k \<notin> {266, sp_nullifier} \<longrightarrow> s' k = wd_store k)"
proof -
  have p: "pool_at wd_spent 266 = Inr wd_ps" using wd_at(2) by (simp add: wd_spent_def)
  obtain s' where s': "write_front 266 (encode_pool_state (add_nullifiers 1 wd_ps)) wd_spent = Inr s'"
    using psl.write_ok p unfolding pool_state_from_bytes_def by blast
  have "ps_discriminator (add_nullifiers 1 wd_ps) = POOL_STATE_DISCRIMINATOR"
    using discriminator_at(1) [of wd_spent 266 wd_ps] p by (simp add: add_nullifiers_def)
  note W = write_pool [OF s' this]
  have act: "ps_active_tree_index wd_ps = 0" by (simp add: wd_ps_def dep_pool_def demo_pool_def decode_pool_state_def byte_at_def bslice_def)
  have c: "compute_commitment wd_env 0 5 1000 = Inr 7" by (simp add: compute_commitment_def poseidon3_hash_def wd_env_def)
  have f: "jp_commitments_out wd_prefix = [7]" "jp_nullifiers wd_prefix = [5]" by (simp_all add: wd_prefix_def sp_prefix_def)
  have h: "jh_n_outputs wd_header = 1" "jh_n_public_outputs wd_header = 1" by (simp_all add: wd_header_def sp_header_def)
  obtain t where t: "tree_at s' 68111 = Inr t" using W(2) [of 68111] wd_at(3) by (auto simp: wd_spent_def)
  have "create_nullifier_records wd_env accounts base [5] 266 0 77 ApplyNow wd_store = Inr s'"
    using s' by (simp add: create_nullifier_records_def base wd_record p)
  then have "withdraw_spend accept_all wd_env accounts wd_ps None wd_header wd_prefix 5 [1000] base wd_store = Inr s'"
    by (simp add: withdraw_spend_def Let_def acc act wd_proof h f c place_outputs_def t)
  with W show ?thesis by (intro exI [of _ s']) (auto simp: wd_spent_def)
qed

text \<open>In \<open>wd_env\<close> a hash that reduces to zero is bound as 1.\<close>

lemma wd_bound: "bind_bound_params_to_domain wd_env 0 (CHAIN_ID wd_env) ASSET_PROGRAM_ID 266 False = Inr 1"
    "rt_sha256 wd_env d = 0" "reduce_to_field_exact 0 = 0"
proof -
  have "is_canonical_fr 0" by code_simp
  then show z: "reduce_to_field_exact 0 = 0" by (rule reduce_id)
  show "rt_sha256 wd_env d = 0" by (simp add: wd_env_def sp_env_def)
  show "bind_bound_params_to_domain wd_env 0 (CHAIN_ID wd_env) ASSET_PROGRAM_ID 266 False = Inr 1"
    by (simp add: bind_bound_params_to_domain_def poseidon2_hash_def compute_domain_separator_def wd_env_def sp_env_def)
      (simp add: dep_env_def demo_env_def z)
qed

lemma wd_pool: "permissioned wd_ps = False" "is_paused wd_ps = False" "ps_active_tree_index wd_ps = 0" "ps_withdrawal_fee_bps wd_ps = 0"
    "ps_zkbtc_mint wd_ps = 1" "ps_bump wd_ps = 255" "ps_total_shielded wd_ps = 5000" "ps_service_fee_base wd_ps = 0"
    "ps_pending_redemptions wd_ps = 1"
  by (simp_all add: wd_ps_def dep_pool_def demo_pool_def permissioned_def is_paused_def decode_pool_state_def byte_at_def bslice_def)

end
