(* ===== verification/UX_Unshield.thy ===== *)
theory UX_Unshield
  imports UX_Withdraw
begin

text \<open>
  \<open>instructions/unshield.rs\<close> and \<open>instructions/claim_fees.rs\<close>: tokens leave a vault, as the
  revealed amounts of a spend or as fees. The handler \<open>process_unshield\<close> is the composition of the steps
  below in the order of the code; \<open>I\<close> is the cross-program call, \<open>G\<close> are the curve
  syscalls. Log events are not modelled. The theorems say what authorises a withdrawal and what it pays, and that
  what a vault holds beyond its notes and fees never changes.
\<close>

section \<open>Unshield: data and accounts\<close>

definition UNSHIELD_FIXED_ACCOUNTS :: nat where "UNSHIELD_FIXED_ACCOUNTS = 8"

fun read_amounts :: "bytes \<Rightarrow> nat \<Rightarrow> nat \<Rightarrow> (u64 list \<times> nat) result" where
  "read_amounts d offset 0 = Inr ([], offset)"
| "read_amounts d offset (Suc n) =
     bindE (read_u64_le d offset) (\<lambda>(a, o1). bindE (read_amounts d o1 n) (\<lambda>(as, o2). Inr (a # as, o2)))"

definition unshield_data :: "env \<Rightarrow> account_info list \<Rightarrow> bytes \<Rightarrow> store \<Rightarrow> (joinsplit_header \<times> joinsplit_prefix \<times> u64 list) result" where
  "unshield_data E accounts d s =
     bindE (parse_header d) (\<lambda>h.
     bindE (validate_public_outputs h False) (\<lambda>_.
     let n_tree_outputs = jh_n_outputs h - jh_n_public_outputs h;
         min_accounts = UNSHIELD_FIXED_ACCOUNTS + jh_n_public_outputs h + jh_n_inputs h in
     bindE (validate_account_count (length accounts) min_accounts (jh_flags h AND PROOF_IN_BUFFER)) (\<lambda>_.
     bindE (parse_prefix E s d accounts h n_tree_outputs) (\<lambda>p.
     bindE (read_amounts d (jp_stealth_data_end p) (jh_n_public_outputs h)) (\<lambda>(amounts, offset).
     if offset \<noteq> length d then Inl InvalidInstructionData else Inr (h, p, amounts))))))"

definition unshield_accounts :: "env \<Rightarrow> account_info list \<Rightarrow> store \<Rightarrow> unit result" where
  "unshield_accounts E accounts s =
     bindE (validate_program_owner E s (accounts ! 0)) (\<lambda>_.
     bindE (validate_program_owner E s (accounts ! 1)) (\<lambda>_.
     bindE (validate_program_owner E s (accounts ! 2)) (\<lambda>_.
     bindE (validate_program_owner E s (accounts ! 5)) (\<lambda>_.
     bindE (validate_system_program (accounts ! 4)) (\<lambda>_.
     bindE (validate_token_owner s (accounts ! 6)) (\<lambda>_.
     bindE (validate_any_token_program_key (accounts ! 7)) (\<lambda>_.
     bindE (validate_account_writable (accounts ! 0)) (\<lambda>_.
     bindE (validate_account_writable (accounts ! 1)) (\<lambda>_.
     bindE (validate_token_config_pda E s (accounts ! 5) (accounts ! 0)) (\<lambda>_.
     bindE (validate_account_writable (accounts ! 5)) (\<lambda>_.
     bindE (validate_account_writable (accounts ! 6)) (\<lambda>_.
     ensure (is_signer (accounts ! 3)) MissingRequiredSignature))))))))))))"

section \<open>Destinations\<close>

fun check_recipients :: "store \<Rightarrow> pubkey \<Rightarrow> pubkey \<Rightarrow> bool \<Rightarrow> account_info list \<Rightarrow> unit result" where
  "check_recipients s vault token_program native_sol [] = Inr ()"
| "check_recipients s vault token_program native_sol (r # rs) =
     bindE (validate_account_writable r) (\<lambda>_.
     if key r = vault then Inl InvalidArgument
     else
     bindE (if native_sol then (if is_token_account s r then Inl InvalidAccountOwner else Inr ())
            else bindE (validate_token_owner s r) (\<lambda>_. if owner (s (key r)) \<noteq> token_program then Inl InvalidAccountOwner else Inr ()))
       (\<lambda>_. check_recipients s vault token_program native_sol rs))"

definition recipient_owner :: "store \<Rightarrow> bool \<Rightarrow> account_info \<Rightarrow> pubkey result" where
  "recipient_owner s native_sol r =
     (if native_sol then Inr (key r)
      else let d = adata (s (key r)) in
      if length d < 64 then Inl InvalidAccountData else Inr (from_le (bslice 32 32 d)))"

fun recipient_owners :: "store \<Rightarrow> bool \<Rightarrow> account_info list \<Rightarrow> pubkey list result" where
  "recipient_owners s native_sol [] = Inr []"
| "recipient_owners s native_sol (r # rs) =
     bindE (recipient_owner s native_sol r) (\<lambda>x. bindE (recipient_owners s native_sol rs) (\<lambda>xs. Inr (x # xs)))"

definition unshield_recipients :: "account_info list \<Rightarrow> joinsplit_header \<Rightarrow> account_info list" where
  "unshield_recipients accounts h = take (jh_n_public_outputs h) (drop UNSHIELD_FIXED_ACCOUNTS accounts)"

text \<open>Native SOL is inferred from the vault's mint; the owners are what the proof binds.\<close>

definition unshield_destinations :: "account_info list \<Rightarrow> joinsplit_header \<Rightarrow> store \<Rightarrow> (bool \<times> pubkey list) result" where
  "unshield_destinations accounts h s =
     bindE (is_native_sol_account s (accounts ! 6) (accounts ! 7)) (\<lambda>native_sol.
     bindE (pool_state_from_bytes (adata (s (key (accounts ! 0))))) (\<lambda>_.
     bindE (check_recipients s (key (accounts ! 6)) (key (accounts ! 7)) native_sol (unshield_recipients accounts h)) (\<lambda>_.
     bindE (recipient_owners s native_sol (unshield_recipients accounts h)) (\<lambda>owners. Inr (native_sol, owners)))))"

definition owners_concat :: "pubkey list \<Rightarrow> bytes" where
  "owners_concat owners = concat (map bytes32 owners)"

section \<open>Pool, token and authorisation\<close>

definition live_pool :: "env \<Rightarrow> account_info list \<Rightarrow> store \<Rightarrow> pool_state result" where
  "live_pool E accounts s =
     bindE (pool_state_from_bytes (adata (s (key (accounts ! 0))))) (\<lambda>pool.
     if is_paused pool then Inl PoolPaused
     else bindE (validate_active_tree_pda E s (accounts ! 1) (accounts ! 0) (ps_active_tree_index pool)) (\<lambda>_. Inr pool))"

definition unshield_token :: "account_info list \<Rightarrow> store \<Rightarrow> token_config result" where
  "unshield_token accounts s =
     bindE (token_config_from_bytes (adata (s (key (accounts ! 5))))) (\<lambda>tc.
     if tc_enabled tc = 0 then Inl TokenDisabled
     else if key (accounts ! 6) \<noteq> tc_vault tc then Inl InvalidVault
     else Inr tc)"

definition unshield_parts :: "bytes \<Rightarrow> joinsplit_prefix \<Rightarrow> pubkey list \<Rightarrow> bytes list" where
  "unshield_parts d p owners = [nullifiers_concat p, drop (jp_stealth_data_end p) d, owners_concat owners]"

definition unshield_policy :: "invoke \<Rightarrow> env \<Rightarrow> account_info list \<Rightarrow> bytes \<Rightarrow> joinsplit_prefix \<Rightarrow> pool_state \<Rightarrow> joinsplit_tail \<Rightarrow>
    (nat \<times> nat) option \<Rightarrow> pubkey list \<Rightarrow> store \<Rightarrow> store result" where
  "unshield_policy I E accounts d p pool tail approval owners s =
     bindE (validate_pool_state_pda E s (accounts ! 0)) (\<lambda>_.
     withdraw_policy I E accounts pool tail approval UNSHIELD_IX (unshield_parts d p owners) EXIT_KIND_SOLANA_OWNER owners s)"

definition unshield_operation_hash :: "env \<Rightarrow> bytes \<Rightarrow> joinsplit_prefix \<Rightarrow> pubkey list \<Rightarrow> hash32" where
  "unshield_operation_hash E d p owners =
     compute_bound_params_hash_unshield E (CHAIN_ID E) (owners_concat owners)
       (rt_sha256 E (bslice (jp_stealth_data_start p) (jp_stealth_data_end p - jp_stealth_data_start p) d))"

section \<open>Payouts and ledgers\<close>

text \<open>The net amounts one by one; the totals of amounts and fees so far are carried along.\<close>

fun pay_outputs :: "invoke \<Rightarrow> pubkey \<Rightarrow> pubkey \<Rightarrow> pubkey \<Rightarrow> bytes list \<Rightarrow> bool \<Rightarrow> u16 \<Rightarrow> u64 \<Rightarrow> u64 \<Rightarrow> u64 list \<Rightarrow> account_info list \<Rightarrow>
    store \<Rightarrow> (u64 \<times> u64 \<times> store) result" where
  "pay_outputs I token_program vault pk seeds native_sol bps total_amount total_fee [] rs s = Inr (total_amount, total_fee, s)"
| "pay_outputs I token_program vault pk seeds native_sol bps total_amount total_fee (a # as) [] s = Inl Panic"
| "pay_outputs I token_program vault pk seeds native_sol bps total_amount total_fee (a # as) (r # rs) s =
     (let protocol_fee = compute_bps_fee a bps in
      bindE (ok_or (checked_sub a protocol_fee) ArithmeticOverflow) (\<lambda>payout.
      bindE (ok_or (checked_add total_amount a) ArithmeticOverflow) (\<lambda>total_amount'.
      bindE (ok_or (checked_add total_fee protocol_fee) ArithmeticOverflow) (\<lambda>total_fee'.
      if \<not> native_sol \<and> length (adata (s (key r))) < 64 then Inl Panic
      else
      bindE (if native_sol then unwrap_lamports_signed I token_program vault (key r) pk payout seeds s
             else transfer_zkbtc I token_program vault (key r) pk payout seeds s) (\<lambda>s1.
      pay_outputs I token_program vault pk seeds native_sol bps total_amount' total_fee' as rs s1)))))"

definition unshield_ledgers :: "env \<Rightarrow> bool \<Rightarrow> pubkey \<Rightarrow> pubkey \<Rightarrow> u64 \<Rightarrow> u64 \<Rightarrow> store \<Rightarrow> store result" where
  "unshield_ledgers E is_pool_zkbtc pk tck total_amount total_fee s =
     bindE (token_config_from_bytes (adata (s tck))) (\<lambda>tc.
     bindE (tc_sub_shielded total_amount tc) (\<lambda>tc1.
     bindE (tc_add_fees total_fee tc1) (\<lambda>tc2.
     bindE (write_front tck (encode_token_config tc2) s) (\<lambda>s1.
     sync_pool_total E is_pool_zkbtc pk (tc_total_shielded tc2) s1))))"

definition unshield_spend :: "bn254 \<Rightarrow> env \<Rightarrow> account_info list \<Rightarrow> pool_state \<Rightarrow> account_info option \<Rightarrow> joinsplit_header \<Rightarrow>
    joinsplit_prefix \<Rightarrow> token_config \<Rightarrow> u64 list \<Rightarrow> store \<Rightarrow> store result" where
  "unshield_spend G E accounts pool src h p tc amounts s =
     withdraw_spend G E accounts pool src h p (tc_token_id tc) amounts (UNSHIELD_FIXED_ACCOUNTS + jh_n_public_outputs h) s"

definition process_unshield :: "invoke \<Rightarrow> bn254 \<Rightarrow> env \<Rightarrow> account_info list \<Rightarrow> bytes \<Rightarrow> store \<Rightarrow> store result" where
  "process_unshield I G E accounts d s =
     (let pk = key (accounts ! 0); tck = key (accounts ! 5); vault = key (accounts ! 6) in
      bindE (unshield_data E accounts d s) (\<lambda>(h, p, amounts).
      bindE (unshield_accounts E accounts s) (\<lambda>_.
      bindE (unshield_destinations accounts h s) (\<lambda>(native_sol, owners).
      bindE (live_pool E accounts s) (\<lambda>pool.
      bindE (withdraw_tail accounts h pool (UNSHIELD_FIXED_ACCOUNTS + jh_n_public_outputs h + jh_n_inputs h)) (\<lambda>(tail, approval).
      bindE (source_tree_account E accounts tail s) (\<lambda>source_tree.
      bindE (unshield_token accounts s) (\<lambda>tc.
      bindE (unshield_policy I E accounts d p pool tail approval owners s) (\<lambda>s1.
      bindE (check_binding E pk (permissioned pool) (unshield_operation_hash E d p owners) (jp_bound_params_hash p)) (\<lambda>_.
      bindE (unshield_spend G E accounts pool source_tree h p tc amounts s1) (\<lambda>s2.
      bindE (pay_outputs I (key (accounts ! 7)) vault pk [POOL_STATE_SEED, bytes32 (ps_zkbtc_mint pool), [ps_bump pool]] native_sol
        (ps_withdrawal_fee_bps pool) 0 0 amounts (unshield_recipients accounts h) s2) (\<lambda>(total_amount, total_fee, s3).
      unshield_ledgers E (tc_mint tc = ps_zkbtc_mint pool) pk tck total_amount total_fee s3))))))))))))"

section \<open>Claiming fees\<close>

abbreviation InsufficientFees :: program_error where "InsufficientFees \<equiv> Custom 6084"

definition claim_accounts :: "env \<Rightarrow> account_info list \<Rightarrow> store \<Rightarrow> unit result" where
  "claim_accounts E accounts s =
     bindE (ensure (is_signer (accounts ! 0)) MissingRequiredSignature) (\<lambda>_.
     bindE (validate_program_owner E s (accounts ! 1)) (\<lambda>_.
     bindE (validate_program_owner E s (accounts ! 2)) (\<lambda>_.
     bindE (validate_token_owner s (accounts ! 3)) (\<lambda>_.
     bindE (validate_token_owner s (accounts ! 4)) (\<lambda>_.
     bindE (validate_any_token_program_key (accounts ! 5)) (\<lambda>_.
     bindE (validate_account_writable (accounts ! 2)) (\<lambda>_.
     bindE (validate_account_writable (accounts ! 3)) (\<lambda>_.
     bindE (validate_account_writable (accounts ! 4)) (\<lambda>_.
     bindE (validate_token_config_pda E s (accounts ! 2) (accounts ! 1)) (\<lambda>_.
     if key (accounts ! 3) = key (accounts ! 4) then Inl InvalidArgument else Inr ()))))))))))"

definition process_claim_fees :: "invoke \<Rightarrow> env \<Rightarrow> account_info list \<Rightarrow> bytes \<Rightarrow> store \<Rightarrow> store result" where
  "process_claim_fees I E accounts d s =
     (if length accounts < 6 then Inl NotEnoughAccountKeys
      else if length d < 8 then Inl InvalidInstructionData
      else let amount = from_le (bslice 0 8 d) :: u64; tck = key (accounts ! 2); vault = key (accounts ! 3) in
      bindE (claim_accounts E accounts s) (\<lambda>_.
      bindE (pool_state_from_bytes (adata (s (key (accounts ! 1))))) (\<lambda>pool.
      if key (accounts ! 0) \<noteq> ps_authority pool then Inl Unauthorized
      else
      bindE (validate_pool_state_pda E s (accounts ! 1)) (\<lambda>_.
      bindE (token_config_from_bytes (adata (s tck))) (\<lambda>tc.
      if vault \<noteq> tc_vault tc then Inl InvalidVault
      else if amount > tc_accumulated_fees tc then Inl InsufficientFees
      else
      bindE (transfer_zkbtc I (key (accounts ! 5)) vault (key (accounts ! 4)) (key (accounts ! 1)) amount
        [POOL_STATE_SEED, bytes32 (ps_zkbtc_mint pool), [ps_bump pool]] s) (\<lambda>s1.
      bindE (token_config_from_bytes (adata (s1 tck))) (\<lambda>tc1.
      bindE (tc_sub_fees amount tc1) (\<lambda>tc2.
      write_front tck (encode_token_config tc2) s1))))))))"

section \<open>The steps of a payout\<close>

definition total_of :: "u64 list \<Rightarrow> nat" where "total_of as = sum_list (map unat as)"
definition fees_of :: "u16 \<Rightarrow> u64 list \<Rightarrow> nat" where "fees_of bps as = sum_list (map (\<lambda>a. unat (compute_bps_fee a bps)) as)"

abbreviation "TOKEN_PROGRAMS \<equiv> {TOKEN_PROGRAM_ID, TOKEN_2022_PROGRAM_ID}"

lemma transfer_out_ok:
  assumes I: "token_transfer_spec I" and p: "p \<in> TOKEN_PROGRAMS" and ne: "vault \<noteq> r"
    and run: "(if native then unwrap_lamports_signed I p vault r pk x seeds s else transfer_zkbtc I p vault r pk x seeds s) = Inr s'"
  shows "token_moved vault r s s' \<and> owner (s vault) = p \<and> token_balance s vault = token_balance s' vault + unat x \<and>
    (\<forall>k. owner (s k) \<notin> TOKEN_PROGRAMS \<longrightarrow> adata (s' k) = adata (s k))"
proof -
  have S: "token_moved vault r s s' \<and> owner (s vault) = p \<and> token_balance s vault = token_balance s' vault + unat x \<and>
      (adata (s' r) = adata (s r) \<or> owner (s r) = p)"
  proof (cases native)
    case True
    with run obtain sd where "I p [writable_meta vault, writable_meta r, readonly_signer_meta pk] ([UNWRAP_LAMPORTS, 1] @ bytes8 x) sd s = Inr s'"
      by (auto simp: unwrap_lamports_signed_def run_simps)
    with I p ne show ?thesis unfolding token_transfer_spec_def by blast
  next
    case False
    with run obtain sd where "I p [writable_meta vault, writable_meta r, readonly_signer_meta pk] (TRANSFER # bytes8 x) sd s = Inr s'"
      by (auto simp: transfer_zkbtc_def run_simps split: if_splits)
    then have "token_moved vault r s s' \<and> owner (s vault) = p \<and> owner (s r) = p \<and>
        (if vault = r then token_balance s' vault = token_balance s vault
         else token_balance s vault = token_balance s' vault + unat x \<and> token_balance s r \<le> token_balance s' r \<and>
           token_balance s' r \<le> token_balance s r + unat x)"
      using I p unfolding token_transfer_spec_def by blast
    with ne show ?thesis by simp
  qed
  have "adata (s' k) = adata (s k)" if "owner (s k) \<notin> TOKEN_PROGRAMS" for k
    using S p that by (cases "k = r") (auto simp: token_moved_def token_change_def)
  with S show ?thesis by blast
qed

lemma pay_outputs_ok:
  assumes I: "token_transfer_spec I" and p: "p \<in> TOKEN_PROGRAMS"
  shows "pay_outputs I p vault pk seeds native bps tot fee as rs s = Inr (tot', fee', s') \<Longrightarrow> vault \<notin> key ` set rs \<Longrightarrow>
    unat tot' = unat tot + total_of as \<and> unat fee' = unat fee + fees_of bps as \<and>
    token_balance s vault + fees_of bps as = token_balance s' vault + total_of as \<and> (as \<noteq> [] \<longrightarrow> owner (s vault) = p) \<and>
    (\<forall>k. owner (s' k) = owner (s k)) \<and> (\<forall>k. take 64 (adata (s' k)) = take 64 (adata (s k))) \<and>
    (\<forall>k. owner (s k) \<notin> TOKEN_PROGRAMS \<longrightarrow> adata (s' k) = adata (s k)) \<and> (\<forall>k. k \<notin> insert vault (key ` set rs) \<longrightarrow> s' k = s k)"
proof (induction as arbitrary: tot fee rs s)
  case Nil
  then show ?case by (simp add: total_of_def fees_of_def)
next
  case (Cons a as)
  from Cons.prems obtain r rs' where rs: "rs = r # rs'" by (cases rs) auto
  let ?f = "compute_bps_fee a bps"
  from Cons.prems(1) rs obtain x t f s1 where x: "checked_sub a ?f = Some x" and t: "checked_add tot a = Some t"
    and f: "checked_add fee ?f = Some f"
    and tr: "(if native then unwrap_lamports_signed I p vault (key r) pk x seeds s else transfer_zkbtc I p vault (key r) pk x seeds s) = Inr s1"
    and rest: "pay_outputs I p vault pk seeds native bps t f as rs' s1 = Inr (tot', fee', s')"
    by (auto simp: Let_def run_simps)
  have ne: "vault \<noteq> key r" "vault \<notin> key ` set rs'" using Cons.prems(2) rs by auto
  note T = transfer_out_ok [OF I p ne(1) tr] and IH = Cons.IH [OF rest ne(2)]
  have own: "\<forall>k. owner (s1 k) = owner (s k)" using T by (simp add: token_moved_def token_change_def)
  have far: "s1 k = s k" if "k \<notin> {vault, key r}" for k using T that by (simp add: token_moved_def token_change_def)
  have "token_balance s vault + unat ?f = token_balance s1 vault + unat a" using T unat_checked_sub [OF x] by simp
  moreover have "\<forall>k. take 64 (adata (s1 k)) = take 64 (adata (s k))" using T by (simp add: token_moved_def)
  moreover have "\<forall>k. owner (s k) \<notin> TOKEN_PROGRAMS \<longrightarrow> adata (s1 k) = adata (s k)" using T by blast
  ultimately show ?case using IH T own far unat_checked_add [OF t] unat_checked_add [OF f] by (simp add: total_of_def fees_of_def rs)
qed

lemma unshield_accounts_ok:
  assumes "unshield_accounts E accounts s = Inr u"
  shows "owner (s (key (accounts ! 1))) = program_id E" and "owner (s (key (accounts ! 2))) = program_id E"
    and "owner (s (key (accounts ! 5))) = program_id E" and "owner (s (key (accounts ! 6))) \<in> TOKEN_PROGRAMS"
    and "key (accounts ! 7) \<in> TOKEN_PROGRAMS" and "pool_pda_ok E s (key (accounts ! 0))" and "is_signer (accounts ! 3)"
    and "\<exists>tc. token_at s (key (accounts ! 5)) = Inr tc \<and> key (accounts ! 5) = config_address E (key (accounts ! 0)) (tc_mint tc)"
  using assms by (auto simp: unshield_accounts_def run_simps validate_token_owner_iff validate_any_token_program_key_iff config_address_def
      dest!: validate_token_config_pda_ok)

lemma live_pool_ok:
  assumes "live_pool E accounts s = Inr pool"
  shows "pool_at s (key (accounts ! 0)) = Inr pool" and "\<not> is_paused pool"
    and "key (accounts ! 1) = tree_address E (key (accounts ! 0)) (ps_active_tree_index pool)"
  using assms by (auto simp: live_pool_def run_simps tree_address_def)

lemma check_recipients_ok: "check_recipients s vault tp native rs = Inr u \<Longrightarrow> vault \<notin> key ` set rs"
  by (induction rs) (auto simp: run_simps split: if_splits)

lemma read_amounts_length: "read_amounts d off n = Inr (as, off') \<Longrightarrow> length as = n"
  by (induction n arbitrary: off as off') (auto simp: run_simps)

lemma unshield_data_ok:
  assumes "unshield_data E accounts d s = Inr (h, p, amounts)"
  shows "parse_header d = Inr h" and "length amounts = jh_n_public_outputs h" and "amounts \<noteq> []"
    and "jh_n_public_outputs h \<le> jh_n_outputs h" and "jp_commitments_out p \<noteq> []"
proof -
  from assms have H: "parse_header d = Inr h" "validate_public_outputs h False = Inr ()"
    and p: "parse_prefix E s d accounts h (jh_n_outputs h - jh_n_public_outputs h) = Inr p"
    and a: "\<exists>off. read_amounts d (jp_stealth_data_end p) (jh_n_public_outputs h) = Inr (amounts, off)"
    by (auto simp: unshield_data_def Let_def run_simps)
  show "parse_header d = Inr h" by (rule H)
  show l: "length amounts = jh_n_public_outputs h" using a by (auto dest: read_amounts_length)
  show "amounts \<noteq> []" "jh_n_public_outputs h \<le> jh_n_outputs h" using H(2) l by (auto simp: validate_public_outputs_def run_simps)
  show "jp_commitments_out p \<noteq> []" using parse_prefix_lengths(2) [OF p] header_outputs [OF H(1)] by auto
qed

lemma unshield_ledgers_ok:
  assumes run: "unshield_ledgers E z pk tck amount fee s = Inr s'" and tc: "token_at s tck = Inr tc" and p: "pool_at s pk = Inr p"
    and ne: "pk \<noteq> tck"
  shows "\<exists>a b. token_at s' tck = Inr (tc\<lparr>tc_total_shielded := a, tc_accumulated_fees := b\<rparr>) \<and>
      unat (tc_total_shielded tc) = unat a + unat amount \<and> unat b = unat (tc_accumulated_fees tc) + unat fee \<and>
      pool_at s' pk = Inr (if z then p\<lparr>ps_total_shielded := a, ps_last_update := clock_unix_timestamp E\<rparr> else p)"
    and "k \<notin> {pk, tck} \<Longrightarrow> s' k = s k" and "owner (s' k) = owner (s k)"
proof -
  from run tc obtain a b s1 where a: "checked_sub (tc_total_shielded tc) amount = Some a"
    and b: "checked_add (tc_accumulated_fees tc) fee = Some b"
    and w: "write_front tck (encode_token_config (tc\<lparr>tc_total_shielded := a, tc_accumulated_fees := b\<rparr>)) s = Inr s1"
    and sy: "sync_pool_total E z pk a s1 = Inr s'"
    by (auto simp: unshield_ledgers_def tc_sub_shielded_def tc_add_fees_def run_simps)
  have "tc_discriminator (tc\<lparr>tc_total_shielded := a, tc_accumulated_fees := b\<rparr>) = TOKEN_CONFIG_DISCRIMINATOR"
    using discriminator_at(3) [of s tck tc] tc by simp
  note W = write_token [OF w this]
  have "pool_at s1 pk = Inr p" using p W(2) [of pk] ne by simp
  note S = sync_pool_total_ok [OF sy this]
  show "\<exists>a b. token_at s' tck = Inr (tc\<lparr>tc_total_shielded := a, tc_accumulated_fees := b\<rparr>) \<and>
      unat (tc_total_shielded tc) = unat a + unat amount \<and> unat b = unat (tc_accumulated_fees tc) + unat fee \<and>
      pool_at s' pk = Inr (if z then p\<lparr>ps_total_shielded := a, ps_last_update := clock_unix_timestamp E\<rparr> else p)"
    using W(1) S(1) S(2) [of tck] ne unat_checked_sub [OF a] unat_checked_add [OF b] by (intro exI [of _ a] exI [of _ b]) simp
  show "k \<notin> {pk, tck} \<Longrightarrow> s' k = s k" "owner (s' k) = owner (s k)" using W(2,3) S(2,3) by simp_all
qed

lemma unshield_run:
  assumes "process_unshield I G E accounts d s = Inr s'"
  defines "pk \<equiv> key (accounts ! 0)" and "tck \<equiv> key (accounts ! 5)" and "vault \<equiv> key (accounts ! 6)"
  shows "\<exists>h p amounts native owners pool tail approval src tc s1 s2 tot fee s3.
    unshield_data E accounts d s = Inr (h, p, amounts) \<and> unshield_accounts E accounts s = Inr () \<and>
    unshield_destinations accounts h s = Inr (native, owners) \<and> live_pool E accounts s = Inr pool \<and>
    withdraw_tail accounts h pool (UNSHIELD_FIXED_ACCOUNTS + jh_n_public_outputs h + jh_n_inputs h) = Inr (tail, approval) \<and>
    unshield_token accounts s = Inr tc \<and> unshield_policy I E accounts d p pool tail approval owners s = Inr s1 \<and>
    check_binding E pk (permissioned pool) (unshield_operation_hash E d p owners) (jp_bound_params_hash p) = Inr () \<and>
    unshield_spend G E accounts pool src h p tc amounts s1 = Inr s2 \<and>
    pay_outputs I (key (accounts ! 7)) vault pk [POOL_STATE_SEED, bytes32 (ps_zkbtc_mint pool), [ps_bump pool]] native
        (ps_withdrawal_fee_bps pool) 0 0 amounts (unshield_recipients accounts h) s2 = Inr (tot, fee, s3) \<and>
    unshield_ledgers E (tc_mint tc = ps_zkbtc_mint pool) pk tck tot fee s3 = Inr s'"
proof -
  have "process_unshield I G E accounts d s = Inr s'" by (rule assms(1))
  then show ?thesis unfolding process_unshield_def Let_def pk_def tck_def vault_def
    by (simp only: run_simps) (elim exE conjE, intro exI conjI; (assumption | simp))
qed

section \<open>What unshielding checks and changes\<close>

lemma spent_take: "take 64 (adata (s' k)) = take 64 (adata (s k)) \<Longrightarrow> spent_at s' k = spent_at s k"
proof -
  assume e: "take 64 (adata (s' k)) = take 64 (adata (s k))"
  then have "adata (s' k) = [] \<longleftrightarrow> adata (s k) = []" by (metis take_eq_Nil zero_neq_numeral)
  moreover have "adata (s' k) ! 0 = adata (s k) ! 0" using e nth_take [of 0 64] by (metis zero_less_numeral)
  ultimately show ?thesis by (simp add: spent_at_def)
qed

text \<open>The effect of a spend seen from an earlier and from a later store.\<close>

lemma withdrawn_around:
  assumes w: "withdrawn G E accounts h p pool tid amounts i s1 s2"
    and ap: "approval_only E s s1" "program_id E = ASSET_PROGRAM_ID" "owner (s (key (accounts ! 1))) = program_id E"
    and later: "\<And>q j n. nullifier_spent E s' q j n = nullifier_spent E s2 q j n"
      "adata (s' (key (accounts ! 1))) = adata (s2 (key (accounts ! 1)))"
  shows "withdrawn G E accounts h p pool tid amounts i s s'"
proof -
  note K = approval_only_keeps [OF ap(1,2)]
  have "nullifier_spent E s1 q j n = nullifier_spent E s q j n" for q j n using K(2) by (simp add: nullifier_spent_def)
  with w K(1) [OF ap(3)] later spend_authorised_before [OF ap(1,2)] show ?thesis
    unfolding withdrawn_def Let_def by (auto simp del: One_nat_def split: if_splits)
qed

text \<open>
  The ledgers after \<open>amounts\<close> left: note total and fees of the token, the pool's own total and nullifier
  counter, and the balance of the vault.
\<close>

definition paid_out :: "env \<Rightarrow> account_info list \<Rightarrow> pool_state \<Rightarrow> token_config \<Rightarrow> nat \<Rightarrow> u64 list \<Rightarrow> store \<Rightarrow> store \<Rightarrow> bool" where
  "paid_out E accounts pool tc n amounts s s' \<longleftrightarrow>
     (let pk = key (accounts ! 0); tck = key (accounts ! 5); vault = key (accounts ! 6); bps = ps_withdrawal_fee_bps pool;
          counted = add_nullifiers (of_nat n) pool in
      token_balance s vault + fees_of bps amounts = token_balance s' vault + total_of amounts \<and>
      (\<exists>a b. token_at s' tck = Inr (tc\<lparr>tc_total_shielded := a, tc_accumulated_fees := b\<rparr>) \<and>
         unat (tc_total_shielded tc) = unat a + total_of amounts \<and> unat b = unat (tc_accumulated_fees tc) + fees_of bps amounts \<and>
         pool_at s' pk = Inr (if tc_mint tc = ps_zkbtc_mint pool
           then counted\<lparr>ps_total_shielded := a, ps_last_update := clock_unix_timestamp E\<rparr> else counted)))"

lemma unshield_effect:
  assumes spec: "system_program_spec E" and kinds: "pda_kinds_separate E" "config_kind_separate E" and w: "policy_world R E I"
    and I: "token_transfer_spec I" and run: "process_unshield I G E accounts d s = Inr s'"
  defines "pk \<equiv> key (accounts ! 0)" and "tk \<equiv> key (accounts ! 1)" and "tck \<equiv> key (accounts ! 5)" and "vault \<equiv> key (accounts ! 6)"
  shows "\<exists>h p amounts native owners pool tc i. unshield_data E accounts d s = Inr (h, p, amounts) \<and> is_signer (accounts ! 3) \<and>
    unshield_destinations accounts h s = Inr (native, owners) \<and>
    pool_at s pk = Inr pool \<and> \<not> is_paused pool \<and> token_at s tck = Inr tc \<and> tc_enabled tc \<noteq> 0 \<and> tc_vault tc = vault \<and>
    bind_bound_params_to_domain E (unshield_operation_hash E d p owners) (CHAIN_ID E) (program_id E) pk (permissioned pool) =
      Inr (jp_bound_params_hash p) \<and>
    withdraw_allowed E s accounts pool UNSHIELD_IX (unshield_parts d p owners) 0 owners \<and>
    withdrawn G E accounts h p pool (tc_token_id tc) amounts i s s' \<and> paid_out E accounts pool tc (length (jp_nullifiers p)) amounts s s' \<and>
    frame ({pk, tk, tck, vault} \<union> key ` set (unshield_recipients accounts h) \<union> nullifier_address E pk i ` set (jp_nullifiers p) \<union>
      {k. owner (s k) = POLICY_PROGRAM_ID}) s s'"
proof -
  from unshield_run [OF run, folded pk_def tck_def vault_def] obtain h p amounts native owners pool tail approval src tc s1 s2 tot fee s3 where
    dt: "unshield_data E accounts d s = Inr (h, p, amounts)" and ac: "unshield_accounts E accounts s = Inr ()"
    and ds: "unshield_destinations accounts h s = Inr (native, owners)" and lp: "live_pool E accounts s = Inr pool"
    and "withdraw_tail accounts h pool (UNSHIELD_FIXED_ACCOUNTS + jh_n_public_outputs h + jh_n_inputs h) = Inr (tail, approval)"
    and tk0: "unshield_token accounts s = Inr tc" and pol: "unshield_policy I E accounts d p pool tail approval owners s = Inr s1"
    and cb: "check_binding E pk (permissioned pool) (unshield_operation_hash E d p owners) (jp_bound_params_hash p) = Inr ()"
    and sp: "unshield_spend G E accounts pool src h p tc amounts s1 = Inr s2"
    and pay: "pay_outputs I (key (accounts ! 7)) vault pk [POOL_STATE_SEED, bytes32 (ps_zkbtc_mint pool), [ps_bump pool]] native
        (ps_withdrawal_fee_bps pool) 0 0 amounts (unshield_recipients accounts h) s2 = Inr (tot, fee, s3)"
    and led: "unshield_ledgers E (tc_mint tc = ps_zkbtc_mint pool) pk tck tot fee s3 = Inr s'"
    by (elim exE conjE) (rule that; assumption)
  have id: "program_id E = ASSET_PROGRAM_ID" using w by (simp add: policy_world_def)
  note T = token_ids [OF w] and D = unshield_data_ok [OF dt] and U = unshield_accounts_ok [OF ac, folded pk_def tk_def tck_def vault_def]
    and L = live_pool_ok [OF lp, folded pk_def tk_def]
  have tc: "token_at s tck = Inr tc" "tc_enabled tc \<noteq> 0" "tc_vault tc = vault" "tck = config_address E pk (tc_mint tc)"
    using tk0 U(8) by (auto simp: unshield_token_def run_simps tck_def vault_def split: if_splits)
  have vr: "vault \<notin> key ` set (unshield_recipients accounts h)"
    using ds by (auto simp: unshield_destinations_def run_simps vault_def dest!: check_recipients_ok)
  have "withdraw_policy I E accounts pool tail approval UNSHIELD_IX (unshield_parts d p owners) 0 owners s = Inr s1"
    using pol by (simp add: unshield_policy_def run_simps EXIT_KIND_SOLANA_OWNER_def)
  note W = withdraw_policy_ok [OF w L(1) [unfolded pk_def] this]
  note K = approval_only_keeps [OF W(1) id]
  have notpol: "owner (s vault) \<noteq> POLICY_PROGRAM_ID" using U(4) policy_not_token by auto
  have same: "s1 pk = s pk" "s1 tk = s tk" "s1 tck = s tck" "s1 vault = s vault"
    using K(1) U(1,3,6) approval_only_other [OF W(1) notpol] by (auto simp: pool_pda_ok_def)
  have P1: "pool_at s1 pk = Inr pool" "pool_pda_ok E s1 pk" using L(1) U(6) same(1) by (simp_all add: pool_pda_ok_def)
  have own1: "owner (s1 tk) = program_id E" "owner (s1 (key (accounts ! 2))) = program_id E" using U(1,2) K(3) by simp_all
  note S = withdraw_spend_ok [where s = s1 and s' = s2, OF spec kinds(1) sp [unfolded unshield_spend_def] P1 [unfolded pk_def]
      L(3) [unfolded pk_def tk_def] own1 [unfolded tk_def] D(5), folded pk_def tk_def]
  from S(1) obtain i where wd: "withdrawn G E accounts h p pool (tc_token_id tc) amounts i s1 s2"
    and fr: "frame ({pk, tk} \<union> nullifier_address E pk i ` set (jp_nullifiers p)) s1 s2"
    and no: "\<forall>n \<in> set (jp_nullifiers p). owner (s2 (nullifier_address E pk i n)) = program_id E" by blast
  note Y = pay_outputs_ok [OF I U(5) pay vr]
  have pt: "pk \<noteq> tck" "tk \<noteq> tck" "tck \<notin> nullifier_address E pk i ` set (jp_nullifiers p)"
    using config_apart [OF kinds(2)] U(6) L(3) tc(4) by (auto dest: sym)
  have "owner (s2 vault) \<in> TOKEN_PROGRAMS" using Y D(3) U(5) by auto
  then have vo: "vault \<notin> {pk, tk} \<union> nullifier_address E pk i ` set (jp_nullifiers p)" using no S(3,4) T by auto
  have bal: "token_balance s2 vault = token_balance s vault" using frameD [OF fr vo] same(4) by (simp add: token_balance_def)
  have tck2: "adata (s2 tck) = adata (s tck)" "owner (s2 tck) = program_id E"
    using frameD [OF fr, of tck] pt same(3) U(3) by auto
  have keep3: "adata (s3 k) = adata (s2 k)" if "owner (s2 k) = program_id E" for k using Y T that by auto
  have tc3: "token_at s3 tck = Inr tc" using keep3 [OF tck2(2)] tck2(1) tc(1) by simp
  have p3: "pool_at s3 pk = Inr (add_nullifiers (of_nat (length (jp_nullifiers p))) pool)" using keep3 [OF S(3)] S(2) by simp
  note G' = unshield_ledgers_ok [OF led tc3 p3 pt(1)]
  have vault': "s' vault = s3 vault" by (rule G'(2)) (use vo U(3,4) T in auto)
  have paid: "paid_out E accounts pool tc (length (jp_nullifiers p)) amounts s s'"
    unfolding paid_out_def Let_def pk_def [symmetric] tck_def [symmetric] vault_def [symmetric]
    using Y G'(1) bal vault' by (auto simp: token_balance_def)
  have "pk \<noteq> tk" unfolding L(3) by (rule addresses_apart(3) [OF kinds(1) U(6)])
  then have tk': "adata (s' tk) = adata (s2 tk)" using G'(2) [of tk] keep3 [OF S(4)] pt(2) by auto
  have nul: "nullifier_spent E s' q j n = nullifier_spent E s2 q j n" for q j n
  proof -
    have "nullifier_address E q j n \<notin> {pk, tck}" using addresses_apart(2) [OF kinds(1) U(6)] config_apart(1) [OF kinds(2)] tc(4) by (metis insertE singletonD)
    then have "s' (nullifier_address E q j n) = s3 (nullifier_address E q j n)" using G'(2) by blast
    then have "nullifier_spent E s' q j n = nullifier_spent E s3 q j n" by (simp add: nullifier_spent_def spent_at_def)
    also have "\<dots> = nullifier_spent E s2 q j n" unfolding nullifier_spent_def by (rule spent_take) (use Y in blast)
    finally show ?thesis .
  qed
  have wd': "withdrawn G E accounts h p pool (tc_token_id tc) amounts i s s'"
    using withdrawn_around [OF wd W(1) id U(1) [unfolded tk_def] nul tk' [unfolded tk_def]] .
  have f1: "frame {k. owner (s k) = POLICY_PROGRAM_ID} s s1" using approval_only_other [OF W(1)] by (auto simp: frame_def)
  have f3: "frame (insert vault (key ` set (unshield_recipients accounts h))) s2 s3" using Y by (simp add: frame_def)
  have f4: "frame {pk, tck} s3 s'" using G'(2) by (simp add: frame_def)
  have "frame ({pk, tk, tck, vault} \<union> key ` set (unshield_recipients accounts h) \<union> nullifier_address E pk i ` set (jp_nullifiers p) \<union>
      {k. owner (s k) = POLICY_PROGRAM_ID}) s s'"
    using frame_trans [OF f1 frame_trans [OF fr frame_trans [OF f3 f4]]] by (rule frame_mono) auto
  moreover have "bind_bound_params_to_domain E (unshield_operation_hash E d p owners) (CHAIN_ID E) (program_id E) pk (permissioned pool) =
      Inr (jp_bound_params_hash p)" using cb by (auto simp: check_binding_def run_simps)
  ultimately show ?thesis using dt U(7) ds L(1,2) tc(1-3) W(2) wd' paid by blast
qed


section \<open>What a vault holds\<close>

definition vault_backs :: "store \<Rightarrow> pubkey \<Rightarrow> pubkey \<Rightarrow> int \<Rightarrow> bool" where
  "vault_backs s tck vault m \<longleftrightarrow> (\<exists>tc. token_at s tck = Inr tc \<and> tc_vault tc = vault \<and>
     int (token_balance s vault) = int (unat (tc_total_shielded tc)) + int (unat (tc_accumulated_fees tc)) + m)"

lemma vault_backs_move:
  assumes m: "vault_backs s tck vault m" and tc: "token_at s tck = Inr tc" "token_at s' tck = Inr tc'" "tc_vault tc' = tc_vault tc"
    and eq: "token_balance s' (tc_vault tc) + unat (tc_total_shielded tc) + unat (tc_accumulated_fees tc) =
      token_balance s (tc_vault tc) + unat (tc_total_shielded tc') + unat (tc_accumulated_fees tc')"
  shows "vault_backs s' tck vault m"
proof -
  from m tc(1) have v: "tc_vault tc = vault"
    and b: "int (token_balance s vault) = int (unat (tc_total_shielded tc)) + int (unat (tc_accumulated_fees tc)) + m"
    by (auto simp: vault_backs_def)
  have "int (token_balance s' vault) = int (unat (tc_total_shielded tc')) + int (unat (tc_accumulated_fees tc')) + m"
    using b eq unfolding v by linarith
  with tc(2,3) v show ?thesis unfolding vault_backs_def by blast
qed

text \<open>A call that moves tokens of this vault, or any step that leaves the vault and its configuration alone.\<close>

inductive vault_step :: "invoke \<Rightarrow> bn254 \<Rightarrow> env \<Rightarrow> pubkey \<Rightarrow> pubkey \<Rightarrow> store \<Rightarrow> store \<Rightarrow> bool"
  for I G E tck vault where
  shielding: "process_shield I E accounts d s = Inr s' \<or> process_shield_permissioned I E accounts d s = Inr s' \<Longrightarrow>
     key (accounts ! 3) = tck \<Longrightarrow> vault_step I G E tck vault s s'"
| unshielding: "process_unshield I G E accounts d s = Inr s' \<Longrightarrow> key (accounts ! 5) = tck \<Longrightarrow> vault_step I G E tck vault s s'"
| claiming: "process_claim_fees I E accounts d s = Inr s' \<Longrightarrow> key (accounts ! 2) = tck \<Longrightarrow> vault_step I G E tck vault s s'"
| elsewhere: "s' tck = s tck \<Longrightarrow> s' vault = s vault \<Longrightarrow> vault_step I G E tck vault s s'"

lemma claim_fees_ok:
  assumes w: "policy_world R E I" and I: "token_transfer_spec I" and run: "process_claim_fees I E accounts d s = Inr s'"
  defines "tck \<equiv> key (accounts ! 2)" and "vault \<equiv> key (accounts ! 3)" and "amount \<equiv> from_le (bslice 0 8 d) :: u64"
  shows "is_signer (accounts ! 0)" and "\<exists>p. pool_at s (key (accounts ! 1)) = Inr p \<and> key (accounts ! 0) = ps_authority p"
    and "\<exists>tc f. token_at s tck = Inr tc \<and> tc_vault tc = vault \<and> token_at s' tck = Inr (tc\<lparr>tc_accumulated_fees := f\<rparr>) \<and>
      unat (tc_accumulated_fees tc) = unat f + unat amount \<and> token_balance s vault = token_balance s' vault + unat amount"
proof -
  from run obtain pool tc s1 tc1 f where a: "claim_accounts E accounts s = Inr ()" and p: "pool_at s (key (accounts ! 1)) = Inr pool"
      "key (accounts ! 0) = ps_authority pool"
    and tc: "token_at s tck = Inr tc" "tc_vault tc = vault"
    and tr: "transfer_zkbtc I (key (accounts ! 5)) vault (key (accounts ! 4)) (key (accounts ! 1)) amount
        [POOL_STATE_SEED, bytes32 (ps_zkbtc_mint pool), [ps_bump pool]] s = Inr s1"
    and tc1: "token_at s1 tck = Inr tc1" and f: "checked_sub (tc_accumulated_fees tc1) amount = Some f"
    and wr: "write_front tck (encode_token_config (tc1\<lparr>tc_accumulated_fees := f\<rparr>)) s1 = Inr s'"
    unfolding process_claim_fees_def tck_def vault_def amount_def Let_def tc_sub_fees_def
    by (auto simp: run_simps split: if_splits)
  have A: "is_signer (accounts ! 0)" "owner (s tck) = program_id E" "owner (s vault) \<in> TOKEN_PROGRAMS" "key (accounts ! 5) \<in> TOKEN_PROGRAMS"
    "vault \<noteq> key (accounts ! 4)"
    using a by (auto simp: claim_accounts_def run_simps validate_token_owner_iff validate_any_token_program_key_iff tck_def vault_def)
  have T: "token_balance s vault = token_balance s1 vault + unat amount" "adata (s1 tck) = adata (s tck)"
    using transfer_out_ok [where native = False, OF I A(4,5)] tr A(2) token_ids [OF w] by auto
  have "tc_discriminator (tc1\<lparr>tc_accumulated_fees := f\<rparr>) = TOKEN_CONFIG_DISCRIMINATOR"
    using discriminator_at(3) [of s1 tck tc1] tc1 by simp
  note W = write_token [OF wr this]
  have "vault \<noteq> tck" using A(2,3) token_ids [OF w] by auto
  then have "s' vault = s1 vault" using W(2) by blast
  show "is_signer (accounts ! 0)" by (rule A(1))
  show "\<exists>p. pool_at s (key (accounts ! 1)) = Inr p \<and> key (accounts ! 0) = ps_authority p" using p by blast
  have "tc1 = tc" using tc1 tc(1) T(2) by simp
  with tc W(1) T(1) \<open>s' vault = s1 vault\<close> unat_checked_sub [OF f]
  show "\<exists>tc f. token_at s tck = Inr tc \<and> tc_vault tc = vault \<and> token_at s' tck = Inr (tc\<lparr>tc_accumulated_fees := f\<rparr>) \<and>
      unat (tc_accumulated_fees tc) = unat f + unat amount \<and> token_balance s vault = token_balance s' vault + unat amount"
    by (intro exI [of _ tc] exI [of _ f]) (simp add: token_balance_def)
qed

lemma shielded_in_ledger:
  assumes "shielded_in E accounts d pool received fee shielded s s'"
  defines "tck \<equiv> key (accounts ! 3)"
  shows "\<exists>tc a b. token_at s tck = Inr tc \<and> token_at s' tck = Inr (tc\<lparr>tc_total_shielded := a, tc_accumulated_fees := b\<rparr>) \<and>
    token_balance s' (tc_vault tc) = token_balance s (tc_vault tc) + unat fee + unat shielded \<and>
    unat a = unat (tc_total_shielded tc) + unat shielded \<and> unat b = unat (tc_accumulated_fees tc) + unat fee"
proof -
  note e = assms(1) [unfolded shielded_in_def Let_def, folded tck_def]
  then obtain tc a b where t: "token_at s tck = Inr tc \<and> tc_vault tc = key (accounts ! 4) \<and>
      token_at s' tck = Inr (tc\<lparr>tc_total_shielded := a, tc_accumulated_fees := b\<rparr>) \<and>
      unat a = unat (tc_total_shielded tc) + unat shielded \<and> unat b = unat (tc_accumulated_fees tc) + unat fee"
    by (elim exE conjE) (rule that, intro conjI; assumption)
  from e have "unat fee + unat shielded = unat received" "token_balance s' (key (accounts ! 4)) = token_balance s (key (accounts ! 4)) + unat received"
    by blast+
  with t show ?thesis by (intro exI [of _ tc] exI [of _ a] exI [of _ b]) simp
qed

lemma vault_step_keeps:
  assumes spec: "system_program_spec E" and kinds: "pda_kinds_separate E" "config_kind_separate E" and w: "policy_world R E I"
    and I: "token_transfer_spec I" and step: "vault_step I G E tck vault s s'" and m: "vault_backs s tck vault m"
  shows "vault_backs s' tck vault m"
  using step
proof cases
  case (shielding accounts d)
  from shield_run_effect [OF w I shielding(1)] obtain pool rv fee sh where
    "shielded_in E accounts d pool rv fee sh s s'" by blast
  from shielded_in_ledger [OF this] shielding(2) obtain tc a b where t: "token_at s tck = Inr tc"
      "token_at s' tck = Inr (tc\<lparr>tc_total_shielded := a, tc_accumulated_fees := b\<rparr>)"
    and e: "token_balance s' (tc_vault tc) = token_balance s (tc_vault tc) + unat fee + unat sh"
      "unat a = unat (tc_total_shielded tc) + unat sh" "unat b = unat (tc_accumulated_fees tc) + unat fee" by blast
  show ?thesis by (rule vault_backs_move [where s = s and s' = s', OF m t(1,2)]) (use e in simp_all)
next
  case (unshielding accounts d)
  from unshield_effect [OF spec kinds w I unshielding(1), unfolded unshielding(2)] obtain p :: joinsplit_prefix and amounts tc pool where
    t: "token_at s tck = Inr tc \<and> tc_vault tc = key (accounts ! 6) \<and> paid_out E accounts pool tc (length (jp_nullifiers p)) amounts s s'"
    by (elim exE conjE) (rule that, intro conjI; assumption)
  then have po: "paid_out E accounts pool tc (length (jp_nullifiers p)) amounts s s'"
    and t: "token_at s tck = Inr tc" "tc_vault tc = key (accounts ! 6)" by simp_all
  from po unshielding(2) t(2) obtain a b where e: "token_balance s (tc_vault tc) + fees_of (ps_withdrawal_fee_bps pool) amounts =
      token_balance s' (tc_vault tc) + total_of amounts"
    and t': "token_at s' tck = Inr (tc\<lparr>tc_total_shielded := a, tc_accumulated_fees := b\<rparr>)"
      "unat (tc_total_shielded tc) = unat a + total_of amounts"
      "unat b = unat (tc_accumulated_fees tc) + fees_of (ps_withdrawal_fee_bps pool) amounts"
    by (auto simp: paid_out_def Let_def)
  show ?thesis by (rule vault_backs_move [where s = s and s' = s', OF m t(1) t'(1)]) (use e t'(2,3) in simp_all)
next
  case (claiming accounts d)
  from claim_fees_ok(3) [OF w I claiming(1)] claiming(2) obtain tc f where t: "token_at s tck = Inr tc"
      "token_at s' tck = Inr (tc\<lparr>tc_accumulated_fees := f\<rparr>)" "tc_vault tc = key (accounts ! 3)"
      "unat (tc_accumulated_fees tc) = unat f + unat (from_le (bslice 0 8 d) :: u64)"
      "token_balance s (key (accounts ! 3)) = token_balance s' (key (accounts ! 3)) + unat (from_le (bslice 0 8 d) :: u64)" by blast
  show ?thesis by (rule vault_backs_move [where s = s and s' = s', OF m t(1,2)]) (use t in simp_all)
next
  case elsewhere
  with m show ?thesis by (simp add: vault_backs_def token_balance_def)
qed

text \<open>
  C19. A vault keeps backing its notes. Along every history of shields, unshields and fee claims on a
  token, interleaved with any steps that leave its vault and its configuration alone, what the vault holds
  beyond the shielded total and the accumulated fees stays what it was: tokens with a transfer
  fee, roundings and partial claims included, no history makes a backed vault insolvent.
\<close>

theorem vault_keeps_backing:
  assumes "system_program_spec E" and "pda_kinds_separate E" and "config_kind_separate E" and "policy_world R E I"
    and "token_transfer_spec I" and run: "(vault_step I G E tck vault)\<^sup>*\<^sup>* s s'" and m: "vault_backs s tck vault m"
  shows "vault_backs s' tck vault m"
  using run m by (induction rule: rtranclp_induct) (auto intro: vault_step_keeps [OF assms(1-5)])

section \<open>A concrete history\<close>

text \<open>The thousand tokens of the spend leave the vault for the token account 6.\<close>

definition unshield_demo_accounts :: "account_info list" where
  "unshield_demo_accounts = map demo_acc [266, 68111, 65803, 77, 0, dep_tok, 5, TOKEN_PROGRAM_ID, 6, sp_nullifier]"

definition unshield_demo_data :: bytes where "unshield_demo_data = wd_front @ bytes8 1000"

lemma unshield_acc:
  "unshield_demo_accounts ! 0 = demo_acc 266" "unshield_demo_accounts ! Suc 0 = demo_acc 68111" "unshield_demo_accounts ! 2 = demo_acc 65803"
  "unshield_demo_accounts ! 3 = demo_acc 77" "unshield_demo_accounts ! 4 = demo_acc 0" "unshield_demo_accounts ! 5 = demo_acc dep_tok"
  "unshield_demo_accounts ! 6 = demo_acc 5" "unshield_demo_accounts ! 7 = demo_acc TOKEN_PROGRAM_ID"
  "length unshield_demo_accounts = 10" "drop 8 unshield_demo_accounts = [demo_acc 6, demo_acc sp_nullifier]"
  "drop 9 unshield_demo_accounts = [demo_acc sp_nullifier]"
  by (simp_all add: unshield_demo_accounts_def)

lemma unshield_demo_checks:
  shows "unshield_data wd_env unshield_demo_accounts unshield_demo_data wd_store = Inr (wd_header, wd_prefix, [1000])"
    and "unshield_accounts wd_env unshield_demo_accounts wd_store = Inr ()"
    and "unshield_destinations unshield_demo_accounts wd_header wd_store = Inr (False, [0])"
    and "live_pool wd_env unshield_demo_accounts wd_store = Inr wd_ps"
    and "withdraw_tail unshield_demo_accounts wd_header wd_ps 10 = Inr (\<lparr>jt_relayer = None, jt_source_tree = None,
       jt_policy_start = None, jt_queued_leaves_start = None, jt_proof_buffer = None\<rparr>, None)"
    and "unshield_token unshield_demo_accounts wd_store = Inr wd_token"
    and "unshield_operation_hash wd_env unshield_demo_data wd_prefix [0] = 0"
proof -
  have h: "jh_n_inputs wd_header = 1" "jh_n_outputs wd_header = 1" "jh_n_public_outputs wd_header = 1" "jh_flags wd_header = 0"
    by (simp_all add: wd_header_def sp_header_def)
  have e: "jp_stealth_data_end wd_prefix = 388" "jp_bound_params_hash wd_prefix = 1" by (simp_all add: wd_prefix_def sp_prefix_def)
  have tail: "bslice 388 8 unshield_demo_data = bytes8 (1000 :: u64)" "length unshield_demo_data = 396"
    using wd_parse(3) by (simp_all add: unshield_demo_data_def bslice_def)
  have parse: "parse_header unshield_demo_data = Inr wd_header"
    "parse_prefix E s unshield_demo_data accounts wd_header 0 = Inr wd_prefix" for E s accounts
    using wd_parse(1,2) by (simp_all add: unshield_demo_data_def)
  show "unshield_data wd_env unshield_demo_accounts unshield_demo_data wd_store = Inr (wd_header, wd_prefix, [1000])"
    by (simp add: unshield_data_def Let_def parse h e validate_public_outputs_def validate_account_count_def unshield_acc UNSHIELD_FIXED_ACCOUNTS_def
        read_u64_le_def take_bytes_def usize_checked_add_def tail PROOF_IN_BUFFER_def MAX_PUBLIC_OUTPUTS_def)
  have "owner (wd_store 65803) = ASSET_PROGRAM_ID" by (simp add: wd_store_simps settle_account_def)
  then show "unshield_accounts wd_env unshield_demo_accounts wd_store = Inr ()"
    by (simp add: unshield_accounts_def unshield_acc validate_program_owner_def wd_at validate_token_owner_def validate_any_token_program_key_def
        validate_account_writable_def validate_token_config_pda_def validate_system_program_def wd_token_fields dep_pdas)
  show "live_pool wd_env unshield_demo_accounts wd_store = Inr wd_ps"
    by (simp add: live_pool_def unshield_acc wd_at wd_pool validate_active_tree_pda_def dep_pdas)
  show "withdraw_tail unshield_demo_accounts wd_header wd_ps 10 = Inr (\<lparr>jt_relayer = None, jt_source_tree = None,
       jt_policy_start = None, jt_queued_leaves_start = None, jt_proof_buffer = None\<rparr>, None)"
    by (simp add: withdraw_tail_def wd_pool policy_tail_from_flags_def h sp_flag resolve_joinsplit_tail_def take_n_def policy_account_count_def
        unshield_acc)
  show "unshield_token unshield_demo_accounts wd_store = Inr wd_token"
    by (simp add: unshield_token_def unshield_acc wd_at wd_token_fields)
  show "unshield_operation_hash wd_env unshield_demo_data wd_prefix [0] = 0"
    by (simp add: unshield_operation_hash_def compute_bound_params_hash_unshield_def wd_bound)
  have rs: "unshield_recipients unshield_demo_accounts wd_header = [demo_acc 6]"
    by (simp add: unshield_recipients_def h UNSHIELD_FIXED_ACCOUNTS_def unshield_acc)
  have "from_le (bslice 0 32 (adata (wd_store 5))) = (0 :: pubkey)" "from_le (bslice 32 32 (adata (wd_store 6))) = (0 :: pubkey)"
    "length (adata (wd_store 5)) = 165" "length (adata (wd_store 6)) = 165"
    by (simp_all add: wd_at bslice_def)
  moreover have "is_native_sol_mint 0 TOKEN_PROGRAM_ID = False"
    by (simp add: is_native_sol_mint_def NATIVE_SOL_MINT_def NATIVE_SOL_2022_MINT_def TOKEN_PROGRAM_ID_def TOKEN_2022_PROGRAM_ID_def)
  moreover have "is_native_sol_account wd_store (demo_acc 5) (demo_acc TOKEN_PROGRAM_ID) = Inr False"
    using calculation by (simp add: is_native_sol_account_def wd_at(8) Let_def)
  ultimately show "unshield_destinations unshield_demo_accounts wd_header wd_store = Inr (False, [0])"
    by (simp add: unshield_destinations_def unshield_acc rs wd_at(2,8,9) validate_account_writable_def validate_token_owner_def
        recipient_owner_def Let_def)
qed

lemma unshield_demo_run:
  "\<exists>s'. process_unshield wd_invoke accept_all wd_env unshield_demo_accounts unshield_demo_data wd_store = Inr s'"
proof -
  have h: "jh_n_inputs wd_header = 1" "jh_n_public_outputs wd_header = 1" "jp_bound_params_hash wd_prefix = 1"
    by (simp_all add: wd_header_def sp_header_def wd_prefix_def sp_prefix_def)
  obtain s2 where s2: "withdraw_spend accept_all wd_env unshield_demo_accounts wd_ps None wd_header wd_prefix 5 [1000] 9 wd_store = Inr s2"
      "pool_at s2 266 = Inr (add_nullifiers 1 wd_ps)" "\<forall>k. k \<notin> {266, sp_nullifier} \<longrightarrow> s2 k = wd_store k"
    using wd_spend [OF unshield_acc(1-4,11)] by blast
  have f: "s2 5 = wd_store 5" "s2 6 = wd_store 6" "s2 dep_tok = wd_store dep_tok" using s2(3) by (simp_all add: sp_nullifier_def)
  have b: "bslice 64 8 (adata (wd_store 5)) = bytes8 (100000 :: u64)" "bslice 64 8 (adata (wd_store 6)) = bytes8 (100000 :: u64)"
    "length (adata (wd_store 5)) = 165" "length (adata (wd_store 6)) = 165"
    by (simp_all add: wd_at slice_simps)
  then have bal: "token_balance s2 5 = 100000" "token_balance s2 6 = 100000" by (simp_all add: token_balance_def f)
  define s3 where "s3 = set_data 5 (put_at 64 (bytes8 (99000 :: u64)) (adata (wd_store 5)))
       (set_data 6 (put_at 64 (bytes8 (101000 :: u64)) (adata (wd_store 6))) s2)"
  have mv: "move_tokens TOKEN_PROGRAM_ID 5 6 1000 s2 = Inr s3" by (simp add: move_tokens_def f b bal s3_def wd_at(8,9))
  have sd: "\<exists>x. pda_signer_seeds [POOL_STATE_SEED, bytes32 1, [255]] = Inr x"
    by (simp add: pda_signer_seeds_def POOL_STATE_SEED_def ascii_def)
  then have tr: "transfer_zkbtc wd_invoke TOKEN_PROGRAM_ID 5 6 266 1000 [POOL_STATE_SEED, bytes32 1, [255]] s2 = Inr s3"
    by (auto simp: transfer_zkbtc_def wd_invoke_token mv)
  have rs: "unshield_recipients unshield_demo_accounts wd_header = [demo_acc 6]"
    by (simp add: unshield_recipients_def h UNSHIELD_FIXED_ACCOUNTS_def unshield_acc)
  have pay: "pay_outputs wd_invoke TOKEN_PROGRAM_ID 5 266 [POOL_STATE_SEED, bytes32 1, [255]] False 0 0 0 [1000] [demo_acc 6] s2 =
      Inr (1000, 0, s3)"
    by (simp add: Let_def compute_bps_fee_def checked_sub_def checked_add_def f b tr)
  have tok: "token_at s3 dep_tok = Inr wd_token" "pool_at s3 266 = Inr (add_nullifiers 1 wd_ps)"
    using wd_at(1) f s2(2) by (simp_all add: s3_def)
  let ?tc = "wd_token\<lparr>tc_total_shielded := 4000, tc_accumulated_fees := 0\<rparr>"
  obtain s4 where s4: "write_front dep_tok (encode_token_config ?tc) s3 = Inr s4"
    using tcl.write_ok tok(1) unfolding token_config_from_bytes_def by blast
  then have p4: "pool_at s4 266 = Inr (add_nullifiers 1 wd_ps)" using tok(2) by (auto simp: res_simps)
  then obtain s5 where s5: "write_front 266 (encode_pool_state ((add_nullifiers 1 wd_ps)\<lparr>ps_total_shielded := 4000,
      ps_last_update := clock_unix_timestamp wd_env\<rparr>)) s4 = Inr s5"
    using psl.write_ok unfolding pool_state_from_bytes_def by blast
  have led: "unshield_ledgers wd_env True 266 dep_tok 1000 0 s3 = Inr s5"
    using tok s4 s5 p4 by (simp add: unshield_ledgers_def tc_sub_shielded_def tc_add_fees_def checked_sub_def checked_add_def wd_token_fields sync_pool_total_def)
  have pol: "unshield_policy wd_invoke wd_env unshield_demo_accounts d p wd_ps tail None owners wd_store = Inr wd_store" for d p tail owners
    by (simp add: unshield_policy_def unshield_acc wd_at withdraw_policy_def resolve_spend_path_def wd_pool)
  note C = unshield_demo_checks
  show ?thesis
    using s2(1) pay led C(5)
    by (simp add: process_unshield_def C(1-4,6,7) Let_def h UNSHIELD_FIXED_ACCOUNTS_def source_tree_account_def pol unshield_acc wd_pool check_binding_def
        wd_bound unshield_spend_def wd_token_fields rs)
qed


theorem vault_keeps_backing_witness:
  "\<exists>s'. (vault_step wd_invoke accept_all wd_env dep_tok 5)\<^sup>*\<^sup>* wd_store s' \<and> vault_backs wd_store dep_tok 5 95000 \<and> vault_backs s' dep_tok 5 95000"
proof -
  obtain s' where run: "process_unshield wd_invoke accept_all wd_env unshield_demo_accounts unshield_demo_data wd_store = Inr s'"
    using unshield_demo_run by blast
  have "vault_step wd_invoke accept_all wd_env dep_tok 5 wd_store s'"
    using vault_step.unshielding [OF run, of dep_tok 5] by (simp add: unshield_acc)
  then have steps: "(vault_step wd_invoke accept_all wd_env dep_tok 5)\<^sup>*\<^sup>* wd_store s'" by blast
  have "bslice 64 8 (adata (wd_store 5)) = bytes8 (100000 :: u64)" by (simp add: wd_at slice_simps)
  then have m: "vault_backs wd_store dep_tok 5 95000" by (simp add: vault_backs_def wd_at(1) wd_token_fields token_balance_def)
  from vault_keeps_backing [OF wd_system wd_kinds wd_world wd_spec steps m] steps m show ?thesis by blast
qed

end
