(* ===== verification/UX_Redeem.thy ===== *)
theory UX_Redeem
  imports UX_Unshield
begin

text \<open>
  \<open>instructions/redeem.rs\<close>: notes of the pool's own token are burned and become redemption requests, one per
  public output, which the signing side later pays on Bitcoin (\<open>mark_processing\<close>,
  \<open>complete_redemption\<close>) or the user cancels. The theorem says what the request records and
  what the ledgers lose. Log events are not modelled.
\<close>

abbreviation InvalidBtcAddress :: program_error where "InvalidBtcAddress \<equiv> Custom 6007"
abbreviation AlreadyInitialized :: program_error where "AlreadyInitialized \<equiv> Custom 6025"
abbreviation UxInsufficientFunds :: program_error where "UxInsufficientFunds \<equiv> Custom 6030"

section \<open>Redeem: data and accounts\<close>

definition REDEEM_FIXED_ACCOUNTS :: nat where "REDEEM_FIXED_ACCOUNTS = 6"

record redeem_output =
  ro_amount :: u64
  ro_script :: bytes
  ro_nonce :: u64

fun read_redeem_outputs :: "bytes \<Rightarrow> nat \<Rightarrow> nat \<Rightarrow> (redeem_output list \<times> nat) result" where
  "read_redeem_outputs d offset 0 = Inr ([], offset)"
| "read_redeem_outputs d offset (Suc n) =
     bindE (read_u64_le d offset) (\<lambda>(amount, o1).
     bindE (take_bytes d o1 1) (\<lambda>(len, o2).
     let script_len = unat (len ! 0) in
     if script_len = 0 \<or> script_len > MAX_BTC_SCRIPT_LEN then Inl InvalidBtcAddress
     else
     bindE (take_bytes d o2 script_len) (\<lambda>(script, o3).
     if hd script = 0x6a then Inl InvalidBtcAddress
     else
     bindE (read_u64_le d o3) (\<lambda>(nonce, o4).
     bindE (read_redeem_outputs d o4 n) (\<lambda>(os, o5).
     Inr (\<lparr>ro_amount = amount, ro_script = script, ro_nonce = nonce\<rparr> # os, o5))))))"

definition redeem_data :: "env \<Rightarrow> account_info list \<Rightarrow> bytes \<Rightarrow> store \<Rightarrow> (joinsplit_header \<times> joinsplit_prefix \<times> redeem_output list) result" where
  "redeem_data E accounts d s =
     bindE (parse_header d) (\<lambda>h.
     bindE (validate_public_outputs h False) (\<lambda>_.
     let n_tree_outputs = jh_n_outputs h - jh_n_public_outputs h;
         min_accounts = REDEEM_FIXED_ACCOUNTS + jh_n_inputs h + jh_n_public_outputs h in
     bindE (validate_account_count (length accounts) min_accounts (jh_flags h AND PROOF_IN_BUFFER)) (\<lambda>_.
     bindE (parse_prefix E s d accounts h n_tree_outputs) (\<lambda>p.
     bindE (read_redeem_outputs d (jp_stealth_data_end p) (jh_n_public_outputs h)) (\<lambda>(os, offset).
     if offset \<noteq> length d then Inl InvalidInstructionData else Inr (h, p, os))))))"

definition redeem_accounts :: "env \<Rightarrow> account_info list \<Rightarrow> store \<Rightarrow> unit result" where
  "redeem_accounts E accounts s =
     bindE (validate_program_owner E s (accounts ! 0)) (\<lambda>_.
     bindE (pool_state_from_bytes (adata (s (key (accounts ! 0))))) (\<lambda>_.
     bindE (validate_program_owner E s (accounts ! 1)) (\<lambda>_.
     bindE (validate_program_owner E s (accounts ! 2)) (\<lambda>_.
     bindE (validate_program_owner E s (accounts ! 5)) (\<lambda>_.
     bindE (validate_system_program (accounts ! 4)) (\<lambda>_.
     bindE (validate_account_writable (accounts ! 0)) (\<lambda>_.
     bindE (validate_account_writable (accounts ! 1)) (\<lambda>_.
     bindE (validate_account_writable (accounts ! 5)) (\<lambda>_.
     ensure (is_signer (accounts ! 3)) MissingRequiredSignature)))))))))"

text \<open>The configuration of the pool's own token: enabled, at its address.\<close>

definition redeem_token :: "env \<Rightarrow> account_info list \<Rightarrow> store \<Rightarrow> token_config result" where
  "redeem_token E accounts s =
     (let pk = key (accounts ! 0); tck = key (accounts ! 5) in
      bindE (token_config_from_bytes (adata (s tck))) (\<lambda>tc.
      if tc_enabled tc = 0 then Inl TokenDisabled
      else if tck \<noteq> fst (find_program_address E [TOKEN_CONFIG_SEED, bytes32 pk, bytes32 (tc_mint tc)]) then Inl InvalidSeeds
      else bindE (pool_state_from_bytes (adata (s pk))) (\<lambda>pool.
      if tc_mint tc \<noteq> ps_zkbtc_mint pool then Inl InvalidTokenConfig else Inr tc)))"

section \<open>Authorisation\<close>

definition redeem_parts :: "bytes \<Rightarrow> joinsplit_prefix \<Rightarrow> bytes list" where
  "redeem_parts d p = [nullifiers_concat p, drop (jp_stealth_data_end p) d]"

definition redeem_keys :: "env \<Rightarrow> redeem_output list \<Rightarrow> hash32 list" where
  "redeem_keys E os = map (\<lambda>x. rt_sha256 E (ro_script x)) os"

definition redeem_policy :: "invoke \<Rightarrow> env \<Rightarrow> account_info list \<Rightarrow> bytes \<Rightarrow> joinsplit_prefix \<Rightarrow> pool_state \<Rightarrow> joinsplit_tail \<Rightarrow>
    (nat \<times> nat) option \<Rightarrow> redeem_output list \<Rightarrow> store \<Rightarrow> store result" where
  "redeem_policy I E accounts d p pool tail approval os s =
     withdraw_policy I E accounts pool tail approval REDEEM_IX (redeem_parts d p) EXIT_KIND_BTC_SCRIPT (redeem_keys E os) s"

definition redeem_operation_hash :: "env \<Rightarrow> bytes \<Rightarrow> joinsplit_prefix \<Rightarrow> redeem_output list \<Rightarrow> pubkey \<Rightarrow> hash32 result" where
  "redeem_operation_hash E d p os user =
     compute_bound_params_hash_redeem E (CHAIN_ID E) (map ro_script os)
       (rt_sha256 E (bslice (jp_stealth_data_start p) (jp_stealth_data_end p - jp_stealth_data_start p) d)) user"

fun sum_nonzero :: "u64 \<Rightarrow> u64 list \<Rightarrow> u64 result" where
  "sum_nonzero acc [] = Inr acc"
| "sum_nonzero acc (a # as) =
     (if a = 0 then Inl ZeroAmount
      else bindE (ok_or (checked_add acc a) ArithmeticOverflow) (\<lambda>acc'. sum_nonzero acc' as))"

definition redeem_total :: "redeem_output list \<Rightarrow> u64 \<Rightarrow> u64 result" where
  "redeem_total os total_shielded =
     bindE (sum_nonzero 0 (map ro_amount os)) (\<lambda>total_redeem.
     if total_redeem > total_shielded then Inl UxInsufficientFunds else Inr total_redeem)"

section \<open>Requests and ledgers\<close>

definition redeem_spend :: "bn254 \<Rightarrow> env \<Rightarrow> account_info list \<Rightarrow> pool_state \<Rightarrow> account_info option \<Rightarrow> joinsplit_header \<Rightarrow>
    joinsplit_prefix \<Rightarrow> token_config \<Rightarrow> redeem_output list \<Rightarrow> store \<Rightarrow> store result" where
  "redeem_spend G E accounts pool src h p tc os s =
     withdraw_spend G E accounts pool src h p (tc_token_id tc) (map ro_amount os) REDEEM_FIXED_ACCOUNTS s"

text \<open>The fields of a fresh request; \<open>init\<close> has zeroed the account.\<close>

definition request_of :: "pubkey \<Rightarrow> hash32 \<Rightarrow> u64 \<Rightarrow> redeem_output \<Rightarrow> redemption_request result" where
  "request_of user token_id service_fee x =
     bindE (set_btc_script (ro_script x) (redemption_init\<lparr>rr_request_id := ro_nonce x, rr_requester := user,
       rr_amount_sats := ro_amount x, rr_service_fee := service_fee\<rparr>)) (\<lambda>r.
     Inr ((rr_set_status RPending r)\<lparr>rr_token_id := token_id\<rparr>))"

definition request_seeds :: "pubkey \<Rightarrow> pubkey \<Rightarrow> u64 \<Rightarrow> bytes list" where
  "request_seeds pk user nonce = [REDEMPTION_SEED, bytes32 pk, bytes32 user, bytes8 nonce]"

definition create_request :: "env \<Rightarrow> pubkey \<Rightarrow> pubkey \<Rightarrow> hash32 \<Rightarrow> redeem_output \<Rightarrow> account_info \<Rightarrow> store \<Rightarrow> store result" where
  "create_request E pk user token_id x a s =
     bindE (validate_account_writable a) (\<lambda>_.
     let k = key a; seeds = request_seeds pk user (ro_nonce x) in
     if k \<noteq> fst (find_program_address E seeds) then Inl InvalidSeeds
     else if adata (s k) \<noteq> [] \<and> adata (s k) ! 0 = REDEMPTION_REQUEST_DISCRIMINATOR then Inl AlreadyInitialized
     else
     bindE (create_pda_account E user k (rt_minimum_balance E REDEMPTION_REQUEST_LEN) (of_nat REDEMPTION_REQUEST_LEN)
       (length seeds + 1) s) (\<lambda>s1.
     bindE (pool_state_from_bytes (adata (s1 pk))) (\<lambda>pool.
     let service_fee = compute_service_fee pool (ro_amount x) in
     if service_fee \<ge> ro_amount x then Inl AmountTooSmall
     else if length (adata (s1 k)) < REDEMPTION_REQUEST_LEN then Inl InvalidAccountData
     else
     bindE (request_of user token_id service_fee x) (\<lambda>r.
     write_front k (encode_redemption_request r) s1))))"

fun create_requests :: "env \<Rightarrow> pubkey \<Rightarrow> pubkey \<Rightarrow> hash32 \<Rightarrow> redeem_output list \<Rightarrow> account_info list \<Rightarrow> store \<Rightarrow> store result" where
  "create_requests E pk user token_id [] accounts s = Inr s"
| "create_requests E pk user token_id (x # xs) [] s = Inl Panic"
| "create_requests E pk user token_id (x # xs) (a # as) s =
     bindE (create_request E pk user token_id x a s) (\<lambda>s1. create_requests E pk user token_id xs as s1)"

definition redeem_ledgers :: "env \<Rightarrow> pubkey \<Rightarrow> pubkey \<Rightarrow> u64 \<Rightarrow> u64 \<Rightarrow> store \<Rightarrow> store result" where
  "redeem_ledgers E pk tck total_redeem pending s =
     bindE (token_config_from_bytes (adata (s tck))) (\<lambda>tc.
     bindE (tc_sub_shielded total_redeem tc) (\<lambda>tc1.
     bindE (write_front tck (encode_token_config tc1) s) (\<lambda>s1.
     bindE (pool_state_from_bytes (adata (s1 pk))) (\<lambda>pool.
     write_front pk (encode_pool_state (pool\<lparr>ps_total_shielded := tc_total_shielded tc1, ps_pending_redemptions := pending,
       ps_last_update := clock_unix_timestamp E\<rparr>)) s1))))"

definition process_redeem :: "invoke \<Rightarrow> bn254 \<Rightarrow> env \<Rightarrow> account_info list \<Rightarrow> bytes \<Rightarrow> store \<Rightarrow> store result" where
  "process_redeem I G E accounts d s =
     (let pk = key (accounts ! 0); user = key (accounts ! 3); tck = key (accounts ! 5) in
      bindE (redeem_data E accounts d s) (\<lambda>(h, p, os).
      bindE (redeem_accounts E accounts s) (\<lambda>_.
      bindE (redeem_token E accounts s) (\<lambda>tc.
      bindE (live_pool E accounts s) (\<lambda>pool.
      bindE (withdraw_tail accounts h pool (REDEEM_FIXED_ACCOUNTS + jh_n_inputs h + jh_n_public_outputs h)) (\<lambda>(tail, approval).
      bindE (source_tree_account E accounts tail s) (\<lambda>source_tree.
      bindE (redeem_policy I E accounts d p pool tail approval os s) (\<lambda>s1.
      bindE (redeem_operation_hash E d p os user) (\<lambda>operation_hash.
      bindE (check_binding E pk (permissioned pool) operation_hash (jp_bound_params_hash p)) (\<lambda>_.
      bindE (redeem_total os (ps_total_shielded pool)) (\<lambda>total_redeem.
      bindE (redeem_spend G E accounts pool source_tree h p tc os s1) (\<lambda>s2.
      bindE (create_requests E pk user (tc_token_id tc) os (drop (REDEEM_FIXED_ACCOUNTS + jh_n_inputs h) accounts) s2) (\<lambda>s3.
      redeem_ledgers E pk tck total_redeem (saturating_add (ps_pending_redemptions pool) (of_nat (jh_n_public_outputs h))) s3)))))))))))))"

section \<open>The steps of a redemption request\<close>

definition request_address :: "env \<Rightarrow> pubkey \<Rightarrow> pubkey \<Rightarrow> u64 \<Rightarrow> pubkey" where
  "request_address E pk user nonce = fst (find_program_address E (request_seeds pk user nonce))"

definition is_request :: "store \<Rightarrow> pubkey \<Rightarrow> bool" where
  "is_request s k \<longleftrightarrow> adata (s k) \<noteq> [] \<and> adata (s k) ! 0 = REDEMPTION_REQUEST_DISCRIMINATOR"

text \<open>What the later handlers read back from a request.\<close>

definition requested :: "pubkey \<Rightarrow> hash32 \<Rightarrow> u64 \<Rightarrow> redeem_output \<Rightarrow> redemption_request \<Rightarrow> bool" where
  "requested user token_id service_fee x r \<longleftrightarrow> rr_get_status r = RPending \<and> rr_requester r = user \<and> rr_request_id r = ro_nonce x \<and>
     rr_amount_sats r = ro_amount x \<and> rr_service_fee r = service_fee \<and> rr_token_id r = token_id \<and> get_btc_script r = Inr (ro_script x) \<and>
     \<not> is_signing_approved r \<and> \<not> has_any_input_approved r \<and> rr_reserved_count r = 0"

lemma redemption_init_fields:
  "rr_discriminator redemption_init = REDEMPTION_REQUEST_DISCRIMINATOR" "rr_signing_approved redemption_init = 0"
  "rr_reserved_count redemption_init = 0" "rr_approved_inputs redemption_init = 0" "rr_btc_script redemption_init = 0"
  by (simp_all add: redemption_init_def decode_redemption_request_def byte_at_def bslice_def)

lemma request_of_ok:
  assumes "request_of user token_id fee x = Inr r"
  shows "requested user token_id fee x r" and "rr_discriminator r = REDEMPTION_REQUEST_DISCRIMINATOR"
proof -
  let ?sc = "ro_script x"
  let ?buf = "?sc @ replicate (34 - length ?sc) 0"
  from assms have l: "length ?sc \<le> 34" and r: "r = (rr_set_status RPending (redemption_init\<lparr>rr_request_id := ro_nonce x, rr_requester := user,
       rr_amount_sats := ro_amount x, rr_service_fee := fee, rr_btc_script := from_le ?buf,
       rr_btc_script_len := of_nat (length ?sc)\<rparr>))\<lparr>rr_token_id := token_id\<rparr>"
    by (auto simp: request_of_def set_btc_script_def MAX_BTC_SCRIPT_LEN_def redemption_init_fields res_simps split: if_splits)
  have "length ?buf = 34" using l by simp
  then have b: "le_bytes 34 (from_le ?buf :: 272 word) = ?buf" by (intro le_bytes_from_le) simp_all
  have "unat (of_nat (length ?sc) :: u8) = length ?sc" using l by (simp add: unat_of_nat)
  then have "get_btc_script r = Inr ?sc" using l by (simp add: r get_btc_script_def MAX_BTC_SCRIPT_LEN_def rr_set_status_def b)
  then show "requested user token_id fee x r" "rr_discriminator r = REDEMPTION_REQUEST_DISCRIMINATOR"
    by (simp_all add: requested_def r rr_set_status_def rr_get_status_def is_signing_approved_def has_any_input_approved_def redemption_init_fields)
qed

lemma create_request_ok:
  assumes spec: "system_program_spec E" and run: "create_request E pk user tid x a s = Inr s'" and p: "pool_at s pk = Inr pool"
    and ne: "pk \<noteq> request_address E pk user (ro_nonce x)"
  defines "k \<equiv> request_address E pk user (ro_nonce x)" and "fee \<equiv> compute_service_fee pool (ro_amount x)"
  shows "key a = k" and "\<not> is_request s k" and "\<exists>r. request_at s' k = Inr r \<and> requested user tid fee x r" and "is_request s' k"
    and "frame {k} s s'" and "fee < ro_amount x" and "owner (s' k) = program_id E"
proof -
  from run obtain s1 r pool1 where ka: "key a = k" and new: "\<not> is_request s k"
    and c: "create_or_claim_pda E user k (rt_minimum_balance E REDEMPTION_REQUEST_LEN) (of_nat REDEMPTION_REQUEST_LEN) s = Inr s1"
    and p1: "pool_at s1 pk = Inr pool1" and f: "compute_service_fee pool1 (ro_amount x) < ro_amount x"
    and r: "request_of user tid (compute_service_fee pool1 (ro_amount x)) x = Inr r"
    and w: "write_front k (encode_redemption_request r) s1 = Inr s'"
    unfolding create_request_def create_pda_account_def Let_def request_address_def is_request_def k_def
    by (auto simp: run_simps split: if_splits)
  have "adata (s1 pk) = adata (s pk)" using frameD [OF create_or_claim_pda_ok(3) [OF spec c], of pk] ne by (simp add: k_def)
  then have "pool1 = pool" using p p1 by simp
  note R = request_of_ok [OF r, unfolded this, folded fee_def] and W = claim_then_write [OF spec c w]
  show "key a = k" "\<not> is_request s k" "frame {k} s s'" "owner (s' k) = program_id E" using ka new W(1,2) by simp_all
  show "fee < ro_amount x" using f \<open>pool1 = pool\<close> by (simp add: fee_def)
  show "\<exists>r. request_at s' k = Inr r \<and> requested user tid fee x r" using write_request(1) [OF w R(2)] R(1) by blast
  then show "is_request s' k" using W(3) R(2) by (auto simp: is_request_def encode_redemption_request_def byte1_def)
qed

lemma create_requests_ok:
  assumes spec: "system_program_spec E"
  shows "create_requests E pk user tid xs as s = Inr s' \<Longrightarrow> pool_at s pk = Inr pool \<Longrightarrow>
     (\<And>n. pk \<noteq> request_address E pk user n) \<Longrightarrow>
     distinct (map (\<lambda>x. request_address E pk user (ro_nonce x)) xs) \<and>
     (\<forall>x \<in> set xs. let k = request_address E pk user (ro_nonce x); fee = compute_service_fee pool (ro_amount x) in
        \<not> is_request s k \<and> fee < ro_amount x \<and> (\<exists>r. request_at s' k = Inr r \<and> requested user tid fee x r)) \<and>
     frame ((\<lambda>x. request_address E pk user (ro_nonce x)) ` set xs) s s' \<and> (\<forall>k. is_request s k \<longrightarrow> is_request s' k)"
proof (induction xs arbitrary: as s)
  case (Cons x xs)
  let ?a = "\<lambda>x. request_address E pk user (ro_nonce x)"
  from Cons.prems(1) obtain a as' s1 where r: "create_request E pk user tid x a s = Inr s1"
    and rest: "create_requests E pk user tid xs as' s1 = Inr s'"
    by (cases as) (auto simp: res_simps)
  note R = create_request_ok [OF spec r Cons.prems(2,3)]
  have p1: "pool_at s1 pk = Inr pool" using frameD [OF R(5), of pk] Cons.prems(2,3) by simp
  note IH = Cons.IH [OF rest p1 Cons.prems(3)]
  have new: "?a x \<notin> ?a ` set xs" using IH R(4) by (auto simp: Let_def)
  have keep: "is_request s k \<Longrightarrow> is_request s1 k" for k
    using R(4) frameD [OF R(5), of k] by (cases "k = ?a x") (simp_all add: is_request_def)
  have "\<exists>r. request_at s' (?a x) = Inr r \<and> requested user tid (compute_service_fee pool (ro_amount x)) x r"
    using R(3) frameD [OF conjunct1 [OF conjunct2 [OF conjunct2 [OF IH]]] new] by simp
  moreover have "frame (?a ` set (x # xs)) s s'"
    using frame_trans [OF R(5) conjunct1 [OF conjunct2 [OF conjunct2 [OF IH]]]] by simp
  ultimately show ?case using IH R(2,6) new keep by (auto simp: Let_def)
qed simp

lemma sum_nonzero_ok: "sum_nonzero acc as = Inr t \<Longrightarrow> unat t = unat acc + total_of as \<and> 0 \<notin> set as"
proof (induction "as" arbitrary: acc)
  case (Cons a as)
  from Cons.prems obtain x where "a \<noteq> 0" and x: "checked_add acc a = Some x" and r: "sum_nonzero x as = Inr t"
    by (auto simp: run_simps split: if_splits)
  with Cons.IH [OF r] unat_checked_add [OF x] show ?case by (simp add: total_of_def)
qed (simp add: total_of_def)

lemma read_outputs_length: "read_redeem_outputs d off n = Inr (os, off') \<Longrightarrow>
    length os = n \<and> (\<forall>x \<in> set os. ro_script x \<noteq> [] \<and> length (ro_script x) \<le> MAX_BTC_SCRIPT_LEN \<and> hd (ro_script x) \<noteq> 0x6a)"
proof (induction n arbitrary: off os)
  case (Suc n)
  from Suc.prems have "\<exists>(len :: bytes) o2 sc o3 o4 os' amount nonce. take_bytes d o2 (unat (len ! 0)) = Inr (sc, o3) \<and>
      unat (len ! 0) \<noteq> 0 \<and> unat (len ! 0) \<le> MAX_BTC_SCRIPT_LEN \<and> hd sc \<noteq> 0x6a \<and>
      read_redeem_outputs d o4 n = Inr (os', off') \<and> \<lparr>ro_amount = amount, ro_script = sc, ro_nonce = nonce\<rparr> # os' = os"
    by (simp add: Let_def run_simps) blast
  then obtain len :: bytes and o2 sc o3 o4 os' amount nonce where t: "take_bytes d o2 (unat (len ! 0)) = Inr (sc, o3)"
    and l: "unat (len ! 0) \<noteq> 0" "unat (len ! 0) \<le> MAX_BTC_SCRIPT_LEN" "hd sc \<noteq> 0x6a"
    and rest: "read_redeem_outputs d o4 n = Inr (os', off')" and os: "\<lparr>ro_amount = amount, ro_script = sc, ro_nonce = nonce\<rparr> # os' = os"
    by blast
  have "length sc = unat (len ! 0)" using t by (auto simp: take_bytes_def run_simps usize_checked_add_def bslice_def split: if_splits)
  with l Suc.IH [OF rest] show ?case by (auto simp: os [symmetric])
qed simp

lemma redeem_data_ok:
  assumes "redeem_data E accounts d s = Inr (h, p, os)"
  shows "length os = jh_n_public_outputs h" and "os \<noteq> []" and "jp_commitments_out p \<noteq> []"
    and "\<forall>x \<in> set os. ro_script x \<noteq> [] \<and> length (ro_script x) \<le> MAX_BTC_SCRIPT_LEN \<and> hd (ro_script x) \<noteq> 0x6a"
proof -
  from assms have H: "parse_header d = Inr h" "validate_public_outputs h False = Inr ()"
    and p: "parse_prefix E s d accounts h (jh_n_outputs h - jh_n_public_outputs h) = Inr p"
    and a: "\<exists>off. read_redeem_outputs d (jp_stealth_data_end p) (jh_n_public_outputs h) = Inr (os, off)"
    by (auto simp: redeem_data_def Let_def run_simps)
  show l: "length os = jh_n_public_outputs h"
    "\<forall>x \<in> set os. ro_script x \<noteq> [] \<and> length (ro_script x) \<le> MAX_BTC_SCRIPT_LEN \<and> hd (ro_script x) \<noteq> 0x6a"
    using a by (auto dest: read_outputs_length)
  show "os \<noteq> []" using H(2) l by (auto simp: validate_public_outputs_def run_simps)
  show "jp_commitments_out p \<noteq> []" using parse_prefix_lengths(2) [OF p] header_outputs [OF H(1)] by auto
qed

lemma redeem_accounts_ok:
  assumes "redeem_accounts E accounts s = Inr u"
  shows "owner (s (key (accounts ! 1))) = program_id E" and "owner (s (key (accounts ! 2))) = program_id E"
    and "owner (s (key (accounts ! 5))) = program_id E" and "is_signer (accounts ! 3)"
  using assms by (auto simp: redeem_accounts_def run_simps)

lemma redeem_token_ok:
  assumes "redeem_token E accounts s = Inr tc" and "pool_at s (key (accounts ! 0)) = Inr pool"
  shows "token_at s (key (accounts ! 5)) = Inr tc" and "tc_enabled tc \<noteq> 0" and "tc_mint tc = ps_zkbtc_mint pool"
    and "key (accounts ! 5) = config_address E (key (accounts ! 0)) (tc_mint tc)"
  using assms by (auto simp: redeem_token_def Let_def run_simps config_address_def split: if_splits)

lemma redeem_ledgers_ok:
  assumes run: "redeem_ledgers E pk tck amount pending s = Inr s'" and tc: "token_at s tck = Inr tc" and p: "pool_at s pk = Inr p"
    and ne: "pk \<noteq> tck"
  shows "\<exists>a. unat (tc_total_shielded tc) = unat a + unat amount \<and> token_at s' tck = Inr (tc\<lparr>tc_total_shielded := a\<rparr>) \<and>
      pool_at s' pk = Inr (p\<lparr>ps_total_shielded := a, ps_pending_redemptions := pending, ps_last_update := clock_unix_timestamp E\<rparr>)"
    and "k \<notin> {pk, tck} \<Longrightarrow> s' k = s k"
proof -
  from run tc obtain a s1 p1 where a: "checked_sub (tc_total_shielded tc) amount = Some a"
    and w: "write_front tck (encode_token_config (tc\<lparr>tc_total_shielded := a\<rparr>)) s = Inr s1"
    and p1: "pool_at s1 pk = Inr p1"
    and w2: "write_front pk (encode_pool_state (p1\<lparr>ps_total_shielded := a, ps_pending_redemptions := pending,
       ps_last_update := clock_unix_timestamp E\<rparr>)) s1 = Inr s'"
    by (auto simp: redeem_ledgers_def tc_sub_shielded_def run_simps)
  have "tc_discriminator (tc\<lparr>tc_total_shielded := a\<rparr>) = TOKEN_CONFIG_DISCRIMINATOR"
    using discriminator_at(3) [of s tck tc] tc by simp
  note W = write_token [OF w this]
  have e: "p1 = p" using p p1 W(2) [of pk] ne by simp
  have "ps_discriminator (p1\<lparr>ps_total_shielded := a, ps_pending_redemptions := pending, ps_last_update := clock_unix_timestamp E\<rparr>) =
      POOL_STATE_DISCRIMINATOR" using discriminator_at(1) [of s1 pk p1] p1 by simp
  note V = write_pool [OF w2 this]
  show "k \<notin> {pk, tck} \<Longrightarrow> s' k = s k" using W(2) V(2) by simp
  show "\<exists>a. unat (tc_total_shielded tc) = unat a + unat amount \<and> token_at s' tck = Inr (tc\<lparr>tc_total_shielded := a\<rparr>) \<and>
      pool_at s' pk = Inr (p\<lparr>ps_total_shielded := a, ps_pending_redemptions := pending, ps_last_update := clock_unix_timestamp E\<rparr>)"
    using unat_checked_sub [OF a] W(1) V(1) V(2) [of tck] ne e by (intro exI [of _ a]) simp
qed

text \<open>Requests are at addresses of their own kind.\<close>

definition request_kind_separate :: "env \<Rightarrow> bool" where
  "request_kind_separate E \<longleftrightarrow> (\<forall>a \<in> insert TOKEN_CONFIG_SEED (set PDA_KINDS). \<forall>as bs.
     fst (find_program_address E (a # as)) \<noteq> fst (find_program_address E (REDEMPTION_SEED # bs)))"

lemma request_apart:
  assumes "request_kind_separate E"
  shows "request_address E q u n \<noteq> nullifier_address E q' i m" and "request_address E q u n \<noteq> tree_address E q' i"
    and "request_address E q u n \<noteq> config_address E q' k" and "pool_pda_ok E s pk \<Longrightarrow> request_address E q u n \<noteq> pk"
proof -
  have A: "fst (find_program_address E (REDEMPTION_SEED # bs)) \<noteq> fst (find_program_address E (a # as))"
    if "a \<in> insert TOKEN_CONFIG_SEED (set PDA_KINDS)" for a as bs
    using assms that unfolding request_kind_separate_def by (metis (no_types))
  have k: "NULLIFIER_SEED \<in> insert TOKEN_CONFIG_SEED (set PDA_KINDS)" "TREE_SEED \<in> insert TOKEN_CONFIG_SEED (set PDA_KINDS)"
    "POOL_STATE_SEED \<in> insert TOKEN_CONFIG_SEED (set PDA_KINDS)" "TOKEN_CONFIG_SEED \<in> insert TOKEN_CONFIG_SEED (set PDA_KINDS)"
    by (simp_all add: PDA_KINDS_def)
  show "request_address E q u n \<noteq> nullifier_address E q' i m"
    using A [OF k(1)] by (simp add: request_address_def request_seeds_def nullifier_address_def nullifier_seeds_def)
  show "request_address E q u n \<noteq> tree_address E q' i" using A [OF k(2)] by (simp add: request_address_def request_seeds_def tree_address_def)
  show "request_address E q u n \<noteq> config_address E q' k" using A [OF k(4)] by (simp add: request_address_def request_seeds_def config_address_def)
  show "request_address E q u n \<noteq> pk" if pda: "pool_pda_ok E s pk"
  proof -
    obtain bs where "pk = fst (find_program_address E (POOL_STATE_SEED # bs))" using pool_address [OF pda] by blast
    with A [OF k(3)] show ?thesis by (simp add: request_address_def request_seeds_def)
  qed
qed

section \<open>What redeeming checks and changes\<close>

text \<open>The requests and ledgers after a redemption; \<open>total_of\<close> is the sum without wrap-around.\<close>

definition redeemed :: "env \<Rightarrow> account_info list \<Rightarrow> pool_state \<Rightarrow> token_config \<Rightarrow> joinsplit_prefix \<Rightarrow> redeem_output list \<Rightarrow> store \<Rightarrow> store \<Rightarrow> bool" where
  "redeemed E accounts pool tc p os s s' \<longleftrightarrow>
     (let pk = key (accounts ! 0); tck = key (accounts ! 5); user = key (accounts ! 3); total = total_of (map ro_amount os) in
      distinct (map (\<lambda>x. request_address E pk user (ro_nonce x)) os) \<and>
      (\<forall>x \<in> set os. let k = request_address E pk user (ro_nonce x); fee = compute_service_fee pool (ro_amount x) in
         \<not> is_request s k \<and> fee < ro_amount x \<and> (\<exists>r. request_at s' k = Inr r \<and> requested user (tc_token_id tc) fee x r)) \<and>
      (\<exists>a. unat (tc_total_shielded tc) = unat a + total \<and> token_at s' tck = Inr (tc\<lparr>tc_total_shielded := a\<rparr>) \<and>
         pool_at s' pk = Inr ((add_nullifiers (of_nat (length (jp_nullifiers p))) pool)\<lparr>ps_total_shielded := a,
           ps_pending_redemptions := saturating_add (ps_pending_redemptions pool) (of_nat (length os)),
           ps_last_update := clock_unix_timestamp E\<rparr>)))"

lemma redeem_run:
  assumes "process_redeem I G E accounts d s = Inr s'"
  defines "pk \<equiv> key (accounts ! 0)" and "tck \<equiv> key (accounts ! 5)" and "user \<equiv> key (accounts ! 3)"
  shows "\<exists>h p os tc pool tail approval src s1 oph total s2 s3.
    redeem_data E accounts d s = Inr (h, p, os) \<and> redeem_accounts E accounts s = Inr () \<and>
    redeem_token E accounts s = Inr tc \<and> live_pool E accounts s = Inr pool \<and>
    redeem_policy I E accounts d p pool tail approval os s = Inr s1 \<and>
    redeem_operation_hash E d p os user = Inr oph \<and>
    check_binding E pk (permissioned pool) oph (jp_bound_params_hash p) = Inr () \<and>
    redeem_total os (ps_total_shielded pool) = Inr total \<and>
    redeem_spend G E accounts pool src h p tc os s1 = Inr s2 \<and>
    create_requests E pk user (tc_token_id tc) os (drop (REDEEM_FIXED_ACCOUNTS + jh_n_inputs h) accounts) s2 = Inr s3 \<and>
    redeem_ledgers E pk tck total (saturating_add (ps_pending_redemptions pool) (of_nat (jh_n_public_outputs h))) s3 = Inr s'"
proof -
  have "process_redeem I G E accounts d s = Inr s'" by (rule assms(1))
  then show ?thesis unfolding process_redeem_def Let_def pk_def tck_def user_def
    by (simp only: run_simps) (elim exE conjE, intro exI conjI; (assumption | simp))
qed

lemma service_fee_counted [simp]: "compute_service_fee (add_nullifiers n p) x = compute_service_fee p x"
  by (simp add: compute_service_fee_def compute_withdrawal_fee_def add_nullifiers_def)

lemma approval_keeps_requests: "approval_only E s s1 \<Longrightarrow> is_request s1 k = is_request s k"
  by (auto simp: approval_only_def set_policy_status_def set_data_def is_request_def nth_list_update split: if_splits)

lemma redeem_effect:
  assumes spec: "system_program_spec E" and kinds: "pda_kinds_separate E" "config_kind_separate E" "request_kind_separate E"
    and w: "policy_world R E I" and run: "process_redeem I G E accounts d s = Inr s'"
  defines "pk \<equiv> key (accounts ! 0)" and "tk \<equiv> key (accounts ! 1)" and "tck \<equiv> key (accounts ! 5)" and "user \<equiv> key (accounts ! 3)"
  shows "\<exists>h p os pool tc oph i. redeem_data E accounts d s = Inr (h, p, os) \<and> is_signer (accounts ! 3) \<and>
    (\<forall>x \<in> set os. ro_amount x \<noteq> 0 \<and> ro_script x \<noteq> [] \<and> length (ro_script x) \<le> MAX_BTC_SCRIPT_LEN \<and> hd (ro_script x) \<noteq> 0x6a) \<and>
    pool_at s pk = Inr pool \<and> \<not> is_paused pool \<and> token_at s tck = Inr tc \<and> tc_enabled tc \<noteq> 0 \<and> tc_mint tc = ps_zkbtc_mint pool \<and>
    redeem_operation_hash E d p os user = Inr oph \<and>
    bind_bound_params_to_domain E oph (CHAIN_ID E) (program_id E) pk (permissioned pool) = Inr (jp_bound_params_hash p) \<and>
    withdraw_allowed E s accounts pool REDEEM_IX (redeem_parts d p) 1 (redeem_keys E os) \<and>
    withdrawn G E accounts h p pool (tc_token_id tc) (map ro_amount os) i s s' \<and> redeemed E accounts pool tc p os s s' \<and>
    frame ({pk, tk, tck} \<union> nullifier_address E pk i ` set (jp_nullifiers p) \<union>
      (\<lambda>x. request_address E pk user (ro_nonce x)) ` set os \<union> {k. owner (s k) = POLICY_PROGRAM_ID}) s s'"
proof -
  from redeem_run [OF run, folded pk_def tck_def user_def] obtain h p os tc pool tail approval src s1 oph total s2 s3 where
    dt: "redeem_data E accounts d s = Inr (h, p, os)" and ac: "redeem_accounts E accounts s = Inr ()"
    and tk0: "redeem_token E accounts s = Inr tc" and lp: "live_pool E accounts s = Inr pool"
    and pol: "redeem_policy I E accounts d p pool tail approval os s = Inr s1"
    and oph: "redeem_operation_hash E d p os user = Inr oph"
    and cb: "check_binding E pk (permissioned pool) oph (jp_bound_params_hash p) = Inr ()"
    and tot: "redeem_total os (ps_total_shielded pool) = Inr total"
    and sp: "redeem_spend G E accounts pool src h p tc os s1 = Inr s2"
    and req: "create_requests E pk user (tc_token_id tc) os (drop (REDEEM_FIXED_ACCOUNTS + jh_n_inputs h) accounts) s2 = Inr s3"
    and led: "redeem_ledgers E pk tck total (saturating_add (ps_pending_redemptions pool) (of_nat (jh_n_public_outputs h))) s3 = Inr s'"
    by (elim exE conjE) (rule that; assumption)
  have id: "program_id E = ASSET_PROGRAM_ID" using w by (simp add: policy_world_def)
  note D = redeem_data_ok [OF dt] and U = redeem_accounts_ok [OF ac, folded tk_def tck_def]
    and L = live_pool_ok [OF lp, folded pk_def tk_def]
  have pda: "pool_pda_ok E s pk" using lp by (auto simp: live_pool_def run_simps pk_def)
  note tc = redeem_token_ok [OF tk0 L(1) [unfolded pk_def], folded pk_def tck_def]
  have "withdraw_policy I E accounts pool tail approval REDEEM_IX (redeem_parts d p) 1 (redeem_keys E os) s = Inr s1"
    using pol by (simp add: redeem_policy_def EXIT_KIND_BTC_SCRIPT_def)
  note W = withdraw_policy_ok [OF w L(1) [unfolded pk_def] this]
  note K = approval_only_keeps [OF W(1) id]
  have same: "s1 pk = s pk" "s1 tk = s tk" "s1 tck = s tck" using K(1) U(1,3) pda by (auto simp: pool_pda_ok_def)
  have P1: "pool_at s1 pk = Inr pool" "pool_pda_ok E s1 pk" using L(1) pda same(1) by (simp_all add: pool_pda_ok_def)
  have own1: "owner (s1 tk) = program_id E" "owner (s1 (key (accounts ! 2))) = program_id E" using U(1,2) K(3) by simp_all
  note S = withdraw_spend_ok [where s = s1 and s' = s2, OF spec kinds(1) sp [unfolded redeem_spend_def] P1 [unfolded pk_def]
      L(3) [unfolded pk_def tk_def] own1 [unfolded tk_def] D(3), folded pk_def tk_def]
  from S(1) obtain i where wd: "withdrawn G E accounts h p pool (tc_token_id tc) (map ro_amount os) i s1 s2"
    and fr: "frame ({pk, tk} \<union> nullifier_address E pk i ` set (jp_nullifiers p)) s1 s2" by blast
  note RA = request_apart [OF kinds(3)]
  have rpk: "pk \<noteq> request_address E pk user n" for n using RA(4) [OF pda] by metis
  note Q = create_requests_ok [OF spec req S(2) rpk, unfolded service_fee_counted]
  let ?rs = "(\<lambda>x. request_address E pk user (ro_nonce x)) ` set os"
  have frq: "frame ?rs s2 s3" using Q by blast
  have ct: "pk \<noteq> tck" "tk \<noteq> tck" "tck \<notin> nullifier_address E pk i ` set (jp_nullifiers p)"
    using config_apart [OF kinds(2)] pda L(3) tc(4) by (auto dest: sym)
  have rq: "tck \<notin> ?rs" "tk \<notin> ?rs" "pk \<notin> ?rs" using RA(2,3) rpk unfolding tc(4) L(3) by (auto dest: sym)
  have tck3: "adata (s3 tck) = adata (s tck)" using frameD [OF frq rq(1)] frameD [OF fr, of tck] ct same(3) by auto
  then have tc3: "token_at s3 tck = Inr tc" using tc(1) by simp
  have p3: "pool_at s3 pk = Inr (add_nullifiers (of_nat (length (jp_nullifiers p))) pool)" using S(2) frameD [OF frq rq(3)] by simp
  note M = redeem_ledgers_ok [OF led tc3 p3 ct(1)]
  have t: "unat total = total_of (map ro_amount os)" "0 \<notin> set (map ro_amount os)"
    using tot by (auto simp: redeem_total_def run_simps dest!: sum_nonzero_ok)
  have pre: "is_request s2 k = is_request s k" if "k \<in> ?rs" for k
  proof -
    have "k \<notin> {pk, tk} \<union> nullifier_address E pk i ` set (jp_nullifiers p)" using that rq RA(1) by (auto dest: sym)
    from frameD [OF fr this] approval_keeps_requests [OF W(1)] show ?thesis by (simp add: is_request_def)
  qed
  have last: "adata (s' k) = adata (s3 k)" if "k \<in> ?rs" for k
  proof -
    have "k \<notin> {pk, tck}" using that rq by blast
    then show ?thesis using M(2) by simp
  qed
  have red: "redeemed E accounts pool tc p os s s'"
    unfolding redeemed_def Let_def pk_def [symmetric] tck_def [symmetric] user_def [symmetric]
    using Q M(1) pre last D(1) t(1) by (auto simp: Let_def)
  have "tk \<noteq> pk" unfolding L(3) using addresses_apart(3) [OF kinds(1) pda] by metis
  then have "s' tk = s3 tk" using M(2) [of tk] ct(2) by blast
  then have tk': "adata (s' tk) = adata (s2 tk)" using frameD [OF frq rq(2)] by simp
  have nul: "nullifier_spent E s' q j n = nullifier_spent E s2 q j n" for q j n
  proof -
    have "nullifier_address E q j n \<notin> {pk, tck}" using addresses_apart(2) [OF kinds(1) pda] config_apart(1) [OF kinds(2)] tc(4) by (metis insertE singletonD)
    moreover have "nullifier_address E q j n \<notin> ?rs" using RA(1) by (auto dest: sym)
    ultimately show ?thesis using M(2) [of "nullifier_address E q j n"] frameD [OF frq] by (simp add: nullifier_spent_def spent_at_def)
  qed
  have wd': "withdrawn G E accounts h p pool (tc_token_id tc) (map ro_amount os) i s s'"
    using withdrawn_around [OF wd W(1) id U(1) [unfolded tk_def] nul tk' [unfolded tk_def]] .
  have f1: "frame {k. owner (s k) = POLICY_PROGRAM_ID} s s1" using approval_only_other [OF W(1)] by (auto simp: frame_def)
  have f4: "frame {pk, tck} s3 s'" using M(2) by (simp add: frame_def)
  have "frame ({pk, tk, tck} \<union> nullifier_address E pk i ` set (jp_nullifiers p) \<union> ?rs \<union> {k. owner (s k) = POLICY_PROGRAM_ID}) s s'"
    using frame_trans [OF f1 frame_trans [OF fr frame_trans [OF frq f4]]] by (rule frame_mono) auto
  moreover have "bind_bound_params_to_domain E oph (CHAIN_ID E) (program_id E) pk (permissioned pool) = Inr (jp_bound_params_hash p)"
    using cb by (auto simp: check_binding_def run_simps)
  moreover have "\<forall>x \<in> set os. ro_amount x \<noteq> 0 \<and> ro_script x \<noteq> [] \<and> length (ro_script x) \<le> MAX_BTC_SCRIPT_LEN \<and> hd (ro_script x) \<noteq> 0x6a"
    using D(4) t(2) by force
  ultimately show ?thesis using dt U(4) L(1,2) tc(1-3) oph W(2) wd' red by blast
qed

text \<open>
  C18. Redeeming. A successful redemption was signed by the requester on a pool that is not paused, in
  the pool's own enabled token; the proof is bound to exactly the scripts, the requester and the stealth
  data; it is allowed because the pool is open, or an auditor that is not frozen approved these nullifiers,
  amounts, scripts and nonces, or every script's hash is a registered Bitcoin exit; the amounts are those
  the proof burned, none is zero, no script is empty or an OP_RETURN; the nullifiers were unspent, are
  distinct and become spent. Every output becomes its own new Pending request that records requester,
  amount, script, token and a service fee below the amount; the shielded totals fall by exactly the sum
  of the amounts, and no account but the named ones and approvals changes data or owner.
\<close>

theorem redeem_opens_requests:
  assumes "system_program_spec E" and "pda_kinds_separate E" and "config_kind_separate E" and "request_kind_separate E"
    and "policy_world R E I" and "process_redeem I G E accounts d s = Inr s'"
  defines "pk \<equiv> key (accounts ! 0)" and "tk \<equiv> key (accounts ! 1)" and "tck \<equiv> key (accounts ! 5)" and "user \<equiv> key (accounts ! 3)"
  shows "\<exists>h p os pool tc oph i. redeem_data E accounts d s = Inr (h, p, os) \<and> is_signer (accounts ! 3) \<and>
    (\<forall>x \<in> set os. ro_amount x \<noteq> 0 \<and> ro_script x \<noteq> [] \<and> length (ro_script x) \<le> MAX_BTC_SCRIPT_LEN \<and> hd (ro_script x) \<noteq> 0x6a) \<and>
    pool_at s pk = Inr pool \<and> \<not> is_paused pool \<and> token_at s tck = Inr tc \<and> tc_enabled tc \<noteq> 0 \<and> tc_mint tc = ps_zkbtc_mint pool \<and>
    redeem_operation_hash E d p os user = Inr oph \<and>
    bind_bound_params_to_domain E oph (CHAIN_ID E) (program_id E) pk (permissioned pool) = Inr (jp_bound_params_hash p) \<and>
    withdraw_allowed E s accounts pool REDEEM_IX (redeem_parts d p) 1 (redeem_keys E os) \<and>
    withdrawn G E accounts h p pool (tc_token_id tc) (map ro_amount os) i s s' \<and> redeemed E accounts pool tc p os s s' \<and>
    frame ({pk, tk, tck} \<union> nullifier_address E pk i ` set (jp_nullifiers p) \<union>
      (\<lambda>x. request_address E pk user (ro_nonce x)) ` set os \<union> {k. owner (s k) = POLICY_PROGRAM_ID}) s s'"
  unfolding pk_def tk_def tck_def user_def by (rule redeem_effect [OF assms(1-6)])

section \<open>A concrete redemption\<close>

text \<open>The thousand tokens of the spend are to be paid to the script \<open>OP_1\<close>.\<close>

definition redeem_acc :: pubkey where "redeem_acc = 14167099533271331048186"

definition redeem_demo_accounts :: "account_info list" where
  "redeem_demo_accounts = map demo_acc [266, 68111, 65803, 77, 0, dep_tok, sp_nullifier, redeem_acc]"

definition redeem_demo_data :: bytes where "redeem_demo_data = wd_front @ bytes8 1000 @ [1, 0x51] @ bytes8 3"

definition redeem_demo_output :: redeem_output where
  "redeem_demo_output = \<lparr>ro_amount = 1000, ro_script = [0x51], ro_nonce = 3\<rparr>"

lemma redeem_acc_pda: "wd_pda (request_seeds 266 77 3) p = (redeem_acc, 255)"
  by (simp add: wd_pda_def request_seeds_def redeem_acc_def) code_simp

lemma wd_request_kind: "request_kind_separate wd_env"
proof -
  have k: "a \<noteq> REDEMPTION_SEED" "length a mod 256 \<noteq> 250" if "a \<in> insert TOKEN_CONFIG_SEED (set PDA_KINDS)" for a
    using that by (auto simp: PDA_KINDS_def POOL_STATE_SEED_def TREE_SEED_def NULLIFIER_SEED_def QUEUED_LEAF_SEED_def
        TOKEN_CONFIG_SEED_def REDEMPTION_SEED_def ascii_def)
  then show ?thesis unfolding request_kind_separate_def wd_env_simps using wd_pda_low by metis
qed

lemma redeem_acc_list:
  "redeem_demo_accounts ! 0 = demo_acc 266" "redeem_demo_accounts ! Suc 0 = demo_acc 68111" "redeem_demo_accounts ! 2 = demo_acc 65803"
  "redeem_demo_accounts ! 3 = demo_acc 77" "redeem_demo_accounts ! 4 = demo_acc 0" "redeem_demo_accounts ! 5 = demo_acc dep_tok"
  "length redeem_demo_accounts = 8" "drop 6 redeem_demo_accounts = [demo_acc sp_nullifier, demo_acc redeem_acc]"
  "drop 7 redeem_demo_accounts = [demo_acc redeem_acc]"
  by (simp_all add: redeem_demo_accounts_def)

lemma redeem_demo_checks:
  shows "redeem_data wd_env redeem_demo_accounts redeem_demo_data wd_store = Inr (wd_header, wd_prefix, [redeem_demo_output])"
    and "redeem_accounts wd_env redeem_demo_accounts wd_store = Inr ()"
    and "redeem_token wd_env redeem_demo_accounts wd_store = Inr wd_token"
    and "live_pool wd_env redeem_demo_accounts wd_store = Inr wd_ps"
    and "withdraw_tail redeem_demo_accounts wd_header wd_ps 8 = Inr (\<lparr>jt_relayer = None, jt_source_tree = None,
       jt_policy_start = None, jt_queued_leaves_start = None, jt_proof_buffer = None\<rparr>, None)"
    and "redeem_operation_hash wd_env redeem_demo_data wd_prefix [redeem_demo_output] 77 = Inr 0"
    and "redeem_total [redeem_demo_output] 5000 = Inr 1000"
proof -
  have h: "jh_n_inputs wd_header = 1" "jh_n_outputs wd_header = 1" "jh_n_public_outputs wd_header = 1" "jh_flags wd_header = 0"
    by (simp_all add: wd_header_def sp_header_def)
  have e: "jp_stealth_data_end wd_prefix = 388" "jp_bound_params_hash wd_prefix = 1" by (simp_all add: wd_prefix_def sp_prefix_def)
  have parse: "parse_header redeem_demo_data = Inr wd_header"
    "parse_prefix E s redeem_demo_data accounts wd_header 0 = Inr wd_prefix" for E s accounts
    using wd_parse(1,2) by (simp_all add: redeem_demo_data_def)
  have tail: "bslice 388 8 redeem_demo_data = bytes8 (1000 :: u64)" "bslice 396 1 redeem_demo_data = [1]" "bslice 397 1 redeem_demo_data = [0x51]"
    "bslice 398 8 redeem_demo_data = bytes8 (3 :: u64)" "length redeem_demo_data = 406"
    using wd_parse(3) by (simp_all add: redeem_demo_data_def bslice_def)
  show "redeem_data wd_env redeem_demo_accounts redeem_demo_data wd_store = Inr (wd_header, wd_prefix, [redeem_demo_output])"
    using tail by (simp add: redeem_data_def Let_def parse h e validate_public_outputs_def validate_account_count_def redeem_acc_list
        REDEEM_FIXED_ACCOUNTS_def read_u64_le_def take_bytes_def usize_checked_add_def PROOF_IN_BUFFER_def MAX_PUBLIC_OUTPUTS_def
        MAX_BTC_SCRIPT_LEN_def redeem_demo_output_def)
  have "owner (wd_store 65803) = ASSET_PROGRAM_ID" by (simp add: wd_store_simps settle_account_def)
  then show "redeem_accounts wd_env redeem_demo_accounts wd_store = Inr ()"
    by (simp add: redeem_accounts_def redeem_acc_list validate_program_owner_def wd_at validate_account_writable_def validate_system_program_def)
  show "redeem_token wd_env redeem_demo_accounts wd_store = Inr wd_token"
    by (simp add: redeem_token_def redeem_acc_list wd_at wd_token_fields dep_pdas Let_def wd_pool)
  show "live_pool wd_env redeem_demo_accounts wd_store = Inr wd_ps"
    by (simp add: live_pool_def redeem_acc_list wd_at wd_pool validate_active_tree_pda_def dep_pdas)
  show "withdraw_tail redeem_demo_accounts wd_header wd_ps 8 = Inr (\<lparr>jt_relayer = None, jt_source_tree = None,
       jt_policy_start = None, jt_queued_leaves_start = None, jt_proof_buffer = None\<rparr>, None)"
    by (simp add: withdraw_tail_def wd_pool policy_tail_from_flags_def h sp_flag resolve_joinsplit_tail_def take_n_def policy_account_count_def
        redeem_acc_list)
  show "redeem_operation_hash wd_env redeem_demo_data wd_prefix [redeem_demo_output] 77 = Inr 0"
    by (simp add: redeem_operation_hash_def compute_bound_params_hash_redeem_def wd_bound length_prefixed_hash_def length_prefixed_buffer_def redeem_demo_output_def
        LPH_CAP_def MAX_PUBLIC_OUTPUTS_def MAX_BTC_SCRIPT_LEN_def item_bytes_def)
  have "(1000 :: u64) \<le> 5000" by code_simp
  then show "redeem_total [redeem_demo_output] 5000 = Inr 1000"
    by (simp add: redeem_total_def redeem_demo_output_def checked_add_def not_less)
qed

lemma redeem_demo_run: "\<exists>s'. process_redeem wd_invoke accept_all wd_env redeem_demo_accounts redeem_demo_data wd_store = Inr s'"
proof -
  have h: "jh_n_inputs wd_header = 1" "jh_n_public_outputs wd_header = 1" "jp_bound_params_hash wd_prefix = 1"
    by (simp_all add: wd_header_def sp_header_def wd_prefix_def sp_prefix_def)
  obtain s2 where s2: "withdraw_spend accept_all wd_env redeem_demo_accounts wd_ps None wd_header wd_prefix 5 [1000] 6 wd_store = Inr s2"
      "pool_at s2 266 = Inr (add_nullifiers 1 wd_ps)" "\<forall>k. k \<notin> {266, sp_nullifier} \<longrightarrow> s2 k = wd_store k"
    using wd_spend [OF redeem_acc_list(1-4,8)] by blast
  have ks: "redeem_acc \<noteq> 266" "redeem_acc \<noteq> sp_nullifier" "redeem_acc \<noteq> dep_tok" by (simp_all add: redeem_acc_def sp_nullifier_def)
  have st: "s2 redeem_acc = \<lparr>lamports = 5, owner = 0, adata = []\<rparr>"
    using s2(3) ks by (simp add: wd_store_def dep_store_def blank_store_def redeem_acc_def)
  have sys: "rt_minimum_balance wd_env n = 1" "sys_allocate wd_env = demo_allocate" "sys_assign wd_env = demo_assign" for n
    by (simp_all add: wd_env_def sp_env_system)
  let ?s = "s2(redeem_acc := \<lparr>lamports = 5, owner = ASSET_PROGRAM_ID, adata = replicate 178 0\<rparr>)"
  have c: "create_pda_account wd_env 77 redeem_acc 1 178 (Suc (Suc (Suc (Suc (Suc 0))))) s2 = Inr ?s"
    by (simp add: create_pda_account_def create_or_claim_pda_def st Let_def sys demo_allocate_def demo_assign_def set_data_def)
  have fee: "compute_service_fee wd_ps 1000 = 0"
    by (simp add: compute_service_fee_def compute_withdrawal_fee_def bps_of_def wd_pool saturating_add_def)
  obtain r where r: "request_of 77 5 0 redeem_demo_output = Inr r"
    by (simp add: request_of_def set_btc_script_def redeem_demo_output_def MAX_BTC_SCRIPT_LEN_def)
  obtain s3 where s3: "write_front redeem_acc (encode_redemption_request r) ?s = Inr s3"
    using rrl.length_encode [of r] by (simp add: write_front_def put_front_def REDEMPTION_REQUEST_LEN_def)
  have "create_request wd_env 266 77 5 redeem_demo_output (demo_acc redeem_acc) s2 = Inr s3"
  proof -
    have o: "ro_nonce redeem_demo_output = 3" "ro_amount redeem_demo_output = 1000" by (simp_all add: redeem_demo_output_def)
    have p: "pool_at ?s 266 = Inr (add_nullifiers 1 wd_ps)" using s2(2) ks by simp
    have len: "length (request_seeds 266 77 3) = Suc (Suc (Suc (Suc 0)))" by (simp add: request_seeds_def)
    show ?thesis
      using c r s3 p by (simp add: create_request_def validate_account_writable_def redeem_acc_pda o st sys REDEMPTION_REQUEST_LEN_def fee Let_def len)
  qed
  then have req: "create_requests wd_env 266 77 5 [redeem_demo_output] [demo_acc redeem_acc] s2 = Inr s3" by simp
  have f3: "s3 k = s2 k" if "k \<noteq> redeem_acc" for k using s3 that by (auto simp: res_simps)
  have tok: "token_at s3 dep_tok = Inr wd_token" "pool_at s3 266 = Inr (add_nullifiers 1 wd_ps)"
    using f3 ks s2 wd_at(1) by (simp_all add: sp_nullifier_def redeem_acc_def)
  let ?tc = "wd_token\<lparr>tc_total_shielded := 4000\<rparr>"
  obtain s4 where s4: "write_front dep_tok (encode_token_config ?tc) s3 = Inr s4"
    using tcl.write_ok tok(1) unfolding token_config_from_bytes_def by blast
  then have p4: "pool_at s4 266 = Inr (add_nullifiers 1 wd_ps)" using tok(2) by (auto simp: res_simps)
  then obtain s5 where s5: "write_front 266 (encode_pool_state ((add_nullifiers 1 wd_ps)\<lparr>ps_total_shielded := 4000,
      ps_pending_redemptions := saturating_add 1 1, ps_last_update := clock_unix_timestamp wd_env\<rparr>)) s4 = Inr s5"
    using psl.write_ok unfolding pool_state_from_bytes_def by blast
  have led: "redeem_ledgers wd_env 266 dep_tok 1000 (saturating_add 1 1) s3 = Inr s5"
    using tok s4 s5 p4 by (simp add: redeem_ledgers_def tc_sub_shielded_def checked_sub_def wd_token_fields)
  have pol: "redeem_policy wd_invoke wd_env redeem_demo_accounts d p wd_ps tail None os wd_store = Inr wd_store" for d p tail os
    by (simp add: redeem_policy_def withdraw_policy_def resolve_spend_path_def wd_pool)
  note C = redeem_demo_checks
  show ?thesis
    using s2(1) req led C(5)
    by (simp add: process_redeem_def C(1-4,6,7) Let_def h REDEEM_FIXED_ACCOUNTS_def source_tree_account_def pol redeem_acc_list wd_pool
        check_binding_def wd_bound redeem_spend_def wd_token_fields) (simp add: redeem_demo_output_def)
qed

theorem redeem_opens_requests_witness:
  "\<exists>s' r. process_redeem wd_invoke accept_all wd_env redeem_demo_accounts redeem_demo_data wd_store = Inr s' \<and>
     request_at s' redeem_acc = Inr r \<and> requested 77 5 0 redeem_demo_output r"
proof -
  obtain s' where run: "process_redeem wd_invoke accept_all wd_env redeem_demo_accounts redeem_demo_data wd_store = Inr s'"
    using redeem_demo_run by blast
  from redeem_opens_requests [OF wd_system wd_kinds wd_request_kind wd_world run] obtain pool tc where
    P: "pool_at wd_store 266 = Inr pool \<and> token_at wd_store dep_tok = Inr tc \<and>
      redeemed wd_env redeem_demo_accounts pool tc wd_prefix [redeem_demo_output] wd_store s'"
    by (elim exE conjE) (simp add: redeem_demo_checks(1) redeem_acc_list)
  then have e: "pool = wd_ps" "tc = wd_token" using wd_at(1,2) by simp_all
  have a: "request_address wd_env 266 77 (ro_nonce redeem_demo_output) = redeem_acc"
    by (simp add: request_address_def redeem_acc_pda redeem_demo_output_def)
  have fee: "compute_service_fee wd_ps (ro_amount redeem_demo_output) = 0"
    by (simp add: compute_service_fee_def compute_withdrawal_fee_def bps_of_def wd_pool saturating_add_def)
  from P have "\<exists>r. request_at s' redeem_acc = Inr r \<and> requested 77 5 0 redeem_demo_output r"
    unfolding e by (simp add: redeemed_def Let_def redeem_acc_list a fee wd_token_fields)
  with run show ?thesis by blast
qed

end
