(* ===== verification/Spec2Isabelle.thy ===== *)
theory Spec2Isabelle
  imports LC_Program UX_Redemption UX_SPV UX_Secp UX_Token UX_Settle UX_Policy UX_Deposit
    UX_Groth16 UX_Joinsplit UX_Transact UX_Spend UX_Exit UX_Shield UX_Withdraw UX_Unshield UX_Redeem
begin

text \<open>
  The UTXOpia Solana programs hold bitcoin in a shielded pool on Solana. This development models
  three of them in HOL: the Bitcoin light client (\<open>programs/btc-light-client\<close>), which
  keeps a chain of block headers and attests that a transaction is in a finalised block; the core
  of the bridge (\<open>programs/utxopia\<close>), which credits deposits and keeps the pool's coins,
  its commitment tree and the requests to withdraw bitcoin; and the policy program
  (\<open>programs/utxopia-policy\<close>), which owns the approvals of permissioned pools.

  \<^bold>\<open>The machine underneath.\<close> \<open>Bridge_Prelude\<close> has the words of the
  program's integer types, the error type (one constructor per error the code returns), the error
  monad \<open>bindE\<close>, checked and saturating arithmetic and little-endian codecs.
  \<open>Solana_Runtime\<close> has accounts, the store (a function from addresses to accounts), the
  account infos of a call and the record \<open>env\<close> of everything outside the sources: the
  SHA-256, Keccak and Poseidon syscalls, program address derivation, the system program, the clock
  and the rent. What is relied on is stated as named hypotheses, each with a concrete
  instance: \<open>system_program_spec\<close> (what the system program's calls do),
  \<open>poseidon_spec\<close> (the Poseidon syscall succeeds exactly on canonical field elements),
  \<open>zero_ladder\<close> (the precomputed empty-subtree hashes are those of the hash in use) and
  absence of collisions among the strings a theorem names. A handler is a function from the
  environment, the account infos, the instruction data and the store to an error or a store; the
  runtime's roll-back on error is the absence of a store in an error. The locale
  \<open>account_layout\<close> is the contract of a zero-copy account (a length, a discriminator, an
  encoding and a decoding), and each account type of both programs is an interpretation of it or of
  \<open>array_layout\<close>, which drops the assumption that every record fits the layout.

  \<^bold>\<open>Light client.\<close> \<open>LC_U256\<close> and \<open>LC_U256_Arith\<close> are
  \<open>utils/u256.rs\<close>, \<open>LC_Difficulty\<close> and \<open>LC_Retarget\<close> are
  \<open>utils/pow.rs\<close> and \<open>utils/difficulty.rs\<close>; the theorems there say that the
  limb and byte loops compute the exact integers. \<open>LC_State\<close> has the accounts,
  \<open>LC_Verify\<close> the handlers \<open>verify_transaction\<close> and
  \<open>prune_obsolete_blocks\<close> with the Merkle climb, \<open>LC_Extend\<close>,
  \<open>LC_Chain\<close> and \<open>LC_Finality\<close> the handler \<open>extend_blockchain\<close>,
  \<open>LC_Init\<close> the two initialisers, \<open>LC_Program\<close> the dispatcher and the
  invariant of all reachable stores.

  \<^bold>\<open>Bridge.\<close> \<open>UX_State\<close> has the accounts of \<open>state/pool.rs\<close>,
  \<open>redemption.rs\<close>, \<open>utxo.rs\<close>, \<open>token_config.rs\<close> and
  \<open>pool_config.rs\<close> with their operations, and the checks of
  \<open>utils/validation.rs\<close> and \<open>utils/policy.rs\<close>. \<open>UX_Crypto\<close> is
  \<open>utils/crypto.rs\<close>: the reduction into the scalar field is the remainder, and the
  hashed preimages bind what they are meant to bind. \<open>UX_Tree\<close> is
  \<open>state/commitment_tree.rs\<close>: the frontier representation refines the list of leaves
  (locale \<open>commitment_log\<close>), a batch is the sequence of its insertions, the ring of
  roots accepts exactly the last 257 roots, and every leaf has a membership proof.
  \<open>UX_Bitcoin\<close> is the transaction parser of \<open>utils/bitcoin.rs\<close> against the
  consensus serialisation. \<open>UX_Sighash\<close> is \<open>utils/sighash.rs\<close>; the locale
  \<open>self_delimiting\<close> carries the unique decoding of the concatenated buffers.
  \<open>UX_Redemption\<close> has the handlers \<open>mark_processing\<close> and
  \<open>cancel_redemption\<close>; both run over UTXO accounts with a step that satisfies the
  locale \<open>utxo_transition\<close>, and the theorems give the whole effect of each handler on the
  store and that the second undoes the first. \<open>UX_SPV\<close> is
  \<open>state/verified_tx_reader.rs\<close> and \<open>utils/chadbuffer.rs\<close>: the bridge's
  readers of the light client's accounts agree with the light client's own layouts, and what
  \<open>verify_transaction\<close> recorded passes the bridge's confirmation gate.
  \<open>UX_Secp\<close> is \<open>utils/secp256k1.rs\<close>: the double-and-add loops compute the
  exact modular message given to the recovery syscall. \<open>UX_Token\<close> is
  \<open>utils/token.rs\<close>; calls into the token programs go through a parameter, and
  \<open>token_program_spec\<close> says what minting and burning do. \<open>UX_Settle\<close> is
  \<open>instructions/complete_redemption.rs\<close>: the payout rules split the reserved amount
  exactly into payout, tracked change and miner fee, the theorem on the handler gives its whole
  effect, and together with \<open>mark_processing\<close> the bitcoin held and the token supply go down
  by the same amount. \<open>UX_Policy\<close> is \<open>instructions/policy_approval.rs\<close>,
  its account and the separate program \<open>programs/utxopia-policy\<close>: the two programs
  decide alike when an approval is consumed, and its status moves along one graph only; the rollup
  library both call is the record \<open>rollups\<close>, a parameter. \<open>UX_Deposit\<close> is
  \<open>instructions/complete_deposit.rs\<close>: a deposit mints exactly what the confirmed output
  pays, and an output that is still recorded is not credited again. \<open>UX_Groth16\<close> is
  \<open>utils/groth16.rs\<close>, \<open>state/vk_registry.rs\<close> and
  \<open>instructions/init_vk_registry.rs\<close>: over the curve syscalls, the record
  \<open>bn254\<close> with the hypothesis \<open>bn254_spec\<close>, the verifier decides the Groth16 equation,
  and a frozen key never changes. \<open>UX_Joinsplit\<close> is
  \<open>instructions/joinsplit_common.rs\<close>, what the shielded spends share, \<open>UX_Transact\<close>
  the handlers of \<open>transact.rs\<close> and \<open>merge_queued_leaves.rs\<close>, and
  \<open>UX_Spend\<close> the theorems on them: what authorises a transfer and what it changes, no double
  spend in any history, and queueing as a mere delay. They rest on \<open>pda_kinds_separate\<close>:
  addresses derived from the seeds of the pool, the trees, the nullifiers and the queued leaves differ.
  \<open>UX_Exit\<close> is the registry of exit destinations, \<open>state/exit_destination.rs\<close> and
  \<open>instructions/exit_destination.rs\<close>, and \<open>instructions/rotate_tree.rs\<close>: registered
  exits stay, the notes of a rotated tree stay spendable, and a leaf queued for a full tree is stranded.
  \<open>UX_Shield\<close> is \<open>instructions/shield.rs\<close>, \<open>UX_Withdraw\<close> the steps that the
  two withdrawals share, \<open>UX_Unshield\<close> \<open>instructions/unshield.rs\<close> and
  \<open>claim_fees.rs\<close>, \<open>UX_Redeem\<close> \<open>instructions/redeem.rs\<close>: a deposit is credited with what
  arrived in the vault, a withdrawal needs the proof, the user's signature and, in a permissioned pool, an
  approval or a registered exit, and what a vault holds beyond its notes and fees does not change. The
  hypothesis \<open>token_transfer_spec\<close> says what the token programs' transfers do;
  \<open>config_kind_separate\<close> and \<open>request_kind_separate\<close> say that addresses of token
  configurations and requests are of their own kind.

  \<^bold>\<open>Bounds.\<close> No fuel is used: every loop of the modelled code is structural recursion
  over a list or a counter, or a function with a proved measure. Machine integers are words of their
  width; where the code indexes arrays by \<open>usize\<close> the model uses natural numbers and
  writes out the checked additions at \<open>2 ^ 64\<close>.

  \<^bold>\<open>Not modelled.\<close> Log events; run-time borrow checks of account data; compute budget;
  signing approval of redemptions, the administrative
  instructions and the delegation instructions of the bridge.
\<close>

end
